(* ===== verification/Prelude.thy ===== *)
theory Prelude
  imports Main "HOL-Library.Word"
begin

text \<open>
  What every theory of the development shares: names for the machine integers of the C++
  sources, the exceptions the code throws as values, the result type of a computation that may
  throw (\<open>res\<close>), the type of a computation that also changes a state (\<open>M\<close>), the sequencing
  operators of both, a small logic of pre- and postconditions for \<open>M\<close>, and generic lemmas on
  lists and words.
\<close>

unbundle bit_operations_syntax

text \<open>Sizes and offsets stay sums with numerals.\<close>

declare add_2_eq_Suc [simp del] add_2_eq_Suc' [simp del]

section \<open>Machine integers\<close>

type_synonym u8 = "8 word"
type_synonym u16 = "16 word"
type_synonym u32 = "32 word"
type_synonym u64 = "64 word"

text \<open>Facts that move a word computation to the natural numbers, for one \<open>simp add\<close>.\<close>

named_theorems word_nat "conversions of word arithmetic to natural numbers"

lemma unat_of_nat_small [word_nat]:
  "n < 2 ^ LENGTH('a) \<Longrightarrow> unat (of_nat n :: 'a::len word) = n"
  by (simp add: unat_of_nat)

lemma unat_add_small [word_nat]:
  fixes a b :: "'a::len word"
  shows "unat a + unat b < 2 ^ LENGTH('a) \<Longrightarrow> unat (a + b) = unat a + unat b"
  by (simp add: unat_word_ariths)

lemma unat_mult_small [word_nat]:
  fixes a b :: "'a::len word"
  shows "unat a * unat b < 2 ^ LENGTH('a) \<Longrightarrow> unat (a * b) = unat a * unat b"
  by (simp add: unat_word_ariths)

lemma unat_sub_small [word_nat]:
  fixes a b :: "'a::len word"
  shows "unat b \<le> unat a \<Longrightarrow> unat (a - b) = unat a - unat b"
  by (simp add: unat_sub word_le_nat_alt)

lemma unat_u16_lt: "unat (x :: u16) < 65536"
  using unsigned_less [of x, where ?'a = nat] by simp

lemma unat_u8_lt: "unat (x :: u8) < 256"
  using unsigned_less [of x, where ?'a = nat] by simp

lemma unat_u32_lt: "unat (x :: u32) < 4294967296"
  using unsigned_less [of x, where ?'a = nat] by simp

lemma unat_u64_lt: "unat (x :: u64) < 18446744073709551616"
  using unsigned_less [of x, where ?'a = nat] by simp

lemmas unat_bounds = unat_u8_lt unat_u16_lt unat_u32_lt unat_u64_lt

lemma unat_ucast_16_64 [simp]: "unat (ucast (x :: u16) :: u64) = unat x"
  by (simp add: unsigned_ucast_eq take_bit_nat_eq_self unat_bounds less_trans [OF unat_bounds(1)] less_trans [OF unat_bounds(2)] less_trans [OF unat_bounds(3)])

lemma unat_ucast_32_64 [simp]: "unat (ucast (x :: u32) :: u64) = unat x"
  by (simp add: unsigned_ucast_eq take_bit_nat_eq_self unat_bounds less_trans [OF unat_bounds(1)] less_trans [OF unat_bounds(2)] less_trans [OF unat_bounds(3)])

lemma unat_ucast_16_32 [simp]: "unat (ucast (x :: u16) :: u32) = unat x"
  by (simp add: unsigned_ucast_eq take_bit_nat_eq_self unat_bounds less_trans [OF unat_bounds(1)] less_trans [OF unat_bounds(2)] less_trans [OF unat_bounds(3)])

lemma unat_ucast_8_64 [simp]: "unat (ucast (x :: u8) :: u64) = unat x"
  by (simp add: unsigned_ucast_eq take_bit_nat_eq_self unat_bounds less_trans [OF unat_bounds(1)] less_trans [OF unat_bounds(2)] less_trans [OF unat_bounds(3)])

section \<open>Exceptions and results\<close>

text \<open>
  The exceptions of the sources, with the text they carry. \<open>Undefined\<close> is not an exception of
  the program: it is the outcome of an operation the C++ standard leaves undefined (a load or a
  store outside the DMA buffer). A definition never tests for it, and the safety theorems show
  that it does not occur. \<open>OutOfFuel\<close> is the outcome of a loop that used up the rounds its
  model was given; theorems say how many rounds are enough.
\<close>

datatype exn =
    RuntimeError string
  | OutOfRange string
  | InvalidArgument string
  | SystemError int string
  | Undefined string
  | OutOfFuel

type_synonym 'a res = "exn + 'a"

definition bindR :: "'a res \<Rightarrow> ('a \<Rightarrow> 'b res) \<Rightarrow> 'b res" where
  "bindR m f = (case m of Inl e \<Rightarrow> Inl e | Inr a \<Rightarrow> f a)"

definition throw_if :: "bool \<Rightarrow> exn \<Rightarrow> unit res" where
  "throw_if b e = (if b then Inl e else Inr ())"

definition is_ub :: "exn \<Rightarrow> bool" where
  "is_ub e = (case e of Undefined _ \<Rightarrow> True | _ \<Rightarrow> False)"

lemma is_ub_simps [simp]:
  "\<not> is_ub (RuntimeError t)" "\<not> is_ub (OutOfRange t)" "\<not> is_ub (InvalidArgument t)"
  "\<not> is_ub (SystemError n t)" "is_ub (Undefined t)" "\<not> is_ub OutOfFuel"
  by (simp_all add: is_ub_def)

lemma bindR_simps [simp]:
  "bindR (Inl e) f = Inl e" "bindR (Inr a) f = f a"
  by (simp_all add: bindR_def)

named_theorems res_iff "when a computation with results returns normally"

lemma bindR_Inr_iff [res_iff]: "bindR m f = Inr b \<longleftrightarrow> (\<exists>a. m = Inr a \<and> f a = Inr b)"
  by (cases m) simp_all

lemma throw_if_Inr_iff [res_iff]: "throw_if b e = Inr u \<longleftrightarrow> \<not> b"
  by (simp add: throw_if_def)

lemma throw_if_simps [simp]:
  "throw_if True e = Inl e" "throw_if False e = Inr ()"
  by (simp_all add: throw_if_def)

lemma bindR_throw_if: "bindR (throw_if b e) f = (if b then Inl e else f ())"
  by (simp add: throw_if_def)

section \<open>Computations on a state\<close>

text \<open>
  A computation takes a state and gives a result and the state it leaves, also when it throws:
  the destructors that run while the stack unwinds act on that state.
\<close>

type_synonym ('s, 'a) M = "'s \<Rightarrow> 'a res \<times> 's"

definition returnM :: "'a \<Rightarrow> ('s, 'a) M" where
  "returnM a = (\<lambda>s. (Inr a, s))"

definition throwM :: "exn \<Rightarrow> ('s, 'a) M" where
  "throwM e = (\<lambda>s. (Inl e, s))"

definition bindM :: "('s, 'a) M \<Rightarrow> ('a \<Rightarrow> ('s, 'b) M) \<Rightarrow> ('s, 'b) M" where
  "bindM m f = (\<lambda>s. case m s of (Inl e, s') \<Rightarrow> (Inl e, s') | (Inr a, s') \<Rightarrow> f a s')"

abbreviation thenM :: "('s, 'a) M \<Rightarrow> ('s, 'b) M \<Rightarrow> ('s, 'b) M" where
  "thenM m n \<equiv> bindM m (\<lambda>_. n)"

definition liftR :: "'a res \<Rightarrow> ('s, 'a) M" where
  "liftR r = (\<lambda>s. (r, s))"

definition throw_ifM :: "bool \<Rightarrow> exn \<Rightarrow> ('s, unit) M" where
  "throw_ifM b e = (if b then throwM e else returnM ())"

text \<open>
  \<open>finallyM m c\<close> is a scope that holds one object with a destructor: \<open>c\<close> runs when the scope is
  left, normally or by an exception, and (as every destructor of these sources catches what it
  throws) its own result is dropped.
\<close>

definition finallyM :: "('s, 'a) M \<Rightarrow> ('s, unit) M \<Rightarrow> ('s, 'a) M" where
  "finallyM m c = (\<lambda>s. case m s of (r, s') \<Rightarrow> (r, snd (c s')))"

lemmas M_defs = returnM_def throwM_def bindM_def liftR_def throw_ifM_def finallyM_def

lemma bindM_returnM [simp]: "bindM (returnM a) f = f a"
  by (simp add: M_defs)

lemma bindM_throwM [simp]: "bindM (throwM e) f = throwM e"
  by (simp add: M_defs)

lemma bindM_assoc: "bindM (bindM m f) g = bindM m (\<lambda>x. bindM (f x) g)"
  by (rule ext) (simp add: bindM_def split: prod.splits sum.splits)

section \<open>Pre- and postconditions\<close>

text \<open>
  \<open>hoare P m Q E\<close>: started in a state with \<open>P\<close>, the computation ends in a state with \<open>Q\<close> of its
  result, or throws an exception \<open>e\<close> in a state with \<open>E e\<close>.
\<close>

definition hoare :: "('s \<Rightarrow> bool) \<Rightarrow> ('s, 'a) M \<Rightarrow> ('a \<Rightarrow> 's \<Rightarrow> bool) \<Rightarrow> (exn \<Rightarrow> 's \<Rightarrow> bool) \<Rightarrow> bool"
  where "hoare P m Q E \<longleftrightarrow>
    (\<forall>s. P s \<longrightarrow> (case m s of (Inl e, s') \<Rightarrow> E e s' | (Inr a, s') \<Rightarrow> Q a s'))"

lemma hoareI:
  "(\<And>s. P s \<Longrightarrow> case m s of (Inl e, s') \<Rightarrow> E e s' | (Inr a, s') \<Rightarrow> Q a s') \<Longrightarrow> hoare P m Q E"
  by (simp add: hoare_def)

lemma hoare_Inr: "hoare P m Q E \<Longrightarrow> P s \<Longrightarrow> m s = (Inr a, s') \<Longrightarrow> Q a s'"
  by (auto simp: hoare_def)

lemma hoare_Inl: "hoare P m Q E \<Longrightarrow> P s \<Longrightarrow> m s = (Inl e, s') \<Longrightarrow> E e s'"
  by (auto simp: hoare_def)

named_theorems hoare_rules "rules of the logic, one per operator and operation"

lemma hoare_returnM [hoare_rules]: "(\<And>s. P s \<Longrightarrow> Q a s) \<Longrightarrow> hoare P (returnM a) Q E"
  by (simp add: hoare_def M_defs)

lemma hoare_throwM [hoare_rules]: "(\<And>s. P s \<Longrightarrow> E e s) \<Longrightarrow> hoare P (throwM e) Q E"
  by (simp add: hoare_def M_defs)

lemma hoare_bindM:
  assumes "hoare P m R E" and "\<And>a. hoare (R a) (f a) Q E"
  shows "hoare P (bindM m f) Q E"
proof (rule hoareI)
  fix s assume "P s"
  with assms show "case bindM m f s of (Inl e, s') \<Rightarrow> E e s' | (Inr a, s') \<Rightarrow> Q a s'"
    by (fastforce simp: hoare_def bindM_def split: prod.splits sum.splits)
qed

lemma hoare_weaken:
  assumes "hoare P' m Q' E'" and "\<And>s. P s \<Longrightarrow> P' s"
    and "\<And>a s. Q' a s \<Longrightarrow> Q a s" and "\<And>e s. E' e s \<Longrightarrow> E e s"
  shows "hoare P m Q E"
  using assms by (fastforce simp: hoare_def split: prod.splits sum.splits)

lemma hoare_pre: "hoare P' m Q E \<Longrightarrow> (\<And>s. P s \<Longrightarrow> P' s) \<Longrightarrow> hoare P m Q E"
  by (rule hoare_weaken)

lemma hoare_post: "hoare P m Q' E \<Longrightarrow> (\<And>a s. Q' a s \<Longrightarrow> Q a s) \<Longrightarrow> hoare P m Q E"
  by (rule hoare_weaken)

lemma hoare_throw_ifM [hoare_rules]:
  "(\<And>s. P s \<Longrightarrow> b \<Longrightarrow> E e s) \<Longrightarrow> (\<And>s. P s \<Longrightarrow> \<not> b \<Longrightarrow> Q () s) \<Longrightarrow> hoare P (throw_ifM b e) Q E"
  by (simp add: hoare_def M_defs)

lemma hoare_liftR:
  "(\<And>s e. P s \<Longrightarrow> r = Inl e \<Longrightarrow> E e s) \<Longrightarrow> (\<And>s a. P s \<Longrightarrow> r = Inr a \<Longrightarrow> Q a s) \<Longrightarrow> hoare P (liftR r) Q E"
  by (auto simp: hoare_def M_defs split: sum.splits)

lemma hoare_if [hoare_rules]:
  "(b \<Longrightarrow> hoare P m Q E) \<Longrightarrow> (\<not> b \<Longrightarrow> hoare P n Q E) \<Longrightarrow> hoare P (if b then m else n) Q E"
  by simp

lemma hoare_const_pre:
  "(A \<Longrightarrow> hoare P m Q E) \<Longrightarrow> hoare (\<lambda>s. A \<and> P s) m Q E"
  by (auto simp: hoare_def)

text \<open>Safety: a computation that keeps \<open>I\<close> however it ends, and never meets undefined behaviour.\<close>

definition safe :: "('s \<Rightarrow> bool) \<Rightarrow> ('s, 'a) M \<Rightarrow> bool" where
  "safe I m \<longleftrightarrow> hoare I m (\<lambda>_. I) (\<lambda>e s. \<not> is_ub e \<and> I s)"

named_theorems safe_rules "computations that keep an invariant and are free of undefined behaviour"

lemma safe_returnM [safe_rules]: "safe I (returnM a)"
  by (simp add: safe_def hoare_returnM)

lemma safe_throwM [safe_rules]: "\<not> is_ub e \<Longrightarrow> safe I (throwM e)"
  by (simp add: safe_def hoare_throwM)

lemma safe_bindM [safe_rules]: "safe I m \<Longrightarrow> (\<And>a. safe I (f a)) \<Longrightarrow> safe I (bindM m f)"
  by (simp add: safe_def hoare_bindM [where R = "\<lambda>_. I"])

lemma safe_throw_ifM [safe_rules]: "\<not> is_ub e \<Longrightarrow> safe I (throw_ifM b e)"
  by (simp add: safe_def hoare_throw_ifM)

lemma safe_if [safe_rules]: "(b \<Longrightarrow> safe I m) \<Longrightarrow> (\<not> b \<Longrightarrow> safe I n) \<Longrightarrow> safe I (if b then m else n)"
  by simp

lemma safe_liftR: "(\<And>e. r = Inl e \<Longrightarrow> \<not> is_ub e) \<Longrightarrow> safe I (liftR r)"
  by (simp add: safe_def hoare_liftR)

lemma safe_bind_guard:
  "\<not> is_ub e \<Longrightarrow> (\<not> b \<Longrightarrow> safe I m) \<Longrightarrow> safe I (thenM (throw_ifM b e) m)"
  by (cases b) (simp_all add: throw_ifM_def safe_throwM)

lemma safe_finallyM [safe_rules]: "safe I m \<Longrightarrow> safe I c \<Longrightarrow> safe I (finallyM m c)"
proof (unfold safe_def, rule hoareI)
  fix s assume m: "hoare I m (\<lambda>_. I) (\<lambda>e s. \<not> is_ub e \<and> I s)"
    and c: "hoare I c (\<lambda>_. I) (\<lambda>e s. \<not> is_ub e \<and> I s)" and s: "I s"
  obtain r s1 where r: "m s = (r, s1)" by fastforce
  from m s have "case m s of (Inl e, s') \<Rightarrow> \<not> is_ub e \<and> I s' | (Inr a, s') \<Rightarrow> I s'"
    by (simp add: hoare_def)
  with r have 1: "I s1" "\<And>e. r = Inl e \<Longrightarrow> \<not> is_ub e"
    by (cases r; simp)+
  from c 1 have "case c s1 of (Inl e, s') \<Rightarrow> \<not> is_ub e \<and> I s' | (Inr a, s') \<Rightarrow> I s'"
    by (simp add: hoare_def)
  then have "I (snd (c s1))"
    by (cases "c s1"; cases "fst (c s1)") simp_all
  with r 1 show "case finallyM m c s of (Inl e, s') \<Rightarrow> \<not> is_ub e \<and> I s' | (Inr a, s') \<Rightarrow> I s'"
    by (auto simp: finallyM_def split: sum.splits)
qed

lemma safe_case_prod [safe_rules]:
  "(\<And>x y. safe I (f x y)) \<Longrightarrow> safe I (case p of (x, y) \<Rightarrow> f x y)"
  by (cases p) simp

lemma safe_case_sum [safe_rules]:
  "(\<And>x. safe I (f x)) \<Longrightarrow> (\<And>y. safe I (g y)) \<Longrightarrow> safe I (case p of Inl x \<Rightarrow> f x | Inr y \<Rightarrow> g y)"
  by (cases p) simp_all

lemma safe_case_option [safe_rules]:
  "safe I m \<Longrightarrow> (\<And>y. safe I (g y)) \<Longrightarrow> safe I (case p of None \<Rightarrow> m | Some y \<Rightarrow> g y)"
  by (cases p) simp_all

named_theorems run_iff "when a computation returns normally, and in which state"

lemma bindM_Inr_iff [run_iff]:
  "bindM m f s = (Inr b, s') \<longleftrightarrow> (\<exists>a s1. m s = (Inr a, s1) \<and> f a s1 = (Inr b, s'))"
  by (auto simp: bindM_def split: prod.splits sum.splits)

lemma throw_ifM_Inr_iff [run_iff]: "throw_ifM b e s = (Inr u, s') \<longleftrightarrow> \<not> b \<and> s' = s"
  by (auto simp: throw_ifM_def M_defs)

lemma returnM_Inr_iff [run_iff]: "returnM a s = (Inr b, s') \<longleftrightarrow> b = a \<and> s' = s"
  by (auto simp: M_defs)

lemma throwM_Inr_iff [run_iff]: "\<not> throwM e s = (Inr b, s')"
  by (simp add: M_defs)

lemma liftR_Inr_iff [run_iff]: "liftR r s = (Inr b, s') \<longleftrightarrow> r = Inr b \<and> s' = s"
  by (auto simp: M_defs)

section \<open>Loops over a list\<close>

text \<open>A \<open>for\<close> loop whose body neither breaks nor returns.\<close>

primrec forM :: "'a list \<Rightarrow> ('a \<Rightarrow> ('s, unit) M) \<Rightarrow> ('s, unit) M" where
  "forM [] f = returnM ()"
| "forM (x # xs) f = thenM (f x) (forM xs f)"

lemma safe_forM [safe_rules]: "(\<And>x. x \<in> set xs \<Longrightarrow> safe I (f x)) \<Longrightarrow> safe I (forM xs f)"
  by (induction xs) (simp_all add: safe_rules)

lemma forM_append: "forM (xs @ ys) f = thenM (forM xs f) (forM ys f)"
  by (induction xs) (simp_all add: bindM_assoc)

lemma bindM_run: "m s = (Inr a, s1) \<Longrightarrow> f a s1 = r \<Longrightarrow> bindM m f s = r"
  by (simp add: bindM_def)

lemma forM_snoc_run:
  "forM xs f s = (Inr (), s1) \<Longrightarrow> f x s1 = (Inr (), s2) \<Longrightarrow> forM (xs @ [x]) f s = (Inr (), s2)"
  by (simp add: forM_append bindM_def returnM_def)

section \<open>Decimal numerals in messages\<close>

text \<open>\<open>std::to_string\<close> of an unsigned value.\<close>

fun to_string :: "nat \<Rightarrow> string" where
  "to_string n = (if n < 10 then [char_of (48 + n)] else to_string (n div 10) @ [char_of (48 + n mod 10)])"

declare to_string.simps [simp del]

section \<open>Lists\<close>

text \<open>Overwriting a slice, as a store of several bytes does.\<close>

definition overwrite :: "nat \<Rightarrow> 'a list \<Rightarrow> 'a list \<Rightarrow> 'a list" where
  "overwrite p ys xs = take p xs @ ys @ drop (p + length ys) xs"

definition segment :: "nat \<Rightarrow> nat \<Rightarrow> 'a list \<Rightarrow> 'a list" where
  "segment p n xs = take n (drop p xs)"

lemma length_overwrite [simp]: "p + length ys \<le> length xs \<Longrightarrow> length (overwrite p ys xs) = length xs"
  by (simp add: overwrite_def)

lemma length_segment [simp]: "p + n \<le> length xs \<Longrightarrow> length (segment p n xs) = n"
  by (simp add: segment_def)

lemma nth_overwrite:
  "p + length ys \<le> length xs \<Longrightarrow> i < length xs \<Longrightarrow>
     overwrite p ys xs ! i = (if p \<le> i \<and> i < p + length ys then ys ! (i - p) else xs ! i)"
  by (auto simp: overwrite_def nth_append)

lemma nth_segment [simp]: "p + n \<le> length xs \<Longrightarrow> i < n \<Longrightarrow> segment p n xs ! i = xs ! (p + i)"
  by (simp add: segment_def)

lemma segment_overwrite_same [simp]:
  "p + length ys \<le> length xs \<Longrightarrow> segment p (length ys) (overwrite p ys xs) = ys"
  by (rule nth_equalityI) (simp_all add: nth_overwrite)

lemma segment_overwrite_other:
  assumes "p + length ys \<le> length xs" and "q + n \<le> length xs"
    and "q + n \<le> p \<or> p + length ys \<le> q"
  shows "segment q n (overwrite p ys xs) = segment q n xs"
  using assms by (intro nth_equalityI) (auto simp: nth_overwrite)

lemma segment_eqI:
  assumes "p + n \<le> length xs" and "length ys = n" and "\<And>i. i < n \<Longrightarrow> xs ! (p + i) = ys ! i"
  shows "segment p n xs = ys"
  using assms by (intro nth_equalityI) auto

text \<open>Stores one after the other next to each other are one store.\<close>

lemma overwrite_adjacent:
  assumes "p + length xs = q" and "q + length ys \<le> length m"
  shows "overwrite q ys (overwrite p xs m) = overwrite p (xs @ ys) m"
  using assms by (intro nth_equalityI) (auto simp: nth_overwrite nth_append)

lemma segment_split:
  "segment p (n + k) m = segment p n m @ segment (p + n) k m"
  unfolding segment_def take_add drop_drop by (simp add: add.commute)

section \<open>Slots of a ring\<close>

lemma mod_slots_distinct:
  fixes q :: nat
  assumes "k < n" and "n < q"
  shows "(a + k) mod q \<noteq> (a + n) mod q"
proof
  assume "(a + k) mod q = (a + n) mod q"
  then have "q dvd (a + n) - (a + k)"
    using assms(1) by (intro mod_eq_dvd_iff_nat [THEN iffD1]) simp_all
  with assms show False by (auto dest: dvd_imp_le)
qed

lemma ring_distance:
  fixes q :: nat
  assumes "h < q" and "n < q"
  shows "((h + n) mod q + q - h) mod q = n"
proof (cases "h + n < q")
  case False
  with assms have "(h + n) mod q = h + n - q" by (simp add: mod_if)
  with assms False show ?thesis by simp
qed (use assms in simp)

end
