(* ===== verification/Bytes.thy ===== *)
theory Bytes
  imports Prelude
begin

text \<open>
  Byte encodings. The host is little-endian (\<open>virtio_net_vfio.hpp\<close> asserts it), so a typed load
  or store of the sources is the little-endian encoding of the value; \<open>nat_le\<close>, \<open>le_nat\<close>,
  \<open>le_bytes\<close> and \<open>le_word\<close> give it for every width. The byte helpers of
  \<open>userspace_drivers/virtio_net_vfio.hpp\<close> (\<open>read_le16_from_bytes\<close>, \<open>read_be16_from_bytes\<close>,
  \<open>write_be16_to_bytes\<close>, \<open>write_le32_to_bytes\<close>) and the recombination of register halves
  are modelled with their shifts and masks and shown to agree with it. The locale \<open>byte_store\<close> is the interface of a byte-addressed memory; typed
  access to it is proved once there.
\<close>

section \<open>Little-endian encodings of every width\<close>

primrec nat_le :: "nat \<Rightarrow> nat \<Rightarrow> u8 list" where
  "nat_le 0 x = []"
| "nat_le (Suc n) x = of_nat x # nat_le n (x div 256)"

primrec le_nat :: "u8 list \<Rightarrow> nat" where
  "le_nat [] = 0"
| "le_nat (b # bs) = unat b + 256 * le_nat bs"

definition le_bytes :: "nat \<Rightarrow> 'a::len word \<Rightarrow> u8 list" where
  "le_bytes n w = nat_le n (unat w)"

definition le_word :: "u8 list \<Rightarrow> 'a::len word" where
  "le_word bs = of_nat (le_nat bs)"

lemma length_nat_le [simp]: "length (nat_le n x) = n"
  by (induction n arbitrary: x) simp_all

lemma length_le_bytes [simp]: "length (le_bytes n w) = n"
  by (simp add: le_bytes_def)

lemma le_nat_nat_le: "le_nat (nat_le n x) = x mod 256 ^ n"
proof (induction n arbitrary: x)
  case (Suc n)
  have "le_nat (nat_le (Suc n) x) = x mod 256 + 256 * (x div 256 mod 256 ^ n)"
    by (simp add: Suc.IH unat_of_nat)
  also have "\<dots> = x mod (256 * 256 ^ n)"
    using mod_mult2_eq [of x 256 "256 ^ n"] by simp
  finally show ?case by simp
qed simp

lemma le_nat_less: "le_nat bs < 256 ^ length bs"
proof (induction bs)
  case (Cons b bs)
  have "unat b < 256" by (rule unat_u8_lt)
  moreover have "Suc (le_nat bs) \<le> 256 ^ length bs" using Cons.IH by simp
  then have "256 * Suc (le_nat bs) \<le> 256 * 256 ^ length bs" by (rule mult_le_mono2)
  ultimately show ?case by simp
qed simp

lemma nat_le_le_nat: "nat_le (length bs) (le_nat bs) = bs"
proof (induction bs)
  case (Cons b bs)
  have "unat b < 256" by (rule unat_u8_lt)
  then have "(unat b + 256 * le_nat bs) div 256 = le_nat bs" by simp
  moreover have "(of_nat (unat b + 256 * le_nat bs) :: u8) = b"
  proof (rule word_unat_eq_iff [THEN iffD2])
    have "unat (of_nat (unat b + 256 * le_nat bs) :: u8) = (unat b + 256 * le_nat bs) mod 256"
      by (subst unat_of_nat) simp
    also have "\<dots> = unat b" using \<open>unat b < 256\<close> by simp
    finally show "unat (of_nat (unat b + 256 * le_nat bs) :: u8) = unat b" .
  qed
  ultimately show ?case using Cons.IH by simp
qed simp

lemma le_word_le_bytes:
  fixes w :: "'a::len word"
  assumes "LENGTH('a) \<le> 8 * n"
  shows "le_word (le_bytes n w) = w"
proof -
  have "(2::nat) ^ LENGTH('a) \<le> 2 ^ (8 * n)" using assms by (rule power_increasing) simp
  with unsigned_less [of w, where ?'a = nat] have "unat w < 2 ^ (8 * n)"
    by (rule less_le_trans)
  then have "unat w < 256 ^ n" by (simp add: power_mult)
  then show ?thesis by (simp add: le_word_def le_bytes_def le_nat_nat_le)
qed

lemma le_bytes_le_word:
  assumes "8 * length bs \<le> LENGTH('a)"
  shows "le_bytes (length bs) (le_word bs :: 'a::len word) = bs"
proof -
  have "le_nat bs < 2 ^ (8 * length bs)" using le_nat_less [of bs] by (simp add: power_mult)
  also have "\<dots> \<le> 2 ^ LENGTH('a)" using assms by (rule power_increasing) simp
  finally show ?thesis by (simp add: le_word_def le_bytes_def unat_of_nat nat_le_le_nat)
qed

lemma le_word_16 [simp]: "le_word (le_bytes 2 w) = (w :: u16)"
  by (rule le_word_le_bytes) simp

lemma le_word_32 [simp]: "le_word (le_bytes 4 w) = (w :: u32)"
  by (rule le_word_le_bytes) simp

lemma le_word_64 [simp]: "le_word (le_bytes 8 w) = (w :: u64)"
  by (rule le_word_le_bytes) simp

section \<open>The byte helpers of the sources\<close>

text \<open>A pointer to bytes is the list of the bytes from there on.\<close>

definition read_le16_from_bytes :: "u8 list \<Rightarrow> u16" where
  "read_le16_from_bytes bytes = ucast (bytes ! 0) OR push_bit 8 (ucast (bytes ! 1))"

definition read_be16_from_bytes :: "u8 list \<Rightarrow> u16" where
  "read_be16_from_bytes bytes = ucast (bytes ! 1) OR push_bit 8 (ucast (bytes ! 0))"

text \<open>What the writing helpers store at the pointer.\<close>

definition write_be16_to_bytes :: "u16 \<Rightarrow> u8 list" where
  "write_be16_to_bytes value = [ucast (drop_bit 8 value), ucast (value AND 0xff)]"

definition write_le32_to_bytes :: "u32 \<Rightarrow> u8 list" where
  "write_le32_to_bytes value =
     [ucast (value AND 0xff), ucast (drop_bit 8 value AND 0xff),
      ucast (drop_bit 16 value AND 0xff), ucast (drop_bit 24 value AND 0xff)]"

lemma length_write_be16 [simp]: "length (write_be16_to_bytes v) = 2"
  by (simp add: write_be16_to_bytes_def)

lemma length_write_le32 [simp]: "length (write_le32_to_bytes v) = 4"
  by (simp add: write_le32_to_bytes_def)

lemma byte_mask: "(255 :: 'a::len word) = mask 8"
  by (simp add: mask_eq_exp_minus_1)

lemma read_be16_write_be16 [simp]: "read_be16_from_bytes (write_be16_to_bytes v @ rest) = v"
  by (rule bit_word_eqI)
    (auto simp: read_be16_from_bytes_def write_be16_to_bytes_def byte_mask bit_simps)

lemma write_be16_read_be16: "write_be16_to_bytes (read_be16_from_bytes [a, b]) = [a, b]"
proof -
  have "ucast (drop_bit 8 (ucast b OR push_bit 8 (ucast a) :: u16)) = a"
    by (rule bit_word_eqI) (auto simp: bit_simps dest: bit_imp_le_length)
  moreover have "ucast ((ucast b OR push_bit 8 (ucast a) :: u16) AND 0xff) = b"
    by (rule bit_word_eqI) (auto simp: byte_mask bit_simps)
  ultimately show ?thesis
    by (simp add: read_be16_from_bytes_def write_be16_to_bytes_def)
qed

text \<open>Shifting a byte into an empty place is adding a multiple of a power of 256.\<close>

lemma or_push_bit_add:
  fixes a b :: "'a::len word"
  assumes "unat a < 2 ^ k"
  shows "a OR push_bit k b = a + push_bit k b"
proof -
  have "\<not> bit a n \<or> \<not> bit (push_bit k b) n" for n
  proof (cases "n < k")
    case False
    have "\<not> bit (unat a) n"
    proof -
      have "(2::nat) ^ k \<le> 2 ^ n" using False by (intro power_increasing) simp_all
      with assms have "unat a < 2 ^ n" by (rule less_le_trans)
      then show ?thesis by (simp add: bit_iff_odd)
    qed
    then show ?thesis by (auto simp: bit_unsigned_iff dest: bit_imp_le_length)
  qed (simp add: bit_simps)
  then show ?thesis by (simp add: disjunctive_add)
qed

lemma read_le16_le_word: "read_le16_from_bytes [a, b] = le_word [a, b]"
proof -
  have "unat (ucast a :: u16) < 2 ^ 8"
    using unat_u8_lt [of a] by (simp add: unsigned_ucast_eq take_bit_nat_eq_self)
  then have "read_le16_from_bytes [a, b] = ucast a + push_bit 8 (ucast b)"
    by (simp add: read_le16_from_bytes_def or_push_bit_add)
  also have "\<dots> = of_nat (unat a + 256 * unat b)"
    by (simp add: push_bit_eq_mult)
  finally show ?thesis by (simp add: le_word_def)
qed

text \<open>The stores of \<open>write_le32_to_bytes\<close> are the little-endian encoding.\<close>

lemma write_le32_le_bytes: "write_le32_to_bytes v = le_bytes 4 v"
proof -
  have byte: "ucast (drop_bit k v AND 0xff) = (of_nat (unat v div 2 ^ k) :: u8)" for k
  proof -
    have "(of_nat (unat v div 2 ^ k) :: u8) = ucast (drop_bit k v)"
    proof -
      have "(of_nat (unat v div 2 ^ k) :: u8) = of_nat (unat (drop_bit k v))"
        by (simp only: unat_drop_bit_eq) (simp only: drop_bit_eq_div)
      then show ?thesis by (simp only: of_nat_unat)
    qed
    moreover have "ucast (drop_bit k v AND 0xff) = (ucast (drop_bit k v) :: u8)"
      by (rule bit_word_eqI) (auto simp: byte_mask bit_simps)
    ultimately show ?thesis by simp
  qed
  have "ucast (v AND 0xff) = (of_nat (unat v) :: u8)" using byte [of 0] by simp
  moreover have four: "(4::nat) = Suc (Suc (Suc (Suc 0)))" by simp
  moreover have "nat_le (Suc (Suc (Suc (Suc 0)))) x =
      [of_nat x, of_nat (x div 2 ^ 8), of_nat (x div 2 ^ 16), of_nat (x div 2 ^ 24)]" for x
    by (simp add: div_mult2_eq [symmetric])
  then have "nat_le 4 (unat v) = [of_nat (unat v), of_nat (unat v div 2 ^ 8),
      of_nat (unat v div 2 ^ 16), of_nat (unat v div 2 ^ 24)]"
    by (subst four) (simp only:)
  ultimately show ?thesis
    unfolding write_le32_to_bytes_def le_bytes_def by (simp only: byte)
qed

section \<open>The interface of a byte-addressed memory\<close>

text \<open>
  \<open>cap\<close> is the number of bytes, \<open>rd p n\<close> reads \<open>n\<close> bytes at \<open>p\<close> and \<open>wr p bs\<close> stores the bytes
  \<open>bs\<close> there. What a client relies on: a read gives back what was stored there, a store
  elsewhere does not change it, and a memory keeps its size.
\<close>

locale byte_store =
  fixes cap :: "'m \<Rightarrow> nat"
    and rd :: "nat \<Rightarrow> nat \<Rightarrow> 'm \<Rightarrow> u8 list"
    and wr :: "nat \<Rightarrow> u8 list \<Rightarrow> 'm \<Rightarrow> 'm"
  assumes cap_wr: "p + length bs \<le> cap m \<Longrightarrow> cap (wr p bs m) = cap m"
    and rd_wr_same: "p + length bs \<le> cap m \<Longrightarrow> rd p (length bs) (wr p bs m) = bs"
    and rd_wr_other: "p + length bs \<le> cap m \<Longrightarrow> q + n \<le> cap m \<Longrightarrow>
      q + n \<le> p \<or> p + length bs \<le> q \<Longrightarrow> rd q n (wr p bs m) = rd q n m"
begin

text \<open>Typed access: a word of \<open>n\<close> bytes.\<close>

definition rdw :: "nat \<Rightarrow> nat \<Rightarrow> 'm \<Rightarrow> 'a::len word" where
  "rdw n p m = le_word (rd p n m)"

lemma rdw_wr_same:
  fixes v :: "'a::len word"
  assumes "p + n \<le> cap m" and "LENGTH('a) \<le> 8 * n"
  shows "rdw n p (wr p (le_bytes n v) m) = v"
  using rd_wr_same [of p "le_bytes n v" m] assms by (simp add: rdw_def le_word_le_bytes)

lemma rdw_wr_other:
  assumes "p + length bs \<le> cap m" and "q + n \<le> cap m" and "q + n \<le> p \<or> p + length bs \<le> q"
  shows "rdw n q (wr p bs m) = rdw n q m"
  using rd_wr_other [OF assms] by (simp add: rdw_def)

end

interpretation bytes: byte_store length segment overwrite
  by unfold_locales (simp_all add: segment_overwrite_other)

end
