(* ===== verification/World.thy ===== *)
theory World
  imports Bytes
begin

text \<open>
  The state the driver code runs on and the operations of its environment. The state (\<open>st\<close>) holds
  the bytes of the anonymous DMA buffer, the monotonic clock in nanoseconds, the trace of what the
  driver did to the outside, and the rest of the world (device, kernel) as a value of an unknown
  type. The environment (\<open>env\<close>) is not code of the repository: it is a record of functions that
  every definition which talks to the device or to the kernel takes as its argument. Also here:
  the DMA buffer accesses, \<open>MappedRegion\<close>, \<open>AnonymousBuffer\<close> and \<open>DmaMapping\<close> of
  \<open>userspace_drivers/vfio_utils.hpp\<close>.
\<close>

section \<open>State and environment\<close>

text \<open>
  What the driver does to the outside, in order: writes to device registers (width in bytes,
  offset in the VFIO device file, value), reads and writes of PCI config space (offset in the
  device file, number of bytes or the bytes), the life of the DMA buffer and of its IOMMU mapping,
  and interrupt set-up.
\<close>

datatype event =
    MmioWrite nat u64 u64
  | ConfigRead u64 nat
  | ConfigWrite u64 "u8 list"
  | BufferAlloc u64
  | BufferFree
  | DmaMap u64 u64 u32
  | DmaUnmap u64 u64
  | IrqSet u32 u32 "int list"
  | IrqDisable u32

text \<open>
  The state. The fields from \<open>sel_changed\<close> on are the private members, changed after
  construction, of the objects with a destructor: \<open>QueueSelectionGuard\<close>, \<open>DeviceResetGuard\<close>,
  \<open>PciCommandGuard\<close>, \<open>DmaMapping\<close> and \<open>IrqIndexBindingGuard\<close>. A program of this repository has at most one object of each
  class alive.
\<close>

record 'w st =
  mem :: "u8 list"
  time :: nat
  trace :: "event list"
  world :: 'w
  sel_changed :: bool
  reset_active :: bool
  pci_current :: u16
  pci_restored :: bool
  dma_active :: bool
  irq_active :: bool

text \<open>
  The environment. \<open>env_mmio_read w off\<close> and \<open>env_mmio_write\<close> are accesses to a mapped device
  register, \<open>env_dma\<close> is what the device does to the DMA buffer until the next access that the
  compiler must not move or merge, \<open>env_delay\<close> the time that passes before the next reading of the
  clock; the others are the system calls of the sources. A result \<open>Inl n\<close> or \<open>Some n\<close> is the
  \<open>errno\<close> of a failed call. \<open>env_fuel\<close> bounds the rounds of the loops that repeat an interrupted
  or partial transfer.
\<close>

record 'w env =
  env_mmio_read :: "nat \<Rightarrow> u64 \<Rightarrow> 'w \<Rightarrow> u64 \<times> 'w"
  env_mmio_write :: "nat \<Rightarrow> u64 \<Rightarrow> u64 \<Rightarrow> 'w \<Rightarrow> 'w"
  env_dma :: "u8 list \<Rightarrow> 'w \<Rightarrow> u8 list \<times> 'w"
  env_delay :: "'w \<Rightarrow> nat \<times> 'w"
  env_strerror :: "int \<Rightarrow> string"
  env_pread :: "u64 \<Rightarrow> nat \<Rightarrow> 'w \<Rightarrow> (int + u8 list) \<times> 'w"
  env_pwrite :: "u64 \<Rightarrow> u8 list \<Rightarrow> 'w \<Rightarrow> (int + nat) \<times> 'w"
  env_mmap :: "u64 \<Rightarrow> u64 \<Rightarrow> bool \<Rightarrow> 'w \<Rightarrow> int option \<times> 'w"
  env_mmap_anon :: "u64 \<Rightarrow> 'w \<Rightarrow> int option \<times> 'w"
  env_map_dma :: "u64 \<Rightarrow> u64 \<Rightarrow> u32 \<Rightarrow> 'w \<Rightarrow> int option \<times> 'w"
  env_unmap_dma :: "u64 \<Rightarrow> u64 \<Rightarrow> 'w \<Rightarrow> (int + u64) \<times> 'w"
  env_region_info :: "u32 \<Rightarrow> nat \<Rightarrow> 'w \<Rightarrow> (int + u8 list) \<times> 'w"
  env_num_irqs :: "'w \<Rightarrow> (int + u32) \<times> 'w"
  env_irq_info :: "u32 \<Rightarrow> 'w \<Rightarrow> (int + u32 \<times> u32) \<times> 'w"
  env_set_irqs :: "u32 \<Rightarrow> u32 \<Rightarrow> int list \<Rightarrow> 'w \<Rightarrow> int option \<times> 'w"
  env_disable_irq :: "u32 \<Rightarrow> 'w \<Rightarrow> int option \<times> 'w"
  env_eventfd :: "'w \<Rightarrow> (int + int) \<times> 'w"
  env_read_eventfd :: "int \<Rightarrow> 'w \<Rightarrow> (int + nat \<times> u64) \<times> 'w"
  env_poll :: "int list \<Rightarrow> int \<Rightarrow> 'w \<Rightarrow> (int + nat \<times> u16 list) \<times> 'w"
  env_page_size :: int
  env_fuel :: nat

text \<open>
  The laws of the environment that the theorems need: the device cannot change the size of the
  buffer, a \<open>pread\<close> or \<open>pwrite\<close> does not transfer more bytes than it was asked for, and the
  kernel fills exactly the buffer it was given with the description of a region.
\<close>

definition env_ok :: "'w env \<Rightarrow> bool" where
  "env_ok env \<longleftrightarrow>
     (\<forall>m w. length (fst (env_dma env m w)) = length m) \<and>
     (\<forall>off n w bs. fst (env_pread env off n w) = Inr bs \<longrightarrow> length bs \<le> n) \<and>
     (\<forall>off bs w n. fst (env_pwrite env off bs w) = Inr n \<longrightarrow> n \<le> length bs) \<and>
     (\<forall>i n w bs. fst (env_region_info env i n w) = Inr bs \<longrightarrow> length bs = n)"

text \<open>A device that does nothing and a kernel that grants everything, for concrete examples.\<close>

definition quiet_env :: "unit env" where
  "quiet_env = \<lparr>env_mmio_read = (\<lambda>n off w. (0, w)), env_mmio_write = (\<lambda>n off v w. w),
     env_dma = (\<lambda>m w. (m, w)), env_delay = (\<lambda>w. (1, w)), env_strerror = (\<lambda>n. ''error''),
     env_pread = (\<lambda>off n w. (Inr (replicate n 0), w)), env_pwrite = (\<lambda>off bs w. (Inr (length bs), w)),
     env_mmap = (\<lambda>off sz wr w. (None, w)), env_mmap_anon = (\<lambda>sz w. (None, w)),
     env_map_dma = (\<lambda>iova sz fl w. (None, w)), env_unmap_dma = (\<lambda>iova sz w. (Inr sz, w)),
     env_region_info = (\<lambda>i n w. (Inr (replicate n 0), w)), env_num_irqs = (\<lambda>w. (Inr 5, w)),
     env_irq_info = (\<lambda>i w. (Inr (0, 0), w)), env_set_irqs = (\<lambda>i fl fds w. (None, w)),
     env_disable_irq = (\<lambda>i w. (None, w)),
     env_eventfd = (\<lambda>w. (Inr 3, w)), env_read_eventfd = (\<lambda>fd w. (Inl 11, w)),
     env_poll = (\<lambda>fds t w. (Inr (0, map (\<lambda>_. 0) fds), w)), env_page_size = 4096, env_fuel = 100\<rparr>"

definition start_st :: "u8 list \<Rightarrow> 'w \<Rightarrow> 'w st" where
  "start_st m w = \<lparr>mem = m, time = 0, trace = [], world = w, sel_changed = False,
     reset_active = False, pci_current = 0, pci_restored = False, dma_active = False,
     irq_active = False\<rparr>"

definition quiet_st :: "nat \<Rightarrow> unit st" where
  "quiet_st n = start_st (replicate n 0) ()"

lemma quiet_env_ok: "env_ok quiet_env"
  by (simp add: env_ok_def quiet_env_def)

text \<open>A call of the environment.\<close>

definition external :: "('w \<Rightarrow> 'a \<times> 'w) \<Rightarrow> ('w st, 'a) M" where
  "external f = (\<lambda>s. case f (world s) of (a, w) \<Rightarrow> (Inr a, s\<lparr>world := w\<rparr>))"

text \<open>A change of the state that cannot fail.\<close>

definition modifyM :: "('s \<Rightarrow> 's) \<Rightarrow> ('s, unit) M" where
  "modifyM f = (\<lambda>s. (Inr (), f s))"

definition readM :: "('s \<Rightarrow> 'a) \<Rightarrow> ('s, 'a) M" where
  "readM f = (\<lambda>s. (Inr (f s), s))"

text \<open>The exception of a failed call: what was called and the text for \<open>errno\<close>.\<close>

definition sys_error :: "'w env \<Rightarrow> string \<Rightarrow> int \<Rightarrow> exn" where
  "sys_error env what n = RuntimeError (what @ '': '' @ env_strerror env n)"

definition emit :: "event \<Rightarrow> ('w st, unit) M" where
  "emit ev = (\<lambda>s. (Inr (), s\<lparr>trace := trace s @ [ev]\<rparr>))"

section \<open>The clock\<close>

text \<open>
  \<open>steady_clock::now()\<close> never goes back, and \<open>sleep_for\<close> blocks for at least the time given; how
  much longer is up to the environment. Times are in nanoseconds.
\<close>

definition ms :: "nat \<Rightarrow> nat" where
  "ms n = n * 1000000"

definition now :: "'w env \<Rightarrow> ('w st, nat) M" where
  "now env = (\<lambda>s. case env_delay env (world s) of
     (d, w) \<Rightarrow> (Inr (time s + d), s\<lparr>time := time s + d, world := w\<rparr>))"

definition sleep_for :: "'w env \<Rightarrow> nat \<Rightarrow> ('w st, unit) M" where
  "sleep_for env t = (\<lambda>s. case env_delay env (world s) of
     (d, w) \<Rightarrow> (Inr (), s\<lparr>time := time s + t + d, world := w\<rparr>))"

section \<open>Accesses to the DMA buffer\<close>

text \<open>
  A pointer into the buffer is its offset from \<open>buffer.data()\<close>. A load or store that leaves the
  buffer is undefined behaviour. A volatile load first lets the device act on the buffer.
\<close>

definition dma_step :: "'w env \<Rightarrow> ('w st, unit) M" where
  "dma_step env = (\<lambda>s. case env_dma env (mem s) (world s) of
     (m, w) \<Rightarrow> (Inr (), s\<lparr>mem := m, world := w\<rparr>))"

definition load :: "nat \<Rightarrow> nat \<Rightarrow> ('w st, u8 list) M" where
  "load p n = (\<lambda>s. if p + n \<le> length (mem s) then (Inr (segment p n (mem s)), s)
     else (Inl (Undefined ''load outside the DMA buffer''), s))"

definition store :: "nat \<Rightarrow> u8 list \<Rightarrow> ('w st, unit) M" where
  "store p bs = (\<lambda>s. if p + length bs \<le> length (mem s)
     then (Inr (), s\<lparr>mem := overwrite p bs (mem s)\<rparr>)
     else (Inl (Undefined ''store outside the DMA buffer''), s))"

definition vload :: "'w env \<Rightarrow> nat \<Rightarrow> nat \<Rightarrow> ('w st, u8 list) M" where
  "vload env p n = thenM (dma_step env) (load p n)"

definition vload16 :: "'w env \<Rightarrow> nat \<Rightarrow> ('w st, u16) M" where
  "vload16 env p = bindM (vload env p 2) (\<lambda>bs. returnM (le_word bs))"

definition vload32 :: "'w env \<Rightarrow> nat \<Rightarrow> ('w st, u32) M" where
  "vload32 env p = bindM (vload env p 4) (\<lambda>bs. returnM (le_word bs))"

definition store16 :: "nat \<Rightarrow> u16 \<Rightarrow> ('w st, unit) M" where
  "store16 p v = store p (le_bytes 2 v)"

definition store32 :: "nat \<Rightarrow> u32 \<Rightarrow> ('w st, unit) M" where
  "store32 p v = store p (le_bytes 4 v)"

definition store64 :: "nat \<Rightarrow> u64 \<Rightarrow> ('w st, unit) M" where
  "store64 p v = store p (le_bytes 8 v)"

text \<open>The invariant of the safety theorems: the buffer has \<open>n\<close> bytes.\<close>

definition buffer_size :: "nat \<Rightarrow> 'w st \<Rightarrow> bool" where
  "buffer_size n s \<longleftrightarrow> length (mem s) = n"

lemma safe_dma_step [safe_rules]: "env_ok env \<Longrightarrow> safe (buffer_size n) (dma_step env)"
  by (simp add: safe_def hoare_def dma_step_def buffer_size_def env_ok_def split: prod.splits)
    (metis fst_conv)

lemma safe_load: "p + k \<le> n \<Longrightarrow> safe (buffer_size n) (load p k)"
  by (simp add: safe_def hoare_def load_def buffer_size_def)

lemma safe_store: "p + length bs \<le> n \<Longrightarrow> safe (buffer_size n) (store p bs)"
  by (simp add: safe_def hoare_def store_def buffer_size_def)

lemma safe_vload:
  "env_ok env \<Longrightarrow> p + k \<le> n \<Longrightarrow> safe (buffer_size n) (vload env p k)"
  by (simp add: vload_def safe_rules safe_load)

lemma safe_vload16: "env_ok env \<Longrightarrow> p + 2 \<le> n \<Longrightarrow> safe (buffer_size n) (vload16 env p)"
  by (simp add: vload16_def safe_rules safe_vload)

lemma safe_vload32: "env_ok env \<Longrightarrow> p + 4 \<le> n \<Longrightarrow> safe (buffer_size n) (vload32 env p)"
  by (simp add: vload32_def safe_rules safe_vload)

lemma safe_store16: "p + 2 \<le> n \<Longrightarrow> safe (buffer_size n) (store16 p v)"
  by (simp add: store16_def safe_store)

lemma safe_store32: "p + 4 \<le> n \<Longrightarrow> safe (buffer_size n) (store32 p v)"
  by (simp add: store32_def safe_store)

lemma safe_store64: "p + 8 \<le> n \<Longrightarrow> safe (buffer_size n) (store64 p v)"
  by (simp add: store64_def safe_store)

lemmas safe_access = safe_load safe_store safe_vload safe_vload16 safe_vload32
  safe_store16 safe_store32 safe_store64

lemma safe_now [safe_rules]: "safe (buffer_size n) (now env)"
  by (simp add: safe_def hoare_def now_def buffer_size_def split: prod.splits)

lemma safe_sleep_for [safe_rules]: "safe (buffer_size n) (sleep_for env t)"
  by (simp add: safe_def hoare_def sleep_for_def buffer_size_def split: prod.splits)

lemma safe_emit [safe_rules]: "safe (buffer_size n) (emit ev)"
  by (simp add: safe_def hoare_def emit_def buffer_size_def)

lemma safe_external [safe_rules]: "safe (buffer_size n) (external f)"
  by (simp add: safe_def hoare_def external_def buffer_size_def split: prod.splits)

lemma safe_readM [safe_rules]: "safe I (readM f)"
  by (simp add: safe_def hoare_def readM_def)

lemma safe_modifyM: "(\<And>s. I s \<Longrightarrow> I (f s)) \<Longrightarrow> safe I (modifyM f)"
  by (simp add: safe_def hoare_def modifyM_def)

lemma safe_modify_buffer [safe_rules]:
  "(\<And>s. mem (f s) = mem s) \<Longrightarrow> safe (buffer_size n) (modifyM f)"
  by (simp add: safe_def hoare_def modifyM_def buffer_size_def)

lemma sys_error_not_ub [simp]: "\<not> is_ub (sys_error env what n)"
  by (simp add: sys_error_def)

text \<open>Every event of the trace satisfies \<open>P\<close>.\<close>

definition trace_all :: "(event \<Rightarrow> bool) \<Rightarrow> 'w st \<Rightarrow> bool" where
  "trace_all P s \<longleftrightarrow> (\<forall>e \<in> set (trace s). P e)"

lemma trace_all_rules [safe_rules]:
  "P ev \<Longrightarrow> safe (trace_all P) (emit ev)"
  "safe (trace_all P) (external f)"
  by (auto simp: safe_def hoare_def emit_def external_def trace_all_def split: prod.splits)

section \<open>MappedRegion\<close>

text \<open>
  A mapping of part of the VFIO device file: the file offset it starts at and its size. The
  constructor asks \<open>mmap\<close>, which may fail.
\<close>

record MappedRegion =
  mr_offset :: u64
  mr_size :: u64

definition MappedRegion_new :: "'w env \<Rightarrow> u64 \<Rightarrow> u64 \<Rightarrow> bool \<Rightarrow> ('w st, MappedRegion) M" where
  "MappedRegion_new env sz off writable =
     bindM (external (env_mmap env off sz writable)) (\<lambda>r.
     case r of Some n \<Rightarrow> throwM (sys_error env ''mmap'' n)
     | None \<Rightarrow> returnM \<lparr>mr_offset = off, mr_size = sz\<rparr>)"

definition check_range :: "MappedRegion \<Rightarrow> u64 \<Rightarrow> u64 \<Rightarrow> unit res" where
  "check_range r offset width =
     (if offset > mr_size r \<or> width > mr_size r - offset
      then Inl (OutOfRange ''MMIO access past mapped range'') else Inr ())"

definition mmio_read :: "'w env \<Rightarrow> MappedRegion \<Rightarrow> u64 \<Rightarrow> nat \<Rightarrow> ('w st, u64) M" where
  "mmio_read env r offset width =
     thenM (liftR (check_range r offset (of_nat width)))
           (external (env_mmio_read env width (mr_offset r + offset)))"

definition mmio_write :: "'w env \<Rightarrow> MappedRegion \<Rightarrow> u64 \<Rightarrow> nat \<Rightarrow> u64 \<Rightarrow> ('w st, unit) M" where
  "mmio_write env r offset width v =
     thenM (liftR (check_range r offset (of_nat width)))
    (thenM (emit (MmioWrite width (mr_offset r + offset) v))
           (external (\<lambda>w. ((), env_mmio_write env width (mr_offset r + offset) v w))))"

definition read8 :: "'w env \<Rightarrow> MappedRegion \<Rightarrow> u64 \<Rightarrow> ('w st, u8) M" where
  "read8 env r offset = bindM (mmio_read env r offset 1) (\<lambda>v. returnM (ucast v))"

definition read16 :: "'w env \<Rightarrow> MappedRegion \<Rightarrow> u64 \<Rightarrow> ('w st, u16) M" where
  "read16 env r offset = bindM (mmio_read env r offset 2) (\<lambda>v. returnM (ucast v))"

definition read32 :: "'w env \<Rightarrow> MappedRegion \<Rightarrow> u64 \<Rightarrow> ('w st, u32) M" where
  "read32 env r offset = bindM (mmio_read env r offset 4) (\<lambda>v. returnM (ucast v))"

definition write8 :: "'w env \<Rightarrow> MappedRegion \<Rightarrow> u64 \<Rightarrow> u8 \<Rightarrow> ('w st, unit) M" where
  "write8 env r offset v = mmio_write env r offset 1 (ucast v)"

definition write16 :: "'w env \<Rightarrow> MappedRegion \<Rightarrow> u64 \<Rightarrow> u16 \<Rightarrow> ('w st, unit) M" where
  "write16 env r offset v = mmio_write env r offset 2 (ucast v)"

definition write32 :: "'w env \<Rightarrow> MappedRegion \<Rightarrow> u64 \<Rightarrow> u32 \<Rightarrow> ('w st, unit) M" where
  "write32 env r offset v = mmio_write env r offset 4 (ucast v)"

lemma check_range_iff:
  "check_range r off w = Inr () \<longleftrightarrow> unat off + unat w \<le> unat (mr_size r)"
proof (cases "off > mr_size r")
  case False
  then have le: "unat off \<le> unat (mr_size r)" by (simp add: word_le_nat_alt linorder_not_less)
  then have "unat (mr_size r - off) = unat (mr_size r) - unat off" by (rule unat_sub_small)
  with le False show ?thesis by (auto simp: check_range_def word_less_nat_alt)
qed (auto simp: check_range_def word_less_nat_alt)

lemma check_range_not_ub: "check_range r off w = Inl e \<Longrightarrow> \<not> is_ub e"
  by (auto simp: check_range_def split: if_splits)

lemma safe_check_range: "safe I (liftR (check_range r off w))"
  by (rule safe_liftR) (rule check_range_not_ub)

lemma safe_mmio [safe_rules]:
  "safe (buffer_size n) (mmio_read env r off w)" "safe (buffer_size n) (mmio_write env r off w v)"
  by (simp_all add: mmio_read_def mmio_write_def safe_rules safe_check_range)

lemma safe_MappedRegion_new [safe_rules]: "safe (buffer_size n) (MappedRegion_new env sz off wr)"
  unfolding MappedRegion_new_def by (intro safe_bindM safe_external) (simp add: safe_rules split: option.splits)

lemma safe_read_write [safe_rules]:
  "safe (buffer_size n) (read8 env r off)" "safe (buffer_size n) (read16 env r off)"
  "safe (buffer_size n) (read32 env r off)" "safe (buffer_size n) (write8 env r off b)"
  "safe (buffer_size n) (write16 env r off h)" "safe (buffer_size n) (write32 env r off u)"
  by (simp_all add: read8_def read16_def read32_def write8_def write16_def write32_def safe_rules)

section \<open>AnonymousBuffer\<close>

text \<open>
  The constructor asks for an anonymous mapping, which starts as zeros, and \<open>zero\<close> clears it; the
  destructor unmaps it.
\<close>

definition AnonymousBuffer_new :: "'w env \<Rightarrow> u64 \<Rightarrow> ('w st, unit) M" where
  "AnonymousBuffer_new env sz =
     bindM (external (env_mmap_anon env sz)) (\<lambda>r.
     case r of Some n \<Rightarrow> throwM (sys_error env ''mmap anonymous buffer'' n)
     | None \<Rightarrow> thenM (emit (BufferAlloc sz)) (modifyM (\<lambda>s. s\<lparr>mem := replicate (unat sz) 0\<rparr>)))"

definition AnonymousBuffer_zero :: "('w st, unit) M" where
  "AnonymousBuffer_zero = modifyM (\<lambda>s. s\<lparr>mem := replicate (length (mem s)) 0\<rparr>)"

definition AnonymousBuffer_drop :: "('w st, unit) M" where
  "AnonymousBuffer_drop = thenM (emit BufferFree) (modifyM (\<lambda>s. s\<lparr>mem := []\<rparr>))"

lemma safe_AnonymousBuffer_zero [safe_rules]: "safe (buffer_size n) AnonymousBuffer_zero"
  by (simp add: AnonymousBuffer_zero_def safe_def hoare_def modifyM_def buffer_size_def)

section \<open>DmaMapping\<close>

definition VFIO_DMA_MAP_FLAG_READ :: u32 where "VFIO_DMA_MAP_FLAG_READ = 1"
definition VFIO_DMA_MAP_FLAG_WRITE :: u32 where "VFIO_DMA_MAP_FLAG_WRITE = 2"

definition DmaMapping_new :: "'w env \<Rightarrow> u64 \<Rightarrow> u64 \<Rightarrow> u32 \<Rightarrow> ('w st, unit) M" where
  "DmaMapping_new env iova sz flags =
     bindM (external (env_map_dma env iova sz flags)) (\<lambda>r.
     case r of Some n \<Rightarrow> throwM (sys_error env ''VFIO_IOMMU_MAP_DMA'' n)
     | None \<Rightarrow> thenM (emit (DmaMap iova sz flags)) (modifyM (\<lambda>s. s\<lparr>dma_active := True\<rparr>)))"

definition DmaMapping_unmap :: "'w env \<Rightarrow> u64 \<Rightarrow> u64 \<Rightarrow> ('w st, u64) M" where
  "DmaMapping_unmap env iova sz =
     bindM (readM dma_active) (\<lambda>active.
     if \<not> active then returnM 0
     else bindM (external (env_unmap_dma env iova sz)) (\<lambda>r.
       case r of Inl n \<Rightarrow> throwM (sys_error env ''VFIO_IOMMU_UNMAP_DMA'' n)
       | Inr done \<Rightarrow> thenM (emit (DmaUnmap iova sz))
                      (thenM (modifyM (\<lambda>s. s\<lparr>dma_active := False\<rparr>)) (returnM done))))"

text \<open>\<open>unmap_noexcept\<close>, the destructor; \<open>finallyM\<close> drops what it throws.\<close>

definition DmaMapping_drop :: "'w env \<Rightarrow> u64 \<Rightarrow> u64 \<Rightarrow> ('w st, unit) M" where
  "DmaMapping_drop env iova sz = thenM (DmaMapping_unmap env iova sz) (returnM ())"

lemma safe_DmaMapping [safe_rules]:
  "safe (buffer_size n) (DmaMapping_new env iova sz fl)"
  "safe (buffer_size n) (DmaMapping_unmap env iova sz)"
  "safe (buffer_size n) (DmaMapping_drop env iova sz)"
proof -
  show unmap: "safe (buffer_size n) (DmaMapping_unmap env iova sz)"
    unfolding DmaMapping_unmap_def
    by (intro safe_bindM safe_readM safe_if safe_external) (auto simp: safe_rules split: sum.splits)
  show "safe (buffer_size n) (DmaMapping_drop env iova sz)"
    unfolding DmaMapping_drop_def by (intro safe_bindM unmap safe_returnM)
  show "safe (buffer_size n) (DmaMapping_new env iova sz fl)"
    unfolding DmaMapping_new_def
    by (intro safe_bindM safe_external) (auto simp: safe_rules split: option.splits)
qed

section \<open>Computations that end\<close>

text \<open>
  \<open>ends m\<close>: the computation does not run out of fuel, and the clock is not behind where it was.
\<close>

definition ends :: "('w st, 'a) M \<Rightarrow> bool" where
  "ends m \<longleftrightarrow> (\<forall>s. fst (m s) \<noteq> Inl OutOfFuel \<and> time s \<le> time (snd (m s)))"

named_theorems ends_rules "computations that end"

lemma endsD:
  assumes "ends m" and "m s = (x, s')"
  shows "x \<noteq> Inl OutOfFuel" and "time s \<le> time s'"
  using assms by (auto simp: ends_def dest: spec [of _ s])

lemma ends_bindM [ends_rules]:
  assumes m: "ends m" and f: "\<And>a. ends (f a)"
  shows "ends (bindM m f)"
proof (unfold ends_def, rule allI)
  fix s
  obtain x s1 where x: "m s = (x, s1)" by fastforce
  note 1 = endsD [OF m x]
  show "fst (bindM m f s) \<noteq> Inl OutOfFuel \<and> time s \<le> time (snd (bindM m f s))"
  proof (cases x)
    case (Inl e)
    with x 1 show ?thesis by (simp add: bindM_def)
  next
    case (Inr a)
    obtain y s2 where y: "f a s1 = (y, s2)" by fastforce
    from endsD [OF f y] 1 x y Inr show ?thesis by (simp add: bindM_def)
  qed
qed

lemma ends_basic [ends_rules]:
  "ends (returnM a)" "e \<noteq> OutOfFuel \<Longrightarrow> ends (throwM e)" "ends (external f)" "ends (readM g)"
  "ends (emit ev)" "ends (now env)" "ends (sleep_for env t)" "ends (dma_step env)"
  "ends (load p n)" "ends (store p bs)" "e \<noteq> OutOfFuel \<Longrightarrow> ends (throw_ifM b e)"
  by (auto simp: ends_def returnM_def throwM_def external_def readM_def emit_def now_def sleep_for_def
      dma_step_def load_def store_def throw_ifM_def split: prod.splits)

lemma ends_liftR: "r \<noteq> Inl OutOfFuel \<Longrightarrow> ends (liftR r)"
  by (simp add: ends_def liftR_def)

lemma ends_modifyM: "(\<And>s. time (h s) = time s) \<Longrightarrow> ends (modifyM h)"
  by (simp add: ends_def modifyM_def)

lemma ends_if [ends_rules]: "(b \<Longrightarrow> ends m) \<Longrightarrow> (\<not> b \<Longrightarrow> ends n) \<Longrightarrow> ends (if b then m else n)"
  by simp

lemma ends_forM [ends_rules]: "(\<And>x. x \<in> set xs \<Longrightarrow> ends (f x)) \<Longrightarrow> ends (forM xs f)"
  by (induction xs) (simp_all add: ends_rules)

lemma ends_case_option [ends_rules]:
  "ends m \<Longrightarrow> (\<And>y. ends (g y)) \<Longrightarrow> ends (case p of None \<Rightarrow> m | Some y \<Rightarrow> g y)"
  by (cases p) simp_all

lemma ends_memory [ends_rules]:
  "ends (vload env p n)" "ends (vload16 env p)" "ends (vload32 env p)"
  "ends (store16 p h)" "ends (store32 p w)" "ends (store64 p d)"
  by (simp_all add: vload_def vload16_def vload32_def store16_def store32_def store64_def ends_rules)

lemma ends_registers [ends_rules]:
  "ends (mmio_read env r off n)" "ends (mmio_write env r off n v)"
  "ends (read8 env r off)" "ends (read16 env r off)" "ends (read32 env r off)"
  "ends (write8 env r off b)" "ends (write16 env r off h)" "ends (write32 env r off w)"
  by (simp_all add: mmio_read_def mmio_write_def read8_def read16_def read32_def write8_def write16_def
      write32_def check_range_def ends_rules ends_liftR)

text \<open>Like \<open>ends\<close>, for a computation started at time \<open>d\<close> or later.\<close>

definition ends_from :: "nat \<Rightarrow> ('w st, 'a) M \<Rightarrow> bool" where
  "ends_from d m \<longleftrightarrow> (\<forall>s. d \<le> time s \<longrightarrow> fst (m s) \<noteq> Inl OutOfFuel \<and> time s \<le> time (snd (m s)))"

lemma ends_from_ends: "ends m \<Longrightarrow> ends_from d m"
  by (simp add: ends_def ends_from_def)

lemma ends_fromD:
  assumes "ends_from d m" and "d \<le> time s" and "m s = (x, s')"
  shows "x \<noteq> Inl OutOfFuel" and "time s \<le> time s'"
  using assms by (auto simp: ends_from_def dest: spec [of _ s])

lemma ends_from_bindM:
  assumes m: "ends_from d m" and f: "\<And>a. ends_from d (f a)"
  shows "ends_from d (bindM m f)"
proof (unfold ends_from_def, intro allI impI)
  fix s :: "'a st" assume d: "d \<le> time s"
  obtain x s1 where x: "m s = (x, s1)" by fastforce
  note 1 = ends_fromD [OF m d x]
  show "fst (bindM m f s) \<noteq> Inl OutOfFuel \<and> time s \<le> time (snd (bindM m f s))"
  proof (cases x)
    case (Inl e)
    with x 1 show ?thesis by (simp add: bindM_def)
  next
    case (Inr a)
    obtain y s2 where y: "f a s1 = (y, s2)" by fastforce
    have "d \<le> time s1" using d 1(2) by simp
    from ends_fromD [OF f this y] 1 x y Inr show ?thesis by (simp add: bindM_def)
  qed
qed

lemma now_run:
  obtains t s1 where "now env s = (Inr t, s1)" and "time s \<le> t" and "time s1 = t"
    and "t = time s + fst (env_delay env (world s))"
  by (cases "env_delay env (world s)") (auto simp: now_def)

lemma sleep_run:
  obtains s1 where "sleep_for env k s = (Inr (), s1)" and "time s + k \<le> time s1"
  by (cases "env_delay env (world s)") (auto simp: sleep_for_def)

text \<open>The clock moves between two readings.\<close>

definition ticks :: "'w env \<Rightarrow> bool" where
  "ticks env \<longleftrightarrow> (\<forall>w. 0 < fst (env_delay env w))"

end
