(* ===== verification/Sizes.thy ===== *)
theory Sizes
  imports Prelude
begin

text \<open>
  The size arithmetic of \<open>userspace_drivers/virtio_net_vfio.hpp\<close>: \<open>is_power_of_two\<close>, \<open>align_up\<close>,
  \<open>system_page_size\<close>, \<open>round_up_to_page\<close>, \<open>checked_add\<close> and \<open>checked_mul\<close> on 64-bit \<open>size_t\<close>
  values, kept at their width. Sums are written with the wrap-around of the machine; the lemmas
  show where it cannot happen. \<open>sysconf(_SC_PAGESIZE)\<close> is an argument (\<open>page_size\<close>).
\<close>

section \<open>The operations\<close>

definition size_max :: u64 where
  "size_max = - 1"

definition is_power_of_two :: "u64 \<Rightarrow> bool" where
  "is_power_of_two value \<longleftrightarrow> value \<noteq> 0 \<and> value AND (value - 1) = 0"

definition align_up :: "u64 \<Rightarrow> u64 \<Rightarrow> u64 res" where
  "align_up value align =
     (if \<not> is_power_of_two align then
        Inl (RuntimeError ''alignment must be a power of two'')
      else if value > size_max - (align - 1) then
        Inl (RuntimeError ''size overflow while aligning value'')
      else Inr ((value + align - 1) AND NOT (align - 1)))"

definition system_page_size :: "int \<Rightarrow> int res" where
  "system_page_size page_size =
     (if page_size \<le> 0 then Inl (RuntimeError ''cannot determine system page size'')
      else Inr page_size)"

definition round_up_to_page :: "int \<Rightarrow> u64 \<Rightarrow> u64 res" where
  "round_up_to_page page_size sz =
     bindR (system_page_size page_size) (\<lambda>ps. align_up sz (of_int ps))"

definition checked_add :: "u64 \<Rightarrow> u64 \<Rightarrow> string \<Rightarrow> u64 res" where
  "checked_add a b what =
     (if a > size_max - b then Inl (RuntimeError (what @ '' size overflow'')) else Inr (a + b))"

definition checked_mul :: "u64 \<Rightarrow> u64 \<Rightarrow> string \<Rightarrow> u64 res" where
  "checked_mul a b what =
     (if a \<noteq> 0 \<and> b > size_max div a then Inl (RuntimeError (what @ '' size overflow''))
      else Inr (a * b))"

section \<open>Powers of two\<close>

lemma unat_size_max [simp]: "unat size_max = 2 ^ 64 - 1"
  by (simp add: size_max_def unsigned_minus_1_eq_mask mask_eq_exp_minus_1)

lemma and_pred_nat_zero:
  fixes n :: nat
  shows "n \<noteq> 0 \<Longrightarrow> n AND (n - 1) = 0 \<longleftrightarrow> (\<exists>k. n = 2 ^ k)"
proof (induction n rule: less_induct)
  case (less n)
  show ?case
  proof (cases "even n")
    case True
    then obtain m where m: "n = 2 * m" by auto
    with less.prems have m0: "m \<noteq> 0" by simp
    have "n AND (n - 1) = 2 * (m AND (m - 1))"
    proof -
      have "(2 * m - 1) div 2 = m - 1" using m0 by arith
      with m m0 show ?thesis by (subst and_nat_unfold) auto
    qed
    then have "n AND (n - 1) = 0 \<longleftrightarrow> (\<exists>k. m = 2 ^ k)"
      using less.IH [of m] m m0 by simp
    also have "\<dots> \<longleftrightarrow> (\<exists>k. n = 2 ^ k)"
    proof
      assume "\<exists>k. m = 2 ^ k"
      with m show "\<exists>k. n = 2 ^ k" by (metis power_Suc)
    next
      assume "\<exists>k. n = 2 ^ k"
      then obtain k where k: "n = 2 ^ k" ..
      with True obtain j where "k = Suc j" by (cases k) auto
      with k m show "\<exists>k. m = 2 ^ k" by auto
    qed
    finally show ?thesis .
  next
    case False
    then obtain m where m: "n = 2 * m + 1" by (auto elim: oddE)
    have "n AND (n - 1) = 2 * m"
      using m by (subst and_nat_unfold) (auto simp: and.idem)
    moreover have "(\<exists>k. n = 2 ^ k) \<longleftrightarrow> m = 0"
    proof
      assume "\<exists>k. n = 2 ^ k"
      then obtain k where "n = 2 ^ k" ..
      with False have "k = 0" by (cases k) auto
      with \<open>n = 2 ^ k\<close> m show "m = 0" by simp
    qed (use m in \<open>auto intro: exI [of _ 0]\<close>)
    ultimately show ?thesis using m by simp
  qed
qed

lemma exponent_lt_64:
  assumes "unat (v :: u64) = 2 ^ k"
  shows "k < 64"
proof (rule ccontr)
  assume "\<not> k < 64"
  then have "(2::nat) ^ 64 \<le> 2 ^ k" by (intro power_increasing) simp_all
  with unat_u64_lt [of v] assms show False by simp
qed

lemma is_power_of_two_iff: "is_power_of_two v \<longleftrightarrow> (\<exists>k<64. unat v = 2 ^ k)"
proof (cases "v = 0")
  case False
  then have pos: "unat v \<noteq> 0" by (simp add: unat_eq_zero)
  have "v AND (v - 1) = 0 \<longleftrightarrow> unat v AND (unat v - 1) = 0"
    using pos by (metis unsigned_and_eq unat_eq_zero unat_minus_one False)
  also have "\<dots> \<longleftrightarrow> (\<exists>k. unat v = 2 ^ k)"
    by (rule and_pred_nat_zero [OF pos])
  also have "\<dots> \<longleftrightarrow> (\<exists>k<64. unat v = 2 ^ k)"
    using exponent_lt_64 by auto
  finally show ?thesis using False by (simp add: is_power_of_two_def)
qed (simp add: is_power_of_two_def)

lemma is_power_of_two_nat: "is_power_of_two v \<longleftrightarrow> (\<exists>k. unat v = 2 ^ k)"
  using exponent_lt_64 by (auto simp: is_power_of_two_iff)

lemma is_power_of_two_pos: "is_power_of_two v \<Longrightarrow> 0 < unat v"
  by (auto simp: is_power_of_two_nat)

section \<open>Rounding up to a multiple of a power of two\<close>

text \<open>Clearing the low bits, on the numbers the words stand for.\<close>

lemma unat_clear_low_bits:
  fixes x :: "'a::len word"
  assumes "unat a = 2 ^ k"
  shows "unat (x AND NOT (a - 1)) = unat x div 2 ^ k * 2 ^ k"
proof -
  have "a = of_nat (unat a)" by simp
  then have a: "a = 2 ^ k" using assms by simp
  have "x AND NOT (mask k) = push_bit k (drop_bit k x)"
    by (rule bit_word_eqI) (auto simp: bit_simps)
  moreover have "unat (push_bit k (drop_bit k x)) = unat x div 2 ^ k * 2 ^ k"
  proof -
    have "unat x div 2 ^ k * 2 ^ k \<le> unat x" by simp
    then have "unat x div 2 ^ k * 2 ^ k < 2 ^ LENGTH('a)"
      using unsigned_less [of x, where ?'a = nat] by (rule le_less_trans)
    then show ?thesis
      by (simp only: unsigned_push_bit_eq unsigned_drop_bit_eq)
        (simp add: push_bit_eq_mult drop_bit_eq_div take_bit_nat_eq_self)
  qed
  ultimately show ?thesis by (simp add: a mask_eq_decr_exp)
qed

lemma round_up_nat:
  fixes v a :: nat
  assumes "0 < a"
  shows "v \<le> (v + a - 1) div a * a" and "(v + a - 1) div a * a < v + a"
proof -
  have "(v + a - 1) div a * a + (v + a - 1) mod a = v + a - 1" by simp
  moreover have "(v + a - 1) mod a < a" using assms by simp
  ultimately show "v \<le> (v + a - 1) div a * a" and "(v + a - 1) div a * a < v + a"
    using assms by linarith+
qed

lemma align_up_value:
  assumes "align_up v a = Inr r"
  shows "unat r = (unat v + unat a - 1) div unat a * unat a"
    and "is_power_of_two a" and "unat v + unat a - 1 < 2 ^ 64"
proof -
  from assms have p2: "is_power_of_two a" and ov: "v \<le> size_max - (a - 1)"
    and r: "r = (v + a - 1) AND NOT (a - 1)"
    by (auto simp: align_up_def split: if_splits)
  from p2 show "is_power_of_two a" .
  from p2 have apos: "0 < unat a" by (rule is_power_of_two_pos)
  then have a1: "unat (a - 1) = unat a - 1"
    by (metis unat_minus_one unat_eq_zero less_irrefl)
  have "unat (size_max - (a - 1)) = 2 ^ 64 - 1 - (unat a - 1)"
    using a1 unat_u64_lt [of a] by (subst unat_sub_small) simp_all
  with ov have bound: "unat v \<le> 2 ^ 64 - 1 - (unat a - 1)"
    by (simp add: word_le_nat_alt)
  with apos unat_u64_lt [of a] show lt: "unat v + unat a - 1 < 2 ^ 64" by simp
  have "v + a - 1 = v + (a - 1)" by simp
  then have sum: "unat (v + a - 1) = unat v + unat a - 1"
    using lt apos a1 by (simp only: unat_add_small) (simp add: unat_word_ariths(1))
  from p2 obtain k where k: "unat a = 2 ^ k" by (auto simp: is_power_of_two_nat)
  show "unat r = (unat v + unat a - 1) div unat a * unat a"
    unfolding r using unat_clear_low_bits [OF k, of "v + a - 1"] by (simp add: sum k)
qed

text \<open>
  \<open>align_up\<close> returns the least multiple of the alignment that is not below the value, without
  wrapping, and throws exactly when the alignment is no power of two or that multiple needs a
  number past \<open>SIZE_MAX\<close>.
\<close>

lemma align_up_spec:
  assumes "align_up v a = Inr r"
  shows "unat v \<le> unat r" and "unat r < unat v + unat a" and "unat a dvd unat r"
  using align_up_value [OF assms] round_up_nat [OF is_power_of_two_pos, of a "unat v"]
  by auto

lemma align_up_Inr_iff:
  "(\<exists>r. align_up v a = Inr r) \<longleftrightarrow> is_power_of_two a \<and> unat v + unat a \<le> 2 ^ 64"
proof
  assume "\<exists>r. align_up v a = Inr r"
  then obtain r where r: "align_up v a = Inr r" ..
  from align_up_value [OF r] show "is_power_of_two a \<and> unat v + unat a \<le> 2 ^ 64" by simp
next
  assume a: "is_power_of_two a \<and> unat v + unat a \<le> 2 ^ 64"
  then have apos: "0 < unat a" by (simp add: is_power_of_two_pos)
  then have a1: "unat (a - 1) = unat a - 1"
    by (metis unat_minus_one unat_eq_zero less_irrefl)
  have "unat (size_max - (a - 1)) = 2 ^ 64 - 1 - (unat a - 1)"
    using a1 unat_u64_lt [of a] by (subst unat_sub_small) simp_all
  with a apos have "v \<le> size_max - (a - 1)" by (simp add: word_le_nat_alt) linarith
  with a show "\<exists>r. align_up v a = Inr r" by (simp add: align_up_def)
qed

lemma align_up_not_ub: "align_up v a = Inl e \<Longrightarrow> \<not> is_ub e"
  by (auto simp: align_up_def split: if_splits)

section \<open>Checked arithmetic\<close>

lemma checked_add_cases:
  "checked_add a b what =
     (if unat a + unat b < 2 ^ 64 then Inr (a + b) else Inl (RuntimeError (what @ '' size overflow'')))"
proof -
  have "unat (size_max - b) = 2 ^ 64 - 1 - unat b"
    using unat_u64_lt [of b] by (subst unat_sub_small) simp_all
  then have "a > size_max - b \<longleftrightarrow> \<not> unat a + unat b < 2 ^ 64"
    using unat_u64_lt [of b] by (auto simp: word_less_nat_alt)
  then show ?thesis by (simp only: checked_add_def if_not_P if_P split: if_split) blast
qed

lemma checked_add_iff:
  "checked_add a b what = Inr r \<longleftrightarrow> unat a + unat b < 2 ^ 64 \<and> unat r = unat a + unat b"
  by (auto simp: checked_add_cases word_unat_eq_iff unat_add_small)

lemma checked_mul_cases:
  "checked_mul a b what =
     (if unat a * unat b < 2 ^ 64 then Inr (a * b) else Inl (RuntimeError (what @ '' size overflow'')))"
proof (cases "a = 0")
  case False
  then have pos: "0 < unat a" by (simp add: unat_gt_0)
  have "b \<le> size_max div a \<longleftrightarrow> unat b \<le> (2 ^ 64 - 1) div unat a"
    by (simp add: word_le_nat_alt unat_div)
  also have "\<dots> \<longleftrightarrow> unat b * unat a \<le> 2 ^ 64 - 1"
    using pos by (rule less_eq_div_iff_mult_less_eq)
  also have "\<dots> \<longleftrightarrow> unat a * unat b < 2 ^ 64"
    by (simp add: mult.commute) linarith
  finally have "b > size_max div a \<longleftrightarrow> \<not> unat a * unat b < 2 ^ 64"
    by (meson linorder_not_less)
  then show ?thesis using False by (simp only: checked_mul_def split: if_split) blast
qed (simp add: checked_mul_def)

lemma checked_mul_iff:
  "checked_mul a b what = Inr r \<longleftrightarrow> unat a * unat b < 2 ^ 64 \<and> unat r = unat a * unat b"
  by (auto simp: checked_mul_cases word_unat_eq_iff unat_mult_small)

lemma checked_not_ub:
  "checked_add a b w = Inl e \<Longrightarrow> \<not> is_ub e" "checked_mul a b w = Inl e \<Longrightarrow> \<not> is_ub e"
  by (auto simp: checked_add_def checked_mul_def split: if_splits)

section \<open>The interface of an aligning operation\<close>

text \<open>
  What the layouts rely on: an operation \<open>up\<close> to a granule \<open>g\<close> that, when it succeeds, gives a
  multiple of \<open>g\<close> that is not below its argument.
\<close>

locale aligner =
  fixes up :: "u64 \<Rightarrow> u64 res" and g :: nat
  assumes up_ge: "up v = Inr r \<Longrightarrow> unat v \<le> unat r"
    and up_dvd: "up v = Inr r \<Longrightarrow> g dvd unat r"
    and up_less: "up v = Inr r \<Longrightarrow> unat r < unat v + g"
    and up_not_ub: "up v = Inl e \<Longrightarrow> \<not> is_ub e"
begin

text \<open>The end of one region, rounded up, starts the next one past it.\<close>

lemma up_after:
  assumes "checked_add off sz what = Inr fin" and "up fin = Inr r"
  shows "unat off + unat sz \<le> unat r" and "g dvd unat r"
  using assms up_ge [of fin r] up_dvd [of fin r] by (auto simp: checked_add_iff)

text \<open>A multiple of the granule is its own rounding.\<close>

lemma up_fixed:
  assumes "up v = Inr r" and "g dvd unat v"
  shows "r = v"
proof -
  from assms(2) obtain i where i: "unat v = g * i" by auto
  from up_dvd [OF assms(1)] obtain j where j: "unat r = g * j" by auto
  have "g * i \<le> g * j" and "g * j < g * i + g"
    using up_ge [OF assms(1)] up_less [OF assms(1)] i j by simp_all
  then have "g * i \<le> g * j" and "g * j < g * Suc i" by simp_all
  then have "j = i" by (metis mult_less_cancel1 mult_le_cancel1 le_antisym less_Suc_eq_le
        not_less_eq_eq less_nat_zero_code mult_0)
  with i j show ?thesis by (simp add: word_unat_eq_iff)
qed

lemma up_mono:
  assumes "up v = Inr r" and "up w = Inr q" and "unat v \<le> unat w"
  shows "unat r \<le> unat q"
proof (rule ccontr)
  assume "\<not> unat r \<le> unat q"
  then have less: "unat q < unat r" by simp
  from up_dvd [OF assms(1)] up_dvd [OF assms(2)] obtain i j
    where i: "unat r = g * i" and j: "unat q = g * j" by (auto elim!: dvdE)
  from less i j have "Suc j \<le> i" by (metis Suc_leI mult_less_cancel1)
  then have "g * Suc j \<le> unat r" using i by (metis mult_le_mono2)
  then have "unat q + g \<le> unat r" using j by simp
  moreover have "unat r < unat v + g" by (rule up_less [OF assms(1)])
  moreover have "unat w \<le> unat q" by (rule up_ge [OF assms(2)])
  ultimately show False using assms(3) by simp
qed

end

interpretation align: aligner "\<lambda>v. align_up v a" "unat a" for a
  by unfold_locales (auto dest: align_up_spec align_up_not_ub)

lemma round_up_to_page_align:
  "0 < ps \<Longrightarrow> round_up_to_page ps v = align_up v (of_int ps)"
  by (simp add: round_up_to_page_def system_page_size_def)

interpretation page: aligner "round_up_to_page ps" "unat (of_int ps :: u64)" for ps
proof unfold_locales
  fix v r assume *: "round_up_to_page ps v = Inr r"
  then have "align_up v (of_int ps) = Inr r"
    by (auto simp: round_up_to_page_def system_page_size_def split: if_splits)
  then show "unat v \<le> unat r" "unat (of_int ps :: u64) dvd unat r"
    "unat r < unat v + unat (of_int ps :: u64)"
    by (simp_all add: align_up_spec)
next
  fix v e assume "round_up_to_page ps v = Inl e"
  then show "\<not> is_ub e"
    by (auto simp: round_up_to_page_def system_page_size_def split: if_splits dest: align_up_not_ub)
qed

end
