(* ===== verification/Layout.thy ===== *)
theory Layout
  imports Sizes
begin

text \<open>
  The memory layouts of \<open>userspace_drivers/virtio_net_vfio.hpp\<close>: where the parts of a split
  virtqueue lie (\<open>compute_vring_layout\<close>), where the queues, the packet buffers and the control
  command lie in the one DMA area (the three overloads of \<open>compute_dma_layout\<close> and
  \<open>compute_ctrlq_dma_layout\<close>), the choice of a queue size (\<open>choose_queue_size\<close>) and the size of a
  MAC table command. The lemmas show that the parts never overlap, never leave the area, start on
  page boundaries and that no sum wraps.
\<close>

section \<open>Constants\<close>

definition kVringDescSize :: u64 where "kVringDescSize = 16"
definition kVringUsedElemSize :: u64 where "kVringUsedElemSize = 8"
definition kVirtioNetCtrlHdrSize :: u64 where "kVirtioNetCtrlHdrSize = 2"
definition kVirtioNetCtrlStateSize :: u64 where "kVirtioNetCtrlStateSize = 1"
definition kVirtioNetCtrlMacTableCountSize :: u64 where "kVirtioNetCtrlMacTableCountSize = 4"
definition kVirtioNetCtrlMacAddrSize :: u64 where "kVirtioNetCtrlMacAddrSize = 6"
definition kVirtioNetCtrlAckSize :: u64 where "kVirtioNetCtrlAckSize = 1"

lemmas ctrl_sizes = kVirtioNetCtrlHdrSize_def kVirtioNetCtrlStateSize_def
  kVirtioNetCtrlMacTableCountSize_def kVirtioNetCtrlMacAddrSize_def kVirtioNetCtrlAckSize_def

section \<open>One split virtqueue\<close>

record VringLayout =
  vl_queue_size :: u16
  vl_align :: u64
  vl_desc_offset :: u64
  vl_desc_size :: u64
  vl_avail_offset :: u64
  vl_avail_size :: u64
  vl_used_offset :: u64
  vl_used_size :: u64
  vl_total_size :: u64

definition compute_vring_layout :: "u16 \<Rightarrow> u64 \<Rightarrow> VringLayout res" where
  "compute_vring_layout queue_size align =
     bindR (throw_if (queue_size = 0) (RuntimeError ''queue_size must be greater than 0'')) (\<lambda>_.
     bindR (throw_if (\<not> is_power_of_two (ucast queue_size))
       (RuntimeError ''this sample expects a power-of-two queue size'')) (\<lambda>_.
     let desc_offset = 0;
         desc_size = kVringDescSize * ucast queue_size;
         avail_offset = desc_offset + desc_size;
         avail_size = 2 * ucast (3 + ucast queue_size :: u32)
     in bindR (align_up (avail_offset + avail_size) align) (\<lambda>used_offset.
     let used_size = 2 * 3 + kVringUsedElemSize * ucast queue_size
     in Inr \<lparr>vl_queue_size = queue_size, vl_align = align,
             vl_desc_offset = desc_offset, vl_desc_size = desc_size,
             vl_avail_offset = avail_offset, vl_avail_size = avail_size,
             vl_used_offset = used_offset, vl_used_size = used_size,
             vl_total_size = used_offset + used_size\<rparr>)))"

definition choose_queue_size :: "u16 \<Rightarrow> u16 option \<Rightarrow> u16 res" where
  "choose_queue_size device_queue_size requested =
     bindR (throw_if (device_queue_size = 0) (RuntimeError ''selected queue is unavailable'')) (\<lambda>_.
     let chosen = (case requested of None \<Rightarrow> device_queue_size | Some r \<Rightarrow> r)
     in bindR (throw_if (chosen = 0 \<or> chosen > device_queue_size)
       (RuntimeError (''requested queue-size must be in range 1..'' @
          to_string (unat device_queue_size)))) (\<lambda>_.
     bindR (throw_if (\<not> is_power_of_two (ucast chosen))
       (RuntimeError ''requested queue-size must be a power of two'')) (\<lambda>_.
     Inr chosen)))"

text \<open>
  The shape every computed layout has, on natural numbers: descriptor table, available ring and
  used ring follow each other, and the total is the end of the used ring.
\<close>

definition vring_wf :: "VringLayout \<Rightarrow> bool" where
  "vring_wf l \<longleftrightarrow>
     0 < unat (vl_queue_size l) \<and>
     unat (vl_desc_offset l) = 0 \<and>
     unat (vl_desc_size l) = 16 * unat (vl_queue_size l) \<and>
     unat (vl_avail_offset l) = 16 * unat (vl_queue_size l) \<and>
     unat (vl_avail_size l) = 6 + 2 * unat (vl_queue_size l) \<and>
     unat (vl_avail_offset l) + unat (vl_avail_size l) \<le> unat (vl_used_offset l) \<and>
     unat (vl_used_size l) = 6 + 8 * unat (vl_queue_size l) \<and>
     unat (vl_total_size l) = unat (vl_used_offset l) + unat (vl_used_size l)"

lemma compute_vring_layout_fields:
  assumes "compute_vring_layout q a = Inr l"
  shows "vl_queue_size l = q" and "vl_align l = a" and "q \<noteq> 0"
    and "is_power_of_two (ucast q)" and "vring_wf l"
    and "unat a dvd unat (vl_used_offset l)"
    and "unat (vl_used_offset l) < 18 * unat q + 6 + unat a"
proof -
  from assms obtain used where q: "q \<noteq> 0" "is_power_of_two (ucast q)"
    and used: "align_up (kVringDescSize * ucast q + 2 * ucast (3 + ucast q :: u32)) a = Inr used"
    and l: "l = \<lparr>vl_queue_size = q, vl_align = a, vl_desc_offset = 0,
      vl_desc_size = kVringDescSize * ucast q, vl_avail_offset = kVringDescSize * ucast q,
      vl_avail_size = 2 * ucast (3 + ucast q :: u32), vl_used_offset = used,
      vl_used_size = 6 + kVringUsedElemSize * ucast q,
      vl_total_size = used + (6 + kVringUsedElemSize * ucast q)\<rparr>"
    by (auto simp: compute_vring_layout_def res_iff Let_def)
  have qb: "unat q < 65536" by (rule unat_u16_lt)
  have ds: "unat (kVringDescSize * ucast q :: u64) = 16 * unat q"
    using qb by (simp add: kVringDescSize_def unat_mult_small)
  have "unat (3 + ucast q :: u32) = 3 + unat q"
    using qb by (simp add: unat_add_small)
  then have as: "unat (2 * ucast (3 + ucast q :: u32) :: u64) = 6 + 2 * unat q"
    using qb by (simp add: unat_mult_small)
  have sum: "unat (kVringDescSize * ucast q + 2 * ucast (3 + ucast q :: u32) :: u64) = 18 * unat q + 6"
    using qb ds as by (simp add: unat_add_small)
  have "unat (kVringUsedElemSize * ucast q :: u64) = 8 * unat q"
    using qb by (simp add: kVringUsedElemSize_def unat_mult_small)
  then have us: "unat (6 + kVringUsedElemSize * ucast q :: u64) = 6 + 8 * unat q"
    using qb by (simp add: unat_add_small)
  from align_up_spec [OF used] sum
  have u: "18 * unat q + 6 \<le> unat used" "unat used < 18 * unat q + 6 + unat a" "unat a dvd unat used"
    by simp_all
  from align_up_value(2) [OF used] obtain k where k: "k < 64" "unat a = 2 ^ k"
    by (auto simp: is_power_of_two_iff)
  then have "unat a \<le> 2 ^ 63" using power_increasing [of k 63 "2::nat"] by simp
  with u qb us have total: "unat (used + (6 + kVringUsedElemSize * ucast q)) = unat used + (6 + 8 * unat q)"
    by (simp add: unat_add_small)
  from q have q0: "0 < unat q" by (simp add: unat_gt_0)
  from l show "vl_queue_size l = q" "vl_align l = a" by simp_all
  from q show "q \<noteq> 0" "is_power_of_two (ucast q)" by simp_all
  from l u show "unat a dvd unat (vl_used_offset l)"
    and "unat (vl_used_offset l) < 18 * unat q + 6 + unat a" by simp_all
  show "vring_wf l"
    using l q0 ds as us u total by (simp add: vring_wf_def)
qed

lemma choose_queue_size_spec:
  assumes "choose_queue_size dev req = Inr c"
  shows "c \<noteq> 0" and "c \<le> dev" and "is_power_of_two (ucast c)"
    and "c = (case req of None \<Rightarrow> dev | Some r \<Rightarrow> r)"
  using assms by (auto simp: choose_queue_size_def res_iff Let_def linorder_not_less)

section \<open>Regions\<close>

text \<open>
  A region is an offset and a size. \<open>packed rs area\<close>: the regions lie in this order, without
  overlap, inside an area of \<open>area\<close> bytes.
\<close>

definition packed :: "(nat \<times> nat) list \<Rightarrow> nat \<Rightarrow> bool" where
  "packed rs area \<longleftrightarrow>
     sorted_wrt (\<lambda>(o1, n1) (o2, n2). o1 + n1 \<le> o2) rs \<and> (\<forall>(off, n) \<in> set rs. off + n \<le> area)"

lemma packed_inside: "packed rs area \<Longrightarrow> (off, n) \<in> set rs \<Longrightarrow> off + n \<le> area"
  by (auto simp: packed_def)

lemma packed_Cons:
  "packed ((o1, n1) # rs) area \<longleftrightarrow>
     (\<forall>(o2, n2) \<in> set rs. o1 + n1 \<le> o2) \<and> o1 + n1 \<le> area \<and> packed rs area"
  by (auto simp: packed_def)

lemma packed_Nil [simp]: "packed [] area"
  by (simp add: packed_def)

section \<open>RX and TX queues with packet buffers\<close>

record DmaLayout =
  dl_rx_vring :: VringLayout
  dl_tx_vring :: VringLayout
  dl_rx_vring_offset :: u64
  dl_tx_vring_offset :: u64
  dl_rx_buffers_offset :: u64
  dl_rx_buffers_size :: u64
  dl_tx_packet_offset :: u64
  dl_tx_packet_size :: u64
  dl_tx_buffers_offset :: u64
  dl_tx_buffers_size :: u64
  dl_tx_buffer_size :: u64
  dl_total_size :: u64

text \<open>The first guards are the same in all overloads.\<close>

definition check_rx_buffers :: "u16 \<Rightarrow> u16 \<Rightarrow> unit res" where
  "check_rx_buffers rx_buffers rx_queue_size =
     bindR (throw_if (rx_buffers = 0) (RuntimeError ''rx-buffers must be greater than 0'')) (\<lambda>_.
     throw_if (rx_buffers > rx_queue_size)
       (RuntimeError (''rx-buffers must not exceed RX queue_size '' @ to_string (unat rx_queue_size))))"

text \<open>The seven-argument overload: RX buffers and a pool of TX buffers (exercises 25 and 26).\<close>

definition compute_dma_layout ::
  "int \<Rightarrow> u16 \<Rightarrow> u16 \<Rightarrow> u64 \<Rightarrow> u16 \<Rightarrow> u16 \<Rightarrow> u64 \<Rightarrow> u64 \<Rightarrow> DmaLayout res" where
  "compute_dma_layout page_size rx_queue_size tx_queue_size align rx_buffers tx_buffers
     rx_buffer_size tx_buffer_size =
     bindR (check_rx_buffers rx_buffers rx_queue_size) (\<lambda>_.
     bindR (throw_if (tx_buffers = 0) (RuntimeError ''tx-buffers must be greater than 0'')) (\<lambda>_.
     bindR (throw_if (tx_buffers > tx_queue_size)
       (RuntimeError (''tx-buffers must not exceed TX queue_size '' @
          to_string (unat tx_queue_size)))) (\<lambda>_.
     bindR (throw_if (rx_buffer_size = 0)
       (RuntimeError ''rx-buffer-size must be greater than 0'')) (\<lambda>_.
     bindR (throw_if (tx_buffer_size = 0)
       (RuntimeError ''tx-buffer-size must be greater than 0'')) (\<lambda>_.
     bindR (compute_vring_layout rx_queue_size align) (\<lambda>rx_vring.
     bindR (compute_vring_layout tx_queue_size align) (\<lambda>tx_vring.
     bindR (round_up_to_page page_size (vl_total_size rx_vring)) (\<lambda>tx_vring_offset.
     bindR (checked_add tx_vring_offset (vl_total_size tx_vring) ''TX vring end'') (\<lambda>tx_vring_end.
     bindR (round_up_to_page page_size tx_vring_end) (\<lambda>rx_buffers_offset.
     bindR (checked_mul (ucast rx_buffers) rx_buffer_size ''RX buffer area'') (\<lambda>rx_buffers_size.
     bindR (checked_add rx_buffers_offset rx_buffers_size ''RX buffer area end'') (\<lambda>rx_buffers_end.
     bindR (round_up_to_page page_size rx_buffers_end) (\<lambda>tx_buffers_offset.
     bindR (checked_mul (ucast tx_buffers) tx_buffer_size ''TX buffer area'') (\<lambda>tx_buffers_size.
     bindR (checked_add tx_buffers_offset tx_buffers_size ''DMA mapping'') (\<lambda>mapping_end.
     bindR (round_up_to_page page_size mapping_end) (\<lambda>total_size.
     Inr \<lparr>dl_rx_vring = rx_vring, dl_tx_vring = tx_vring, dl_rx_vring_offset = 0,
          dl_tx_vring_offset = tx_vring_offset, dl_rx_buffers_offset = rx_buffers_offset,
          dl_rx_buffers_size = rx_buffers_size, dl_tx_packet_offset = tx_buffers_offset,
          dl_tx_packet_size = tx_buffer_size, dl_tx_buffers_offset = tx_buffers_offset,
          dl_tx_buffers_size = tx_buffers_size, dl_tx_buffer_size = tx_buffer_size,
          dl_total_size = total_size\<rparr>))))))))))))))))"

text \<open>The six-argument overload: RX buffers and one TX packet (exercises 23 and 24).\<close>

definition compute_dma_layout_packet ::
  "int \<Rightarrow> u16 \<Rightarrow> u16 \<Rightarrow> u64 \<Rightarrow> u16 \<Rightarrow> u64 \<Rightarrow> u64 \<Rightarrow> DmaLayout res" where
  "compute_dma_layout_packet page_size rx_queue_size tx_queue_size align rx_buffers
     rx_buffer_size tx_packet_size =
     bindR (check_rx_buffers rx_buffers rx_queue_size) (\<lambda>_.
     bindR (throw_if (rx_buffer_size = 0)
       (RuntimeError ''rx-buffer-size must be greater than 0'')) (\<lambda>_.
     bindR (throw_if (tx_packet_size = 0)
       (RuntimeError ''tx packet size must be greater than 0'')) (\<lambda>_.
     bindR (compute_vring_layout rx_queue_size align) (\<lambda>rx_vring.
     bindR (compute_vring_layout tx_queue_size align) (\<lambda>tx_vring.
     bindR (round_up_to_page page_size (vl_total_size rx_vring)) (\<lambda>tx_vring_offset.
     bindR (checked_add tx_vring_offset (vl_total_size tx_vring) ''TX vring end'') (\<lambda>tx_vring_end.
     bindR (round_up_to_page page_size tx_vring_end) (\<lambda>rx_buffers_offset.
     bindR (checked_mul (ucast rx_buffers) rx_buffer_size ''RX buffer area'') (\<lambda>rx_buffers_size.
     bindR (checked_add rx_buffers_offset rx_buffers_size ''RX buffer area end'') (\<lambda>rx_buffers_end.
     bindR (round_up_to_page page_size rx_buffers_end) (\<lambda>tx_packet_offset.
     bindR (checked_add tx_packet_offset tx_packet_size ''DMA mapping'') (\<lambda>mapping_end.
     bindR (round_up_to_page page_size mapping_end) (\<lambda>total_size.
     Inr \<lparr>dl_rx_vring = rx_vring, dl_tx_vring = tx_vring, dl_rx_vring_offset = 0,
          dl_tx_vring_offset = tx_vring_offset, dl_rx_buffers_offset = rx_buffers_offset,
          dl_rx_buffers_size = rx_buffers_size, dl_tx_packet_offset = tx_packet_offset,
          dl_tx_packet_size = tx_packet_size, dl_tx_buffers_offset = tx_packet_offset,
          dl_tx_buffers_size = tx_packet_size, dl_tx_buffer_size = tx_packet_size,
          dl_total_size = total_size\<rparr>)))))))))))))"

text \<open>The five-argument overload: no TX buffer (exercises 21 and 22); the unset fields are 0.\<close>

definition compute_dma_layout_rx ::
  "int \<Rightarrow> u16 \<Rightarrow> u16 \<Rightarrow> u64 \<Rightarrow> u16 \<Rightarrow> u64 \<Rightarrow> DmaLayout res" where
  "compute_dma_layout_rx page_size rx_queue_size tx_queue_size align rx_buffers rx_buffer_size =
     bindR (check_rx_buffers rx_buffers rx_queue_size) (\<lambda>_.
     bindR (throw_if (rx_buffer_size = 0)
       (RuntimeError ''rx-buffer-size must be greater than 0'')) (\<lambda>_.
     bindR (compute_vring_layout rx_queue_size align) (\<lambda>rx_vring.
     bindR (compute_vring_layout tx_queue_size align) (\<lambda>tx_vring.
     bindR (round_up_to_page page_size (vl_total_size rx_vring)) (\<lambda>tx_vring_offset.
     bindR (checked_add tx_vring_offset (vl_total_size tx_vring) ''TX vring end'') (\<lambda>tx_vring_end.
     bindR (round_up_to_page page_size tx_vring_end) (\<lambda>rx_buffers_offset.
     bindR (checked_mul (ucast rx_buffers) rx_buffer_size ''RX buffer area'') (\<lambda>rx_buffers_size.
     bindR (checked_add rx_buffers_offset rx_buffers_size ''DMA mapping'') (\<lambda>mapping_end.
     bindR (round_up_to_page page_size mapping_end) (\<lambda>total_size.
     Inr \<lparr>dl_rx_vring = rx_vring, dl_tx_vring = tx_vring, dl_rx_vring_offset = 0,
          dl_tx_vring_offset = tx_vring_offset, dl_rx_buffers_offset = rx_buffers_offset,
          dl_rx_buffers_size = rx_buffers_size, dl_tx_packet_offset = 0,
          dl_tx_packet_size = 0, dl_tx_buffers_offset = 0, dl_tx_buffers_size = 0,
          dl_tx_buffer_size = 0, dl_total_size = total_size\<rparr>))))))))))"

section \<open>RX, TX and control queues\<close>

record CtrlqDmaLayout =
  cl_rx_vring :: VringLayout
  cl_tx_vring :: VringLayout
  cl_ctrl_vring :: VringLayout
  cl_rx_vring_offset :: u64
  cl_tx_vring_offset :: u64
  cl_ctrl_vring_offset :: u64
  cl_rx_buffers_offset :: u64
  cl_rx_buffers_size :: u64
  cl_ctrl_command_offset :: u64
  cl_ctrl_hdr_offset :: u64
  cl_ctrl_data_offset :: u64
  cl_ctrl_data_size :: u64
  cl_ctrl_state_offset :: u64
  cl_ctrl_ack_offset :: u64
  cl_total_size :: u64

definition compute_ctrlq_dma_layout ::
  "int \<Rightarrow> u16 \<Rightarrow> u16 \<Rightarrow> u16 \<Rightarrow> u64 \<Rightarrow> u16 \<Rightarrow> u64 \<Rightarrow> u64 \<Rightarrow> CtrlqDmaLayout res" where
  "compute_ctrlq_dma_layout page_size rx_queue_size tx_queue_size ctrl_queue_size align
     rx_buffers rx_buffer_size ctrl_data_size =
     bindR (check_rx_buffers rx_buffers rx_queue_size) (\<lambda>_.
     bindR (throw_if (rx_buffer_size = 0)
       (RuntimeError ''rx-buffer-size must be greater than 0'')) (\<lambda>_.
     bindR (throw_if (ctrl_queue_size < 3)
       (RuntimeError ''control queue-size must be at least 3 for this descriptor chain'')) (\<lambda>_.
     bindR (throw_if (ctrl_data_size = 0)
       (RuntimeError ''control command data size must be greater than 0'')) (\<lambda>_.
     bindR (throw_if (ctrl_data_size > 0xffffffff)
       (RuntimeError ''control command data is too large'')) (\<lambda>_.
     bindR (compute_vring_layout rx_queue_size align) (\<lambda>rx_vring.
     bindR (compute_vring_layout tx_queue_size align) (\<lambda>tx_vring.
     bindR (compute_vring_layout ctrl_queue_size align) (\<lambda>ctrl_vring.
     bindR (round_up_to_page page_size (vl_total_size rx_vring)) (\<lambda>tx_vring_offset.
     bindR (checked_add tx_vring_offset (vl_total_size tx_vring) ''TX vring end'') (\<lambda>tx_vring_end.
     bindR (round_up_to_page page_size tx_vring_end) (\<lambda>ctrl_vring_offset.
     bindR (checked_add ctrl_vring_offset (vl_total_size ctrl_vring) ''control vring end'') (\<lambda>ctrl_vring_end.
     bindR (round_up_to_page page_size ctrl_vring_end) (\<lambda>rx_buffers_offset.
     bindR (checked_mul (ucast rx_buffers) rx_buffer_size ''RX buffer area'') (\<lambda>rx_buffers_size.
     bindR (checked_add rx_buffers_offset rx_buffers_size ''RX buffer area end'') (\<lambda>rx_buffers_end.
     bindR (round_up_to_page page_size rx_buffers_end) (\<lambda>ctrl_command_offset.
     let ctrl_hdr_offset = ctrl_command_offset;
         ctrl_data_offset = ctrl_hdr_offset + kVirtioNetCtrlHdrSize;
         ctrl_ack_offset = ctrl_data_offset + ctrl_data_size
     in bindR (checked_add ctrl_ack_offset kVirtioNetCtrlAckSize ''control command area'') (\<lambda>area_end.
     bindR (round_up_to_page page_size area_end) (\<lambda>total_size.
     Inr \<lparr>cl_rx_vring = rx_vring, cl_tx_vring = tx_vring, cl_ctrl_vring = ctrl_vring,
          cl_rx_vring_offset = 0, cl_tx_vring_offset = tx_vring_offset,
          cl_ctrl_vring_offset = ctrl_vring_offset, cl_rx_buffers_offset = rx_buffers_offset,
          cl_rx_buffers_size = rx_buffers_size, cl_ctrl_command_offset = ctrl_command_offset,
          cl_ctrl_hdr_offset = ctrl_hdr_offset, cl_ctrl_data_offset = ctrl_data_offset,
          cl_ctrl_data_size = ctrl_data_size, cl_ctrl_state_offset = ctrl_data_offset,
          cl_ctrl_ack_offset = ctrl_ack_offset, cl_total_size = total_size\<rparr>))))))))))))))))))"

definition mac_table_control_data_size :: "u64 \<Rightarrow> u64 \<Rightarrow> u64 res" where
  "mac_table_control_data_size unicast_macs multicast_macs =
     bindR (checked_mul unicast_macs kVirtioNetCtrlMacAddrSize ''unicast MAC table'') (\<lambda>unicast_table.
     bindR (checked_add kVirtioNetCtrlMacTableCountSize unicast_table ''unicast MAC table'') (\<lambda>unicast_bytes.
     bindR (checked_mul multicast_macs kVirtioNetCtrlMacAddrSize ''multicast MAC table'') (\<lambda>multicast_table.
     bindR (checked_add kVirtioNetCtrlMacTableCountSize multicast_table ''multicast MAC table'') (\<lambda>multicast_bytes.
     checked_add unicast_bytes multicast_bytes ''MAC table control data''))))"

section \<open>What the layouts promise\<close>

definition dma_regions :: "DmaLayout \<Rightarrow> (nat \<times> nat) list" where
  "dma_regions l =
     [(unat (dl_rx_vring_offset l), unat (vl_total_size (dl_rx_vring l))),
      (unat (dl_tx_vring_offset l), unat (vl_total_size (dl_tx_vring l))),
      (unat (dl_rx_buffers_offset l), unat (dl_rx_buffers_size l)),
      (unat (dl_tx_buffers_offset l), unat (dl_tx_buffers_size l))]"

definition ctrlq_regions :: "CtrlqDmaLayout \<Rightarrow> (nat \<times> nat) list" where
  "ctrlq_regions l =
     [(unat (cl_rx_vring_offset l), unat (vl_total_size (cl_rx_vring l))),
      (unat (cl_tx_vring_offset l), unat (vl_total_size (cl_tx_vring l))),
      (unat (cl_ctrl_vring_offset l), unat (vl_total_size (cl_ctrl_vring l))),
      (unat (cl_rx_buffers_offset l), unat (cl_rx_buffers_size l)),
      (unat (cl_ctrl_hdr_offset l), 2),
      (unat (cl_ctrl_data_offset l), unat (cl_ctrl_data_size l)),
      (unat (cl_ctrl_ack_offset l), 1)]"

text \<open>The page size as the 64-bit value the sources compute with.\<close>

abbreviation page_bytes :: "int \<Rightarrow> nat" where
  "page_bytes ps \<equiv> unat (of_int ps :: u64)"

text \<open>One link of the chain of regions: the next offset is past the end of the region before.\<close>

lemmas page_link = page.up_after

lemma page_up:
  assumes "round_up_to_page ps v = Inr r"
  shows "unat v \<le> unat r" and "page_bytes ps dvd unat r"
  using assms by (rule page.up_ge, rule page.up_dvd)

lemma dma_layout_parts:
  assumes "compute_dma_layout ps rxq txq al rxb txb rbs tbs = Inr l"
  shows "compute_vring_layout rxq al = Inr (dl_rx_vring l)"
    and "compute_vring_layout txq al = Inr (dl_tx_vring l)"
    and "dl_rx_vring_offset l = 0"
    and "unat (vl_total_size (dl_rx_vring l)) \<le> unat (dl_tx_vring_offset l)"
    and "unat (dl_tx_vring_offset l) + unat (vl_total_size (dl_tx_vring l)) \<le> unat (dl_rx_buffers_offset l)"
    and "unat (dl_rx_buffers_size l) = unat rxb * unat rbs"
    and "unat (dl_rx_buffers_offset l) + unat rxb * unat rbs \<le> unat (dl_tx_buffers_offset l)"
    and "unat (dl_tx_buffers_size l) = unat txb * unat tbs"
    and "unat (dl_tx_buffers_offset l) + unat txb * unat tbs \<le> unat (dl_total_size l)"
    and "page_bytes ps dvd unat (dl_tx_vring_offset l)"
    and "page_bytes ps dvd unat (dl_rx_buffers_offset l)"
    and "page_bytes ps dvd unat (dl_tx_buffers_offset l)"
    and "page_bytes ps dvd unat (dl_total_size l)"
    and "dl_tx_buffer_size l = tbs"
    and "rxb \<noteq> 0" and "rxb \<le> rxq" and "txb \<noteq> 0" and "txb \<le> txq" and "rbs \<noteq> 0" and "tbs \<noteq> 0"
proof -
  from assms obtain rx tx txo txe rbo rsz rbe tbo tsz me tot where
    g: "rxb \<noteq> 0" "rxb \<le> rxq" "txb \<noteq> 0" "txb \<le> txq" "rbs \<noteq> 0" "tbs \<noteq> 0"
    and v: "compute_vring_layout rxq al = Inr rx" "compute_vring_layout txq al = Inr tx"
    and o1: "round_up_to_page ps (vl_total_size rx) = Inr txo"
    and o2: "checked_add txo (vl_total_size tx) ''TX vring end'' = Inr txe" "round_up_to_page ps txe = Inr rbo"
    and m1: "checked_mul (ucast rxb) rbs ''RX buffer area'' = Inr rsz"
    and o3: "checked_add rbo rsz ''RX buffer area end'' = Inr rbe" "round_up_to_page ps rbe = Inr tbo"
    and m2: "checked_mul (ucast txb) tbs ''TX buffer area'' = Inr tsz"
    and o4: "checked_add tbo tsz ''DMA mapping'' = Inr me" "round_up_to_page ps me = Inr tot"
    and l: "dl_rx_vring l = rx" "dl_tx_vring l = tx" "dl_rx_vring_offset l = 0"
      "dl_tx_vring_offset l = txo" "dl_rx_buffers_offset l = rbo" "dl_rx_buffers_size l = rsz"
      "dl_tx_buffers_offset l = tbo" "dl_tx_buffers_size l = tsz" "dl_tx_buffer_size l = tbs"
      "dl_total_size l = tot"
    by (auto simp: compute_dma_layout_def check_rx_buffers_def res_iff linorder_not_less)
  note sizes = m1 [unfolded checked_mul_iff] m2 [unfolded checked_mul_iff]
  note links = page_up [OF o1] page_link [OF o2] page_link [OF o3] page_link [OF o4]
  show "compute_vring_layout rxq al = Inr (dl_rx_vring l)"
    "compute_vring_layout txq al = Inr (dl_tx_vring l)" "dl_rx_vring_offset l = 0"
    "unat (vl_total_size (dl_rx_vring l)) \<le> unat (dl_tx_vring_offset l)"
    "unat (dl_tx_vring_offset l) + unat (vl_total_size (dl_tx_vring l)) \<le> unat (dl_rx_buffers_offset l)"
    "unat (dl_rx_buffers_size l) = unat rxb * unat rbs"
    "unat (dl_rx_buffers_offset l) + unat rxb * unat rbs \<le> unat (dl_tx_buffers_offset l)"
    "unat (dl_tx_buffers_size l) = unat txb * unat tbs"
    "unat (dl_tx_buffers_offset l) + unat txb * unat tbs \<le> unat (dl_total_size l)"
    "page_bytes ps dvd unat (dl_tx_vring_offset l)"
    "page_bytes ps dvd unat (dl_rx_buffers_offset l)"
    "page_bytes ps dvd unat (dl_tx_buffers_offset l)"
    "page_bytes ps dvd unat (dl_total_size l)"
    "dl_tx_buffer_size l = tbs" "rxb \<noteq> 0" "rxb \<le> rxq" "txb \<noteq> 0" "txb \<le> txq" "rbs \<noteq> 0" "tbs \<noteq> 0"
    using g v l sizes links by simp_all
qed

text \<open>
  C25. The DMA area of the echo loops: when \<open>compute_dma_layout\<close> succeeds, the RX queue, the TX
  queue, the RX buffers and the TX buffers lie in this order inside the mapped area, no two of
  them overlap, each starts on a page boundary, the buffer areas have the full size asked for and
  the mapping is a whole number of pages.
\<close>

theorem dma_layout_packed:
  assumes "compute_dma_layout ps rxq txq al rxb txb rbs tbs = Inr l"
  shows "packed (dma_regions l) (unat (dl_total_size l)) \<and>
    (\<forall>(off, n) \<in> set (dma_regions l). page_bytes ps dvd off) \<and>
    unat (dl_rx_buffers_size l) = unat rxb * unat rbs \<and>
    unat (dl_tx_buffers_size l) = unat txb * unat tbs \<and>
    page_bytes ps dvd unat (dl_total_size l)"
  using dma_layout_parts [OF assms] by (auto simp: dma_regions_def packed_Cons)

theorem dma_layout_packed_witness:
  "\<exists>l. compute_dma_layout 4096 256 256 4096 64 8 2048 2048 = Inr l \<and>
     packed (dma_regions l) (unat (dl_total_size l)) \<and> unat (dl_rx_buffers_size l) = 131072"
proof -
  have "\<exists>l. compute_dma_layout 4096 256 256 4096 64 8 2048 2048 = Inr l"
    by (intro exI) code_simp
  then obtain l where "compute_dma_layout 4096 256 256 4096 64 8 2048 2048 = Inr l" ..
  from this dma_layout_packed [OF this] show ?thesis by auto
qed

lemma dma_layout_packet_parts:
  assumes "compute_dma_layout_packet ps rxq txq al rxb rbs tps = Inr l"
  shows "compute_vring_layout rxq al = Inr (dl_rx_vring l)"
    and "compute_vring_layout txq al = Inr (dl_tx_vring l)"
    and "packed (dma_regions l) (unat (dl_total_size l))"
    and "unat (dl_rx_buffers_size l) = unat rxb * unat rbs"
    and "dl_tx_buffers_offset l = dl_tx_packet_offset l" and "dl_tx_packet_size l = tps"
    and "dl_tx_buffers_size l = tps"
    and "rxb \<noteq> 0" and "rxb \<le> rxq" and "rbs \<noteq> 0" and "tps \<noteq> 0"
proof -
  from assms obtain rx tx txo txe rbo rsz rbe tbo me tot where
    g: "rxb \<noteq> 0" "rxb \<le> rxq" "rbs \<noteq> 0" "tps \<noteq> 0"
    and v: "compute_vring_layout rxq al = Inr rx" "compute_vring_layout txq al = Inr tx"
    and o1: "round_up_to_page ps (vl_total_size rx) = Inr txo"
    and o2: "checked_add txo (vl_total_size tx) ''TX vring end'' = Inr txe" "round_up_to_page ps txe = Inr rbo"
    and m1: "checked_mul (ucast rxb) rbs ''RX buffer area'' = Inr rsz"
    and o3: "checked_add rbo rsz ''RX buffer area end'' = Inr rbe" "round_up_to_page ps rbe = Inr tbo"
    and o4: "checked_add tbo tps ''DMA mapping'' = Inr me" "round_up_to_page ps me = Inr tot"
    and l: "dl_rx_vring l = rx" "dl_tx_vring l = tx" "dl_rx_vring_offset l = 0"
      "dl_tx_vring_offset l = txo" "dl_rx_buffers_offset l = rbo" "dl_rx_buffers_size l = rsz"
      "dl_tx_packet_offset l = tbo" "dl_tx_packet_size l = tps"
      "dl_tx_buffers_offset l = tbo" "dl_tx_buffers_size l = tps" "dl_total_size l = tot"
    by (auto simp: compute_dma_layout_packet_def check_rx_buffers_def res_iff linorder_not_less)
  note links = page_up [OF o1] page_link [OF o2] page_link [OF o3] page_link [OF o4]
  show "packed (dma_regions l) (unat (dl_total_size l))"
    using l m1 [unfolded checked_mul_iff] links by (auto simp: dma_regions_def packed_Cons)
  show "compute_vring_layout rxq al = Inr (dl_rx_vring l)"
    "compute_vring_layout txq al = Inr (dl_tx_vring l)"
    "unat (dl_rx_buffers_size l) = unat rxb * unat rbs"
    "dl_tx_buffers_offset l = dl_tx_packet_offset l" "dl_tx_packet_size l = tps"
    "dl_tx_buffers_size l = tps" "rxb \<noteq> 0" "rxb \<le> rxq" "rbs \<noteq> 0" "tps \<noteq> 0"
    using g v l m1 [unfolded checked_mul_iff] by simp_all
qed

lemma dma_layout_rx_parts:
  assumes "compute_dma_layout_rx ps rxq txq al rxb rbs = Inr l"
  shows "compute_vring_layout rxq al = Inr (dl_rx_vring l)"
    and "compute_vring_layout txq al = Inr (dl_tx_vring l)"
    and "packed (butlast (dma_regions l)) (unat (dl_total_size l))"
    and "unat (dl_rx_buffers_size l) = unat rxb * unat rbs"
    and "rxb \<noteq> 0" and "rxb \<le> rxq" and "rbs \<noteq> 0"
proof -
  from assms obtain rx tx txo txe rbo rsz me tot where
    g: "rxb \<noteq> 0" "rxb \<le> rxq" "rbs \<noteq> 0"
    and v: "compute_vring_layout rxq al = Inr rx" "compute_vring_layout txq al = Inr tx"
    and o1: "round_up_to_page ps (vl_total_size rx) = Inr txo"
    and o2: "checked_add txo (vl_total_size tx) ''TX vring end'' = Inr txe" "round_up_to_page ps txe = Inr rbo"
    and m1: "checked_mul (ucast rxb) rbs ''RX buffer area'' = Inr rsz"
    and o3: "checked_add rbo rsz ''DMA mapping'' = Inr me" "round_up_to_page ps me = Inr tot"
    and l: "dl_rx_vring l = rx" "dl_tx_vring l = tx" "dl_rx_vring_offset l = 0"
      "dl_tx_vring_offset l = txo" "dl_rx_buffers_offset l = rbo" "dl_rx_buffers_size l = rsz"
      "dl_total_size l = tot"
    by (auto simp: compute_dma_layout_rx_def check_rx_buffers_def res_iff linorder_not_less)
  note links = page_up [OF o1] page_link [OF o2] page_link [OF o3]
  show "packed (butlast (dma_regions l)) (unat (dl_total_size l))"
    using l m1 [unfolded checked_mul_iff] links by (auto simp: dma_regions_def packed_Cons)
  show "compute_vring_layout rxq al = Inr (dl_rx_vring l)"
    "compute_vring_layout txq al = Inr (dl_tx_vring l)"
    "unat (dl_rx_buffers_size l) = unat rxb * unat rbs" "rxb \<noteq> 0" "rxb \<le> rxq" "rbs \<noteq> 0"
    using g v l m1 [unfolded checked_mul_iff] by simp_all
qed

section \<open>The control command area\<close>

text \<open>
  The offsets inside the control command area are plain sums. They cannot wrap when the command
  (2 header bytes, the data, 1 ACK byte) fits into a page, because the area starts on a page.
\<close>

lemma page_multiple_room:
  assumes "round_up_to_page ps v = Inr r"
  shows "unat r + page_bytes ps \<le> 2 ^ 64"
proof -
  from assms have "is_power_of_two (of_int ps)"
    by (auto simp: round_up_to_page_def system_page_size_def dest: align_up_value split: if_splits)
  then obtain k where k: "k < 64" "page_bytes ps = 2 ^ k" by (auto simp: is_power_of_two_iff)
  from page_up(2) [OF assms] obtain m where m: "unat r = page_bytes ps * m" by auto
  have pow: "(2::nat) ^ 64 = 2 ^ k * 2 ^ (64 - k)" using k by (simp flip: power_add)
  have "2 ^ k * m < 2 ^ k * 2 ^ (64 - k)"
    using unat_u64_lt [of r] m k pow by simp
  then have "Suc m \<le> 2 ^ (64 - k)" by simp
  then have "2 ^ k * Suc m \<le> 2 ^ k * 2 ^ (64 - k)" by (rule mult_le_mono2)
  with m k pow show ?thesis by simp
qed

lemma ctrlq_layout_parts:
  assumes "compute_ctrlq_dma_layout ps rxq txq cq al rxb rbs ds = Inr l"
    and room: "unat ds + 3 \<le> page_bytes ps"
  shows "compute_vring_layout rxq al = Inr (cl_rx_vring l)"
    and "compute_vring_layout txq al = Inr (cl_tx_vring l)"
    and "compute_vring_layout cq al = Inr (cl_ctrl_vring l)"
    and "packed (ctrlq_regions l) (unat (cl_total_size l))"
    and "unat (cl_rx_buffers_size l) = unat rxb * unat rbs"
    and "cl_ctrl_data_size l = ds"
    and "unat (cl_ctrl_data_offset l) = unat (cl_ctrl_hdr_offset l) + 2"
    and "unat (cl_ctrl_ack_offset l) = unat (cl_ctrl_data_offset l) + unat ds"
    and "rxb \<noteq> 0" and "rxb \<le> rxq" and "rbs \<noteq> 0" and "3 \<le> cq" and "ds \<noteq> 0"
proof -
  from assms(1) obtain rx tx ct txo txe cto cte rbo rsz rbe hdr ae tot where
    g: "rxb \<noteq> 0" "rxb \<le> rxq" "rbs \<noteq> 0" "3 \<le> cq" "ds \<noteq> 0"
    and v: "compute_vring_layout rxq al = Inr rx" "compute_vring_layout txq al = Inr tx"
      "compute_vring_layout cq al = Inr ct"
    and o1: "round_up_to_page ps (vl_total_size rx) = Inr txo"
    and o2: "checked_add txo (vl_total_size tx) ''TX vring end'' = Inr txe" "round_up_to_page ps txe = Inr cto"
    and o3: "checked_add cto (vl_total_size ct) ''control vring end'' = Inr cte" "round_up_to_page ps cte = Inr rbo"
    and m1: "checked_mul (ucast rxb) rbs ''RX buffer area'' = Inr rsz"
    and o4: "checked_add rbo rsz ''RX buffer area end'' = Inr rbe" "round_up_to_page ps rbe = Inr hdr"
    and o5: "checked_add (hdr + kVirtioNetCtrlHdrSize + ds) kVirtioNetCtrlAckSize ''control command area'' = Inr ae"
      "round_up_to_page ps ae = Inr tot"
    and l: "cl_rx_vring l = rx" "cl_tx_vring l = tx" "cl_ctrl_vring l = ct"
      "cl_rx_vring_offset l = 0" "cl_tx_vring_offset l = txo" "cl_ctrl_vring_offset l = cto"
      "cl_rx_buffers_offset l = rbo" "cl_rx_buffers_size l = rsz" "cl_ctrl_hdr_offset l = hdr"
      "cl_ctrl_data_offset l = hdr + kVirtioNetCtrlHdrSize" "cl_ctrl_data_size l = ds"
      "cl_ctrl_ack_offset l = hdr + kVirtioNetCtrlHdrSize + ds" "cl_total_size l = tot"
    by (auto simp: compute_ctrlq_dma_layout_def check_rx_buffers_def res_iff linorder_not_less Let_def)
  from page_multiple_room [OF o4(2)] room
  have d: "unat (hdr + kVirtioNetCtrlHdrSize) = unat hdr + 2"
    and a: "unat (hdr + kVirtioNetCtrlHdrSize + ds) = unat hdr + 2 + unat ds"
    by (simp_all add: kVirtioNetCtrlHdrSize_def unat_add_small)
  note links = page_up [OF o1] page_link [OF o2] page_link [OF o3] page_link [OF o4] page_link [OF o5]
  show "packed (ctrlq_regions l) (unat (cl_total_size l))"
    using l m1 [unfolded checked_mul_iff] links d a
    by (auto simp: ctrlq_regions_def packed_Cons kVirtioNetCtrlAckSize_def)
  show "compute_vring_layout rxq al = Inr (cl_rx_vring l)"
    "compute_vring_layout txq al = Inr (cl_tx_vring l)"
    "compute_vring_layout cq al = Inr (cl_ctrl_vring l)"
    "unat (cl_rx_buffers_size l) = unat rxb * unat rbs" "cl_ctrl_data_size l = ds"
    "unat (cl_ctrl_data_offset l) = unat (cl_ctrl_hdr_offset l) + 2"
    "unat (cl_ctrl_ack_offset l) = unat (cl_ctrl_data_offset l) + unat ds"
    "rxb \<noteq> 0" "rxb \<le> rxq" "rbs \<noteq> 0" "3 \<le> cq" "ds \<noteq> 0"
    using g v l m1 [unfolded checked_mul_iff] d a by simp_all
qed

text \<open>
  The DMA area of the control-queue exercises: the three queues, the RX buffers, the command
  header, the command data and the ACK byte lie in this order inside the mapped area without
  overlap, as long as the command fits into one page (the exercises use 1, 6 and 14 data bytes).
\<close>

theorem ctrlq_layout_packed:
  assumes "compute_ctrlq_dma_layout ps rxq txq cq al rxb rbs ds = Inr l"
    and "unat ds + 3 \<le> page_bytes ps"
  shows "packed (ctrlq_regions l) (unat (cl_total_size l)) \<and>
    unat (cl_ctrl_data_offset l) = unat (cl_ctrl_hdr_offset l) + 2 \<and>
    unat (cl_ctrl_ack_offset l) = unat (cl_ctrl_data_offset l) + unat ds"
  using ctrlq_layout_parts [OF assms] by simp

theorem ctrlq_layout_packed_witness:
  "\<exists>l. compute_ctrlq_dma_layout 4096 256 256 64 4096 64 2048 14 = Inr l \<and>
     packed (ctrlq_regions l) (unat (cl_total_size l))"
proof -
  have "\<exists>l. compute_ctrlq_dma_layout 4096 256 256 64 4096 64 2048 14 = Inr l"
    by (intro exI) code_simp
  then obtain l where "compute_ctrlq_dma_layout 4096 256 256 64 4096 64 2048 14 = Inr l" ..
  from this ctrlq_layout_packed [OF this] show ?thesis by auto
qed

text \<open>
  Without that bound the sums do wrap: \<open>compute_ctrlq_dma_layout\<close> checks its other sums but
  not the one for the ACK byte, so for a huge RX buffer and 8192 bytes of command data it succeeds
  with the ACK byte inside the RX queue and a mapping of two pages.
\<close>

theorem ctrlq_layout_ack_wraps:
  "(case compute_ctrlq_dma_layout 4096 4 4 4 4096 1 0xffffffffffff9000 8192 of
      Inl _ \<Rightarrow> False
    | Inr l \<Rightarrow> cl_ctrl_ack_offset l = 4098 \<and> cl_ctrl_hdr_offset l = 0xfffffffffffff000 \<and>
        cl_total_size l = 8192 \<and> vl_total_size (cl_rx_vring l) = 4134)"
  by code_simp

end
