(* ===== verification/Vring.thy ===== *)
theory Vring
  imports World Layout
begin

text \<open>
  The split virtqueue operations of \<open>userspace_drivers/virtio_net_vfio.hpp\<close> on the bytes of the DMA
  buffer: the pointers into descriptor table, available ring and used ring, \<open>publish_rx_buffers\<close>,
  \<open>recycle_rx_buffer\<close>, both overloads of \<open>publish_tx_packet\<close>, \<open>read_used_idx\<close> and \<open>used_delta\<close>. The
  lemmas give each operation's effect on memory, show that it stays inside its queue, and that
  appending to the available ring refines appending to a list.
\<close>

section \<open>Constants and structures\<close>

definition kVringDescFNext :: u16 where "kVringDescFNext = 1"
definition kVringDescFWrite :: u16 where "kVringDescFWrite = 2"

record VringDesc =
  vd_addr :: u64
  vd_len :: u32
  vd_flags :: u16
  vd_next :: u16

record VringUsedElem =
  ue_id :: u32
  ue_len :: u32

section \<open>Pointers\<close>

definition vring_descs :: "nat \<Rightarrow> VringLayout \<Rightarrow> nat" where
  "vring_descs queue_base layout = queue_base + unat (vl_desc_offset layout)"

definition vring_avail_ring :: "nat \<Rightarrow> VringLayout \<Rightarrow> nat" where
  "vring_avail_ring queue_base layout = queue_base + unat (vl_avail_offset layout) + 2 * 2"

definition vring_avail_idx :: "nat \<Rightarrow> VringLayout \<Rightarrow> nat" where
  "vring_avail_idx queue_base layout = queue_base + unat (vl_avail_offset layout) + 2"

definition vring_used_idx :: "nat \<Rightarrow> VringLayout \<Rightarrow> nat" where
  "vring_used_idx queue_base layout = queue_base + unat (vl_used_offset layout) + 2"

definition vring_used_elems :: "nat \<Rightarrow> VringLayout \<Rightarrow> nat" where
  "vring_used_elems queue_base layout = queue_base + unat (vl_used_offset layout) + 2 * 2"

lemmas vring_pointers = vring_descs_def vring_avail_ring_def vring_avail_idx_def
  vring_used_idx_def vring_used_elems_def

section \<open>Operations\<close>

text \<open>The assignments to the four fields of \<open>desc[i]\<close>, in the order of the sources.\<close>

definition store_desc :: "nat \<Rightarrow> nat \<Rightarrow> u64 \<Rightarrow> u32 \<Rightarrow> u16 \<Rightarrow> u16 \<Rightarrow> ('w st, unit) M" where
  "store_desc desc i addr len flags nxt =
     thenM (store64 (desc + 16 * i) addr)
    (thenM (store32 (desc + 16 * i + 8) len)
    (thenM (store16 (desc + 16 * i + 12) flags)
           (store16 (desc + 16 * i + 14) nxt)))"

definition publish_rx_buffers :: "nat \<Rightarrow> VringLayout \<Rightarrow> u64 \<Rightarrow> u16 \<Rightarrow> u64 \<Rightarrow> ('w st, unit) M" where
  "publish_rx_buffers rx_queue_base rx_layout rx_buffer_iova rx_buffers rx_buffer_size =
     (let desc = vring_descs rx_queue_base rx_layout;
          avail_ring = vring_avail_ring rx_queue_base rx_layout
      in thenM (throw_ifM (rx_buffer_size > 0xffffffff)
           (RuntimeError ''rx-buffer-size is too large for a vring desc''))
        (thenM (forM [0..<unat rx_buffers] (\<lambda>i.
           thenM (store_desc desc i (rx_buffer_iova + of_nat i * rx_buffer_size)
                    (ucast rx_buffer_size) kVringDescFWrite 0)
                 (store16 (avail_ring + 2 * i) (of_nat i))))
        (store16 (vring_avail_idx rx_queue_base rx_layout) rx_buffers)))"

definition recycle_rx_buffer :: "'w env \<Rightarrow> nat \<Rightarrow> VringLayout \<Rightarrow> u16 \<Rightarrow> ('w st, unit) M" where
  "recycle_rx_buffer env rx_queue_base rx_layout desc_id =
     bindM (vload16 env (vring_avail_idx rx_queue_base rx_layout)) (\<lambda>avail_idx.
     thenM (store16 (vring_avail_ring rx_queue_base rx_layout +
              2 * (unat avail_idx mod unat (vl_queue_size rx_layout))) desc_id)
           (store16 (vring_avail_idx rx_queue_base rx_layout) (avail_idx + 1)))"

text \<open>The overload that always uses descriptor 0 (exercises 23 and 24).\<close>

definition publish_tx_packet0 :: "nat \<Rightarrow> VringLayout \<Rightarrow> u64 \<Rightarrow> u64 \<Rightarrow> ('w st, unit) M" where
  "publish_tx_packet0 tx_queue_base tx_layout tx_packet_iova tx_packet_size =
     thenM (throw_ifM (tx_packet_size > 0xffffffff)
       (RuntimeError ''TX packet is too large for a vring desc''))
    (thenM (store_desc (vring_descs tx_queue_base tx_layout) 0 tx_packet_iova
              (ucast tx_packet_size) 0 0)
    (thenM (store16 (vring_avail_ring tx_queue_base tx_layout) 0)
           (store16 (vring_avail_idx tx_queue_base tx_layout) 1)))"

definition publish_tx_packet ::
  "'w env \<Rightarrow> nat \<Rightarrow> VringLayout \<Rightarrow> u16 \<Rightarrow> u64 \<Rightarrow> u64 \<Rightarrow> ('w st, unit) M" where
  "publish_tx_packet env tx_queue_base tx_layout desc_id tx_packet_iova tx_packet_size =
     thenM (throw_ifM (tx_packet_size > 0xffffffff)
       (RuntimeError ''TX packet is too large for a vring desc''))
    (bindM (vload16 env (vring_avail_idx tx_queue_base tx_layout)) (\<lambda>avail_idx.
     thenM (store_desc (vring_descs tx_queue_base tx_layout) (unat desc_id) tx_packet_iova
              (ucast tx_packet_size) 0 0)
    (thenM (store16 (vring_avail_ring tx_queue_base tx_layout +
              2 * (unat avail_idx mod unat (vl_queue_size tx_layout))) desc_id)
           (store16 (vring_avail_idx tx_queue_base tx_layout) (avail_idx + 1)))))"

definition read_used_idx :: "'w env \<Rightarrow> nat \<Rightarrow> VringLayout \<Rightarrow> ('w st, u16) M" where
  "read_used_idx env queue_base layout = vload16 env (vring_used_idx queue_base layout)"

definition used_delta :: "u16 \<Rightarrow> u16 \<Rightarrow> u16" where
  "used_delta before after = after - before"

text \<open>The volatile reads of \<open>elems[slot].id\<close> and \<open>elems[slot].len\<close>.\<close>

definition used_elem_id :: "'w env \<Rightarrow> nat \<Rightarrow> VringLayout \<Rightarrow> nat \<Rightarrow> ('w st, u32) M" where
  "used_elem_id env queue_base layout slot =
     vload32 env (vring_used_elems queue_base layout + 8 * slot)"

definition used_elem_len :: "'w env \<Rightarrow> nat \<Rightarrow> VringLayout \<Rightarrow> nat \<Rightarrow> ('w st, u32) M" where
  "used_elem_len env queue_base layout slot =
     vload32 env (vring_used_elems queue_base layout + 8 * slot + 4)"

section \<open>No access leaves the queue\<close>

text \<open>Where the parts of a well-formed queue end.\<close>

lemma vring_bounds:
  assumes "vring_wf l" and "i < unat (vl_queue_size l)" and "b + unat (vl_total_size l) \<le> n"
  shows "vring_descs b l + 16 * i + 16 \<le> n"
    and "vring_avail_ring b l + 2 * i + 2 \<le> n"
    and "vring_avail_idx b l + 2 \<le> n"
    and "vring_used_idx b l + 2 \<le> n"
    and "vring_used_elems b l + 8 * i + 8 \<le> n"
  using assms by (auto simp: vring_wf_def vring_pointers)

lemma vring_nonempty: "vring_wf l \<Longrightarrow> k mod unat (vl_queue_size l) < unat (vl_queue_size l)"
  by (simp add: vring_wf_def)

text \<open>
  The premises shared by the safety lemmas of one queue: it is well-formed and lies inside a
  buffer of \<open>n\<close> bytes.
\<close>

definition queue_at :: "nat \<Rightarrow> VringLayout \<Rightarrow> nat \<Rightarrow> bool" where
  "queue_at b l n \<longleftrightarrow> vring_wf l \<and> b + unat (vl_total_size l) \<le> n"

lemma queue_at_bounds:
  assumes "queue_at b l n" and "i < unat (vl_queue_size l)"
  shows "vring_descs b l + 16 * i + 16 \<le> n"
    and "vring_avail_ring b l + 2 * i + 2 \<le> n"
    and "vring_used_elems b l + 8 * i + 8 \<le> n"
  using assms vring_bounds [of l i b n] by (simp_all add: queue_at_def)

lemma queue_at_idx:
  assumes "queue_at b l n"
  shows "vring_avail_idx b l + 2 \<le> n" and "vring_used_idx b l + 2 \<le> n"
  using assms vring_bounds [of l 0 b n] by (simp_all add: queue_at_def vring_wf_def)

lemma queue_at_slot: "queue_at b l n \<Longrightarrow> k mod unat (vl_queue_size l) < unat (vl_queue_size l)"
  by (simp add: queue_at_def vring_nonempty)

lemma safe_store_desc:
  "desc + 16 * i + 16 \<le> n \<Longrightarrow> safe (buffer_size n) (store_desc desc i a len fl nx)"
  unfolding store_desc_def by (intro safe_bindM safe_access) simp_all

lemma safe_publish_rx_buffers [safe_rules]:
  assumes "queue_at b l n" and "cnt \<le> vl_queue_size l"
  shows "safe (buffer_size n) (publish_rx_buffers b l iova cnt sz)"
proof -
  from assms(2) have "unat cnt \<le> unat (vl_queue_size l)" by (simp add: word_le_nat_alt)
  then show ?thesis
    unfolding publish_rx_buffers_def Let_def
    by (intro safe_bindM safe_throw_ifM safe_forM safe_store_desc safe_store16)
      (auto simp: queue_at_bounds [OF assms(1)] queue_at_idx [OF assms(1)])
qed

lemma safe_recycle_rx_buffer [safe_rules]:
  assumes "env_ok env" and "queue_at b l n"
  shows "safe (buffer_size n) (recycle_rx_buffer env b l d)"
  unfolding recycle_rx_buffer_def using assms
  by (intro safe_bindM safe_vload16 safe_store16)
    (simp_all add: queue_at_idx queue_at_bounds queue_at_slot)

lemma safe_publish_tx_packet0 [safe_rules]:
  assumes "queue_at b l n"
  shows "safe (buffer_size n) (publish_tx_packet0 b l iova sz)"
proof -
  from assms have "0 < unat (vl_queue_size l)" by (simp add: queue_at_def vring_wf_def)
  from queue_at_bounds [OF assms this] queue_at_idx [OF assms] show ?thesis
    unfolding publish_tx_packet0_def
    by (intro safe_bindM safe_throw_ifM safe_store_desc safe_store16) simp_all
qed

lemma safe_publish_tx_packet [safe_rules]:
  assumes "env_ok env" and "queue_at b l n" and "unat d < unat (vl_queue_size l)"
  shows "safe (buffer_size n) (publish_tx_packet env b l d iova sz)"
  unfolding publish_tx_packet_def using assms
  by (intro safe_bindM safe_throw_ifM safe_vload16 safe_store_desc safe_store16)
    (simp_all add: queue_at_idx queue_at_bounds queue_at_slot)

lemma safe_read_used_idx [safe_rules]:
  "env_ok env \<Longrightarrow> queue_at b l n \<Longrightarrow> safe (buffer_size n) (read_used_idx env b l)"
  by (simp add: read_used_idx_def safe_vload16 queue_at_idx)

lemma safe_used_elem [safe_rules]:
  assumes "env_ok env" and "queue_at b l n" and "slot < unat (vl_queue_size l)"
  shows "safe (buffer_size n) (used_elem_id env b l slot)"
    and "safe (buffer_size n) (used_elem_len env b l slot)"
  using assms queue_at_bounds(3) [OF assms(2,3)]
  by (simp_all add: used_elem_id_def used_elem_len_def safe_vload32)

section \<open>Index arithmetic\<close>

text \<open>Ring indexes count modulo 65536; a queue size that is a power of two divides that.\<close>

lemma power_of_two_dvd_65536:
  assumes "is_power_of_two (ucast (q :: u16))"
  shows "unat q dvd 65536"
proof -
  from assms obtain k where k: "unat q = 2 ^ k" by (auto simp: is_power_of_two_nat)
  then have "(2::nat) ^ k < 2 ^ 16" using unat_u16_lt [of q] by simp
  then have "k < 16" by (rule power_less_imp_less_exp [rotated]) simp
  then have "k \<le> 16" by simp
  then have "(2::nat) ^ k dvd 2 ^ 16" by (rule le_imp_power_dvd)
  with k show ?thesis by simp
qed

lemma u16_index_mod:
  assumes "q dvd 65536"
  shows "unat (i + of_nat k :: u16) mod q = (unat i + k) mod q"
proof -
  have "unat (i + of_nat k :: u16) = (unat i + k) mod 65536"
    by (simp add: unat_word_ariths unat_of_nat mod_add_right_eq)
  with assms show ?thesis by (simp add: mod_mod_cancel)
qed

lemma u16_diff_Suc:
  fixes a b :: u16
  assumes "unat (a - b) < 65535"
  shows "unat (a + 1 - b) = Suc (unat (a - b))"
proof -
  have "a + 1 - b = (a - b) + 1" by simp
  also have "unat \<dots> = unat (a - b) + unat (1 :: u16)"
    using assms by (intro unat_add_small) simp
  finally show ?thesis by simp
qed

lemma used_delta_advance: "k < 65536 \<Longrightarrow> unat (used_delta i (i + of_nat k)) = k"
  by (simp add: used_delta_def unat_of_nat)

section \<open>The interface of a ring with a producer index\<close>

text \<open>
  \<open>slots m j\<close> is the entry in slot \<open>j\<close>, \<open>idx m\<close> the free-running producer index, \<open>push\<close> the
  operation that adds an entry, \<open>q\<close> the number of slots and \<open>ok\<close> the states in which the ring is
  intact.
\<close>

locale ring_producer =
  fixes slots :: "'m \<Rightarrow> nat \<Rightarrow> 'a" and idx :: "'m \<Rightarrow> u16" and push :: "'a \<Rightarrow> 'm \<Rightarrow> 'm"
    and q :: nat and ok :: "'m \<Rightarrow> bool"
  assumes q_size: "ok m \<Longrightarrow> 0 < q \<and> q < 65536 \<and> q dvd 65536"
    and push_ok: "ok m \<Longrightarrow> ok (push x m)"
    and push_idx: "ok m \<Longrightarrow> idx (push x m) = idx m + 1"
    and push_slot: "ok m \<Longrightarrow> slots (push x m) (unat (idx m) mod q) = x"
    and push_other: "ok m \<Longrightarrow> j < q \<Longrightarrow> j \<noteq> unat (idx m) mod q \<Longrightarrow> slots (push x m) j = slots m j"
begin

text \<open>The entries from index \<open>start\<close> (the consumer's) up to the producer index.\<close>

definition pending :: "u16 \<Rightarrow> 'm \<Rightarrow> 'a list" where
  "pending start m = map (\<lambda>k. slots m ((unat start + k) mod q)) [0..<unat (idx m - start)]"

lemma producer_slot:
  assumes "ok m"
  shows "unat (idx m) mod q = (unat start + unat (idx m - start)) mod q"
proof -
  have "idx m = start + of_nat (unat (idx m - start))" by simp
  with u16_index_mod [of q start "unat (idx m - start)"] q_size [OF assms] show ?thesis by metis
qed

text \<open>While there is a free slot, pushing appends to the pending entries.\<close>

lemma push_pending:
  assumes "ok m" and "unat (idx m - start) < q"
  shows "pending start (push x m) = pending start m @ [x]"
proof -
  let ?n = "unat (idx m - start)"
  from q_size [OF assms(1)] have q: "0 < q" "q < 65536" by simp_all
  have n: "unat (idx (push x m) - start) = Suc ?n"
    using assms q by (simp add: push_idx u16_diff_Suc)
  have new: "slots (push x m) ((unat start + ?n) mod q) = x"
    using push_slot [OF assms(1)] producer_slot [OF assms(1), of start] by simp
  have old: "slots (push x m) ((unat start + k) mod q) = slots m ((unat start + k) mod q)"
    if "k < ?n" for k
    using push_other [OF assms(1), of "(unat start + k) mod q" x] q that assms(2)
      mod_slots_distinct [of k ?n q "unat start"] producer_slot [OF assms(1), of start]
    by simp
  show ?thesis by (simp add: pending_def n new old)
qed

lemma length_pending: "length (pending start m) = unat (idx m - start)"
  by (simp add: pending_def)

text \<open>A consumer that takes the first entry leaves the rest.\<close>

lemma pending_consume:
  assumes "ok m" and "idx m \<noteq> start"
  shows "pending start m = slots m (unat start mod q) # pending (start + 1) m"
proof -
  have pos: "0 < unat (idx m - start)" using assms(2) by (simp add: unat_gt_0)
  have "idx m - (start + 1) = (idx m - start) - 1" by simp
  then have n: "unat (idx m - (start + 1)) = unat (idx m - start) - 1"
    using pos by (metis unat_minus_one unat_eq_zero less_irrefl)
  have slot: "slots m ((unat (start + 1) + k) mod q) = slots m ((unat start + Suc k) mod q)" for k
  proof -
    have "(unat (start + 1) + k) mod q = (unat (start + of_nat 1) mod q + k) mod q"
      by (simp add: mod_add_left_eq)
    also have "\<dots> = ((unat start + 1) mod q + k) mod q"
      using u16_index_mod [of q start 1] q_size [OF assms(1)] by simp
    finally show ?thesis by (simp add: mod_add_left_eq)
  qed
  have "[0..<unat (idx m - start)] = 0 # map Suc [0..<unat (idx m - start) - 1]"
    using pos by (simp add: map_Suc_upt upt_conv_Cons)
  then show ?thesis by (simp add: pending_def n slot)
qed

end

section \<open>What the queue memory holds\<close>

definition rd16 :: "nat \<Rightarrow> u8 list \<Rightarrow> u16" where "rd16 p m = le_word (segment p 2 m)"
definition rd32 :: "nat \<Rightarrow> u8 list \<Rightarrow> u32" where "rd32 p m = le_word (segment p 4 m)"
definition rd64 :: "nat \<Rightarrow> u8 list \<Rightarrow> u64" where "rd64 p m = le_word (segment p 8 m)"

definition desc_at :: "nat \<Rightarrow> VringLayout \<Rightarrow> u8 list \<Rightarrow> nat \<Rightarrow> VringDesc" where
  "desc_at b l m i =
     (let p = vring_descs b l + 16 * i
      in \<lparr>vd_addr = rd64 p m, vd_len = rd32 (p + 8) m, vd_flags = rd16 (p + 12) m,
          vd_next = rd16 (p + 14) m\<rparr>)"

definition avail_at :: "nat \<Rightarrow> VringLayout \<Rightarrow> u8 list \<Rightarrow> nat \<Rightarrow> u16" where
  "avail_at b l m i = rd16 (vring_avail_ring b l + 2 * i) m"

definition avail_idx_of :: "nat \<Rightarrow> VringLayout \<Rightarrow> u8 list \<Rightarrow> u16" where
  "avail_idx_of b l m = rd16 (vring_avail_idx b l) m"

definition used_idx_of :: "nat \<Rightarrow> VringLayout \<Rightarrow> u8 list \<Rightarrow> u16" where
  "used_idx_of b l m = rd16 (vring_used_idx b l) m"

definition used_at :: "nat \<Rightarrow> VringLayout \<Rightarrow> u8 list \<Rightarrow> nat \<Rightarrow> VringUsedElem" where
  "used_at b l m i =
     (let p = vring_used_elems b l + 8 * i
      in \<lparr>ue_id = rd32 p m, ue_len = rd32 (p + 4) m\<rparr>)"

lemmas queue_views = desc_at_def avail_at_def avail_idx_of_def used_idx_of_def used_at_def Let_def

text \<open>Typed reads against stores, from the laws of the byte store.\<close>

lemma rd_same [simp]:
  "p + 2 \<le> length m \<Longrightarrow> rd16 p (overwrite p (le_bytes 2 (v16 :: u16)) m) = v16"
  "p + 4 \<le> length m \<Longrightarrow> rd32 p (overwrite p (le_bytes 4 (v32 :: u32)) m) = v32"
  "p + 8 \<le> length m \<Longrightarrow> rd64 p (overwrite p (le_bytes 8 (v64 :: u64)) m) = v64"
  using bytes.rdw_wr_same [of p 2 m v16] bytes.rdw_wr_same [of p 4 m v32]
    bytes.rdw_wr_same [of p 8 m v64]
  by (simp_all add: rd16_def rd32_def rd64_def bytes.rdw_def)

lemma rd_other:
  "p + length bs \<le> length m \<Longrightarrow> q + 2 \<le> length m \<Longrightarrow> q + 2 \<le> p \<or> p + length bs \<le> q \<Longrightarrow>
     rd16 q (overwrite p bs m) = rd16 q m"
  "p + length bs \<le> length m \<Longrightarrow> q + 4 \<le> length m \<Longrightarrow> q + 4 \<le> p \<or> p + length bs \<le> q \<Longrightarrow>
     rd32 q (overwrite p bs m) = rd32 q m"
  "p + length bs \<le> length m \<Longrightarrow> q + 8 \<le> length m \<Longrightarrow> q + 8 \<le> p \<or> p + length bs \<le> q \<Longrightarrow>
     rd64 q (overwrite p bs m) = rd64 q m"
  by (simp_all add: rd16_def rd32_def rd64_def segment_overwrite_other)

section \<open>Recycling appends to the available ring\<close>

definition recycle_mem :: "nat \<Rightarrow> VringLayout \<Rightarrow> u16 \<Rightarrow> u8 list \<Rightarrow> u8 list" where
  "recycle_mem b l did m =
     (let i = avail_idx_of b l m
      in overwrite (vring_avail_idx b l) (le_bytes 2 (i + 1))
           (overwrite (vring_avail_ring b l + 2 * (unat i mod unat (vl_queue_size l)))
              (le_bytes 2 did) m))"

text \<open>The state after the device's move that a volatile load lets happen.\<close>

definition after_dma :: "'w env \<Rightarrow> 'w st \<Rightarrow> 'w st" where
  "after_dma env s = snd (dma_step env s)"

lemma length_after_dma [simp]: "env_ok env \<Longrightarrow> length (mem (after_dma env s)) = length (mem s)"
  by (simp add: after_dma_def dma_step_def env_ok_def split: prod.splits) (metis fst_conv)

lemma vload_eq:
  "env_ok env \<Longrightarrow> p + k \<le> length (mem s) \<Longrightarrow>
     vload env p k s = (Inr (segment p k (mem (after_dma env s))), after_dma env s)"
  using length_after_dma [of env s]
  by (cases "env_dma env (mem s) (world s)")
    (simp add: vload_def bindM_def load_def after_dma_def dma_step_def)

lemma vload16_eq:
  "env_ok env \<Longrightarrow> p + 2 \<le> length (mem s) \<Longrightarrow>
     vload16 env p s = (Inr (rd16 p (mem (after_dma env s))), after_dma env s)"
  by (simp add: vload16_def bindM_def vload_eq returnM_def rd16_def)

lemma vload32_eq:
  "env_ok env \<Longrightarrow> p + 4 \<le> length (mem s) \<Longrightarrow>
     vload32 env p s = (Inr (rd32 p (mem (after_dma env s))), after_dma env s)"
  by (simp add: vload32_def bindM_def vload_eq returnM_def rd32_def)

lemma store_eq:
  "p + length bs \<le> length (mem s) \<Longrightarrow> store p bs s = (Inr (), s\<lparr>mem := overwrite p bs (mem s)\<rparr>)"
  by (simp add: store_def)

lemma store_eqs:
  "p + 2 \<le> length (mem s) \<Longrightarrow> store16 p h s = (Inr (), s\<lparr>mem := overwrite p (le_bytes 2 h) (mem s)\<rparr>)"
  "p + 4 \<le> length (mem s) \<Longrightarrow> store32 p w s = (Inr (), s\<lparr>mem := overwrite p (le_bytes 4 w) (mem s)\<rparr>)"
  "p + 8 \<le> length (mem s) \<Longrightarrow> store64 p d s = (Inr (), s\<lparr>mem := overwrite p (le_bytes 8 d) (mem s)\<rparr>)"
  by (simp_all add: store16_def store32_def store64_def store_eq)

definition queue_ok :: "nat \<Rightarrow> VringLayout \<Rightarrow> u8 list \<Rightarrow> bool" where
  "queue_ok b l m \<longleftrightarrow> queue_at b l (length m) \<and> unat (vl_queue_size l) dvd 65536"

lemma recycle_rx_buffer_eq:
  assumes "env_ok env" and "queue_ok b l (mem s)"
  shows "recycle_rx_buffer env b l did s =
    (Inr (), (after_dma env s)\<lparr>mem := recycle_mem b l did (mem (after_dma env s))\<rparr>)"
proof -
  from assms have q: "queue_at b l (length (mem s))" by (simp add: queue_ok_def)
  note b = queue_at_idx [OF q] queue_at_bounds(2) [OF q queue_at_slot [OF q]]
  show ?thesis
    using assms(1) b
    by (simp add: recycle_rx_buffer_def bindM_def vload16_eq store_eqs recycle_mem_def
        avail_idx_of_def Let_def)
qed

text \<open>The layout facts that keep ring entries and index apart.\<close>

lemma ring_apart:
  assumes "queue_at b l n" and "i < unat (vl_queue_size l)"
  shows "vring_avail_idx b l + 2 \<le> vring_avail_ring b l + 2 * i"
    and "vring_avail_ring b l + 2 * i + 2 \<le> vring_used_idx b l"
    and "vring_avail_idx b l + 2 \<le> n" and "vring_avail_ring b l + 2 * i + 2 \<le> n"
  using assms by (auto simp: queue_at_def vring_wf_def vring_pointers)

interpretation avail: ring_producer "avail_at b l" "avail_idx_of b l" "recycle_mem b l"
  "unat (vl_queue_size l)" "queue_ok b l" for b l
proof unfold_locales
  fix m x
  assume ok: "queue_ok b l m"
  then have at: "queue_at b l (length m)" and dvd: "unat (vl_queue_size l) dvd 65536"
    by (simp_all add: queue_ok_def)
  let ?k = "unat (avail_idx_of b l m) mod unat (vl_queue_size l)"
  have k: "?k < unat (vl_queue_size l)" using at by (rule queue_at_slot)
  note a = ring_apart [OF at k]
  show "0 < unat (vl_queue_size l) \<and> unat (vl_queue_size l) < 65536 \<and> unat (vl_queue_size l) dvd 65536"
    using at dvd unat_u16_lt by (auto simp: queue_at_def vring_wf_def)
  show "queue_ok b l (recycle_mem b l x m)"
    using ok a by (simp add: queue_ok_def recycle_mem_def Let_def)
  show "avail_idx_of b l (recycle_mem b l x m) = avail_idx_of b l m + 1"
    using a by (simp add: avail_idx_of_def recycle_mem_def Let_def)
  show "avail_at b l (recycle_mem b l x m) ?k = x"
    using a by (simp add: avail_at_def recycle_mem_def Let_def rd_other)
  fix j assume j: "j < unat (vl_queue_size l)" "j \<noteq> ?k"
  then have "j < ?k \<or> ?k < j" by linarith
  then show "avail_at b l (recycle_mem b l x m) j = avail_at b l m j"
    using a ring_apart [OF at j(1)] by (auto simp: avail_at_def recycle_mem_def Let_def rd_other)
qed

definition avail_pending :: "nat \<Rightarrow> VringLayout \<Rightarrow> u16 \<Rightarrow> u8 list \<Rightarrow> u16 list" where
  "avail_pending b l start m =
     map (\<lambda>k. avail_at b l m ((unat start + k) mod unat (vl_queue_size l)))
       [0..<unat (avail_idx_of b l m - start)]"

lemma avail_pending_eq: "avail_pending b l = avail.pending b l"
  by (rule ext)+ (simp add: avail_pending_def avail.pending_def)

text \<open>A queue of four descriptors that ends at byte 152, for the examples.\<close>

definition ring4 :: VringLayout where
  "ring4 = \<lparr>vl_queue_size = 4, vl_align = 16, vl_desc_offset = 0, vl_desc_size = 64, vl_avail_offset = 64,
     vl_avail_size = 14, vl_used_offset = 80, vl_used_size = 38, vl_total_size = 118\<rparr>"

lemma ring4_ok: "queue_ok 0 ring4 (replicate 152 0)"
  by (simp add: queue_ok_def queue_at_def vring_wf_def ring4_def)

lemma after_dma_quiet [simp]: "after_dma quiet_env s = s"
  by (simp add: after_dma_def dma_step_def quiet_env_def)
text \<open>
  C26. Recycling a descriptor refines appending to a list: with the available ring read as the list
  of entries from the device's index \<open>start\<close> up to the driver's, and a free slot left,
  \<open>recycle_rx_buffer\<close> returns normally and appends exactly the recycled descriptor to the list the
  device left, also when the 16-bit index wraps.
\<close>

theorem recycle_appends:
  assumes "env_ok env" and "queue_ok b l (mem s)"
    and "unat (avail_idx_of b l (mem (after_dma env s)) - start) < unat (vl_queue_size l)"
  shows "\<exists>s'. recycle_rx_buffer env b l did s = (Inr (), s') \<and>
    avail_pending b l start (mem s') = avail_pending b l start (mem (after_dma env s)) @ [did]"
proof -
  have "queue_ok b l (mem (after_dma env s))"
    using assms(1,2) by (simp add: queue_ok_def)
  from avail.push_pending [OF this assms(3)] recycle_rx_buffer_eq [OF assms(1,2)]
  show ?thesis by (simp add: avail_pending_eq)
qed

theorem recycle_appends_witness:
  "\<exists>s'. recycle_rx_buffer quiet_env 0 ring4 3 (quiet_st 152) = (Inr (), s') \<and>
     avail_pending 0 ring4 0 (mem s') = avail_pending 0 ring4 0 (replicate 152 0) @ [3]"
proof -
  have "avail_idx_of 0 ring4 (replicate 152 0) = 0"
    by code_simp
  then show ?thesis
    using recycle_appends [where env = quiet_env and b = 0 and l = ring4 and s = "quiet_st 152" and start = 0 and did = 3] quiet_env_ok ring4_ok
    by (simp add: quiet_st_def start_st_def) (simp add: ring4_def)
qed

section \<open>Publishing the RX buffers\<close>

text \<open>One descriptor written, everything else as before.\<close>

definition desc_mem :: "nat \<Rightarrow> u64 \<Rightarrow> u32 \<Rightarrow> u16 \<Rightarrow> u16 \<Rightarrow> u8 list \<Rightarrow> u8 list" where
  "desc_mem p addr len flags nxt m =
     overwrite (p + 14) (le_bytes 2 nxt) (overwrite (p + 12) (le_bytes 2 flags)
       (overwrite (p + 8) (le_bytes 4 len) (overwrite p (le_bytes 8 addr) m)))"

lemma store_desc_eq:
  "desc + 16 * i + 16 \<le> length (mem s) \<Longrightarrow>
     store_desc desc i a len fl nx s = (Inr (), s\<lparr>mem := desc_mem (desc + 16 * i) a len fl nx (mem s)\<rparr>)"
  by (simp add: store_desc_def bindM_def store_eqs desc_mem_def)

lemma length_desc_mem [simp]:
  "p + 16 \<le> length m \<Longrightarrow> length (desc_mem p a len fl nx m) = length m"
  by (simp add: desc_mem_def)

lemma desc_mem_other:
  "p + 16 \<le> length m \<Longrightarrow> q + n \<le> length m \<Longrightarrow> q + n \<le> p \<or> p + 16 \<le> q \<Longrightarrow>
     segment q n (desc_mem p a len fl nx m) = segment q n m"
  by (auto simp: desc_mem_def segment_overwrite_other)

lemma desc_mem_at:
  assumes "p + 16 \<le> length m" and "vring_descs b l + 16 * i = p"
  shows "desc_at b l (desc_mem p a len fl nx m) i = \<lparr>vd_addr = a, vd_len = len, vd_flags = fl, vd_next = nx\<rparr>"
  using assms by (simp add: desc_at_def Let_def desc_mem_def rd_other)

lemma rd_desc_mem_other:
  "p + 16 \<le> length m \<Longrightarrow> q + 2 \<le> length m \<Longrightarrow> q + 2 \<le> p \<or> p + 16 \<le> q \<Longrightarrow>
     rd16 q (desc_mem p a len fl nx m) = rd16 q m"
  "p + 16 \<le> length m \<Longrightarrow> q + 4 \<le> length m \<Longrightarrow> q + 4 \<le> p \<or> p + 16 \<le> q \<Longrightarrow>
     rd32 q (desc_mem p a len fl nx m) = rd32 q m"
  "p + 16 \<le> length m \<Longrightarrow> q + 8 \<le> length m \<Longrightarrow> q + 8 \<le> p \<or> p + 16 \<le> q \<Longrightarrow>
     rd64 q (desc_mem p a len fl nx m) = rd64 q m"
  by (simp_all add: rd16_def rd32_def rd64_def desc_mem_other)

text \<open>The descriptor table ends before the available ring.\<close>

lemma table_apart:
  assumes "queue_at b l n" and "i < unat (vl_queue_size l)"
  shows "vring_descs b l + 16 * i + 16 \<le> vring_avail_idx b l"
    and "b \<le> vring_descs b l" and "vring_avail_ring b l + 2 * i + 2 \<le> b + unat (vl_used_offset l)"
    and "vring_avail_idx b l + 2 \<le> b + unat (vl_used_offset l)"
  using assms by (auto simp: queue_at_def vring_wf_def vring_pointers)

text \<open>What is written after the first \<open>k\<close> rounds of the loop.\<close>

definition published :: "nat \<Rightarrow> VringLayout \<Rightarrow> u64 \<Rightarrow> u64 \<Rightarrow> nat \<Rightarrow> u8 list \<Rightarrow> u8 list \<Rightarrow> bool" where
  "published b l iova sz k m0 m \<longleftrightarrow>
     length m = length m0 \<and>
     (\<forall>i<k. desc_at b l m i = \<lparr>vd_addr = iova + of_nat i * sz, vd_len = ucast sz,
        vd_flags = kVringDescFWrite, vd_next = 0\<rparr> \<and> avail_at b l m i = of_nat i) \<and>
     (\<forall>q n. q + n \<le> length m0 \<longrightarrow> q + n \<le> b \<or> b + unat (vl_used_offset l) \<le> q \<longrightarrow>
        segment q n m = segment q n m0)"

lemma published_step:
  assumes "published b l iova sz k m0 m" and at: "queue_at b l (length m0)"
    and k: "k < unat (vl_queue_size l)"
  shows "published b l iova sz (Suc k) m0
    (overwrite (vring_avail_ring b l + 2 * k) (le_bytes 2 (of_nat k :: u16))
      (desc_mem (vring_descs b l + 16 * k) (iova + of_nat k * sz) (ucast sz) kVringDescFWrite 0 m))"
    (is "published _ _ _ _ _ _ (overwrite ?r ?bs (desc_mem ?d ?a ?len ?fl 0 m))")
proof -
  from assms(1) have len: "length m = length m0"
    and old: "\<And>i. i < k \<Longrightarrow> desc_at b l m i = \<lparr>vd_addr = iova + of_nat i * sz, vd_len = ucast sz,
        vd_flags = kVringDescFWrite, vd_next = 0\<rparr> \<and> avail_at b l m i = of_nat i"
    and frame: "\<And>q n. q + n \<le> length m0 \<Longrightarrow> q + n \<le> b \<or> b + unat (vl_used_offset l) \<le> q \<Longrightarrow>
        segment q n m = segment q n m0"
    by (auto simp: published_def)
  note d = queue_at_bounds [OF at k] table_apart [OF at k] ring_apart [OF at k]
  have here: "desc_at b l (overwrite ?r ?bs (desc_mem ?d ?a ?len ?fl 0 m)) i =
      (if i = k then \<lparr>vd_addr = ?a, vd_len = ?len, vd_flags = ?fl, vd_next = 0\<rparr> else desc_at b l m i) \<and>
      avail_at b l (overwrite ?r ?bs (desc_mem ?d ?a ?len ?fl 0 m)) i =
      (if i = k then of_nat k else avail_at b l m i)" if "i \<le> k" for i
  proof -
    from that k have i: "i < unat (vl_queue_size l)" by simp
    note e = queue_at_bounds [OF at i] table_apart [OF at i] ring_apart [OF at i]
    have "desc_at b l (overwrite ?r ?bs (desc_mem ?d ?a ?len ?fl 0 m)) i = desc_at b l (desc_mem ?d ?a ?len ?fl 0 m) i"
      using d e len by (simp add: desc_at_def Let_def rd_other)
    moreover have "desc_at b l (desc_mem ?d ?a ?len ?fl 0 m) i = desc_at b l m i" if "i \<noteq> k"
      using d e len that \<open>i \<le> k\<close> by (simp add: desc_at_def Let_def rd_desc_mem_other)
    moreover have "avail_at b l (overwrite ?r ?bs (desc_mem ?d ?a ?len ?fl 0 m)) i = avail_at b l m i" if "i \<noteq> k"
      using d e len that \<open>i \<le> k\<close> by (simp add: avail_at_def rd_other rd_desc_mem_other)
    ultimately show ?thesis
      using d len by (simp add: desc_mem_at avail_at_def)
  qed
  have "segment q n (overwrite ?r ?bs (desc_mem ?d ?a ?len ?fl 0 m)) = segment q n m0"
    if "q + n \<le> length m0" "q + n \<le> b \<or> b + unat (vl_used_offset l) \<le> q" for q n
    using that d len frame [OF that]
    by (subst segment_overwrite_other) (auto simp: desc_mem_other)
  with here old d len show ?thesis by (auto simp: published_def less_Suc_eq)
qed

lemma publish_loop:
  assumes at: "queue_at b l (length (mem s))" and "k \<le> unat (vl_queue_size l)"
  shows "\<exists>m. forM [0..<k] (\<lambda>i. thenM (store_desc (vring_descs b l) i (iova + of_nat i * sz) (ucast sz) kVringDescFWrite 0)
      (store16 (vring_avail_ring b l + 2 * i) (of_nat i))) s = (Inr (), s\<lparr>mem := m\<rparr>) \<and>
    published b l iova sz k (mem s) m"
  using assms(2)
proof (induction k)
  case 0
  have "s\<lparr>mem := mem s\<rparr> = s" by simp
  then show ?case by (intro exI [of _ "mem s"]) (simp add: returnM_def published_def)
next
  case (Suc k)
  then obtain m where m: "forM [0..<k] (\<lambda>i. thenM (store_desc (vring_descs b l) i (iova + of_nat i * sz) (ucast sz) kVringDescFWrite 0)
      (store16 (vring_avail_ring b l + 2 * i) (of_nat i))) s = (Inr (), s\<lparr>mem := m\<rparr>)"
    and p: "published b l iova sz k (mem s) m" by auto
  from Suc.prems have k: "k < unat (vl_queue_size l)" by simp
  from p have len: "length m = length (mem s)" by (simp add: published_def)
  note d = queue_at_bounds [OF at k]
  let ?m = "overwrite (vring_avail_ring b l + 2 * k) (le_bytes 2 (of_nat k :: u16))
      (desc_mem (vring_descs b l + 16 * k) (iova + of_nat k * sz) (ucast sz) kVringDescFWrite 0 m)"
  have "forM ([0..<k] @ [k]) (\<lambda>i. thenM (store_desc (vring_descs b l) i (iova + of_nat i * sz) (ucast sz) kVringDescFWrite 0)
      (store16 (vring_avail_ring b l + 2 * i) (of_nat i))) s = (Inr (), s\<lparr>mem := ?m\<rparr>)"
    by (rule forM_snoc_run [OF m])
      (use d len in \<open>simp add: bindM_def store_desc_eq store_eqs\<close>)
  with published_step [OF p at k] show ?case by (intro exI [of _ ?m]) simp
qed

text \<open>
  Filling the RX ring: \<open>publish_rx_buffers\<close> throws exactly when the buffer size does not fit
  a descriptor's 32-bit length; otherwise descriptor \<open>i\<close> points the device at RX buffer \<open>i\<close>, is
  marked device-writable and ends its chain, entry \<open>i\<close> of the available ring offers it, the
  available index counts all of them, and nothing outside descriptor table and available ring
  changes.
\<close>

theorem publish_rx_buffers_correct:
  assumes at: "queue_at b l (length (mem s))" and cnt: "cnt \<le> vl_queue_size l"
  shows "if sz > 0xffffffff
    then publish_rx_buffers b l iova cnt sz s =
      (Inl (RuntimeError ''rx-buffer-size is too large for a vring desc''), s)
    else \<exists>m. publish_rx_buffers b l iova cnt sz s = (Inr (), s\<lparr>mem := m\<rparr>) \<and>
      published b l iova sz (unat cnt) (mem s) m \<and> avail_idx_of b l m = cnt"
proof (cases "sz > 0xffffffff")
  case True
  then show ?thesis by (simp add: publish_rx_buffers_def throw_ifM_def throwM_def Let_def bindM_def)
next
  case False
  from cnt have cnt': "unat cnt \<le> unat (vl_queue_size l)" by (simp add: word_le_nat_alt)
  from publish_loop [OF at cnt', of iova sz] obtain m where
    m: "forM [0..<unat cnt] (\<lambda>i. thenM (store_desc (vring_descs b l) i (iova + of_nat i * sz) (ucast sz) kVringDescFWrite 0)
      (store16 (vring_avail_ring b l + 2 * i) (of_nat i))) s = (Inr (), s\<lparr>mem := m\<rparr>)"
    and p: "published b l iova sz (unat cnt) (mem s) m" by blast
  from p have len: "length m = length (mem s)" by (simp add: published_def)
  let ?m = "overwrite (vring_avail_idx b l) (le_bytes 2 cnt) m"
  note idx = queue_at_idx [OF at]
  have run: "publish_rx_buffers b l iova cnt sz s = (Inr (), s\<lparr>mem := ?m\<rparr>)"
    unfolding publish_rx_buffers_def Let_def
    by (rule bindM_run, use False in \<open>simp add: throw_ifM_def returnM_def\<close>, rule bindM_run, rule m)
      (use idx len in \<open>simp add: store_eqs\<close>)
  have views: "desc_at b l ?m i = desc_at b l m i \<and> avail_at b l ?m i = avail_at b l m i"
    if "i < unat cnt" for i
  proof -
    from that cnt' have i: "i < unat (vl_queue_size l)" by simp
    from queue_at_bounds [OF at i] table_apart [OF at i] ring_apart [OF at i] idx len
    show ?thesis by (simp add: desc_at_def avail_at_def Let_def rd_other)
  qed
  have q0: "0 < unat (vl_queue_size l)" using at by (simp add: queue_at_def vring_wf_def)
  have "segment q n ?m = segment q n m"
    if "q + n \<le> length (mem s)" "q + n \<le> b \<or> b + unat (vl_used_offset l) \<le> q" for q n
    using that idx len table_apart [OF at q0] by (intro segment_overwrite_other) auto
  with p views have "published b l iova sz (unat cnt) (mem s) ?m"
    using len idx by (auto simp: published_def)
  moreover have "avail_idx_of b l ?m = cnt" using idx len by (simp add: avail_idx_of_def)
  ultimately show ?thesis using False run by auto
qed

theorem publish_rx_buffers_correct_witness:
  "\<exists>m. publish_rx_buffers 0 ring4 0x100000 4 2048 (quiet_st 152) = (Inr (), (quiet_st 152)\<lparr>mem := m\<rparr>) \<and>
      published 0 ring4 0x100000 2048 4 (replicate 152 0) m \<and> avail_idx_of 0 ring4 m = 4"
  using publish_rx_buffers_correct [where b = 0 and l = ring4 and s = "quiet_st 152" and cnt = 4 and sz = 2048 and iova = "0x100000"] ring4_ok
  by (simp add: quiet_st_def start_st_def queue_ok_def) (simp add: ring4_def)

end
