(* ===== verification/Packet.thy ===== *)
theory Packet
  imports World Sizes
begin

text \<open>
  The packets of \<open>userspace_drivers/virtio_net_vfio.hpp\<close>: sizes and padding, the test packet
  (\<open>build_tx_packet\<close>) and the echo reply (\<open>build_tx_reply_from_rx\<close>), written into the DMA buffer. The
  lemmas give the bytes of both packets and show that nothing else of the buffer changes.
\<close>

definition kVirtioNetHeaderSize :: u64 where "kVirtioNetHeaderSize = 12"
definition kEthernetHeaderSize :: u64 where "kEthernetHeaderSize = 14"
definition kEthernetMinFrameSize :: u64 where "kEthernetMinFrameSize = 60"

lemmas packet_sizes = kVirtioNetHeaderSize_def kEthernetHeaderSize_def kEthernetMinFrameSize_def

section \<open>Sizes and constants\<close>

definition broadcast_mac :: "u8 list" where
  "broadcast_mac = [0xff, 0xff, 0xff, 0xff, 0xff, 0xff]"

definition bytes_of_string :: "string \<Rightarrow> u8 list" where
  "bytes_of_string cs = map (\<lambda>c. of_nat (of_char c)) cs"

definition default_tx_payload :: "u8 list" where
  "default_tx_payload = bytes_of_string ''vfio-tx-test-'' @ map of_nat [0..<100]"

definition padded_ethernet_payload_size :: "u64 \<Rightarrow> u64" where
  "padded_ethernet_payload_size payload_size =
     max payload_size (kEthernetMinFrameSize - kEthernetHeaderSize)"

definition tx_packet_size_for_payload :: "u64 \<Rightarrow> u64" where
  "tx_packet_size_for_payload payload_size =
     kVirtioNetHeaderSize + kEthernetHeaderSize + padded_ethernet_payload_size payload_size"

definition tx_reply_size_for_rx :: "u64 \<Rightarrow> u64 res" where
  "tx_reply_size_for_rx rx_used_len =
     (if rx_used_len < kVirtioNetHeaderSize + kEthernetHeaderSize
      then Inl (RuntimeError ''received buffer is too short for virtio-net header plus Ethernet'')
      else Inr (kVirtioNetHeaderSize + max (rx_used_len - kVirtioNetHeaderSize) kEthernetMinFrameSize))"

section \<open>Packets in the DMA buffer\<close>

text \<open>\<open>mac_from_bytes\<close> reads six bytes.\<close>

definition mac_from_bytes :: "nat \<Rightarrow> ('w st, u8 list) M" where
  "mac_from_bytes p = load p 6"

definition build_tx_packet ::
  "nat \<Rightarrow> u8 list \<Rightarrow> u8 list \<Rightarrow> u16 \<Rightarrow> u8 list \<Rightarrow> u64 \<Rightarrow> ('w st, unit) M" where
  "build_tx_packet packet dst src ethertype payload total_size =
     (let ethernet = packet + 12
      in thenM (store packet (replicate (unat total_size) 0))
        (thenM (store ethernet dst)
        (thenM (store (ethernet + 6) src)
        (thenM (store (ethernet + 12) (write_be16_to_bytes ethertype))
               (store (ethernet + 14) payload)))))"

definition build_tx_reply_from_rx ::
  "nat \<Rightarrow> u64 \<Rightarrow> nat \<Rightarrow> u64 \<Rightarrow> u8 list \<Rightarrow> ('w st, u64) M" where
  "build_tx_reply_from_rx tx_packet tx_buffer_size rx_buffer rx_used_len reply_src_mac =
     bindM (liftR (tx_reply_size_for_rx rx_used_len)) (\<lambda>tx_used_len.
     thenM (throw_ifM (tx_used_len > tx_buffer_size)
       (RuntimeError ''reply packet does not fit in the allocated TX buffer''))
    (thenM (store tx_packet (replicate (unat tx_buffer_size) 0))
    (let rx_ethernet = rx_buffer + 12;
         tx_ethernet = tx_packet + 12;
         rx_frame_size = rx_used_len - kVirtioNetHeaderSize
     in bindM (load rx_ethernet (unat rx_frame_size)) (\<lambda>frame.
        thenM (store tx_ethernet frame)
       (bindM (load (rx_ethernet + 6) 6) (\<lambda>rx_src.
        thenM (store tx_ethernet rx_src)
       (thenM (store (tx_ethernet + 6) reply_src_mac)
              (returnM tx_used_len))))))))"

section \<open>The sizes in numbers\<close>

lemma tx_reply_size_Inr:
  "tx_reply_size_for_rx len = Inr r \<longleftrightarrow> 26 \<le> unat len \<and> unat r = max (unat len) 72"
proof (cases "len < 26")
  case True
  then show ?thesis by (auto simp: tx_reply_size_for_rx_def packet_sizes word_less_nat_alt)
next
  case False
  then have len: "26 \<le> unat len" by (simp add: word_less_nat_alt)
  then have sub: "unat (len - 12) = unat len - 12" by (subst unat_sub_small) simp_all
  have mx: "unat (max (len - 12) 60) = max (unat len - 12) 60"
    using sub by (simp add: max_def word_le_nat_alt)
  have "12 + max (unat len - 12) 60 < 2 ^ 64" using unat_u64_lt [of len] len by (auto simp: max_def)
  then have "unat (12 + max (len - 12) 60) = 12 + max (unat len - 12) 60"
    using mx unat_add_small [of 12 "max (len - 12) 60"] by simp
  also have "\<dots> = max (unat len) 72" using len by (auto simp: max_def)
  finally have "unat (12 + max (len - 12) 60) = max (unat len) 72" .
  then show ?thesis
    using False len by (auto simp: tx_reply_size_for_rx_def packet_sizes word_unat_eq_iff)
qed

lemma tx_reply_size_error:
  "tx_reply_size_for_rx len = Inl e \<Longrightarrow> unat len < 26 \<and> \<not> is_ub e"
  by (auto simp: tx_reply_size_for_rx_def packet_sizes word_less_nat_alt split: if_splits)

lemma tx_packet_size_value:
  "unat n < 2 ^ 63 \<Longrightarrow> unat (tx_packet_size_for_payload n) = 26 + max (unat n) 46"
proof -
  assume n: "unat n < 2 ^ 63"
  have "unat (max n 46) = max (unat n) 46" by (simp add: max_def word_le_nat_alt)
  with n show ?thesis
    by (simp add: tx_packet_size_for_payload_def padded_ethernet_payload_size_def packet_sizes)
      (subst unat_add_small, simp_all)
qed

section \<open>The reply\<close>

text \<open>
  What a reply to the received bytes \<open>rx\<close> is: an empty virtio-net header, the received source as
  destination, our address as source, the rest of the frame, and zeros up to the buffer size.
\<close>

definition reply_bytes :: "u8 list \<Rightarrow> u8 list \<Rightarrow> nat \<Rightarrow> u8 list" where
  "reply_bytes rx mac sz =
     replicate 12 0 @ segment 18 6 rx @ mac @ drop 24 rx @ replicate (sz - length rx) 0"

lemma length_reply_bytes:
  "26 \<le> length rx \<Longrightarrow> length mac = 6 \<Longrightarrow> length rx \<le> sz \<Longrightarrow> length (reply_bytes rx mac sz) = sz"
  by (simp add: reply_bytes_def)

lemma overwrite_twice:
  "p + length ys \<le> length xs \<Longrightarrow> length zs + k \<le> length ys \<Longrightarrow>
     overwrite (p + k) zs (overwrite p ys xs) = overwrite p (overwrite k zs ys) xs"
  by (rule nth_equalityI) (auto simp: nth_overwrite)

lemma segment_other_area:
  "p + length ys \<le> length xs \<Longrightarrow> q + n \<le> length xs \<Longrightarrow> q + n \<le> p \<or> p + length ys \<le> q \<Longrightarrow>
     segment q n (overwrite p ys xs) = segment q n xs"
  by (simp add: segment_overwrite_other)

lemma reply_assembled:
  assumes "26 \<le> length rx" and "length mac = 6" and "length rx \<le> sz"
  shows "overwrite 18 mac (overwrite 12 (segment 18 6 rx) (overwrite 12 (drop 12 rx) (replicate sz 0))) =
    reply_bytes rx mac sz"
proof (rule nth_equalityI)
  show "length (overwrite 18 mac (overwrite 12 (segment 18 6 rx) (overwrite 12 (drop 12 rx) (replicate sz 0)))) =
      length (reply_bytes rx mac sz)"
    using assms by (simp add: length_reply_bytes)
  fix i
  assume "i < length (overwrite 18 mac (overwrite 12 (segment 18 6 rx) (overwrite 12 (drop 12 rx) (replicate sz 0))))"
  then have i: "i < sz" using assms by simp
  show "overwrite 18 mac (overwrite 12 (segment 18 6 rx) (overwrite 12 (drop 12 rx) (replicate sz 0))) ! i =
      reply_bytes rx mac sz ! i"
  proof -
    have "i < 12 \<or> (\<exists>j<6. i = 12 + j) \<or> (\<exists>j<6. i = 18 + j) \<or>
        (\<exists>j. i = 24 + j \<and> 24 + j < length rx) \<or> (\<exists>j. i = length rx + j)"
      using assms(1) by presburger
    then show ?thesis
      using assms i by (auto simp: nth_overwrite reply_bytes_def nth_append)
  qed
qed

text \<open>
  C29. The echo reply: for a received buffer of at least 26 bytes whose reply fits, in buffers that do
  not overlap, \<open>build_tx_reply_from_rx\<close> returns the length of the received data, padded to the
  Ethernet minimum, fills the TX buffer with exactly the reply and changes no other byte.
\<close>

theorem build_tx_reply_correct:
  assumes "26 \<le> unat used" and "max (unat used) 72 \<le> unat sz" and "length mac = 6"
    and "tx + unat sz \<le> length (mem s)" and "rx + unat used \<le> length (mem s)"
    and "rx + unat used \<le> tx \<or> tx + unat sz \<le> rx"
  shows "\<exists>len. build_tx_reply_from_rx tx sz rx used mac s =
      (Inr len, s\<lparr>mem := overwrite tx (reply_bytes (segment rx (unat used) (mem s)) mac (unat sz)) (mem s)\<rparr>) \<and>
    unat len = max (unat used) 72"
proof -
  let ?m = "mem s" and ?n = "unat sz"
  let ?rx = "segment rx (unat used) ?m"
  obtain len where len: "tx_reply_size_for_rx used = Inr len" "unat len = max (unat used) 72"
    using assms(1) by (cases "tx_reply_size_for_rx used")
      (auto simp: tx_reply_size_Inr dest: tx_reply_size_error)
  have fits: "\<not> len > sz"
    using assms(2) by (simp only: word_less_nat_alt linorder_not_less len(2))
  have sub: "unat (used - 12) = unat used - 12" using assms(1) by (subst unat_sub_small) simp_all
  have lrx: "length ?rx = unat used" using assms(5) by simp
  have frame: "segment (rx + 12) (unat used - 12) ?m = drop 12 ?rx"
    using assms(1) by (simp add: segment_def drop_take add.commute)
  have src: "segment (18 + rx) 6 ?m = segment 18 6 ?rx"
    using assms(1) by (simp add: segment_def drop_take add.commute min_def)
  let ?z = "replicate ?n (0 :: u8)"
  let ?a = "overwrite 12 (drop 12 ?rx) ?z"
  let ?b = "overwrite 12 (segment 18 6 ?rx) ?a"
  have la: "length ?a = ?n" and lb: "length ?b = ?n" and l6: "length (segment 18 6 ?rx) = 6"
    using assms(1,2) lrx by simp_all
  have ov: "length (overwrite tx ys ?m) = length ?m" if "length ys = ?n" for ys
    using that assms(4) by simp
  have keep: "segment p k (overwrite tx ys ?m) = segment p k ?m"
    if "length ys = ?n" "rx \<le> p" "p + k \<le> rx + unat used" for ys p k
    using that assms(4-6) by (intro segment_overwrite_other) auto
  have steps: "overwrite (tx + 12) (drop 12 ?rx) (overwrite tx ?z ?m) = overwrite tx ?a ?m"
    "overwrite (tx + 12) (segment 18 6 ?rx) (overwrite tx ?a ?m) = overwrite tx ?b ?m"
    "overwrite (18 + tx) mac (overwrite tx ?b ?m) = overwrite tx (overwrite 18 mac ?b) ?m"
    using assms(1-4) lrx la lb l6 by (simp_all add: overwrite_twice add.commute [of 18 tx])
  have fin: "overwrite 18 mac ?b = reply_bytes ?rx mac ?n"
    using assms(1-3) lrx by (intro reply_assembled) simp_all
  have "build_tx_reply_from_rx tx sz rx used mac s = (Inr len, s\<lparr>mem := overwrite tx (overwrite 18 mac ?b) ?m\<rparr>)"
    unfolding build_tx_reply_from_rx_def Let_def kVirtioNetHeaderSize_def
    using fits sub lrx assms(1-5)
    by (simp add: len(1) bindM_def liftR_def throw_ifM_def returnM_def store_def load_def ov la lb
        keep frame src steps l6)
  with len(2) fin show ?thesis by auto
qed

text \<open>A length the code rejects, and a reply it rejects.\<close>

lemma reply_too_short:
  "unat used < 26 \<Longrightarrow> build_tx_reply_from_rx tx sz rx used mac s =
     (Inl (RuntimeError ''received buffer is too short for virtio-net header plus Ethernet''), s)"
  by (simp add: build_tx_reply_from_rx_def tx_reply_size_for_rx_def bindM_def liftR_def packet_sizes word_less_nat_alt)

lemma reply_too_long:
  assumes "26 \<le> unat used" and "unat sz < max (unat used) 72"
  shows "build_tx_reply_from_rx tx sz rx used mac s =
    (Inl (RuntimeError ''reply packet does not fit in the allocated TX buffer''), s)"
proof -
  obtain len where len: "tx_reply_size_for_rx used = Inr len" "unat len = max (unat used) 72"
    using assms(1) by (cases "tx_reply_size_for_rx used") (auto simp: tx_reply_size_Inr dest: tx_reply_size_error)
  with assms have "len > sz" by (simp add: word_less_nat_alt)
  with len(1) show ?thesis
    by (simp add: build_tx_reply_from_rx_def bindM_def liftR_def throw_ifM_def throwM_def)
qed

text \<open>
  The error cases of the reply leave the buffer as it was: a received length under 26 bytes and a
  reply longer than the TX buffer are rejected, each with its own message and the first before the
  second, before anything is written.
\<close>

theorem build_tx_reply_rejects:
  assumes "unat used < 26 \<or> unat sz < max (unat used) 72"
  shows "build_tx_reply_from_rx tx sz rx used mac s =
    (Inl (RuntimeError (if unat used < 26 then ''received buffer is too short for virtio-net header plus Ethernet''
       else ''reply packet does not fit in the allocated TX buffer'')), s)"
proof (cases "unat used < 26")
  case False
  then have "build_tx_reply_from_rx tx sz rx used mac s =
      (Inl (RuntimeError ''reply packet does not fit in the allocated TX buffer''), s)"
    using assms by (intro reply_too_long) simp_all
  with False show ?thesis by simp
qed (simp add: reply_too_short)

lemma safe_build_tx_reply:
  assumes "tx + unat sz \<le> n" and "rx + unat used \<le> n" and "length mac = 6"
  shows "safe (buffer_size n) (build_tx_reply_from_rx tx sz rx used mac)"
proof (cases "26 \<le> unat used \<and> max (unat used) 72 \<le> unat sz")
  case False
  have "\<exists>msg. \<forall>s :: 'a st. build_tx_reply_from_rx tx sz rx used mac s = (Inl (RuntimeError msg), s)"
  proof (cases "unat used < 26")
    case long: False
    with False have "unat sz < max (unat used) 72" by linarith
    with long reply_too_long show ?thesis by (metis not_less)
  qed (use reply_too_short in blast)
  then obtain msg where rej: "build_tx_reply_from_rx tx sz rx used mac s = (Inl (RuntimeError msg), s)" for s :: "'a st"
    by blast
  show ?thesis
  proof (unfold safe_def, rule hoareI)
    fix s :: "'a st" assume "buffer_size n s"
    with rej [of s] show "case build_tx_reply_from_rx tx sz rx used mac s of
        (Inl e, s') \<Rightarrow> \<not> is_ub e \<and> buffer_size n s' | (Inr a, s') \<Rightarrow> buffer_size n s'" by auto
  qed
next
  case True
  then have "unat (used - kVirtioNetHeaderSize) = unat used - 12"
    unfolding kVirtioNetHeaderSize_def by (subst unat_sub_small) simp_all
  then have ld: "rx + 12 + unat (used - kVirtioNetHeaderSize) \<le> n" "rx + 12 + 6 + 6 \<le> n"
    "tx + 12 + unat (used - kVirtioNetHeaderSize) \<le> n"
    using assms(1,2) True by simp_all
  show ?thesis
  proof (unfold safe_def, rule hoareI)
    fix s :: "'a st" assume "buffer_size n s"
    then have n: "length (mem s) = n" by (simp add: buffer_size_def)
    show "case build_tx_reply_from_rx tx sz rx used mac s of
        (Inl e, s') \<Rightarrow> \<not> is_ub e \<and> buffer_size n s' | (Inr a, s') \<Rightarrow> buffer_size n s'"
      using True assms n ld
      by (auto simp: build_tx_reply_from_rx_def Let_def bindM_def liftR_def throw_ifM_def throwM_def
          returnM_def store_def load_def buffer_size_def kVirtioNetHeaderSize_def
          dest: tx_reply_size_error split: sum.splits)
  qed
qed

section \<open>The test packet\<close>

definition test_packet_bytes :: "u8 list \<Rightarrow> u8 list \<Rightarrow> u16 \<Rightarrow> u8 list \<Rightarrow> nat \<Rightarrow> u8 list" where
  "test_packet_bytes dst src ethertype payload sz =
     replicate 12 0 @ dst @ src @ write_be16_to_bytes ethertype @ payload @
     replicate (sz - 26 - length payload) 0"

lemma test_packet_assembled:
  assumes "length dst = 6" and "length src = 6" and "length be = 2" and "26 + length payload \<le> sz"
  shows "overwrite 26 payload (overwrite 24 be (overwrite 18 src (overwrite 12 dst (replicate sz 0)))) =
    replicate 12 0 @ dst @ src @ be @ payload @ replicate (sz - 26 - length payload) 0"
proof (rule nth_equalityI)
  show "length (overwrite 26 payload (overwrite 24 be (overwrite 18 src (overwrite 12 dst (replicate sz 0))))) =
      length (replicate 12 0 @ dst @ src @ be @ payload @ replicate (sz - 26 - length payload) 0)"
    using assms by simp
  fix i
  assume "i < length (overwrite 26 payload (overwrite 24 be (overwrite 18 src (overwrite 12 dst (replicate sz 0)))))"
  then have i: "i < sz" using assms by simp
  have "i < 12 \<or> (\<exists>j<6. i = 12 + j) \<or> (\<exists>j<6. i = 18 + j) \<or> (\<exists>j<2. i = 24 + j) \<or>
      (\<exists>j<length payload. i = 26 + j) \<or> (\<exists>j. i = 26 + length payload + j)"
    by presburger
  then show "overwrite 26 payload (overwrite 24 be (overwrite 18 src (overwrite 12 dst (replicate sz 0)))) ! i =
      (replicate 12 0 @ dst @ src @ be @ payload @ replicate (sz - 26 - length payload) 0) ! i"
    using assms i by (auto simp: nth_overwrite nth_append)
qed

text \<open>
  The test packet: with the size that \<open>tx_packet_size_for_payload\<close> computes for its payload, a
  packet that fits into the buffer is written as header, addresses, ethertype in network order,
  payload and zero padding to the Ethernet minimum, and no other byte changes.
\<close>

theorem build_tx_packet_correct:
  assumes "length dst = 6" and "length src = 6" and "length payload < 2 ^ 63"
    and sz: "sz = tx_packet_size_for_payload (of_nat (length payload))"
    and fits: "p + unat sz \<le> length (mem s)"
  shows "build_tx_packet p dst src ethertype payload sz s =
      (Inr (), s\<lparr>mem := overwrite p (test_packet_bytes dst src ethertype payload (unat sz)) (mem s)\<rparr>) \<and>
    unat sz = 26 + max (length payload) 46"
proof -
  let ?m = "mem s" and ?n = "unat sz" and ?be = "write_be16_to_bytes ethertype"
  have "unat (of_nat (length payload) :: u64) = length payload"
    using assms(3) by (simp add: unat_of_nat)
  with tx_packet_size_value [of "of_nat (length payload)"] assms(3)
  have n: "?n = 26 + max (length payload) 46" by (simp add: sz)
  then have room: "26 + length payload \<le> ?n" by simp
  let ?z = "replicate ?n (0 :: u8)"
  let ?a = "overwrite 12 dst ?z" let ?b = "overwrite 18 src ?a" let ?c = "overwrite 24 ?be ?b"
  have len: "length ?a = ?n" "length ?b = ?n" "length ?c = ?n" using assms(1,2) room by simp_all
  have ov: "length (overwrite p ys ?m) = length ?m" if "length ys = ?n" for ys
    using that fits by simp
  have steps: "overwrite (p + 12) dst (overwrite p ?z ?m) = overwrite p ?a ?m"
    "overwrite (p + 18) src (overwrite p ?a ?m) = overwrite p ?b ?m"
    "overwrite (p + 24) ?be (overwrite p ?b ?m) = overwrite p ?c ?m"
    "overwrite (p + 26) payload (overwrite p ?c ?m) = overwrite p (overwrite 26 payload ?c) ?m"
    using assms(1,2) room fits len by (simp_all add: overwrite_twice)
  have fin: "overwrite 26 payload ?c = test_packet_bytes dst src ethertype payload ?n"
    using assms(1,2) room by (simp add: test_packet_assembled test_packet_bytes_def)
  have norm: "18 + p = p + 18" "24 + p = p + 24" "26 + p = p + 26" by simp_all
  have "build_tx_packet p dst src ethertype payload sz s =
      (Inr (), s\<lparr>mem := overwrite p (overwrite 26 payload ?c) ?m\<rparr>)"
    using assms(1,2) room fits
    by (simp add: build_tx_packet_def Let_def bindM_def store_def ov len steps norm del: length_overwrite)
  with fin n show ?thesis by simp
qed

definition example_rx :: "u8 list" where
  "example_rx = replicate 12 0 @ [1, 2, 3, 4, 5, 6] @ [11, 12, 13, 14, 15, 16] @ [0x88, 0xb5] @ [42, 43]"

theorem build_tx_reply_correct_witness:
  "\<exists>len s'. build_tx_reply_from_rx 100 80 0 28 [7, 7, 7, 7, 7, 7]
      (start_st (example_rx @ replicate 152 0) ()) = (Inr len, s') \<and> unat len = 72 \<and>
     segment 100 32 (mem s') =
       replicate 12 0 @ [11, 12, 13, 14, 15, 16] @ [7, 7, 7, 7, 7, 7] @ [0x88, 0xb5] @ [42, 43] @ replicate 4 0"
proof -
  let ?m = "example_rx @ replicate 152 0"
  have "\<exists>len. build_tx_reply_from_rx 100 80 0 28 [7, 7, 7, 7, 7, 7] (start_st ?m ()) =
      (Inr len, (start_st ?m ())\<lparr>mem := overwrite 100 (reply_bytes (segment 0 (unat (28 :: u64)) (mem (start_st ?m ())))
         [7, 7, 7, 7, 7, 7] (unat (80 :: u64))) (mem (start_st ?m ()))\<rparr>) \<and>
    unat len = max (unat (28 :: u64)) 72"
    by (rule build_tx_reply_correct) (simp_all add: start_st_def example_rx_def)
  moreover have "segment 100 32 (overwrite 100 (reply_bytes (segment 0 28 ?m) [7, 7, 7, 7, 7, 7] 80) ?m) =
      replicate 12 0 @ [11, 12, 13, 14, 15, 16] @ [7, 7, 7, 7, 7, 7] @ [0x88, 0xb5] @ [42, 43] @ replicate 4 0"
    by code_simp
  ultimately show ?thesis by (auto simp: start_st_def)
qed

theorem build_tx_reply_rejects_witness:
  "fst (build_tx_reply_from_rx 100 80 0 20 [7, 7, 7, 7, 7, 7] (quiet_st 180)) =
     Inl (RuntimeError ''received buffer is too short for virtio-net header plus Ethernet'')"
  by (subst build_tx_reply_rejects) simp_all

theorem build_tx_packet_correct_witness:
  "build_tx_packet 0 broadcast_mac [2, 0, 0, 0, 0, 1] 0x88b5 [9, 9] 72 (quiet_st 100) =
     (Inr (), (quiet_st 100)\<lparr>mem := overwrite 0 (test_packet_bytes broadcast_mac [2, 0, 0, 0, 0, 1] 0x88b5 [9, 9] 72)
        (replicate 100 0)\<rparr>)"
  using build_tx_packet_correct [where dst = broadcast_mac and src = "[2, 0, 0, 0, 0, 1]" and payload = "[9, 9]"
      and sz = 72 and p = 0 and s = "quiet_st 100" and ethertype = "0x88b5"]
  by (simp add: broadcast_mac_def quiet_st_def start_st_def tx_packet_size_for_payload_def
      padded_ethernet_payload_size_def packet_sizes)

end
