(* ===== verification/RxScan.thy ===== *)
theory RxScan
  imports Vring Packet
begin

text \<open>
  Looking for received packets, from \<open>userspace_drivers/virtio_net_vfio.hpp\<close>: what one entry of the
  RX used ring says (\<open>read_rx_used_packet\<close>) and the bounded wait for a packet that matches
  (\<open>wait_for_matching_rx_packet\<close>). The device is free to write anything into the used ring; the
  lemmas show that every access stays inside the DMA buffer all the same, what a reported packet
  guarantees, and that the wait ends.
\<close>

section \<open>The DMA area\<close>

text \<open>Both queues and all the buffers lie inside a DMA area of \<open>n\<close> bytes.\<close>

definition dma_area :: "DmaLayout \<Rightarrow> u16 \<Rightarrow> u64 \<Rightarrow> nat \<Rightarrow> bool" where
  "dma_area l rx_buffers rx_buffer_size n \<longleftrightarrow>
     queue_at (unat (dl_rx_vring_offset l)) (dl_rx_vring l) n \<and>
     queue_at (unat (dl_tx_vring_offset l)) (dl_tx_vring l) n \<and>
     unat (dl_rx_buffers_offset l) + unat rx_buffers * unat rx_buffer_size \<le> n \<and> n < 2 ^ 64"

text \<open>The address of RX buffer \<open>did\<close> as the sources compute it.\<close>

definition rx_buffer_at :: "DmaLayout \<Rightarrow> u32 \<Rightarrow> u64 \<Rightarrow> nat" where
  "rx_buffer_at layout did rx_buffer_size =
     unat (dl_rx_buffers_offset layout) + unat (ucast did * rx_buffer_size :: u64)"

section \<open>Operations\<close>

record ReceivedPacket =
  rp_used_slot :: u16
  rp_desc_id :: u32
  rp_used_len :: u32
  rp_ethertype :: u16
  rp_buffer :: nat

definition read_rx_used_packet ::
  "'w env \<Rightarrow> nat \<Rightarrow> DmaLayout \<Rightarrow> u16 \<Rightarrow> u16 \<Rightarrow> u64 \<Rightarrow> u16 option \<Rightarrow> ('w st, ReceivedPacket option) M" where
  "read_rx_used_packet env rx_queue_base layout used_slot rx_buffers rx_buffer_size match_ethertype =
     bindM (used_elem_id env rx_queue_base (dl_rx_vring layout) (unat used_slot)) (\<lambda>did.
     bindM (used_elem_len env rx_queue_base (dl_rx_vring layout) (unat used_slot)) (\<lambda>len.
     if did \<ge> ucast rx_buffers then returnM None
     else if ucast len > rx_buffer_size then returnM None
     else if ucast len < kVirtioNetHeaderSize + kEthernetHeaderSize then returnM None
     else let packet_buffer = rx_buffer_at layout did rx_buffer_size;
              ethernet = packet_buffer + 12
     in bindM (load (ethernet + 12) 2) (\<lambda>bs.
        let ethertype = read_be16_from_bytes bs
        in if match_ethertype \<noteq> None \<and> ethertype \<noteq> the match_ethertype then returnM None
        else returnM (Some \<lparr>rp_used_slot = used_slot, rp_desc_id = did, rp_used_len = len,
               rp_ethertype = ethertype, rp_buffer = packet_buffer\<rparr>))))"

text \<open>The slot of the \<open>i\<close>-th new entry; the sum is not reduced to 16 bits before the remainder.\<close>

definition used_slot_of :: "VringLayout \<Rightarrow> u16 \<Rightarrow> nat \<Rightarrow> u16" where
  "used_slot_of layout idx i = of_nat ((unat idx + i) mod unat (vl_queue_size layout))"

primrec rx_scan ::
  "'w env \<Rightarrow> nat \<Rightarrow> DmaLayout \<Rightarrow> u16 \<Rightarrow> u16 \<Rightarrow> u64 \<Rightarrow> u16 option \<Rightarrow> nat list \<Rightarrow>
     ('w st, ReceivedPacket option) M" where
  "rx_scan env rx_queue_base layout scan_idx rx_buffers rx_buffer_size match_ethertype [] = returnM None"
| "rx_scan env rx_queue_base layout scan_idx rx_buffers rx_buffer_size match_ethertype (i # is) =
     bindM (read_rx_used_packet env rx_queue_base layout (used_slot_of (dl_rx_vring layout) scan_idx i)
              rx_buffers rx_buffer_size match_ethertype) (\<lambda>received.
     if received \<noteq> None then returnM received
     else rx_scan env rx_queue_base layout scan_idx rx_buffers rx_buffer_size match_ethertype is)"

text \<open>The endless loop of the wait; one unit of fuel is one round, which sleeps 10 milliseconds.\<close>

primrec wait_rx_loop ::
  "nat \<Rightarrow> 'w env \<Rightarrow> nat \<Rightarrow> DmaLayout \<Rightarrow> u16 \<Rightarrow> u16 \<Rightarrow> u64 \<Rightarrow> u16 option \<Rightarrow> u32 \<Rightarrow> nat \<Rightarrow>
     ('w st, ReceivedPacket option) M" where
  "wait_rx_loop 0 env rx_queue_base layout scan_idx rx_buffers rx_buffer_size match_ethertype wait_ms deadline =
     throwM OutOfFuel"
| "wait_rx_loop (Suc fuel) env rx_queue_base layout scan_idx rx_buffers rx_buffer_size match_ethertype wait_ms deadline =
     bindM (read_used_idx env rx_queue_base (dl_rx_vring layout)) (\<lambda>current.
     bindM (rx_scan env rx_queue_base layout scan_idx rx_buffers rx_buffer_size match_ethertype
              [0..<unat (used_delta scan_idx current)]) (\<lambda>received.
     if received \<noteq> None then returnM received
     else if wait_ms = 0 then returnM None
     else bindM (now env) (\<lambda>t.
       if t \<ge> deadline then returnM None
       else thenM (sleep_for env (ms 10))
              (wait_rx_loop fuel env rx_queue_base layout current rx_buffers rx_buffer_size
                 match_ethertype wait_ms deadline))))"

definition wait_for_matching_rx_packet ::
  "'w env \<Rightarrow> nat \<Rightarrow> DmaLayout \<Rightarrow> u16 \<Rightarrow> u16 \<Rightarrow> u64 \<Rightarrow> u16 option \<Rightarrow> u32 \<Rightarrow>
     ('w st, ReceivedPacket option) M" where
  "wait_for_matching_rx_packet env rx_queue_base layout base_idx rx_buffers rx_buffer_size
     match_ethertype wait_ms =
     bindM (now env) (\<lambda>t.
     wait_rx_loop (unat wait_ms div 10 + 2) env rx_queue_base layout base_idx rx_buffers rx_buffer_size
       match_ethertype wait_ms (t + ms (unat wait_ms)))"

section \<open>No access leaves the buffer\<close>

lemma rx_buffer_at_bound:
  assumes "dma_area l rxb rbs n" and "did < ucast rxb"
  shows "rx_buffer_at l did rbs + unat rbs \<le> n"
proof -
  from assms(2) have did: "unat did < unat rxb" by (simp add: word_less_nat_alt)
  then have "unat did * unat rbs + unat rbs \<le> unat rxb * unat rbs"
    by (metis Suc_leI add.commute mult_Suc mult_le_mono1)
  moreover from assms(1) have le: "unat (dl_rx_buffers_offset l) + unat rxb * unat rbs \<le> n" "n < 2 ^ 64"
    by (simp_all add: dma_area_def)
  ultimately have "unat (ucast did * rbs :: u64) = unat did * unat rbs"
    by (subst unat_mult_small) simp_all
  with \<open>unat did * unat rbs + unat rbs \<le> unat rxb * unat rbs\<close> le show ?thesis
    by (simp add: rx_buffer_at_def)
qed

lemma used_slot_in_ring:
  "queue_at b l n \<Longrightarrow> unat (used_slot_of l idx i) < unat (vl_queue_size l)"
proof -
  assume q: "queue_at b l n"
  note lt = queue_at_slot [OF q, of "unat idx + i"]
  then have "(unat idx + i) mod unat (vl_queue_size l) < 65536"
    using unat_u16_lt [of "vl_queue_size l"] by simp
  with lt show ?thesis by (simp add: used_slot_of_def unat_of_nat)
qed

text \<open>What \<open>read_rx_used_packet\<close> guarantees of a packet it reports.\<close>

definition packet_ok :: "DmaLayout \<Rightarrow> u16 \<Rightarrow> u64 \<Rightarrow> u16 option \<Rightarrow> ReceivedPacket \<Rightarrow> bool" where
  "packet_ok l rxb rbs match_ethertype p \<longleftrightarrow>
     rp_desc_id p < ucast rxb \<and> 26 \<le> unat (rp_used_len p) \<and> unat (rp_used_len p) \<le> unat rbs \<and>
     rp_buffer p = rx_buffer_at l (rp_desc_id p) rbs \<and>
     (match_ethertype \<noteq> None \<longrightarrow> match_ethertype = Some (rp_ethertype p))"

definition option_ok :: "('a \<Rightarrow> bool) \<Rightarrow> 'a option \<Rightarrow> bool" where
  "option_ok P x = (case x of None \<Rightarrow> True | Some y \<Rightarrow> P y)"

lemma option_ok_simps [simp]: "option_ok P None" "option_ok P (Some y) = P y"
  by (simp_all add: option_ok_def)

text \<open>Keeps the size of the buffer, meets no undefined behaviour, and returns a result with \<open>Q\<close>.\<close>

definition yields :: "nat \<Rightarrow> ('w st, 'a) M \<Rightarrow> ('a \<Rightarrow> bool) \<Rightarrow> bool" where
  "yields n m Q \<longleftrightarrow>
     hoare (buffer_size n) m (\<lambda>a s. Q a \<and> buffer_size n s) (\<lambda>e s. \<not> is_ub e \<and> buffer_size n s)"

lemma yields_safe: "yields n m Q \<Longrightarrow> safe (buffer_size n) m"
  unfolding yields_def safe_def by (erule hoare_post) simp

lemma safe_yields: "safe (buffer_size n) m \<Longrightarrow> yields n m (\<lambda>_. True)"
  by (simp add: yields_def safe_def)

lemma yields_returnM: "Q a \<Longrightarrow> yields n (returnM a) Q"
  by (simp add: yields_def hoare_def returnM_def)

lemma yields_bindM:
  "yields n m R \<Longrightarrow> (\<And>a. R a \<Longrightarrow> yields n (f a) Q) \<Longrightarrow> yields n (bindM m f) Q"
  unfolding yields_def by (erule hoare_bindM) (auto intro: hoare_const_pre)

lemma yields_bind_safe:
  "safe (buffer_size n) m \<Longrightarrow> (\<And>a. yields n (f a) Q) \<Longrightarrow> yields n (bindM m f) Q"
  by (rule yields_bindM [OF safe_yields])

lemma yields_if:
  "(b \<Longrightarrow> yields n m Q) \<Longrightarrow> (\<not> b \<Longrightarrow> yields n k Q) \<Longrightarrow> yields n (if b then m else k) Q"
  by simp

lemma read_rx_used_packet_yields:
  assumes env: "env_ok env" and area: "dma_area l rxb rbs n"
    and slot: "unat slot < unat (vl_queue_size (dl_rx_vring l))"
  shows "yields n (read_rx_used_packet env (unat (dl_rx_vring_offset l)) l slot rxb rbs mt)
    (option_ok (packet_ok l rxb rbs mt))"
proof -
  from area have q: "queue_at (unat (dl_rx_vring_offset l)) (dl_rx_vring l) n"
    by (simp add: dma_area_def)
  have body: "yields n (let p = rx_buffer_at l did rbs; ethernet = p + 12
      in bindM (load (ethernet + 12) 2) (\<lambda>bs. let ethertype = read_be16_from_bytes bs
        in if mt \<noteq> None \<and> ethertype \<noteq> the mt then returnM None
        else returnM (Some \<lparr>rp_used_slot = slot, rp_desc_id = did, rp_used_len = len,
               rp_ethertype = ethertype, rp_buffer = p\<rparr>))) (option_ok (packet_ok l rxb rbs mt))"
    if "\<not> did \<ge> ucast rxb" "\<not> ucast len > rbs" "\<not> ucast len < kVirtioNetHeaderSize + kEthernetHeaderSize"
    for did len
  proof -
    from that have *: "did < ucast rxb" "unat len \<le> unat rbs" "26 \<le> unat len"
      by (simp_all add: packet_sizes word_less_nat_alt linorder_not_le)
    from rx_buffer_at_bound [OF area *(1)] * have "rx_buffer_at l did rbs + 12 + 12 + 2 \<le> n" by simp
    with * show ?thesis
      unfolding Let_def
      by (intro yields_bind_safe safe_load yields_if yields_returnM) (auto simp: packet_ok_def)
  qed
  show ?thesis
    unfolding read_rx_used_packet_def
    by (intro yields_bind_safe safe_used_elem [OF env q slot] yields_if body yields_returnM) simp_all
qed

lemma rx_scan_yields:
  assumes env: "env_ok env" and area: "dma_area l rxb rbs n"
  shows "yields n (rx_scan env (unat (dl_rx_vring_offset l)) l idx rxb rbs mt is)
    (option_ok (packet_ok l rxb rbs mt))"
proof (induction "is")
  case (Cons i "is")
  from area have q: "queue_at (unat (dl_rx_vring_offset l)) (dl_rx_vring l) n"
    by (simp add: dma_area_def)
  show ?case
    unfolding rx_scan.simps
    by (rule yields_bindM [OF read_rx_used_packet_yields [OF env area used_slot_in_ring [OF q]]])
      (intro yields_if yields_returnM Cons.IH)
qed (simp add: yields_returnM)

lemma wait_rx_loop_yields:
  assumes env: "env_ok env" and area: "dma_area l rxb rbs n"
  shows "yields n (wait_rx_loop fuel env (unat (dl_rx_vring_offset l)) l idx rxb rbs mt wait_ms dl)
    (option_ok (packet_ok l rxb rbs mt))"
proof (induction fuel arbitrary: idx)
  case 0
  show ?case by (simp add: yields_def hoare_def throwM_def)
next
  case (Suc fuel)
  from area have q: "queue_at (unat (dl_rx_vring_offset l)) (dl_rx_vring l) n"
    by (simp add: dma_area_def)
  show ?case
    unfolding wait_rx_loop.simps
    by (intro yields_bind_safe [OF safe_read_used_idx [OF env q]] yields_bindM [OF rx_scan_yields [OF env area]]
        yields_if yields_returnM yields_bind_safe [OF safe_now] yields_bind_safe [OF safe_sleep_for] Suc.IH)
      simp_all
qed

text \<open>
  Whatever the device writes into the used ring and whenever, the wait for a packet stays inside
  the DMA buffer; a packet it reports has a descriptor that was posted, between 26 bytes and the size
  of a buffer, the start of that descriptor's buffer, and the ethertype asked for.
\<close>

theorem wait_for_packet_safe:
  assumes "env_ok env" and "dma_area l rxb rbs (length (mem s))"
    and "wait_for_matching_rx_packet env (unat (dl_rx_vring_offset l)) l idx rxb rbs mt wait_ms s = (r, s')"
  shows "length (mem s') = length (mem s) \<and> (\<forall>e. r = Inl e \<longrightarrow> \<not> is_ub e) \<and>
    (\<forall>p. r = Inr (Some p) \<longrightarrow> packet_ok l rxb rbs mt p \<and>
      rp_buffer p + unat (rp_used_len p) \<le> length (mem s))"
proof -
  have "yields (length (mem s)) (wait_for_matching_rx_packet env (unat (dl_rx_vring_offset l)) l idx rxb rbs mt wait_ms)
      (option_ok (packet_ok l rxb rbs mt))"
    unfolding wait_for_matching_rx_packet_def
    by (intro yields_bind_safe [OF safe_now] wait_rx_loop_yields assms)
  moreover have "rp_buffer p + unat (rp_used_len p) \<le> length (mem s)" if "packet_ok l rxb rbs mt p" for p
    using that rx_buffer_at_bound [OF assms(2), of "rp_desc_id p"] by (simp add: packet_ok_def)
  ultimately show ?thesis
    using assms(3) by (cases r) (auto simp: yields_def hoare_def buffer_size_def)
qed

text \<open>An area of 512 bytes: two queues of four descriptors, two RX and two TX buffers of 64 bytes.\<close>

definition small_area :: DmaLayout where
  "small_area = \<lparr>dl_rx_vring = ring4, dl_tx_vring = ring4, dl_rx_vring_offset = 0,
     dl_tx_vring_offset = 128, dl_rx_buffers_offset = 256, dl_rx_buffers_size = 128,
     dl_tx_packet_offset = 384, dl_tx_packet_size = 64, dl_tx_buffers_offset = 384,
     dl_tx_buffers_size = 128, dl_tx_buffer_size = 64, dl_total_size = 512\<rparr>"

lemma small_area_ok: "dma_area small_area 2 64 512"
  by (simp add: dma_area_def small_area_def queue_at_def vring_wf_def ring4_def)

theorem wait_for_packet_safe_witness:
  "\<exists>r s'. wait_for_matching_rx_packet quiet_env (unat (dl_rx_vring_offset small_area)) small_area 0 2 64
      (Some 0x88b5) 20 (quiet_st 512) = (r, s') \<and> length (mem s') = 512"
proof -
  obtain r s' where run: "wait_for_matching_rx_packet quiet_env (unat (dl_rx_vring_offset small_area))
      small_area 0 2 64 (Some 0x88b5) 20 (quiet_st 512) = (r, s')" by fastforce
  have "dma_area small_area 2 64 (length (mem (quiet_st 512)))"
    by (simp add: quiet_st_def start_st_def small_area_ok)
  from wait_for_packet_safe [OF quiet_env_ok this run] run show ?thesis
    by (auto simp: quiet_st_def start_st_def)
qed

section \<open>The wait ends\<close>

lemma ends_read_used_idx [ends_rules]: "ends (read_used_idx env b l)"
  by (simp add: read_used_idx_def ends_rules)

lemma ends_used_elem [ends_rules]: "ends (used_elem_id env b l k)" "ends (used_elem_len env b l k)"
  by (simp_all add: used_elem_id_def used_elem_len_def ends_rules)

lemma ends_read_rx_used_packet [ends_rules]: "ends (read_rx_used_packet env b l slot rxb rbs mt)"
  by (simp add: read_rx_used_packet_def Let_def ends_rules)

lemma ends_rx_scan [ends_rules]: "ends (rx_scan env b l idx rxb rbs mt is)"
  by (induction "is") (simp_all add: ends_rules)

lemma wait_rx_loop_fuel:
  assumes "0 < fuel" and "deadline \<le> time s + (fuel - 1) * ms 10"
  shows "fst (wait_rx_loop fuel env b l idx rxb rbs mt wait_ms deadline s) \<noteq> Inl OutOfFuel"
  using assms
proof (induction fuel arbitrary: idx s)
  case (Suc fuel)
  obtain x s1 where x: "read_used_idx env b (dl_rx_vring l) s = (x, s1)" by fastforce
  note 1 = endsD [OF ends_read_used_idx x]
  show ?case
  proof (cases x)
    case (Inl e)
    with 1 x show ?thesis by (simp add: bindM_def)
  next
    case (Inr current)
    obtain y s2 where y: "rx_scan env b l idx rxb rbs mt [0..<unat (used_delta idx current)] s1 = (y, s2)"
      by fastforce
    note 2 = endsD [OF ends_rx_scan y]
    obtain t s3 where t: "now env s2 = (Inr t, s3)" "time s2 \<le> t" "time s3 = t"
      by (cases "env_delay env (world s2)") (simp add: now_def)
    obtain s4 where s4: "sleep_for env (ms 10) s3 = (Inr (), s4)" "t + ms 10 \<le> time s4"
      using t(3) by (cases "env_delay env (world s3)") (simp add: sleep_for_def)
    have "fst (wait_rx_loop fuel env b l current rxb rbs mt wait_ms deadline s4) \<noteq> Inl OutOfFuel"
      if "t < deadline"
    proof (rule Suc.IH)
      from Suc.prems(2) have dl: "deadline \<le> time s + fuel * ms 10" by simp
      with that 1(2) 2(2) t(2) have "0 < fuel" by (cases fuel) simp_all
      then show "0 < fuel" .
      then have "fuel * ms 10 = (fuel - 1) * ms 10 + ms 10" by (cases fuel) simp_all
      with dl 1(2) 2(2) t(2) s4(2) show "deadline \<le> time s4 + (fuel - 1) * ms 10" by linarith
    qed
    with Inr x y t s4 2(1) show ?thesis
      by (cases y) (auto simp: bindM_def returnM_def linorder_not_le)
  qed
qed simp

text \<open>
  The wait for a packet ends: it needs no more rounds than one for each 10 milliseconds of the wait
  and two more, whatever the clock and the device do.
\<close>

theorem wait_for_packet_ends:
  "fst (wait_for_matching_rx_packet env b l idx rxb rbs mt wait_ms s) \<noteq> Inl OutOfFuel"
proof -
  obtain t s1 where t: "now env s = (Inr t, s1)" "time s1 = t"
    by (cases "env_delay env (world s)") (simp add: now_def)
  have "unat wait_ms \<le> (unat wait_ms div 10 + 1) * 10" by presburger
  then have "unat wait_ms * 1000000 \<le> (unat wait_ms div 10 + 1) * 10 * 1000000"
    by (rule mult_le_mono1)
  then have "t + ms (unat wait_ms) \<le> time s1 + (unat wait_ms div 10 + 2 - 1) * ms 10"
    using t(2) by (simp add: ms_def algebra_simps)
  from wait_rx_loop_fuel [OF _ this] show ?thesis
    by (simp add: wait_for_matching_rx_packet_def bindM_def t(1))
qed

end
