(* ===== verification/PciConfig.thy ===== *)
theory PciConfig
  imports World Sizes
begin

text \<open>
  PCI config space through the VFIO device file, from \<open>userspace_drivers/vfio_utils.hpp\<close>: the
  exact transfers \<open>pread_exact\<close> and \<open>pwrite_exact\<close>, the bounds-checked reads and writes of the CONFIG
  region, and the walk over the virtio capabilities (\<open>read_virtio_caps\<close>, \<open>find_common_cfg\<close> and
  its relatives). The lemmas show that a transfer is complete when it returns and returns when
  the kernel makes progress, that no access leaves the CONFIG region whatever the device answers,
  and that the limit of 64 hops never cuts the walk short.
\<close>

section \<open>Exact transfers\<close>

definition EINTR :: int where "EINTR = 4"

text \<open>
  The loops of \<open>pread_exact\<close> and \<open>pwrite_exact\<close>; \<open>acc\<close> holds the bytes read so far, \<open>done\<close> counts the
  bytes written. One unit of fuel is one system call.
\<close>

primrec pread_loop ::
  "nat \<Rightarrow> 'w env \<Rightarrow> nat \<Rightarrow> u64 \<Rightarrow> string \<Rightarrow> u8 list \<Rightarrow> ('w st, u8 list) M" where
  "pread_loop 0 env sz offset what acc =
     (if length acc < sz then throwM OutOfFuel else returnM acc)"
| "pread_loop (Suc fuel) env sz offset what acc =
     (if length acc < sz
      then thenM (emit (ConfigRead (offset + of_nat (length acc)) (sz - length acc)))
          (bindM (external (env_pread env (offset + of_nat (length acc)) (sz - length acc))) (\<lambda>r.
           case r of
             Inl n \<Rightarrow> if n = EINTR then pread_loop fuel env sz offset what acc
                       else throwM (sys_error env what n)
           | Inr got \<Rightarrow> if got = [] then throwM (RuntimeError (what @ '': short read''))
                         else pread_loop fuel env sz offset what (acc @ got)))
      else returnM acc)"

primrec pwrite_loop ::
  "nat \<Rightarrow> 'w env \<Rightarrow> u8 list \<Rightarrow> u64 \<Rightarrow> string \<Rightarrow> nat \<Rightarrow> ('w st, unit) M" where
  "pwrite_loop 0 env data offset what done =
     (if done < length data then throwM OutOfFuel else returnM ())"
| "pwrite_loop (Suc fuel) env data offset what done =
     (if done < length data
      then thenM (emit (ConfigWrite (offset + of_nat done) (drop done data)))
          (bindM (external (env_pwrite env (offset + of_nat done) (drop done data))) (\<lambda>r.
           case r of
             Inl n \<Rightarrow> if n = EINTR then pwrite_loop fuel env data offset what done
                       else throwM (sys_error env what n)
           | Inr wrote \<Rightarrow> if wrote = 0 then throwM (RuntimeError (what @ '': short write''))
                           else pwrite_loop fuel env data offset what (done + wrote)))
      else returnM ())"

text \<open>The largest \<open>off_t\<close>.\<close>

definition off_t_max :: u64 where "off_t_max = 0x7fffffffffffffff"

definition pread_exact :: "'w env \<Rightarrow> nat \<Rightarrow> u64 \<Rightarrow> string \<Rightarrow> ('w st, u8 list) M" where
  "pread_exact env sz offset what =
     thenM (throw_ifM (offset > off_t_max) (RuntimeError (what @ '': offset too large'')))
           (pread_loop (env_fuel env) env sz offset what [])"

definition pwrite_exact :: "'w env \<Rightarrow> u8 list \<Rightarrow> u64 \<Rightarrow> string \<Rightarrow> ('w st, unit) M" where
  "pwrite_exact env data offset what =
     thenM (throw_ifM (offset > off_t_max) (RuntimeError (what @ '': offset too large'')))
           (pwrite_loop (env_fuel env) env data offset what 0)"

section \<open>The CONFIG region\<close>

record ConfigRegion =
  cr_offset :: u64
  cr_size :: u64

definition read_config_bytes :: "'w env \<Rightarrow> ConfigRegion \<Rightarrow> u16 \<Rightarrow> nat \<Rightarrow> ('w st, u8 list) M" where
  "read_config_bytes env config offset sz =
     thenM (throw_ifM (ucast offset + of_nat sz > cr_size config)
       (RuntimeError ''PCI config read past VFIO CONFIG region''))
       (pread_exact env sz (cr_offset config + ucast offset) ''pread CONFIG'')"

definition write_config_bytes :: "'w env \<Rightarrow> ConfigRegion \<Rightarrow> u16 \<Rightarrow> u8 list \<Rightarrow> ('w st, unit) M" where
  "write_config_bytes env config offset data =
     thenM (throw_ifM (ucast offset + of_nat (length data) > cr_size config)
       (RuntimeError ''PCI config write past VFIO CONFIG region''))
       (pwrite_exact env data (cr_offset config + ucast offset) ''pwrite CONFIG'')"

definition read_config_u8 :: "'w env \<Rightarrow> ConfigRegion \<Rightarrow> u16 \<Rightarrow> ('w st, u8) M" where
  "read_config_u8 env config offset =
     bindM (read_config_bytes env config offset 1) (\<lambda>bs. returnM (bs ! 0))"

definition read_config_le16 :: "'w env \<Rightarrow> ConfigRegion \<Rightarrow> u16 \<Rightarrow> ('w st, u16) M" where
  "read_config_le16 env config offset =
     bindM (read_config_bytes env config offset 2) (\<lambda>bs.
     returnM (ucast (bs ! 0) OR push_bit 8 (ucast (bs ! 1))))"

definition write_config_le16 :: "'w env \<Rightarrow> ConfigRegion \<Rightarrow> u16 \<Rightarrow> u16 \<Rightarrow> ('w st, unit) M" where
  "write_config_le16 env config offset v =
     write_config_bytes env config offset [ucast (v AND 0xff), ucast (drop_bit 8 v)]"

definition read_config_le32 :: "'w env \<Rightarrow> ConfigRegion \<Rightarrow> u16 \<Rightarrow> ('w st, u32) M" where
  "read_config_le32 env config offset =
     bindM (read_config_bytes env config offset 4) (\<lambda>bs.
     returnM (ucast (bs ! 0) OR push_bit 8 (ucast (bs ! 1)) OR push_bit 16 (ucast (bs ! 2)) OR
              push_bit 24 (ucast (bs ! 3))))"

definition read_config_le64_from_halves ::
  "'w env \<Rightarrow> ConfigRegion \<Rightarrow> u16 \<Rightarrow> u16 \<Rightarrow> ('w st, u64) M" where
  "read_config_le64_from_halves env config lo_offset hi_offset =
     bindM (read_config_le32 env config lo_offset) (\<lambda>lo.
     bindM (read_config_le32 env config hi_offset) (\<lambda>hi.
     returnM (ucast lo OR push_bit 32 (ucast hi))))"

section \<open>Virtio capabilities\<close>

record VirtioCap =
  vc_cfg_type :: u8
  vc_bar :: u8
  vc_offset :: u64
  vc_length :: u64
  vc_notify_off_multiplier :: u32

definition VIRTIO_PCI_CAP_COMMON_CFG :: u8 where "VIRTIO_PCI_CAP_COMMON_CFG = 1"
definition VIRTIO_PCI_CAP_NOTIFY_CFG :: u8 where "VIRTIO_PCI_CAP_NOTIFY_CFG = 2"
definition VIRTIO_PCI_CAP_DEVICE_CFG :: u8 where "VIRTIO_PCI_CAP_DEVICE_CFG = 4"
definition PCI_CAP_ID_VNDR :: u8 where "PCI_CAP_ID_VNDR = 9"
definition PCI_STATUS :: u16 where "PCI_STATUS = 6"
definition PCI_STATUS_CAP_LIST :: u16 where "PCI_STATUS_CAP_LIST = 0x10"
definition PCI_CAPABILITY_LIST :: u16 where "PCI_CAPABILITY_LIST = 0x34"

text \<open>
  The body for a vendor capability at \<open>cap\<close> that is long enough: 16 bytes are a
  \<open>virtio_pci_cap\<close>, 24 a \<open>virtio_pci_cap64\<close> (whose upper halves follow at offset 16 and 20), and a
  \<open>virtio_pci_notify_cap\<close> has 20, the multiplier at offset 16. The exercises differ in the members of
  their \<open>VirtioCap\<close>: 11, 12 and 18 read the \<open>id\<close> at offset 5 as well, and the ones up to 17 (and 20) have
  no multiplier.
\<close>

datatype cap_fields = CapFields (reads_id: bool) (reads_multiplier: bool)

definition read_one_virtio_cap :: "cap_fields \<Rightarrow> 'w env \<Rightarrow> ConfigRegion \<Rightarrow> u16 \<Rightarrow> u8 \<Rightarrow> ('w st, VirtioCap) M" where
  "read_one_virtio_cap reads env config cap cap_len =
     bindM (read_config_u8 env config (cap + 3)) (\<lambda>cfg_type.
     bindM (read_config_u8 env config (cap + 4)) (\<lambda>bar.
     thenM (if reads_id reads then bindM (read_config_u8 env config (cap + 5)) (\<lambda>_. returnM ()) else returnM ())
    (bindM (read_config_le32 env config (cap + 8)) (\<lambda>offset32.
     bindM (read_config_le32 env config (cap + 12)) (\<lambda>length32.
     bindM (if cap_len \<ge> 24
            then bindM (read_config_le64_from_halves env config (cap + 8) (cap + 16)) (\<lambda>offset.
                 bindM (read_config_le64_from_halves env config (cap + 12) (cap + 16 + 4)) (\<lambda>len.
                 returnM (offset, len)))
            else returnM (ucast offset32, ucast length32)) (\<lambda>(offset, len).
     bindM (if reads_multiplier reads \<and> cfg_type = VIRTIO_PCI_CAP_NOTIFY_CFG
            then thenM (throw_ifM (cap_len < 20)
                   (RuntimeError ''NOTIFY_CFG capability is truncated''))
                 (read_config_le32 env config (cap + 16))
            else returnM 0) (\<lambda>mult.
     returnM \<lparr>vc_cfg_type = cfg_type, vc_bar = bar, vc_offset = offset, vc_length = len,
              vc_notify_off_multiplier = mult\<rparr>)))))))"

text \<open>The rounds of the walk, at most \<open>hops\<close>; \<open>visited\<close> has an entry for each of the 256 offsets.\<close>

primrec virtio_cap_walk ::
  "nat \<Rightarrow> cap_fields \<Rightarrow> 'w env \<Rightarrow> ConfigRegion \<Rightarrow> u8 \<Rightarrow> bool list \<Rightarrow> VirtioCap list \<Rightarrow> ('w st, VirtioCap list) M" where
  "virtio_cap_walk 0 reads env config cap0 visited caps = returnM caps"
| "virtio_cap_walk (Suc hops) reads env config cap0 visited caps =
     (if cap0 = 0 then returnM caps
      else let cap = cap0 AND NOT 3
      in if cap < 0x40 \<or> ucast cap + 2 > cr_size config then returnM caps
      else if visited ! unat cap then returnM caps
      else bindM (read_config_u8 env config (ucast cap)) (\<lambda>cap_id.
           bindM (read_config_u8 env config (ucast cap + 1)) (\<lambda>nxt.
           bindM (if cap_id = PCI_CAP_ID_VNDR
                  then bindM (read_config_u8 env config (ucast cap + 2)) (\<lambda>cap_len.
                       if cap_len \<ge> 16 \<and> ucast cap + ucast cap_len \<le> cr_size config
                       then bindM (read_one_virtio_cap reads env config (ucast cap) cap_len) (\<lambda>virtio.
                            returnM (caps @ [virtio]))
                       else returnM caps)
                  else returnM caps) (\<lambda>caps'.
           virtio_cap_walk hops reads env config nxt (visited[unat cap := True]) caps'))))"

definition read_virtio_caps_with :: "cap_fields \<Rightarrow> 'w env \<Rightarrow> ConfigRegion \<Rightarrow> ('w st, VirtioCap list) M" where
  "read_virtio_caps_with reads env config =
     bindM (read_config_le16 env config PCI_STATUS) (\<lambda>status.
     if status AND PCI_STATUS_CAP_LIST = 0 then returnM []
     else bindM (read_config_u8 env config PCI_CAPABILITY_LIST) (\<lambda>cap.
       virtio_cap_walk 64 reads env config cap (replicate 256 False) []))"

definition read_virtio_caps :: "'w env \<Rightarrow> ConfigRegion \<Rightarrow> ('w st, VirtioCap list) M" where
  "read_virtio_caps env config = read_virtio_caps_with (CapFields False True) env config"

fun find_cfg :: "u8 \<Rightarrow> string \<Rightarrow> VirtioCap list \<Rightarrow> VirtioCap res" where
  "find_cfg ty msg [] = Inl (RuntimeError msg)"
| "find_cfg ty msg (cap # caps) = (if vc_cfg_type cap = ty then Inr cap else find_cfg ty msg caps)"

definition find_common_cfg :: "VirtioCap list \<Rightarrow> VirtioCap res" where
  "find_common_cfg =
     find_cfg VIRTIO_PCI_CAP_COMMON_CFG ''virtio COMMON_CFG capability was not found''"

definition find_notify_cfg :: "VirtioCap list \<Rightarrow> VirtioCap res" where
  "find_notify_cfg =
     find_cfg VIRTIO_PCI_CAP_NOTIFY_CFG ''virtio NOTIFY_CFG capability was not found''"

definition find_device_cfg :: "VirtioCap list \<Rightarrow> VirtioCap res" where
  "find_device_cfg =
     find_cfg VIRTIO_PCI_CAP_DEVICE_CFG ''virtio DEVICE_CFG capability was not found''"

section \<open>Exact transfers are complete\<close>

text \<open>
  A kernel that serves the bytes of \<open>img\<close>: every \<open>pread\<close> inside it gives at least one and at most
  the bytes asked for, or is interrupted; \<open>budget\<close> bounds the interruptions to come.
\<close>

definition serves :: "'w env \<Rightarrow> u8 list \<Rightarrow> ('w \<Rightarrow> nat) \<Rightarrow> bool" where
  "serves env img budget \<longleftrightarrow>
     (\<forall>off n w. 0 < n \<longrightarrow> unat off + n \<le> length img \<longrightarrow>
        (case env_pread env off n w of
           (Inl e, w') \<Rightarrow> e = EINTR \<and> budget w' < budget w
         | (Inr bs, w') \<Rightarrow> budget w' \<le> budget w \<and>
             (\<exists>k. 0 < k \<and> k \<le> n \<and> bs = segment (unat off) k img)))"

lemma transfer_offset:
  fixes off :: u64
  assumes "unat off + sz < 2 ^ 64" and "k < sz"
  shows "unat (off + of_nat k) = unat off + k"
  using assms by (subst unat_add_small) (simp_all add: unat_of_nat)

lemma segment_append: "segment p m xs @ segment (p + m) n xs = segment p (m + n) xs"
  by (simp add: segment_def take_add add.commute)

lemma pread_loop_serves:
  assumes "serves env img budget" and "unat off + sz \<le> length img"
    and "unat off + sz < 2 ^ 64"
    and "length acc \<le> sz" and "acc = segment (unat off) (length acc) img"
    and "sz - length acc + budget (world s) \<le> fuel"
  shows "\<exists>s'. pread_loop fuel env sz off what acc s = (Inr (segment (unat off) sz img), s')"
  using assms(4-)
proof (induction fuel arbitrary: acc s)
  case 0
  then have "length acc = sz" by simp
  with 0 show ?case by (simp add: returnM_def)
next
  case (Suc fuel)
  show ?case
  proof (cases "length acc < sz")
    case False
    with Suc.prems have "length acc = sz" by simp
    with Suc.prems show ?thesis by (simp add: returnM_def)
  next
    case True
    let ?p = "off + of_nat (length acc)" and ?n = "sz - length acc"
    have p: "unat ?p = unat off + length acc"
      using True assms(3) by (intro transfer_offset)
    obtain r w where r: "env_pread env ?p ?n (world s) = (r, w)" by fastforce
    from True assms(2) have bnd: "0 < ?n" "unat ?p + ?n \<le> length img" using p by simp_all
    have sv: "case env_pread env ?p ?n (world s) of
           (Inl e, w') \<Rightarrow> e = EINTR \<and> budget w' < budget (world s)
         | (Inr bs, w') \<Rightarrow> budget w' \<le> budget (world s) \<and>
             (\<exists>k. 0 < k \<and> k \<le> ?n \<and> bs = segment (unat ?p) k img)"
      by (rule assms(1) [unfolded serves_def, rule_format, OF bnd])
    let ?s = "s\<lparr>trace := trace s @ [ConfigRead ?p ?n], world := w\<rparr>"
    show ?thesis
    proof (cases r)
      case (Inl e)
      with sv r have e: "e = EINTR" "budget w < budget (world s)" by simp_all
      from e Suc.prems have "sz - length acc + budget (world ?s) \<le> fuel" by simp
      from Suc.IH [OF Suc.prems(1,2) this] True e r Inl show ?thesis
        by (simp add: bindM_def emit_def external_def)
    next
      case (Inr bs)
      with sv r obtain k where k: "0 < k" "k \<le> ?n" "bs = segment (unat ?p) k img"
        and w: "budget w \<le> budget (world s)" by auto
      have len: "length bs = k" using k(2,3) bnd by simp
      then have ne: "bs \<noteq> []" using k(1) by auto
      have acc: "acc @ bs = segment (unat off) (length (acc @ bs)) img"
        using Suc.prems(2) k(3) p len by (metis segment_append length_append)
      have "length (acc @ bs) \<le> sz" using k(2) len True by simp
      moreover have "sz - length (acc @ bs) + budget (world ?s) \<le> fuel"
        using Suc.prems(3) k(1) len w True by simp
      ultimately have "\<exists>s'. pread_loop fuel env sz off what (acc @ bs) ?s =
          (Inr (segment (unat off) sz img), s')"
        using Suc.IH [of "acc @ bs" ?s] acc by blast
      then show ?thesis
        using True ne r Inr by (simp add: bindM_def emit_def external_def)
    qed
  qed
qed

text \<open>
  \<open>pread_exact\<close> assembles exactly the bytes asked for, however the kernel splits the transfer
  and whenever it interrupts it: with a kernel that serves \<open>img\<close> and one round of fuel for every
  byte and every interruption to come, it returns, and what it returns is the slice of \<open>img\<close>.
\<close>

theorem pread_exact_complete:
  assumes "serves env img budget" and "unat off + sz \<le> length img"
    and "unat off < 2 ^ 63" and "sz < 2 ^ 63"
    and "sz + budget (world s) \<le> env_fuel env"
  shows "\<exists>s'. pread_exact env sz off what s = (Inr (segment (unat off) sz img), s')"
proof -
  have "unat off_t_max = 2 ^ 63 - 1" by (simp add: off_t_max_def)
  with assms(3) have "\<not> off > off_t_max" by (simp add: word_less_nat_alt)
  then have "pread_exact env sz off what s = pread_loop (env_fuel env) env sz off what [] s"
    by (simp add: pread_exact_def throw_ifM_def)
  with pread_loop_serves [of env img budget off sz "[]" s "env_fuel env" what] assms
  show ?thesis by (simp add: segment_def)
qed

text \<open>A kernel that gives one byte at a time and is interrupted before each of the first three.\<close>

definition slow_bytes :: "u8 list" where "slow_bytes = [10, 20, 30, 40, 50, 60]"

definition slow_env :: "nat env" where
  "slow_env =
     \<lparr>env_mmio_read = (\<lambda>n off w. (0, w)), env_mmio_write = (\<lambda>n off v w. w),
      env_dma = (\<lambda>m w. (m, w)), env_delay = (\<lambda>w. (1, w)), env_strerror = (\<lambda>n. ''error''),
      env_pread = (\<lambda>off n w. if w > 0 then (Inl EINTR, w - 1) else (Inr (segment (unat off) 1 slow_bytes), w)),
      env_pwrite = (\<lambda>off bs w. (Inr (length bs), w)),
      env_mmap = (\<lambda>off sz wr w. (None, w)), env_mmap_anon = (\<lambda>sz w. (None, w)),
      env_map_dma = (\<lambda>iova sz fl w. (None, w)), env_unmap_dma = (\<lambda>iova sz w. (Inr sz, w)),
      env_region_info = (\<lambda>i n w. (Inr (replicate n 0), w)), env_num_irqs = (\<lambda>w. (Inr 5, w)),
      env_irq_info = (\<lambda>i w. (Inr (0, 0), w)), env_set_irqs = (\<lambda>i fl fds w. (None, w)),
      env_disable_irq = (\<lambda>i w. (None, w)),
      env_eventfd = (\<lambda>w. (Inr 3, w)), env_read_eventfd = (\<lambda>fd w. (Inl 11, w)),
      env_poll = (\<lambda>fds t w. (Inr (0, map (\<lambda>_. 0) fds), w)), env_page_size = 4096, env_fuel = 100\<rparr>"

lemma slow_env_serves: "serves slow_env slow_bytes id"
  unfolding serves_def slow_env_def by (auto intro: exI [of _ 1])

theorem pread_exact_complete_witness:
  "\<exists>s'. pread_exact slow_env 3 2 ''pread CONFIG'' (start_st [] 3) = (Inr [30, 40, 50], s')"
proof -
  have "\<exists>s'. pread_exact slow_env 3 2 ''pread CONFIG'' (start_st [] 3)
      = (Inr (segment (unat (2 :: u64)) 3 slow_bytes), s')"
    by (rule pread_exact_complete [OF slow_env_serves])
      (simp_all add: slow_bytes_def slow_env_def start_st_def)
  then show ?thesis by (simp add: segment_def slow_bytes_def)
qed

section \<open>No access leaves the CONFIG region\<close>

definition config_inside :: "ConfigRegion \<Rightarrow> event \<Rightarrow> bool" where
  "config_inside config e =
     (case e of
        ConfigRead off n \<Rightarrow> unat (cr_offset config) \<le> unat off \<and>
          unat off + n \<le> unat (cr_offset config) + unat (cr_size config)
      | ConfigWrite off bs \<Rightarrow> unat (cr_offset config) \<le> unat off \<and>
          unat off + length bs \<le> unat (cr_offset config) + unat (cr_size config)
      | _ \<Rightarrow> True)"

lemma config_inside_simps [simp]:
  "config_inside config (ConfigRead off n) \<longleftrightarrow> unat (cr_offset config) \<le> unat off \<and>
     unat off + n \<le> unat (cr_offset config) + unat (cr_size config)"
  "config_inside config (ConfigWrite off bs) \<longleftrightarrow> unat (cr_offset config) \<le> unat off \<and>
     unat off + length bs \<le> unat (cr_offset config) + unat (cr_size config)"
  by (simp_all add: config_inside_def)

definition region_fits :: "ConfigRegion \<Rightarrow> bool" where
  "region_fits config \<longleftrightarrow> unat (cr_offset config) + unat (cr_size config) < 2 ^ 64"

lemma safe_pread_loop:
  assumes "region_fits config" and "unat (cr_offset config) \<le> unat off"
    and "unat off + sz \<le> unat (cr_offset config) + unat (cr_size config)"
  shows "safe (trace_all (config_inside config)) (pread_loop fuel env sz off what acc)"
proof (induction fuel arbitrary: acc)
  case (Suc fuel)
  have "unat off + sz < 2 ^ 64" using assms by (simp add: region_fits_def)
  note t = transfer_offset [OF this]
  show ?case
    unfolding pread_loop.simps
    by (intro safe_if safe_bindM safe_returnM trace_all_rules)
      (use assms t in \<open>auto simp: safe_rules Suc.IH split: sum.splits\<close>)
qed (auto intro!: safe_rules)

lemma safe_pwrite_loop:
  assumes "region_fits config" and "unat (cr_offset config) \<le> unat off"
    and "unat off + length data \<le> unat (cr_offset config) + unat (cr_size config)"
  shows "safe (trace_all (config_inside config)) (pwrite_loop fuel env data off what k)"
proof (induction fuel arbitrary: k)
  case (Suc fuel)
  have "unat off + length data < 2 ^ 64" using assms by (simp add: region_fits_def)
  note t = transfer_offset [OF this]
  show ?case
    unfolding pwrite_loop.simps
    by (intro safe_if safe_bindM safe_returnM trace_all_rules)
      (use assms t in \<open>auto simp: safe_rules Suc.IH split: sum.splits\<close>)
qed (auto intro!: safe_rules)

text \<open>The bounds check of both accessors, in numbers.\<close>

lemma config_bound:
  fixes offset :: u16
  assumes "region_fits config" and "n \<le> 65536" and "\<not> ucast offset + of_nat n > cr_size config"
  shows "unat (cr_offset config) \<le> unat (cr_offset config + ucast offset)"
    and "unat (cr_offset config + ucast offset) + n \<le> unat (cr_offset config) + unat (cr_size config)"
proof -
  have "unat (ucast offset + of_nat n :: u64) = unat offset + n"
    using assms(2) unat_u16_lt [of offset] by (subst unat_add_small) (simp_all add: unat_of_nat)
  with assms(3) have le: "unat offset + n \<le> unat (cr_size config)"
    by (simp add: word_less_nat_alt)
  have "unat (cr_offset config + ucast offset) = unat (cr_offset config) + unat offset"
    using assms(1) le by (subst unat_add_small) (simp_all add: region_fits_def)
  with le show "unat (cr_offset config) \<le> unat (cr_offset config + ucast offset)"
    and "unat (cr_offset config + ucast offset) + n \<le> unat (cr_offset config) + unat (cr_size config)"
    by simp_all
qed

lemma safe_config_bytes:
  assumes "region_fits config"
  shows "n \<le> 65536 \<Longrightarrow> safe (trace_all (config_inside config)) (read_config_bytes env config off n)"
    and "length data \<le> 65536 \<Longrightarrow>
      safe (trace_all (config_inside config)) (write_config_bytes env config off data)"
  unfolding read_config_bytes_def write_config_bytes_def pread_exact_def pwrite_exact_def
  by (intro safe_bind_guard safe_bindM safe_throw_ifM safe_pread_loop safe_pwrite_loop
      config_bound assms; simp)+

lemma safe_config_access:
  assumes "region_fits config"
  shows "safe (trace_all (config_inside config)) (read_config_u8 env config off)"
    and "safe (trace_all (config_inside config)) (read_config_le16 env config off)"
    and "safe (trace_all (config_inside config)) (read_config_le32 env config off)"
    and "safe (trace_all (config_inside config)) (read_config_le64_from_halves env config off off')"
    and "safe (trace_all (config_inside config)) (write_config_le16 env config off v)"
  unfolding read_config_u8_def read_config_le16_def read_config_le32_def
    read_config_le64_from_halves_def write_config_le16_def
  by (intro safe_bindM safe_config_bytes [OF assms] safe_returnM; simp)+

lemma safe_read_one_virtio_cap:
  assumes "region_fits config"
  shows "safe (trace_all (config_inside config)) (read_one_virtio_cap reads env config cap len)"
  unfolding read_one_virtio_cap_def
  by (intro safe_bindM safe_config_access [OF assms] safe_if safe_returnM safe_throw_ifM
      safe_case_prod; simp)

lemma safe_virtio_cap_walk:
  assumes "region_fits config"
  shows "safe (trace_all (config_inside config)) (virtio_cap_walk hops reads env config cap vis caps)"
proof (induction hops arbitrary: cap vis caps)
  case (Suc hops)
  show ?case
    unfolding virtio_cap_walk.simps Let_def
    by (intro safe_if safe_bindM safe_returnM safe_config_access [OF assms]
        safe_read_one_virtio_cap [OF assms] Suc.IH)
qed (simp add: safe_returnM)

text \<open>
  Whatever bytes the device reports as its capability list, cyclic or with pointers and
  lengths that lead outside, \<open>read_virtio_caps\<close> reads only inside the CONFIG region and meets no
  undefined behaviour.
\<close>

theorem read_virtio_caps_inside:
  assumes "unat (cr_offset config) + unat (cr_size config) < 2 ^ 64" and "trace s = []"
    and "read_virtio_caps env config s = (r, s')"
  shows "(\<forall>e \<in> set (trace s'). config_inside config e) \<and> (\<forall>e. r = Inl e \<longrightarrow> \<not> is_ub e)"
proof -
  from assms(1) have fits: "region_fits config" by (simp add: region_fits_def)
  have "safe (trace_all (config_inside config)) (read_virtio_caps env config)"
    unfolding read_virtio_caps_def read_virtio_caps_with_def
    by (intro safe_if safe_bindM safe_returnM safe_config_access [OF fits] safe_virtio_cap_walk [OF fits])
  moreover have "trace_all (config_inside config) s" using assms(2) by (simp add: trace_all_def)
  ultimately show ?thesis
    using assms(3) by (cases r) (auto simp: safe_def hoare_def trace_all_def)
qed

text \<open>A device whose one capability, at 0x40, points to itself.\<close>

definition cyclic_config :: "u8 list" where
  "cyclic_config = replicate 6 0 @ [0x10] @ replicate 45 0 @ [0x40] @ replicate 11 0 @ [9, 0x40, 8] @ replicate 189 0"

definition cyclic_env :: "unit env" where
  "cyclic_env = quiet_env\<lparr>env_pread := \<lambda>off n w. (Inr (segment (unat off) n cyclic_config), w)\<rparr>"

theorem read_virtio_caps_inside_witness:
  "\<exists>r s'. read_virtio_caps cyclic_env \<lparr>cr_offset = 0, cr_size = 256\<rparr> (start_st [] ()) = (r, s') \<and>
     (\<forall>e \<in> set (trace s'). config_inside \<lparr>cr_offset = 0, cr_size = 256\<rparr> e)"
proof -
  obtain r s' where run: "read_virtio_caps cyclic_env \<lparr>cr_offset = 0, cr_size = 256\<rparr> (start_st [] ()) = (r, s')"
    by fastforce
  have "\<forall>e \<in> set (trace s'). config_inside \<lparr>cr_offset = 0, cr_size = 256\<rparr> e"
    by (rule conjunct1 [OF read_virtio_caps_inside [OF _ _ run]]) (simp_all add: start_st_def)
  with run show ?thesis by blast
qed

section \<open>The hop limit\<close>

text \<open>The capability offsets that the walk can still enter.\<close>

definition unvisited :: "bool list \<Rightarrow> nat set" where
  "unvisited vis = {v. 64 \<le> v \<and> v < 256 \<and> 4 dvd v \<and> \<not> vis ! v}"

lemma finite_unvisited [simp]: "finite (unvisited vis)"
  by (rule finite_subset [of _ "{..<256}"]) (auto simp: unvisited_def)

lemma unvisited_visit:
  assumes "v \<in> unvisited vis" and "length vis = 256"
  shows "card (unvisited (vis[v := True])) < card (unvisited vis)"
proof (rule psubset_card_mono)
  show "unvisited (vis[v := True]) \<subset> unvisited vis"
    using assms by (auto simp: unvisited_def nth_list_update)
qed simp

lemma masked_cap:
  fixes cap :: u8
  assumes "\<not> cap AND NOT 3 < 64"
  shows "64 \<le> unat (cap AND NOT 3)" and "unat (cap AND NOT 3) < 256" and "4 dvd unat (cap AND NOT 3)"
proof -
  have "unat (cap AND NOT (4 - 1)) = unat cap div 2 ^ 2 * 2 ^ 2"
    by (rule unat_clear_low_bits) simp
  then show "4 dvd unat (cap AND NOT 3)" by simp
  show "64 \<le> unat (cap AND NOT 3)" using assms by (simp add: word_less_nat_alt)
qed (rule unat_u8_lt)

lemma walk_one_more_hop:
  assumes "length vis = 256" and "card (unvisited vis) < n"
  shows "virtio_cap_walk n reads env config cap vis caps = virtio_cap_walk (Suc n) reads env config cap vis caps"
  using assms
proof (induction n arbitrary: cap vis caps)
  case (Suc n)
  define c where "c = cap AND NOT 3"
  show ?case
  proof (cases "cap = 0 \<or> c < 0x40 \<or> ucast c + 2 > cr_size config \<or> vis ! unat c")
    case True
    then show ?thesis
      unfolding virtio_cap_walk.simps(2) [of n reads env config cap vis caps]
        virtio_cap_walk.simps(2) [of "Suc n" reads env config cap vis caps] Let_def c_def [symmetric]
      by (auto simp del: virtio_cap_walk.simps)
  next
    case False
    then have "unat c \<in> unvisited vis"
      using masked_cap [of cap] unfolding c_def by (simp add: unvisited_def)
    then have "card (unvisited (vis[unat c := True])) < n"
      using unvisited_visit [of "unat c" vis] Suc.prems by simp
    then have "virtio_cap_walk n reads env config x (vis[unat c := True]) =
        virtio_cap_walk (Suc n) reads env config x (vis[unat c := True])" for x
      using Suc.IH Suc.prems(1) by (intro ext) (simp del: virtio_cap_walk.simps)
    with False show ?thesis
      unfolding virtio_cap_walk.simps(2) [of n reads env config cap vis caps]
        virtio_cap_walk.simps(2) [of "Suc n" reads env config cap vis caps] Let_def c_def [symmetric]
      by (simp del: virtio_cap_walk.simps)
  qed
qed simp

lemma walk_more_hops:
  assumes "length vis = 256" and "card (unvisited vis) < n"
  shows "virtio_cap_walk (n + k) reads env config cap vis caps = virtio_cap_walk n reads env config cap vis caps"
proof (induction k)
  case (Suc k)
  with walk_one_more_hop [of vis "n + k" reads env config cap caps] assms show ?case by simp
qed simp

lemma card_unvisited: "card (unvisited vis) \<le> 48"
proof -
  have "unvisited vis \<subseteq> (\<lambda>k. 4 * k) ` {16..<64}"
    by (auto simp: unvisited_def elim!: dvdE)
  then have "card (unvisited vis) \<le> card ((\<lambda>k. 4 * k) ` {16..<64::nat})"
    by (rule card_mono [rotated]) simp
  also have "\<dots> \<le> card {16..<64::nat}" by (rule card_image_le) simp
  finally show ?thesis by simp
qed

text \<open>
  The hop limit of \<open>read_virtio_caps\<close> never decides: each round visits a new multiple of 4 between
  64 and 252, so a walk of a list of any shape, cyclic ones included, has ended after 48 hops, and
  any larger limit than 64 gives the same capabilities and the same accesses.
\<close>

theorem virtio_cap_walk_ends:
  "virtio_cap_walk (64 + k) reads env config cap (replicate 256 False) [] =
     virtio_cap_walk 64 reads env config cap (replicate 256 False) [] \<and>
   virtio_cap_walk 49 reads env config cap (replicate 256 False) [] =
     virtio_cap_walk 64 reads env config cap (replicate 256 False) []"
proof -
  let ?v = "replicate 256 False"
  have "card (unvisited ?v) < 49" "length ?v = 256"
    using card_unvisited [of ?v] by simp_all
  then have "virtio_cap_walk (49 + 15) reads env config cap ?v [] = virtio_cap_walk 49 reads env config cap ?v []"
    and "virtio_cap_walk (64 + k) reads env config cap ?v [] = virtio_cap_walk 64 reads env config cap ?v []"
    by (intro walk_more_hops; simp)+
  moreover have "(49 + 15 :: nat) = 64" by simp
  ultimately show ?thesis by metis
qed

end
