(* ===== verification/Regions.thy ===== *)
theory Regions
  imports PciConfig
begin

text \<open>
  The BAR regions of the VFIO device, from \<open>userspace_drivers/vfio_utils.hpp\<close>: the description of a
  region with its chain of capabilities (\<open>get_region_info\<close>, \<open>parse_region_caps\<close>), the sparse mmap
  areas, and the mapping of COMMON_CFG, DEVICE_CFG and of one queue's notify register. The
  lemmas show when the chain is parsed to its end, that a notify write stays in its capability,
  and what a successful mapping covers.
\<close>

section \<open>Region descriptions\<close>

record MmapArea =
  ma_offset :: u64
  ma_size :: u64

definition contains :: "MmapArea \<Rightarrow> u64 \<Rightarrow> u64 \<Rightarrow> bool" where
  "contains area range_offset range_size \<longleftrightarrow>
     range_offset \<ge> ma_offset area \<and> range_offset - ma_offset area \<le> ma_size area \<and>
     range_size \<le> ma_size area - (range_offset - ma_offset area)"

text \<open>The fields of \<open>vfio_region_info\<close> the sources use, and the areas found.\<close>

record RegionInfo =
  ri_flags :: u32
  ri_cap_offset :: u32
  ri_size :: u64
  ri_offset :: u64
  ri_mmap_areas :: "MmapArea list"

definition VFIO_REGION_INFO_FLAG_WRITE :: u32 where "VFIO_REGION_INFO_FLAG_WRITE = 2"
definition VFIO_REGION_INFO_FLAG_MMAP :: u32 where "VFIO_REGION_INFO_FLAG_MMAP = 4"
definition VFIO_REGION_INFO_FLAG_CAPS :: u32 where "VFIO_REGION_INFO_FLAG_CAPS = 8"
definition VFIO_REGION_INFO_CAP_SPARSE_MMAP :: u16 where "VFIO_REGION_INFO_CAP_SPARSE_MMAP = 1"

text \<open>
  \<open>struct vfio_region_info\<close> as bytes: \<open>argsz\<close>, \<open>flags\<close>, \<open>index\<close> and \<open>cap_offset\<close> of four bytes each,
  then \<open>size\<close> and \<open>offset\<close> of eight.
\<close>

definition region_info_of_bytes :: "u8 list \<Rightarrow> RegionInfo" where
  "region_info_of_bytes buf =
     \<lparr>ri_flags = le_word (segment 4 4 buf), ri_cap_offset = le_word (segment 12 4 buf),
      ri_size = le_word (segment 16 8 buf), ri_offset = le_word (segment 24 8 buf),
      ri_mmap_areas = []\<rparr>"

definition sparse_area :: "u8 list \<Rightarrow> nat \<Rightarrow> nat \<Rightarrow> MmapArea" where
  "sparse_area buf offset i =
     \<lparr>ma_offset = le_word (segment (offset + 16 + 16 * i) 8 buf),
      ma_size = le_word (segment (offset + 16 + 16 * i + 8) 8 buf)\<rparr>"

text \<open>
  The chain of capabilities in \<open>buf\<close>. A header has 8 bytes (\<open>id\<close> of two, \<open>version\<close> of two, \<open>next\<close> of
  four), a sparse mmap capability 16 and 16 more for each area. One unit of fuel is one header.
\<close>

fun region_cap_loop :: "nat \<Rightarrow> RegionInfo \<Rightarrow> u8 list \<Rightarrow> u32 \<Rightarrow> RegionInfo res" where
  "region_cap_loop fuel region buf offset =
     (if offset = 0 then Inr region
      else case fuel of 0 \<Rightarrow> Inl OutOfFuel | Suc fuel' \<Rightarrow>
        if unat offset + 8 > length buf
        then Inl (RuntimeError ''VFIO region capability chain is truncated'')
        else let id = le_word (segment (unat offset) 2 buf) :: u16;
                 nxt = le_word (segment (unat offset + 4) 4 buf) :: u32
        in if id = VFIO_REGION_INFO_CAP_SPARSE_MMAP
        then if unat offset + 16 > length buf
             then Inl (RuntimeError ''VFIO sparse mmap capability is truncated'')
             else let nr_areas = unat (le_word (segment (unat offset + 8) 4 buf) :: u32)
             in if unat offset + (16 + nr_areas * 16) > length buf
             then Inl (RuntimeError ''VFIO sparse mmap area list is truncated'')
             else region_cap_loop fuel'
                    (region\<lparr>ri_mmap_areas := ri_mmap_areas region @
                        map (sparse_area buf (unat offset)) [0..<nr_areas]\<rparr>) buf nxt
        else region_cap_loop fuel' region buf nxt)"

declare region_cap_loop.simps [simp del]

definition parse_region_caps :: "nat \<Rightarrow> RegionInfo \<Rightarrow> u8 list \<Rightarrow> RegionInfo res" where
  "parse_region_caps fuel region buf =
     (if ri_flags region AND VFIO_REGION_INFO_FLAG_CAPS = 0 then Inr region
      else region_cap_loop fuel region buf (ri_cap_offset region))"

definition get_region_info :: "'w env \<Rightarrow> u32 \<Rightarrow> ('w st, RegionInfo) M" where
  "get_region_info env index =
     bindM (external (env_region_info env index 32)) (\<lambda>r.
     case r of Inl n \<Rightarrow> throwM (sys_error env ''VFIO_DEVICE_GET_REGION_INFO'' n)
     | Inr region \<Rightarrow>
       let info = region_info_of_bytes region; argsz = le_word (segment 0 4 region) :: u32
       in if ri_flags info AND VFIO_REGION_INFO_FLAG_CAPS \<noteq> 0 \<and> unat argsz > 32
       then bindM (external (env_region_info env index (unat argsz))) (\<lambda>r.
            case r of Inl n \<Rightarrow> throwM (sys_error env ''VFIO_DEVICE_GET_REGION_INFO'' n)
            | Inr full \<Rightarrow> liftR (parse_region_caps (env_fuel env) (region_info_of_bytes full) full))
       else returnM info)"

text \<open>The CONFIG region has index \<open>VFIO_PCI_CONFIG_REGION_INDEX\<close>.\<close>

definition get_config_region :: "'w env \<Rightarrow> ('w st, ConfigRegion) M" where
  "get_config_region env =
     bindM (external (env_region_info env 7 32)) (\<lambda>r.
     case r of Inl n \<Rightarrow> throwM (sys_error env ''VFIO_DEVICE_GET_REGION_INFO(CONFIG)'' n)
     | Inr region \<Rightarrow>
       let info = region_info_of_bytes region
       in returnM \<lparr>cr_offset = ri_offset info, cr_size = ri_size info\<rparr>)"

definition vfio_bar_region_index :: "u8 \<Rightarrow> u32 res" where
  "vfio_bar_region_index bar =
     (if bar > 5
      then Inl (RuntimeError (''virtio capability references invalid BAR '' @ to_string (unat bar)))
      else Inr (ucast bar))"

definition require_mmap_area_contains :: "RegionInfo \<Rightarrow> u64 \<Rightarrow> u64 \<Rightarrow> string \<Rightarrow> unit res" where
  "require_mmap_area_contains region range_offset range_size what =
     (if ri_mmap_areas region = [] then Inr ()
      else if \<exists>area \<in> set (ri_mmap_areas region). contains area range_offset range_size then Inr ()
      else Inl (RuntimeError (what @ '' is not fully inside a VFIO sparse mmap area'')))"

section \<open>Mappings\<close>

text \<open>
  \<open>VIRTIO_PCI_COMMON_Q_USEDHI + 4\<close>, and the length that includes \<open>queue_notify_data\<close>
  (\<open>VIRTIO_PCI_COMMON_Q_NDATA + 2\<close>, which the kernel headers these samples need define).
\<close>

definition common_min_length :: u64 where "common_min_length = 56"
definition common_full_length :: u64 where "common_full_length = 58"

text \<open>The mapping of the first \<open>required_length\<close> bytes of COMMON_CFG, or of what there is of them.\<close>

definition map_common_range ::
  "u64 \<Rightarrow> 'w env \<Rightarrow> RegionInfo \<Rightarrow> VirtioCap \<Rightarrow> bool \<Rightarrow> ('w st, MappedRegion \<times> u64) M" where
  "map_common_range required_length env region common writable =
     (let available = ri_size region - vc_offset common;
          common_length = min (vc_length common) available;
          inspect_length = min common_length required_length
      in thenM (liftR (require_mmap_area_contains region (vc_offset common) inspect_length
           ''COMMON_CFG range''))
        (bindM (liftR (system_page_size (env_page_size env))) (\<lambda>page_size.
         let page_mask = of_int (page_size - 1);
             aligned_offset = vc_offset common AND NOT page_mask;
             mapping_delta = vc_offset common - aligned_offset;
             mapping_size = mapping_delta + inspect_length;
             mmap_offset = ri_offset region + aligned_offset
         in bindM (MappedRegion_new env mapping_size mmap_offset writable) (\<lambda>mapping.
            returnM (mapping, mapping_delta)))))"

text \<open>
  The programs differ in the registers they need: the least length of the capability, the message when it is
  shorter, and how much is mapped.
\<close>

definition map_common_window ::
  "u64 \<Rightarrow> string \<Rightarrow> u64 \<Rightarrow> 'w env \<Rightarrow> VirtioCap \<Rightarrow> bool \<Rightarrow> ('w st, MappedRegion \<times> u64) M" where
  "map_common_window minimum too_short required_length env common writable =
     bindM (liftR (vfio_bar_region_index (vc_bar common))) (\<lambda>region_index.
     bindM (get_region_info env region_index) (\<lambda>region.
     thenM (throw_ifM (ri_size region = 0)
       (RuntimeError ''COMMON_CFG BAR region is not present''))
    (thenM (throw_ifM (ri_flags region AND VFIO_REGION_INFO_FLAG_MMAP = 0)
       (RuntimeError ''COMMON_CFG BAR region does not support mmap''))
    (thenM (throw_ifM (vc_offset common \<ge> ri_size region)
       (RuntimeError ''COMMON_CFG offset is past BAR region size''))
    (thenM (throw_ifM (vc_length common < minimum) (RuntimeError too_short))
       (map_common_range required_length env region common writable))))))"

definition map_common_cfg :: "'w env \<Rightarrow> VirtioCap \<Rightarrow> bool \<Rightarrow> ('w st, MappedRegion \<times> u64) M" where
  "map_common_cfg =
     map_common_window common_min_length ''COMMON_CFG is shorter than queue address fields''
       (max common_min_length common_full_length)"

definition map_device_cfg :: "'w env \<Rightarrow> VirtioCap \<Rightarrow> u64 \<Rightarrow> ('w st, MappedRegion \<times> u64) M" where
  "map_device_cfg env device_cfg required_length =
     bindM (liftR (vfio_bar_region_index (vc_bar device_cfg))) (\<lambda>region_index.
     bindM (get_region_info env region_index) (\<lambda>region.
     thenM (throw_ifM (ri_size region = 0)
       (RuntimeError ''DEVICE_CFG BAR region is not present''))
    (thenM (throw_ifM (ri_flags region AND VFIO_REGION_INFO_FLAG_MMAP = 0)
       (RuntimeError ''DEVICE_CFG BAR region does not support mmap''))
    (thenM (throw_ifM (vc_offset device_cfg \<ge> ri_size region)
       (RuntimeError ''DEVICE_CFG offset is past BAR region size''))
    (thenM (throw_ifM (vc_length device_cfg < required_length)
       (RuntimeError ''DEVICE_CFG is shorter than required config''))
    (let available = ri_size region - vc_offset device_cfg;
         inspect_length = min (vc_length device_cfg) available
     in thenM (liftR (require_mmap_area_contains region (vc_offset device_cfg) inspect_length
          ''DEVICE_CFG range''))
       (bindM (liftR (system_page_size (env_page_size env))) (\<lambda>page_size.
        let page_mask = of_int (page_size - 1);
            aligned_offset = vc_offset device_cfg AND NOT page_mask;
            mapping_delta = vc_offset device_cfg - aligned_offset;
            mapping_size = mapping_delta + inspect_length;
            mmap_offset = ri_offset region + aligned_offset
        in bindM (MappedRegion_new env mapping_size mmap_offset False) (\<lambda>mapping.
           returnM (mapping, mapping_delta))))))))))"

text \<open>The result holds what the function writes through its reference parameters.\<close>

record NotifyWindow =
  nw_mapping :: MappedRegion
  nw_delta :: u64
  nw_bar_offset :: u64
  nw_mmap_offset :: u64

definition notify_bar_offset :: "VirtioCap \<Rightarrow> u16 \<Rightarrow> u64" where
  "notify_bar_offset notify queue_notify_off =
     vc_offset notify + ucast queue_notify_off * ucast (vc_notify_off_multiplier notify)"

text \<open>The checks of \<open>map_notify_window\<close> on the offset.\<close>

definition check_notify_offset :: "VirtioCap \<Rightarrow> RegionInfo \<Rightarrow> u64 \<Rightarrow> unit res" where
  "check_notify_offset notify region bar_offset =
     bindR (throw_if (bar_offset + 2 > ri_size region)
       (RuntimeError ''computed notify offset is past BAR region size'')) (\<lambda>_.
     bindR (throw_if (bar_offset < vc_offset notify \<or> bar_offset + 2 > vc_offset notify + vc_length notify)
       (RuntimeError ''computed notify offset is outside NOTIFY_CFG'')) (\<lambda>_.
     require_mmap_area_contains region bar_offset 2 ''notify range''))"

definition map_notify_window ::
  "'w env \<Rightarrow> VirtioCap \<Rightarrow> RegionInfo \<Rightarrow> u16 \<Rightarrow> ('w st, NotifyWindow) M" where
  "map_notify_window env notify region queue_notify_off =
     thenM (throw_ifM (ri_size region = 0)
       (RuntimeError ''NOTIFY_CFG BAR region is not present''))
    (thenM (throw_ifM (ri_flags region AND VFIO_REGION_INFO_FLAG_MMAP = 0)
       (RuntimeError ''NOTIFY_CFG BAR region does not support mmap''))
    (thenM (throw_ifM (ri_flags region AND VFIO_REGION_INFO_FLAG_WRITE = 0)
       (RuntimeError ''NOTIFY_CFG BAR region is not writable''))
    (let bar_offset = notify_bar_offset notify queue_notify_off
     in thenM (liftR (check_notify_offset notify region bar_offset))
       (bindM (liftR (system_page_size (env_page_size env))) (\<lambda>page_size.
        let page_mask = of_int (page_size - 1);
            aligned_offset = bar_offset AND NOT page_mask;
            mapping_delta = bar_offset - aligned_offset;
            mmap_offset = ri_offset region + aligned_offset;
            mapping_size = mapping_delta + 2
        in bindM (MappedRegion_new env mapping_size mmap_offset True) (\<lambda>mapping.
           returnM \<lparr>nw_mapping = mapping, nw_delta = mapping_delta, nw_bar_offset = bar_offset,
                    nw_mmap_offset = mmap_offset\<rparr>))))))"

section \<open>Containment\<close>

lemma contains_iff:
  "contains area off sz \<longleftrightarrow> unat (ma_offset area) \<le> unat off \<and>
     unat off + unat sz \<le> unat (ma_offset area) + unat (ma_size area)"
proof (cases "ma_offset area \<le> off")
  case True
  then have le: "unat (ma_offset area) \<le> unat off" by (simp add: word_le_nat_alt)
  then have d: "unat (off - ma_offset area) = unat off - unat (ma_offset area)"
    by (rule unat_sub_small)
  show ?thesis
  proof (cases "off - ma_offset area \<le> ma_size area")
    case True
    then have "unat off - unat (ma_offset area) \<le> unat (ma_size area)"
      using d by (simp add: word_le_nat_alt)
    moreover from this d have "unat (ma_size area - (off - ma_offset area)) =
        unat (ma_size area) - (unat off - unat (ma_offset area))"
      by (subst unat_sub_small) simp_all
    ultimately show ?thesis using le True \<open>ma_offset area \<le> off\<close>
      by (auto simp: contains_def word_le_nat_alt)
  next
    case False
    then have "\<not> unat off - unat (ma_offset area) \<le> unat (ma_size area)"
      using d by (simp add: word_le_nat_alt)
    then show ?thesis using le False by (auto simp: contains_def)
  qed
next
  case False
  then show ?thesis by (auto simp: contains_def word_le_nat_alt)
qed

section \<open>The chain of capabilities\<close>

text \<open>One capability of the chain: its identifier, its successor, the areas it lists.\<close>

definition cap_id_at :: "u8 list \<Rightarrow> nat \<Rightarrow> u16" where
  "cap_id_at buf off = le_word (segment off 2 buf)"

definition cap_next_at :: "u8 list \<Rightarrow> nat \<Rightarrow> u32" where
  "cap_next_at buf off = le_word (segment (off + 4) 4 buf)"

definition cap_areas :: "u8 list \<Rightarrow> nat \<Rightarrow> MmapArea list" where
  "cap_areas buf off =
     (if cap_id_at buf off = VFIO_REGION_INFO_CAP_SPARSE_MMAP
      then map (sparse_area buf off) [0..<unat (le_word (segment (off + 8) 4 buf) :: u32)] else [])"

definition cap_fits :: "u8 list \<Rightarrow> nat \<Rightarrow> bool" where
  "cap_fits buf off \<longleftrightarrow> off + 8 \<le> length buf \<and>
     (cap_id_at buf off = VFIO_REGION_INFO_CAP_SPARSE_MMAP \<longrightarrow>
        off + 16 \<le> length buf \<and>
        off + (16 + unat (le_word (segment (off + 8) 4 buf) :: u32) * 16) \<le> length buf)"

text \<open>\<open>offs\<close> are the offsets of the headers reached from \<open>off\<close>, in the order of the links.\<close>

fun cap_chain :: "u8 list \<Rightarrow> u32 \<Rightarrow> nat list \<Rightarrow> bool" where
  "cap_chain buf off [] \<longleftrightarrow> off = 0"
| "cap_chain buf off (p # offs) \<longleftrightarrow>
     off \<noteq> 0 \<and> unat off = p \<and> cap_fits buf p \<and> cap_chain buf (cap_next_at buf p) offs"

lemma region_cap_loop_chain:
  assumes "cap_chain buf off offs" and "length offs \<le> fuel"
  shows "region_cap_loop fuel region buf off =
    Inr (region\<lparr>ri_mmap_areas := ri_mmap_areas region @ concat (map (cap_areas buf) offs)\<rparr>)"
  using assms
proof (induction offs arbitrary: off fuel region)
  case Nil
  then show ?case by (subst region_cap_loop.simps) simp
next
  case (Cons p offs)
  from Cons.prems obtain fuel' where fuel: "fuel = Suc fuel'" "length offs \<le> fuel'"
    by (cases fuel) auto
  from Cons.prems have p: "off \<noteq> 0" "unat off = p" "cap_fits buf p"
    and rest: "cap_chain buf (cap_next_at buf p) offs" by simp_all
  note IH = Cons.IH [OF rest fuel(2), unfolded cap_next_at_def]
  from p fuel(1) show ?case
    by (subst region_cap_loop.simps)
      (auto simp: Let_def cap_fits_def cap_areas_def [of buf p] cap_id_at_def [of buf p] IH)
qed

text \<open>
  When the buffer the kernel fills holds a chain of capabilities that ends, \<open>parse_region_caps\<close>
  returns the region with the areas of all the sparse mmap capabilities of the chain, in order,
  and needs one round for each capability.
\<close>

theorem parse_region_caps_complete:
  assumes "ri_flags region AND VFIO_REGION_INFO_FLAG_CAPS \<noteq> 0"
    and "cap_chain buf (ri_cap_offset region) offs" and "length offs \<le> fuel"
  shows "parse_region_caps fuel region buf =
    Inr (region\<lparr>ri_mmap_areas := ri_mmap_areas region @ concat (map (cap_areas buf) offs)\<rparr>)"
  using assms by (simp add: parse_region_caps_def region_cap_loop_chain)

text \<open>
  A buffer of 64 bytes with one sparse mmap capability at offset 32 whose \<open>next\<close> is \<open>nxt\<close> and whose
  one area has offset 0x1000 and size 0x2000.
\<close>

definition sparse_buf :: "u8 \<Rightarrow> u8 list" where
  "sparse_buf nxt =
    [64, 0, 0, 0, 8, 0, 0, 0, 0, 0, 0, 0, 32, 0, 0, 0,
     0, 64, 0, 0, 0, 0, 0, 0, 0, 0, 0, 0, 0, 0, 0, 0,
     1, 0, 1, 0, nxt, 0, 0, 0, 1, 0, 0, 0, 0, 0, 0, 0,
     0, 16, 0, 0, 0, 0, 0, 0, 0, 32, 0, 0, 0, 0, 0, 0]"

lemma sparse_buf_fields:
  "cap_id_at (sparse_buf nxt) 32 = 1" "cap_next_at (sparse_buf nxt) 32 = ucast nxt"
  "le_word (segment 40 4 (sparse_buf nxt)) = (1 :: u32)" "length (sparse_buf nxt) = 64"
  "sparse_area (sparse_buf nxt) 32 0 = \<lparr>ma_offset = 0x1000, ma_size = 0x2000\<rparr>"
  "ri_flags (region_info_of_bytes (sparse_buf nxt)) = 8"
  "ri_cap_offset (region_info_of_bytes (sparse_buf nxt)) = 32"
  "ri_mmap_areas (region_info_of_bytes (sparse_buf nxt)) = []"
  by (simp_all add: cap_id_at_def cap_next_at_def sparse_area_def region_info_of_bytes_def
      sparse_buf_def segment_def le_word_def)

theorem parse_region_caps_complete_witness:
  "parse_region_caps 1 (region_info_of_bytes (sparse_buf 0)) (sparse_buf 0) =
     Inr ((region_info_of_bytes (sparse_buf 0))
       \<lparr>ri_mmap_areas := [\<lparr>ma_offset = 0x1000, ma_size = 0x2000\<rparr>]\<rparr>)"
  using parse_region_caps_complete [of "region_info_of_bytes (sparse_buf 0)" "sparse_buf 0" "[32]" 1]
  by (simp add: VFIO_REGION_INFO_FLAG_CAPS_def cap_fits_def cap_areas_def
      VFIO_REGION_INFO_CAP_SPARSE_MMAP_def sparse_buf_fields)

text \<open>
  C40. A chain whose last header points back is never left: with the capability at offset 32 linked to
  itself, no number of rounds is enough, while the loop appends the same area in every round.
  \<open>read_virtio_caps\<close> guards against such a chain, \<open>parse_region_caps\<close> does not.
\<close>

theorem parse_region_caps_cyclic:
  "parse_region_caps fuel (region_info_of_bytes (sparse_buf 32)) (sparse_buf 32) = Inl OutOfFuel"
proof -
  have "region_cap_loop fuel region (sparse_buf 32) 32 = Inl OutOfFuel" for region
  proof (induction fuel arbitrary: region)
    case 0
    show ?case by (subst region_cap_loop.simps) simp
  next
    case (Suc fuel)
    note f = sparse_buf_fields [of 32, unfolded cap_id_at_def cap_next_at_def]
    show ?case
      by (subst region_cap_loop.simps)
        (use f Suc.IH in \<open>simp add: Let_def VFIO_REGION_INFO_CAP_SPARSE_MMAP_def\<close>)
  qed
  then show ?thesis
    by (simp add: parse_region_caps_def sparse_buf_fields VFIO_REGION_INFO_FLAG_CAPS_def)
qed

section \<open>What a mapping covers\<close>

lemma and_not_le: "(v :: u64) AND NOT m \<le> v"
  by (rule word_and_le2)

lemma unat_page_delta: "unat ((v :: u64) - (v AND NOT m)) \<le> unat v"
proof -
  have "unat (v - (v AND NOT m)) = unat v - unat (v AND NOT m)"
    using and_not_le [of v m] by (intro unat_sub_small) (simp add: word_le_nat_alt)
  then show ?thesis by simp
qed

text \<open>
  The arithmetic shared by the three mappings: \<open>k\<close> bytes from offset \<open>v\<close> of a region, mapped from
  the start of \<open>v\<close>'s page.
\<close>

lemma page_window:
  fixes v :: u64
  assumes "unat v + unat k < 2 ^ 64" and "mr_size r = v - (v AND NOT m) + k"
    and "mr_offset r = base + (v AND NOT m)"
  shows "mr_offset r + (v - (v AND NOT m)) = base + v"
    and "unat i + w \<le> unat k \<Longrightarrow> check_range r (v - (v AND NOT m) + i) (of_nat w) = Inr ()"
proof -
  show "mr_offset r + (v - (v AND NOT m)) = base + v" using assms(3) by simp
  let ?d = "v - (v AND NOT m)"
  have d: "unat ?d \<le> unat v" by (rule unat_page_delta)
  have size: "unat (mr_size r) = unat ?d + unat k"
    using assms(1,2) d by (simp add: unat_add_small)
  show "check_range r (?d + i) (of_nat w) = Inr ()" if "unat i + w \<le> unat k"
  proof -
    have "unat (?d + i) = unat ?d + unat i" using that assms(1) d by (intro unat_add_small) simp
    moreover have "unat (of_nat w :: u64) = w" using that assms(1) by (simp add: unat_of_nat)
    ultimately show ?thesis using that size by (simp add: check_range_iff)
  qed
qed

lemma MappedRegion_new_Inr:
  "MappedRegion_new env sz off wr s = (Inr r, s') \<Longrightarrow> r = \<lparr>mr_offset = off, mr_size = sz\<rparr>"
  by (auto simp: MappedRegion_new_def run_iff split: option.splits)

lemma require_mmap_area_contains_iff:
  "require_mmap_area_contains region off sz what = Inr () \<longleftrightarrow>
     ri_mmap_areas region = [] \<or> (\<exists>area \<in> set (ri_mmap_areas region). contains area off sz)"
  by (simp add: require_mmap_area_contains_def)

text \<open>The offset of a queue's notify register: the product of two small factors cannot wrap.\<close>

lemma notify_offset_exact:
  assumes "\<not> notify_bar_offset notify q < vc_offset notify"
  shows "unat (notify_bar_offset notify q) =
    unat (vc_offset notify) + unat q * unat (vc_notify_off_multiplier notify)"
proof -
  let ?p = "ucast q * ucast (vc_notify_off_multiplier notify) :: u64"
  have lt: "unat q * unat (vc_notify_off_multiplier notify) < 65536 * 4294967296"
    using unat_u16_lt [of q] unat_u32_lt [of "vc_notify_off_multiplier notify"]
    by (intro mult_strict_mono) simp_all
  then have p: "unat ?p = unat q * unat (vc_notify_off_multiplier notify)"
    by (subst unat_mult_small) simp_all
  have "unat (vc_offset notify + ?p) = unat (vc_offset notify) + unat ?p"
  proof (rule ccontr)
    assume ne: "unat (vc_offset notify + ?p) \<noteq> unat (vc_offset notify) + unat ?p"
    then have "\<not> unat (vc_offset notify) + unat ?p < 2 ^ 64"
      using unat_add_small [of "vc_offset notify" ?p] by auto
    then have big: "2 ^ 64 \<le> unat (vc_offset notify) + unat ?p" by simp
    have "unat (vc_offset notify + ?p) = (unat (vc_offset notify) + unat ?p) mod 2 ^ 64"
      by (simp add: unat_word_ariths)
    also have "\<dots> = unat (vc_offset notify) + unat ?p - 2 ^ 64"
      using big unat_u64_lt [of "vc_offset notify"] p lt by (subst mod_if) simp
    finally have "unat (vc_offset notify + ?p) < unat (vc_offset notify)"
      using p lt big by simp
    then show False using assms by (simp add: notify_bar_offset_def word_less_nat_alt)
  qed
  with p show ?thesis by (simp add: notify_bar_offset_def)
qed

text \<open>
  A notify write goes where it should: when \<open>map_notify_window\<close> succeeds for a capability below
  2^63, the two bytes at the returned delta are inside the mapping, they are the two bytes at
  \<open>offset + queue_notify_off * multiplier\<close> of the BAR, and these lie inside the NOTIFY_CFG
  capability, inside the BAR and, where the kernel reports mmap areas, inside one of them.
\<close>

theorem notify_window_target:
  assumes run: "map_notify_window env notify region q s = (Inr w, s')"
    and "unat (vc_offset notify) < 2 ^ 63" and "unat (vc_length notify) < 2 ^ 63"
  shows "unat (nw_bar_offset w) = unat (vc_offset notify) + unat q * unat (vc_notify_off_multiplier notify) \<and>
    unat (nw_bar_offset w) + 2 \<le> unat (vc_offset notify) + unat (vc_length notify) \<and>
    unat (nw_bar_offset w) + 2 \<le> unat (ri_size region) \<and>
    (ri_mmap_areas region \<noteq> [] \<longrightarrow>
      (\<exists>area \<in> set (ri_mmap_areas region). contains area (nw_bar_offset w) 2)) \<and>
    mr_offset (nw_mapping w) + nw_delta w = ri_offset region + nw_bar_offset w \<and>
    check_range (nw_mapping w) (nw_delta w) 2 = Inr ()"
proof -
  let ?b = "notify_bar_offset notify q"
  from run obtain ps s1 r where
    chk: "check_notify_offset notify region ?b = Inr ()"
    and new: "MappedRegion_new env (?b - (?b AND NOT (of_int (ps - 1))) + 2)
        (ri_offset region + (?b AND NOT (of_int (ps - 1)))) True s = (Inr r, s1)"
    and w: "w = \<lparr>nw_mapping = r, nw_delta = ?b - (?b AND NOT (of_int (ps - 1))),
        nw_bar_offset = ?b, nw_mmap_offset = ri_offset region + (?b AND NOT (of_int (ps - 1)))\<rparr>"
    by (auto simp: map_notify_window_def run_iff Let_def)
  from chk have ge: "\<not> ?b < vc_offset notify" and size: "\<not> ?b + 2 > ri_size region"
    and fin: "\<not> ?b + 2 > vc_offset notify + vc_length notify"
    and area: "require_mmap_area_contains region ?b 2 ''notify range'' = Inr ()"
    by (auto simp: check_notify_offset_def res_iff)
  have lt: "unat q * unat (vc_notify_off_multiplier notify) < 65536 * 4294967296"
    using unat_u16_lt [of q] unat_u32_lt [of "vc_notify_off_multiplier notify"]
    by (intro mult_strict_mono) simp_all
  have b: "unat ?b = unat (vc_offset notify) + unat q * unat (vc_notify_off_multiplier notify)"
    by (rule notify_offset_exact [OF ge])
  have b2: "unat (?b + 2) = unat ?b + 2"
    using b lt assms(2) by (subst unat_add_small) simp_all
  have ol: "unat (vc_offset notify + vc_length notify) = unat (vc_offset notify) + unat (vc_length notify)"
    using assms(2,3) by (intro unat_add_small) simp
  have r: "mr_size r = ?b - (?b AND NOT (of_int (ps - 1))) + 2"
    "mr_offset r = ri_offset region + (?b AND NOT (of_int (ps - 1)))"
    using MappedRegion_new_Inr [OF new] by simp_all
  have "unat ?b + unat (2 :: u64) < 2 ^ 64" using b lt assms(2) by simp
  note win = page_window [OF this r]
  from win(2) [of 0 2] have "check_range r (?b - (?b AND NOT (of_int (ps - 1)))) 2 = Inr ()" by simp
  with win(1) b b2 ol size fin area w show ?thesis
    by (simp add: word_less_nat_alt require_mmap_area_contains_iff) blast
qed

text \<open>
  Without that bound the check lets a wrapped sum pass: a 64-bit capability at offset 2^64 - 1 of
  the BAR gives a notify offset that is accepted although it lies far past the BAR's 4096 bytes,
  because \<open>bar_offset + 2\<close> wraps to 1.
\<close>

theorem notify_offset_wraps:
  "check_notify_offset
     \<lparr>vc_cfg_type = 2, vc_bar = 4, vc_offset = 0xffffffffffffffff, vc_length = 4, vc_notify_off_multiplier = 4\<rparr>
     \<lparr>ri_flags = 7, ri_cap_offset = 0, ri_size = 4096, ri_offset = 0, ri_mmap_areas = []\<rparr>
     (notify_bar_offset
       \<lparr>vc_cfg_type = 2, vc_bar = 4, vc_offset = 0xffffffffffffffff, vc_length = 4, vc_notify_off_multiplier = 4\<rparr>
       0) = Inr ()"
  by (simp add: check_notify_offset_def notify_bar_offset_def require_mmap_area_contains_def)

definition notify_cap4 :: VirtioCap where
  "notify_cap4 = \<lparr>vc_cfg_type = 2, vc_bar = 4, vc_offset = 0x3000, vc_length = 0x1000,
     vc_notify_off_multiplier = 4\<rparr>"

definition bar4 :: RegionInfo where
  "bar4 = \<lparr>ri_flags = 7, ri_cap_offset = 0, ri_size = 0x4000, ri_offset = 0x40000000000, ri_mmap_areas = []\<rparr>"

theorem notify_window_target_witness:
  "\<exists>w s'. map_notify_window quiet_env notify_cap4 bar4 2 (quiet_st 0) = (Inr w, s') \<and>
     unat (nw_bar_offset w) = 0x3008 \<and> check_range (nw_mapping w) (nw_delta w) 2 = Inr ()"
proof -
  have "\<exists>w s'. map_notify_window quiet_env notify_cap4 bar4 2 (quiet_st 0) = (Inr w, s')"
    by (simp add: map_notify_window_def check_notify_offset_def notify_bar_offset_def notify_cap4_def
        bar4_def VFIO_REGION_INFO_FLAG_MMAP_def VFIO_REGION_INFO_FLAG_WRITE_def throw_ifM_def
        require_mmap_area_contains_def MappedRegion_new_def system_page_size_def quiet_env_def
        Let_def bindM_def liftR_def returnM_def external_def)
  then obtain w s' where "map_notify_window quiet_env notify_cap4 bar4 2 (quiet_st 0) = (Inr w, s')"
    by blast
  from this notify_window_target [OF this] show ?thesis by (auto simp: notify_cap4_def)
qed

text \<open>
  The COMMON_CFG mapping shows the capability's own registers: when \<open>map_common_cfg\<close> succeeds for
  a capability below 2^63, an access of \<open>w\<close> bytes at register \<open>i\<close> through the returned mapping and
  delta passes the range check exactly for the registers up to 58 bytes that lie inside both the
  capability and the BAR, and it reaches the bytes at \<open>i\<close> from the capability's start in the region
  the kernel reported.
\<close>

theorem common_cfg_window:
  assumes run: "map_common_cfg env common wr s = (Inr (m, d), s')"
    and off: "unat (vc_offset common) < 2 ^ 63" and "i < 2 ^ 16" and "w < 2 ^ 16"
  shows "\<exists>region s1. get_region_info env (ucast (vc_bar common)) s = (Inr region, s1) \<and>
    mr_offset m + (d + of_nat i) = ri_offset region + vc_offset common + of_nat i \<and>
    (check_range m (d + of_nat i) (of_nat w) = Inr () \<longleftrightarrow>
      i + w \<le> min (min (unat (vc_length common)) (unat (ri_size region) - unat (vc_offset common))) 58)"
proof -
  let ?v = "vc_offset common"
  from run obtain region s1 ps s2 where
    bar: "vfio_bar_region_index (vc_bar common) = Inr (ucast (vc_bar common))"
    and region: "get_region_info env (ucast (vc_bar common)) s = (Inr region, s1)"
    and past: "\<not> ?v \<ge> ri_size region"
    and new: "MappedRegion_new env (?v - (?v AND NOT (of_int (ps - 1))) +
        min (min (vc_length common) (ri_size region - ?v)) (max common_min_length common_full_length))
        (ri_offset region + (?v AND NOT (of_int (ps - 1)))) wr s1 = (Inr m, s2)"
    and d: "d = ?v - (?v AND NOT (of_int (ps - 1)))"
    by (auto simp: map_common_cfg_def map_common_window_def map_common_range_def run_iff Let_def vfio_bar_region_index_def split: if_splits)
  let ?k = "min (min (vc_length common) (ri_size region - ?v)) 58"
  have mx: "max common_min_length common_full_length = 58"
    by (simp add: common_min_length_def common_full_length_def max_def)
  have avail: "unat (ri_size region - ?v) = unat (ri_size region) - unat ?v"
    using past by (intro unat_sub_small) (simp add: word_le_nat_alt)
  have k: "unat ?k = min (min (unat (vc_length common)) (unat (ri_size region) - unat ?v)) 58"
    by (simp add: min_def word_le_nat_alt avail)
  have sz: "mr_size m = d + ?k" and base: "mr_offset m = ri_offset region + (?v AND NOT (of_int (ps - 1)))"
    using MappedRegion_new_Inr [OF new] by (simp_all add: mx d)
  have dv: "unat d \<le> unat ?v" unfolding d by (rule unat_page_delta)
  have "unat (mr_size m) = unat d + unat ?k"
    unfolding sz using dv off k by (intro unat_add_small) simp
  moreover have "unat (d + of_nat i) = unat d + i"
    using dv off \<open>i < 2 ^ 16\<close> by (subst unat_add_small) (simp_all add: unat_of_nat)
  moreover have "unat (of_nat w :: u64) = w" using \<open>w < 2 ^ 16\<close> by (simp add: unat_of_nat)
  ultimately have "check_range m (d + of_nat i) (of_nat w) = Inr () \<longleftrightarrow> i + w \<le> unat ?k"
    by (simp add: check_range_iff)
  moreover have "mr_offset m + (d + of_nat i) = ri_offset region + ?v + of_nat i"
    by (simp add: base d)
  ultimately show ?thesis using region k by auto
qed

text \<open>An environment whose BARs all have 64 KiB, at file offset 0x40000000000, and can be mapped.\<close>

definition bar_env :: "unit env" where
  "bar_env = quiet_env\<lparr>env_region_info := (\<lambda>i n w. (Inr
     (take n ([32, 0, 0, 0, 7, 0, 0, 0, 4, 0, 0, 0, 0, 0, 0, 0,
       0, 0, 1, 0, 0, 0, 0, 0, 0, 0, 0, 0, 0, 4, 0, 0] @ replicate n 0)), w))\<rparr>"

definition common_cap4 :: VirtioCap where
  "common_cap4 = \<lparr>vc_cfg_type = 1, vc_bar = 4, vc_offset = 0x1010, vc_length = 0x38,
     vc_notify_off_multiplier = 0\<rparr>"

lemma bar_env_region:
  "get_region_info bar_env i s = (Inr \<lparr>ri_flags = 7, ri_cap_offset = 0, ri_size = 0x10000,
     ri_offset = 0x40000000000, ri_mmap_areas = []\<rparr>, s)"
  by (simp add: get_region_info_def bar_env_def quiet_env_def external_def bindM_def
      region_info_of_bytes_def segment_def le_word_def VFIO_REGION_INFO_FLAG_CAPS_def Let_def returnM_def)

lemma map_common_cap4:
  "map_common_cfg bar_env common_cap4 True (quiet_st 0) =
    (Inr (\<lparr>mr_offset = 0x40000001000, mr_size = 0x48\<rparr>, 0x10), quiet_st 0)"
  by (simp add: map_common_cfg_def map_common_window_def map_common_range_def common_cap4_def bindM_def liftR_def returnM_def throw_ifM_def
      vfio_bar_region_index_def bar_env_region VFIO_REGION_INFO_FLAG_MMAP_def common_min_length_def
      common_full_length_def require_mmap_area_contains_def system_page_size_def Let_def
      MappedRegion_new_def external_def min_def max_def)
    (simp add: bar_env_def quiet_env_def returnM_def quiet_st_def start_st_def)

theorem common_cfg_window_witness:
  "check_range \<lparr>mr_offset = 0x40000001000, mr_size = 0x48\<rparr> (0x10 + of_nat 52) (of_nat 4) = Inr () \<and>
   check_range \<lparr>mr_offset = 0x40000001000, mr_size = 0x48\<rparr> (0x10 + of_nat 56) (of_nat 2) \<noteq> Inr ()"
  using common_cfg_window [OF map_common_cap4, of 52 4] common_cfg_window [OF map_common_cap4, of 56 2]
  by (simp add: common_cap4_def bar_env_region)

end
