(* ===== verification/Transport.thy ===== *)
theory Transport
  imports Regions Layout
begin

text \<open>
  The virtio transport of \<open>userspace_drivers/virtio_net_vfio.hpp\<close>: the guards
  \<open>QueueSelectionGuard\<close>, \<open>DeviceResetGuard\<close> and \<open>PciCommandGuard\<close>, device status and reset, feature
  bits and the four negotiations, the queue registers and their programming. The lemmas show that
  a driver never accepts a feature that the device did not offer, that the wait for a status ends
  by its deadline, what is written to the device and in which order, and that a queue is enabled
  only after its addresses are written.
\<close>

section \<open>Registers\<close>

definition VIRTIO_PCI_COMMON_DFSELECT :: u64 where "VIRTIO_PCI_COMMON_DFSELECT = 0"
definition VIRTIO_PCI_COMMON_DF :: u64 where "VIRTIO_PCI_COMMON_DF = 4"
definition VIRTIO_PCI_COMMON_GFSELECT :: u64 where "VIRTIO_PCI_COMMON_GFSELECT = 8"
definition VIRTIO_PCI_COMMON_GF :: u64 where "VIRTIO_PCI_COMMON_GF = 12"
definition VIRTIO_PCI_COMMON_NUMQ :: u64 where "VIRTIO_PCI_COMMON_NUMQ = 18"
definition VIRTIO_PCI_COMMON_STATUS :: u64 where "VIRTIO_PCI_COMMON_STATUS = 20"
definition VIRTIO_PCI_COMMON_Q_SELECT :: u64 where "VIRTIO_PCI_COMMON_Q_SELECT = 22"
definition VIRTIO_PCI_COMMON_Q_SIZE :: u64 where "VIRTIO_PCI_COMMON_Q_SIZE = 24"
definition VIRTIO_PCI_COMMON_Q_MSIX :: u64 where "VIRTIO_PCI_COMMON_Q_MSIX = 26"
definition VIRTIO_PCI_COMMON_Q_ENABLE :: u64 where "VIRTIO_PCI_COMMON_Q_ENABLE = 28"
definition VIRTIO_PCI_COMMON_Q_NOFF :: u64 where "VIRTIO_PCI_COMMON_Q_NOFF = 30"
definition VIRTIO_PCI_COMMON_Q_DESCLO :: u64 where "VIRTIO_PCI_COMMON_Q_DESCLO = 32"
definition VIRTIO_PCI_COMMON_Q_DESCHI :: u64 where "VIRTIO_PCI_COMMON_Q_DESCHI = 36"
definition VIRTIO_PCI_COMMON_Q_AVAILLO :: u64 where "VIRTIO_PCI_COMMON_Q_AVAILLO = 40"
definition VIRTIO_PCI_COMMON_Q_AVAILHI :: u64 where "VIRTIO_PCI_COMMON_Q_AVAILHI = 44"
definition VIRTIO_PCI_COMMON_Q_USEDLO :: u64 where "VIRTIO_PCI_COMMON_Q_USEDLO = 48"
definition VIRTIO_PCI_COMMON_Q_USEDHI :: u64 where "VIRTIO_PCI_COMMON_Q_USEDHI = 52"
definition VIRTIO_PCI_COMMON_Q_NDATA :: u64 where "VIRTIO_PCI_COMMON_Q_NDATA = 56"

lemmas common_regs = VIRTIO_PCI_COMMON_DFSELECT_def VIRTIO_PCI_COMMON_DF_def
  VIRTIO_PCI_COMMON_GFSELECT_def VIRTIO_PCI_COMMON_GF_def VIRTIO_PCI_COMMON_NUMQ_def
  VIRTIO_PCI_COMMON_STATUS_def VIRTIO_PCI_COMMON_Q_SELECT_def VIRTIO_PCI_COMMON_Q_SIZE_def
  VIRTIO_PCI_COMMON_Q_MSIX_def VIRTIO_PCI_COMMON_Q_ENABLE_def VIRTIO_PCI_COMMON_Q_NOFF_def
  VIRTIO_PCI_COMMON_Q_DESCLO_def VIRTIO_PCI_COMMON_Q_DESCHI_def VIRTIO_PCI_COMMON_Q_AVAILLO_def
  VIRTIO_PCI_COMMON_Q_AVAILHI_def VIRTIO_PCI_COMMON_Q_USEDLO_def VIRTIO_PCI_COMMON_Q_USEDHI_def
  VIRTIO_PCI_COMMON_Q_NDATA_def

definition VIRTIO_CONFIG_S_ACKNOWLEDGE :: u8 where "VIRTIO_CONFIG_S_ACKNOWLEDGE = 1"
definition VIRTIO_CONFIG_S_DRIVER :: u8 where "VIRTIO_CONFIG_S_DRIVER = 2"
definition VIRTIO_CONFIG_S_DRIVER_OK :: u8 where "VIRTIO_CONFIG_S_DRIVER_OK = 4"
definition VIRTIO_CONFIG_S_FEATURES_OK :: u8 where "VIRTIO_CONFIG_S_FEATURES_OK = 8"
definition VIRTIO_CONFIG_S_NEEDS_RESET :: u8 where "VIRTIO_CONFIG_S_NEEDS_RESET = 0x40"
definition VIRTIO_CONFIG_S_FAILED :: u8 where "VIRTIO_CONFIG_S_FAILED = 0x80"

lemmas status_bits = VIRTIO_CONFIG_S_ACKNOWLEDGE_def VIRTIO_CONFIG_S_DRIVER_def
  VIRTIO_CONFIG_S_DRIVER_OK_def VIRTIO_CONFIG_S_FEATURES_OK_def VIRTIO_CONFIG_S_NEEDS_RESET_def
  VIRTIO_CONFIG_S_FAILED_def

section \<open>Names for messages\<close>

definition join_flags :: "string list \<Rightarrow> string" where
  "join_flags flags =
     (if flags = [] then ''none''
      else foldl (\<lambda>out flag. (if out = [] then out else out @ ''|'') @ flag) [] flags)"

definition status_names :: "u8 \<Rightarrow> string" where
  "status_names status = join_flags
     ((if status AND VIRTIO_CONFIG_S_ACKNOWLEDGE \<noteq> 0 then [''ACKNOWLEDGE''] else []) @
      (if status AND VIRTIO_CONFIG_S_DRIVER \<noteq> 0 then [''DRIVER''] else []) @
      (if status AND VIRTIO_CONFIG_S_DRIVER_OK \<noteq> 0 then [''DRIVER_OK''] else []) @
      (if status AND VIRTIO_CONFIG_S_FEATURES_OK \<noteq> 0 then [''FEATURES_OK''] else []) @
      (if status AND VIRTIO_CONFIG_S_NEEDS_RESET \<noteq> 0 then [''NEEDS_RESET''] else []) @
      (if status AND VIRTIO_CONFIG_S_FAILED \<noteq> 0 then [''FAILED''] else []))"

section \<open>Status and reset\<close>

definition read_status :: "'w env \<Rightarrow> MappedRegion \<Rightarrow> u64 \<Rightarrow> ('w st, u8) M" where
  "read_status env mapping mapping_delta = read8 env mapping (mapping_delta + VIRTIO_PCI_COMMON_STATUS)"

definition write_status :: "'w env \<Rightarrow> MappedRegion \<Rightarrow> u64 \<Rightarrow> u8 \<Rightarrow> ('w st, unit) M" where
  "write_status env mapping mapping_delta status =
     write8 env mapping (mapping_delta + VIRTIO_PCI_COMMON_STATUS) status"

text \<open>
  The polling loop of \<open>wait_for_status\<close> up to \<open>deadline\<close>; one unit of fuel is one round, which sleeps
  for a millisecond.
\<close>

primrec wait_status_loop ::
  "nat \<Rightarrow> 'w env \<Rightarrow> MappedRegion \<Rightarrow> u64 \<Rightarrow> u8 \<Rightarrow> nat \<Rightarrow> ('w st, bool) M" where
  "wait_status_loop 0 env mapping mapping_delta expected deadline =
     bindM (now env) (\<lambda>t. if t < deadline then throwM OutOfFuel else returnM False)"
| "wait_status_loop (Suc fuel) env mapping mapping_delta expected deadline =
     bindM (now env) (\<lambda>t.
     if t < deadline
     then bindM (read_status env mapping mapping_delta) (\<lambda>status.
          if status = expected then returnM True
          else thenM (sleep_for env (ms 1))
                     (wait_status_loop fuel env mapping mapping_delta expected deadline))
     else returnM False)"

definition wait_for_status ::
  "'w env \<Rightarrow> MappedRegion \<Rightarrow> u64 \<Rightarrow> u8 \<Rightarrow> nat \<Rightarrow> ('w st, unit) M" where
  "wait_for_status env mapping mapping_delta expected timeout_ms =
     bindM (now env) (\<lambda>t.
     bindM (wait_status_loop timeout_ms env mapping mapping_delta expected (t + ms timeout_ms)) (\<lambda>ok.
     if ok then returnM ()
     else bindM (read_status env mapping mapping_delta) (\<lambda>actual.
       throwM (RuntimeError (''timed out waiting for device_status '' @ status_names expected @
         '', actual='' @ status_names actual)))))"

definition reset_device :: "'w env \<Rightarrow> MappedRegion \<Rightarrow> u64 \<Rightarrow> ('w st, unit) M" where
  "reset_device env mapping mapping_delta =
     thenM (write_status env mapping mapping_delta 0)
    (thenM (wait_for_status env mapping mapping_delta 0 1000)
    (thenM (read_status env mapping mapping_delta) (returnM ())))"

section \<open>64-bit registers\<close>

definition read_common_u64 :: "'w env \<Rightarrow> MappedRegion \<Rightarrow> u64 \<Rightarrow> u64 \<Rightarrow> u64 \<Rightarrow> ('w st, u64) M" where
  "read_common_u64 env mapping mapping_delta lo_offset hi_offset =
     bindM (read32 env mapping (mapping_delta + lo_offset)) (\<lambda>lo.
     bindM (read32 env mapping (mapping_delta + hi_offset)) (\<lambda>hi.
     returnM (ucast lo OR push_bit 32 (ucast hi))))"

definition write_common_u64 ::
  "'w env \<Rightarrow> MappedRegion \<Rightarrow> u64 \<Rightarrow> u64 \<Rightarrow> u64 \<Rightarrow> u64 \<Rightarrow> ('w st, unit) M" where
  "write_common_u64 env mapping mapping_delta lo_offset hi_offset v =
     thenM (write32 env mapping (mapping_delta + lo_offset) (ucast (v AND 0xffffffff)))
           (write32 env mapping (mapping_delta + hi_offset) (ucast (drop_bit 32 v)))"

section \<open>Queue registers\<close>

record QueueView =
  qv_selected :: u16
  qv_size :: u16
  qv_msix_vector :: u16
  qv_enable :: u16
  qv_notify_off :: u16
  qv_notify_data :: "u16 option"
  qv_desc :: u64
  qv_avail :: u64
  qv_used :: u64

text \<open>\<open>queue_notify_data\<close> is read by the exercises from 19 on, except for 20.\<close>

definition read_queue_view_with :: "bool \<Rightarrow> 'w env \<Rightarrow> MappedRegion \<Rightarrow> u64 \<Rightarrow> ('w st, QueueView) M" where
  "read_queue_view_with with_data env mapping mapping_delta =
     bindM (read16 env mapping (mapping_delta + VIRTIO_PCI_COMMON_Q_SELECT)) (\<lambda>selected.
     bindM (read16 env mapping (mapping_delta + VIRTIO_PCI_COMMON_Q_SIZE)) (\<lambda>sz.
     bindM (read16 env mapping (mapping_delta + VIRTIO_PCI_COMMON_Q_MSIX)) (\<lambda>msix.
     bindM (read16 env mapping (mapping_delta + VIRTIO_PCI_COMMON_Q_ENABLE)) (\<lambda>enable.
     bindM (read16 env mapping (mapping_delta + VIRTIO_PCI_COMMON_Q_NOFF)) (\<lambda>noff.
     bindM (if with_data
            then bindM (read16 env mapping (mapping_delta + VIRTIO_PCI_COMMON_Q_NDATA)) (\<lambda>ndata. returnM (Some ndata))
            else returnM None) (\<lambda>ndata.
     bindM (read_common_u64 env mapping mapping_delta
       VIRTIO_PCI_COMMON_Q_DESCLO VIRTIO_PCI_COMMON_Q_DESCHI) (\<lambda>desc.
     bindM (read_common_u64 env mapping mapping_delta
       VIRTIO_PCI_COMMON_Q_AVAILLO VIRTIO_PCI_COMMON_Q_AVAILHI) (\<lambda>avail.
     bindM (read_common_u64 env mapping mapping_delta
       VIRTIO_PCI_COMMON_Q_USEDLO VIRTIO_PCI_COMMON_Q_USEDHI) (\<lambda>used.
     returnM \<lparr>qv_selected = selected, qv_size = sz, qv_msix_vector = msix, qv_enable = enable,
       qv_notify_off = noff, qv_notify_data = ndata, qv_desc = desc, qv_avail = avail,
       qv_used = used\<rparr>)))))))))"

definition read_queue_view :: "'w env \<Rightarrow> MappedRegion \<Rightarrow> u64 \<Rightarrow> ('w st, QueueView) M" where
  "read_queue_view = read_queue_view_with True"

definition program_queue_addresses ::
  "'w env \<Rightarrow> MappedRegion \<Rightarrow> u64 \<Rightarrow> VringLayout \<Rightarrow> u64 \<Rightarrow> ('w st, unit) M" where
  "program_queue_addresses env mapping mapping_delta layout base_iova =
     thenM (write16 env mapping (mapping_delta + VIRTIO_PCI_COMMON_Q_SIZE) (vl_queue_size layout))
    (thenM (write_common_u64 env mapping mapping_delta VIRTIO_PCI_COMMON_Q_DESCLO
              VIRTIO_PCI_COMMON_Q_DESCHI (base_iova + vl_desc_offset layout))
    (thenM (write_common_u64 env mapping mapping_delta VIRTIO_PCI_COMMON_Q_AVAILLO
              VIRTIO_PCI_COMMON_Q_AVAILHI (base_iova + vl_avail_offset layout))
           (write_common_u64 env mapping mapping_delta VIRTIO_PCI_COMMON_Q_USEDLO
              VIRTIO_PCI_COMMON_Q_USEDHI (base_iova + vl_used_offset layout))))"

definition enable_queue :: "'w env \<Rightarrow> MappedRegion \<Rightarrow> u64 \<Rightarrow> ('w st, unit) M" where
  "enable_queue env mapping mapping_delta =
     write16 env mapping (mapping_delta + VIRTIO_PCI_COMMON_Q_ENABLE) 1"

definition write_notify :: "'w env \<Rightarrow> MappedRegion \<Rightarrow> u64 \<Rightarrow> u16 \<Rightarrow> ('w st, unit) M" where
  "write_notify env mapping mapping_delta v = write16 env mapping mapping_delta v"

definition set_driver_ok :: "'w env \<Rightarrow> MappedRegion \<Rightarrow> u64 \<Rightarrow> ('w st, unit) M" where
  "set_driver_ok env mapping mapping_delta =
     bindM (read_status env mapping mapping_delta) (\<lambda>status.
     write_status env mapping mapping_delta (status OR VIRTIO_CONFIG_S_DRIVER_OK))"

section \<open>Guards\<close>

text \<open>
  \<open>QueueSelectionGuard\<close>: its mutable member is \<open>sel_changed\<close>; \<open>restore\<close> is also the body of the
  destructor, run under \<open>finallyM\<close>.
\<close>

definition selection_select :: "'w env \<Rightarrow> MappedRegion \<Rightarrow> u64 \<Rightarrow> u16 \<Rightarrow> ('w st, unit) M" where
  "selection_select env mapping mapping_delta queue =
     thenM (write16 env mapping (mapping_delta + VIRTIO_PCI_COMMON_Q_SELECT) queue)
           (modifyM (\<lambda>s. s\<lparr>sel_changed := True\<rparr>))"

definition selection_restore :: "'w env \<Rightarrow> MappedRegion \<Rightarrow> u64 \<Rightarrow> u16 \<Rightarrow> ('w st, unit) M" where
  "selection_restore env mapping mapping_delta original_select =
     bindM (readM sel_changed) (\<lambda>changed.
     if \<not> changed then returnM ()
     else thenM (write16 env mapping (mapping_delta + VIRTIO_PCI_COMMON_Q_SELECT) original_select)
                (modifyM (\<lambda>s. s\<lparr>sel_changed := False\<rparr>)))"

text \<open>\<open>DeviceResetGuard\<close>: constructor, \<open>disarm\<close> and destructor.\<close>

definition reset_guard_new :: "('w st, unit) M" where
  "reset_guard_new = modifyM (\<lambda>s. s\<lparr>reset_active := True\<rparr>)"

definition reset_guard_disarm :: "('w st, unit) M" where
  "reset_guard_disarm = modifyM (\<lambda>s. s\<lparr>reset_active := False\<rparr>)"

definition reset_guard_drop :: "'w env \<Rightarrow> MappedRegion \<Rightarrow> u64 \<Rightarrow> ('w st, unit) M" where
  "reset_guard_drop env mapping mapping_delta =
     bindM (readM reset_active) (\<lambda>active.
     if \<not> active then returnM ()
     else write8 env mapping (mapping_delta + VIRTIO_PCI_COMMON_STATUS) 0)"

text \<open>\<open>PciCommandGuard\<close>: the constructor returns the constant member \<open>original_\<close>.\<close>

definition PCI_COMMAND :: u16 where "PCI_COMMAND = 4"
definition PCI_COMMAND_MEMORY :: u16 where "PCI_COMMAND_MEMORY = 2"
definition PCI_COMMAND_MASTER :: u16 where "PCI_COMMAND_MASTER = 4"

definition pci_command_new :: "'w env \<Rightarrow> ConfigRegion \<Rightarrow> ('w st, u16) M" where
  "pci_command_new env config =
     bindM (read_config_le16 env config PCI_COMMAND) (\<lambda>original.
     thenM (modifyM (\<lambda>s. s\<lparr>pci_current := original, pci_restored := False\<rparr>))
           (returnM original))"

definition enable_bus_mastering :: "'w env \<Rightarrow> ConfigRegion \<Rightarrow> u16 \<Rightarrow> ('w st, unit) M" where
  "enable_bus_mastering env config original =
     (let wanted = original OR PCI_COMMAND_MEMORY OR PCI_COMMAND_MASTER
      in bindM (readM pci_current) (\<lambda>current.
         if wanted = current then returnM ()
         else thenM (write_config_le16 env config PCI_COMMAND wanted)
             (bindM (read_config_le16 env config PCI_COMMAND) (\<lambda>current'.
              thenM (modifyM (\<lambda>s. s\<lparr>pci_current := current'\<rparr>))
             (thenM (throw_ifM (current' AND PCI_COMMAND_MASTER = 0)
                (RuntimeError ''PCI bus mastering did not stay enabled''))
                (throw_ifM (current' AND PCI_COMMAND_MEMORY = 0)
                (RuntimeError ''PCI memory space did not stay enabled'')))))))"

definition pci_command_restore :: "'w env \<Rightarrow> ConfigRegion \<Rightarrow> u16 \<Rightarrow> ('w st, unit) M" where
  "pci_command_restore env config original =
     bindM (readM (\<lambda>s. (pci_restored s, pci_current s))) (\<lambda>(restored, current).
     if restored \<or> current = original then modifyM (\<lambda>s. s\<lparr>pci_restored := True\<rparr>)
     else thenM (write_config_le16 env config PCI_COMMAND original)
         (bindM (read_config_le16 env config PCI_COMMAND) (\<lambda>current'.
          modifyM (\<lambda>s. s\<lparr>pci_current := current', pci_restored := True\<rparr>))))"

definition program_and_enable_queue ::
  "'w env \<Rightarrow> MappedRegion \<Rightarrow> u64 \<Rightarrow> u16 \<Rightarrow> VringLayout \<Rightarrow> u64 \<Rightarrow> string \<Rightarrow> ('w st, QueueView) M" where
  "program_and_enable_queue env mapping mapping_delta queue layout queue_iova label =
     thenM (selection_select env mapping mapping_delta queue)
    (bindM (read_queue_view env mapping mapping_delta) (\<lambda>before.
     thenM (throw_ifM (qv_enable before \<noteq> 0)
       (RuntimeError (label @ '' is already enabled; reset the device before using this tutorial sample'')))
    (thenM (program_queue_addresses env mapping mapping_delta layout queue_iova)
    (thenM (read_queue_view env mapping mapping_delta)
    (thenM (enable_queue env mapping mapping_delta)
    (bindM (read_queue_view env mapping mapping_delta) (\<lambda>after_enable.
     thenM (throw_ifM (qv_enable after_enable \<noteq> 1)
       (RuntimeError (label @ '' queue_enable did not read back as 1'')))
       (returnM after_enable))))))))"

section \<open>Features\<close>

definition kFeatureWords :: nat where "kFeatureWords = 3"
definition VIRTIO_NET_F_MAC :: nat where "VIRTIO_NET_F_MAC = 5"
definition VIRTIO_NET_F_STATUS :: nat where "VIRTIO_NET_F_STATUS = 16"
definition VIRTIO_NET_F_CTRL_VQ :: nat where "VIRTIO_NET_F_CTRL_VQ = 17"
definition VIRTIO_NET_F_CTRL_RX :: nat where "VIRTIO_NET_F_CTRL_RX = 18"
definition VIRTIO_NET_F_CTRL_MAC_ADDR :: nat where "VIRTIO_NET_F_CTRL_MAC_ADDR = 23"
definition VIRTIO_F_VERSION_1 :: nat where "VIRTIO_F_VERSION_1 = 32"
definition VIRTIO_F_ACCESS_PLATFORM :: nat where "VIRTIO_F_ACCESS_PLATFORM = 33"

lemmas feature_bits = kFeatureWords_def VIRTIO_NET_F_MAC_def VIRTIO_NET_F_STATUS_def
  VIRTIO_NET_F_CTRL_VQ_def VIRTIO_NET_F_CTRL_RX_def VIRTIO_NET_F_CTRL_MAC_ADDR_def
  VIRTIO_F_VERSION_1_def VIRTIO_F_ACCESS_PLATFORM_def

definition feature_is_set :: "u32 list \<Rightarrow> nat \<Rightarrow> bool" where
  "feature_is_set words b \<longleftrightarrow> b div 32 < length words \<and> words ! (b div 32) AND push_bit (b mod 32) 1 \<noteq> 0"

definition set_feature :: "u32 list \<Rightarrow> nat \<Rightarrow> u32 list res" where
  "set_feature words b =
     (if b div 32 \<ge> length words
      then Inl (RuntimeError ''feature bit is outside the configured word range'')
      else Inr (words[b div 32 := words ! (b div 32) OR push_bit (b mod 32) 1]))"

text \<open>\<open>if (feature_is_set(device_features, b)) set_feature(guest, b);\<close>\<close>

definition copy_feature :: "u32 list \<Rightarrow> nat \<Rightarrow> u32 list \<Rightarrow> u32 list res" where
  "copy_feature device_features b guest =
     (if feature_is_set device_features b then set_feature guest b else Inr guest)"

definition minimal_transport_features :: "u32 list \<Rightarrow> u32 list res" where
  "minimal_transport_features device_features =
     (let guest = replicate kFeatureWords 0
      in bindR (throw_if (\<not> feature_is_set device_features VIRTIO_F_VERSION_1)
           (RuntimeError ''device does not offer VIRTIO_F_VERSION_1; this sample only supports modern virtio'')) (\<lambda>_.
         bindR (set_feature guest VIRTIO_F_VERSION_1) (\<lambda>guest.
         copy_feature device_features VIRTIO_F_ACCESS_PLATFORM guest)))"

definition minimal_guest_features :: "u32 list \<Rightarrow> u32 list res" where
  "minimal_guest_features device_features =
     (let guest = replicate kFeatureWords 0
      in bindR (throw_if (\<not> feature_is_set device_features VIRTIO_F_VERSION_1)
           (RuntimeError ''device does not offer VIRTIO_F_VERSION_1; this sample only supports modern virtio'')) (\<lambda>_.
         bindR (set_feature guest VIRTIO_F_VERSION_1) (\<lambda>guest.
         bindR (copy_feature device_features VIRTIO_F_ACCESS_PLATFORM guest) (\<lambda>guest.
         bindR (copy_feature device_features VIRTIO_NET_F_MAC guest) (\<lambda>guest.
         copy_feature device_features VIRTIO_NET_F_STATUS guest)))))"

definition ctrl_rx_guest_features :: "u32 list \<Rightarrow> u32 list res" where
  "ctrl_rx_guest_features device_features =
     bindR (throw_if (\<not> feature_is_set device_features VIRTIO_NET_F_CTRL_VQ)
       (RuntimeError ''device does not offer VIRTIO_NET_F_CTRL_VQ; no control virtqueue'')) (\<lambda>_.
     bindR (throw_if (\<not> feature_is_set device_features VIRTIO_NET_F_CTRL_RX)
       (RuntimeError ''device does not offer VIRTIO_NET_F_CTRL_RX; cannot send RX mode control commands'')) (\<lambda>_.
     bindR (minimal_guest_features device_features) (\<lambda>guest.
     bindR (set_feature guest VIRTIO_NET_F_CTRL_VQ) (\<lambda>guest.
     set_feature guest VIRTIO_NET_F_CTRL_RX))))"

definition ctrl_mac_addr_guest_features :: "u32 list \<Rightarrow> u32 list res" where
  "ctrl_mac_addr_guest_features device_features =
     bindR (throw_if (\<not> feature_is_set device_features VIRTIO_NET_F_CTRL_VQ)
       (RuntimeError ''device does not offer VIRTIO_NET_F_CTRL_VQ; no control virtqueue'')) (\<lambda>_.
     bindR (throw_if (\<not> feature_is_set device_features VIRTIO_NET_F_CTRL_MAC_ADDR)
       (RuntimeError ''device does not offer VIRTIO_NET_F_CTRL_MAC_ADDR; cannot set MAC address through control virtqueue'')) (\<lambda>_.
     bindR (minimal_guest_features device_features) (\<lambda>guest.
     bindR (set_feature guest VIRTIO_NET_F_CTRL_VQ) (\<lambda>guest.
     set_feature guest VIRTIO_NET_F_CTRL_MAC_ADDR))))"

record FeatureWords =
  fw_original_select :: u32
  fw_words :: "u32 list"

text \<open>The loop over the words \<open>i, i + 1, ...\<close> in \<open>[0..<word_count]\<close>.\<close>

primrec read_feature_loop ::
  "'w env \<Rightarrow> MappedRegion \<Rightarrow> u64 \<Rightarrow> u64 \<Rightarrow> nat list \<Rightarrow> ('w st, u32 list) M" where
  "read_feature_loop env mapping sel val [] = returnM []"
| "read_feature_loop env mapping sel val (i # is) =
     thenM (write32 env mapping sel (of_nat i))
    (bindM (read32 env mapping val) (\<lambda>w.
     bindM (read_feature_loop env mapping sel val is) (\<lambda>ws. returnM (w # ws))))"

definition read_feature_words ::
  "'w env \<Rightarrow> MappedRegion \<Rightarrow> u64 \<Rightarrow> u64 \<Rightarrow> u64 \<Rightarrow> nat \<Rightarrow> ('w st, FeatureWords) M" where
  "read_feature_words env mapping mapping_delta select_offset value_offset word_count =
     bindM (read32 env mapping (mapping_delta + select_offset)) (\<lambda>original_select.
     bindM (read_feature_loop env mapping (mapping_delta + select_offset)
              (mapping_delta + value_offset) [0..<word_count]) (\<lambda>words.
     thenM (write32 env mapping (mapping_delta + select_offset) original_select)
           (returnM \<lparr>fw_original_select = original_select, fw_words = words\<rparr>)))"

definition write_guest_feature_words ::
  "'w env \<Rightarrow> MappedRegion \<Rightarrow> u64 \<Rightarrow> u32 list \<Rightarrow> ('w st, unit) M" where
  "write_guest_feature_words env mapping mapping_delta words =
     bindM (read32 env mapping (mapping_delta + VIRTIO_PCI_COMMON_GFSELECT)) (\<lambda>original_select.
     thenM (forM [0..<length words] (\<lambda>word.
       thenM (write32 env mapping (mapping_delta + VIRTIO_PCI_COMMON_GFSELECT) (of_nat word))
             (write32 env mapping (mapping_delta + VIRTIO_PCI_COMMON_GF) (words ! word))))
       (write32 env mapping (mapping_delta + VIRTIO_PCI_COMMON_GFSELECT) original_select))"

text \<open>
  The four negotiations have the same body but for the choice of the guest features; each is its
  own instance below.
\<close>

definition negotiate ::
  "(u32 list \<Rightarrow> u32 list res) \<Rightarrow> 'w env \<Rightarrow> MappedRegion \<Rightarrow> u64 \<Rightarrow> ('w st, u32 list) M" where
  "negotiate pick env mapping mapping_delta =
     thenM (reset_device env mapping mapping_delta)
    (thenM (write_status env mapping mapping_delta VIRTIO_CONFIG_S_ACKNOWLEDGE)
    (thenM (read_status env mapping mapping_delta)
    (thenM (write_status env mapping mapping_delta
              (VIRTIO_CONFIG_S_ACKNOWLEDGE OR VIRTIO_CONFIG_S_DRIVER))
    (thenM (read_status env mapping mapping_delta)
    (bindM (read_feature_words env mapping mapping_delta VIRTIO_PCI_COMMON_DFSELECT
              VIRTIO_PCI_COMMON_DF kFeatureWords) (\<lambda>device_features.
     bindM (liftR (pick (fw_words device_features))) (\<lambda>guest_features.
     thenM (write_guest_feature_words env mapping mapping_delta guest_features)
    (thenM (write_status env mapping mapping_delta
              (VIRTIO_CONFIG_S_ACKNOWLEDGE OR VIRTIO_CONFIG_S_DRIVER OR VIRTIO_CONFIG_S_FEATURES_OK))
    (bindM (read_status env mapping mapping_delta) (\<lambda>after_features_ok.
     thenM (throw_ifM (after_features_ok AND VIRTIO_CONFIG_S_FEATURES_OK = 0)
       (RuntimeError ''device rejected FEATURES_OK''))
       (returnM guest_features)))))))))))"

definition negotiate_minimal_features :: "'w env \<Rightarrow> MappedRegion \<Rightarrow> u64 \<Rightarrow> ('w st, u32 list) M" where
  "negotiate_minimal_features = negotiate minimal_guest_features"

definition negotiate_ctrl_rx_features :: "'w env \<Rightarrow> MappedRegion \<Rightarrow> u64 \<Rightarrow> ('w st, u32 list) M" where
  "negotiate_ctrl_rx_features = negotiate ctrl_rx_guest_features"

definition negotiate_ctrl_mac_addr_features :: "'w env \<Rightarrow> MappedRegion \<Rightarrow> u64 \<Rightarrow> ('w st, u32 list) M" where
  "negotiate_ctrl_mac_addr_features = negotiate ctrl_mac_addr_guest_features"

definition negotiate_minimal_transport_features :: "'w env \<Rightarrow> MappedRegion \<Rightarrow> u64 \<Rightarrow> ('w st, unit) M" where
  "negotiate_minimal_transport_features env mapping mapping_delta =
     thenM (negotiate minimal_transport_features env mapping mapping_delta) (returnM ())"

section \<open>Device config\<close>

record VirtioNetConfigView =
  nc_mac :: "u8 list"
  nc_status :: "u16 option"
  nc_max_virtqueue_pairs :: "u16 option"
  nc_mtu :: "u16 option"

primrec read_mac_loop :: "'w env \<Rightarrow> MappedRegion \<Rightarrow> u64 \<Rightarrow> nat list \<Rightarrow> ('w st, u8 list) M" where
  "read_mac_loop env mapping base [] = returnM []"
| "read_mac_loop env mapping base (i # is) =
     bindM (read8 env mapping (base + of_nat i)) (\<lambda>b.
     bindM (read_mac_loop env mapping base is) (\<lambda>bs. returnM (b # bs)))"

definition read_net_u16 :: "'w env \<Rightarrow> MappedRegion \<Rightarrow> u64 \<Rightarrow> u64 \<Rightarrow> u64 \<Rightarrow> ('w st, u16 option) M" where
  "read_net_u16 env mapping mapping_delta cfg_length off =
     (if cfg_length \<ge> off + 2
      then bindM (read16 env mapping (mapping_delta + off)) (\<lambda>v. returnM (Some v))
      else returnM None)"

definition read_virtio_net_config ::
  "'w env \<Rightarrow> MappedRegion \<Rightarrow> u64 \<Rightarrow> u64 \<Rightarrow> ('w st, VirtioNetConfigView) M" where
  "read_virtio_net_config env mapping mapping_delta cfg_length =
     bindM (if cfg_length \<ge> 6 then read_mac_loop env mapping mapping_delta [0..<6]
            else returnM (replicate 6 0)) (\<lambda>mac.
     bindM (read_net_u16 env mapping mapping_delta cfg_length 6) (\<lambda>status.
     bindM (read_net_u16 env mapping mapping_delta cfg_length 8) (\<lambda>pairs.
     bindM (read_net_u16 env mapping mapping_delta cfg_length 10) (\<lambda>mtu.
     returnM \<lparr>nc_mac = mac, nc_status = status, nc_max_virtqueue_pairs = pairs, nc_mtu = mtu\<rparr>))))"

section \<open>Accepted features\<close>

lemma and_push_bit_one: "(w :: 'a::len word) AND push_bit k 1 \<noteq> 0 \<longleftrightarrow> bit w k"
proof
  assume "w AND push_bit k 1 \<noteq> 0"
  then obtain n where "bit (w AND push_bit k 1) n"
    by (auto simp: bit_eq_iff)
  then show "bit w k" by (auto simp: bit_simps)
next
  assume k: "bit w k"
  then have "k < LENGTH('a)" by (rule bit_imp_le_length)
  with k have "bit (w AND push_bit k 1) k" by (simp add: bit_simps)
  then show "w AND push_bit k 1 \<noteq> 0" by auto
qed

lemma feature_is_set_bit:
  "feature_is_set words b \<longleftrightarrow> b div 32 < length words \<and> bit (words ! (b div 32)) (b mod 32)"
  by (simp only: feature_is_set_def and_push_bit_one)

lemma set_feature_Inr:
  assumes "set_feature words b = Inr words'"
  shows "length words' = length words"
    and "feature_is_set words' c \<longleftrightarrow> c = b \<or> feature_is_set words c"
proof -
  from assms have b: "b div 32 < length words"
    and w: "words' = words[b div 32 := words ! (b div 32) OR push_bit (b mod 32) 1]"
    by (auto simp: set_feature_def split: if_splits)
  show "length words' = length words" by (simp add: w)
  have "c = b \<longleftrightarrow> c div 32 = b div 32 \<and> c mod 32 = b mod 32"
    by (metis div_mod_decomp)
  then show "feature_is_set words' c \<longleftrightarrow> c = b \<or> feature_is_set words c"
    using b by (auto simp: feature_is_set_bit w nth_list_update bit_simps)
qed

lemma copy_feature_Inr:
  assumes "copy_feature dev b words = Inr words'"
  shows "length words' = length words"
    and "feature_is_set words' c \<longleftrightarrow> c = b \<and> feature_is_set dev b \<or> feature_is_set words c"
  using assms set_feature_Inr by (auto simp: copy_feature_def split: if_splits)

lemma no_feature [simp]: "\<not> feature_is_set (replicate n 0) b"
  by (simp add: feature_is_set_bit)

lemma minimal_guest_features_Inr:
  assumes "minimal_guest_features dev = Inr guest"
  shows "length guest = kFeatureWords" and "feature_is_set dev VIRTIO_F_VERSION_1"
    and "feature_is_set guest b \<longleftrightarrow> feature_is_set dev b \<and>
      b \<in> {VIRTIO_F_VERSION_1, VIRTIO_F_ACCESS_PLATFORM, VIRTIO_NET_F_MAC, VIRTIO_NET_F_STATUS}"
  using assms
  by (auto simp: minimal_guest_features_def res_iff Let_def set_feature_Inr copy_feature_Inr)

lemma minimal_transport_features_Inr:
  assumes "minimal_transport_features dev = Inr guest"
  shows "length guest = kFeatureWords" and "feature_is_set dev VIRTIO_F_VERSION_1"
    and "feature_is_set guest b \<longleftrightarrow> feature_is_set dev b \<and>
      b \<in> {VIRTIO_F_VERSION_1, VIRTIO_F_ACCESS_PLATFORM}"
  using assms
  by (auto simp: minimal_transport_features_def res_iff Let_def set_feature_Inr copy_feature_Inr)

lemma ctrl_rx_guest_features_Inr:
  assumes "ctrl_rx_guest_features dev = Inr guest"
  shows "length guest = kFeatureWords" and "feature_is_set dev VIRTIO_F_VERSION_1"
    and "feature_is_set dev VIRTIO_NET_F_CTRL_VQ" and "feature_is_set dev VIRTIO_NET_F_CTRL_RX"
    and "feature_is_set guest b \<longleftrightarrow> feature_is_set dev b \<and>
      b \<in> {VIRTIO_F_VERSION_1, VIRTIO_F_ACCESS_PLATFORM, VIRTIO_NET_F_MAC, VIRTIO_NET_F_STATUS,
        VIRTIO_NET_F_CTRL_VQ, VIRTIO_NET_F_CTRL_RX}"
  using assms
  by (auto simp: ctrl_rx_guest_features_def res_iff set_feature_Inr minimal_guest_features_Inr)

lemma ctrl_mac_addr_guest_features_Inr:
  assumes "ctrl_mac_addr_guest_features dev = Inr guest"
  shows "length guest = kFeatureWords" and "feature_is_set dev VIRTIO_F_VERSION_1"
    and "feature_is_set dev VIRTIO_NET_F_CTRL_VQ" and "feature_is_set dev VIRTIO_NET_F_CTRL_MAC_ADDR"
    and "feature_is_set guest b \<longleftrightarrow> feature_is_set dev b \<and>
      b \<in> {VIRTIO_F_VERSION_1, VIRTIO_F_ACCESS_PLATFORM, VIRTIO_NET_F_MAC, VIRTIO_NET_F_STATUS,
        VIRTIO_NET_F_CTRL_VQ, VIRTIO_NET_F_CTRL_MAC_ADDR}"
  using assms
  by (auto simp: ctrl_mac_addr_guest_features_def res_iff set_feature_Inr minimal_guest_features_Inr)

section \<open>What a computation writes\<close>

text \<open>\<open>emits m tr\<close>: when \<open>m\<close> returns normally, it has added exactly \<open>tr\<close> to the trace.\<close>

definition emits :: "('w st, 'a) M \<Rightarrow> event list \<Rightarrow> bool" where
  "emits m tr \<longleftrightarrow> (\<forall>s a s'. m s = (Inr a, s') \<longrightarrow> trace s' = trace s @ tr)"

lemma emitsD: "emits m tr \<Longrightarrow> m s = (Inr a, s') \<Longrightarrow> trace s' = trace s @ tr"
  by (simp add: emits_def)

named_theorems emit_rules "what a computation adds to the trace"

lemma emits_bindM:
  "emits m t1 \<Longrightarrow> (\<And>a. emits (f a) t2) \<Longrightarrow> tr = t1 @ t2 \<Longrightarrow> emits (bindM m f) tr"
  by (force simp: emits_def run_iff)

lemma emits_basic [emit_rules]:
  "emits (returnM a) []" "emits (throwM e) tr" "emits (throw_ifM b e) []" "emits (external f) []"
  "emits (readM g) []" "emits (liftR r) []" "emits (emit ev) [ev]" "emits (now env) []"
  "emits (sleep_for env t) []"
  by (auto simp: emits_def run_iff external_def readM_def emit_def now_def sleep_for_def
      split: prod.splits)

lemma emits_modifyM: "(\<And>s. trace (h s) = trace s) \<Longrightarrow> emits (modifyM h) []"
  by (auto simp: emits_def modifyM_def)

lemma emits_if: "(b \<Longrightarrow> emits m tr) \<Longrightarrow> (\<not> b \<Longrightarrow> emits n tr) \<Longrightarrow> emits (if b then m else n) tr"
  by simp

lemma emits_mmio [emit_rules]:
  "emits (mmio_read env r off n) []" "emits (mmio_write env r off n v) [MmioWrite n (mr_offset r + off) v]"
  unfolding mmio_read_def mmio_write_def
  by (rule emits_bindM emit_rules | simp)+

lemma emits_registers [emit_rules]:
  "emits (read8 env r off) []" "emits (read16 env r off) []" "emits (read32 env r off) []"
  "emits (write8 env r off b) [MmioWrite 1 (mr_offset r + off) (ucast b)]"
  "emits (write16 env r off h) [MmioWrite 2 (mr_offset r + off) (ucast h)]"
  "emits (write32 env r off w) [MmioWrite 4 (mr_offset r + off) (ucast w)]"
  unfolding read8_def read16_def read32_def write8_def write16_def write32_def
  by (rule emits_bindM emit_rules | simp)+

lemma emits_status [emit_rules]:
  "emits (read_status env r d) []"
  "emits (write_status env r d st) [MmioWrite 1 (mr_offset r + (d + VIRTIO_PCI_COMMON_STATUS)) (ucast st)]"
  unfolding read_status_def write_status_def by (rule emit_rules)+

lemma emits_wait_status_loop: "emits (wait_status_loop fuel env r d e dl) []"
proof (induction fuel)
  case 0
  show ?case unfolding wait_status_loop.simps
    by (rule emits_bindM emit_rules emits_if | simp)+
next
  case (Suc fuel)
  show ?case unfolding wait_status_loop.simps
    by (rule emits_bindM emit_rules emits_if Suc.IH | simp)+
qed

lemma emits_wait_for_status [emit_rules]: "emits (wait_for_status env r d e t) []"
  unfolding wait_for_status_def
  by (rule emits_bindM emit_rules emits_if emits_wait_status_loop | simp)+

lemma emits_reset_device [emit_rules]:
  "emits (reset_device env r d) [MmioWrite 1 (mr_offset r + (d + VIRTIO_PCI_COMMON_STATUS)) 0]"
  unfolding reset_device_def
  by (rule emits_bindM emit_rules | simp)+

lemma emits_read_feature_loop [emit_rules]:
  "emits (read_feature_loop env r sel val is) (map (\<lambda>i. MmioWrite 4 (mr_offset r + sel) (ucast (of_nat i :: u32))) is)"
proof (induction "is")
  case (Cons i "is")
  show ?case unfolding read_feature_loop.simps
    by (rule emits_bindM emit_rules Cons.IH | simp)+
qed (simp add: emit_rules)

lemma emits_forM:
  "(\<And>x. x \<in> set xs \<Longrightarrow> emits (f x) (g x)) \<Longrightarrow> emits (forM xs f) (concat (map g xs))"
proof (induction xs)
  case (Cons x xs)
  then show ?case by (simp del: bindM_returnM) (rule emits_bindM, auto)
qed (simp add: emit_rules)

text \<open>The writes of a negotiation that succeeds, with the two selectors it found and restored.\<close>

definition negotiation_writes :: "MappedRegion \<Rightarrow> u64 \<Rightarrow> u32 \<Rightarrow> u32 \<Rightarrow> u32 list \<Rightarrow> event list" where
  "negotiation_writes r d dsel gsel guest =
     (let reg = (\<lambda>n off v. MmioWrite n (mr_offset r + (d + off)) v)
      in [reg 1 VIRTIO_PCI_COMMON_STATUS 0, reg 1 VIRTIO_PCI_COMMON_STATUS 1,
          reg 1 VIRTIO_PCI_COMMON_STATUS 3,
          reg 4 VIRTIO_PCI_COMMON_DFSELECT 0, reg 4 VIRTIO_PCI_COMMON_DFSELECT 1,
          reg 4 VIRTIO_PCI_COMMON_DFSELECT 2, reg 4 VIRTIO_PCI_COMMON_DFSELECT (ucast dsel),
          reg 4 VIRTIO_PCI_COMMON_GFSELECT 0, reg 4 VIRTIO_PCI_COMMON_GF (ucast (guest ! 0)),
          reg 4 VIRTIO_PCI_COMMON_GFSELECT 1, reg 4 VIRTIO_PCI_COMMON_GF (ucast (guest ! 1)),
          reg 4 VIRTIO_PCI_COMMON_GFSELECT 2, reg 4 VIRTIO_PCI_COMMON_GF (ucast (guest ! 2)),
          reg 4 VIRTIO_PCI_COMMON_GFSELECT (ucast gsel), reg 1 VIRTIO_PCI_COMMON_STATUS 11])"

lemma write_guest_feature_words_trace:
  assumes "write_guest_feature_words env r d ws s = (Inr u, s')"
  shows "\<exists>gsel. trace s' = trace s @
    concat (map (\<lambda>i. [MmioWrite 4 (mr_offset r + (d + VIRTIO_PCI_COMMON_GFSELECT)) (ucast (of_nat i :: u32)),
      MmioWrite 4 (mr_offset r + (d + VIRTIO_PCI_COMMON_GF)) (ucast (ws ! i))]) [0..<length ws]) @
    [MmioWrite 4 (mr_offset r + (d + VIRTIO_PCI_COMMON_GFSELECT)) (ucast (gsel :: u32))]"
proof -
  let ?f = "\<lambda>i. thenM (write32 env r (d + VIRTIO_PCI_COMMON_GFSELECT) (of_nat i))
      (write32 env r (d + VIRTIO_PCI_COMMON_GF) (ws ! i))"
  from assms obtain gsel s1 s2 where
    1: "read32 env r (d + VIRTIO_PCI_COMMON_GFSELECT) s = (Inr gsel, s1)"
    and 2: "forM [0..<length ws] ?f s1 = (Inr (), s2)"
    and 3: "write32 env r (d + VIRTIO_PCI_COMMON_GFSELECT) gsel s2 = (Inr u, s')"
    unfolding write_guest_feature_words_def bindM_Inr_iff by auto
  have "emits (forM [0..<length ws] ?f) (concat (map (\<lambda>i.
      [MmioWrite 4 (mr_offset r + (d + VIRTIO_PCI_COMMON_GFSELECT)) (ucast (of_nat i :: u32)),
       MmioWrite 4 (mr_offset r + (d + VIRTIO_PCI_COMMON_GF)) (ucast (ws ! i))]) [0..<length ws]))"
    by (rule emits_forM) (rule emits_bindM emit_rules | simp)+
  from emitsD [OF this 2] emitsD [OF emits_registers(3) 1] emitsD [OF emits_registers(6) 3]
  show ?thesis by (intro exI [of _ gsel]) simp
qed

lemma upt_three: "[0..<3] = [0, 1, 2::nat]"
  by (simp add: upt_rec)

lemma negotiate_trace:
  assumes run: "negotiate pick env r d s = (Inr guest, s')"
    and len: "\<And>dev g. pick dev = Inr g \<Longrightarrow> length g = kFeatureWords"
  shows "\<exists>fw s1 s2 dsel gsel.
    read_feature_words env r d VIRTIO_PCI_COMMON_DFSELECT VIRTIO_PCI_COMMON_DF kFeatureWords s1 = (Inr fw, s2) \<and>
    pick (fw_words fw) = Inr guest \<and> trace s' = trace s @ negotiation_writes r d dsel gsel guest"
proof -
  let ?st = "\<lambda>v. MmioWrite 1 (mr_offset r + (d + VIRTIO_PCI_COMMON_STATUS)) v"
  from run obtain s1 s2 s3 s4 s5 s6 s7 s8 fw st where
    1: "reset_device env r d s = (Inr (), s1)"
    and 2: "write_status env r d VIRTIO_CONFIG_S_ACKNOWLEDGE s1 = (Inr (), s2)"
    and 3: "\<exists>v. read_status env r d s2 = (Inr v, s3)"
    and 4: "write_status env r d (VIRTIO_CONFIG_S_ACKNOWLEDGE OR VIRTIO_CONFIG_S_DRIVER) s3 = (Inr (), s4)"
    and 5: "\<exists>v. read_status env r d s4 = (Inr v, s5)"
    and 6: "read_feature_words env r d VIRTIO_PCI_COMMON_DFSELECT VIRTIO_PCI_COMMON_DF kFeatureWords s5 = (Inr fw, s6)"
    and p: "pick (fw_words fw) = Inr guest"
    and 7: "write_guest_feature_words env r d guest s6 = (Inr (), s7)"
    and 8: "write_status env r d (VIRTIO_CONFIG_S_ACKNOWLEDGE OR VIRTIO_CONFIG_S_DRIVER OR VIRTIO_CONFIG_S_FEATURES_OK) s7 = (Inr (), s8)"
    and 9: "read_status env r d s8 = (Inr st, s')"
    unfolding negotiate_def by (auto simp: run_iff)
  from 6 obtain s61 s62 ws where
    61: "read32 env r (d + VIRTIO_PCI_COMMON_DFSELECT) s5 = (Inr (fw_original_select fw), s61)"
    and 62: "read_feature_loop env r (d + VIRTIO_PCI_COMMON_DFSELECT) (d + VIRTIO_PCI_COMMON_DF) [0..<kFeatureWords] s61 = (Inr ws, s62)"
    and 63: "write32 env r (d + VIRTIO_PCI_COMMON_DFSELECT) (fw_original_select fw) s62 = (Inr (), s6)"
    unfolding read_feature_words_def by (auto simp: run_iff)
  from write_guest_feature_words_trace [OF 7] len [OF p] obtain gsel where
    t7: "trace s7 = trace s6 @
    concat (map (\<lambda>i. [MmioWrite 4 (mr_offset r + (d + VIRTIO_PCI_COMMON_GFSELECT)) (ucast (of_nat i :: u32)),
      MmioWrite 4 (mr_offset r + (d + VIRTIO_PCI_COMMON_GF)) (ucast (guest ! i))]) [0, 1, 2]) @
    [MmioWrite 4 (mr_offset r + (d + VIRTIO_PCI_COMMON_GFSELECT)) (ucast (gsel :: u32))]"
    by (auto simp: kFeatureWords_def upt_three)
  from emitsD [OF emits_read_feature_loop 62] have "trace s62 = trace s61 @ map (\<lambda>i. MmioWrite 4 (mr_offset r + (d + VIRTIO_PCI_COMMON_DFSELECT)) (ucast (of_nat i :: u32))) [0, 1, 2]"
    by (simp only: kFeatureWords_def upt_three)
  moreover from 3 5 have "trace s3 = trace s2" "trace s5 = trace s4"
    by (auto dest!: emitsD [OF emits_status(1)])
  ultimately have "trace s' = trace s @ negotiation_writes r d (fw_original_select fw) gsel guest"
    using emitsD [OF emits_reset_device 1] emitsD [OF emits_status(2) 2] emitsD [OF emits_status(2) 4]
      emitsD [OF emits_registers(3) 61] emitsD [OF emits_registers(6) 63] t7
      emitsD [OF emits_status(2) 8] emitsD [OF emits_status(1) 9]
    by (simp add: negotiation_writes_def status_bits)
  with 6 p show ?thesis by blast
qed

text \<open>
  C30. A successful negotiation accepts only what the device offers: the guest words that
  \<open>negotiate_minimal_features\<close> returns are chosen from words read from the device, they contain
  VERSION_1 and no feature the device did not offer, and the writes of the whole handshake are,
  in this order, reset, ACKNOWLEDGE, DRIVER, the device feature selector with its restoration, the
  three guest words with the selector restored, and FEATURES_OK.
\<close>

theorem negotiate_minimal_correct:
  assumes "negotiate_minimal_features env r d s = (Inr guest, s')"
  shows "\<exists>fw s1 s2 dsel gsel.
    read_feature_words env r d VIRTIO_PCI_COMMON_DFSELECT VIRTIO_PCI_COMMON_DF kFeatureWords s1 = (Inr fw, s2) \<and>
    (\<forall>b. feature_is_set guest b \<longleftrightarrow> feature_is_set (fw_words fw) b \<and>
      b \<in> {VIRTIO_F_VERSION_1, VIRTIO_F_ACCESS_PLATFORM, VIRTIO_NET_F_MAC, VIRTIO_NET_F_STATUS}) \<and>
    feature_is_set guest VIRTIO_F_VERSION_1 \<and>
    trace s' = trace s @ negotiation_writes r d dsel gsel guest"
proof -
  from negotiate_trace [OF assms [unfolded negotiate_minimal_features_def]] minimal_guest_features_Inr(1)
  obtain fw s1 s2 dsel gsel where
    *: "read_feature_words env r d VIRTIO_PCI_COMMON_DFSELECT VIRTIO_PCI_COMMON_DF kFeatureWords s1 = (Inr fw, s2)"
    "minimal_guest_features (fw_words fw) = Inr guest"
    "trace s' = trace s @ negotiation_writes r d dsel gsel guest" by blast
  from minimal_guest_features_Inr [OF *(2)] * show ?thesis by blast
qed

text \<open>
  The control-queue exercises accept the RX control or the MAC address feature on top, and only
  from a device that offers the control queue and that feature.
\<close>

theorem negotiate_ctrl_features:
  "(negotiate_ctrl_rx_features env r d s = (Inr guest, s') \<longrightarrow>
     (\<exists>fw s1 s2. read_feature_words env r d VIRTIO_PCI_COMMON_DFSELECT VIRTIO_PCI_COMMON_DF kFeatureWords s1 = (Inr fw, s2) \<and>
       feature_is_set (fw_words fw) VIRTIO_NET_F_CTRL_VQ \<and> feature_is_set (fw_words fw) VIRTIO_NET_F_CTRL_RX \<and>
       (\<forall>b. feature_is_set guest b \<longleftrightarrow> feature_is_set (fw_words fw) b \<and>
         b \<in> {VIRTIO_F_VERSION_1, VIRTIO_F_ACCESS_PLATFORM, VIRTIO_NET_F_MAC, VIRTIO_NET_F_STATUS,
           VIRTIO_NET_F_CTRL_VQ, VIRTIO_NET_F_CTRL_RX}))) \<and>
   (negotiate_ctrl_mac_addr_features env r d s = (Inr guest, s') \<longrightarrow>
     (\<exists>fw s1 s2. read_feature_words env r d VIRTIO_PCI_COMMON_DFSELECT VIRTIO_PCI_COMMON_DF kFeatureWords s1 = (Inr fw, s2) \<and>
       feature_is_set (fw_words fw) VIRTIO_NET_F_CTRL_VQ \<and> feature_is_set (fw_words fw) VIRTIO_NET_F_CTRL_MAC_ADDR \<and>
       (\<forall>b. feature_is_set guest b \<longleftrightarrow> feature_is_set (fw_words fw) b \<and>
         b \<in> {VIRTIO_F_VERSION_1, VIRTIO_F_ACCESS_PLATFORM, VIRTIO_NET_F_MAC, VIRTIO_NET_F_STATUS,
           VIRTIO_NET_F_CTRL_VQ, VIRTIO_NET_F_CTRL_MAC_ADDR})))"
proof (intro conjI impI)
  assume "negotiate_ctrl_rx_features env r d s = (Inr guest, s')"
  from negotiate_trace [OF this [unfolded negotiate_ctrl_rx_features_def]] ctrl_rx_guest_features_Inr(1)
  obtain fw s1 s2 where
    rd: "read_feature_words env r d VIRTIO_PCI_COMMON_DFSELECT VIRTIO_PCI_COMMON_DF kFeatureWords s1 = (Inr fw, s2)"
    and gf: "ctrl_rx_guest_features (fw_words fw) = Inr guest" by blast
  note g = ctrl_rx_guest_features_Inr [OF gf] rd
  show "\<exists>fw s1 s2. read_feature_words env r d VIRTIO_PCI_COMMON_DFSELECT VIRTIO_PCI_COMMON_DF kFeatureWords s1 = (Inr fw, s2) \<and>
       feature_is_set (fw_words fw) VIRTIO_NET_F_CTRL_VQ \<and> feature_is_set (fw_words fw) VIRTIO_NET_F_CTRL_RX \<and>
       (\<forall>b. feature_is_set guest b \<longleftrightarrow> feature_is_set (fw_words fw) b \<and>
         b \<in> {VIRTIO_F_VERSION_1, VIRTIO_F_ACCESS_PLATFORM, VIRTIO_NET_F_MAC, VIRTIO_NET_F_STATUS,
           VIRTIO_NET_F_CTRL_VQ, VIRTIO_NET_F_CTRL_RX})"
    by (intro exI [of _ fw] exI [of _ s1] exI [of _ s2] conjI allI g)
next
  assume "negotiate_ctrl_mac_addr_features env r d s = (Inr guest, s')"
  from negotiate_trace [OF this [unfolded negotiate_ctrl_mac_addr_features_def]] ctrl_mac_addr_guest_features_Inr(1)
  obtain fw s1 s2 where
    rd: "read_feature_words env r d VIRTIO_PCI_COMMON_DFSELECT VIRTIO_PCI_COMMON_DF kFeatureWords s1 = (Inr fw, s2)"
    and gf: "ctrl_mac_addr_guest_features (fw_words fw) = Inr guest" by blast
  note g = ctrl_mac_addr_guest_features_Inr [OF gf] rd
  show "\<exists>fw s1 s2. read_feature_words env r d VIRTIO_PCI_COMMON_DFSELECT VIRTIO_PCI_COMMON_DF kFeatureWords s1 = (Inr fw, s2) \<and>
       feature_is_set (fw_words fw) VIRTIO_NET_F_CTRL_VQ \<and> feature_is_set (fw_words fw) VIRTIO_NET_F_CTRL_MAC_ADDR \<and>
       (\<forall>b. feature_is_set guest b \<longleftrightarrow> feature_is_set (fw_words fw) b \<and>
         b \<in> {VIRTIO_F_VERSION_1, VIRTIO_F_ACCESS_PLATFORM, VIRTIO_NET_F_MAC, VIRTIO_NET_F_STATUS,
           VIRTIO_NET_F_CTRL_VQ, VIRTIO_NET_F_CTRL_MAC_ADDR})"
    by (intro exI [of _ fw] exI [of _ s1] exI [of _ s2] conjI allI g)
qed

text \<open>
  A device that keeps the last byte written as its status and offers every feature, behind a
  mapping of 58 registers.
\<close>

definition status_env :: "u64 env" where
  "status_env =
     \<lparr>env_mmio_read = (\<lambda>n off w. (if n = 1 then w else 0xffffffff, w)),
      env_mmio_write = (\<lambda>n off v w. if n = 1 then v else w),
      env_dma = (\<lambda>m w. (m, w)), env_delay = (\<lambda>w. (1, w)), env_strerror = (\<lambda>n. ''error''),
      env_pread = (\<lambda>off n w. (Inr (replicate n 0), w)), env_pwrite = (\<lambda>off bs w. (Inr (length bs), w)),
      env_mmap = (\<lambda>off sz wr w. (None, w)), env_mmap_anon = (\<lambda>sz w. (None, w)),
      env_map_dma = (\<lambda>iova sz fl w. (None, w)), env_unmap_dma = (\<lambda>iova sz w. (Inr sz, w)),
      env_region_info = (\<lambda>i n w. (Inr (replicate n 0), w)), env_num_irqs = (\<lambda>w. (Inr 5, w)),
      env_irq_info = (\<lambda>i w. (Inr (0, 0), w)), env_set_irqs = (\<lambda>i fl fds w. (None, w)),
      env_disable_irq = (\<lambda>i w. (None, w)),
      env_eventfd = (\<lambda>w. (Inr 3, w)), env_read_eventfd = (\<lambda>fd w. (Inl 11, w)),
      env_poll = (\<lambda>fds t w. (Inr (0, map (\<lambda>_. 0) fds), w)), env_page_size = 4096, env_fuel = 100\<rparr>"

definition regs58 :: MappedRegion where "regs58 = \<lparr>mr_offset = 0x1000, mr_size = 58\<rparr>"

definition returns :: "'a res \<times> 's \<Rightarrow> bool" where
  "returns x = (case fst x of Inr _ \<Rightarrow> True | Inl _ \<Rightarrow> False)"

lemma returnsE:
  assumes "returns x" obtains a s where "x = (Inr a, s)"
  using assms by (cases x; cases "fst x") (auto simp: returns_def)

lemma regs58_range: "unat off + n \<le> 58 \<Longrightarrow> n < 9 \<Longrightarrow> check_range regs58 off (of_nat n) = Inr ()"
  by (simp add: check_range_iff regs58_def unat_of_nat)

lemma status_env_status:
  "read_status status_env regs58 0 s = (Inr (ucast (world s)), s)"
  "write_status status_env regs58 0 v s =
     (Inr (), s\<lparr>trace := trace s @ [MmioWrite 1 0x1014 (ucast v)], world := ucast v\<rparr>)"
  using regs58_range [of 20 1]
  by (simp_all add: read_status_def write_status_def read8_def write8_def mmio_read_def mmio_write_def
      common_regs bindM_def liftR_def returnM_def external_def emit_def)
    (simp_all add: status_env_def regs58_def)

lemma status_env_words:
  "unat off + 4 \<le> 58 \<Longrightarrow> read32 status_env regs58 off s = (Inr 0xffffffff, s)"
  "unat off + 4 \<le> 58 \<Longrightarrow> write32 status_env regs58 off v s =
     (Inr (), s\<lparr>trace := trace s @ [MmioWrite 4 (0x1000 + off) (ucast v)]\<rparr>)"
  using regs58_range [of off 4]
  by (simp_all add: read32_def write32_def mmio_read_def mmio_write_def
      bindM_def liftR_def returnM_def external_def emit_def)
    (simp_all add: status_env_def regs58_def)

lemma status_env_wait:
  assumes "0 < fuel" and "world s = 0" and "time s + 1 < deadline"
  shows "wait_status_loop fuel status_env regs58 0 0 deadline s = (Inr True, s\<lparr>time := time s + 1\<rparr>)"
proof -
  have now: "now status_env s = (Inr (time s + 1), s\<lparr>time := time s + 1\<rparr>)" for s
    by (simp add: now_def status_env_def)
  from assms show ?thesis
    by (cases fuel) (simp_all add: bindM_def now status_env_status returnM_def)
qed

lemma status_env_reset:
  "\<exists>s'. reset_device status_env regs58 0 s = (Inr (), s')"
proof -
  have now: "now status_env s = (Inr (time s + 1), s\<lparr>time := time s + 1\<rparr>)" for s
    by (simp add: now_def status_env_def)
  show ?thesis
    by (simp add: reset_device_def wait_for_status_def bindM_def now status_env_status status_env_wait
        returnM_def ms_def)
qed

lemma status_env_features:
  "\<exists>s'. read_feature_words status_env regs58 0 VIRTIO_PCI_COMMON_DFSELECT VIRTIO_PCI_COMMON_DF kFeatureWords s =
     (Inr \<lparr>fw_original_select = 0xffffffff, fw_words = [0xffffffff, 0xffffffff, 0xffffffff]\<rparr>, s')"
  by (simp add: read_feature_words_def kFeatureWords_def upt_three bindM_def status_env_words returnM_def
      common_regs)

lemma status_env_guest:
  "length ws = 3 \<Longrightarrow> \<exists>s'. write_guest_feature_words status_env regs58 0 ws s = (Inr (), s')"
  by (simp add: write_guest_feature_words_def upt_three bindM_def status_env_words returnM_def common_regs)

lemma status_env_negotiate:
  assumes "pick [0xffffffff, 0xffffffff, 0xffffffff] = Inr g" and "length g = 3"
  shows "\<exists>s'. negotiate pick status_env regs58 0 s = (Inr g, s')"
proof -
  obtain s1 where 1: "reset_device status_env regs58 0 s = (Inr (), s1)" using status_env_reset by blast
  let ?s2 = "s1\<lparr>trace := trace s1 @ [MmioWrite 1 0x1014 1, MmioWrite 1 0x1014 3], world := 3\<rparr>"
  obtain s3 where 3: "read_feature_words status_env regs58 0 VIRTIO_PCI_COMMON_DFSELECT VIRTIO_PCI_COMMON_DF kFeatureWords ?s2 =
     (Inr \<lparr>fw_original_select = 0xffffffff, fw_words = [0xffffffff, 0xffffffff, 0xffffffff]\<rparr>, s3)"
    using status_env_features by blast
  obtain s4 where 4: "write_guest_feature_words status_env regs58 0 g s3 = (Inr (), s4)"
    using status_env_guest [OF assms(2)] by blast
  show ?thesis
    using 1 3 4 assms(1)
    by (simp add: negotiate_def bindM_def status_env_status status_bits liftR_def returnM_def throw_ifM_def)
qed

lemma status_env_negotiates:
  "returns (negotiate_minimal_features status_env regs58 0 s)"
  "returns (negotiate_ctrl_rx_features status_env regs58 0 s)"
proof -
  have "minimal_guest_features [0xffffffff, 0xffffffff, 0xffffffff] = Inr [0x10020, 3, 0]"
    by code_simp
  from status_env_negotiate [of minimal_guest_features, OF this, of s]
  show "returns (negotiate_minimal_features status_env regs58 0 s)"
    by (auto simp: returns_def negotiate_minimal_features_def)
  have "ctrl_rx_guest_features [0xffffffff, 0xffffffff, 0xffffffff] = Inr [0x70020, 3, 0]"
    by code_simp
  from status_env_negotiate [of ctrl_rx_guest_features, OF this, of s]
  show "returns (negotiate_ctrl_rx_features status_env regs58 0 s)"
    by (auto simp: returns_def negotiate_ctrl_rx_features_def)
qed

theorem negotiate_minimal_correct_witness:
  "\<exists>guest s'. negotiate_minimal_features status_env regs58 0 (start_st [] 7) = (Inr guest, s') \<and>
     feature_is_set guest VIRTIO_F_VERSION_1"
proof -
  obtain g s' where run: "negotiate_minimal_features status_env regs58 0 (start_st [] 7) = (Inr g, s')"
    using status_env_negotiates(1) by (rule returnsE)
  from run negotiate_minimal_correct [OF run] show ?thesis by blast
qed

theorem negotiate_ctrl_features_witness:
  "\<exists>guest s' (fw :: FeatureWords). negotiate_ctrl_rx_features status_env regs58 0 (start_st [] 7) = (Inr guest, s') \<and>
     feature_is_set (fw_words fw) VIRTIO_NET_F_CTRL_VQ"
proof -
  obtain g s' where run: "negotiate_ctrl_rx_features status_env regs58 0 (start_st [] 7) = (Inr g, s')"
    using status_env_negotiates(2) by (rule returnsE)
  from conjunct1 [OF negotiate_ctrl_features [of status_env regs58 0 "start_st [] 7" g s']] run
  obtain fw :: FeatureWords where "feature_is_set (fw_words fw) VIRTIO_NET_F_CTRL_VQ" by blast
  with run show ?thesis by blast
qed

section \<open>Waiting for a status\<close>

lemma mmio_read_time: "mmio_read env r off n s = (x, s') \<Longrightarrow> time s' = time s"
  by (auto simp: mmio_read_def bindM_def liftR_def external_def split: sum.splits prod.splits)

lemma read_status_run:
  assumes "read_status env r d s = (x, s')"
  shows "time s' = time s" and "x \<noteq> Inl OutOfFuel"
proof -
  let ?off = "d + VIRTIO_PCI_COMMON_STATUS"
  show "time s' = time s"
    using assms by (auto simp: read_status_def read8_def bindM_def returnM_def
        split: sum.splits prod.splits dest: mmio_read_time)
  show "x \<noteq> Inl OutOfFuel"
    using assms by (auto simp: read_status_def read8_def mmio_read_def bindM_def returnM_def liftR_def
        check_range_def external_def split: sum.splits prod.splits if_splits)
qed

lemma wait_status_loop_fuel:
  "deadline \<le> time s + ms fuel \<Longrightarrow>
     fst (wait_status_loop fuel env r d e deadline s) \<noteq> Inl OutOfFuel"
proof (induction fuel arbitrary: s)
  case 0
  then show ?case
    by (auto simp: bindM_def now_def returnM_def ms_def split: prod.splits)
next
  case (Suc fuel)
  obtain dt w where dt: "env_delay env (world s) = (dt, w)" by fastforce
  let ?s1 = "s\<lparr>time := time s + dt, world := w\<rparr>"
  show ?case
  proof (cases "time s + dt < deadline")
    case False
    then show ?thesis using dt by (simp add: bindM_def now_def returnM_def)
  next
    case True
    obtain x s2 where x: "read_status env r d ?s1 = (x, s2)" by fastforce
    note rs = read_status_run [OF x]
    have next_round: "fst (wait_status_loop fuel env r d e deadline s3) \<noteq> Inl OutOfFuel"
      if "sleep_for env (ms 1) s2 = (Inr (), s3)" for s3
    proof (rule Suc.IH)
      from that have "time s3 \<ge> time s2 + ms 1" by (auto simp: sleep_for_def split: prod.splits)
      with rs(1) Suc.prems show "deadline \<le> time s3 + ms fuel" by (simp add: ms_def)
    qed
    obtain s3 where s3: "sleep_for env (ms 1) s2 = (Inr (), s3)"
      by (cases "env_delay env (world s2)") (simp add: sleep_for_def)
    from rs(2) True dt x s3 next_round [OF s3] show ?thesis
      by (cases x) (simp_all add: bindM_def now_def returnM_def)
  qed
qed

text \<open>
  The wait for a device status ends: \<open>wait_for_status\<close> needs no more rounds than its timeout has
  milliseconds, whatever the clock and the device do, so it either sees the status it waits for or
  throws.
\<close>

theorem wait_for_status_ends:
  "fst (wait_for_status env r d e timeout_ms s) \<noteq> Inl OutOfFuel"
proof -
  obtain dt w where dt: "env_delay env (world s) = (dt, w)" by fastforce
  let ?s1 = "s\<lparr>time := time s + dt, world := w\<rparr>"
  obtain x s2 where x: "wait_status_loop timeout_ms env r d e (time s + dt + ms timeout_ms) ?s1 = (x, s2)"
    by fastforce
  have "x \<noteq> Inl OutOfFuel"
    using wait_status_loop_fuel [of "time s + dt + ms timeout_ms" ?s1 timeout_ms env r d e] x by simp
  moreover obtain y s3 where y: "read_status env r d s2 = (y, s3)" by fastforce
  ultimately show ?thesis
    using dt x y read_status_run(2) [OF y]
    by (auto simp: wait_for_status_def bindM_def now_def returnM_def throwM_def split: sum.splits)
qed

section \<open>Programming a queue\<close>

text \<open>The two halves of a 64-bit register are its value.\<close>

lemma halves_join:
  "ucast (ucast ((v :: u64) AND 0xffffffff) :: u32) OR push_bit 32 (ucast (ucast (drop_bit 32 v) :: u32)) = v"
proof -
  have m: "(0xffffffff :: u64) = mask 32" by (simp add: mask_eq_exp_minus_1)
  show ?thesis unfolding m
    by (rule bit_word_eqI) (auto simp: bit_simps)
qed

lemma emits_write_common_u64 [emit_rules]:
  "emits (write_common_u64 env r d lo hi v)
    [MmioWrite 4 (mr_offset r + (d + lo)) (ucast (ucast (v AND 0xffffffff) :: u32)),
     MmioWrite 4 (mr_offset r + (d + hi)) (ucast (ucast (drop_bit 32 v) :: u32))]"
  unfolding write_common_u64_def by (rule emits_bindM emit_rules | simp)+

lemma emits_read_common_u64 [emit_rules]: "emits (read_common_u64 env r d lo hi) []"
  unfolding read_common_u64_def by (rule emits_bindM emit_rules | simp)+

lemma emits_read_queue_view [emit_rules]: "emits (read_queue_view env r d) []"
  unfolding read_queue_view_def read_queue_view_with_def if_True by (rule emits_bindM emit_rules | simp)+

text \<open>What a device that stores its registers holds after a list of writes.\<close>

fun reg_after :: "event list \<Rightarrow> u64 \<Rightarrow> u64 option" where
  "reg_after [] off = None"
| "reg_after (e # es) off =
     (case reg_after es off of Some v \<Rightarrow> Some v
      | None \<Rightarrow> (case e of MmioWrite n o' v \<Rightarrow> if o' = off then Some v else None | _ \<Rightarrow> None))"

definition queue_writes :: "MappedRegion \<Rightarrow> u64 \<Rightarrow> u16 \<Rightarrow> VringLayout \<Rightarrow> u64 \<Rightarrow> event list" where
  "queue_writes r d queue l iova =
     (let reg = (\<lambda>n off v. MmioWrite n (mr_offset r + (d + off)) v);
          halves = (\<lambda>lo hi v. [reg 4 lo (ucast (ucast (v AND 0xffffffff) :: u32)),
            reg 4 hi (ucast (ucast (drop_bit 32 v) :: u32))])
      in [reg 2 VIRTIO_PCI_COMMON_Q_SELECT (ucast queue),
          reg 2 VIRTIO_PCI_COMMON_Q_SIZE (ucast (vl_queue_size l))] @
         halves VIRTIO_PCI_COMMON_Q_DESCLO VIRTIO_PCI_COMMON_Q_DESCHI (iova + vl_desc_offset l) @
         halves VIRTIO_PCI_COMMON_Q_AVAILLO VIRTIO_PCI_COMMON_Q_AVAILHI (iova + vl_avail_offset l) @
         halves VIRTIO_PCI_COMMON_Q_USEDLO VIRTIO_PCI_COMMON_Q_USEDHI (iova + vl_used_offset l) @
         [reg 2 VIRTIO_PCI_COMMON_Q_ENABLE 1])"

lemma emits_program_and_enable [emit_rules]:
  "emits (program_and_enable_queue env r d queue l iova label) (queue_writes r d queue l iova)"
  unfolding program_and_enable_queue_def selection_select_def program_queue_addresses_def enable_queue_def
  by (rule emits_bindM emit_rules emits_modifyM | simp add: queue_writes_def Let_def)+

text \<open>
  C31. A queue is enabled last and with its own rings: when \<open>program_and_enable_queue\<close> returns, the
  device has read back \<open>queue_enable\<close> as 1, the writes are the selection, the size, the three
  addresses in halves and only then the enable bit, and a device that stores its registers holds
  the IOVAs of this queue's descriptor table, available ring and used ring.
\<close>

theorem queue_enabled_last:
  assumes "program_and_enable_queue env r d queue l iova label s = (Inr v, s')"
  shows "qv_enable v = 1 \<and> trace s' = trace s @ queue_writes r d queue l iova \<and>
    (\<forall>(lo, hi, off) \<in> {(VIRTIO_PCI_COMMON_Q_DESCLO, VIRTIO_PCI_COMMON_Q_DESCHI, vl_desc_offset l),
        (VIRTIO_PCI_COMMON_Q_AVAILLO, VIRTIO_PCI_COMMON_Q_AVAILHI, vl_avail_offset l),
        (VIRTIO_PCI_COMMON_Q_USEDLO, VIRTIO_PCI_COMMON_Q_USEDHI, vl_used_offset l)}.
      \<exists>a b. reg_after (queue_writes r d queue l iova) (mr_offset r + (d + lo)) = Some a \<and>
        reg_after (queue_writes r d queue l iova) (mr_offset r + (d + hi)) = Some b \<and>
        a OR push_bit 32 b = iova + off)"
proof -
  have "qv_enable v = 1"
    using assms by (auto simp: program_and_enable_queue_def run_iff)
  moreover have "trace s' = trace s @ queue_writes r d queue l iova"
    by (rule emitsD [OF emits_program_and_enable assms])
  ultimately show ?thesis
    by (simp add: queue_writes_def Let_def common_regs halves_join)
qed
text \<open>A device whose registers all read 0 until the queue is enabled.\<close>

definition queue_env :: "bool env" where
  "queue_env =
     \<lparr>env_mmio_read = (\<lambda>n off w. (if w \<and> off = 0x101c then 1 else 0, w)),
      env_mmio_write = (\<lambda>n off v w. w \<or> off = 0x101c),
      env_dma = (\<lambda>m w. (m, w)), env_delay = (\<lambda>w. (1, w)), env_strerror = (\<lambda>n. ''error''),
      env_pread = (\<lambda>off n w. (Inr (replicate n 0), w)), env_pwrite = (\<lambda>off bs w. (Inr (length bs), w)),
      env_mmap = (\<lambda>off sz wr w. (None, w)), env_mmap_anon = (\<lambda>sz w. (None, w)),
      env_map_dma = (\<lambda>iova sz fl w. (None, w)), env_unmap_dma = (\<lambda>iova sz w. (Inr sz, w)),
      env_region_info = (\<lambda>i n w. (Inr (replicate n 0), w)), env_num_irqs = (\<lambda>w. (Inr 5, w)),
      env_irq_info = (\<lambda>i w. (Inr (0, 0), w)), env_set_irqs = (\<lambda>i fl fds w. (None, w)),
      env_disable_irq = (\<lambda>i w. (None, w)),
      env_eventfd = (\<lambda>w. (Inr 3, w)), env_read_eventfd = (\<lambda>fd w. (Inl 11, w)),
      env_poll = (\<lambda>fds t w. (Inr (0, map (\<lambda>_. 0) fds), w)), env_page_size = 4096, env_fuel = 100\<rparr>"

definition ring_layout4 :: VringLayout where
  "ring_layout4 = \<lparr>vl_queue_size = 4, vl_align = 16, vl_desc_offset = 0, vl_desc_size = 64,
     vl_avail_offset = 64, vl_avail_size = 14, vl_used_offset = 80, vl_used_size = 38, vl_total_size = 118\<rparr>"

lemma queue_env_regs:
  "unat off + 2 \<le> 58 \<Longrightarrow> read16 queue_env regs58 off s =
     (Inr (if world s \<and> off = 28 then 1 else 0), s)"
  "unat off + 4 \<le> 58 \<Longrightarrow> read32 queue_env regs58 off s =
     (Inr (if world s \<and> off = 28 then 1 else 0), s)"
  "unat off + 2 \<le> 58 \<Longrightarrow> write16 queue_env regs58 off h s =
     (Inr (), s\<lparr>trace := trace s @ [MmioWrite 2 (0x1000 + off) (ucast h)], world := world s \<or> off = 28\<rparr>)"
  "unat off + 4 \<le> 58 \<Longrightarrow> write32 queue_env regs58 off v s =
     (Inr (), s\<lparr>trace := trace s @ [MmioWrite 4 (0x1000 + off) (ucast v)], world := world s \<or> off = 28\<rparr>)"
proof -
  have "0x1000 + off = 0x1000 + 28 \<longleftrightarrow> off = 28" by (rule add_left_cancel)
  then have eq: "0x1000 + off = 0x101c \<longleftrightarrow> off = 28" by simp
  note defs = mmio_read_def mmio_write_def bindM_def liftR_def returnM_def external_def emit_def
  have q: "env_mmio_read queue_env n off' w = (if w \<and> off' = 0x101c then 1 else 0, w)"
    "env_mmio_write queue_env n off' v' w = (w \<or> off' = 0x101c)" for n off' v' w
    by (simp_all add: queue_env_def)
  have r: "mr_offset regs58 = 0x1000" by (simp add: regs58_def)
  show "unat off + 2 \<le> 58 \<Longrightarrow> read16 queue_env regs58 off s =
     (Inr (if world s \<and> off = 28 then 1 else 0), s)"
    using regs58_range [of off 2] by (simp add: read16_def defs q r eq)
  show "unat off + 4 \<le> 58 \<Longrightarrow> read32 queue_env regs58 off s =
     (Inr (if world s \<and> off = 28 then 1 else 0), s)"
    using regs58_range [of off 4] by (simp add: read32_def defs q r eq)
  show "unat off + 2 \<le> 58 \<Longrightarrow> write16 queue_env regs58 off h s =
     (Inr (), s\<lparr>trace := trace s @ [MmioWrite 2 (0x1000 + off) (ucast h)], world := world s \<or> off = 28\<rparr>)"
    using regs58_range [of off 2] by (simp add: write16_def defs q r eq)
  show "unat off + 4 \<le> 58 \<Longrightarrow> write32 queue_env regs58 off v s =
     (Inr (), s\<lparr>trace := trace s @ [MmioWrite 4 (0x1000 + off) (ucast v)], world := world s \<or> off = 28\<rparr>)"
    using regs58_range [of off 4] by (simp add: write32_def defs q r eq)
qed

lemma queue_env_view:
  "\<exists>v. read_queue_view queue_env regs58 0 s = (Inr v, s) \<and> qv_enable v = (if world s then 1 else 0)"
  by (simp add: read_queue_view_def read_queue_view_with_def read_common_u64_def bindM_def returnM_def queue_env_regs common_regs)

lemma queue_env_address:
  "unat lo + 4 \<le> 28 \<or> 32 \<le> unat lo \<and> unat lo + 4 \<le> 58 \<Longrightarrow>
   unat hi + 4 \<le> 28 \<or> 32 \<le> unat hi \<and> unat hi + 4 \<le> 58 \<Longrightarrow>
   \<exists>s'. write_common_u64 queue_env regs58 0 lo hi v s = (Inr (), s') \<and> world s' = world s"
  by (auto simp: write_common_u64_def bindM_def queue_env_regs)

lemma queue_env_program:
  "\<exists>s'. program_queue_addresses queue_env regs58 0 l iova s = (Inr (), s') \<and> world s' = world s"
proof -
  let ?w = "\<lambda>lo hi v s. write_common_u64 queue_env regs58 0 lo hi v s"
  obtain s1 where 1: "write16 queue_env regs58 24 (vl_queue_size l) s = (Inr (), s1)" "world s1 = world s"
    by (simp add: queue_env_regs)
  obtain s2 where 2: "?w 32 36 (iova + vl_desc_offset l) s1 = (Inr (), s2)" "world s2 = world s1"
    using queue_env_address [of 32 36 _ s1] by auto
  obtain s3 where 3: "?w 40 44 (iova + vl_avail_offset l) s2 = (Inr (), s3)" "world s3 = world s2"
    using queue_env_address [of 40 44 _ s2] by auto
  obtain s4 where 4: "?w 48 52 (iova + vl_used_offset l) s3 = (Inr (), s4)" "world s4 = world s3"
    using queue_env_address [of 48 52 _ s3] by auto
  from 1 2 3 4 show ?thesis
    by (simp add: program_queue_addresses_def bindM_def common_regs)
qed

lemma queue_env_programs:
  assumes "\<not> world s"
  shows "returns (program_and_enable_queue queue_env regs58 0 q l iova label s)"
proof -
  obtain s1 where 1: "selection_select queue_env regs58 0 q s = (Inr (), s1)" "\<not> world s1"
    using assms by (simp add: selection_select_def bindM_def modifyM_def queue_env_regs common_regs)
  obtain v1 where v1: "read_queue_view queue_env regs58 0 s1 = (Inr v1, s1)" "qv_enable v1 = 0"
    using queue_env_view [of s1] 1 by auto
  obtain s2 where 2: "program_queue_addresses queue_env regs58 0 l iova s1 = (Inr (), s2)"
    using queue_env_program by blast
  obtain v2 where v2: "read_queue_view queue_env regs58 0 s2 = (Inr v2, s2)"
    using queue_env_view by blast
  obtain s3 where 3: "enable_queue queue_env regs58 0 s2 = (Inr (), s3)" "world s3"
    by (simp add: enable_queue_def queue_env_regs common_regs)
  obtain v3 where v3: "read_queue_view queue_env regs58 0 s3 = (Inr v3, s3)" "qv_enable v3 = 1"
    using queue_env_view [of s3] 3 by auto
  from 1 v1 2 v2 3 v3 show ?thesis
    by (simp add: program_and_enable_queue_def returns_def bindM_def throw_ifM_def returnM_def)
qed

theorem queue_enabled_last_witness:
  "\<exists>v s'. program_and_enable_queue queue_env regs58 0 1 ring_layout4 0x100000000 ''TX queue''
      (start_st [] False) = (Inr v, s') \<and> qv_enable v = 1"
proof -
  obtain v s' where run: "program_and_enable_queue queue_env regs58 0 1 ring_layout4 0x100000000 ''TX queue''
      (start_st [] False) = (Inr v, s')"
    by (rule returnsE [OF queue_env_programs]) (auto simp: start_st_def)
  from run queue_enabled_last [OF run] show ?thesis by blast
qed

end
