(* ===== verification/EchoLoop.thy ===== *)
theory EchoLoop
  imports RxScan Transport
begin

text \<open>
  The polling echo loop of \<open>userspace_drivers/25_virtio_net_echo_loop.cpp\<close>: the pool of TX
  descriptors (\<open>TxSlot\<close>, \<open>consume_tx_completions\<close>, \<open>find_free_tx_slot\<close>), the treatment of one received
  packet, the bounded loop and the final wait for completions. The lemmas show that the loop stays
  inside its DMA buffer whatever the device does, that it never uses a TX descriptor that is still
  in flight, that it never echoes more than \<open>max-packets\<close> packets, and that it ends.
\<close>

section \<open>The pool of TX descriptors\<close>

text \<open>\<open>tx_slots[i].in_flight\<close>, as a list of booleans, with the two counters of the completions.\<close>

record TxPool =
  tp_last_used_idx :: u16
  tp_slots :: "bool list"
  tp_completed :: u32

primrec completion_loop ::
  "'w env \<Rightarrow> nat \<Rightarrow> VringLayout \<Rightarrow> nat list \<Rightarrow> TxPool \<Rightarrow> ('w st, TxPool) M" where
  "completion_loop env tx_queue_base tx_layout [] pool = returnM pool"
| "completion_loop env tx_queue_base tx_layout (i # is) pool =
     (let slot = used_slot_of tx_layout (tp_last_used_idx pool) i
      in bindM (used_elem_id env tx_queue_base tx_layout (unat slot)) (\<lambda>did.
         bindM (used_elem_len env tx_queue_base tx_layout (unat slot)) (\<lambda>len.
         if unat did \<ge> length (tp_slots pool)
         then completion_loop env tx_queue_base tx_layout is pool
         else completion_loop env tx_queue_base tx_layout is
           (pool\<lparr>tp_slots := (tp_slots pool)[unat did := False], tp_completed := tp_completed pool + 1\<rparr>))))"

text \<open>The result says whether there was a new entry, as in exercise 26; exercise 25 drops it.\<close>

definition consume_tx_completions ::
  "'w env \<Rightarrow> nat \<Rightarrow> VringLayout \<Rightarrow> TxPool \<Rightarrow> ('w st, bool \<times> TxPool) M" where
  "consume_tx_completions env tx_queue_base tx_layout pool =
     bindM (read_used_idx env tx_queue_base tx_layout) (\<lambda>current.
     let count = used_delta (tp_last_used_idx pool) current
     in if count = 0 then returnM (False, pool)
        else bindM (completion_loop env tx_queue_base tx_layout [0..<unat count] pool) (\<lambda>pool'.
          returnM (True, pool'\<lparr>tp_last_used_idx := current\<rparr>)))"

fun first_free :: "nat \<Rightarrow> bool list \<Rightarrow> nat option" where
  "first_free i [] = None"
| "first_free i (in_flight # slots) = (if \<not> in_flight then Some i else first_free (Suc i) slots)"

definition find_free_tx_slot :: "bool list \<Rightarrow> u16 option" where
  "find_free_tx_slot tx_slots = map_option of_nat (first_free 0 tx_slots)"

section \<open>Options and the fixed parts of a run\<close>

record EchoOptions =
  eo_rx_queue :: u16
  eo_tx_queue :: u16
  eo_queue_size :: "u16 option"
  eo_iova :: u64
  eo_align :: u64
  eo_rx_buffers :: u16
  eo_tx_buffers :: u16
  eo_rx_buffer_size :: u64
  eo_run_ms :: u32
  eo_max_packets :: u32
  eo_dump_bytes :: u64
  eo_src_mac :: "u8 list option"
  eo_match_ethertype :: "u16 option"
  eo_dump_every_packet :: bool
  eo_yes :: bool

text \<open>The local variables of \<open>run_echo_loop\<close> that the loop reads.\<close>

record EchoCtx =
  ec_layout :: DmaLayout
  ec_tx_buffers_iova :: u64
  ec_reply_src_mac :: "u8 list"
  ec_rx_notify :: NotifyWindow
  ec_rx_notify_value :: u16
  ec_tx_notify :: NotifyWindow
  ec_tx_notify_value :: u16

definition rx_base :: "EchoCtx \<Rightarrow> nat" where
  "rx_base c = unat (dl_rx_vring_offset (ec_layout c))"

definition tx_base :: "EchoCtx \<Rightarrow> nat" where
  "tx_base c = unat (dl_tx_vring_offset (ec_layout c))"

text \<open>The ones it changes.\<close>

record EchoState =
  es_last_rx_used_idx :: u16
  es_pool :: TxPool
  es_received_rx :: u32
  es_echoed_tx :: u32
  es_skipped_rx :: u32

definition notify_rx :: "'w env \<Rightarrow> EchoCtx \<Rightarrow> ('w st, unit) M" where
  "notify_rx env c =
     write_notify env (nw_mapping (ec_rx_notify c)) (nw_delta (ec_rx_notify c)) (ec_rx_notify_value c)"

definition notify_tx :: "'w env \<Rightarrow> EchoCtx \<Rightarrow> ('w st, unit) M" where
  "notify_tx env c =
     write_notify env (nw_mapping (ec_tx_notify c)) (nw_delta (ec_tx_notify c)) (ec_tx_notify_value c)"

text \<open>\<open>recycle_rx_buffer\<close> for descriptor \<open>did\<close> and the notification of the RX queue.\<close>

definition recycle_and_notify :: "'w env \<Rightarrow> EchoCtx \<Rightarrow> u32 \<Rightarrow> ('w st, unit) M" where
  "recycle_and_notify env c did =
     thenM (recycle_rx_buffer env (rx_base c) (dl_rx_vring (ec_layout c)) (ucast did)) (notify_rx env c)"

section \<open>One received packet\<close>

text \<open>
  The loop that waits for a free TX descriptor; one unit of fuel is one round, which sleeps for a
  millisecond.
\<close>

primrec wait_tx_slot ::
  "nat \<Rightarrow> 'w env \<Rightarrow> EchoCtx \<Rightarrow> nat \<Rightarrow> u16 option \<Rightarrow> TxPool \<Rightarrow> ('w st, u16 option \<times> TxPool) M" where
  "wait_tx_slot 0 env c deadline tx_slot pool =
     (if tx_slot \<noteq> None then returnM (tx_slot, pool)
      else bindM (now env) (\<lambda>t. if t < deadline then throwM OutOfFuel else returnM (tx_slot, pool)))"
| "wait_tx_slot (Suc fuel) env c deadline tx_slot pool =
     (if tx_slot \<noteq> None then returnM (tx_slot, pool)
      else bindM (now env) (\<lambda>t.
        if t < deadline
        then bindM (consume_tx_completions env (tx_base c) (dl_tx_vring (ec_layout c)) pool) (\<lambda>(_, pool').
             let tx_slot' = find_free_tx_slot (tp_slots pool')
             in if tx_slot' = None
                then thenM (sleep_for env (ms 1)) (wait_tx_slot fuel env c deadline tx_slot' pool')
                else wait_tx_slot fuel env c deadline tx_slot' pool')
        else returnM (tx_slot, pool)))"

text \<open>The reply to packet \<open>p\<close> in TX descriptor \<open>k\<close>, up to and including the notifications.\<close>

definition send_reply ::
  "'w env \<Rightarrow> EchoCtx \<Rightarrow> ReceivedPacket \<Rightarrow> u16 \<Rightarrow> EchoState \<Rightarrow> ('w st, EchoState) M" where
  "send_reply env c p k st =
     (let layout = ec_layout c;
          tx_packet = unat (dl_tx_buffers_offset layout) + unat (ucast k * dl_tx_buffer_size layout :: u64);
          tx_packet_iova = ec_tx_buffers_iova c + ucast k * dl_tx_buffer_size layout
      in thenM (mac_from_bytes (rp_buffer p + 12 + 6))
        (bindM (build_tx_reply_from_rx tx_packet (dl_tx_buffer_size layout) (rp_buffer p)
                  (ucast (rp_used_len p)) (ec_reply_src_mac c)) (\<lambda>tx_used_len.
         thenM (publish_tx_packet env (tx_base c) (dl_tx_vring layout) k tx_packet_iova tx_used_len)
        (let st' = st\<lparr>es_pool := (es_pool st)\<lparr>tp_slots := (tp_slots (es_pool st))[unat k := True]\<rparr>,
                      es_echoed_tx := es_echoed_tx st + 1\<rparr>
         in thenM (notify_tx env c)
           (thenM (recycle_and_notify env c (rp_desc_id p))
                  (returnM st'))))))"

text \<open>
  The body of the loop over the new used entries, for entry \<open>i\<close>; the flag of the result is true when
  the body ends with \<open>break\<close>.
\<close>

definition echo_entry ::
  "'w env \<Rightarrow> EchoOptions \<Rightarrow> EchoCtx \<Rightarrow> nat \<Rightarrow> nat \<Rightarrow> EchoState \<Rightarrow> ('w st, bool \<times> EchoState) M" where
  "echo_entry env opt c deadline i st =
     (let used_slot = used_slot_of (dl_rx_vring (ec_layout c)) (es_last_rx_used_idx st) i
      in bindM (read_rx_used_packet env (rx_base c) (ec_layout c) used_slot (eo_rx_buffers opt)
                  (eo_rx_buffer_size opt) (eo_match_ethertype opt)) (\<lambda>received.
         case received of
           None \<Rightarrow>
             bindM (used_elem_id env (rx_base c) (dl_rx_vring (ec_layout c)) (unat used_slot)) (\<lambda>did.
             thenM (if did < ucast (eo_rx_buffers opt) then recycle_and_notify env c did else returnM ())
                   (returnM (False, st\<lparr>es_skipped_rx := es_skipped_rx st + 1\<rparr>)))
         | Some p \<Rightarrow>
             let st1 = st\<lparr>es_received_rx := es_received_rx st + 1\<rparr>
             in bindM (wait_tx_slot (unat (eo_run_ms opt) + 1) env c deadline
                         (find_free_tx_slot (tp_slots (es_pool st1))) (es_pool st1)) (\<lambda>(tx_slot, pool).
                let st2 = st1\<lparr>es_pool := pool\<rparr>
                in case tx_slot of
                     None \<Rightarrow> thenM (recycle_and_notify env c (rp_desc_id p)) (returnM (True, st2))
                   | Some k \<Rightarrow>
                       bindM (send_reply env c p k st2) (\<lambda>st3.
                       returnM (es_echoed_tx st3 \<ge> eo_max_packets opt, st3)))))"

primrec echo_entries ::
  "'w env \<Rightarrow> EchoOptions \<Rightarrow> EchoCtx \<Rightarrow> nat \<Rightarrow> nat list \<Rightarrow> EchoState \<Rightarrow> ('w st, EchoState) M" where
  "echo_entries env opt c deadline [] st = returnM st"
| "echo_entries env opt c deadline (i # is) st =
     bindM (echo_entry env opt c deadline i st) (\<lambda>(brk, st').
     if brk then returnM st' else echo_entries env opt c deadline is st')"

section \<open>The loops\<close>

text \<open>One round of the main loop.\<close>

definition echo_round ::
  "'w env \<Rightarrow> EchoOptions \<Rightarrow> EchoCtx \<Rightarrow> nat \<Rightarrow> EchoState \<Rightarrow> ('w st, EchoState) M" where
  "echo_round env opt c deadline st =
     bindM (consume_tx_completions env (tx_base c) (dl_tx_vring (ec_layout c)) (es_pool st)) (\<lambda>(_, pool).
     let st1 = st\<lparr>es_pool := pool\<rparr>
     in bindM (read_used_idx env (rx_base c) (dl_rx_vring (ec_layout c))) (\<lambda>current_rx_used.
        let rx_count = used_delta (es_last_rx_used_idx st1) current_rx_used;
            made_progress = (rx_count \<noteq> 0)
        in bindM (echo_entries env opt c deadline [0..<unat rx_count] st1) (\<lambda>st2.
           let st3 = st2\<lparr>es_last_rx_used_idx := current_rx_used\<rparr>
           in thenM (if \<not> made_progress then sleep_for env (ms 10) else returnM ()) (returnM st3))))"

text \<open>
  The main loop. \<open>echoed_tx < max_packets\<close> is tested first, then \<open>run_ms == 0\<close>, then the clock; one
  unit of fuel is one round.
\<close>

primrec echo_loop ::
  "nat \<Rightarrow> 'w env \<Rightarrow> EchoOptions \<Rightarrow> EchoCtx \<Rightarrow> nat \<Rightarrow> EchoState \<Rightarrow> ('w st, EchoState) M" where
  "echo_loop 0 env opt c deadline st = throwM OutOfFuel"
| "echo_loop (Suc fuel) env opt c deadline st =
     (if \<not> es_echoed_tx st < eo_max_packets opt then returnM st
      else bindM (if eo_run_ms opt = 0 then returnM True
                  else bindM (now env) (\<lambda>t. returnM (t < deadline))) (\<lambda>go.
        if go
        then bindM (echo_round env opt c deadline st) (echo_loop fuel env opt c deadline)
        else returnM st))"

text \<open>The wait for the last completions, at most a second; one unit of fuel is one round.\<close>

primrec drain_loop ::
  "nat \<Rightarrow> 'w env \<Rightarrow> EchoCtx \<Rightarrow> nat \<Rightarrow> EchoState \<Rightarrow> ('w st, EchoState) M" where
  "drain_loop 0 env c tx_deadline st = throwM OutOfFuel"
| "drain_loop (Suc fuel) env c tx_deadline st =
     (if \<not> tp_completed (es_pool st) < es_echoed_tx st then returnM st
      else bindM (now env) (\<lambda>t.
        if t < tx_deadline
        then bindM (consume_tx_completions env (tx_base c) (dl_tx_vring (ec_layout c)) (es_pool st)) (\<lambda>(_, pool).
             let st' = st\<lparr>es_pool := pool\<rparr>
             in thenM (if tp_completed pool < es_echoed_tx st' then sleep_for env (ms 10) else returnM ())
                      (drain_loop fuel env c tx_deadline st'))
        else returnM st))"

text \<open>
  From the declaration of \<open>tx_slots\<close> to the end of the wait. The loop has \<open>fuel\<close> rounds and the wait
  needs no more than 102.
\<close>

definition initial_pool :: "u16 \<Rightarrow> u16 \<Rightarrow> TxPool" where
  "initial_pool tx_buffers last_used =
     \<lparr>tp_last_used_idx = last_used, tp_slots = replicate (unat tx_buffers) False, tp_completed = 0\<rparr>"

definition run_loops ::
  "nat \<Rightarrow> 'w env \<Rightarrow> EchoOptions \<Rightarrow> EchoCtx \<Rightarrow> EchoState \<Rightarrow> ('w st, EchoState) M" where
  "run_loops fuel env opt c st =
     bindM (now env) (\<lambda>t.
     bindM (echo_loop fuel env opt c (t + ms (unat (eo_run_ms opt))) st) (\<lambda>st1.
     bindM (now env) (\<lambda>t'.
     drain_loop 102 env c (t' + ms 1000) st1)))"

section \<open>The pool\<close>

lemma first_free_Some:
  "first_free i slots = Some k \<Longrightarrow>
     i \<le> k \<and> k - i < length slots \<and> \<not> slots ! (k - i) \<and> (\<forall>j<k - i. slots ! j)"
proof (induction i slots rule: first_free.induct)
  case (2 i b slots)
  show ?case
  proof (cases b)
    case True
    with 2 have "Suc i \<le> k" "k - Suc i < length slots" "\<not> slots ! (k - Suc i)" "\<forall>j<k - Suc i. slots ! j"
      by simp_all
    moreover from this obtain m where m: "k = Suc i + m" by (auto simp: le_iff_add)
    ultimately show ?thesis using True by (auto simp: nth_Cons split: nat.splits)
  qed (use 2 in simp)
qed simp

lemma first_free_None: "first_free i slots = None \<longleftrightarrow> (\<forall>b \<in> set slots. b)"
  by (induction i slots rule: first_free.induct) auto

text \<open>
  \<open>find_free_tx_slot\<close> gives the first descriptor that is not in flight, and none exactly when all
  are.
\<close>

theorem find_free_tx_slot_correct:
  assumes "length slots < 65536"
  shows "case find_free_tx_slot slots of
      Some k \<Rightarrow> unat k < length slots \<and> \<not> slots ! unat k \<and> (\<forall>j<unat k. slots ! j)
    | None \<Rightarrow> \<forall>b \<in> set slots. b"
proof (cases "first_free 0 slots")
  case None
  with first_free_None [of 0 slots] show ?thesis by (simp add: find_free_tx_slot_def)
next
  case (Some k)
  with first_free_Some [OF Some] assms show ?thesis
    by (simp add: find_free_tx_slot_def unat_of_nat)
qed

theorem find_free_tx_slot_correct_witness:
  "find_free_tx_slot [True, True, False, False] = Some 2 \<and> \<not> [True, True, False, False] ! 2"
  using find_free_tx_slot_correct [of "[True, True, False, False]"]
  by (simp add: find_free_tx_slot_def)

lemma find_free_Some:
  assumes "length slots < 65536" and "find_free_tx_slot slots = Some k"
  shows "unat k < length slots" and "\<not> slots ! unat k"
proof -
  from assms(2) obtain i where i: "first_free 0 slots = Some i" "k = of_nat i"
    by (auto simp: find_free_tx_slot_def)
  with first_free_Some [OF i(1)] assms(1) show "unat k < length slots" and "\<not> slots ! unat k"
    by (simp_all add: unat_of_nat)
qed

section \<open>The loop stays inside the DMA buffer\<close>

definition echo_ctx_ok :: "EchoOptions \<Rightarrow> EchoCtx \<Rightarrow> nat \<Rightarrow> bool" where
  "echo_ctx_ok opt c n \<longleftrightarrow>
     dma_area (ec_layout c) (eo_rx_buffers opt) (eo_rx_buffer_size opt) n \<and>
     unat (dl_tx_buffers_offset (ec_layout c)) +
       unat (eo_tx_buffers opt) * unat (dl_tx_buffer_size (ec_layout c)) \<le> n \<and>
     unat (eo_tx_buffers opt) \<le> unat (vl_queue_size (dl_tx_vring (ec_layout c))) \<and>
     length (ec_reply_src_mac c) = 6"

lemma echo_ctx_queues:
  assumes "echo_ctx_ok opt c n"
  shows "queue_at (rx_base c) (dl_rx_vring (ec_layout c)) n"
    and "queue_at (tx_base c) (dl_tx_vring (ec_layout c)) n"
    and "dma_area (ec_layout c) (eo_rx_buffers opt) (eo_rx_buffer_size opt) n"
  using assms by (simp_all add: echo_ctx_ok_def dma_area_def rx_base_def tx_base_def)

abbreviation pool_like :: "nat \<Rightarrow> TxPool \<Rightarrow> bool" where
  "pool_like k pool \<equiv> length (tp_slots pool) = k"

lemma completion_loop_yields:
  assumes env: "env_ok env" and q: "queue_at b l n"
  shows "yields n (completion_loop env b l is pool) (pool_like (length (tp_slots pool)))"
proof (induction "is" arbitrary: pool)
  case (Cons i "is")
  have next_round: "yields n (completion_loop env b l is pool') (pool_like (length (tp_slots pool)))"
    if "length (tp_slots pool') = length (tp_slots pool)" for pool'
    using Cons.IH [of pool'] that by simp
  show ?case
    unfolding completion_loop.simps Let_def
    by (intro yields_bind_safe safe_used_elem [OF env q used_slot_in_ring [OF q]] yields_if next_round) simp_all
qed (simp add: yields_returnM)

lemma consume_yields:
  assumes env: "env_ok env" and q: "queue_at b l n" and "length (tp_slots pool) = k"
  shows "yields n (consume_tx_completions env b l pool) (\<lambda>(_, pool'). pool_like k pool')"
  unfolding consume_tx_completions_def Let_def
  by (intro yields_bind_safe [OF safe_read_used_idx [OF env q]] yields_if
      yields_bindM [OF completion_loop_yields [OF env q]] yields_returnM)
    (simp_all add: assms(3))

lemma yields_case_prod:
  "(\<And>x y. p = (x, y) \<Longrightarrow> yields n (f x y) Q) \<Longrightarrow> yields n (case p of (x, y) \<Rightarrow> f x y) Q"
  by (cases p) simp

lemma yields_throwM: "\<not> is_ub e \<Longrightarrow> yields n (throwM e) Q"
  by (simp add: yields_def hoare_def throwM_def)

text \<open>The slot that the wait gives is one that is not in flight.\<close>

abbreviation slot_given :: "nat \<Rightarrow> u16 option \<times> TxPool \<Rightarrow> bool" where
  "slot_given k r \<equiv> pool_like k (snd r) \<and>
     (\<forall>i. fst r = Some i \<longrightarrow> unat i < k \<and> \<not> tp_slots (snd r) ! unat i)"

lemma wait_tx_slot_yields:
  assumes env: "env_ok env" and ok: "echo_ctx_ok opt c n" and k: "k < 65536"
  shows "slot_given k (slot, pool) \<Longrightarrow> yields n (wait_tx_slot fuel env c dl slot pool) (slot_given k)"
proof (induction fuel arbitrary: slot pool)
  case 0
  then show ?case
    unfolding wait_tx_slot.simps
    by (intro yields_if yields_returnM yields_bind_safe [OF safe_now] yields_throwM) simp_all
next
  case (Suc fuel)
  from Suc.prems have len: "length (tp_slots pool) = k" by simp
  have found: "slot_given k (find_free_tx_slot (tp_slots p), p)" if "pool_like k p" for p
    using find_free_Some [of "tp_slots p"] that k by auto
  show ?case
    unfolding wait_tx_slot.simps Let_def
    by (intro yields_if yields_returnM yields_bind_safe [OF safe_now] yields_case_prod
        yields_bindM [OF consume_yields [OF env echo_ctx_queues(2) [OF ok] len]]
        yields_bind_safe [OF safe_sleep_for] Suc.IH found Suc.prems) auto
qed

lemma tx_buffer_bound:
  fixes k :: u16
  assumes "echo_ctx_ok opt c n" and "unat k < unat (eo_tx_buffers opt)"
  shows "unat (dl_tx_buffers_offset (ec_layout c)) + unat (ucast k * dl_tx_buffer_size (ec_layout c) :: u64) +
    unat (dl_tx_buffer_size (ec_layout c)) \<le> n"
proof -
  let ?sz = "unat (dl_tx_buffer_size (ec_layout c))"
  from assms(2) have "unat k * ?sz + ?sz \<le> unat (eo_tx_buffers opt) * ?sz"
    by (metis Suc_leI add.commute mult_Suc mult_le_mono1)
  moreover from assms(1) have "unat (dl_tx_buffers_offset (ec_layout c)) + unat (eo_tx_buffers opt) * ?sz \<le> n"
    "n < 2 ^ 64" by (simp_all add: echo_ctx_ok_def dma_area_def)
  ultimately show ?thesis by (subst unat_mult_small) simp_all
qed

lemma safe_notify: "safe (buffer_size n) (notify_rx env c)" "safe (buffer_size n) (notify_tx env c)"
  by (simp_all add: notify_rx_def notify_tx_def write_notify_def safe_rules)

lemma safe_recycle_and_notify:
  "env_ok env \<Longrightarrow> echo_ctx_ok opt c n \<Longrightarrow> safe (buffer_size n) (recycle_and_notify env c did)"
  unfolding recycle_and_notify_def
  by (intro safe_bindM safe_recycle_rx_buffer safe_notify) (auto dest: echo_ctx_queues)

abbreviation echo_state_ok :: "EchoOptions \<Rightarrow> EchoState \<Rightarrow> bool" where
  "echo_state_ok opt st \<equiv> length (tp_slots (es_pool st)) = unat (eo_tx_buffers opt)"

lemma send_reply_yields:
  assumes env: "env_ok env" and ok: "echo_ctx_ok opt c n"
    and p: "packet_ok (ec_layout c) (eo_rx_buffers opt) (eo_rx_buffer_size opt) mt p"
    and k: "unat k < unat (eo_tx_buffers opt)" and st: "echo_state_ok opt st"
  shows "yields n (send_reply env c p k st)
    (\<lambda>st'. echo_state_ok opt st' \<and> es_echoed_tx st' = es_echoed_tx st + 1)"
proof -
  note q = echo_ctx_queues [OF ok]
  from p have len: "26 \<le> unat (rp_used_len p)" and rx: "rp_buffer p + unat (rp_used_len p) \<le> n"
    using rx_buffer_at_bound [OF q(3), of "rp_desc_id p"] by (simp_all add: packet_ok_def)
  from k ok have kq: "unat k < unat (vl_queue_size (dl_tx_vring (ec_layout c)))"
    by (simp add: echo_ctx_ok_def)
  from ok have mac: "length (ec_reply_src_mac c) = 6" by (simp add: echo_ctx_ok_def)
  have m: "safe (buffer_size n) (mac_from_bytes (rp_buffer p + 12 + 6))"
    unfolding mac_from_bytes_def using len rx by (intro safe_load) simp
  show ?thesis
    unfolding send_reply_def Let_def
    by (intro yields_bind_safe m safe_build_tx_reply tx_buffer_bound [OF ok k] mac
        safe_publish_tx_packet [OF env q(2) kq] safe_notify safe_recycle_and_notify [OF env ok] yields_returnM)
      (use rx st in simp_all)
qed

text \<open>What the body of the loop over the used entries leaves behind.\<close>

abbreviation entry_done :: "EchoOptions \<Rightarrow> bool \<times> EchoState \<Rightarrow> bool" where
  "entry_done opt r \<equiv> (case r of (brk, st') \<Rightarrow> echo_state_ok opt st' \<and>
     es_echoed_tx st' \<le> eo_max_packets opt \<and> (\<not> brk \<longrightarrow> es_echoed_tx st' < eo_max_packets opt))"

text \<open>A packet that is skipped, and the end of one that is answered.\<close>

lemma skip_entry_yields:
  assumes env: "env_ok env" and ok: "echo_ctx_ok opt c n" and st: "echo_state_ok opt st"
    and less: "es_echoed_tx st < eo_max_packets opt"
  shows "yields n (bindM (used_elem_id env (rx_base c) (dl_rx_vring (ec_layout c))
      (unat (used_slot_of (dl_rx_vring (ec_layout c)) last_idx i))) (\<lambda>did.
      thenM (if did < ucast (eo_rx_buffers opt) then recycle_and_notify env c did else returnM ())
        (returnM (False, st\<lparr>es_skipped_rx := es_skipped_rx st + 1\<rparr>)))) (entry_done opt)"
  by (intro yields_bind_safe [OF safe_used_elem(1) [OF env echo_ctx_queues(1) [OF ok]
        used_slot_in_ring [OF echo_ctx_queues(1) [OF ok]]]] yields_bind_safe
      safe_if safe_recycle_and_notify [OF env ok] safe_returnM yields_returnM)
    (use st less in simp_all)

lemma reply_entry_yields:
  assumes env: "env_ok env" and ok: "echo_ctx_ok opt c n"
    and p: "packet_ok (ec_layout c) (eo_rx_buffers opt) (eo_rx_buffer_size opt) mt p"
    and j: "unat j < unat (eo_tx_buffers opt)" and st: "echo_state_ok opt st"
    and less: "es_echoed_tx st < eo_max_packets opt"
  shows "yields n (bindM (send_reply env c p j st) (\<lambda>st3.
      returnM (es_echoed_tx st3 \<ge> eo_max_packets opt, st3))) (entry_done opt)"
proof (rule yields_bindM [OF send_reply_yields [OF env ok p j st]], rule yields_returnM)
  fix st3
  assume "echo_state_ok opt st3 \<and> es_echoed_tx st3 = es_echoed_tx st + 1"
  moreover have "es_echoed_tx st + 1 \<le> eo_max_packets opt" using less by (metis inc_le)
  ultimately show "entry_done opt (es_echoed_tx st3 \<ge> eo_max_packets opt, st3)"
    by (auto simp: linorder_not_le)
qed

lemma echo_entry_yields:
  assumes env: "env_ok env" and ok: "echo_ctx_ok opt c n" and st: "echo_state_ok opt st"
    and less: "es_echoed_tx st < eo_max_packets opt"
  shows "yields n (echo_entry env opt c dl i st) (entry_done opt)"
proof -
  note q = echo_ctx_queues [OF ok]
  let ?Q = "entry_done opt"
  let ?slot = "used_slot_of (dl_rx_vring (ec_layout c)) (es_last_rx_used_idx st) i"
  have k: "unat (eo_tx_buffers opt) < 65536" by (rule unat_u16_lt)
  have found: "slot_given (unat (eo_tx_buffers opt)) (find_free_tx_slot (tp_slots (es_pool st)), es_pool st)"
    using find_free_Some [of "tp_slots (es_pool st)"] st k by auto
  have packet: "yields n (bindM (wait_tx_slot (unat (eo_run_ms opt) + 1) env c dl
        (find_free_tx_slot (tp_slots (es_pool st))) (es_pool st)) (\<lambda>(tx_slot, pool).
      let st2 = st\<lparr>es_received_rx := es_received_rx st + 1, es_pool := pool\<rparr>
      in case tx_slot of
           None \<Rightarrow> thenM (recycle_and_notify env c (rp_desc_id p)) (returnM (True, st2))
         | Some k \<Rightarrow> bindM (send_reply env c p k st2) (\<lambda>st3.
             returnM (es_echoed_tx st3 \<ge> eo_max_packets opt, st3)))) ?Q"
    if "packet_ok (ec_layout c) (eo_rx_buffers opt) (eo_rx_buffer_size opt) (eo_match_ethertype opt) p" for p
  proof (rule yields_bindM [OF wait_tx_slot_yields [OF env ok k found]], rule yields_case_prod)
    fix a slot pool
    assume *: "slot_given (unat (eo_tx_buffers opt)) a" "a = (slot, pool)"
    let ?st2 = "st\<lparr>es_received_rx := es_received_rx st + 1, es_pool := pool\<rparr>"
    show "yields n (let st2 = ?st2 in case slot of
           None \<Rightarrow> thenM (recycle_and_notify env c (rp_desc_id p)) (returnM (True, st2))
         | Some k \<Rightarrow> bindM (send_reply env c p k st2) (\<lambda>st3.
             returnM (es_echoed_tx st3 \<ge> eo_max_packets opt, st3))) ?Q"
    proof (cases slot)
      case None
      with * less show ?thesis
        by (simp add: yields_bind_safe [OF safe_recycle_and_notify [OF env ok]] yields_returnM)
    next
      case (Some j)
      with * have "unat j < unat (eo_tx_buffers opt)" "echo_state_ok opt ?st2" by simp_all
      from reply_entry_yields [OF env ok that this] less Some show ?thesis by simp
    qed
  qed
  show ?thesis
    unfolding echo_entry_def Let_def rx_base_def
  proof (rule yields_bindM [OF read_rx_used_packet_yields [OF env q(3) used_slot_in_ring [OF q(1)]]])
    fix a
    assume a: "option_ok (packet_ok (ec_layout c) (eo_rx_buffers opt) (eo_rx_buffer_size opt) (eo_match_ethertype opt)) a"
    show "yields n (case a of
        None \<Rightarrow> bindM (used_elem_id env (unat (dl_rx_vring_offset (ec_layout c))) (dl_rx_vring (ec_layout c)) (unat ?slot)) (\<lambda>did.
             thenM (if did < ucast (eo_rx_buffers opt) then recycle_and_notify env c did else returnM ())
                   (returnM (False, st\<lparr>es_skipped_rx := es_skipped_rx st + 1\<rparr>)))
      | Some p \<Rightarrow> bindM (wait_tx_slot (unat (eo_run_ms opt) + 1) env c dl
            (find_free_tx_slot (tp_slots (es_pool (st\<lparr>es_received_rx := es_received_rx st + 1\<rparr>))))
            (es_pool (st\<lparr>es_received_rx := es_received_rx st + 1\<rparr>))) (\<lambda>(tx_slot, pool).
          case tx_slot of
             None \<Rightarrow> thenM (recycle_and_notify env c (rp_desc_id p))
               (returnM (True, st\<lparr>es_received_rx := es_received_rx st + 1, es_pool := pool\<rparr>))
           | Some k \<Rightarrow> bindM (send_reply env c p k (st\<lparr>es_received_rx := es_received_rx st + 1, es_pool := pool\<rparr>)) (\<lambda>st3.
               returnM (es_echoed_tx st3 \<ge> eo_max_packets opt, st3)))) ?Q"
    proof (cases a)
      case None
      then show ?thesis using skip_entry_yields [OF env ok st less, of "es_last_rx_used_idx st" i] by (simp add: rx_base_def)
    next
      case (Some p)
      then show ?thesis using packet [of p] a by (simp add: Let_def)
    qed
  qed
qed

lemma echo_entries_yields:
  assumes env: "env_ok env" and ok: "echo_ctx_ok opt c n"
  shows "echo_state_ok opt st \<Longrightarrow> es_echoed_tx st < eo_max_packets opt \<Longrightarrow>
    yields n (echo_entries env opt c dl is st)
      (\<lambda>st'. echo_state_ok opt st' \<and> es_echoed_tx st' \<le> eo_max_packets opt)"
proof (induction "is" arbitrary: st)
  case (Cons i "is")
  show ?case
    unfolding echo_entries.simps
    by (rule yields_bindM [OF echo_entry_yields [OF env ok Cons.prems]])
      (intro yields_case_prod yields_if yields_returnM Cons.IH; simp)
qed (simp add: yields_returnM)

lemma echo_round_yields:
  assumes env: "env_ok env" and ok: "echo_ctx_ok opt c n" and st: "echo_state_ok opt st"
    and less: "es_echoed_tx st < eo_max_packets opt"
  shows "yields n (echo_round env opt c dl st)
    (\<lambda>st'. echo_state_ok opt st' \<and> es_echoed_tx st' \<le> eo_max_packets opt)"
  unfolding echo_round_def Let_def
proof (rule yields_bindM [OF consume_yields [OF env echo_ctx_queues(2) [OF ok] st]], rule yields_case_prod)
  fix a x pool
  assume "case a of (_, pool') \<Rightarrow> pool_like (unat (eo_tx_buffers opt)) pool'" "a = (x :: bool, pool)"
  then have st1: "echo_state_ok opt (st\<lparr>es_pool := pool\<rparr>)" by simp
  have less1: "es_echoed_tx (st\<lparr>es_pool := pool\<rparr>) < eo_max_packets opt" using less by simp
  show "yields n (bindM (read_used_idx env (rx_base c) (dl_rx_vring (ec_layout c))) (\<lambda>current_rx_used.
        bindM (echo_entries env opt c dl [0..<unat (used_delta (es_last_rx_used_idx (st\<lparr>es_pool := pool\<rparr>)) current_rx_used)]
           (st\<lparr>es_pool := pool\<rparr>)) (\<lambda>st2.
        thenM (if \<not> used_delta (es_last_rx_used_idx (st\<lparr>es_pool := pool\<rparr>)) current_rx_used \<noteq> 0
           then sleep_for env (ms 10) else returnM ()) (returnM (st2\<lparr>es_last_rx_used_idx := current_rx_used\<rparr>)))))
    (\<lambda>st'. echo_state_ok opt st' \<and> es_echoed_tx st' \<le> eo_max_packets opt)"
    by (intro yields_bind_safe [OF safe_read_used_idx [OF env echo_ctx_queues(1) [OF ok]]]
        yields_bindM [OF echo_entries_yields [OF env ok st1 less1]] yields_bind_safe safe_if
        safe_sleep_for safe_returnM yields_returnM) simp_all
qed

lemma echo_loop_yields:
  assumes env: "env_ok env" and ok: "echo_ctx_ok opt c n"
  shows "echo_state_ok opt st \<Longrightarrow> es_echoed_tx st \<le> eo_max_packets opt \<Longrightarrow>
    yields n (echo_loop fuel env opt c dl st)
      (\<lambda>st'. echo_state_ok opt st' \<and> es_echoed_tx st' \<le> eo_max_packets opt)"
proof (induction fuel arbitrary: st)
  case 0
  show ?case by (simp add: yields_throwM)
next
  case (Suc fuel)
  show ?case
    unfolding echo_loop.simps
  proof (rule yields_if)
    assume "\<not> es_echoed_tx st < eo_max_packets opt"
    with Suc.prems show "yields n (returnM st)
        (\<lambda>st'. echo_state_ok opt st' \<and> es_echoed_tx st' \<le> eo_max_packets opt)"
      by (simp add: yields_returnM)
  next
    assume "\<not> \<not> es_echoed_tx st < eo_max_packets opt"
    then have less: "es_echoed_tx st < eo_max_packets opt" by simp
    show "yields n (bindM (if eo_run_ms opt = 0 then returnM True
          else bindM (now env) (\<lambda>t. returnM (t < dl))) (\<lambda>go.
        if go then bindM (echo_round env opt c dl st) (echo_loop fuel env opt c dl) else returnM st))
        (\<lambda>st'. echo_state_ok opt st' \<and> es_echoed_tx st' \<le> eo_max_packets opt)"
      by (intro yields_bind_safe safe_if safe_bindM safe_now safe_returnM yields_if yields_returnM
          yields_bindM [OF echo_round_yields [OF env ok Suc.prems(1) less]] Suc.IH)
        (use Suc.prems in simp_all)
  qed
qed

lemma drain_loop_yields:
  assumes env: "env_ok env" and ok: "echo_ctx_ok opt c n"
  shows "echo_state_ok opt st \<and> es_echoed_tx st = e \<Longrightarrow>
    yields n (drain_loop fuel env c dl st) (\<lambda>st'. echo_state_ok opt st' \<and> es_echoed_tx st' = e)"
proof (induction fuel arbitrary: st)
  case 0
  show ?case by (simp add: yields_throwM)
next
  case (Suc fuel)
  from Suc.prems have len: "length (tp_slots (es_pool st)) = unat (eo_tx_buffers opt)" by simp
  show ?case
    unfolding drain_loop.simps Let_def
    by (intro yields_if yields_returnM yields_bind_safe [OF safe_now] yields_case_prod Suc.prems
        yields_bindM [OF consume_yields [OF env echo_ctx_queues(2) [OF ok] len]] yields_bind_safe
        safe_if safe_sleep_for safe_returnM Suc.IH) (use Suc.prems in simp_all)
qed

text \<open>
  The echo loop cannot be driven out of its DMA buffer and does not overrun its bound: for any
  device, which may write anything into the buffer at any time, every load and store of the
  loop and of the final wait stays inside the buffer, the buffer keeps its size, and when they return no
  more than \<open>max-packets\<close> packets have been echoed.
\<close>

theorem echo_loop_safe:
  assumes "env_ok env" and "echo_ctx_ok opt c (length (mem s))"
    and "echo_state_ok opt st" and "es_echoed_tx st \<le> eo_max_packets opt"
    and "run_loops fuel env opt c st s = (r, s')"
  shows "length (mem s') = length (mem s) \<and> (\<forall>e. r = Inl e \<longrightarrow> \<not> is_ub e) \<and>
    (\<forall>st'. r = Inr st' \<longrightarrow> es_echoed_tx st' \<le> eo_max_packets opt)"
proof -
  have "yields (length (mem s)) (run_loops fuel env opt c st) (\<lambda>st'. es_echoed_tx st' \<le> eo_max_packets opt)"
    unfolding run_loops_def
  proof (intro yields_bind_safe [OF safe_now], rule yields_bindM [OF echo_loop_yields [OF assms(1,2,3,4)]],
      rule yields_bind_safe [OF safe_now])
    fix st1 t'
    assume st1: "echo_state_ok opt st1 \<and> es_echoed_tx st1 \<le> eo_max_packets opt"
    then have "echo_state_ok opt st1 \<and> es_echoed_tx st1 = es_echoed_tx st1" by simp
    from drain_loop_yields [OF assms(1,2) this, of 102 "t' + ms 1000"] st1
    show "yields (length (mem s)) (drain_loop 102 env c (t' + ms 1000) st1)
        (\<lambda>st'. es_echoed_tx st' \<le> eo_max_packets opt)"
      unfolding yields_def by (elim hoare_post) simp
  qed
  with assms(5) show ?thesis by (cases r) (auto simp: yields_def hoare_def buffer_size_def)
qed

section \<open>The loops end\<close>

lemma ends_completions [ends_rules]:
  "ends (completion_loop env b l is pool)" "ends (consume_tx_completions env b l pool)"
proof -
  show *: "ends (completion_loop env b l is pool)" for "is" pool
    by (induction "is" arbitrary: pool) (simp_all add: Let_def ends_rules)
  show "ends (consume_tx_completions env b l pool)"
    unfolding consume_tx_completions_def Let_def by (intro ends_rules *)
qed

lemma ends_tx [ends_rules]:
  "ends (store_desc p i a len fl nx)" "ends (publish_tx_packet env b l k iova sz)"
  "ends (recycle_rx_buffer env b l k)" "ends (write_notify env r d h)"
  "ends (mac_from_bytes p)" "ends (build_tx_reply_from_rx p q b' used mac)"
  by (simp_all add: store_desc_def publish_tx_packet_def recycle_rx_buffer_def write_notify_def
      mac_from_bytes_def build_tx_reply_from_rx_def tx_reply_size_for_rx_def Let_def ends_rules ends_liftR)

lemma ends_send [ends_rules]:
  "ends (recycle_and_notify env c k)" "ends (send_reply env c p j st)"
  by (simp_all add: recycle_and_notify_def notify_rx_def notify_tx_def send_reply_def Let_def ends_rules)

lemma wait_tx_slot_ends:
  "deadline \<le> d + fuel * ms 1 \<Longrightarrow> ends_from d (wait_tx_slot fuel env c deadline slot pool)"
proof (induction fuel arbitrary: d slot pool)
  case 0
  show ?case
  proof (unfold ends_from_def, intro allI impI)
    fix s :: "'a st" assume d: "d \<le> time s"
    obtain t s1 where "now env s = (Inr t, s1)" "time s \<le> t" "time s1 = t" by (rule now_run)
    with 0 d show "fst (wait_tx_slot 0 env c deadline slot pool s) \<noteq> Inl OutOfFuel \<and>
        time s \<le> time (snd (wait_tx_slot 0 env c deadline slot pool s))"
      by (simp add: bindM_def returnM_def)
  qed
next
  case (Suc fuel)
  show ?case
  proof (unfold ends_from_def, intro allI impI)
    fix s :: "'a st" assume d: "d \<le> time s"
    obtain t s1 where t: "now env s = (Inr t, s1)" "time s \<le> t" "time s1 = t" by (rule now_run)
    obtain x s2 where x: "consume_tx_completions env (tx_base c) (dl_tx_vring (ec_layout c)) pool s1 = (x, s2)"
      by fastforce
    note 2 = endsD [OF ends_completions(2) x]
    have found: "fst (wait_tx_slot fuel env c deadline (Some k) p s2) \<noteq> Inl OutOfFuel \<and>
        time s2 \<le> time (snd (wait_tx_slot fuel env c deadline (Some k) p s2))" for k p
      by (cases fuel) (simp_all add: returnM_def)
    obtain s3 where s3: "sleep_for env (ms 1) s2 = (Inr (), s3)" "time s2 + ms 1 \<le> time s3" by (rule sleep_run)
    have "ends_from (d + ms 1) (wait_tx_slot fuel env c deadline None p)" for p
      using Suc.prems by (intro Suc.IH) simp
    then have again: "fst (wait_tx_slot fuel env c deadline None p s3) \<noteq> Inl OutOfFuel \<and>
        time s3 \<le> time (snd (wait_tx_slot fuel env c deadline None p s3))" for p
      using d t(2,3) 2(2) s3(2) by (simp add: ends_from_def)
    show "fst (wait_tx_slot (Suc fuel) env c deadline slot pool s) \<noteq> Inl OutOfFuel \<and>
        time s \<le> time (snd (wait_tx_slot (Suc fuel) env c deadline slot pool s))"
    proof (cases "slot = None \<and> t < deadline")
      case False
      with t show ?thesis by (auto simp: bindM_def returnM_def)
    next
      case True
      show ?thesis
      proof (cases x)
        case (Inl e)
        with True t x 2 show ?thesis by (simp add: bindM_def)
      next
        case (Inr y)
        obtain b p where y: "y = (b, p)" by (cases y)
        show ?thesis
        proof (cases "find_free_tx_slot (tp_slots p)")
          case None
          with True t x 2 Inr y s3 again [of p] show ?thesis by (simp add: bindM_def Let_def)
        next
          case (Some k)
          with True t x 2 Inr y found [of k p] show ?thesis by (simp add: bindM_def Let_def)
        qed
      qed
    qed
  qed
qed

lemma echo_round_ends:
  assumes "deadline \<le> d + ms (unat (eo_run_ms opt))"
  shows "ends_from d (echo_round env opt c deadline st)"
proof -
  have dl: "deadline \<le> d + (unat (eo_run_ms opt) + 1) * ms 1" using assms by (simp add: ms_def)
  have entry: "ends_from d (echo_entry env opt c deadline i st)" for i st
    unfolding echo_entry_def Let_def
  proof (rule ends_from_bindM [OF ends_from_ends [OF ends_read_rx_used_packet]])
    fix a
    show "ends_from d (case a of
           None \<Rightarrow>
             bindM (used_elem_id env (rx_base c) (dl_rx_vring (ec_layout c)) (unat (used_slot_of (dl_rx_vring (ec_layout c)) (es_last_rx_used_idx st) i))) (\<lambda>did.
             thenM (if did < ucast (eo_rx_buffers opt) then recycle_and_notify env c did else returnM ())
                   (returnM (False, st\<lparr>es_skipped_rx := es_skipped_rx st + 1\<rparr>)))
         | Some p \<Rightarrow>
             bindM (wait_tx_slot (unat (eo_run_ms opt) + 1) env c deadline
                         (find_free_tx_slot (tp_slots (es_pool (st\<lparr>es_received_rx := es_received_rx st + 1\<rparr>))))
                         (es_pool (st\<lparr>es_received_rx := es_received_rx st + 1\<rparr>))) (\<lambda>(tx_slot, pool).
                case tx_slot of
                     None \<Rightarrow> thenM (recycle_and_notify env c (rp_desc_id p))
                       (returnM (True, st\<lparr>es_received_rx := es_received_rx st + 1, es_pool := pool\<rparr>))
                   | Some k \<Rightarrow>
                       bindM (send_reply env c p k (st\<lparr>es_received_rx := es_received_rx st + 1, es_pool := pool\<rparr>)) (\<lambda>st3.
                       returnM (es_echoed_tx st3 \<ge> eo_max_packets opt, st3))))"
    proof (cases a)
      case None
      then show ?thesis by (simp add: ends_from_ends ends_rules)
    next
      case (Some p)
      show ?thesis
        unfolding Some option.case
        by (rule ends_from_bindM [OF wait_tx_slot_ends [OF dl]])
          (intro ends_from_ends, simp add: ends_rules split: prod.splits)
    qed
  qed
  have entries: "ends_from d (echo_entries env opt c deadline is st)" for "is" st
  proof (induction "is" arbitrary: st)
    case (Cons i "is")
    show ?case unfolding echo_entries.simps
      by (rule ends_from_bindM [OF entry]) (use Cons in \<open>simp add: ends_from_ends ends_rules split: prod.splits\<close>)
  qed (simp add: ends_from_ends ends_rules)
  show ?thesis
    unfolding echo_round_def Let_def
  proof (rule ends_from_bindM [OF ends_from_ends [OF ends_completions(2)]])
    fix a :: "bool \<times> TxPool"
    obtain b pool where a: "a = (b, pool)" by (cases a)
    show "ends_from d (case a of (_, pool) \<Rightarrow>
        bindM (read_used_idx env (rx_base c) (dl_rx_vring (ec_layout c))) (\<lambda>current_rx_used.
        bindM (echo_entries env opt c deadline
           [0..<unat (used_delta (es_last_rx_used_idx (st\<lparr>es_pool := pool\<rparr>)) current_rx_used)] (st\<lparr>es_pool := pool\<rparr>)) (\<lambda>st2.
        thenM (if \<not> used_delta (es_last_rx_used_idx (st\<lparr>es_pool := pool\<rparr>)) current_rx_used \<noteq> 0
           then sleep_for env (ms 10) else returnM ()) (returnM (st2\<lparr>es_last_rx_used_idx := current_rx_used\<rparr>)))))"
      unfolding a prod.case
      by (intro ends_from_bindM entries ends_from_ends ends_rules)
  qed
qed

lemma echo_loop_fuel:
  assumes "ticks env" and "eo_run_ms opt \<noteq> 0"
  shows "deadline \<le> time s + ms (unat (eo_run_ms opt)) \<Longrightarrow> deadline < time s + fuel \<Longrightarrow>
    fst (echo_loop fuel env opt c deadline st s) \<noteq> Inl OutOfFuel \<or> fuel = 0"
proof (induction fuel arbitrary: st s)
  case (Suc fuel)
  obtain t s1 where t: "now env s = (Inr t, s1)" "time s \<le> t" "time s1 = t"
    "t = time s + fst (env_delay env (world s))" by (rule now_run)
  with assms(1) have later: "time s < t" by (simp add: ticks_def)
  have go: "(if eo_run_ms opt = 0 then returnM True else bindM (now env) (\<lambda>t. returnM (t < deadline))) s =
      (Inr (t < deadline), s1)"
    using assms(2) t(1) by (simp add: bindM_def returnM_def)
  show ?case
  proof (cases "es_echoed_tx st < eo_max_packets opt \<and> t < deadline")
    case False
    then show ?thesis using go by (auto simp: bindM_def returnM_def)
  next
    case True
    obtain x s2 where x: "echo_round env opt c deadline st s1 = (x, s2)" by fastforce
    have "ends_from (time s1) (echo_round env opt c deadline st)"
      using Suc.prems(1) later t(3) by (intro echo_round_ends) simp
    note 2 = ends_fromD [OF this order_refl x]
    show ?thesis
    proof (cases x)
      case (Inl e)
      with True go x 2 show ?thesis by (simp add: bindM_def)
    next
      case (Inr st2)
      have "deadline \<le> time s2 + ms (unat (eo_run_ms opt))" "deadline < time s2 + fuel"
        using Suc.prems later t(3) 2(2) by simp_all
      moreover have "0 < fuel" using Suc.prems(2) True later by (cases fuel) simp_all
      ultimately have "fst (echo_loop fuel env opt c deadline st2 s2) \<noteq> Inl OutOfFuel"
        using Suc.IH [of s2 st2] by simp
      with True go x Inr show ?thesis by (simp add: bindM_def)
    qed
  qed
qed simp

lemma drain_loop_fuel:
  assumes "tx_deadline \<le> time s + (fuel - 2) * ms 10" and "2 \<le> fuel"
  shows "fst (drain_loop fuel env c tx_deadline st s) \<noteq> Inl OutOfFuel"
  using assms
proof (induction fuel arbitrary: st s)
  case (Suc fuel)
  obtain t s1 where t: "now env s = (Inr t, s1)" "time s \<le> t" "time s1 = t" by (rule now_run)
  obtain x s2 where x: "consume_tx_completions env (tx_base c) (dl_tx_vring (ec_layout c)) (es_pool st) s1 = (x, s2)"
    by fastforce
  note 2 = endsD [OF ends_completions(2) x]
  obtain s3 where s3: "sleep_for env (ms 10) s2 = (Inr (), s3)" "time s2 + ms 10 \<le> time s3" by (rule sleep_run)
  obtain f where f: "fuel = Suc f" using Suc.prems(2) by (cases fuel) simp_all
  have complete: "fst (drain_loop fuel env c tx_deadline st' s2) \<noteq> Inl OutOfFuel"
    if "\<not> tp_completed (es_pool st') < es_echoed_tx st'" for st'
    using that f by (simp add: returnM_def)
  have again: "fst (drain_loop fuel env c tx_deadline st' s3) \<noteq> Inl OutOfFuel" if "t < tx_deadline" for st'
  proof (rule Suc.IH)
    from Suc.prems(1) f have dl: "tx_deadline \<le> time s + f * ms 10" by simp
    with that t(2) have "0 < f" by (cases f) simp_all
    then show "2 \<le> fuel" using f by simp
    from \<open>0 < f\<close> have "f * ms 10 = (fuel - 2) * ms 10 + ms 10" using f by (cases f) simp_all
    with dl t 2(2) s3(2) show "tx_deadline \<le> time s3 + (fuel - 2) * ms 10" by linarith
  qed
  show ?case
  proof (cases "tp_completed (es_pool st) < es_echoed_tx st \<and> t < tx_deadline")
    case False
    with t show ?thesis by (auto simp: bindM_def returnM_def)
  next
    case True
    then show ?thesis
    proof (cases x)
      case (Inl e)
      with True t x 2 show ?thesis by (simp add: bindM_def)
    next
      case (Inr y)
      obtain b p where y: "y = (b, p)" by (cases y)
      from True t x Inr y s3 again [of "st\<lparr>es_pool := p\<rparr>"] complete [of "st\<lparr>es_pool := p\<rparr>"]
      show ?thesis by (auto simp: bindM_def Let_def returnM_def)
    qed
  qed
qed simp

lemma loops_end:
  assumes "ticks env" and "eo_run_ms opt \<noteq> 0" and "ms (unat (eo_run_ms opt)) < fuel"
  shows "fst (run_loops fuel env opt c st s) \<noteq> Inl OutOfFuel"
proof -
  obtain t s1 where t: "now env s = (Inr t, s1)" "time s1 = t" by (rule now_run)
  let ?dl = "t + ms (unat (eo_run_ms opt))"
  obtain x s2 where x: "echo_loop fuel env opt c ?dl st s1 = (x, s2)" by fastforce
  from echo_loop_fuel [OF assms(1,2), of ?dl s1 fuel c st] x t(2) assms(3)
  have x_ok: "x \<noteq> Inl OutOfFuel" by auto
  obtain t' s3 where t': "now env s2 = (Inr t', s3)" "time s3 = t'" by (rule now_run)
  have drain: "fst (drain_loop 102 env c (t' + ms 1000) st1 s3) \<noteq> Inl OutOfFuel" for st1
    using t'(2) by (intro drain_loop_fuel) (simp_all add: ms_def)
  show ?thesis
    unfolding run_loops_def
    using x_ok t(1) x t'(1) drain by (cases x) (simp_all add: bindM_def del: drain_loop.simps)
qed

text \<open>
  The echo loop is bounded: when \<open>run-ms\<close> is not 0, as \<open>main\<close> requires, and the clock moves between two
  readings, the main loop and the wait for completions return or throw; a round for each
  nanosecond of the run is enough, and 102 rounds for the wait.
\<close>

theorem run_loops_ends:
  assumes "ticks env" and "eo_run_ms opt \<noteq> 0" and "ms (unat (eo_run_ms opt)) < fuel"
  shows "fst (run_loops fuel env opt c st s) \<noteq> Inl OutOfFuel"
  using assms by (rule loops_end)

section \<open>Examples\<close>

text \<open>A run of 5 milliseconds for one packet in the area of 512 bytes, with a device that does nothing.\<close>

definition small_opt :: EchoOptions where
  "small_opt = \<lparr>eo_rx_queue = 0, eo_tx_queue = 1, eo_queue_size = Some 4, eo_iova = 0x100000000,
     eo_align = 16, eo_rx_buffers = 2, eo_tx_buffers = 2, eo_rx_buffer_size = 64, eo_run_ms = 5,
     eo_max_packets = 1, eo_dump_bytes = 0, eo_src_mac = None, eo_match_ethertype = Some 0x88b5,
     eo_dump_every_packet = False, eo_yes = True\<rparr>"

definition small_notify :: NotifyWindow where
  "small_notify = \<lparr>nw_mapping = \<lparr>mr_offset = 0x3000, mr_size = 2\<rparr>, nw_delta = 0,
     nw_bar_offset = 0x3000, nw_mmap_offset = 0x3000\<rparr>"

definition small_ctx :: EchoCtx where
  "small_ctx = \<lparr>ec_layout = small_area, ec_tx_buffers_iova = 0x100000180,
     ec_reply_src_mac = [2, 0, 0, 0, 0, 1], ec_rx_notify = small_notify, ec_rx_notify_value = 0,
     ec_tx_notify = small_notify, ec_tx_notify_value = 1\<rparr>"

definition small_state :: EchoState where
  "small_state = \<lparr>es_last_rx_used_idx = 0, es_pool = initial_pool 2 0, es_received_rx = 0,
     es_echoed_tx = 0, es_skipped_rx = 0\<rparr>"

lemma small_ctx_ok: "echo_ctx_ok small_opt small_ctx 512"
  using small_area_ok
  by (simp add: echo_ctx_ok_def small_opt_def small_ctx_def small_area_def ring4_def)

lemma small_state_ok:
  "length (tp_slots (es_pool small_state)) = unat (eo_tx_buffers small_opt)"
  "es_echoed_tx small_state \<le> eo_max_packets small_opt"
  by (simp_all add: small_state_def small_opt_def initial_pool_def)

theorem echo_loop_safe_witness:
  "\<exists>r s'. run_loops 10 quiet_env small_opt small_ctx small_state (quiet_st 512) = (r, s') \<and>
     length (mem s') = 512 \<and> (\<forall>e. r = Inl e \<longrightarrow> \<not> is_ub e)"
proof -
  obtain r s' where run: "run_loops 10 quiet_env small_opt small_ctx small_state (quiet_st 512) = (r, s')"
    by fastforce
  have "echo_ctx_ok small_opt small_ctx (length (mem (quiet_st 512)))"
    using small_ctx_ok by (simp add: quiet_st_def start_st_def)
  from echo_loop_safe [OF quiet_env_ok this small_state_ok run] run show ?thesis
    by (auto simp: quiet_st_def start_st_def)
qed

theorem run_loops_ends_witness:
  "fst (run_loops 5000001 quiet_env small_opt small_ctx small_state (quiet_st 512)) \<noteq> Inl OutOfFuel"
  by (rule run_loops_ends) (simp_all add: ticks_def quiet_env_def small_opt_def ms_def)


lemma wait_tx_slot_found:
  "slot = Some k \<Longrightarrow> wait_tx_slot fuel env c dl slot pool s = (Inr (Some k, pool), s)"
  by (cases fuel) (simp_all add: returnM_def)


section \<open>What completions do\<close>

text \<open>A device that leaves the buffer alone while the driver reads it.\<close>

definition still :: "'w env \<Rightarrow> bool" where
  "still env \<longleftrightarrow> (\<forall>m w. env_dma env m w = (m, w))"

lemma after_dma_still [simp]: "still env \<Longrightarrow> after_dma env s = s"
  by (simp add: after_dma_def dma_step_def still_def)

lemma still_env_ok_loads:
  assumes "still env"
  shows "p + 2 \<le> length (mem s) \<Longrightarrow> vload16 env p s = (Inr (rd16 p (mem s)), s)"
    and "p + 4 \<le> length (mem s) \<Longrightarrow> vload32 env p s = (Inr (rd32 p (mem s)), s)"
  using assms
  by (simp_all add: vload16_def vload32_def vload_def bindM_def dma_step_def still_def load_def
      returnM_def rd16_def rd32_def)

text \<open>The descriptors the used ring reports for the entries \<open>is\<close> from index \<open>idx\<close> on.\<close>

definition reported :: "nat \<Rightarrow> VringLayout \<Rightarrow> u16 \<Rightarrow> nat list \<Rightarrow> u8 list \<Rightarrow> nat list" where
  "reported b l idx is m = map (\<lambda>i. unat (ue_id (used_at b l m (unat (used_slot_of l idx i))))) is"

definition release :: "nat list \<Rightarrow> bool list \<Rightarrow> bool list" where
  "release ids slots = map (\<lambda>j. slots ! j \<and> j \<notin> set ids) [0..<length slots]"

lemma release_Nil [simp]: "release [] slots = slots"
  by (simp add: release_def map_nth)

lemma release_Cons:
  "release (k # ids) slots = release ids (if k < length slots then slots[k := False] else slots)"
  by (rule nth_equalityI) (auto simp: release_def nth_list_update)

lemma completion_loop_reported:
  assumes st: "still env" and q: "queue_at b l (length (mem s))"
  shows "completion_loop env b l is pool s =
    (let ids = reported b l (tp_last_used_idx pool) is (mem s)
     in (Inr (pool\<lparr>tp_slots := release ids (tp_slots pool),
          tp_completed := tp_completed pool +
            of_nat (length (filter (\<lambda>k. k < length (tp_slots pool)) ids))\<rparr>), s))"
proof (induction "is" arbitrary: pool)
  case Nil
  show ?case by (simp add: returnM_def reported_def)
next
  case (Cons i "is")
  let ?slot = "used_slot_of l (tp_last_used_idx pool) i"
  let ?p = "vring_used_elems b l + 8 * unat ?slot"
  have "?p + 8 \<le> length (mem s)"
    using queue_at_bounds(3) [OF q used_slot_in_ring [OF q]] by simp
  then have did: "used_elem_id env b l (unat ?slot) s = (Inr (rd32 ?p (mem s)), s)"
    and len: "used_elem_len env b l (unat ?slot) s = (Inr (rd32 (?p + 4) (mem s)), s)"
    using still_env_ok_loads(2) [OF st, of ?p s] still_env_ok_loads(2) [OF st, of "?p + 4" s]
    by (simp_all add: used_elem_id_def used_elem_len_def)
  have ids: "reported b l (tp_last_used_idx pool) (i # is) (mem s) =
      unat (rd32 ?p (mem s)) # reported b l (tp_last_used_idx pool) is (mem s)"
    by (simp add: reported_def used_at_def Let_def)
  show ?case
    using Cons.IH [of pool]
      Cons.IH [of "pool\<lparr>tp_slots := (tp_slots pool)[unat (rd32 ?p (mem s)) := False], tp_completed := tp_completed pool + 1\<rparr>"]
    by (auto simp: Let_def bindM_def did len ids release_Cons linorder_not_le algebra_simps)
qed

text \<open>
  C28. \<open>consume_tx_completions\<close> frees exactly what was reported: with the used ring at rest, a pool
  descriptor is in flight afterwards when it was before and no new entry names it, the counter
  grows by the number of new entries that name a pool descriptor, and the last index seen becomes
  the device's index, also across its wrap-around.
\<close>

theorem consume_tx_completions_correct:
  assumes "still env" and q: "queue_at b l (length (mem s))"
  shows "consume_tx_completions env b l pool s =
    (let current = used_idx_of b l (mem s);
         ids = reported b l (tp_last_used_idx pool) [0..<unat (current - tp_last_used_idx pool)] (mem s)
     in (Inr (current \<noteq> tp_last_used_idx pool,
          pool\<lparr>tp_last_used_idx := current, tp_slots := release ids (tp_slots pool),
            tp_completed := tp_completed pool +
              of_nat (length (filter (\<lambda>k. k < length (tp_slots pool)) ids))\<rparr>), s))"
proof -
  have idx: "read_used_idx env b l s = (Inr (used_idx_of b l (mem s)), s)"
    using still_env_ok_loads(1) [OF assms(1), of "vring_used_idx b l" s] queue_at_idx(2) [OF q]
    by (simp add: read_used_idx_def used_idx_of_def)
  show ?thesis
  proof (cases "used_idx_of b l (mem s) = tp_last_used_idx pool")
    case True
    then show ?thesis
      using idx by (simp add: consume_tx_completions_def bindM_def used_delta_def returnM_def Let_def reported_def)
  next
    case False
    then have "used_idx_of b l (mem s) - tp_last_used_idx pool \<noteq> 0" by simp
    with False show ?thesis
      using idx completion_loop_reported [OF assms(1) q]
      by (simp add: consume_tx_completions_def bindM_def used_delta_def returnM_def Let_def)
  qed
qed

theorem consume_tx_completions_correct_witness:
  "consume_tx_completions quiet_env 0 ring4 (initial_pool 2 0) (quiet_st 152) =
     (Inr (False, initial_pool 2 0), quiet_st 152)"
proof -
  have still: "still quiet_env" by (simp add: still_def quiet_env_def)
  have q: "queue_at 0 ring4 (length (mem (quiet_st 152)))"
    using ring4_ok by (simp add: queue_ok_def quiet_st_def start_st_def)
  have "used_idx_of 0 ring4 (replicate 152 0) = 0" by code_simp
  then have "used_idx_of 0 ring4 (mem (quiet_st 152)) = 0" by (simp add: quiet_st_def start_st_def)
  with consume_tx_completions_correct [OF still q, of "initial_pool 2 0"] show ?thesis
    by (simp add: initial_pool_def reported_def)
qed

end
