(* ===== verification/Scopes.thy ===== *)
theory Scopes
  imports RxScan Transport
begin

text \<open>
  What the programs 21 to 30 of \<open>userspace_drivers/\<close> have in common: the scopes of their objects
  with destructors, one definition for each, in the order in which the programs open them, with
  what goes on inside as an argument; and the final clean-up. The lemmas show what a program may do
  to the outside on any path, exceptions included: whatever goes on inside, the device is reset
  before its DMA memory is taken away.
\<close>

section \<open>The scopes\<close>

text \<open>The check that opens a run.\<close>

definition with_iova_check :: "'w env \<Rightarrow> u64 \<Rightarrow> ('w st, 'a) M \<Rightarrow> ('w st, 'a) M" where
  "with_iova_check env iova body =
     bindM (liftR (system_page_size (env_page_size env))) (\<lambda>page_size.
     thenM (throw_ifM (iova mod of_int page_size \<noteq> 0)
       (RuntimeError (''base IOVA must be aligned to the system page size '' @ to_string (nat page_size))))
       body)"

text \<open>The scope of \<open>pci_command\<close>.\<close>

definition with_pci :: "'w env \<Rightarrow> (ConfigRegion \<Rightarrow> u16 \<Rightarrow> ('w st, 'a) M) \<Rightarrow> ('w st, 'a) M" where
  "with_pci env body =
     bindM (get_config_region env) (\<lambda>config.
     bindM (pci_command_new env config) (\<lambda>original_command.
     finallyM (body config original_command) (pci_command_restore env config original_command)))"

text \<open>
  Bus mastering, the virtio capabilities and the mappings of COMMON_CFG and DEVICE_CFG, up to the
  first look at the status.
\<close>

definition with_virtio_min ::
  "u64 \<Rightarrow> 'w env \<Rightarrow> ConfigRegion \<Rightarrow> u16 \<Rightarrow>
     (MappedRegion \<Rightarrow> u64 \<Rightarrow> MappedRegion \<Rightarrow> u64 \<Rightarrow> VirtioCap \<Rightarrow> RegionInfo \<Rightarrow> VirtioCap \<Rightarrow> ('w st, 'a) M) \<Rightarrow>
     ('w st, 'a) M" where
  "with_virtio_min required_length env config original_command body =
     thenM (enable_bus_mastering env config original_command)
    (bindM (read_virtio_caps env config) (\<lambda>caps.
     bindM (liftR (find_common_cfg caps)) (\<lambda>common.
     bindM (liftR (find_notify_cfg caps)) (\<lambda>notify.
     bindM (liftR (find_device_cfg caps)) (\<lambda>device_cfg.
     bindM (liftR (vfio_bar_region_index (vc_bar notify))) (\<lambda>notify_index.
     bindM (get_region_info env notify_index) (\<lambda>notify_region.
     bindM (map_common_cfg env common True) (\<lambda>(m, d).
     bindM (map_device_cfg env device_cfg required_length) (\<lambda>(dm, dd).
     thenM (read_status env m d) (body m d dm dd notify notify_region device_cfg))))))))))"

text \<open>Exercises 24 to 30 ask for a DEVICE_CFG of 12 bytes, exercises 22 and 23 for none.\<close>

definition with_virtio ::
  "'w env \<Rightarrow> ConfigRegion \<Rightarrow> u16 \<Rightarrow>
     (MappedRegion \<Rightarrow> u64 \<Rightarrow> MappedRegion \<Rightarrow> u64 \<Rightarrow> VirtioCap \<Rightarrow> RegionInfo \<Rightarrow> VirtioCap \<Rightarrow> ('w st, 'a) M) \<Rightarrow>
     ('w st, 'a) M" where
  "with_virtio = with_virtio_min 12"

text \<open>The scope of \<open>selection\<close>.\<close>

definition with_selection :: "'w env \<Rightarrow> MappedRegion \<Rightarrow> u64 \<Rightarrow> u16 \<Rightarrow> ('w st, 'a) M \<Rightarrow> ('w st, 'a) M" where
  "with_selection env m d original_select body =
     thenM (modifyM (\<lambda>s. s\<lparr>sel_changed := False\<rparr>))
           (finallyM body (selection_restore env m d original_select))"

text \<open>The choice of a queue's size: select the queue, look at it, choose.\<close>

definition size_queue ::
  "'w env \<Rightarrow> MappedRegion \<Rightarrow> u64 \<Rightarrow> u16 \<Rightarrow> u16 option \<Rightarrow> string \<Rightarrow> ('w st, u16) M" where
  "size_queue env m d queue requested label =
     thenM (selection_select env m d queue)
    (bindM (read_queue_view env m d) (\<lambda>before.
     thenM (throw_ifM (qv_enable before \<noteq> 0)
       (RuntimeError (label @ '' is already enabled; reset the device before using this tutorial sample'')))
       (liftR (choose_queue_size (qv_size before) requested))))"

text \<open>The scopes of \<open>buffer\<close>, \<open>dma\<close> and \<open>reset_guard\<close>.\<close>

definition with_dma :: "'w env \<Rightarrow> u64 \<Rightarrow> u64 \<Rightarrow> MappedRegion \<Rightarrow> u64 \<Rightarrow> ('w st, 'a) M \<Rightarrow> ('w st, 'a) M" where
  "with_dma env iova total_size m d body =
     thenM (AnonymousBuffer_new env total_size)
    (finallyM
      (thenM AnonymousBuffer_zero
      (thenM (DmaMapping_new env iova total_size (VFIO_DMA_MAP_FLAG_READ OR VFIO_DMA_MAP_FLAG_WRITE))
      (finallyM
        (thenM reset_guard_new (finallyM body (reset_guard_drop env m d)))
        (DmaMapping_drop env iova total_size))))
      AnonymousBuffer_drop)"

text \<open>The end of a run that was not cut short.\<close>

definition clean_up ::
  "'w env \<Rightarrow> ConfigRegion \<Rightarrow> u16 \<Rightarrow> MappedRegion \<Rightarrow> u64 \<Rightarrow> u16 \<Rightarrow> u64 \<Rightarrow> u64 \<Rightarrow> 'a \<Rightarrow> ('w st, 'a) M" where
  "clean_up env config original_command m d original_select iova total_size result =
     thenM (selection_restore env m d original_select)
    (thenM (reset_device env m d)
    (thenM reset_guard_disarm
    (thenM (pci_command_restore env config original_command)
    (thenM (DmaMapping_unmap env iova total_size)
           (returnM result)))))"

section \<open>What a computation may add to the trace\<close>

text \<open>
  \<open>adds P m\<close>: however \<open>m\<close> ends, it has only added events with \<open>P\<close> to the trace, and it has left the
  guards of the reset and of the interrupts alone.
\<close>

definition adds :: "(event \<Rightarrow> bool) \<Rightarrow> ('w st, 'a) M \<Rightarrow> bool" where
  "adds P m \<longleftrightarrow> (\<forall>s. \<exists>tr. trace (snd (m s)) = trace s @ tr \<and> (\<forall>e \<in> set tr. P e) \<and>
     reset_active (snd (m s)) = reset_active s \<and> irq_active (snd (m s)) = irq_active s)"

named_theorems adds_rules "computations that only add harmless events"

lemma addsE:
  assumes "adds P m" and "m s = (x, s')"
  obtains tr where "trace s' = trace s @ tr" and "\<forall>e \<in> set tr. P e" and "reset_active s' = reset_active s"
    and "irq_active s' = irq_active s"
  using assms by (auto simp: adds_def dest: spec [of _ s])

lemma addsI:
  "(\<And>s. trace (snd (m s)) = trace s \<and> reset_active (snd (m s)) = reset_active s \<and>
     irq_active (snd (m s)) = irq_active s) \<Longrightarrow> adds P m"
  by (simp add: adds_def)

lemma adds_bindM [adds_rules]:
  assumes m: "adds P m" and f: "\<And>a. adds P (f a)"
  shows "adds P (bindM m f)"
proof (unfold adds_def, rule allI)
  fix s
  obtain x s1 where x: "m s = (x, s1)" by fastforce
  obtain tr where tr: "trace s1 = trace s @ tr" "\<forall>e \<in> set tr. P e" "reset_active s1 = reset_active s"
    "irq_active s1 = irq_active s"
    using m x by (rule addsE)
  show "\<exists>tr. trace (snd (bindM m f s)) = trace s @ tr \<and> (\<forall>e \<in> set tr. P e) \<and>
      reset_active (snd (bindM m f s)) = reset_active s \<and> irq_active (snd (bindM m f s)) = irq_active s"
  proof (cases x)
    case (Inl e)
    with x tr show ?thesis by (auto simp: bindM_def)
  next
    case (Inr a)
    obtain y s2 where y: "f a s1 = (y, s2)" by fastforce
    obtain tr2 where "trace s2 = trace s1 @ tr2" "\<forall>e \<in> set tr2. P e" "reset_active s2 = reset_active s1"
      "irq_active s2 = irq_active s1"
      using f y by (rule addsE)
    with x y tr Inr show ?thesis by (intro exI [of _ "tr @ tr2"]) (auto simp: bindM_def)
  qed
qed

lemma adds_basic [adds_rules]:
  "adds P (returnM a)" "adds P (throwM e)" "adds P (throw_ifM b e)" "adds P (liftR r)"
  "adds P (external f)" "adds P (readM g)" "adds P (now env)" "adds P (sleep_for env t)"
  "adds P (dma_step env)"
  by (auto intro!: addsI simp: returnM_def throwM_def throw_ifM_def liftR_def external_def readM_def
      now_def sleep_for_def dma_step_def split: prod.splits)

lemma adds_load_store [adds_rules]: "adds P (load p n)" "adds P (store p bs)"
  by (rule addsI, simp add: load_def) (rule addsI, simp add: store_def)

lemma adds_emit [adds_rules]: "P ev \<Longrightarrow> adds P (emit ev)"
  by (auto simp: adds_def emit_def)

lemma adds_modifyM [adds_rules]:
  "(\<And>s. trace (h s) = trace s) \<Longrightarrow> (\<And>s. reset_active (h s) = reset_active s) \<Longrightarrow>
     (\<And>s. irq_active (h s) = irq_active s) \<Longrightarrow> adds P (modifyM h)"
  by (auto intro!: addsI simp: modifyM_def)

lemma adds_if [adds_rules]: "adds P m \<Longrightarrow> adds P n \<Longrightarrow> adds P (if b then m else n)"
  by simp

lemma adds_case_option [adds_rules]:
  "adds P k \<Longrightarrow> (\<And>y. adds P (g y)) \<Longrightarrow> adds P (case q of None \<Rightarrow> k | Some y \<Rightarrow> g y)"
  by (cases q) simp_all

lemma adds_case_sum [adds_rules]:
  "(\<And>y. adds P (g y)) \<Longrightarrow> (\<And>y. adds P (h y)) \<Longrightarrow> adds P (case z of Inl y \<Rightarrow> g y | Inr y \<Rightarrow> h y)"
  by (cases z) simp_all

lemma adds_case_prod [adds_rules]:
  "(\<And>x y. adds P (j x y)) \<Longrightarrow> adds P (case p of (x, y) \<Rightarrow> j x y)"
  by (cases p) simp

lemma adds_forM [adds_rules]: "(\<And>x. adds P (f x)) \<Longrightarrow> adds P (forM xs f)"
  by (induction xs) (simp_all add: adds_rules)

lemma adds_memory [adds_rules]:
  "adds P (vload env p n)" "adds P (vload16 env p)" "adds P (vload32 env p)"
  "adds P (store16 p h)" "adds P (store32 p w)" "adds P (store64 p d)"
  by (simp_all add: vload_def vload16_def vload32_def store16_def store32_def store64_def adds_rules)

lemma adds_reads [adds_rules]:
  "adds P (mmio_read env r off n)" "adds P (read8 env r off)" "adds P (read16 env r off)"
  "adds P (read32 env r off)" "adds P (MappedRegion_new env sz off wr)" "adds P (get_config_region env)"
  "adds P (get_region_info env i)"
  by (simp_all add: mmio_read_def read8_def read16_def read32_def MappedRegion_new_def get_config_region_def
      get_region_info_def Let_def adds_rules)

text \<open>
  Two classes of events. \<open>harmless\<close>: anything but a change of the DMA mapping, the release of
  the buffer and a change of the interrupts. \<open>idle\<close>: no change of the DMA mapping, no release of the
  buffer and no write of one byte to a device register, of which the sources have only those to the
  device status.
\<close>

definition harmless :: "event \<Rightarrow> bool" where
  "harmless e = (case e of DmaMap _ _ _ \<Rightarrow> False | DmaUnmap _ _ \<Rightarrow> False | BufferFree \<Rightarrow> False
     | IrqSet _ _ _ \<Rightarrow> False | IrqDisable _ \<Rightarrow> False | _ \<Rightarrow> True)"

definition idle :: "event \<Rightarrow> bool" where
  "idle e = (case e of DmaMap _ _ _ \<Rightarrow> False | DmaUnmap _ _ \<Rightarrow> False | BufferFree \<Rightarrow> False
     | MmioWrite n _ _ \<Rightarrow> n \<noteq> 1 | _ \<Rightarrow> True)"

lemma class_simps [simp]:
  "harmless (MmioWrite n off v)" "harmless (ConfigRead p k)" "harmless (ConfigWrite p bs)"
  "harmless (BufferAlloc sz)"
  "idle (MmioWrite n off v) \<longleftrightarrow> n \<noteq> 1" "idle (ConfigRead p k)" "idle (ConfigWrite p bs)" "idle (BufferAlloc sz)"
  "idle (IrqSet i fl fds)" "idle (IrqDisable i)"
  by (simp_all add: harmless_def idle_def)

lemma adds_writes [adds_rules]:
  "adds harmless (write8 env r off b)" "adds harmless (write16 env r off h)" "adds harmless (write32 env r off w)"
  "adds idle (write16 env r off h)" "adds idle (write32 env r off w)"
  by (simp_all add: mmio_write_def write8_def write16_def write32_def adds_rules)

lemma adds_config [adds_rules]:
  "adds harmless (pread_loop fuel env sz off what acc)" "adds idle (pread_loop fuel env sz off what acc)"
  "adds harmless (pwrite_loop fuel env data off what k)" "adds idle (pwrite_loop fuel env data off what k)"
  by (induction fuel arbitrary: acc k) (simp_all add: adds_rules)

lemma adds_config_access [adds_rules]:
  "adds harmless (read_config_u8 env config o8)" "adds harmless (read_config_le16 env config o16)"
  "adds harmless (read_config_le32 env config o32)" "adds idle (read_config_le16 env config o16)"
  "adds harmless (read_config_le64_from_halves env config lo hi)"
  "adds harmless (write_config_le16 env config o16 v)" "adds idle (write_config_le16 env config o16 v)"
  by (simp_all add: read_config_u8_def read_config_le16_def read_config_le32_def
      read_config_le64_from_halves_def write_config_le16_def read_config_bytes_def write_config_bytes_def
      pread_exact_def pwrite_exact_def adds_rules)

lemma adds_virtio_cap_walk: "adds harmless (virtio_cap_walk hops reads env config cap vis caps)"
  by (induction hops arbitrary: cap vis caps)
    (simp_all add: read_one_virtio_cap_def Let_def adds_rules)

lemma adds_read_virtio_caps [adds_rules]:
  "adds harmless (read_virtio_caps_with reads env config)" "adds harmless (read_virtio_caps env config)"
  by (simp_all add: read_virtio_caps_def read_virtio_caps_with_def adds_rules adds_virtio_cap_walk)

lemma adds_pci [adds_rules]:
  "adds harmless (pci_command_new env config)" "adds harmless (enable_bus_mastering env config w)"
  "adds harmless (pci_command_restore env config w)" "adds idle (pci_command_restore env config w)"
  by (simp_all add: pci_command_new_def enable_bus_mastering_def pci_command_restore_def Let_def adds_rules)

lemma adds_maps [adds_rules]:
  "adds harmless (map_common_range hi env region cap wr)" "adds harmless (map_common_window lo msg hi env cap wr)"
  "adds harmless (map_common_cfg env cap wr)" "adds harmless (map_device_cfg env cap len)"
  "adds harmless (map_notify_window env cap region q)"
  by (simp_all add: map_common_cfg_def map_common_window_def map_common_range_def map_device_cfg_def map_notify_window_def Let_def adds_rules)

lemma adds_status [adds_rules]:
  "adds P (read_status env r d)" "adds harmless (write_status env r d st)"
  by (simp_all add: read_status_def write_status_def adds_rules)

lemma adds_wait_status_loop: "adds P (wait_status_loop fuel env r d e dl)"
  by (induction fuel) (simp_all add: adds_rules)

lemma adds_wait_for_status [adds_rules]: "adds P (wait_for_status env r d e t)"
  by (simp add: wait_for_status_def adds_rules adds_wait_status_loop)

lemma adds_loops [adds_rules]:
  "adds harmless (read_feature_loop env r sel val is)" "adds harmless (read_mac_loop env r base is)"
  by (induction "is") (simp_all add: adds_rules)

lemma adds_transport [adds_rules]:
  "adds harmless (reset_device env r d)" "adds harmless (read_common_u64 env r d lo hi)"
  "adds harmless (write_common_u64 env r d lo hi v)" "adds harmless (read_queue_view_with b env r d)"
  "adds harmless (read_queue_view env r d)"
  "adds harmless (program_queue_addresses env r d l iova)" "adds harmless (enable_queue env r d)"
  "adds harmless (write_notify env r d h)" "adds harmless (set_driver_ok env r d)"
  "adds harmless (selection_select env r d queue)" "adds harmless (selection_restore env r d queue)"
  "adds idle (selection_restore env r d queue)"
  "adds harmless (program_and_enable_queue env r d queue l iova label)"
  "adds harmless (negotiate pick env r d)" "adds harmless (read_virtio_net_config env r d len)"
  by (simp_all add: reset_device_def read_common_u64_def write_common_u64_def read_queue_view_def read_queue_view_with_def
      program_queue_addresses_def enable_queue_def write_notify_def set_driver_ok_def selection_select_def
      selection_restore_def program_and_enable_queue_def negotiate_def read_feature_words_def
      write_guest_feature_words_def read_virtio_net_config_def read_net_u16_def Let_def adds_rules)

lemma adds_queues [adds_rules]:
  "adds P (store_desc p i a len fl nx)" "adds P (publish_rx_buffers b l iova cnt sz)"
  "adds P (recycle_rx_buffer env b l k)" "adds P (publish_tx_packet env b l k iova' len')"
  "adds P (read_used_idx env b l)" "adds P (used_elem_id env b l j)" "adds P (used_elem_len env b l j)"
  "adds P (read_rx_used_packet env b dl slot rxb rbs mt)" "adds P (mac_from_bytes p)"
  "adds P (build_tx_reply_from_rx tx sz' rx used mac)"
  by (simp_all add: store_desc_def publish_rx_buffers_def recycle_rx_buffer_def publish_tx_packet_def
      read_used_idx_def used_elem_id_def used_elem_len_def read_rx_used_packet_def mac_from_bytes_def
      build_tx_reply_from_rx_def Let_def adds_rules)

lemma adds_size_queue [adds_rules]: "adds harmless (size_queue env m d queue requested label)"
  by (simp add: size_queue_def adds_rules)

section \<open>The device is reset before its memory goes\<close>

text \<open>
  Three readings of a trace: the device is \<open>quiet\<close> when the last byte written to a register (the
  status, the only register the sources write as a byte) is 0; \<open>mapped\<close> when some memory has been
  given to the device; and \<open>reset_first\<close> when memory is only unmapped, and the buffer of a mapping only
  released, while the device is quiet.
\<close>

definition quiet_step :: "event \<Rightarrow> bool \<Rightarrow> bool" where
  "quiet_step e q = (case e of MmioWrite n off v \<Rightarrow> if n = 1 then v = 0 else q | _ \<Rightarrow> q)"

definition quiet :: "event list \<Rightarrow> bool" where
  "quiet tr = fold quiet_step tr False"

definition is_map :: "event \<Rightarrow> bool" where
  "is_map e = (case e of DmaMap _ _ _ \<Rightarrow> True | _ \<Rightarrow> False)"

definition mapped :: "event list \<Rightarrow> bool" where
  "mapped tr = list_ex is_map tr"

definition takes_memory :: "event \<Rightarrow> bool" where
  "takes_memory e = (case e of DmaUnmap _ _ \<Rightarrow> True | BufferFree \<Rightarrow> True | _ \<Rightarrow> False)"

definition reset_first :: "event list \<Rightarrow> bool" where
  "reset_first tr = (\<forall>i < length tr. takes_memory (tr ! i) \<and> mapped (take i tr) \<longrightarrow> quiet (take i tr))"

lemma trace_snoc [simp]:
  "quiet (tr @ [e]) = quiet_step e (quiet tr)"
  "mapped (tr @ [e]) \<longleftrightarrow> mapped tr \<or> is_map e"
  by (auto simp: quiet_def mapped_def)

lemma reset_first_snoc [simp]:
  "reset_first (tr @ [e]) \<longleftrightarrow> reset_first tr \<and> (takes_memory e \<and> mapped tr \<longrightarrow> quiet tr)"
  by (auto simp: reset_first_def less_Suc_eq nth_append)

lemma trace_nil [simp]: "\<not> quiet []" "\<not> mapped []" "reset_first []"
  by (simp_all add: quiet_def mapped_def reset_first_def)

lemma harmless_step: "harmless e \<Longrightarrow> \<not> takes_memory e \<and> \<not> is_map e"
  by (cases e) (simp_all add: harmless_def takes_memory_def is_map_def)

lemma idle_step: "idle e \<Longrightarrow> \<not> takes_memory e \<and> \<not> is_map e \<and> quiet_step e q = q"
  by (cases e) (simp_all add: idle_def takes_memory_def is_map_def quiet_step_def)

lemma harmless_append:
  "\<forall>e \<in> set ev. harmless e \<Longrightarrow> reset_first (tr @ ev) = reset_first tr \<and> mapped (tr @ ev) = mapped tr"
proof (induction ev rule: rev_induct)
  case (snoc e ev)
  then show ?case
    using harmless_step [of e] reset_first_snoc [of "tr @ ev" e] trace_snoc(2) [of "tr @ ev" e] by simp
qed simp

lemma idle_append:
  "\<forall>e \<in> set ev. idle e \<Longrightarrow>
     reset_first (tr @ ev) = reset_first tr \<and> mapped (tr @ ev) = mapped tr \<and> quiet (tr @ ev) = quiet tr"
proof (induction ev rule: rev_induct)
  case (snoc e ev)
  then show ?case
    using idle_step [of e] reset_first_snoc [of "tr @ ev" e] trace_snoc [of "tr @ ev" e] by simp
qed simp

text \<open>
  The assertions of the proof. \<open>phase a u q\<close>: the trace is \<open>reset_first\<close>, and the reset guard is
  armed (if \<open>a\<close>), nothing is mapped yet (if \<open>u\<close>), the device is quiet (if \<open>q\<close>).
\<close>

definition phase :: "bool \<Rightarrow> bool \<Rightarrow> bool \<Rightarrow> 'w st \<Rightarrow> bool" where
  "phase a u q s \<longleftrightarrow> reset_first (trace s) \<and> (a \<longrightarrow> reset_active s) \<and>
     (u \<longrightarrow> \<not> mapped (trace s)) \<and> (q \<longrightarrow> quiet (trace s))"

definition memory_safe :: "'w st \<Rightarrow> bool" where
  "memory_safe s \<longleftrightarrow> reset_first (trace s) \<and> (mapped (trace s) \<longrightarrow> quiet (trace s))"

definition guarded :: "'w st \<Rightarrow> bool" where
  "guarded s \<longleftrightarrow> reset_first (trace s) \<and> (reset_active s \<or> quiet (trace s))"

lemma hoare_adds:
  assumes m: "adds P m" and I: "\<And>s s' ev. I s \<Longrightarrow> trace s' = trace s @ ev \<Longrightarrow> \<forall>e \<in> set ev. P e \<Longrightarrow>
     reset_active s' = reset_active s \<Longrightarrow> irq_active s' = irq_active s \<Longrightarrow> I s'"
  shows "hoare I m (\<lambda>_. I) (\<lambda>_. I)"
proof (rule hoareI)
  fix s assume s: "I s"
  obtain x s' where x: "m s = (x, s')" by fastforce
  from m x have "I s'"
    by (rule addsE) (rule I [OF s])
  with x show "case m s of (Inl e, s') \<Rightarrow> I s' | (Inr a, s') \<Rightarrow> I s'"
    by (simp split: sum.split)
qed

lemma phase_harmless: "adds harmless m \<Longrightarrow> hoare (phase a u False) m (\<lambda>_. phase a u False) (\<lambda>_. phase a u False)"
  by (erule hoare_adds) (simp add: phase_def harmless_append)

lemma phase_idle: "adds idle m \<Longrightarrow> hoare (phase a u q) m (\<lambda>_. phase a u q) (\<lambda>_. phase a u q)"
  by (erule hoare_adds) (simp add: phase_def idle_append)

lemma memory_safe_idle: "adds idle m \<Longrightarrow> hoare memory_safe m (\<lambda>_. memory_safe) (\<lambda>_. memory_safe)"
  by (erule hoare_adds) (simp add: memory_safe_def idle_append)

lemma guarded_phases: "phase True u q s \<Longrightarrow> guarded s" "phase a u True s \<Longrightarrow> guarded s"
  by (simp_all add: phase_def guarded_def)

lemma memory_safe_phases: "phase a True q s \<Longrightarrow> memory_safe s" "phase a u True s \<Longrightarrow> memory_safe s"
  by (simp_all add: phase_def memory_safe_def)

lemma armed_step:
  "adds harmless m \<Longrightarrow> (\<And>a. hoare (phase True u False) (f a) Q (\<lambda>_. guarded)) \<Longrightarrow>
     hoare (phase True u False) (bindM m f) Q (\<lambda>_. guarded)"
  by (rule hoare_bindM [where R = "\<lambda>_. phase True u False"], erule hoare_weaken [OF phase_harmless]) (auto intro: guarded_phases)

lemma quiet_last:
  "adds idle m \<Longrightarrow> (\<And>a. hoare (phase False u True) (f a) Q (\<lambda>_. guarded)) \<Longrightarrow>
     hoare (phase False u True) (bindM m f) Q (\<lambda>_. guarded)"
  by (rule hoare_bindM [where R = "\<lambda>_. phase False u True"], erule hoare_weaken [OF phase_idle]) (auto intro: guarded_phases)

lemma unmapped_step:
  "adds harmless m \<Longrightarrow> (\<And>a. hoare (phase False True False) (f a) Q (\<lambda>_. memory_safe)) \<Longrightarrow>
     hoare (phase False True False) (bindM m f) Q (\<lambda>_. memory_safe)"
  by (rule hoare_bindM [where R = "\<lambda>_. phase False True False"], erule hoare_weaken [OF phase_harmless]) (auto intro: memory_safe_phases)

text \<open>The write of 0 to the status register of a mapping that holds it.\<close>

definition has_status :: "MappedRegion \<Rightarrow> u64 \<Rightarrow> bool" where
  "has_status m d \<longleftrightarrow> check_range m (d + VIRTIO_PCI_COMMON_STATUS) 1 = Inr ()"

lemma write_zero_quiet:
  assumes "has_status m d"
  shows "hoare (phase a u q) (write8 env m (d + VIRTIO_PCI_COMMON_STATUS) 0) (\<lambda>_. phase a u True) (\<lambda>_ _. False)"
  using assms
  by (auto simp: hoare_def write8_def mmio_write_def bindM_def liftR_def emit_def external_def has_status_def
      phase_def takes_memory_def is_map_def quiet_step_def)

lemma read_status_has:
  "(has_status m d \<Longrightarrow> hoare (phase False True False) k Q (\<lambda>_. memory_safe)) \<Longrightarrow>
     hoare (phase False True False) (thenM (read_status env m d) k) Q (\<lambda>_. memory_safe)"
proof (cases "has_status m d")
  case False
  then show ?thesis
    by (auto simp: has_status_def hoare_def read_status_def read8_def mmio_read_def bindM_def liftR_def
        split: sum.splits intro: memory_safe_phases)
qed (simp add: unmapped_step adds_rules)

lemma reset_device_quiet:
  assumes "has_status m d"
  shows "hoare (phase True False False) (reset_device env m d) (\<lambda>_. phase True False True) (\<lambda>_. guarded)"
proof -
  have 1: "hoare (phase True False False) (write_status env m d 0) (\<lambda>_. phase True False True) (\<lambda>_. guarded)"
    unfolding write_status_def by (rule hoare_weaken [OF write_zero_quiet [OF assms]]) auto
  have 2: "adds idle (thenM (wait_for_status env m d 0 1000) (thenM (read_status env m d) (returnM ())))"
    by (simp add: adds_rules)
  show ?thesis unfolding reset_device_def
    by (rule hoare_bindM [OF 1]) (rule hoare_weaken [OF phase_idle [OF 2]], auto intro: guarded_phases)
qed

lemma reset_guard_drop_quiet:
  assumes "has_status m d" and "guarded s"
  shows "phase False False True (snd (reset_guard_drop env m d s))"
  using assms
  by (auto simp: reset_guard_drop_def readM_def returnM_def write8_def mmio_write_def bindM_def liftR_def
      emit_def external_def has_status_def phase_def guarded_def takes_memory_def is_map_def quiet_step_def)

lemma DmaMapping_unmap_quiet:
  "hoare (phase False u True) (DmaMapping_unmap env iova sz) (\<lambda>_. phase False u True) (\<lambda>_. phase False u True)"
  by (auto simp: hoare_def DmaMapping_unmap_def bindM_def readM_def returnM_def external_def throwM_def emit_def
      modifyM_def phase_def takes_memory_def is_map_def quiet_step_def split: sum.splits prod.splits)

lemma DmaMapping_drop_quiet:
  "phase False u True s \<Longrightarrow> phase False u True (snd (DmaMapping_drop env iova sz s))"
  using DmaMapping_unmap_quiet [of u env iova sz]
  by (auto simp: DmaMapping_drop_def bindM_def returnM_def hoare_def split: sum.splits prod.splits)

lemma AnonymousBuffer_drop_safe:
  "memory_safe s \<Longrightarrow> memory_safe (snd (AnonymousBuffer_drop s))"
  by (auto simp: AnonymousBuffer_drop_def emit_def bindM_def modifyM_def memory_safe_def is_map_def
      quiet_step_def)

lemma hoare_finallyM:
  assumes "hoare P m Q' E'" and "\<And>a s. Q' a s \<Longrightarrow> Q a (snd (c s))" and "\<And>e s. E' e s \<Longrightarrow> E e (snd (c s))"
  shows "hoare P (finallyM m c) Q E"
proof (rule hoareI)
  fix s assume s: "P s"
  obtain x s1 where x: "m s = (x, s1)" by fastforce
  show "case finallyM m c s of (Inl e, s') \<Rightarrow> E e s' | (Inr a, s') \<Rightarrow> Q a s'"
  proof (cases x)
    case (Inl e)
    with x assms(1) s have "E' e s1" by (auto dest: hoare_Inl)
    with x Inl assms(3) show ?thesis by (simp add: finallyM_def)
  next
    case (Inr a)
    with x assms(1) s have "Q' a s1" by (auto dest: hoare_Inr)
    with x Inr assms(2) show ?thesis by (simp add: finallyM_def)
  qed
qed

lemma DmaMapping_new_maps:
  "hoare (phase False True False) (DmaMapping_new env iova sz fl) (\<lambda>_. phase False False False) (\<lambda>_. memory_safe)"
  by (auto simp: hoare_def DmaMapping_new_def bindM_def external_def throwM_def emit_def modifyM_def phase_def
      memory_safe_def takes_memory_def split: option.splits prod.splits)

lemma clean_up_guarded:
  assumes "has_status m d"
  shows "hoare (phase True False False) (clean_up env config cmd m d sel iova sz result) (\<lambda>_. guarded) (\<lambda>_. guarded)"
proof -
  have disarm: "hoare (phase True False True) reset_guard_disarm (\<lambda>_. phase False False True) (\<lambda>_. guarded)"
    by (auto simp: hoare_def reset_guard_disarm_def modifyM_def phase_def)
  have unmap: "hoare (phase False False True) (DmaMapping_unmap env iova sz) (\<lambda>_. phase False False True) (\<lambda>_. guarded)"
    by (rule hoare_weaken [OF DmaMapping_unmap_quiet]) (auto intro: guarded_phases)
  have last: "hoare (phase False False True)
      (thenM (pci_command_restore env config cmd) (thenM (DmaMapping_unmap env iova sz) (returnM result)))
      (\<lambda>_. guarded) (\<lambda>_. guarded)"
    by (intro quiet_last hoare_bindM [OF unmap] hoare_returnM) (auto simp: adds_rules intro: guarded_phases)
  show ?thesis
    unfolding clean_up_def
    by (intro armed_step hoare_bindM [OF reset_device_quiet [OF assms]] hoare_bindM [OF disarm] last)
      (simp add: adds_rules)
qed

lemma hoare_adds_snd: "hoare I m (\<lambda>_. I) (\<lambda>_. I) \<Longrightarrow> I s \<Longrightarrow> I (snd (m s))"
  by (cases "m s"; cases "fst (m s)") (auto dest: hoare_Inl hoare_Inr)

lemma selection_restore_safe: "memory_safe s \<Longrightarrow> memory_safe (snd (selection_restore env m d q s))"
  by (rule hoare_adds_snd [OF memory_safe_idle]) (simp_all add: adds_rules)

lemma hoare_case_prod:
  "(\<And>x y. hoare P (f x y) Q E) \<Longrightarrow> hoare P (case p of (x, y) \<Rightarrow> f x y) Q E"
  by (cases p) simp

lemma finally_idle_safe: "adds idle c \<Longrightarrow> memory_safe s \<Longrightarrow> memory_safe (snd (c s))"
  by (rule hoare_adds_snd [OF memory_safe_idle])

lemma with_selection_safe:
  "hoare (phase False True False) body (\<lambda>_. memory_safe) (\<lambda>_. memory_safe) \<Longrightarrow>
     hoare (phase False True False) (with_selection env m d sel body) (\<lambda>_. memory_safe) (\<lambda>_. memory_safe)"
  unfolding with_selection_def
  by (intro unmapped_step hoare_finallyM [where Q' = "\<lambda>_. memory_safe" and E' = "\<lambda>_. memory_safe"]
      finally_idle_safe) (simp_all add: adds_rules)

lemma with_virtio_min_safe:
  assumes "\<And>m d dm dd notify region device_cfg. has_status m d \<Longrightarrow>
    hoare (phase False True False) (body m d dm dd notify region device_cfg) (\<lambda>_. memory_safe) (\<lambda>_. memory_safe)"
  shows "hoare (phase False True False) (with_virtio_min req env config cmd body) (\<lambda>_. memory_safe) (\<lambda>_. memory_safe)"
  unfolding with_virtio_min_def
  by (intro read_status_has unmapped_step hoare_case_prod assms) (simp_all add: adds_rules)

lemmas with_virtio_safe = with_virtio_min_safe [of _ 12, folded with_virtio_def]

section \<open>What a program owes to its scopes\<close>

text \<open>
  The body of the DMA scope starts with the reset guard armed; the contract is that it leaves it
  armed or the device quiet. The DMA scope then resets the device before it unmaps and frees.
\<close>

locale datapath =
  fixes env :: "'w env" and m :: MappedRegion and d :: u64 and body :: "('w st, 'a) M"
  assumes keeps_guarded: "has_status m d \<Longrightarrow> hoare (phase True False False) body (\<lambda>_. guarded) (\<lambda>_. guarded)"
begin

lemma reset_scope_quiet:
  assumes "has_status m d"
  shows "hoare (phase False False False) (thenM reset_guard_new (finallyM body (reset_guard_drop env m d)))
    (\<lambda>_. phase False False True) (\<lambda>_. phase False False True)"
proof -
  have reset: "hoare (phase True False False) (finallyM body (reset_guard_drop env m d))
      (\<lambda>_. phase False False True) (\<lambda>_. phase False False True)"
    by (rule hoare_finallyM [OF keeps_guarded [OF assms]]) (rule reset_guard_drop_quiet [OF assms], assumption)+
  show ?thesis
    by (rule hoare_bindM [OF _ reset]) (auto simp: hoare_def reset_guard_new_def modifyM_def phase_def)
qed

lemma with_dma_safe:
  assumes "has_status m d"
  shows "hoare (phase False True False) (with_dma env iova sz m d body) (\<lambda>_. memory_safe) (\<lambda>_. memory_safe)"
proof -
  have unmap: "hoare (phase False False False)
      (finallyM (thenM reset_guard_new (finallyM body (reset_guard_drop env m d)))
        (DmaMapping_drop env iova sz)) (\<lambda>_. memory_safe) (\<lambda>_. memory_safe)"
    by (rule hoare_finallyM [OF reset_scope_quiet [OF assms]]) (auto intro: memory_safe_phases DmaMapping_drop_quiet)
  have "adds harmless (AnonymousBuffer_new env sz)" "adds harmless AnonymousBuffer_zero"
    by (simp_all add: AnonymousBuffer_new_def AnonymousBuffer_zero_def adds_rules)
  then show ?thesis unfolding with_dma_def
    by (intro unmapped_step hoare_finallyM [OF unmapped_step [OF _ hoare_bindM [OF DmaMapping_new_maps unmap]]])
      (auto intro: AnonymousBuffer_drop_safe)
qed

end

text \<open>The contract of the part between the scope of \<open>pci_command\<close> and the end of the program.\<close>

locale device_program =
  fixes env :: "'w env" and body :: "ConfigRegion \<Rightarrow> u16 \<Rightarrow> ('w st, 'a) M"
  assumes body_safe: "hoare (phase False True False) (body config cmd) (\<lambda>_. memory_safe) (\<lambda>_. memory_safe)"
begin

lemma with_pci_safe:
  "hoare (phase False True False) (with_pci env body) (\<lambda>_. memory_safe) (\<lambda>_. memory_safe)"
  unfolding with_pci_def
  by (intro unmapped_step hoare_finallyM [OF body_safe] finally_idle_safe) (simp_all add: adds_rules)

lemma program_safe:
  "hoare (phase False True False) (with_iova_check env iova (with_pci env body)) (\<lambda>_. memory_safe) (\<lambda>_. memory_safe)"
  unfolding with_iova_check_def
  by (intro unmapped_step with_pci_safe) (simp_all add: adds_rules)

lemma resets_first:
  assumes "with_iova_check env iova (with_pci env body) s = (r, s')" and "trace s = []"
  shows "reset_first (trace s') \<and> (mapped (trace s') \<longrightarrow> quiet (trace s'))"
proof -
  have "phase False True False s"
    using assms(2) by (simp add: phase_def)
  with assms(1) program_safe have "memory_safe s'"
    by (cases r) (auto dest: hoare_Inl hoare_Inr)
  then show ?thesis by (simp add: memory_safe_def)
qed

end

end
