(* ===== verification/EchoRun.thy ===== *)
theory EchoRun
  imports EchoLoop Scopes
begin

text \<open>
  The whole of \<open>run_echo_loop\<close> of \<open>userspace_drivers/25_virtio_net_echo_loop.cpp\<close>, from the open VFIO
  device to the last destructor: set-up, the loops and the clean-up, in the scopes of Scopes. The
  theorem is that the device is reset before its memory goes, on every path.
\<close>

section \<open>The program\<close>

text \<open>
  From the publication of the RX buffers to the unmapping: the part during which the device may
  use the DMA buffer.
\<close>

definition echo_datapath ::
  "nat \<Rightarrow> 'w env \<Rightarrow> EchoOptions \<Rightarrow> ConfigRegion \<Rightarrow> u16 \<Rightarrow> MappedRegion \<Rightarrow> u64 \<Rightarrow> u16 \<Rightarrow>
     VirtioCap \<Rightarrow> RegionInfo \<Rightarrow> DmaLayout \<Rightarrow> u8 list \<Rightarrow> ('w st, EchoState) M" where
  "echo_datapath fuel env opt config original_command m d original_select notify notify_region layout
     reply_src_mac =
     (let rx_queue_base = unat (dl_rx_vring_offset layout);
          tx_queue_base = unat (dl_tx_vring_offset layout);
          rx_queue_iova = eo_iova opt + dl_rx_vring_offset layout;
          tx_queue_iova = eo_iova opt + dl_tx_vring_offset layout;
          rx_buffer_iova = eo_iova opt + dl_rx_buffers_offset layout;
          tx_buffers_iova = eo_iova opt + dl_tx_buffers_offset layout
      in thenM (publish_rx_buffers rx_queue_base (dl_rx_vring layout) rx_buffer_iova
                  (eo_rx_buffers opt) (eo_rx_buffer_size opt))
        (thenM (vload16 env (vring_avail_idx rx_queue_base (dl_rx_vring layout)))
        (thenM (read_used_idx env rx_queue_base (dl_rx_vring layout))
        (thenM (read_used_idx env tx_queue_base (dl_tx_vring layout))
        (bindM (program_and_enable_queue env m d (eo_rx_queue opt) (dl_rx_vring layout) rx_queue_iova ''RX queue'') (\<lambda>rx_after.
         bindM (program_and_enable_queue env m d (eo_tx_queue opt) (dl_tx_vring layout) tx_queue_iova ''TX queue'') (\<lambda>tx_after.
         bindM (map_notify_window env notify notify_region (qv_notify_off rx_after)) (\<lambda>rx_notify.
         bindM (map_notify_window env notify notify_region (qv_notify_off tx_after)) (\<lambda>tx_notify.
         bindM (read_used_idx env rx_queue_base (dl_rx_vring layout)) (\<lambda>last_rx.
         bindM (read_used_idx env tx_queue_base (dl_tx_vring layout)) (\<lambda>last_tx.
         let c = \<lparr>ec_layout = layout, ec_tx_buffers_iova = tx_buffers_iova,
                  ec_reply_src_mac = reply_src_mac, ec_rx_notify = rx_notify,
                  ec_rx_notify_value = qv_selected rx_after, ec_tx_notify = tx_notify,
                  ec_tx_notify_value = qv_selected tx_after\<rparr>;
             st = \<lparr>es_last_rx_used_idx = last_rx, es_pool = initial_pool (eo_tx_buffers opt) last_tx,
                   es_received_rx = 0, es_echoed_tx = 0, es_skipped_rx = 0\<rparr>
         in thenM (set_driver_ok env m d)
           (thenM (read_status env m d)
           (thenM (notify_rx env c)
           (bindM (run_loops fuel env opt c st) (\<lambda>st'.
            thenM (vload16 env (vring_avail_idx rx_queue_base (dl_rx_vring layout)))
           (thenM (read_used_idx env rx_queue_base (dl_rx_vring layout))
           (thenM (vload16 env (vring_avail_idx tx_queue_base (dl_tx_vring layout)))
           (thenM (read_used_idx env tx_queue_base (dl_tx_vring layout))
           (thenM (read_status env m d)
                  (clean_up env config original_command m d original_select (eo_iova opt)
                     (dl_total_size layout) st'))))))))))))))))))))"

text \<open>From the checks of the queue numbers to the DMA area.\<close>

definition echo_queue_scope ::
  "nat \<Rightarrow> 'w env \<Rightarrow> EchoOptions \<Rightarrow> ConfigRegion \<Rightarrow> u16 \<Rightarrow> MappedRegion \<Rightarrow> u64 \<Rightarrow> u16 \<Rightarrow>
     VirtioCap \<Rightarrow> RegionInfo \<Rightarrow> VirtioNetConfigView \<Rightarrow> ('w st, EchoState) M" where
  "echo_queue_scope fuel env opt config original_command m d original_select notify notify_region
     net_config =
     with_selection env m d original_select
      (bindM (size_queue env m d (eo_rx_queue opt) (eo_queue_size opt) ''RX queue'') (\<lambda>rx_queue_size.
       bindM (size_queue env m d (eo_tx_queue opt) (eo_queue_size opt) ''TX queue'') (\<lambda>tx_queue_size.
       let reply_src_mac = (case eo_src_mac opt of Some mac \<Rightarrow> mac | None \<Rightarrow> nc_mac net_config);
           tx_buffer_size = eo_rx_buffer_size opt
       in bindM (liftR (compute_dma_layout (env_page_size env) rx_queue_size tx_queue_size (eo_align opt)
            (eo_rx_buffers opt) (eo_tx_buffers opt) (eo_rx_buffer_size opt) tx_buffer_size)) (\<lambda>layout.
          with_dma env (eo_iova opt) (dl_total_size layout) m d
           (echo_datapath fuel env opt config original_command m d original_select notify notify_region
             layout reply_src_mac)))))"

text \<open>The negotiation and the checks of the queue numbers.\<close>

definition echo_device_scope ::
  "nat \<Rightarrow> 'w env \<Rightarrow> EchoOptions \<Rightarrow> ConfigRegion \<Rightarrow> u16 \<Rightarrow> ('w st, EchoState) M" where
  "echo_device_scope fuel env opt config original_command =
     with_virtio env config original_command (\<lambda>m d dm dd notify notify_region device_cfg.
     thenM (negotiate_minimal_features env m d)
    (bindM (read_virtio_net_config env dm dd (vc_length device_cfg)) (\<lambda>net_config.
     bindM (read16 env m (d + VIRTIO_PCI_COMMON_NUMQ)) (\<lambda>num_queues.
     bindM (read16 env m (d + VIRTIO_PCI_COMMON_Q_SELECT)) (\<lambda>original_select.
     thenM (throw_ifM (eo_rx_queue opt \<ge> num_queues) (RuntimeError ''RX queue index is outside num_queues''))
    (thenM (throw_ifM (eo_tx_queue opt \<ge> num_queues) (RuntimeError ''TX queue index is outside num_queues''))
    (thenM (throw_ifM (eo_rx_queue opt = eo_tx_queue opt)
       (RuntimeError ''RX queue and TX queue must be different''))
       (echo_queue_scope fuel env opt config original_command m d original_select notify notify_region
          net_config))))))))"

definition run_echo_loop :: "nat \<Rightarrow> 'w env \<Rightarrow> EchoOptions \<Rightarrow> ('w st, EchoState) M" where
  "run_echo_loop fuel env opt =
     with_iova_check env (eo_iova opt) (with_pci env (echo_device_scope fuel env opt))"

section \<open>What the loops do to the outside\<close>

lemma adds_completion_loop [adds_rules]: "adds P (completion_loop env b l is pool)"
  by (induction "is" arbitrary: pool) (simp_all add: Let_def adds_rules)

lemma adds_consume [adds_rules]: "adds P (consume_tx_completions env b l pool)"
  by (simp add: consume_tx_completions_def Let_def adds_rules)

lemma adds_wait_tx_slot [adds_rules]: "adds P (wait_tx_slot fuel env c dl slot pool)"
  by (induction fuel arbitrary: slot pool) (simp_all add: Let_def adds_rules)

lemma adds_echo_entry [adds_rules]: "adds harmless (echo_entry env opt c dl i st)"
  by (simp add: echo_entry_def send_reply_def recycle_and_notify_def notify_rx_def notify_tx_def Let_def adds_rules)

lemma adds_echo_entries [adds_rules]: "adds harmless (echo_entries env opt c dl is st)"
  by (induction "is" arbitrary: st) (simp_all add: adds_rules)

lemma adds_echo_loop [adds_rules]: "adds harmless (echo_loop fuel env opt c dl st)"
  by (induction fuel arbitrary: st)
    (simp_all add: adds_rules echo_round_def Let_def)

lemma adds_drain_loop [adds_rules]: "adds P (drain_loop fuel env c dl st)"
  by (induction fuel arbitrary: st) (simp_all add: Let_def adds_rules)

lemma adds_run_loops [adds_rules]: "adds harmless (run_loops fuel env opt c st)"
  by (simp add: run_loops_def adds_rules)

section \<open>The device is reset before its memory goes\<close>

lemma echo_datapath_guarded:
  assumes "has_status m d"
  shows "hoare (phase True False False)
    (echo_datapath fuel env opt config cmd m d sel notify region layout mac)
    (\<lambda>_. guarded) (\<lambda>_. guarded)"
  unfolding echo_datapath_def Let_def
  by (intro armed_step clean_up_guarded [OF assms]) (simp_all add: adds_rules notify_rx_def)

interpretation echo_path:
  datapath env m d "echo_datapath fuel env opt config cmd m d sel notify region layout mac"
  for env :: "'w env" and m d fuel opt config cmd sel notify region layout mac
  by unfold_locales (rule echo_datapath_guarded)

lemma echo_queue_scope_safe:
  assumes "has_status m d"
  shows "hoare (phase False True False)
    (echo_queue_scope fuel env opt config cmd m d sel notify region view)
    (\<lambda>_. memory_safe) (\<lambda>_. memory_safe)"
  unfolding echo_queue_scope_def Let_def
  by (intro with_selection_safe unmapped_step echo_path.with_dma_safe [OF assms]) (simp_all add: adds_rules)

lemma echo_device_scope_safe:
  "hoare (phase False True False) (echo_device_scope fuel env opt config cmd)
    (\<lambda>_. memory_safe) (\<lambda>_. memory_safe)"
  unfolding echo_device_scope_def
  by (intro with_virtio_safe unmapped_step echo_queue_scope_safe)
    (simp_all add: adds_rules negotiate_minimal_features_def)

interpretation echo_run: device_program env "echo_device_scope fuel env opt" for env :: "'w env" and fuel opt
  by unfold_locales (rule echo_device_scope_safe)

text \<open>The options of a run without arguments.\<close>

definition default_options :: EchoOptions where
  "default_options = \<lparr>eo_rx_queue = 0, eo_tx_queue = 1, eo_queue_size = None, eo_iova = 0x100000000,
     eo_align = 4096, eo_rx_buffers = 64, eo_tx_buffers = 8, eo_rx_buffer_size = 2048, eo_run_ms = 30000,
     eo_max_packets = 3, eo_dump_bytes = 160, eo_src_mac = None, eo_match_ethertype = Some 0x88b5,
     eo_dump_every_packet = False, eo_yes = False\<rparr>"



end
