(* ===== verification/IrqEcho.thy ===== *)
theory IrqEcho
  imports EchoRun
begin

text \<open>
  The interrupt-driven echo loop of \<open>userspace_drivers/26_virtio_net_irq_echo_loop.cpp\<close>, with the
  interrupt functions of \<open>userspace_drivers/vfio_utils.hpp\<close>: the choice and the binding of the
  MSI-X vectors to eventfds, the guard that unbinds them, the wait for an interrupt, the loops and
  the whole of \<open>run_irq_echo_loop\<close>. The pool of TX descriptors, the treatment of a reply and the
  options it shares with exercise 25 are those of EchoLoop.
\<close>

section \<open>Interrupts of a VFIO device\<close>

text \<open>The fields of \<open>vfio_irq_info\<close> that the sources use.\<close>

record IrqInfo =
  ii_flags :: u32
  ii_count :: u32

definition VFIO_IRQ_INFO_EVENTFD :: u32 where "VFIO_IRQ_INFO_EVENTFD = 1"
definition VFIO_IRQ_INFO_NORESIZE :: u32 where "VFIO_IRQ_INFO_NORESIZE = 8"
definition VFIO_PCI_MSIX_IRQ_INDEX :: u32 where "VFIO_PCI_MSIX_IRQ_INDEX = 2"

text \<open>\<open>num_irqs\<close> is the only field of \<open>vfio_device_info\<close> that the sources read.\<close>

definition vfio_get_device_info :: "'w env \<Rightarrow> ('w st, u32) M" where
  "vfio_get_device_info env =
     bindM (external (env_num_irqs env)) (\<lambda>r.
     case r of Inl n \<Rightarrow> throwM (sys_error env ''VFIO_DEVICE_GET_INFO'' n) | Inr num \<Rightarrow> returnM num)"

definition vfio_get_irq_info :: "'w env \<Rightarrow> u32 \<Rightarrow> ('w st, IrqInfo) M" where
  "vfio_get_irq_info env index =
     bindM (external (env_irq_info env index)) (\<lambda>r.
     case r of Inl n \<Rightarrow> throwM (sys_error env ''VFIO_DEVICE_GET_IRQ_INFO'' n)
     | Inr (count, flags) \<Rightarrow> returnM \<lparr>ii_flags = flags, ii_count = count\<rparr>)"

definition vfio_set_irq_eventfds :: "'w env \<Rightarrow> u32 \<Rightarrow> u32 \<Rightarrow> int list \<Rightarrow> ('w st, unit) M" where
  "vfio_set_irq_eventfds env index start event_fds =
     bindM (external (env_set_irqs env index start event_fds)) (\<lambda>r.
     case r of Some n \<Rightarrow> throwM (sys_error env ''VFIO_DEVICE_SET_IRQS(eventfd trigger)'' n)
     | None \<Rightarrow> emit (IrqSet index start event_fds))"

definition vfio_disable_irq_index :: "'w env \<Rightarrow> u32 \<Rightarrow> ('w st, unit) M" where
  "vfio_disable_irq_index env index =
     bindM (external (env_disable_irq env index)) (\<lambda>r.
     case r of Some n \<Rightarrow> throwM (sys_error env ''VFIO_DEVICE_SET_IRQS(disable irq index)'' n)
     | None \<Rightarrow> emit (IrqDisable index))"

section \<open>IrqEventfdBinding\<close>

record IrqEventfdBinding =
  ib_vector :: u16
  ib_fd :: int

definition IrqEventfdBinding_new :: "'w env \<Rightarrow> u16 \<Rightarrow> ('w st, IrqEventfdBinding) M" where
  "IrqEventfdBinding_new env vector =
     bindM (external (env_eventfd env)) (\<lambda>r.
     case r of Inl n \<Rightarrow> throwM (sys_error env ''eventfd'' n)
     | Inr raw_event_fd \<Rightarrow> returnM \<lparr>ib_vector = vector, ib_fd = raw_event_fd\<rparr>)"

definition EAGAIN :: int where "EAGAIN = 11"

text \<open>The loop of \<open>drain\<close>; one unit of fuel is one \<open>read\<close>.\<close>

primrec drain_eventfd :: "nat \<Rightarrow> 'w env \<Rightarrow> IrqEventfdBinding \<Rightarrow> u64 \<Rightarrow> ('w st, u64) M" where
  "drain_eventfd 0 env irq acc = throwM OutOfFuel"
| "drain_eventfd (Suc fuel) env irq acc =
     bindM (external (env_read_eventfd env (ib_fd irq))) (\<lambda>r.
     case r of
       Inl n \<Rightarrow>
         if n = EINTR then drain_eventfd fuel env irq acc
         else if n = EAGAIN then returnM acc
         else throwM (sys_error env ''read(eventfd)'' n)
     | Inr (got, count) \<Rightarrow>
         if got \<noteq> 8 then throwM (RuntimeError ''short read from eventfd'')
         else drain_eventfd fuel env irq (acc + count))"

definition irq_drain :: "'w env \<Rightarrow> IrqEventfdBinding \<Rightarrow> ('w st, u64) M" where
  "irq_drain env irq = drain_eventfd (env_fuel env) env irq 0"

section \<open>IrqIndexBindingGuard\<close>

definition irq_activate :: "('w st, unit) M" where
  "irq_activate = modifyM (\<lambda>s. s\<lparr>irq_active := True\<rparr>)"

definition irq_disable :: "'w env \<Rightarrow> u32 \<Rightarrow> ('w st, unit) M" where
  "irq_disable env irq_index =
     bindM (readM irq_active) (\<lambda>active.
     if \<not> active then returnM ()
     else thenM (vfio_disable_irq_index env irq_index) (modifyM (\<lambda>s. s\<lparr>irq_active := False\<rparr>)))"

text \<open>\<open>disable_noexcept\<close>, the destructor; the scope it ends drops what it throws.\<close>

definition irq_guard_drop :: "'w env \<Rightarrow> u32 \<Rightarrow> ('w st, unit) M" where
  "irq_guard_drop env irq_index =
     finallyM
       (bindM (readM irq_active) (\<lambda>active.
        if active then vfio_disable_irq_index env irq_index else returnM ()))
       (modifyM (\<lambda>s. s\<lparr>irq_active := False\<rparr>))"

section \<open>Waiting for an interrupt\<close>

definition INT_MAX :: nat where "INT_MAX = 2147483647"

definition timeout_until :: "'w env \<Rightarrow> nat \<Rightarrow> ('w st, nat) M" where
  "timeout_until env deadline =
     bindM (now env) (\<lambda>t.
     returnM (if t \<ge> deadline then 0
       else let remaining = (deadline - t) div ms 1
            in if remaining > INT_MAX then INT_MAX else remaining))"

definition POLLERR :: u16 where "POLLERR = 8"
definition POLLHUP :: u16 where "POLLHUP = 16"
definition POLLNVAL :: u16 where "POLLNVAL = 32"

text \<open>
  The loop around \<open>poll\<close>: the number of ready descriptors and \<open>revents\<close> of each. The call takes some
  time, however it ends. One unit of fuel is one call.
\<close>

primrec poll_wait :: "nat \<Rightarrow> 'w env \<Rightarrow> int list \<Rightarrow> nat \<Rightarrow> ('w st, nat \<times> u16 list) M" where
  "poll_wait 0 env fds timeout_ms = throwM OutOfFuel"
| "poll_wait (Suc fuel) env fds timeout_ms =
     bindM (external (env_poll env fds (int timeout_ms))) (\<lambda>r.
     thenM (sleep_for env 0)
     (case r of
        Inl n \<Rightarrow> if n = EINTR then poll_wait fuel env fds timeout_ms
                 else throwM (sys_error env ''poll(eventfd)'' n)
      | Inr ready \<Rightarrow> returnM ready))"

definition poll_irq_events ::
  "'w env \<Rightarrow> IrqEventfdBinding \<Rightarrow> IrqEventfdBinding option \<Rightarrow> nat \<Rightarrow> ('w st, bool) M" where
  "poll_irq_events env rx_irq tx_irq timeout_ms =
     (let fds = ib_fd rx_irq # (case tx_irq of None \<Rightarrow> [] | Some tx \<Rightarrow> [ib_fd tx])
      in bindM (poll_wait (env_fuel env) env fds timeout_ms) (\<lambda>(ready, revents).
         if ready = 0 then returnM False
         else if \<exists>ev \<in> set (take (length fds) revents). ev AND (POLLERR OR POLLHUP OR POLLNVAL) \<noteq> 0
         then throwM (RuntimeError ''eventfd poll returned error events'')
         else thenM (irq_drain env rx_irq)
             (thenM (case tx_irq of None \<Rightarrow> returnM 0 | Some tx \<Rightarrow> irq_drain env tx)
                    (returnM True))))"

section \<open>Queues with a vector, and the binding of the vectors\<close>

definition program_and_enable_queue_with_msix ::
  "'w env \<Rightarrow> MappedRegion \<Rightarrow> u64 \<Rightarrow> u16 \<Rightarrow> VringLayout \<Rightarrow> u64 \<Rightarrow> u16 \<Rightarrow> string \<Rightarrow> ('w st, QueueView) M" where
  "program_and_enable_queue_with_msix env mapping mapping_delta queue layout queue_iova vector label =
     thenM (selection_select env mapping mapping_delta queue)
    (bindM (read_queue_view env mapping mapping_delta) (\<lambda>before.
     thenM (throw_ifM (qv_enable before \<noteq> 0)
       (RuntimeError (label @ '' is already enabled; reset the device before using this tutorial sample'')))
    (thenM (write16 env mapping (mapping_delta + VIRTIO_PCI_COMMON_Q_MSIX) vector)
    (bindM (read_queue_view env mapping mapping_delta) (\<lambda>after_vector.
     thenM (throw_ifM (qv_msix_vector after_vector \<noteq> vector)
       (RuntimeError (label @ '' queue_msix_vector did not read back as the requested vector'')))
    (thenM (program_queue_addresses env mapping mapping_delta layout queue_iova)
    (thenM (read_queue_view env mapping mapping_delta)
    (thenM (enable_queue env mapping mapping_delta)
    (bindM (read_queue_view env mapping mapping_delta) (\<lambda>after_enable.
     thenM (throw_ifM (qv_enable after_enable \<noteq> 1)
       (RuntimeError (label @ '' queue_enable did not read back as 1'')))
       (returnM after_enable)))))))))))"

text \<open>The options that exercise 25 does not have, beside those it has.\<close>

record IrqOptions =
  io_echo :: EchoOptions
  io_irq_index :: u32
  io_rx_vector :: u16
  io_tx_vector :: u16

definition validate_irq_vectors :: "'w env \<Rightarrow> IrqOptions \<Rightarrow> ('w st, IrqInfo) M" where
  "validate_irq_vectors env opt =
     bindM (vfio_get_device_info env) (\<lambda>num_irqs.
     thenM (throw_ifM (io_irq_index opt \<ge> num_irqs)
       (RuntimeError (''IRQ index '' @ to_string (unat (io_irq_index opt)) @ '' is outside num_irqs='' @
         to_string (unat num_irqs))))
    (bindM (vfio_get_irq_info env (io_irq_index opt)) (\<lambda>irq.
     thenM (throw_ifM (ii_flags irq AND VFIO_IRQ_INFO_EVENTFD = 0)
       (RuntimeError (''IRQ index '' @ to_string (unat (io_irq_index opt)) @ '' does not support eventfd delivery'')))
    (thenM (throw_ifM (ucast (io_rx_vector opt) \<ge> ii_count irq)
       (RuntimeError (''rx-vector '' @ to_string (unat (io_rx_vector opt)) @ '' is outside IRQ count='' @
         to_string (unat (ii_count irq)))))
    (thenM (throw_ifM (ucast (io_tx_vector opt) \<ge> ii_count irq)
       (RuntimeError (''tx-vector '' @ to_string (unat (io_tx_vector opt)) @ '' is outside IRQ count='' @
         to_string (unat (ii_count irq)))))
       (returnM irq))))))"

text \<open>\<open>event_fds[i] = fd\<close>: undefined when \<open>i\<close> is outside the vector.\<close>

definition set_event_fd :: "int list \<Rightarrow> u32 \<Rightarrow> int \<Rightarrow> int list res" where
  "set_event_fd event_fds i fd =
     (if unat i < length event_fds then Inr (event_fds[unat i := fd])
      else Inl (Undefined ''event_fds index outside the vector''))"

text \<open>\<open>min_vector\<close> and \<open>max_vector\<close>, then \<open>start\<close> and \<open>count\<close>, the arithmetic in 32 bits.\<close>

definition irq_range :: "IrqInfo \<Rightarrow> u16 \<Rightarrow> u16 option \<Rightarrow> u32 \<times> u32" where
  "irq_range irq rx_vector tx_vector =
     (let rx = ucast rx_vector :: u32;
          tx = (case tx_vector of None \<Rightarrow> rx | Some v \<Rightarrow> ucast v);
          min_vector = min rx tx;
          max_vector = max rx tx
      in if ii_flags irq AND VFIO_IRQ_INFO_NORESIZE \<noteq> 0 then (0, ii_count irq)
         else (min_vector, max_vector - min_vector + 1))"

definition bind_irq_eventfds ::
  "'w env \<Rightarrow> u32 \<Rightarrow> IrqInfo \<Rightarrow> IrqEventfdBinding \<Rightarrow> IrqEventfdBinding option \<Rightarrow> ('w st, unit) M" where
  "bind_irq_eventfds env irq_index irq rx_irq tx_irq =
     (let (start, count) = irq_range irq (ib_vector rx_irq) (map_option ib_vector tx_irq);
          event_fds = replicate (unat count) (-1)
      in bindM (liftR (set_event_fd event_fds (ucast (ib_vector rx_irq) - start) (ib_fd rx_irq))) (\<lambda>event_fds1.
         bindM (case tx_irq of None \<Rightarrow> returnM event_fds1
                | Some tx \<Rightarrow> liftR (set_event_fd event_fds1 (ucast (ib_vector tx) - start) (ib_fd tx))) (\<lambda>event_fds2.
         vfio_set_irq_eventfds env irq_index start event_fds2)))"

text \<open>The options of a run without arguments.\<close>

definition irq_opt :: IrqOptions where
  "irq_opt = \<lparr>io_echo = default_options, io_irq_index = VFIO_PCI_MSIX_IRQ_INDEX, io_rx_vector = 0, io_tx_vector = 1\<rparr>"

section \<open>One received packet\<close>

text \<open>
  The body of the loop over the new used entries, for entry \<open>i\<close>. Unlike exercise 25, it does not
  wait for a free TX descriptor: without one the packet is dropped and the loop goes on. The flag of
  the result is true when the body ends with \<open>break\<close>.
\<close>

definition irq_entry ::
  "'w env \<Rightarrow> EchoOptions \<Rightarrow> EchoCtx \<Rightarrow> nat \<Rightarrow> EchoState \<Rightarrow> ('w st, bool \<times> EchoState) M" where
  "irq_entry env opt c i st =
     (let used_slot = used_slot_of (dl_rx_vring (ec_layout c)) (es_last_rx_used_idx st) i
      in bindM (read_rx_used_packet env (rx_base c) (ec_layout c) used_slot (eo_rx_buffers opt)
                  (eo_rx_buffer_size opt) (eo_match_ethertype opt)) (\<lambda>received.
         case received of
           None \<Rightarrow>
             bindM (used_elem_id env (rx_base c) (dl_rx_vring (ec_layout c)) (unat used_slot)) (\<lambda>did.
             thenM (if did < ucast (eo_rx_buffers opt) then recycle_and_notify env c did else returnM ())
                   (returnM (False, st\<lparr>es_skipped_rx := es_skipped_rx st + 1\<rparr>)))
         | Some p \<Rightarrow>
             let st1 = st\<lparr>es_received_rx := es_received_rx st + 1\<rparr>
             in bindM (consume_tx_completions env (tx_base c) (dl_tx_vring (ec_layout c)) (es_pool st1)) (\<lambda>(_, pool).
                let st2 = st1\<lparr>es_pool := pool\<rparr>
                in case find_free_tx_slot (tp_slots pool) of
                     None \<Rightarrow> thenM (recycle_and_notify env c (rp_desc_id p)) (returnM (False, st2))
                   | Some k \<Rightarrow>
                       bindM (send_reply env c p k st2) (\<lambda>st3.
                       returnM (es_echoed_tx st3 \<ge> eo_max_packets opt, st3)))))"

primrec irq_entries ::
  "'w env \<Rightarrow> EchoOptions \<Rightarrow> EchoCtx \<Rightarrow> nat list \<Rightarrow> EchoState \<Rightarrow> ('w st, EchoState) M" where
  "irq_entries env opt c [] st = returnM st"
| "irq_entries env opt c (i # is) st =
     bindM (irq_entry env opt c i st) (\<lambda>(brk, st').
     if brk then returnM st' else irq_entries env opt c is st')"

section \<open>The loops\<close>

text \<open>The wait at the end of a round without progress; the result says whether to go on.\<close>

definition irq_wait ::
  "'w env \<Rightarrow> IrqEventfdBinding \<Rightarrow> IrqEventfdBinding option \<Rightarrow> nat \<Rightarrow> ('w st, bool) M" where
  "irq_wait env rx_irq tx_irq deadline =
     bindM (timeout_until env deadline) (\<lambda>timeout_ms.
     if timeout_ms \<le> 0 then returnM False
     else poll_irq_events env rx_irq tx_irq timeout_ms)"

text \<open>One round of the main loop; the flag of the result is false when it ends with \<open>break\<close>.\<close>

definition irq_round ::
  "'w env \<Rightarrow> EchoOptions \<Rightarrow> EchoCtx \<Rightarrow> IrqEventfdBinding \<Rightarrow> IrqEventfdBinding option \<Rightarrow> nat \<Rightarrow>
     EchoState \<Rightarrow> ('w st, bool \<times> EchoState) M" where
  "irq_round env opt c rx_irq tx_irq deadline st =
     bindM (consume_tx_completions env (tx_base c) (dl_tx_vring (ec_layout c)) (es_pool st)) (\<lambda>(consumed, pool).
     let st1 = st\<lparr>es_pool := pool\<rparr>
     in bindM (read_used_idx env (rx_base c) (dl_rx_vring (ec_layout c))) (\<lambda>current_rx_used.
        let rx_count = used_delta (es_last_rx_used_idx st1) current_rx_used;
            made_progress = (consumed \<or> rx_count \<noteq> 0)
        in bindM (irq_entries env opt c [0..<unat rx_count] st1) (\<lambda>st2.
           let st3 = st2\<lparr>es_last_rx_used_idx := current_rx_used\<rparr>
           in if es_echoed_tx st3 \<ge> eo_max_packets opt then returnM (False, st3)
              else if made_progress then returnM (True, st3)
              else bindM (irq_wait env rx_irq tx_irq deadline) (\<lambda>go. returnM (go, st3)))))"

text \<open>The main loop; one unit of fuel is one round.\<close>

primrec irq_loop ::
  "nat \<Rightarrow> 'w env \<Rightarrow> EchoOptions \<Rightarrow> EchoCtx \<Rightarrow> IrqEventfdBinding \<Rightarrow> IrqEventfdBinding option \<Rightarrow> nat \<Rightarrow>
     EchoState \<Rightarrow> ('w st, EchoState) M" where
  "irq_loop 0 env opt c rx_irq tx_irq deadline st = throwM OutOfFuel"
| "irq_loop (Suc fuel) env opt c rx_irq tx_irq deadline st =
     (if \<not> es_echoed_tx st < eo_max_packets opt then returnM st
      else bindM (now env) (\<lambda>t.
        if t < deadline
        then bindM (irq_round env opt c rx_irq tx_irq deadline st) (\<lambda>(go, st').
             if go then irq_loop fuel env opt c rx_irq tx_irq deadline st' else returnM st')
        else returnM st))"

text \<open>The wait for the last completions, at most a second; one unit of fuel is one round.\<close>

primrec irq_drain_loop ::
  "nat \<Rightarrow> 'w env \<Rightarrow> EchoCtx \<Rightarrow> IrqEventfdBinding \<Rightarrow> IrqEventfdBinding option \<Rightarrow> nat \<Rightarrow>
     EchoState \<Rightarrow> ('w st, EchoState) M" where
  "irq_drain_loop 0 env c rx_irq tx_irq tx_deadline st = throwM OutOfFuel"
| "irq_drain_loop (Suc fuel) env c rx_irq tx_irq tx_deadline st =
     (if \<not> tp_completed (es_pool st) < es_echoed_tx st then returnM st
      else bindM (now env) (\<lambda>t.
        if t < tx_deadline
        then bindM (consume_tx_completions env (tx_base c) (dl_tx_vring (ec_layout c)) (es_pool st)) (\<lambda>(consumed, pool).
             let st' = st\<lparr>es_pool := pool\<rparr>
             in if consumed then irq_drain_loop fuel env c rx_irq tx_irq tx_deadline st'
                else bindM (irq_wait env rx_irq tx_irq tx_deadline) (\<lambda>go.
                  if go then irq_drain_loop fuel env c rx_irq tx_irq tx_deadline st' else returnM st'))
        else returnM st))"

definition run_irq_loops ::
  "nat \<Rightarrow> 'w env \<Rightarrow> EchoOptions \<Rightarrow> EchoCtx \<Rightarrow> IrqEventfdBinding \<Rightarrow> IrqEventfdBinding option \<Rightarrow>
     EchoState \<Rightarrow> ('w st, EchoState) M" where
  "run_irq_loops fuel env opt c rx_irq tx_irq st =
     bindM (now env) (\<lambda>t.
     bindM (irq_loop fuel env opt c rx_irq tx_irq (t + ms (unat (eo_run_ms opt))) st) (\<lambda>st1.
     bindM (now env) (\<lambda>t'.
     irq_drain_loop fuel env c rx_irq tx_irq (t' + ms 1000) st1)))"

section \<open>The program\<close>

text \<open>
  From the publication of the RX buffers to the unmapping. Unlike exercise 25, each queue gets its
  vector, and the interrupts are unbound before the clean-up.
\<close>

definition irq_datapath ::
  "nat \<Rightarrow> 'w env \<Rightarrow> IrqOptions \<Rightarrow> IrqEventfdBinding \<Rightarrow> IrqEventfdBinding option \<Rightarrow> ConfigRegion \<Rightarrow> u16 \<Rightarrow>
     MappedRegion \<Rightarrow> u64 \<Rightarrow> u16 \<Rightarrow> VirtioCap \<Rightarrow> RegionInfo \<Rightarrow> DmaLayout \<Rightarrow> u8 list \<Rightarrow> ('w st, EchoState) M" where
  "irq_datapath fuel env iopt rx_irq tx_irq config original_command m d original_select notify notify_region
     layout reply_src_mac =
     (let opt = io_echo iopt;
          rx_queue_base = unat (dl_rx_vring_offset layout);
          tx_queue_base = unat (dl_tx_vring_offset layout);
          rx_queue_iova = eo_iova opt + dl_rx_vring_offset layout;
          tx_queue_iova = eo_iova opt + dl_tx_vring_offset layout;
          rx_buffer_iova = eo_iova opt + dl_rx_buffers_offset layout;
          tx_buffers_iova = eo_iova opt + dl_tx_buffers_offset layout
      in thenM (publish_rx_buffers rx_queue_base (dl_rx_vring layout) rx_buffer_iova
                  (eo_rx_buffers opt) (eo_rx_buffer_size opt))
        (thenM (vload16 env (vring_avail_idx rx_queue_base (dl_rx_vring layout)))
        (thenM (read_used_idx env rx_queue_base (dl_rx_vring layout))
        (thenM (read_used_idx env tx_queue_base (dl_tx_vring layout))
        (bindM (program_and_enable_queue_with_msix env m d (eo_rx_queue opt) (dl_rx_vring layout) rx_queue_iova
                  (io_rx_vector iopt) ''RX queue'') (\<lambda>rx_after.
         bindM (program_and_enable_queue_with_msix env m d (eo_tx_queue opt) (dl_tx_vring layout) tx_queue_iova
                  (io_tx_vector iopt) ''TX queue'') (\<lambda>tx_after.
         bindM (map_notify_window env notify notify_region (qv_notify_off rx_after)) (\<lambda>rx_notify.
         bindM (map_notify_window env notify notify_region (qv_notify_off tx_after)) (\<lambda>tx_notify.
         bindM (read_used_idx env rx_queue_base (dl_rx_vring layout)) (\<lambda>last_rx.
         bindM (read_used_idx env tx_queue_base (dl_tx_vring layout)) (\<lambda>last_tx.
         let c = \<lparr>ec_layout = layout, ec_tx_buffers_iova = tx_buffers_iova,
                  ec_reply_src_mac = reply_src_mac, ec_rx_notify = rx_notify,
                  ec_rx_notify_value = qv_selected rx_after, ec_tx_notify = tx_notify,
                  ec_tx_notify_value = qv_selected tx_after\<rparr>;
             st = \<lparr>es_last_rx_used_idx = last_rx, es_pool = initial_pool (eo_tx_buffers opt) last_tx,
                   es_received_rx = 0, es_echoed_tx = 0, es_skipped_rx = 0\<rparr>
         in thenM (set_driver_ok env m d)
           (thenM (read_status env m d)
           (thenM (notify_rx env c)
           (bindM (run_irq_loops fuel env opt c rx_irq tx_irq st) (\<lambda>st'.
            thenM (vload16 env (vring_avail_idx rx_queue_base (dl_rx_vring layout)))
           (thenM (read_used_idx env rx_queue_base (dl_rx_vring layout))
           (thenM (vload16 env (vring_avail_idx tx_queue_base (dl_tx_vring layout)))
           (thenM (read_used_idx env tx_queue_base (dl_tx_vring layout))
           (thenM (read_status env m d)
           (thenM (irq_disable env (io_irq_index iopt))
                  (clean_up env config original_command m d original_select (eo_iova opt)
                     (dl_total_size layout) st')))))))))))))))))))))"

definition irq_queue_scope ::
  "nat \<Rightarrow> 'w env \<Rightarrow> IrqOptions \<Rightarrow> IrqEventfdBinding \<Rightarrow> IrqEventfdBinding option \<Rightarrow> ConfigRegion \<Rightarrow> u16 \<Rightarrow>
     MappedRegion \<Rightarrow> u64 \<Rightarrow> u16 \<Rightarrow> VirtioCap \<Rightarrow> RegionInfo \<Rightarrow> VirtioNetConfigView \<Rightarrow> ('w st, EchoState) M" where
  "irq_queue_scope fuel env iopt rx_irq tx_irq config original_command m d original_select notify notify_region
     net_config =
     (let opt = io_echo iopt
      in with_selection env m d original_select
      (bindM (size_queue env m d (eo_rx_queue opt) (eo_queue_size opt) ''RX queue'') (\<lambda>rx_queue_size.
       bindM (size_queue env m d (eo_tx_queue opt) (eo_queue_size opt) ''TX queue'') (\<lambda>tx_queue_size.
       let reply_src_mac = (case eo_src_mac opt of Some mac \<Rightarrow> mac | None \<Rightarrow> nc_mac net_config);
           tx_buffer_size = eo_rx_buffer_size opt
       in bindM (liftR (compute_dma_layout (env_page_size env) rx_queue_size tx_queue_size (eo_align opt)
            (eo_rx_buffers opt) (eo_tx_buffers opt) (eo_rx_buffer_size opt) tx_buffer_size)) (\<lambda>layout.
          with_dma env (eo_iova opt) (dl_total_size layout) m d
           (irq_datapath fuel env iopt rx_irq tx_irq config original_command m d original_select notify
             notify_region layout reply_src_mac))))))"

definition irq_device_scope ::
  "nat \<Rightarrow> 'w env \<Rightarrow> IrqOptions \<Rightarrow> IrqEventfdBinding \<Rightarrow> IrqEventfdBinding option \<Rightarrow> ConfigRegion \<Rightarrow> u16 \<Rightarrow>
     ('w st, EchoState) M" where
  "irq_device_scope fuel env iopt rx_irq tx_irq config original_command =
     with_virtio env config original_command (\<lambda>m d dm dd notify notify_region device_cfg.
     let opt = io_echo iopt
     in thenM (negotiate_minimal_features env m d)
    (bindM (read_virtio_net_config env dm dd (vc_length device_cfg)) (\<lambda>net_config.
     bindM (read16 env m (d + VIRTIO_PCI_COMMON_NUMQ)) (\<lambda>num_queues.
     bindM (read16 env m (d + VIRTIO_PCI_COMMON_Q_SELECT)) (\<lambda>original_select.
     thenM (throw_ifM (eo_rx_queue opt \<ge> num_queues) (RuntimeError ''RX queue index is outside num_queues''))
    (thenM (throw_ifM (eo_tx_queue opt \<ge> num_queues) (RuntimeError ''TX queue index is outside num_queues''))
    (thenM (throw_ifM (eo_rx_queue opt = eo_tx_queue opt)
       (RuntimeError ''RX queue and TX queue must be different''))
       (irq_queue_scope fuel env iopt rx_irq tx_irq config original_command m d original_select notify
          notify_region net_config))))))))"

text \<open>
  The scope of \<open>irq_bindings\<close>: the vectors are bound, the guard is made active, and its destructor
  runs however the rest ends. The guard exists before the binding, and is not active while it runs.
\<close>

definition with_irq_bindings ::
  "'w env \<Rightarrow> u32 \<Rightarrow> IrqInfo \<Rightarrow> IrqEventfdBinding \<Rightarrow> IrqEventfdBinding option \<Rightarrow> ('w st, 'a) M \<Rightarrow> ('w st, 'a) M" where
  "with_irq_bindings env irq_index irq_info rx_irq tx_irq body =
     thenM (modifyM (\<lambda>s. s\<lparr>irq_active := False\<rparr>))
      (finallyM
        (thenM (bind_irq_eventfds env irq_index irq_info rx_irq tx_irq)
        (thenM irq_activate body))
        (irq_guard_drop env irq_index))"

definition run_irq_echo_loop :: "nat \<Rightarrow> 'w env \<Rightarrow> IrqOptions \<Rightarrow> ('w st, EchoState) M" where
  "run_irq_echo_loop fuel env iopt =
     with_iova_check env (eo_iova (io_echo iopt))
      (bindM (validate_irq_vectors env iopt) (\<lambda>irq_info.
       bindM (IrqEventfdBinding_new env (io_rx_vector iopt)) (\<lambda>rx_irq.
       bindM (if io_tx_vector iopt \<noteq> io_rx_vector iopt
              then bindM (IrqEventfdBinding_new env (io_tx_vector iopt)) (\<lambda>tx. returnM (Some tx))
              else returnM None) (\<lambda>tx_irq.
       with_irq_bindings env (io_irq_index iopt) irq_info rx_irq tx_irq
         (with_pci env (irq_device_scope fuel env iopt rx_irq tx_irq))))))"

section \<open>The loop stays inside the DMA buffer\<close>

lemma adds_drain_eventfd: "adds P (drain_eventfd fuel env irq acc)"
  by (induction fuel arbitrary: acc) (simp_all add: adds_rules)

lemma adds_poll_wait: "adds P (poll_wait fuel env fds t)"
  by (induction fuel) (simp_all add: adds_rules)

lemma adds_irq_wait [adds_rules]:
  "adds P (timeout_until env dl)" "adds P (poll_irq_events env rx tx t)" "adds P (irq_wait env rx tx dl)"
  by (simp_all add: timeout_until_def poll_irq_events_def irq_wait_def irq_drain_def Let_def
      adds_drain_eventfd adds_poll_wait adds_rules)

lemma safe_drain_eventfd: "safe (buffer_size n) (drain_eventfd fuel env irq acc)"
  by (induction fuel arbitrary: acc) (auto simp: safe_rules split: sum.splits)

lemma safe_poll_wait: "safe (buffer_size n) (poll_wait fuel env fds t)"
  by (induction fuel) (auto simp: safe_rules split: sum.splits)

lemma safe_irq_wait: "safe (buffer_size n) (irq_wait env rx tx dl)"
  unfolding irq_wait_def timeout_until_def poll_irq_events_def irq_drain_def Let_def
  by (auto simp: safe_rules safe_drain_eventfd safe_poll_wait split: option.splits)

lemma irq_entry_yields:
  assumes env: "env_ok env" and ok: "echo_ctx_ok opt c n" and st: "echo_state_ok opt st"
    and less: "es_echoed_tx st < eo_max_packets opt"
  shows "yields n (irq_entry env opt c i st) (entry_done opt)"
proof -
  note q = echo_ctx_queues [OF ok]
  have packet: "yields n (case find_free_tx_slot (tp_slots pool) of
        None \<Rightarrow> thenM (recycle_and_notify env c (rp_desc_id p)) (returnM (False, st2))
      | Some k \<Rightarrow> bindM (send_reply env c p k st2) (\<lambda>st3. returnM (es_echoed_tx st3 \<ge> eo_max_packets opt, st3)))
      (entry_done opt)"
    if p: "packet_ok (ec_layout c) (eo_rx_buffers opt) (eo_rx_buffer_size opt) (eo_match_ethertype opt) p"
      and pool: "pool_like (unat (eo_tx_buffers opt)) pool"
      and st2: "st2 = st\<lparr>es_received_rx := es_received_rx st + 1, es_pool := pool\<rparr>" for p pool st2
  proof (cases "find_free_tx_slot (tp_slots pool)")
    case None
    with pool less st2 show ?thesis
      by (simp add: yields_bind_safe [OF safe_recycle_and_notify [OF env ok]] yields_returnM)
  next
    case (Some k)
    with pool have "unat k < unat (eo_tx_buffers opt)"
      using find_free_Some [of "tp_slots pool" k] unat_u16_lt [of "eo_tx_buffers opt"] by simp
    then show ?thesis
      unfolding Some option.case by (intro reply_entry_yields [OF env ok p]) (use pool less st2 in simp_all)
  qed
  show ?thesis
    unfolding irq_entry_def Let_def
  proof (rule yields_bindM [OF read_rx_used_packet_yields [OF env q(3) used_slot_in_ring [OF q(1)], folded rx_base_def]])
    fix a
    assume a: "option_ok (packet_ok (ec_layout c) (eo_rx_buffers opt) (eo_rx_buffer_size opt) (eo_match_ethertype opt)) a"
    let ?skip = "bindM (used_elem_id env (rx_base c) (dl_rx_vring (ec_layout c))
      (unat (used_slot_of (dl_rx_vring (ec_layout c)) (es_last_rx_used_idx st) i)))"
    show "yields n (case a of
        None \<Rightarrow> ?skip (\<lambda>did.
             thenM (if did < ucast (eo_rx_buffers opt) then recycle_and_notify env c did else returnM ())
                   (returnM (False, st\<lparr>es_skipped_rx := es_skipped_rx st + 1\<rparr>)))
      | Some p \<Rightarrow> bindM (consume_tx_completions env (tx_base c) (dl_tx_vring (ec_layout c))
            (es_pool (st\<lparr>es_received_rx := es_received_rx st + 1\<rparr>))) (\<lambda>(_, pool).
          case find_free_tx_slot (tp_slots pool) of
             None \<Rightarrow> thenM (recycle_and_notify env c (rp_desc_id p))
               (returnM (False, st\<lparr>es_received_rx := es_received_rx st + 1, es_pool := pool\<rparr>))
           | Some k \<Rightarrow> bindM (send_reply env c p k (st\<lparr>es_received_rx := es_received_rx st + 1, es_pool := pool\<rparr>)) (\<lambda>st3.
               returnM (es_echoed_tx st3 \<ge> eo_max_packets opt, st3)))) (entry_done opt)"
    proof (cases a)
      case None
      then show ?thesis using skip_entry_yields [OF env ok st less] by simp
    next
      case (Some p)
      with a have p: "packet_ok (ec_layout c) (eo_rx_buffers opt) (eo_rx_buffer_size opt) (eo_match_ethertype opt) p"
        by simp
      show ?thesis
        unfolding Some option.case
        by (rule yields_bindM [OF consume_yields [OF env q(2)]], use st in simp)
          (intro yields_case_prod packet [OF p]; simp)
    qed
  qed
qed

lemma irq_entries_yields:
  assumes env: "env_ok env" and ok: "echo_ctx_ok opt c n"
  shows "echo_state_ok opt st \<Longrightarrow> es_echoed_tx st < eo_max_packets opt \<Longrightarrow>
    yields n (irq_entries env opt c is st)
      (\<lambda>st'. echo_state_ok opt st' \<and> es_echoed_tx st' \<le> eo_max_packets opt)"
proof (induction "is" arbitrary: st)
  case (Cons i "is")
  show ?case
    unfolding irq_entries.simps
    by (rule yields_bindM [OF irq_entry_yields [OF env ok Cons.prems]])
      (intro yields_case_prod yields_if yields_returnM Cons.IH; simp)
qed (simp add: yields_returnM)

lemma irq_round_yields:
  assumes env: "env_ok env" and ok: "echo_ctx_ok opt c n" and st: "echo_state_ok opt st"
    and less: "es_echoed_tx st < eo_max_packets opt"
  shows "yields n (irq_round env opt c rx tx dl st) (\<lambda>(go, st'). echo_state_ok opt st' \<and> es_echoed_tx st' \<le> eo_max_packets opt)"
  unfolding irq_round_def Let_def
  by (rule yields_bindM [OF consume_yields [OF env echo_ctx_queues(2) [OF ok] st]])
    (intro yields_case_prod yields_bind_safe [OF safe_read_used_idx [OF env echo_ctx_queues(1) [OF ok]]]
        yields_bindM [OF irq_entries_yields [OF env ok]] yields_if yields_bind_safe [OF safe_irq_wait]
        yields_returnM; use less in simp)

lemma irq_loop_yields:
  assumes env: "env_ok env" and ok: "echo_ctx_ok opt c n"
  shows "echo_state_ok opt st \<Longrightarrow> es_echoed_tx st \<le> eo_max_packets opt \<Longrightarrow>
    yields n (irq_loop fuel env opt c rx tx dl st)
      (\<lambda>st'. echo_state_ok opt st' \<and> es_echoed_tx st' \<le> eo_max_packets opt)"
proof (induction fuel arbitrary: st)
  case 0
  show ?case by (simp add: yields_throwM)
next
  case (Suc fuel)
  show ?case
    unfolding irq_loop.simps
  proof (rule yields_if)
    assume "\<not> \<not> es_echoed_tx st < eo_max_packets opt"
    then have less: "es_echoed_tx st < eo_max_packets opt" by simp
    show "yields n (bindM (now env) (\<lambda>t.
        if t < dl
        then bindM (irq_round env opt c rx tx dl st) (\<lambda>(go, st').
             if go then irq_loop fuel env opt c rx tx dl st' else returnM st')
        else returnM st)) (\<lambda>st'. echo_state_ok opt st' \<and> es_echoed_tx st' \<le> eo_max_packets opt)"
      by (intro yields_bind_safe [OF safe_now] yields_if yields_returnM yields_case_prod
          yields_bindM [OF irq_round_yields [OF env ok Suc.prems(1) less]] Suc.IH) (use Suc.prems in simp_all)
  qed (use Suc.prems in \<open>simp add: yields_returnM\<close>)
qed

lemma irq_drain_loop_yields:
  assumes env: "env_ok env" and ok: "echo_ctx_ok opt c n"
  shows "echo_state_ok opt st \<and> es_echoed_tx st = e \<Longrightarrow>
    yields n (irq_drain_loop fuel env c rx tx dl st) (\<lambda>st'. echo_state_ok opt st' \<and> es_echoed_tx st' = e)"
proof (induction fuel arbitrary: st)
  case 0
  show ?case by (simp add: yields_throwM)
next
  case (Suc fuel)
  from Suc.prems have len: "length (tp_slots (es_pool st)) = unat (eo_tx_buffers opt)" by simp
  show ?case
    unfolding irq_drain_loop.simps Let_def
    by (intro yields_if yields_returnM yields_bind_safe [OF safe_now] yields_case_prod Suc.prems
        yields_bindM [OF consume_yields [OF env echo_ctx_queues(2) [OF ok] len]]
        yields_bind_safe [OF safe_irq_wait] Suc.IH) (use Suc.prems in simp_all)
qed

text \<open>
  The interrupt-driven loop keeps the promises of the polling one: for any device and any
  kernel, every load and store of the loop and of the final wait stays inside the DMA
  buffer, the buffer keeps its size, and no more than \<open>max-packets\<close> packets are echoed.
\<close>

theorem irq_loop_safe:
  assumes "env_ok env" and "echo_ctx_ok opt c (length (mem s))"
    and "echo_state_ok opt st" and "es_echoed_tx st \<le> eo_max_packets opt"
    and "run_irq_loops fuel env opt c rx_irq tx_irq st s = (r, s')"
  shows "length (mem s') = length (mem s) \<and> (\<forall>e. r = Inl e \<longrightarrow> \<not> is_ub e) \<and>
    (\<forall>st'. r = Inr st' \<longrightarrow> es_echoed_tx st' \<le> eo_max_packets opt)"
proof -
  have "yields (length (mem s)) (run_irq_loops fuel env opt c rx_irq tx_irq st) (\<lambda>st'. es_echoed_tx st' \<le> eo_max_packets opt)"
    unfolding run_irq_loops_def
  proof (intro yields_bind_safe [OF safe_now], rule yields_bindM [OF irq_loop_yields [OF assms(1,2,3,4)]],
      rule yields_bind_safe [OF safe_now])
    fix st1 t'
    assume st1: "echo_state_ok opt st1 \<and> es_echoed_tx st1 \<le> eo_max_packets opt"
    then have "echo_state_ok opt st1 \<and> es_echoed_tx st1 = es_echoed_tx st1" by simp
    from irq_drain_loop_yields [OF assms(1,2) this, of fuel rx_irq tx_irq "t' + ms 1000"] st1
    show "yields (length (mem s)) (irq_drain_loop fuel env c rx_irq tx_irq (t' + ms 1000) st1)
        (\<lambda>st'. es_echoed_tx st' \<le> eo_max_packets opt)"
      unfolding yields_def by (elim hoare_post) simp
  qed
  with assms(5) show ?thesis by (cases r) (auto simp: yields_def hoare_def buffer_size_def)
qed

section \<open>The loops end\<close>

text \<open>
  What the end of the loops around \<open>poll\<close> and \<open>read\<close> needs of the kernel: there is a number of signals
  and interrupts still to come, always below the fuel of these loops; a call that is interrupted or
  that reads a counter uses one up, and none arrives while a call takes its time.
\<close>

definition signals_bounded :: "('w \<Rightarrow> nat) \<Rightarrow> 'w env \<Rightarrow> bool" where
  "signals_bounded pending env \<longleftrightarrow>
     (\<forall>w. pending w < env_fuel env) \<and>
     (\<forall>w. pending (snd (env_delay env w)) \<le> pending w) \<and>
     (\<forall>w fds t w'. env_poll env fds t w = (Inl EINTR, w') \<longrightarrow> pending w' < pending w) \<and>
     (\<forall>w fd w'. env_read_eventfd env fd w = (Inl EINTR, w') \<longrightarrow> pending w' < pending w) \<and>
     (\<forall>w fd x w'. env_read_eventfd env fd w = (Inr x, w') \<longrightarrow> pending w' < pending w)"

lemma sys_error_fuel [simp]: "sys_error env t n \<noteq> OutOfFuel"
  by (simp add: sys_error_def)

lemma drain_eventfd_ends:
  assumes "signals_bounded pending env"
  shows "pending (world s) < fuel \<Longrightarrow> fst (drain_eventfd fuel env irq acc s) \<noteq> Inl OutOfFuel \<and>
    time s \<le> time (snd (drain_eventfd fuel env irq acc s))"
proof (induction fuel arbitrary: acc s)
  case (Suc fuel)
  obtain x w where x: "env_read_eventfd env (ib_fd irq) (world s) = (x, w)" by fastforce
  have again: "fst (drain_eventfd fuel env irq acc' (s\<lparr>world := w\<rparr>)) \<noteq> Inl OutOfFuel \<and>
      time s \<le> time (snd (drain_eventfd fuel env irq acc' (s\<lparr>world := w\<rparr>)))" if "pending w < pending (world s)" for acc'
    using Suc.IH [of "s\<lparr>world := w\<rparr>" acc'] Suc.prems that by simp
  show ?case
  proof (cases x)
    case (Inl n)
    have "pending w < pending (world s)" if "n = EINTR"
      using assms x Inl that by (auto simp: signals_bounded_def)
    with again Inl x show ?thesis by (auto simp: bindM_def external_def throwM_def returnM_def)
  next
    case (Inr y)
    then have "pending w < pending (world s)" using assms x by (cases y) (auto simp: signals_bounded_def)
    with again Inr x show ?thesis by (auto simp: bindM_def external_def throwM_def split: prod.splits)
  qed
qed simp

lemma poll_wait_ends:
  assumes "signals_bounded pending env"
  shows "pending (world s) < fuel \<Longrightarrow> fst (poll_wait fuel env fds t s) \<noteq> Inl OutOfFuel \<and>
    time s \<le> time (snd (poll_wait fuel env fds t s))"
proof (induction fuel arbitrary: s)
  case (Suc fuel)
  obtain x w where x: "env_poll env fds (int t) (world s) = (x, w)" by fastforce
  obtain dl w' where dl: "env_delay env w = (dl, w')" by fastforce
  from assms have "pending (snd (env_delay env w)) \<le> pending w" unfolding signals_bounded_def by blast
  with dl have le: "pending w' \<le> pending w" by simp
  let ?s = "s\<lparr>time := time s + dl, world := w'\<rparr>"
  show ?case
  proof (cases "x = Inl EINTR")
    case True
    with assms x have "pending w < pending (world s)" by (auto simp: signals_bounded_def)
    with le Suc.IH [of ?s] Suc.prems True x dl show ?thesis
      by (auto simp: bindM_def external_def sleep_for_def intro: order_trans [OF le_add1])
  qed (use x dl in \<open>auto simp: bindM_def external_def sleep_for_def throwM_def returnM_def split: sum.splits\<close>)
qed simp

lemma irq_wait_ends:
  assumes "signals_bounded pending env"
  shows "ends (irq_wait env rx tx dl)"
proof -
  have "pending w < env_fuel env" for w using assms by (simp add: signals_bounded_def)
  then have "ends (irq_drain env irq)" "ends (poll_wait (env_fuel env) env fds t)" for irq fds t
    unfolding ends_def irq_drain_def
    using drain_eventfd_ends [OF assms] poll_wait_ends [OF assms] by blast+
  then show ?thesis
    unfolding irq_wait_def timeout_until_def poll_irq_events_def Let_def
    by (auto simp: ends_rules split: option.splits prod.splits)
qed

lemma irq_entries_ends [ends_rules]: "ends (irq_entries env opt c is st)"
proof (induction "is" arbitrary: st)
  case (Cons i "is")
  have "ends (irq_entry env opt c i st)"
    unfolding irq_entry_def Let_def
    by (intro ends_bindM ends_read_rx_used_packet ends_case_option)
      (auto simp: ends_rules split: prod.splits)
  then show ?case unfolding irq_entries.simps
    by (rule ends_bindM) (use Cons in \<open>simp add: ends_rules split: prod.splits\<close>)
qed (simp add: ends_rules)

lemma irq_round_ends:
  assumes "signals_bounded pending env"
  shows "ends (irq_round env opt c rx tx dl st)"
  unfolding irq_round_def Let_def
  by (intro ends_bindM ends_rules) (auto simp: ends_rules irq_wait_ends [OF assms] split: prod.splits)

lemma irq_loop_fuel:
  assumes "signals_bounded pending env" and "ticks env"
  shows "deadline < time s + fuel \<Longrightarrow> fst (irq_loop fuel env opt c rx tx deadline st s) \<noteq> Inl OutOfFuel \<or> fuel = 0"
proof (induction fuel arbitrary: st s)
  case (Suc fuel)
  obtain t s1 where t: "now env s = (Inr t, s1)" "time s1 = t" "t = time s + fst (env_delay env (world s))"
    by (rule now_run)
  with assms(2) have later: "time s < t" by (simp add: ticks_def)
  show ?case
  proof (cases "es_echoed_tx st < eo_max_packets opt \<and> t < deadline")
    case False
    then show ?thesis using t(1) by (auto simp: bindM_def returnM_def)
  next
    case True
    obtain x s2 where x: "irq_round env opt c rx tx deadline st s1 = (x, s2)" by fastforce
    note 2 = endsD [OF irq_round_ends [OF assms(1)] x]
    have "deadline < time s2 + fuel" using Suc.prems later t(2) 2(2) by simp
    moreover have "0 < fuel" using Suc.prems True later by (cases fuel) simp_all
    ultimately have again: "fst (irq_loop fuel env opt c rx tx deadline st2 s2) \<noteq> Inl OutOfFuel" for st2
      using Suc.IH [of s2 st2] by simp
    with True t(1) x 2 show ?thesis by (auto simp: bindM_def returnM_def split: sum.splits prod.splits)
  qed
qed simp

lemma irq_drain_loop_fuel:
  assumes "signals_bounded pending env" and "ticks env"
  shows "deadline < time s + fuel \<Longrightarrow> fst (irq_drain_loop fuel env c rx tx deadline st s) \<noteq> Inl OutOfFuel \<or> fuel = 0"
proof (induction fuel arbitrary: st s)
  case (Suc fuel)
  obtain t s1 where t: "now env s = (Inr t, s1)" "time s1 = t" "t = time s + fst (env_delay env (world s))"
    by (rule now_run)
  with assms(2) have later: "time s < t" by (simp add: ticks_def)
  show ?case
  proof (cases "tp_completed (es_pool st) < es_echoed_tx st \<and> t < deadline")
    case False
    then show ?thesis using t(1) by (auto simp: bindM_def returnM_def)
  next
    case True
    obtain x s2 where x: "consume_tx_completions env (tx_base c) (dl_tx_vring (ec_layout c)) (es_pool st) s1 = (x, s2)"
      by fastforce
    note 2 = endsD [OF ends_completions(2) x]
    obtain y s3 where y: "irq_wait env rx tx deadline s2 = (y, s3)" by fastforce
    note 3 = endsD [OF irq_wait_ends [OF assms(1)] y]
    have "deadline < time s2 + fuel" "deadline < time s3 + fuel" using Suc.prems later t(2) 2(2) 3(2) by simp_all
    moreover have "0 < fuel" using Suc.prems True later by (cases fuel) simp_all
    ultimately have again: "fst (irq_drain_loop fuel env c rx tx deadline st2 s2) \<noteq> Inl OutOfFuel"
      "fst (irq_drain_loop fuel env c rx tx deadline st2 s3) \<noteq> Inl OutOfFuel" for st2
      using Suc.IH [of s2 st2] Suc.IH [of s3 st2] by simp_all
    with True t(1) x 2 y 3 show ?thesis
      by (auto simp: bindM_def returnM_def Let_def split: sum.splits prod.splits)
  qed
qed simp

lemma irq_loops_fuel_enough:
  assumes "signals_bounded pending env" and "ticks env"
    and "ms (unat (eo_run_ms opt)) < fuel" and "ms 1000 < fuel"
  shows "fst (run_irq_loops fuel env opt c rx_irq tx_irq st s) \<noteq> Inl OutOfFuel"
proof -
  obtain t s1 where t: "now env s = (Inr t, s1)" "time s1 = t" by (rule now_run)
  obtain x s2 where x: "irq_loop fuel env opt c rx_irq tx_irq (t + ms (unat (eo_run_ms opt))) st s1 = (x, s2)"
    by fastforce
  from irq_loop_fuel [OF assms(1,2), of "t + ms (unat (eo_run_ms opt))" s1 fuel opt c rx_irq tx_irq st] x t(2) assms(3)
  have x_ok: "x \<noteq> Inl OutOfFuel" by auto
  obtain t' s3 where t': "now env s2 = (Inr t', s3)" "time s3 = t'" by (rule now_run)
  have "fst (irq_drain_loop fuel env c rx_irq tx_irq (t' + ms 1000) st1 s3) \<noteq> Inl OutOfFuel" for st1
    using irq_drain_loop_fuel [OF assms(1,2), of "t' + ms 1000" s3 fuel c rx_irq tx_irq st1] t'(2) assms(4) by auto
  with x_ok t(1) x t'(1) show ?thesis
    unfolding run_irq_loops_def by (cases x) (simp_all add: bindM_def)
qed

text \<open>
  C35. The interrupt-driven loop ends, though nothing in it sleeps: with a clock that moves and a
  kernel that does not signal for ever, a round for each nanosecond of the run and of the second
  after it is enough for both loops.
\<close>

theorem irq_loops_end:
  assumes "signals_bounded pending env" and "ticks env"
    and "ms (unat (eo_run_ms opt)) < fuel" and "ms 1000 < fuel"
  shows "fst (run_irq_loops fuel env opt c rx_irq tx_irq st s) \<noteq> Inl OutOfFuel"
  using assms by (rule irq_loops_fuel_enough)

theorem irq_loops_end_witness:
  "fst (run_irq_loops (ms 1000 + 1) quiet_env (small_opt\<lparr>eo_run_ms := 30\<rparr>) small_ctx \<lparr>ib_vector = 0, ib_fd = 3\<rparr> None small_state
     (quiet_st 512)) \<noteq> Inl OutOfFuel"
  by (rule irq_loops_end [where pending = "\<lambda>_. 0"])
    (simp_all add: signals_bounded_def ticks_def quiet_env_def ms_def EINTR_def)

theorem irq_loop_safe_witness:
  "\<exists>r s'. run_irq_loops 5 quiet_env small_opt small_ctx \<lparr>ib_vector = 0, ib_fd = 3\<rparr> (Some \<lparr>ib_vector = 1, ib_fd = 4\<rparr>)
     small_state (quiet_st 512) = (r, s') \<and> length (mem s') = 512"
proof -
  obtain r s' where run: "run_irq_loops 5 quiet_env small_opt small_ctx \<lparr>ib_vector = 0, ib_fd = 3\<rparr>
      (Some \<lparr>ib_vector = 1, ib_fd = 4\<rparr>) small_state (quiet_st 512) = (r, s')" by fastforce
  have "length (mem s') = length (mem (quiet_st 512))"
    using irq_loop_safe [OF quiet_env_ok _ _ _ run] small_ctx_ok small_state_ok
    by (simp add: quiet_st_def start_st_def)
  with run show ?thesis by (auto simp: quiet_st_def start_st_def)
qed

section \<open>The vectors are bound where they were checked\<close>

text \<open>What a request binds to vector \<open>v\<close>: nothing outside its range, -1 is no eventfd.\<close>

definition fd_at :: "u32 \<Rightarrow> int list \<Rightarrow> nat \<Rightarrow> int option" where
  "fd_at start fds v =
     (if unat start \<le> v \<and> v < unat start + length fds \<and> fds ! (v - unat start) \<noteq> -1
      then Some (fds ! (v - unat start)) else None)"

lemma irq_range_covers:
  assumes range: "irq_range irq rx tx = (start, count)" and rx: "ucast rx < ii_count irq"
    and tx: "\<forall>v. tx = Some v \<longrightarrow> ucast v < ii_count irq"
  shows "unat start + unat count \<le> unat (ii_count irq)"
    and "unat start \<le> unat rx" and "unat rx < unat start + unat count"
    and "tx = Some v \<Longrightarrow> unat start \<le> unat v \<and> unat v < unat start + unat count"
proof -
  define hi where "hi = (case tx of None \<Rightarrow> rx | Some v \<Rightarrow> v)"
  have n: "unat rx < unat (ii_count irq)" "unat hi < unat (ii_count irq)"
    using rx tx by (auto simp: hi_def word_less_nat_alt split: option.splits)
  have *: "unat start + unat count \<le> unat (ii_count irq) \<and> unat start \<le> unat rx \<and> unat rx < unat start + unat count \<and>
      unat start \<le> unat hi \<and> unat hi < unat start + unat count"
  proof (cases "ii_flags irq AND VFIO_IRQ_INFO_NORESIZE \<noteq> 0")
    case True
    with range n show ?thesis by (auto simp: irq_range_def)
  next
    case False
    let ?a = "ucast rx :: u32" and ?b = "ucast hi :: u32"
    have s: "start = min ?a ?b" "count = max ?a ?b - min ?a ?b + 1"
      using range False by (auto simp: irq_range_def hi_def Let_def split: option.splits)
    have ab: "unat ?a = unat rx" "unat ?b = unat hi" by (simp_all add:)
    have m: "unat (min ?a ?b) = min (unat rx) (unat hi)" "unat (max ?a ?b) = max (unat rx) (unat hi)"
      using ab by (auto simp: min_def max_def word_le_nat_alt)
    have d: "unat (max ?a ?b - min ?a ?b) = max (unat rx) (unat hi) - min (unat rx) (unat hi)"
      using m by (subst unat_sub) (auto simp: word_le_nat_alt)
    have "max (unat rx) (unat hi) < 65536" using unat_u16_lt [of rx] unat_u16_lt [of hi] by simp
    then have "unat (max ?a ?b - min ?a ?b) < 65536" unfolding d by linarith
    then have "unat count = unat (max ?a ?b - min ?a ?b) + 1"
      unfolding s(2) by (subst unat_word_ariths) simp
    with d s(1) m(1) have "unat start = min (unat rx) (unat hi)"
      "unat count = max (unat rx) (unat hi) - min (unat rx) (unat hi) + 1" by simp_all
    with n show ?thesis by (simp add: min_def max_def)
  qed
  then show "unat start + unat count \<le> unat (ii_count irq)" "unat start \<le> unat rx" "unat rx < unat start + unat count"
    by simp_all
  show "unat start \<le> unat v \<and> unat v < unat start + unat count" if "tx = Some v"
    using * that by (simp add: hi_def)
qed

lemma set_event_fd_in:
  fixes v :: u16
  assumes "unat start \<le> unat v" and "unat v < unat start + length fds"
  shows "set_event_fd fds (ucast v - start) fd = Inr (fds[unat v - unat start := fd])"
proof -
  have "unat (ucast v - start :: u32) = unat v - unat start"
    using assms(1) by (subst unat_sub) (simp_all add: word_le_nat_alt)
  with assms show ?thesis by (simp add: set_event_fd_def)
qed

lemma validate_irq_vectors_Inr:
  assumes "validate_irq_vectors env opt s = (Inr irq, s')"
  shows "ucast (io_rx_vector opt) < ii_count irq" and "ucast (io_tx_vector opt) < ii_count irq"
  using assms by (auto simp: validate_irq_vectors_def run_iff not_le)

text \<open>The request that \<open>bind_irq_eventfds\<close> makes for checked vectors.\<close>

lemma bind_irq_eventfds_run:
  assumes rx: "ucast (ib_vector rx) < ii_count irq"
    and tx: "\<forall>t. tx = Some t \<longrightarrow> ucast (ib_vector t) < ii_count irq \<and> ib_vector t \<noteq> ib_vector rx \<and> 0 \<le> ib_fd t"
    and fd: "0 \<le> ib_fd rx"
  obtains start fds where "unat start + length fds \<le> unat (ii_count irq)"
    and "\<And>v. fd_at start fds v = (if v = unat (ib_vector rx) then Some (ib_fd rx)
          else case tx of None \<Rightarrow> None | Some t \<Rightarrow> if v = unat (ib_vector t) then Some (ib_fd t) else None)"
    and "\<And>env i. bind_irq_eventfds env i irq rx tx = vfio_set_irq_eventfds env i start fds"
proof -
  obtain start count where range: "irq_range irq (ib_vector rx) (map_option ib_vector tx) = (start, count)"
    by fastforce
  have "\<forall>v. map_option ib_vector tx = Some v \<longrightarrow> ucast v < ii_count irq" using tx by auto
  note c = irq_range_covers [OF range rx this]
  let ?fds0 = "replicate (unat count) (-1) :: int list"
  let ?fds1 = "?fds0[unat (ib_vector rx) - unat start := ib_fd rx]"
  let ?fds = "case tx of None \<Rightarrow> ?fds1 | Some t \<Rightarrow> ?fds1[unat (ib_vector t) - unat start := ib_fd t]"
  have len: "length ?fds = unat count" by (simp split: option.splits)
  have bind: "bind_irq_eventfds env i irq rx tx = vfio_set_irq_eventfds env i start ?fds" for env :: "'b env" and i
  proof (cases tx)
    case None
    with c range show ?thesis by (simp add: bind_irq_eventfds_def liftR_def bindM_def returnM_def set_event_fd_in)
  next
    case (Some t)
    with c range show ?thesis by (simp add: bind_irq_eventfds_def liftR_def bindM_def set_event_fd_in)
  qed
  have at: "fd_at start ?fds v = (if v = unat (ib_vector rx) then Some (ib_fd rx)
      else case tx of None \<Rightarrow> None | Some t \<Rightarrow> if v = unat (ib_vector t) then Some (ib_fd t) else None)" for v
  proof (cases tx)
    case None
    with c fd show ?thesis by (auto simp: fd_at_def nth_list_update)
  next
    case (Some t)
    let ?r = "unat (ib_vector rx) - unat start" and ?t = "unat (ib_vector t) - unat start"
    have b: "unat start \<le> unat (ib_vector t)" "unat (ib_vector t) < unat start + unat count"
      using c(4) Some by simp_all
    have "?t \<noteq> ?r" using b c(2) tx Some by (auto simp: word_unat_eq_iff)
    moreover have "?r < unat count" "?t < unat count" using b c(2,3) by linarith+
    ultimately show ?thesis using Some b c(2,3) fd tx
      by (simp add: fd_at_def nth_list_update, intro conjI impI) (elim conjE, simp)+
  qed
  show thesis
    by (rule that [of start ?fds]) (use c(1) len at bind in simp_all)
qed

text \<open>
  The vectors that were checked are the vectors that get bound: after \<open>validate_irq_vectors\<close> has
  accepted the options, \<open>bind_irq_eventfds\<close> never indexes outside its list of eventfds (so that there is
  no undefined behaviour), and what it asks of the kernel lies within the vectors that the device
  has, with the RX eventfd at the RX vector, the TX eventfd at the TX vector and no eventfd
  anywhere else, with and without \<open>NORESIZE\<close>.
\<close>

theorem irq_vectors_bound:
  assumes "validate_irq_vectors env opt s = (Inr irq, s1)"
    and "ib_vector rx = io_rx_vector opt" and "0 \<le> ib_fd rx"
    and "\<forall>t. tx = Some t \<longrightarrow> ib_vector t = io_tx_vector opt \<and> io_tx_vector opt \<noteq> io_rx_vector opt \<and> 0 \<le> ib_fd t"
    and "bind_irq_eventfds env i irq rx tx s2 = (r, s3)"
  shows "(\<forall>e. r = Inl e \<longrightarrow> \<not> is_ub e) \<and>
    (r = Inr () \<longrightarrow> (\<exists>start fds. trace s3 = trace s2 @ [IrqSet i start fds] \<and>
       unat start + length fds \<le> unat (ii_count irq) \<and>
       (\<forall>v. fd_at start fds v = (if v = unat (io_rx_vector opt) then Some (ib_fd rx)
          else case tx of None \<Rightarrow> None | Some t \<Rightarrow> if v = unat (io_tx_vector opt) then Some (ib_fd t) else None))))"
proof -
  note v = validate_irq_vectors_Inr [OF assms(1)]
  have tx: "\<forall>t. tx = Some t \<longrightarrow> ucast (ib_vector t) < ii_count irq \<and> ib_vector t \<noteq> ib_vector rx \<and> 0 \<le> ib_fd t"
    using assms(2,4) v by auto
  from v assms(2) have rx: "ucast (ib_vector rx) < ii_count irq" by simp
  show ?thesis
  proof (rule bind_irq_eventfds_run [OF rx tx assms(3)])
    fix start fds
    assume le: "unat start + length fds \<le> unat (ii_count irq)"
      and at: "\<And>v. fd_at start fds v = (if v = unat (ib_vector rx) then Some (ib_fd rx)
          else case tx of None \<Rightarrow> None | Some t \<Rightarrow> if v = unat (ib_vector t) then Some (ib_fd t) else None)"
      and bind: "\<And>(env :: 'a env) i. bind_irq_eventfds env i irq rx tx = vfio_set_irq_eventfds env i start fds"
    have at': "fd_at start fds v = (if v = unat (io_rx_vector opt) then Some (ib_fd rx)
        else case tx of None \<Rightarrow> None | Some t \<Rightarrow> if v = unat (io_tx_vector opt) then Some (ib_fd t) else None)" for v
      using at [of v] assms(2,4) by (simp split: option.splits)
    from assms(5) have "(r, s3) = vfio_set_irq_eventfds env i start fds s2" by (simp add: bind)
    then have "(\<forall>e. r = Inl e \<longrightarrow> \<not> is_ub e) \<and> (r = Inr () \<longrightarrow> trace s3 = trace s2 @ [IrqSet i start fds])"
      by (auto simp: vfio_set_irq_eventfds_def bindM_def external_def throwM_def emit_def
          split: prod.splits option.splits)
    with le at' show ?thesis by blast
  qed
qed

section \<open>A queue is enabled with its vector\<close>

lemma emits_program_with_msix [emit_rules]:
  "emits (program_and_enable_queue_with_msix env r d queue l iova vector label)
    (hd (queue_writes r d queue l iova) #
     MmioWrite 2 (mr_offset r + (d + VIRTIO_PCI_COMMON_Q_MSIX)) (ucast vector) # tl (queue_writes r d queue l iova))"
  unfolding program_and_enable_queue_with_msix_def selection_select_def program_queue_addresses_def enable_queue_def
  by (rule emits_bindM emit_rules emits_modifyM | simp add: queue_writes_def Let_def)+

lemma emits_selection_select [emit_rules]:
  "emits (selection_select env r d queue) [MmioWrite 2 (mr_offset r + (d + VIRTIO_PCI_COMMON_Q_SELECT)) (ucast queue)]"
  unfolding selection_select_def
  by (rule emits_bindM emit_rules emits_modifyM | simp)+

text \<open>
  With interrupts a queue is still enabled last, and only with its vector: when
  \<open>program_and_enable_queue_with_msix\<close> returns, the device has read back \<open>queue_enable\<close> as 1, has
  read back the vector right after the queue was selected and the vector written, and the writes are
  those of \<open>program_and_enable_queue\<close> with the vector after the selection.
\<close>

theorem msix_queue_enabled_last:
  assumes "program_and_enable_queue_with_msix env r d queue l iova vector label s = (Inr v, s')"
  shows "qv_enable v = 1 \<and>
    (\<exists>s1 v1 s2. trace s1 = trace s @ [hd (queue_writes r d queue l iova),
         MmioWrite 2 (mr_offset r + (d + VIRTIO_PCI_COMMON_Q_MSIX)) (ucast vector)] \<and>
       read_queue_view env r d s1 = (Inr v1, s2) \<and> qv_msix_vector v1 = vector) \<and>
    trace s' = trace s @ hd (queue_writes r d queue l iova) #
      MmioWrite 2 (mr_offset r + (d + VIRTIO_PCI_COMMON_Q_MSIX)) (ucast vector) # tl (queue_writes r d queue l iova)"
proof -
  from assms obtain sa before sb sc v1 sd where run: "selection_select env r d queue s = (Inr (), sa)"
    "read_queue_view env r d sa = (Inr before, sb)"
    "write16 env r (d + VIRTIO_PCI_COMMON_Q_MSIX) vector sb = (Inr (), sc)"
    "read_queue_view env r d sc = (Inr v1, sd)" "qv_msix_vector v1 = vector" and v: "qv_enable v = 1"
    by (auto simp: program_and_enable_queue_with_msix_def run_iff)
  have "trace sc = trace s @ [hd (queue_writes r d queue l iova),
      MmioWrite 2 (mr_offset r + (d + VIRTIO_PCI_COMMON_Q_MSIX)) (ucast vector)]"
    using emitsD [OF emits_selection_select run(1)] emitsD [OF emits_read_queue_view run(2)]
      emitsD [OF emits_registers(5) run(3)]
    by (simp add: queue_writes_def Let_def)
  with run(4,5) v emitsD [OF emits_program_with_msix assms] show ?thesis by blast
qed

section \<open>The device is reset before its memory goes\<close>

lemma adds_irq_entries [adds_rules]: "adds harmless (irq_entries env opt c is st)"
  by (induction "is" arbitrary: st)
    (simp_all add: irq_entry_def send_reply_def recycle_and_notify_def notify_rx_def notify_tx_def Let_def adds_rules)

lemma adds_irq_loops [adds_rules]:
  "adds harmless (irq_loop fuel env opt c rx tx dl st)" "adds P (irq_drain_loop fuel env c rx tx dl st')"
  by (induction fuel arbitrary: st st') (simp_all add: irq_round_def Let_def adds_rules)

lemma adds_run_irq_loops [adds_rules]: "adds harmless (run_irq_loops fuel env opt c rx tx st)"
  by (simp add: run_irq_loops_def adds_rules)

lemma adds_program_with_msix [adds_rules]:
  "adds harmless (program_and_enable_queue_with_msix env r d queue l iova vector label)"
  by (simp add: program_and_enable_queue_with_msix_def adds_rules)

lemma adds_irq_setup [adds_rules]:
  "adds P (validate_irq_vectors env opt)" "adds P (IrqEventfdBinding_new env v)"
  by (simp_all add: validate_irq_vectors_def vfio_get_device_info_def vfio_get_irq_info_def
      IrqEventfdBinding_new_def adds_rules)

lemma adds_irq_calls [adds_rules]:
  "adds idle (bind_irq_eventfds env i irq rx tx)" "adds idle (vfio_disable_irq_index env i)"
  by (simp_all add: bind_irq_eventfds_def vfio_set_irq_eventfds_def vfio_disable_irq_index_def Let_def adds_rules)

lemma irq_phase:
  "hoare (phase a u q) irq_activate (\<lambda>_. phase a u q) (\<lambda>_. phase a u q)"
  "hoare (phase a u q) (irq_disable env i) (\<lambda>_. phase a u q) (\<lambda>_. phase a u q)"
proof -
  have mod: "hoare (phase a u q) (modifyM (\<lambda>s. s\<lparr>irq_active := b\<rparr>)) (\<lambda>_. phase a u q) (\<lambda>_. phase a u q)" for b
    by (simp add: hoare_def modifyM_def phase_def)
  then show "hoare (phase a u q) irq_activate (\<lambda>_. phase a u q) (\<lambda>_. phase a u q)"
    by (simp add: irq_activate_def)
  show "hoare (phase a u q) (irq_disable env i) (\<lambda>_. phase a u q) (\<lambda>_. phase a u q)"
    unfolding irq_disable_def
    by (rule hoare_bindM [where R = "\<lambda>_. phase a u q"], rule phase_idle, simp add: adds_rules)
      (auto intro!: hoare_bindM [OF phase_idle mod] simp: adds_rules hoare_returnM)
qed

lemma irq_datapath_guarded:
  assumes "has_status m d"
  shows "hoare (phase True False False)
    (irq_datapath fuel env opt rx tx config cmd m d sel notify region layout mac)
    (\<lambda>_. guarded) (\<lambda>_. guarded)"
proof -
  have disable: "hoare (phase True False False) (irq_disable env i) (\<lambda>_. phase True False False) (\<lambda>_. guarded)" for i
    by (rule hoare_weaken [OF irq_phase(2)]) (auto intro: guarded_phases)
  show ?thesis
    unfolding irq_datapath_def Let_def
    by (intro armed_step hoare_bindM [OF disable clean_up_guarded [OF assms]]) (simp_all add: adds_rules notify_rx_def)
qed

interpretation irq_path:
  datapath env m d "irq_datapath fuel env opt rx tx config cmd m d sel notify region layout mac"
  for env :: "'w env" and m d fuel opt rx tx config cmd sel notify region layout mac
  by unfold_locales (rule irq_datapath_guarded)

lemma irq_queue_scope_safe:
  assumes "has_status m d"
  shows "hoare (phase False True False)
    (irq_queue_scope fuel env opt rx tx config cmd m d sel notify region view)
    (\<lambda>_. memory_safe) (\<lambda>_. memory_safe)"
  unfolding irq_queue_scope_def Let_def
  by (intro with_selection_safe unmapped_step irq_path.with_dma_safe [OF assms]) (simp_all add: adds_rules)

lemma irq_device_scope_safe:
  "hoare (phase False True False) (irq_device_scope fuel env opt rx tx config cmd)
    (\<lambda>_. memory_safe) (\<lambda>_. memory_safe)"
  unfolding irq_device_scope_def Let_def
  by (intro with_virtio_safe unmapped_step irq_queue_scope_safe)
    (simp_all add: adds_rules negotiate_minimal_features_def)

interpretation irq_run: device_program env "irq_device_scope fuel env opt rx tx" for env :: "'w env" and fuel opt rx tx
  by unfold_locales (rule irq_device_scope_safe)

lemma queue_env_msix:
  "\<exists>v. read_queue_view queue_env regs58 0 s = (Inr v, s) \<and> qv_enable v = (if world s then 1 else 0) \<and> qv_msix_vector v = 0"
  by (simp add: read_queue_view_def read_queue_view_with_def read_common_u64_def bindM_def returnM_def queue_env_regs common_regs)

lemma queue_env_programs_msix:
  assumes "\<not> world s"
  shows "returns (program_and_enable_queue_with_msix queue_env regs58 0 q l iova 0 label s)"
proof -
  obtain s1 where 1: "selection_select queue_env regs58 0 q s = (Inr (), s1)" "\<not> world s1"
    using assms by (simp add: selection_select_def bindM_def modifyM_def queue_env_regs common_regs)
  obtain v1 where v1: "read_queue_view queue_env regs58 0 s1 = (Inr v1, s1)" "qv_enable v1 = 0"
    using queue_env_msix [of s1] 1 by auto
  obtain s2 where 2: "write16 queue_env regs58 (0 + VIRTIO_PCI_COMMON_Q_MSIX) 0 s1 = (Inr (), s2)"
    by (simp add: queue_env_regs common_regs)
  obtain v2 where v2: "read_queue_view queue_env regs58 0 s2 = (Inr v2, s2)" "qv_msix_vector v2 = 0"
    using queue_env_msix [of s2] by auto
  obtain s3 where 3: "program_queue_addresses queue_env regs58 0 l iova s2 = (Inr (), s3)"
    using queue_env_program by blast
  obtain v3 where v3: "read_queue_view queue_env regs58 0 s3 = (Inr v3, s3)"
    using queue_env_view by blast
  obtain s4 where 4: "enable_queue queue_env regs58 0 s3 = (Inr (), s4)" "world s4"
    by (simp add: enable_queue_def queue_env_regs common_regs)
  obtain v4 where v4: "read_queue_view queue_env regs58 0 s4 = (Inr v4, s4)" "qv_enable v4 = 1"
    using queue_env_view [of s4] 4 by auto
  from 1 v1 2 v2 3 v3 4 v4 show ?thesis
    by (simp add: program_and_enable_queue_with_msix_def returns_def bindM_def throw_ifM_def returnM_def)
qed

theorem msix_queue_enabled_last_witness:
  "\<exists>v s'. program_and_enable_queue_with_msix queue_env regs58 0 1 ring_layout4 0x100000000 0 ''TX queue''
      (start_st [] False) = (Inr v, s') \<and> qv_enable v = 1"
proof -
  obtain v s' where run: "program_and_enable_queue_with_msix queue_env regs58 0 1 ring_layout4 0x100000000 0
      ''TX queue'' (start_st [] False) = (Inr v, s')"
    by (rule returnsE [OF queue_env_programs_msix]) (auto simp: start_st_def)
  from run msix_queue_enabled_last [OF run] show ?thesis by blast
qed

text \<open>A kernel that offers five vectors with eventfds and no resizing.\<close>

definition irq_env :: "unit env" where
  "irq_env = quiet_env\<lparr>env_irq_info := (\<lambda>i w. (Inr (5, 9), w))\<rparr>"

theorem irq_vectors_bound_witness:
  "\<exists>irq s3. validate_irq_vectors irq_env irq_opt (quiet_st 0) = (Inr irq, quiet_st 0) \<and>
     bind_irq_eventfds irq_env 2 irq \<lparr>ib_vector = 0, ib_fd = 3\<rparr> (Some \<lparr>ib_vector = 1, ib_fd = 4\<rparr>) (quiet_st 0) =
       (Inr (), s3) \<and> trace s3 = [IrqSet 2 0 [3, 4, -1, -1, -1]]"
proof -
  let ?irq = "\<lparr>ii_flags = 9, ii_count = 5\<rparr>"
  have five: "\<not> (5::u32) \<le> 1" by code_simp
  have check: "validate_irq_vectors irq_env irq_opt (quiet_st 0) = (Inr ?irq, quiet_st 0)"
    using five by (simp add: validate_irq_vectors_def vfio_get_device_info_def vfio_get_irq_info_def irq_env_def irq_opt_def
        quiet_env_def quiet_st_def start_st_def bindM_def external_def throw_ifM_def returnM_def
        VFIO_PCI_MSIX_IRQ_INDEX_def VFIO_IRQ_INFO_EVENTFD_def)
  obtain r s3 where run: "bind_irq_eventfds irq_env 2 ?irq \<lparr>ib_vector = 0, ib_fd = 3\<rparr>
      (Some \<lparr>ib_vector = 1, ib_fd = 4\<rparr>) (quiet_st 0) = (r, s3)" by fastforce
  have "irq_range ?irq 0 (Some 1) = (0, 5)" by (simp add: irq_range_def VFIO_IRQ_INFO_NORESIZE_def)
  moreover have "set_event_fd (replicate (unat (5::u32)) (-1)) 0 3 = Inr [3, -1, -1, -1, -1]"
    "set_event_fd [3, -1, -1, -1, -1] 1 4 = Inr [3, 4, -1, -1, -1]" by code_simp+
  ultimately have r: "r = Inr () \<and> trace s3 = [IrqSet 2 0 [3, 4, -1, -1, -1]]"
    using run by (auto simp: bind_irq_eventfds_def vfio_set_irq_eventfds_def irq_env_def quiet_env_def
        quiet_st_def start_st_def bindM_def external_def liftR_def returnM_def emit_def simp del: unat_numeral)
  have "\<exists>start fds. trace s3 = trace (quiet_st 0) @ [IrqSet 2 start fds] \<and> unat start + length fds \<le> 5"
    using irq_vectors_bound [OF check _ _ _ run] r by (simp add: irq_opt_def)
  with check run r show ?thesis by blast
qed

section \<open>The interrupts are unbound\<close>

text \<open>The vectors are bound after this trace.\<close>

definition irq_step :: "event \<Rightarrow> bool \<Rightarrow> bool" where
  "irq_step e b = (case e of IrqSet _ _ _ \<Rightarrow> True | IrqDisable _ \<Rightarrow> False | _ \<Rightarrow> b)"

definition irq_bound :: "event list \<Rightarrow> bool" where
  "irq_bound tr = fold irq_step tr False"

lemma irq_bound_snoc [simp]: "irq_bound (tr @ [e]) = irq_step e (irq_bound tr)"
  by (simp add: irq_bound_def)

lemma irq_bound_Nil [simp]: "\<not> irq_bound []"
  by (simp add: irq_bound_def)

lemma irq_bound_harmless: "\<forall>e \<in> set ev. harmless e \<Longrightarrow> irq_bound (tr @ ev) = irq_bound tr"
proof (induction ev rule: rev_induct)
  case (snoc e ev)
  then have "harmless e" by simp
  then have "irq_step e b = b" for b by (cases e) (simp_all add: harmless_def irq_step_def)
  with snoc irq_bound_snoc [of "tr @ ev" e] show ?case by simp
qed simp

text \<open>Bound vectors have an active guard; the computations that keep it so.\<close>

definition irq_guarded :: "'w st \<Rightarrow> bool" where
  "irq_guarded s \<longleftrightarrow> (irq_bound (trace s) \<longrightarrow> irq_active s)"

definition keeps_irq :: "('w st, 'a) M \<Rightarrow> bool" where
  "keeps_irq m \<longleftrightarrow> hoare irq_guarded m (\<lambda>_. irq_guarded) (\<lambda>_. irq_guarded)"

named_theorems keeps_rules "computations that keep the interrupts guarded"

lemma keeps_adds: "adds harmless m \<Longrightarrow> keeps_irq m"
  unfolding keeps_irq_def by (erule hoare_adds) (simp add: irq_guarded_def irq_bound_harmless)

lemma keeps_bindM: "keeps_irq m \<Longrightarrow> (\<And>a. keeps_irq (f a)) \<Longrightarrow> keeps_irq (bindM m f)"
  unfolding keeps_irq_def by (rule hoare_bindM [where R = "\<lambda>_. irq_guarded"])

lemma keeps_finallyM: "keeps_irq m \<Longrightarrow> keeps_irq c \<Longrightarrow> keeps_irq (finallyM m c)"
  unfolding keeps_irq_def
  by (rule hoare_finallyM [where Q' = "\<lambda>_. irq_guarded" and E' = "\<lambda>_. irq_guarded"])
    (auto intro: hoare_adds_snd)

lemma keeps_case_prod: "(\<And>x y. keeps_irq (f x y)) \<Longrightarrow> keeps_irq (case p of (x, y) \<Rightarrow> f x y)"
  by (cases p) simp

text \<open>The memory and the guards other than that of the interrupts.\<close>

lemma keeps_scopes:
  "keeps_irq AnonymousBuffer_drop" "keeps_irq (DmaMapping_new env iova sz fl)"
  "keeps_irq (DmaMapping_unmap env iova sz)" "keeps_irq (DmaMapping_drop env iova sz)"
  "keeps_irq reset_guard_new" "keeps_irq reset_guard_disarm" "keeps_irq (reset_guard_drop env m d)"
  by (auto simp: keeps_irq_def hoare_def AnonymousBuffer_drop_def DmaMapping_new_def DmaMapping_unmap_def
      DmaMapping_drop_def reset_guard_new_def reset_guard_disarm_def reset_guard_drop_def write8_def mmio_write_def
      bindM_def returnM_def readM_def external_def throwM_def emit_def modifyM_def liftR_def irq_guarded_def
      irq_step_def split: sum.splits option.splits prod.splits)

lemma keeps_irq_disable: "keeps_irq (irq_disable env i)"
  by (auto simp: keeps_irq_def hoare_def irq_disable_def vfio_disable_irq_index_def bindM_def returnM_def readM_def
      external_def throwM_def emit_def modifyM_def irq_guarded_def irq_step_def split: option.splits prod.splits)

lemma keeps_clean_up: "keeps_irq (clean_up env config cmd m d sel iova sz result)"
  unfolding clean_up_def by (intro keeps_bindM keeps_scopes keeps_adds) (simp_all add: adds_rules)

lemma keeps_with_dma: "keeps_irq body \<Longrightarrow> keeps_irq (with_dma env iova sz m d body)"
  unfolding with_dma_def
  by (intro keeps_bindM keeps_finallyM keeps_scopes)
    (auto intro!: keeps_adds simp: AnonymousBuffer_new_def AnonymousBuffer_zero_def adds_rules)

lemma keeps_with_pci: "(\<And>config cmd. keeps_irq (body config cmd)) \<Longrightarrow> keeps_irq (with_pci env body)"
  unfolding with_pci_def by (intro keeps_bindM keeps_finallyM) (auto intro!: keeps_adds simp: adds_rules)

lemma keeps_irq_datapath: "keeps_irq (irq_datapath fuel env opt rx tx config cmd m d sel notify region layout mac)"
  unfolding irq_datapath_def Let_def
  by (intro keeps_bindM keeps_irq_disable keeps_clean_up keeps_adds) (simp_all add: adds_rules notify_rx_def)

lemma keeps_irq_device_scope: "keeps_irq (irq_device_scope fuel env opt rx tx config cmd)"
  unfolding irq_device_scope_def irq_queue_scope_def with_virtio_def with_virtio_min_def with_selection_def Let_def
  by (intro keeps_bindM keeps_finallyM keeps_case_prod keeps_with_dma keeps_irq_datapath keeps_adds)
    (simp_all add: adds_rules negotiate_minimal_features_def)

text \<open>The scope of the bindings.\<close>

lemma with_irq_bindings_safe:
  assumes "hoare (phase False True False) body (\<lambda>_. memory_safe) (\<lambda>_. memory_safe)"
  shows "hoare (phase False True False) (with_irq_bindings env i irq rx tx body) (\<lambda>_. memory_safe) (\<lambda>_. memory_safe)"
proof -
  have inactive: "hoare (phase False True False) (modifyM (\<lambda>s. s\<lparr>irq_active := False\<rparr>))
      (\<lambda>_. phase False True False) (\<lambda>_. memory_safe)"
    by (simp add: hoare_def modifyM_def phase_def)
  have bind: "hoare (phase False True False) (bind_irq_eventfds env i irq rx tx)
      (\<lambda>_. phase False True False) (\<lambda>_. memory_safe)"
    by (rule hoare_weaken [OF phase_idle]) (auto simp: adds_rules intro: memory_safe_phases)
  have active: "hoare (phase False True False) irq_activate (\<lambda>_. phase False True False) (\<lambda>_. memory_safe)"
    by (rule hoare_weaken [OF irq_phase(1)]) (auto intro: memory_safe_phases)
  have drop: "memory_safe s \<Longrightarrow> memory_safe (snd (irq_guard_drop env i s))" for s :: "'a st"
    by (auto simp: irq_guard_drop_def finallyM_def bindM_def readM_def returnM_def modifyM_def
        vfio_disable_irq_index_def external_def throwM_def emit_def memory_safe_def is_map_def quiet_step_def
        takes_memory_def split: option.splits prod.splits)
  show ?thesis
    unfolding with_irq_bindings_def
    by (intro hoare_bindM [OF inactive]
        hoare_finallyM [OF hoare_bindM [OF bind hoare_bindM [OF active assms]]] drop)
qed

lemma with_irq_bindings_unbinds:
  assumes granted: "\<And>i w. fst (env_disable_irq env i w) = None" and body: "keeps_irq body"
  shows "hoare (\<lambda>s. \<not> irq_bound (trace s)) (with_irq_bindings env i irq rx tx body)
    (\<lambda>_ s. \<not> irq_bound (trace s)) (\<lambda>_ s. \<not> irq_bound (trace s))"
proof -
  have inactive: "hoare (\<lambda>s. \<not> irq_bound (trace s)) (modifyM (\<lambda>s. s\<lparr>irq_active := False\<rparr>))
      (\<lambda>_ s. \<not> irq_bound (trace s)) (\<lambda>_ s. \<not> irq_bound (trace s))"
    by (simp add: hoare_def modifyM_def)
  have bind: "hoare (\<lambda>s. \<not> irq_bound (trace s)) (bind_irq_eventfds env i irq rx tx) (\<lambda>_ _. True) (\<lambda>_. irq_guarded)"
    by (auto simp: hoare_def bind_irq_eventfds_def vfio_set_irq_eventfds_def set_event_fd_def bindM_def liftR_def
        returnM_def external_def throwM_def emit_def irq_guarded_def Let_def split: sum.splits option.splits prod.splits)
  have active: "hoare (\<lambda>_. True) irq_activate (\<lambda>_. irq_guarded) (\<lambda>_. irq_guarded)"
    by (simp add: hoare_def irq_activate_def modifyM_def irq_guarded_def)
  have drop: "irq_guarded s \<Longrightarrow> \<not> irq_bound (trace (snd (irq_guard_drop env i s)))" for s :: "'a st"
    using granted [of i "world s"]
    by (auto simp: irq_guard_drop_def finallyM_def bindM_def readM_def returnM_def modifyM_def
        vfio_disable_irq_index_def external_def throwM_def emit_def irq_guarded_def irq_step_def
        split: option.splits prod.splits)
  show ?thesis
    unfolding with_irq_bindings_def
    by (intro hoare_bindM [OF inactive]
        hoare_finallyM [OF hoare_bindM [OF bind hoare_bindM [OF active body [unfolded keeps_irq_def]]]] drop)
qed

text \<open>
  C34. Nor does the interrupt-driven program let the device keep access to memory it no longer owns:
  however \<open>run_irq_echo_loop\<close> ends, memory is only unmapped, and the mapped buffer only released, after
  a 0 was the last thing written to the device status; and if memory was ever mapped, the device
  is left reset.
\<close>

theorem irq_reset_before_unmap:
  assumes "run_irq_echo_loop fuel env opt s = (r, s')" and "trace s = []"
  shows "reset_first (trace s') \<and> (mapped (trace s') \<longrightarrow> quiet (trace s'))"
proof -
  have "hoare (phase False True False) (run_irq_echo_loop fuel env opt) (\<lambda>_. memory_safe) (\<lambda>_. memory_safe)"
    unfolding run_irq_echo_loop_def with_iova_check_def
    by (intro unmapped_step with_irq_bindings_safe irq_run.with_pci_safe) (simp_all add: adds_rules)
  moreover have "phase False True False s" using assms(2) by (simp add: phase_def)
  ultimately have "memory_safe s'" using assms(1) by (cases r) (auto dest: hoare_Inl hoare_Inr)
  then show ?thesis by (simp add: memory_safe_def)
qed

theorem irq_reset_before_unmap_witness:
  "\<exists>r s'. run_irq_echo_loop 3 irq_env irq_opt (start_st [] ()) = (r, s') \<and> reset_first (trace s')"
proof -
  obtain r s' where run: "run_irq_echo_loop 3 irq_env irq_opt (start_st [] ()) = (r, s')" by fastforce
  have "reset_first (trace s')"
    by (rule conjunct1 [OF irq_reset_before_unmap [OF run]]) (simp add: start_st_def)
  with run show ?thesis by blast
qed

text \<open>
  No exit leaves an interrupt bound to an eventfd that is about to be closed: however
  \<open>run_irq_echo_loop\<close> ends, when the kernel grants the requests to unbind, the vectors are not bound
  after it.
\<close>

theorem irq_unbound_at_exit:
  assumes "run_irq_echo_loop fuel env opt s = (r, s')" and "trace s = []"
    and "\<And>i w. fst (env_disable_irq env i w) = None"
  shows "\<not> irq_bound (trace s')"
proof -
  let ?free = "\<lambda>s. \<not> irq_bound (trace s)"
  have step: "hoare ?free (bindM m f) (\<lambda>_. ?free) (\<lambda>_. ?free)"
    if "adds harmless m" "\<And>a. hoare ?free (f a) (\<lambda>_. ?free) (\<lambda>_. ?free)" for m :: "('a st, 'b) M" and f :: "'b \<Rightarrow> ('a st, 'c) M"
    by (rule hoare_bindM [where R = "\<lambda>_. ?free", OF hoare_adds [OF that(1)] that(2)]) (simp add: irq_bound_harmless)
  have "hoare ?free (run_irq_echo_loop fuel env opt) (\<lambda>_. ?free) (\<lambda>_. ?free)"
    unfolding run_irq_echo_loop_def with_iova_check_def
    by (intro step with_irq_bindings_unbinds [OF assms(3)] keeps_with_pci keeps_irq_device_scope)
      (simp_all add: adds_rules)
  with assms(1,2) show ?thesis by (cases r) (auto simp: hoare_def dest!: spec [of _ s])
qed

theorem irq_unbound_at_exit_witness:
  "\<exists>r s'. run_irq_echo_loop 3 irq_env irq_opt (start_st [] ()) = (r, s') \<and> \<not> irq_bound (trace s')"
proof -
  obtain r s' where run: "run_irq_echo_loop 3 irq_env irq_opt (start_st [] ()) = (r, s')" by fastforce
  have "\<not> irq_bound (trace s')"
    by (rule irq_unbound_at_exit [OF run]) (simp_all add: start_st_def irq_env_def quiet_env_def)
  with run show ?thesis by blast
qed

end
