(* ===== verification/Parse.thy ===== *)
theory Parse
  imports Transport
begin

text \<open>
  The text of the command line and of the messages: the number, MAC address and byte parsers of
  \<open>userspace_drivers/virtio_net_vfio.hpp\<close> with the \<open>std::stoull\<close> under them, and the names the
  programs print. Decimal numbers and MAC addresses are read back as they are printed.
\<close>

section \<open>Numbers in text\<close>

text \<open>The character classes of the C locale.\<close>

definition isspace :: "char \<Rightarrow> bool" where
  "isspace c = (let n = (of_char c :: nat) in 9 \<le> n \<and> n \<le> 13 \<or> n = 32)"

definition digit_value :: "char \<Rightarrow> nat" where
  "digit_value c = (let n = (of_char c :: nat)
     in if 48 \<le> n \<and> n \<le> 57 then n - 48
        else if 97 \<le> n \<and> n \<le> 122 then n - 87
        else if 65 \<le> n \<and> n \<le> 90 then n - 55 else 36)"

definition isxdigit :: "char \<Rightarrow> bool" where
  "isxdigit c \<longleftrightarrow> digit_value c < 16"

text \<open>
  \<open>strtoull\<close> of the C standard the sources are compiled against (C17): white space, a sign, a
  prefix \<open>0x\<close> that a digit follows (base 16, or base 0), or a 0 for base 8 (base 0), then the
  longest run of digits. The result is the sign, the magnitude and the number of characters used;
  \<open>None\<close> when there is no digit.
\<close>

definition strtoull_sign :: "string \<Rightarrow> bool \<times> string" where
  "strtoull_sign s = (case s of [] \<Rightarrow> (False, [])
     | c # cs \<Rightarrow> if c = CHR ''-'' then (True, cs) else if c = CHR ''+'' then (False, cs) else (False, s))"

definition strtoull_base :: "nat \<Rightarrow> string \<Rightarrow> nat \<times> string" where
  "strtoull_base base s =
     (if (base = 0 \<or> base = 16) \<and> 3 \<le> length s \<and> s ! 0 = CHR ''0'' \<and>
         (s ! 1 = CHR ''x'' \<or> s ! 1 = CHR ''X'') \<and> isxdigit (s ! 2) then (16, drop 2 s)
      else if base = 0 then (if s \<noteq> [] \<and> hd s = CHR ''0'' then 8 else 10, s)
      else (base, s))"

definition digits_value :: "nat \<Rightarrow> string \<Rightarrow> nat" where
  "digits_value base ds = foldl (\<lambda>v c. v * base + digit_value c) 0 ds"

definition strtoull :: "nat \<Rightarrow> string \<Rightarrow> (bool \<times> nat \<times> nat) option" where
  "strtoull base s =
     (let (neg, rest) = strtoull_sign (dropWhile isspace s);
          (b, rest') = strtoull_base base rest;
          ds = takeWhile (\<lambda>c. digit_value c < b) rest'
      in if ds = [] then None
         else Some (neg, digits_value b ds, length s - length rest' + length ds))"

text \<open>
  \<open>std::stoull\<close> and, with 64-bit \<open>unsigned long\<close>, \<open>std::stoul\<close>: the value and the number of
  characters used. A minus sign negates modulo \<open>2 ^ 64\<close>.
\<close>

definition stoull :: "string \<Rightarrow> string \<Rightarrow> nat \<Rightarrow> (u64 \<times> nat) res" where
  "stoull fn s base =
     (case strtoull base s of
        None \<Rightarrow> Inl (InvalidArgument fn)
      | Some (neg, v, used) \<Rightarrow>
          if v \<ge> 2 ^ 64 then Inl (OutOfRange fn)
          else Inr (if neg then - of_nat v else of_nat v, used))"

section \<open>Arguments\<close>

definition normalize_bdf :: "string \<Rightarrow> string" where
  "normalize_bdf bdf = (if count_list bdf (CHR '':'') = 1 then ''0000:'' @ bdf else bdf)"

definition invalid :: "string \<Rightarrow> string \<Rightarrow> exn" where
  "invalid name text = RuntimeError (''invalid '' @ name @ '': '' @ text)"

definition parse_ull :: "string \<Rightarrow> string \<Rightarrow> u64 res" where
  "parse_ull text name =
     bindR (stoull ''stoull'' text 0) (\<lambda>(v, parsed).
     if parsed \<noteq> length text then Inl (invalid name text) else Inr v)"

definition parse_u16 :: "string \<Rightarrow> string \<Rightarrow> u16 res" where
  "parse_u16 text name =
     bindR (parse_ull text name) (\<lambda>v.
     if v > 0xffff then Inl (invalid name text) else Inr (ucast v))"

definition parse_u32 :: "string \<Rightarrow> string \<Rightarrow> u32 res" where
  "parse_u32 text name =
     bindR (parse_ull text name) (\<lambda>v.
     if v > 0xffffffff then Inl (invalid name text) else Inr (ucast v))"

text \<open>The loop that keeps the hexadecimal digits; \<open>None\<close> is the \<open>throw\<close> in it.\<close>

fun hex_digits :: "(char \<Rightarrow> bool) \<Rightarrow> string \<Rightarrow> string option" where
  "hex_digits skip [] = Some []"
| "hex_digits skip (ch # text) =
     (if skip ch then hex_digits skip text
      else if \<not> isxdigit ch then None
      else map_option (\<lambda>hex. ch # hex) (hex_digits skip text))"

text \<open>The loop over the pairs of digits.\<close>

fun byte_pairs :: "string \<Rightarrow> u8 list res" where
  "byte_pairs (a # b # hex) =
     bindR (stoull ''stoul'' [a, b] 16) (\<lambda>(v, _).
     bindR (byte_pairs hex) (\<lambda>bytes. Inr (ucast v # bytes)))"
| "byte_pairs hex = Inr []"

definition is_separator :: "char \<Rightarrow> bool" where
  "is_separator ch \<longleftrightarrow> ch = CHR '':'' \<or> ch = CHR ''-''"

definition parse_mac :: "string \<Rightarrow> string \<Rightarrow> u8 list res" where
  "parse_mac text name =
     (case hex_digits is_separator text of
        None \<Rightarrow> Inl (invalid name text)
      | Some hex \<Rightarrow> if length hex \<noteq> 12 then Inl (invalid name text) else byte_pairs hex)"

definition parse_hex_bytes :: "string \<Rightarrow> string \<Rightarrow> u8 list res" where
  "parse_hex_bytes text name =
     (case hex_digits (\<lambda>ch. isspace ch \<or> is_separator ch) text of
        None \<Rightarrow> Inl (invalid name text)
      | Some hex \<Rightarrow>
          if length hex mod 2 \<noteq> 0
          then Inl (RuntimeError (''invalid '' @ name @ '': odd number of hex digits''))
          else byte_pairs hex)"

text \<open>
  The loop of every \<open>main\<close> over \<open>argv\<close>: an option that takes the argument after it, if there is
  one, is tried first, then one that stands alone. The result \<open>Inr None\<close> is the \<open>usage\<close> exit.
\<close>

fun option_loop ::
  "(string \<Rightarrow> string \<Rightarrow> 'o \<Rightarrow> 'o option res) \<Rightarrow> (string \<Rightarrow> 'o \<Rightarrow> 'o option) \<Rightarrow> string list \<Rightarrow> 'o \<Rightarrow> 'o option res" where
  "option_loop value_option flag_option [] opt = Inr (Some opt)"
| "option_loop value_option flag_option [arg] opt = Inr (flag_option arg opt)"
| "option_loop value_option flag_option (arg # v # args) opt =
     bindR (value_option arg v opt) (\<lambda>r.
     case r of Some opt' \<Rightarrow> option_loop value_option flag_option args opt'
     | None \<Rightarrow> (case flag_option arg opt of
         Some opt' \<Rightarrow> option_loop value_option flag_option (v # args) opt' | None \<Rightarrow> Inr None))"

lemma option_loop_keeps:
  assumes "\<And>arg v opt opt'. value_option arg v opt = Inr (Some opt') \<Longrightarrow> P opt \<Longrightarrow> P opt'"
    and "\<And>arg opt opt'. flag_option arg opt = Some opt' \<Longrightarrow> P opt \<Longrightarrow> P opt'"
  shows "option_loop value_option flag_option args opt = Inr (Some opt') \<Longrightarrow> P opt \<Longrightarrow> P opt'"
proof (induction value_option\<equiv>value_option flag_option\<equiv>flag_option args opt rule: option_loop.induct)
  case (3 arg v args opt)
  then show ?case using assms by (auto simp: res_iff split: option.splits)
qed (use assms in auto)

section \<open>Names\<close>

definition hex_digit :: "nat \<Rightarrow> char" where
  "hex_digit n = (if n < 10 then char_of (48 + n) else char_of (87 + n))"

text \<open>The format \<open>{:02x}\<close> of a byte.\<close>

definition hex2 :: "u8 \<Rightarrow> string" where
  "hex2 b = [hex_digit (unat b div 16), hex_digit (unat b mod 16)]"

definition mac_string :: "u8 list \<Rightarrow> string" where
  "mac_string mac =
     hex2 (mac ! 0) @ '':'' @ hex2 (mac ! 1) @ '':'' @ hex2 (mac ! 2) @ '':'' @
     hex2 (mac ! 3) @ '':'' @ hex2 (mac ! 4) @ '':'' @ hex2 (mac ! 5)"

definition on_off :: "bool \<Rightarrow> string" where
  "on_off value = (if value then ''on'' else ''off'')"

definition dma_flag_names :: "u32 \<Rightarrow> string" where
  "dma_flag_names flags = join_flags
     ((if flags AND VFIO_DMA_MAP_FLAG_READ \<noteq> 0 then [''READ''] else []) @
      (if flags AND VFIO_DMA_MAP_FLAG_WRITE \<noteq> 0 then [''WRITE''] else []))"

definition pci_command_names :: "u16 \<Rightarrow> string" where
  "pci_command_names command = join_flags
     ((if command AND 1 \<noteq> 0 then [''IO''] else []) @
      (if command AND PCI_COMMAND_MEMORY \<noteq> 0 then [''MEMORY''] else []) @
      (if command AND PCI_COMMAND_MASTER \<noteq> 0 then [''BUS_MASTER''] else []) @
      (if command AND 0x400 \<noteq> 0 then [''INTX_DISABLE''] else []))"

section \<open>Decimal numbers\<close>

text \<open>A decimal digit: the facts about its character.\<close>

lemma digit_all:
  "list_all (\<lambda>d. let c = char_of (48 + d) in digit_value c = d \<and> \<not> isspace c \<and> c \<noteq> CHR ''-'' \<and>
     c \<noteq> CHR ''+'' \<and> (c = CHR ''0'' \<longleftrightarrow> d = 0)) [0..<10]"
  by code_simp

lemma digit_char:
  fixes d :: nat
  assumes "d < 10"
  shows "digit_value (char_of (48 + d)) = d" and "\<not> isspace (char_of (48 + d))"
    and "char_of (48 + d) \<noteq> CHR ''-''" and "char_of (48 + d) \<noteq> CHR ''+''"
    and "char_of (48 + d) = CHR ''0'' \<longleftrightarrow> d = 0"
  using digit_all assms by (simp_all add: list_all_iff Let_def)

text \<open>All of a decimal numeral: its digits, its first one, its value.\<close>

definition is_decimal :: "string \<Rightarrow> bool" where
  "is_decimal ds \<longleftrightarrow> ds \<noteq> [] \<and> (\<forall>c \<in> set ds. \<exists>d::nat. d < 10 \<and> c = char_of (48 + d))"

lemma to_string_decimal: "is_decimal (to_string n)"
proof (induction n rule: to_string.induct)
  case (1 n)
  show ?case
  proof (cases "n < 10")
    case True
    then show ?thesis by (subst to_string.simps) (auto simp: is_decimal_def)
  next
    case False
    with 1 have "is_decimal (to_string (n div 10))" by simp
    moreover have "n mod 10 < 10" by simp
    then have "\<exists>d::nat. d < 10 \<and> char_of (48 + n mod 10) = (char_of (48 + d) :: char)" by blast
    ultimately have "is_decimal (to_string (n div 10) @ [char_of (48 + n mod 10)])"
      by (simp add: is_decimal_def ball_Un)
    then show ?thesis using False by (subst to_string.simps) simp
  qed
qed

lemma digits_value_snoc: "digits_value b (ds @ [c]) = digits_value b ds * b + digit_value c"
  by (simp add: digits_value_def)

lemma digits_value_to_string: "digits_value 10 (to_string n) = n"
proof (induction n rule: to_string.induct)
  case (1 n)
  show ?case
  proof (cases "n < 10")
    case True
    then show ?thesis by (subst to_string.simps) (simp add: digits_value_def digit_char)
  next
    case False
    with 1 have "digits_value 10 (to_string (n div 10)) = n div 10" by simp
    with False show ?thesis
      by (subst to_string.simps) (simp add: digits_value_snoc digit_char)
  qed
qed

lemma to_string_head: "0 < n \<Longrightarrow> hd (to_string n) \<noteq> CHR ''0''"
proof (induction n rule: to_string.induct)
  case (1 n)
  show ?case
  proof (cases "n < 10")
    case True
    with 1 show ?thesis by (subst to_string.simps) (simp add: digit_char)
  next
    case False
    with 1 have "hd (to_string (n div 10)) \<noteq> CHR ''0''" by simp
    moreover have "to_string (n div 10) \<noteq> []"
      using to_string_decimal by (simp add: is_decimal_def)
    ultimately show ?thesis using False by (subst to_string.simps) simp
  qed
qed

lemma strtoull_decimal:
  assumes "is_decimal ds" and "hd ds \<noteq> CHR ''0''"
  shows "strtoull 0 ds = Some (False, digits_value 10 ds, length ds)"
proof -
  from assms(1) obtain c cs where ds: "ds = c # cs" by (cases ds) (auto simp: is_decimal_def)
  from assms(1) ds obtain d :: nat where d: "d < 10" "c = char_of (48 + d)" by (auto simp: is_decimal_def)
  have "dropWhile isspace ds = ds" using ds d by (simp add: digit_char)
  moreover have "strtoull_sign ds = (False, ds)"
    using ds d by (simp add: strtoull_sign_def digit_char)
  moreover have "strtoull_base 0 ds = (10, ds)"
    using assms(2) ds by (simp add: strtoull_base_def)
  moreover have "takeWhile (\<lambda>c. digit_value c < 10) ds = ds"
    using assms(1) by (auto simp: is_decimal_def digit_char takeWhile_eq_all_conv)
  ultimately show ?thesis using ds by (simp add: strtoull_def)
qed

lemma strtoull_to_string: "strtoull 0 (to_string n) = Some (False, n, length (to_string n))"
proof (cases "n = 0")
  case True
  have "to_string 0 = ''0''" by code_simp
  moreover have "strtoull 0 ''0'' = Some (False, 0, 1)" by code_simp
  ultimately show ?thesis using True by simp
next
  case False
  with strtoull_decimal [OF to_string_decimal to_string_head] show ?thesis
    by (simp add: digits_value_to_string)
qed

lemma parse_ull_to_string:
  "parse_ull (to_string n) name = (if n < 2 ^ 64 then Inr (of_nat n) else Inl (OutOfRange ''stoull''))"
  by (simp add: parse_ull_def stoull_def strtoull_to_string)

text \<open>
  Decimal arguments: whatever number is written out, \<open>parse_u16\<close> gives it back if it fits 16
  bits, rejects it with the text of the argument if it fits 64, and with the exception of
  \<open>std::stoull\<close> otherwise.
\<close>

theorem parse_u16_decimal:
  "parse_u16 (to_string n) name =
     (if n < 2 ^ 16 then Inr (of_nat n) else if n < 2 ^ 64 then Inl (invalid name (to_string n))
      else Inl (OutOfRange ''stoull''))"
proof -
  have "(of_nat n :: u64) > 0xffff \<longleftrightarrow> \<not> n < 2 ^ 16" if "n < 2 ^ 64"
    using that by (auto simp: word_less_nat_alt unat_of_nat_small)
  moreover have "ucast (of_nat n :: u64) = (of_nat n :: u16)"
    by (simp add: unsigned_of_nat word_of_nat_eq_iff)
  ultimately show ?thesis by (simp add: parse_u16_def parse_ull_to_string)
qed

text \<open>
  Negative arguments are not rejected: \<open>std::stoull\<close> takes the sign and negates modulo
  \<open>2 ^ 64\<close>, and the range check of \<open>parse_u16\<close> only sees the result.
\<close>

theorem parse_accepts_negative:
  "parse_u16 ''-18446744073709551615'' ''rx-queue'' = Inr 1 \<and> parse_ull ''-1'' ''iova'' = Inr (- 1)"
proof -
  note defs = strtoull_def strtoull_sign_def isspace_def strtoull_base_def digit_value_def digits_value_def
  have "strtoull 0 ''-18446744073709551615'' = Some (True, 18446744073709551615, 21)"
    "strtoull 0 ''-1'' = Some (True, 1, 2)"
    by (simp_all add: defs)
  then show ?thesis by (simp add: parse_u16_def parse_ull_def stoull_def)
qed

section \<open>MAC addresses\<close>

lemma hex_digit_all:
  "list_all (\<lambda>d. digit_value (hex_digit d) = d \<and> \<not> is_separator (hex_digit d)) [0..<16]"
  by (simp add: upt_rec hex_digit_def digit_value_def is_separator_def char_of_eq_iff)

lemma hex_digit_facts:
  assumes "d < 16"
  shows "digit_value (hex_digit d) = d" and "\<not> is_separator (hex_digit d)"
  using hex_digit_all assms by (simp_all add: list_all_iff)

lemma xdigit_facts:
  assumes "isxdigit a"
  shows "\<not> isspace a" and "a \<noteq> CHR ''-''" and "a \<noteq> CHR ''+''" and "a \<noteq> CHR ''x''" and "a \<noteq> CHR ''X''"
proof -
  show "\<not> isspace a" using assms by (auto simp: isxdigit_def digit_value_def isspace_def Let_def split: if_splits)
  have "\<not> isxdigit (CHR ''-'') \<and> \<not> isxdigit (CHR ''+'') \<and> \<not> isxdigit (CHR ''x'') \<and> \<not> isxdigit (CHR ''X'')"
    by code_simp
  with assms show "a \<noteq> CHR ''-''" "a \<noteq> CHR ''+''" "a \<noteq> CHR ''x''" "a \<noteq> CHR ''X''" by blast+
qed

lemma nibbles: "unat (b :: u8) div 16 < 16" "unat b mod 16 < 16"
  using unat_u8_lt [of b] by simp_all

lemma stoull_hex_pair:
  assumes "isxdigit a" and "isxdigit b"
  shows "stoull fn [a, b] 16 = Inr (of_nat (digit_value a * 16 + digit_value b), 2)"
proof -
  have lt: "digit_value a < 16" "digit_value b < 16" using assms by (simp_all add: isxdigit_def)
  have "strtoull 16 [a, b] = Some (False, digit_value a * 16 + digit_value b, 2)"
    using assms lt
    by (simp add: strtoull_def xdigit_facts strtoull_sign_def strtoull_base_def digits_value_def)
  with lt show ?thesis by (simp add: stoull_def)
qed

lemma byte_pairs_digits:
  "\<forall>c \<in> set hex. isxdigit c \<Longrightarrow> \<exists>bytes. byte_pairs hex = Inr bytes \<and> length bytes = length hex div 2"
proof (induction hex rule: byte_pairs.induct)
  case (1 a b hex)
  from 1(2) have ab: "isxdigit a" "isxdigit b" by simp_all
  with 1 obtain bytes where "byte_pairs hex = Inr bytes" "length bytes = length hex div 2"
    by (auto simp: stoull_hex_pair)
  with ab show ?case by (simp add: stoull_hex_pair)
qed auto

lemma hex_digits_all: "hex_digits skip text = Some hex \<Longrightarrow> \<forall>c \<in> set hex. isxdigit c"
  by (induction skip "text" arbitrary: hex rule: hex_digits.induct) (auto split: if_splits)

lemma hex_digits_append:
  "hex_digits skip (xs @ ys) =
     (case hex_digits skip xs of None \<Rightarrow> None | Some h \<Rightarrow> map_option (\<lambda>g. h @ g) (hex_digits skip ys))"
  by (induction skip xs rule: hex_digits.induct) (auto simp: map_option_case split: option.splits)

lemma hex2_facts:
  "hex_digits is_separator (hex2 b) = Some (hex2 b)"
  "stoull fn [hex_digit (unat b div 16), hex_digit (unat b mod 16)] 16 = Inr (ucast b, 2)"
proof -
  have x: "isxdigit (hex_digit (unat b div 16))" "isxdigit (hex_digit (unat b mod 16))"
    by (simp_all add: isxdigit_def hex_digit_facts nibbles)
  then show "hex_digits is_separator (hex2 b) = Some (hex2 b)"
    by (simp add: hex2_def hex_digit_facts nibbles)
  have "(of_nat (unat b) :: u64) = ucast b" by (simp add: unsigned_of_nat)
  with x show "stoull fn [hex_digit (unat b div 16), hex_digit (unat b mod 16)] 16 = Inr (ucast b, 2)"
    by (simp add: stoull_hex_pair hex_digit_facts nibbles mult.commute div_mult_mod_eq [of "unat b" 16, simplified mult.commute])
qed

lemma hex_digits_colon [simp]: "hex_digits is_separator '':'' = Some []"
  by (simp add: is_separator_def)

lemma byte_pairs_hex2: "byte_pairs (hex2 b @ hex) = bindR (byte_pairs hex) (\<lambda>bytes. Inr (b # bytes))"
proof -
  have "ucast (ucast b :: u64) = b" by (rule ucast_up_ucast_id) (simp add: is_up)
  then show ?thesis by (simp add: hex2_def hex2_facts)
qed

text \<open>
  C38. \<open>parse_mac\<close> reads back what \<open>mac_string\<close> prints, for every address.
\<close>

theorem parse_mac_string:
  assumes "length mac = 6"
  shows "parse_mac (mac_string mac) name = Inr mac"
proof -
  from assms obtain a b c d e f where mac: "mac = [a, b, c, d, e, f]"
    by (auto simp: length_Suc_conv eval_nat_numeral)
  have "hex_digits is_separator (mac_string mac) = Some (hex2 a @ hex2 b @ hex2 c @ hex2 d @ hex2 e @ hex2 f)"
    by (simp only: mac mac_string_def hex_digits_append hex2_facts hex_digits_colon option.simps
        nth_Cons_numeral nth_Cons_0 append_Nil append_Nil2) simp
  moreover have "length (hex2 x) = 2" for x by (simp add: hex2_def)
  ultimately show ?thesis
    using byte_pairs_hex2 [of f "[]"] by (simp add: parse_mac_def mac byte_pairs_hex2)
qed

theorem parse_mac_string_witness:
  "parse_mac (mac_string [0x52, 0x54, 0, 0x12, 0x34, 0xff]) ''src-mac'' = Inr [0x52, 0x54, 0, 0x12, 0x34, 0xff]"
  by (rule parse_mac_string) simp

lemma parse_mac_length: "parse_mac w name = Inr mac \<Longrightarrow> length mac = 6"
  using byte_pairs_digits [OF hex_digits_all, of is_separator w]
  by (fastforce simp: parse_mac_def split: option.splits if_splits)

text \<open>
  C39. Every text is either a MAC address of six bytes or rejected by \<open>parse_mac\<close> with its name and
  text; the exceptions of \<open>std::stoul\<close> cannot occur.
\<close>

theorem parse_mac_result:
  "case parse_mac text name of Inr mac \<Rightarrow> length mac = 6 | Inl e \<Rightarrow> e = invalid name text"
proof (cases "hex_digits is_separator text")
  case (Some hex)
  then obtain bytes where "byte_pairs hex = Inr bytes" "length bytes = length hex div 2"
    using byte_pairs_digits [OF hex_digits_all] by blast
  with Some show ?thesis by (auto simp: parse_mac_def)
qed (simp add: parse_mac_def)

text \<open>The same for \<open>parse_hex_bytes\<close>.\<close>

lemma parse_hex_bytes_result:
  "case parse_hex_bytes text name of Inr bytes \<Rightarrow> 2 * length bytes \<le> length text
   | Inl e \<Rightarrow> \<exists>t. e = RuntimeError (''invalid '' @ name @ '': '' @ t)"
proof (cases "hex_digits (\<lambda>ch. isspace ch \<or> is_separator ch) text")
  case (Some hex)
  have "length h \<le> length t" if "hex_digits skip t = Some h" for skip t h
    using that by (induction skip t arbitrary: h rule: hex_digits.induct) (fastforce split: if_splits)+
  moreover obtain bytes where "byte_pairs hex = Inr bytes" "length bytes = length hex div 2"
    using byte_pairs_digits [OF hex_digits_all [OF Some]] by blast
  ultimately show ?thesis using Some by (fastforce simp: parse_hex_bytes_def)
qed (simp add: parse_hex_bytes_def invalid_def)

end
