(* ===== verification/EchoMain.thy ===== *)
theory EchoMain
  imports EchoRun Parse
begin

text \<open>
  The command line of \<open>userspace_drivers/25_virtio_net_echo_loop.cpp\<close>: the loop of \<open>main\<close> over
  \<open>argv\<close> and the checks between it and the run.
\<close>

section \<open>The command line\<close>

text \<open>
  One turn of the loop over \<open>argv\<close>: the option and the argument after it, if there is one. The
  result \<open>Inr None\<close> is the \<open>usage\<close> exit; the flag says whether the argument was used.
\<close>

definition echo_value_option :: "string \<Rightarrow> string \<Rightarrow> EchoOptions \<Rightarrow> EchoOptions option res" where
  "echo_value_option arg v opt =
     (if arg = ''--rx-queue'' then bindR (parse_u16 v ''rx-queue'') (\<lambda>x. Inr (Some (opt\<lparr>eo_rx_queue := x\<rparr>)))
      else if arg = ''--tx-queue'' then bindR (parse_u16 v ''tx-queue'') (\<lambda>x. Inr (Some (opt\<lparr>eo_tx_queue := x\<rparr>)))
      else if arg = ''--queue-size'' then bindR (parse_u16 v ''queue-size'') (\<lambda>x. Inr (Some (opt\<lparr>eo_queue_size := Some x\<rparr>)))
      else if arg = ''--rx-buffers'' then bindR (parse_u16 v ''rx-buffers'') (\<lambda>x. Inr (Some (opt\<lparr>eo_rx_buffers := x\<rparr>)))
      else if arg = ''--tx-buffers'' then bindR (parse_u16 v ''tx-buffers'') (\<lambda>x. Inr (Some (opt\<lparr>eo_tx_buffers := x\<rparr>)))
      else if arg = ''--rx-buffer-size'' then bindR (parse_ull v ''rx-buffer-size'') (\<lambda>x. Inr (Some (opt\<lparr>eo_rx_buffer_size := x\<rparr>)))
      else if arg = ''--iova'' then bindR (parse_ull v ''iova'') (\<lambda>x. Inr (Some (opt\<lparr>eo_iova := x\<rparr>)))
      else if arg = ''--align'' then bindR (parse_ull v ''align'') (\<lambda>x. Inr (Some (opt\<lparr>eo_align := x\<rparr>)))
      else if arg = ''--run-ms'' then bindR (parse_u32 v ''run-ms'') (\<lambda>x. Inr (Some (opt\<lparr>eo_run_ms := x\<rparr>)))
      else if arg = ''--max-packets'' then bindR (parse_u32 v ''max-packets'') (\<lambda>x. Inr (Some (opt\<lparr>eo_max_packets := x\<rparr>)))
      else if arg = ''--src-mac'' then bindR (parse_mac v ''src-mac'') (\<lambda>x. Inr (Some (opt\<lparr>eo_src_mac := Some x\<rparr>)))
      else if arg = ''--match-ethertype'' then bindR (parse_u16 v ''match-ethertype'') (\<lambda>x. Inr (Some (opt\<lparr>eo_match_ethertype := Some x\<rparr>)))
      else if arg = ''--dump-bytes'' then bindR (parse_ull v ''dump-bytes'') (\<lambda>x. Inr (Some (opt\<lparr>eo_dump_bytes := x\<rparr>)))
      else Inr None)"

definition echo_flag_option :: "string \<Rightarrow> EchoOptions \<Rightarrow> EchoOptions option" where
  "echo_flag_option arg opt =
     (if arg = ''--accept-any-ethertype'' then Some (opt\<lparr>eo_match_ethertype := None\<rparr>)
      else if arg = ''--dump-every-packet'' then Some (opt\<lparr>eo_dump_every_packet := True\<rparr>)
      else if arg = ''--dry-run'' then Some (opt\<lparr>eo_yes := False\<rparr>)
      else if arg = ''--yes'' then Some (opt\<lparr>eo_yes := True\<rparr>)
      else None)"

definition echo_args :: "string list \<Rightarrow> EchoOptions \<Rightarrow> EchoOptions option res" where
  "echo_args args opt = option_loop echo_value_option echo_flag_option args opt"

definition kVringUsedAlignSize :: u64 where "kVringUsedAlignSize = 4"

text \<open>
  \<open>main\<close> up to the choice between \<open>run_echo_loop\<close> and \<open>dry_run\<close>: the arguments after the name of the
  program, and whether the PCI device exists. \<open>Inr None\<close> is the exit with status 1 that is not an exception.
\<close>

definition echo_main :: "(string \<Rightarrow> bool) \<Rightarrow> string list \<Rightarrow> (string \<times> EchoOptions) option res" where
  "echo_main exists args =
     (case args of [] \<Rightarrow> Inr None
      | bdf_text # rest \<Rightarrow>
          let bdf = normalize_bdf bdf_text
          in if \<not> exists bdf then Inr None
             else bindR (echo_args rest default_options) (\<lambda>r.
               case r of None \<Rightarrow> Inr None
               | Some opt \<Rightarrow>
                   bindR (throw_if (\<not> is_power_of_two (eo_align opt) \<or> eo_align opt < kVringUsedAlignSize)
                     (RuntimeError ''align must be a power of two and at least 4 bytes'')) (\<lambda>_.
                   bindR (throw_if (eo_max_packets opt = 0)
                     (RuntimeError ''max-packets must be greater than 0'')) (\<lambda>_.
                   bindR (throw_if (eo_run_ms opt = 0) (RuntimeError ''run-ms must be greater than 0'')) (\<lambda>_.
                   Inr (Some (bdf, opt)))))))"

text \<open>What every option leaves alone: a source address has six bytes.\<close>

definition mac_option_ok :: "EchoOptions \<Rightarrow> bool" where
  "mac_option_ok opt = (case eo_src_mac opt of None \<Rightarrow> True | Some mac \<Rightarrow> length mac = 6)"

lemma echo_value_option_mac:
  assumes "echo_value_option arg v opt = Inr (Some opt')" and "mac_option_ok opt"
  shows "mac_option_ok opt'"
proof -
  have "length mac = 6" if "parse_mac v name = Inr mac" for mac name
    using parse_mac_length [OF that] .
  with assms show ?thesis
    by (auto simp: echo_value_option_def mac_option_ok_def res_iff split: if_splits)
qed

lemma echo_flag_option_mac:
  "echo_flag_option arg opt = Some opt' \<Longrightarrow> mac_option_ok opt \<Longrightarrow> mac_option_ok opt'"
  by (auto simp: echo_flag_option_def mac_option_ok_def split: if_splits)

lemma echo_args_mac: "echo_args args opt = Inr (Some opt') \<Longrightarrow> mac_option_ok opt \<Longrightarrow> mac_option_ok opt'"
  unfolding echo_args_def by (rule option_loop_keeps [OF echo_value_option_mac echo_flag_option_mac])

lemma default_options_mac: "mac_option_ok default_options"
  by (simp add: mac_option_ok_def default_options_def)

text \<open>
  Only sane options reach the device: when \<open>main\<close> goes on to run, the alignment is a power of two of
  at least 4, the run is bounded in time and in packets, a given source address has six bytes,
  the BDF names an existing device, and with a clock that moves the loops of the run end.
\<close>

theorem echo_main_accepts:
  assumes "echo_main exists args = Inr (Some (bdf, opt))"
  shows "(\<exists>k. unat (eo_align opt) = 2 ^ k \<and> 2 \<le> k) \<and> 0 < eo_max_packets opt \<and> 0 < eo_run_ms opt \<and>
    (eo_src_mac opt = None \<or> (\<exists>mac. eo_src_mac opt = Some mac \<and> length mac = 6)) \<and> exists bdf \<and>
    (ticks env \<longrightarrow> fst (run_loops (ms (unat (eo_run_ms opt)) + 1) env opt c st s) \<noteq> Inl OutOfFuel)"
proof -
  from assms have args: "exists bdf" "mac_option_ok opt"
    and p2: "is_power_of_two (eo_align opt)" and four: "\<not> eo_align opt < 4"
    and pos: "eo_max_packets opt \<noteq> 0" "eo_run_ms opt \<noteq> 0"
    using echo_args_mac [of _ default_options]
    by (auto simp: echo_main_def Let_def res_iff kVringUsedAlignSize_def default_options_mac
        split: list.splits if_splits option.splits)
  from p2 obtain k where k: "unat (eo_align opt) = 2 ^ k" by (auto simp: is_power_of_two_nat)
  from four have "4 \<le> unat (eo_align opt)" by (simp add: word_less_nat_alt not_less)
  with k have "(2::nat) ^ 2 \<le> 2 ^ k" by simp
  then have "2 \<le> k" by (rule power_le_imp_le_exp [rotated]) simp
  moreover have "fst (run_loops (ms (unat (eo_run_ms opt)) + 1) env opt c st s) \<noteq> Inl OutOfFuel" if "ticks env"
    using that pos(2) by (rule loops_end) simp
  ultimately show ?thesis using args pos k
    by (auto simp: mac_option_ok_def word_gt_0 split: option.splits)
qed

theorem echo_main_accepts_witness:
  "\<exists>opt. echo_main (\<lambda>_. True) [''c1:00.6'', ''--max-packets'', ''5'', ''--yes''] = Inr (Some (''0000:c1:00.6'', opt)) \<and>
     (\<exists>k. unat (eo_align opt) = 2 ^ k \<and> 2 \<le> k)"
proof -
  have "parse_u32 ''5'' ''max-packets'' = Inr 5"
    by (simp add: parse_u32_def parse_ull_def stoull_def strtoull_def strtoull_sign_def isspace_def
        strtoull_base_def digit_value_def digits_value_def)
  moreover have "is_power_of_two 4096" by code_simp
  ultimately have run: "echo_main (\<lambda>_. True) [''c1:00.6'', ''--max-packets'', ''5'', ''--yes''] =
      Inr (Some (''0000:c1:00.6'', default_options\<lparr>eo_max_packets := 5, eo_yes := True\<rparr>))"
    by (simp add: echo_main_def echo_args_def normalize_bdf_def echo_value_option_def echo_flag_option_def default_options_def
        kVringUsedAlignSize_def)
  from run echo_main_accepts [OF run] show ?thesis by blast
qed

end
