(* ===== verification/IrqMain.thy ===== *)
theory IrqMain
  imports IrqEcho EchoMain
begin

text \<open>
  The command line of \<open>userspace_drivers/26_virtio_net_irq_echo_loop.cpp\<close>: the options it shares with
  exercise 25, the three of its own, and the checks of \<open>main\<close>.
\<close>

definition irq_value_option :: "string \<Rightarrow> string \<Rightarrow> IrqOptions \<Rightarrow> IrqOptions option res" where
  "irq_value_option arg v opt =
     (if arg = ''--irq-index'' then bindR (parse_u32 v ''irq-index'') (\<lambda>x. Inr (Some (opt\<lparr>io_irq_index := x\<rparr>)))
      else if arg = ''--rx-vector'' then bindR (parse_u16 v ''rx-vector'') (\<lambda>x. Inr (Some (opt\<lparr>io_rx_vector := x\<rparr>)))
      else if arg = ''--tx-vector'' then bindR (parse_u16 v ''tx-vector'') (\<lambda>x. Inr (Some (opt\<lparr>io_tx_vector := x\<rparr>)))
      else bindR (echo_value_option arg v (io_echo opt)) (\<lambda>r.
        Inr (map_option (\<lambda>e. opt\<lparr>io_echo := e\<rparr>) r)))"

definition irq_flag_option :: "string \<Rightarrow> IrqOptions \<Rightarrow> IrqOptions option" where
  "irq_flag_option arg opt = map_option (\<lambda>e. opt\<lparr>io_echo := e\<rparr>) (echo_flag_option arg (io_echo opt))"

definition irq_args :: "string list \<Rightarrow> IrqOptions \<Rightarrow> IrqOptions option res" where
  "irq_args args opt = option_loop irq_value_option irq_flag_option args opt"

definition irq_main :: "(string \<Rightarrow> bool) \<Rightarrow> string list \<Rightarrow> (string \<times> IrqOptions) option res" where
  "irq_main exists args =
     (case args of [] \<Rightarrow> Inr None
      | bdf_text # rest \<Rightarrow>
          let bdf = normalize_bdf bdf_text
          in if \<not> exists bdf then Inr None
             else bindR (irq_args rest irq_opt) (\<lambda>r.
               case r of None \<Rightarrow> Inr None
               | Some iopt \<Rightarrow>
                   let opt = io_echo iopt
                   in bindR (throw_if (\<not> is_power_of_two (eo_align opt) \<or> eo_align opt < kVringUsedAlignSize)
                     (RuntimeError ''align must be a power of two and at least 4 bytes'')) (\<lambda>_.
                   bindR (throw_if (eo_max_packets opt = 0)
                     (RuntimeError ''max-packets must be greater than 0'')) (\<lambda>_.
                   bindR (throw_if (eo_run_ms opt = 0) (RuntimeError ''run-ms must be greater than 0'')) (\<lambda>_.
                   Inr (Some (bdf, iopt)))))))"

lemma irq_value_option_mac:
  "irq_value_option arg v opt = Inr (Some opt') \<Longrightarrow> mac_option_ok (io_echo opt) \<Longrightarrow> mac_option_ok (io_echo opt')"
  by (auto simp: irq_value_option_def res_iff intro: echo_value_option_mac split: if_splits)

lemma irq_flag_option_mac:
  "irq_flag_option arg opt = Some opt' \<Longrightarrow> mac_option_ok (io_echo opt) \<Longrightarrow> mac_option_ok (io_echo opt')"
  by (auto simp: irq_flag_option_def intro: echo_flag_option_mac)

lemma irq_args_mac:
  "irq_args args opt = Inr (Some opt') \<Longrightarrow> mac_option_ok (io_echo opt) \<Longrightarrow> mac_option_ok (io_echo opt')"
  unfolding irq_args_def
  by (rule option_loop_keeps [where P = "\<lambda>opt. mac_option_ok (io_echo opt)", OF irq_value_option_mac irq_flag_option_mac])

text \<open>
  What \<open>main\<close> accepts is what the loop needs: the run is bounded, a given source address has six
  bytes, and the loops end under a clock that moves and a kernel that does not signal for ever.
\<close>

theorem irq_main_accepts:
  assumes "irq_main exists args = Inr (Some (bdf, opt))" and "signals_bounded pending env" and "ticks env"
  shows "mac_option_ok (io_echo opt) \<and> exists bdf \<and> eo_max_packets (io_echo opt) \<noteq> 0 \<and>
    fst (run_irq_loops (ms (unat (eo_run_ms (io_echo opt))) + ms 1000 + 1) env (io_echo opt) c rx_irq tx_irq st s)
      \<noteq> Inl OutOfFuel"
proof -
  from assms(1) have "exists bdf" "mac_option_ok (io_echo opt)" "eo_max_packets (io_echo opt) \<noteq> 0"
    using irq_args_mac [of _ irq_opt]
    by (auto simp: irq_main_def Let_def res_iff default_options_mac irq_opt_def
        split: list.splits if_splits option.splits)
  moreover have "fst (run_irq_loops (ms (unat (eo_run_ms (io_echo opt))) + ms 1000 + 1) env (io_echo opt) c
      rx_irq tx_irq st s) \<noteq> Inl OutOfFuel"
    by (rule irq_loops_fuel_enough [OF assms(2,3)]) simp_all
  ultimately show ?thesis by blast
qed

end
