(* ===== verification/Defined.thy ===== *)
theory Defined
  imports EchoRun
begin

text \<open>
  Freedom from undefined behaviour, the shared part: a set of rules by which it is derived for a
  program from its text, whatever the device answers and whatever the size of the buffer is, the
  scopes of Scopes.thy with a defined body, and the echo program of exercise 25.
\<close>

section \<open>Results without undefined behaviour\<close>

definition fault_free :: "'a res \<Rightarrow> bool" where
  "fault_free r \<longleftrightarrow> (\<forall>e. r = Inl e \<longrightarrow> \<not> is_ub e)"

named_theorems fault_rules "results that are no undefined behaviour"

lemma fault_free_basic [fault_rules]:
  "fault_free (Inr a)" "\<not> is_ub e \<Longrightarrow> fault_free (Inl e)" "\<not> is_ub e \<Longrightarrow> fault_free (throw_if b e)"
  by (simp_all add: fault_free_def throw_if_def)

lemma fault_free_bindR [fault_rules]:
  "fault_free m \<Longrightarrow> (\<And>a. m = Inr a \<Longrightarrow> fault_free (f a)) \<Longrightarrow> fault_free (bindR m f)"
  by (cases m) (simp_all add: fault_free_def)

lemma fault_free_if [fault_rules]: "fault_free r \<Longrightarrow> fault_free q \<Longrightarrow> fault_free (if b then r else q)"
  by simp

lemma fault_free_sizes [fault_rules]:
  "fault_free (align_up v a)" "fault_free (checked_add x y what)" "fault_free (checked_mul x y what)"
  using align_up_not_ub checked_not_ub by (auto simp: fault_free_def)

lemma fault_free_pages [fault_rules]:
  "fault_free (system_page_size ps)" "fault_free (round_up_to_page ps v)"
  by (simp_all add: system_page_size_def round_up_to_page_def fault_rules)

lemma fault_free_layouts [fault_rules]:
  "fault_free (compute_vring_layout q a)" "fault_free (choose_queue_size mx req)"
  "fault_free (compute_dma_layout ps rxq txq al rxb txb rbs tbs)"
  "fault_free (compute_dma_layout_packet ps rxq txq al rxb rbs tps)"
  "fault_free (compute_dma_layout_rx ps rxq txq al rxb rbs)"
  by (simp_all add: compute_vring_layout_def choose_queue_size_def compute_dma_layout_def
      compute_dma_layout_packet_def compute_dma_layout_rx_def check_rx_buffers_def Let_def fault_rules split: option.splits)

lemma fault_free_find_cfg: "fault_free (find_cfg ty msg caps)"
  by (induction ty msg caps rule: find_cfg.induct) (simp_all add: fault_rules)

lemma fault_free_find [fault_rules]:
  "fault_free (find_common_cfg caps)" "fault_free (find_notify_cfg caps)" "fault_free (find_device_cfg caps)"
  by (simp_all add: find_common_cfg_def find_notify_cfg_def find_device_cfg_def fault_free_find_cfg)

lemma fault_free_region_cap_loop: "fault_free (region_cap_loop fuel region buf offset)"
proof (induction fuel arbitrary: region offset)
  case 0
  show ?case by (subst region_cap_loop.simps) (simp add: fault_rules)
next
  case (Suc fuel)
  show ?case by (subst region_cap_loop.simps) (simp add: fault_rules Let_def Suc)
qed

lemma fault_free_regions [fault_rules]:
  "fault_free (parse_region_caps fuel region buf)" "fault_free (vfio_bar_region_index bar)"
  "fault_free (require_mmap_area_contains region off sz what)" "fault_free (check_notify_offset notify region off)"
  by (simp_all add: parse_region_caps_def vfio_bar_region_index_def require_mmap_area_contains_def
      check_notify_offset_def fault_free_region_cap_loop fault_rules)

lemma fault_free_features [fault_rules]:
  "fault_free (set_feature ws b)" "fault_free (copy_feature dev b ws)"
  "fault_free (minimal_guest_features dev)" "fault_free (minimal_transport_features dev)"
  "fault_free (ctrl_rx_guest_features dev)" "fault_free (ctrl_mac_addr_guest_features dev)"
proof -
  show set_feature: "fault_free (set_feature ws b)" for ws b by (simp add: set_feature_def fault_rules)
  show copy_feature: "fault_free (copy_feature dev b ws)" for b ws
    by (simp add: copy_feature_def set_feature fault_rules)
  note features = set_feature copy_feature
  show "fault_free (minimal_transport_features dev)"
    by (simp add: minimal_transport_features_def Let_def fault_rules features)
  show minimal: "fault_free (minimal_guest_features dev)"
    by (simp add: minimal_guest_features_def Let_def fault_rules features)
  show "fault_free (ctrl_rx_guest_features dev)" "fault_free (ctrl_mac_addr_guest_features dev)"
    by (simp_all add: ctrl_rx_guest_features_def ctrl_mac_addr_guest_features_def fault_rules features minimal)
qed

section \<open>Operations outside the DMA buffer\<close>

text \<open>
  What does not touch the buffer is safe whatever its size; \<open>keeps_any\<close> says so for the two invariants
  of this theory, a size and none.
\<close>

lemma safe_liftR_fault_free [safe_rules]: "fault_free r \<Longrightarrow> safe I (liftR r)"
  by (rule safe_liftR) (simp add: fault_free_def)

lemma safe_bind_liftR:
  "fault_free r \<Longrightarrow> (\<And>a. r = Inr a \<Longrightarrow> safe I (f a)) \<Longrightarrow> safe I (bindM (liftR r) f)"
proof -
  have "bindM (liftR r) f = (case r of Inl e \<Rightarrow> throwM e | Inr a \<Rightarrow> f a)"
    by (rule ext) (simp add: bindM_def liftR_def throwM_def split: sum.split)
  then show "fault_free r \<Longrightarrow> (\<And>a. r = Inr a \<Longrightarrow> safe I (f a)) \<Longrightarrow> safe I (bindM (liftR r) f)"
    by (cases r) (simp_all add: safe_throwM fault_free_def)
qed

lemma safe_any: "(\<And>n. safe (buffer_size n) m) \<Longrightarrow> safe (\<lambda>_. True) m"
proof (unfold safe_def, rule hoareI)
  fix s assume m: "\<And>n. hoare (buffer_size n) m (\<lambda>_. buffer_size n) (\<lambda>e s. \<not> is_ub e \<and> buffer_size n s)"
  obtain x s' where x: "m s = (x, s')" by fastforce
  have "\<not> is_ub e" if "x = Inl e" for e
    using hoare_Inl [OF m, of "length (mem s)" s e s'] x that by (simp add: buffer_size_def)
  with x show "case m s of (Inl e, s') \<Rightarrow> \<not> is_ub e \<and> True | (Inr a, s') \<Rightarrow> True"
    by (cases x) simp_all
qed

named_theorems any_rules "computations that are safe for a buffer of any size"

lemma any_config [any_rules]:
  "safe (buffer_size n) (pread_loop fuel env sz off what acc)" "safe (buffer_size n) (pwrite_loop fuel env data off what k)"
  by (induction fuel arbitrary: acc k) (auto simp: safe_rules split: sum.splits)

lemma any_config_access [any_rules]:
  "safe (buffer_size n) (read_config_u8 env config o8)" "safe (buffer_size n) (read_config_le16 env config o16)"
  "safe (buffer_size n) (read_config_le32 env config o32)"
  "safe (buffer_size n) (read_config_le64_from_halves env config lo hi)"
  "safe (buffer_size n) (write_config_le16 env config o16 v)"
  by (simp_all add: read_config_u8_def read_config_le16_def read_config_le32_def read_config_le64_from_halves_def
      write_config_le16_def read_config_bytes_def write_config_bytes_def pread_exact_def pwrite_exact_def safe_rules any_rules)

lemma any_virtio_cap_walk: "safe (buffer_size n) (virtio_cap_walk hops reads env config cap vis caps)"
  by (induction hops arbitrary: cap vis caps)
    (simp_all add: read_one_virtio_cap_def Let_def safe_rules any_rules)

lemma any_read_virtio_caps [any_rules]:
  "safe (buffer_size n) (read_virtio_caps_with reads env config)" "safe (buffer_size n) (read_virtio_caps env config)"
  by (simp_all add: read_virtio_caps_def read_virtio_caps_with_def safe_rules any_rules any_virtio_cap_walk)

lemma any_regions [any_rules]:
  "safe (buffer_size n) (get_region_info env i)" "safe (buffer_size n) (get_config_region env)"
  by (simp_all add: get_region_info_def get_config_region_def Let_def safe_rules fault_rules)

lemma any_maps [any_rules]:
  "safe (buffer_size n) (map_common_range hi env region cap wr)" "safe (buffer_size n) (map_common_window lo msg hi env cap wr)"
  "safe (buffer_size n) (map_common_cfg env cap wr)"
  "safe (buffer_size n) (map_device_cfg env cap len)"
  "safe (buffer_size n) (map_notify_window env cap region q)"
  by (simp_all add: map_common_cfg_def map_common_window_def map_common_range_def map_device_cfg_def map_notify_window_def Let_def safe_rules any_rules fault_rules)

lemma any_pci [any_rules]:
  "safe (buffer_size n) (pci_command_new env config)" "safe (buffer_size n) (enable_bus_mastering env config w)"
  "safe (buffer_size n) (pci_command_restore env config w)"
  by (simp_all add: pci_command_new_def enable_bus_mastering_def pci_command_restore_def Let_def safe_rules any_rules)

lemma any_status [any_rules]:
  "safe (buffer_size n) (read_status env r d)" "safe (buffer_size n) (write_status env r d st)"
  by (simp_all add: read_status_def write_status_def safe_rules)

lemma any_wait_status_loop [any_rules]: "safe (buffer_size n) (wait_status_loop fuel env r d e dl)"
  by (induction fuel) (simp_all add: safe_rules any_rules)

lemma any_loops [any_rules]:
  "safe (buffer_size n) (read_feature_loop env r sel val is)" "safe (buffer_size n) (read_mac_loop env r base is)"
  by (induction "is") (simp_all add: safe_rules)

lemma any_transport [any_rules]:
  "safe (buffer_size n) (wait_for_status env r d e t)" "safe (buffer_size n) (reset_device env r d)"
  "safe (buffer_size n) (read_queue_view_with b env r d)" "safe (buffer_size n) (read_queue_view env r d)"
  "safe (buffer_size n) (program_queue_addresses env r d l iova)"
  "safe (buffer_size n) (enable_queue env r d)" "safe (buffer_size n) (write_notify env r d h)"
  "safe (buffer_size n) (set_driver_ok env r d)" "safe (buffer_size n) (selection_select env r d queue)"
  "safe (buffer_size n) (selection_restore env r d queue)"
  "safe (buffer_size n) (reset_guard_drop env r d)" "safe (buffer_size n) reset_guard_new"
  "safe (buffer_size n) reset_guard_disarm"
  by (simp_all add: wait_for_status_def reset_device_def read_common_u64_def write_common_u64_def read_queue_view_def read_queue_view_with_def
      program_queue_addresses_def enable_queue_def write_notify_def set_driver_ok_def selection_select_def
      selection_restore_def reset_guard_drop_def reset_guard_new_def reset_guard_disarm_def safe_rules any_rules)

lemma any_queues [any_rules]:
  "safe (buffer_size n) (program_and_enable_queue env r d queue l iova label)"
  "safe (buffer_size n) (size_queue env r d queue req label)"
  by (simp_all add: program_and_enable_queue_def size_queue_def safe_rules any_rules fault_rules)

lemma any_negotiate [any_rules]:
  "(\<And>ws. fault_free (pick ws)) \<Longrightarrow> safe (buffer_size n) (negotiate pick env r d)"
  by (simp add: negotiate_def read_feature_words_def write_guest_feature_words_def safe_rules any_rules)

lemma any_negotiations [any_rules]:
  "safe (buffer_size n) (negotiate_minimal_features env r d)" "safe (buffer_size n) (negotiate_minimal_transport_features env r d)"
  "safe (buffer_size n) (negotiate_ctrl_rx_features env r d)" "safe (buffer_size n) (negotiate_ctrl_mac_addr_features env r d)"
  by (simp_all add: negotiate_minimal_features_def negotiate_minimal_transport_features_def negotiate_ctrl_rx_features_def
      negotiate_ctrl_mac_addr_features_def safe_rules any_rules fault_rules)

section \<open>The scopes\<close>

text \<open>\<open>defined m\<close>: from any state, \<open>m\<close> does not end in undefined behaviour.\<close>

abbreviation defined :: "('s, 'a) M \<Rightarrow> bool" where
  "defined m \<equiv> safe (\<lambda>_. True) m"

lemma definedD: "defined m \<Longrightarrow> m s = (Inl e, s') \<Longrightarrow> \<not> is_ub e"
  by (auto simp: safe_def dest: hoare_Inl)

lemma defined_bind:
  "(\<And>n. safe (buffer_size n) m) \<Longrightarrow> (\<And>a. defined (f a)) \<Longrightarrow> defined (bindM m f)"
  by (rule safe_bindM [OF safe_any])

lemma defined_bind_value:
  assumes m: "\<And>n. yields n m R" and f: "\<And>a. R a \<Longrightarrow> defined (f a)"
  shows "defined (bindM m f)"
  unfolding safe_def
proof (rule hoare_bindM [where R = "\<lambda>a _. R a"])
  show "hoare (\<lambda>_. True) m (\<lambda>a _. R a) (\<lambda>e s. \<not> is_ub e \<and> True)"
  proof (rule hoareI)
    fix s
    obtain x s' where x: "m s = (x, s')" by fastforce
    have "R a" if "x = Inr a" for a
      using hoare_Inr [OF m [unfolded yields_def], of "length (mem s)" s a s'] x that by (simp add: buffer_size_def)
    moreover have "\<not> is_ub e" if "x = Inl e" for e
      using hoare_Inl [OF m [unfolded yields_def], of "length (mem s)" s e s'] x that by (simp add: buffer_size_def)
    ultimately show "case m s of (Inl e, s') \<Rightarrow> \<not> is_ub e \<and> True | (Inr a, s') \<Rightarrow> R a"
      using x by (cases x) simp_all
  qed
  show "hoare (\<lambda>_. R a) (f a) (\<lambda>_ _. True) (\<lambda>e s. \<not> is_ub e \<and> True)" for a
    using f [of a] by (cases "R a") (simp_all add: safe_def hoare_def)
qed

lemma defined_finally_release: "defined m \<Longrightarrow> (\<And>n. safe (buffer_size n) c) \<Longrightarrow> defined (finallyM m c)"
  by (rule safe_finallyM [OF _ safe_any])

text \<open>The buffer has the size it was asked for.\<close>

lemma AnonymousBuffer_new_size:
  "hoare (\<lambda>_. True) (AnonymousBuffer_new env sz) (\<lambda>_. buffer_size (unat sz)) (\<lambda>e _. \<not> is_ub e)"
  by (auto simp: hoare_def AnonymousBuffer_new_def bindM_def external_def throwM_def emit_def modifyM_def
      buffer_size_def split: option.splits prod.splits)

lemma AnonymousBuffer_drop_defined: "defined AnonymousBuffer_drop"
  by (simp add: AnonymousBuffer_drop_def safe_def hoare_def bindM_def emit_def modifyM_def)

lemma finally_drop_defined:
  assumes "safe (buffer_size n) m" and "defined c"
  shows "hoare (buffer_size n) (finallyM m c) (\<lambda>_ _. True) (\<lambda>e _. \<not> is_ub e)"
  by (rule hoare_finallyM [OF assms(1) [unfolded safe_def]]) simp_all

lemma with_dma_defined:
  assumes "safe (buffer_size (unat sz)) body"
  shows "defined (with_dma env iova sz m d body)"
proof -
  have "hoare (\<lambda>_. True) (thenM (AnonymousBuffer_new env sz) (finallyM
      (thenM AnonymousBuffer_zero (thenM (DmaMapping_new env iova sz (VFIO_DMA_MAP_FLAG_READ OR VFIO_DMA_MAP_FLAG_WRITE))
      (finallyM (thenM reset_guard_new (finallyM body (reset_guard_drop env m d))) (DmaMapping_drop env iova sz))))
      AnonymousBuffer_drop)) (\<lambda>_ _. True) (\<lambda>e _. \<not> is_ub e)"
    by (rule hoare_bindM [OF AnonymousBuffer_new_size], rule finally_drop_defined [OF _ AnonymousBuffer_drop_defined])
      (simp add: assms safe_rules any_rules)
  then show ?thesis by (simp add: with_dma_def safe_def)
qed

lemma with_iova_check_defined: "defined body \<Longrightarrow> defined (with_iova_check env iova body)"
  by (simp add: with_iova_check_def safe_rules fault_rules)

lemma with_pci_defined: "(\<And>config cmd. defined (body config cmd)) \<Longrightarrow> defined (with_pci env body)"
  unfolding with_pci_def by (intro defined_bind defined_finally_release any_rules) (simp_all add: any_rules)

lemma with_selection_defined: "defined body \<Longrightarrow> defined (with_selection env m d sel body)"
  unfolding with_selection_def
  by (intro defined_bind defined_finally_release) (simp_all add: safe_rules any_rules)

lemma with_virtio_min_defined:
  "(\<And>m d dm dd notify region device_cfg. defined (body m d dm dd notify region device_cfg)) \<Longrightarrow>
     defined (with_virtio_min req env config cmd body)"
  unfolding with_virtio_min_def
  by (intro defined_bind safe_case_prod any_rules safe_liftR_fault_free fault_rules)

lemmas with_virtio_defined = with_virtio_min_defined [of _ 12, folded with_virtio_def]

lemma any_clean_up [any_rules]: "safe (buffer_size n) (clean_up env config cmd m d sel iova sz result)"
  by (simp add: clean_up_def safe_rules any_rules)

lemma read_mac_loop_length: "yields n (read_mac_loop env r base is) (\<lambda>mac. length mac = length is)"
proof (induction "is")
  case (Cons i "is")
  show ?case
    unfolding read_mac_loop.simps
    by (intro yields_bind_safe yields_bindM [OF Cons.IH] yields_returnM) (simp_all add: safe_rules)
qed (simp add: yields_returnM)

lemma read_virtio_net_config_mac:
  "yields n (read_virtio_net_config env r d len) (\<lambda>view. length (nc_mac view) = 6)"
proof -
  have "yields n (if len \<ge> 6 then read_mac_loop env r d [0..<6] else returnM (replicate 6 0)) (\<lambda>mac. length mac = 6)"
    using read_mac_loop_length [of n env r d "[0..<6]"] by (simp add: yields_returnM)
  then show ?thesis
    unfolding read_virtio_net_config_def
    by (rule yields_bindM, intro yields_bind_safe yields_returnM) (simp_all add: read_net_u16_def safe_rules)
qed

section \<open>The areas of the layouts\<close>

lemma packed_area:
  assumes "compute_vring_layout rxq al = Inr (dl_rx_vring l)" and "compute_vring_layout txq al = Inr (dl_tx_vring l)"
    and "unat (dl_rx_vring_offset l) + unat (vl_total_size (dl_rx_vring l)) \<le> unat (dl_total_size l)"
    and "unat (dl_tx_vring_offset l) + unat (vl_total_size (dl_tx_vring l)) \<le> unat (dl_total_size l)"
    and "unat (dl_rx_buffers_offset l) + unat rxb * unat rbs \<le> unat (dl_total_size l)"
  shows "dma_area l rxb rbs (unat (dl_total_size l))"
  using assms compute_vring_layout_fields(5) unat_u64_lt [of "dl_total_size l"]
  by (simp add: dma_area_def queue_at_def)

lemma dma_layout_area:
  assumes "compute_dma_layout ps rxq txq al rxb txb rbs tbs = Inr l"
  shows "dma_area l rxb rbs (unat (dl_total_size l))"
  using dma_layout_parts [OF assms] by (intro packed_area) simp_all

lemma dma_layout_packet_area:
  assumes "compute_dma_layout_packet ps rxq txq al rxb rbs tps = Inr l"
  shows "dma_area l rxb rbs (unat (dl_total_size l))"
  using dma_layout_packet_parts [OF assms] by (intro packed_area) (auto simp: dma_regions_def packed_Cons)

lemma dma_layout_rx_area:
  assumes "compute_dma_layout_rx ps rxq txq al rxb rbs = Inr l"
  shows "dma_area l rxb rbs (unat (dl_total_size l))"
  using dma_layout_rx_parts [OF assms] by (intro packed_area) (auto simp: dma_regions_def packed_Cons)

lemma vring_size_of_layout:
  "compute_vring_layout q al = Inr r \<Longrightarrow> vl_queue_size r = q"
  by (rule compute_vring_layout_fields(1))

section \<open>The echo program has no undefined behaviour\<close>

lemma run_loops_yields:
  assumes "env_ok env" and "echo_ctx_ok opt c n" and "echo_state_ok opt st"
    and "es_echoed_tx st \<le> eo_max_packets opt"
  shows "yields n (run_loops fuel env opt c st) (\<lambda>st'. es_echoed_tx st' \<le> eo_max_packets opt)"
  unfolding run_loops_def
proof (intro yields_bind_safe [OF safe_now], rule yields_bindM [OF echo_loop_yields [OF assms]],
    rule yields_bind_safe [OF safe_now])
  fix st1 t'
  assume st1: "echo_state_ok opt st1 \<and> es_echoed_tx st1 \<le> eo_max_packets opt"
  then have "echo_state_ok opt st1 \<and> es_echoed_tx st1 = es_echoed_tx st1" by simp
  from drain_loop_yields [OF assms(1,2) this, of 102 "t' + ms 1000"] st1
  show "yields n (drain_loop 102 env c (t' + ms 1000) st1) (\<lambda>st'. es_echoed_tx st' \<le> eo_max_packets opt)"
    unfolding yields_def by (elim hoare_post) simp
qed

lemma echo_datapath_defined:
  assumes env: "env_ok env" and mac: "length mac = 6"
    and l: "compute_dma_layout ps rxq txq al (eo_rx_buffers opt) (eo_tx_buffers opt) (eo_rx_buffer_size opt) tbs = Inr layout"
  shows "safe (buffer_size (unat (dl_total_size layout)))
    (echo_datapath fuel env opt config cmd m d sel notify region layout mac)"
proof -
  note parts = dma_layout_parts [OF l]
  note area = dma_layout_area [OF l]
  let ?n = "unat (dl_total_size layout)"
  have q: "queue_at (unat (dl_rx_vring_offset layout)) (dl_rx_vring layout) ?n"
    "queue_at (unat (dl_tx_vring_offset layout)) (dl_tx_vring layout) ?n"
    using area by (simp_all add: dma_area_def)
  have sizes: "vl_queue_size (dl_rx_vring layout) = rxq" "vl_queue_size (dl_tx_vring layout) = txq"
    using parts(1,2) by (simp_all add: vring_size_of_layout)
  have ok: "echo_ctx_ok opt c ?n" if "ec_layout c = layout" "ec_reply_src_mac c = mac" for c
    using that area parts sizes mac by (simp add: echo_ctx_ok_def word_le_nat_alt)
  note loops = yields_safe [OF run_loops_yields [OF env ok]]
  show ?thesis
    unfolding echo_datapath_def Let_def
    by (intro safe_bindM any_rules safe_publish_rx_buffers safe_read_used_idx safe_vload16 loops)
      (use q parts sizes env in \<open>simp_all add: queue_at_idx any_rules safe_rules notify_rx_def initial_pool_def\<close>)
qed

text \<open>From the open device to the last destructor, for any device, kernel and clock that keep to \<open>env_ok\<close>.\<close>

lemma run_echo_loop_defined:
  assumes "env_ok env" and "case_option True (\<lambda>mac. length mac = 6) (eo_src_mac opt)"
  shows "defined (run_echo_loop fuel env opt)"
proof -
  have mac: "length (case eo_src_mac opt of Some mac \<Rightarrow> mac | None \<Rightarrow> nc_mac view) = 6" if "length (nc_mac view) = 6" for view
    using assms(2) that by (simp split: option.splits)
  have "defined (echo_queue_scope fuel env opt config cmd m d sel notify region view)" if "length (nc_mac view) = 6"
    for config cmd m d sel notify region view
    unfolding echo_queue_scope_def Let_def
    by (intro with_selection_defined defined_bind [OF any_queues(2)] safe_bind_liftR with_dma_defined
        echo_datapath_defined [OF assms(1) mac [OF that]] fault_rules)
  then have "defined (echo_device_scope fuel env opt config cmd)" for config cmd
    unfolding echo_device_scope_def
    by (intro with_virtio_defined defined_bind defined_bind_value [OF read_virtio_net_config_mac])
      (simp_all add: safe_rules any_rules)
  then show ?thesis
    unfolding run_echo_loop_def by (intro with_iova_check_defined with_pci_defined)
qed

end
