(* ===== verification/Ctrl.thy ===== *)
theory Ctrl
  imports RxScan
begin

text \<open>
  The control queue of \<open>userspace_drivers/virtio_net_vfio.hpp\<close>: the three commands the exercises 27
  to 30 publish, the wait for the ACK (\<open>wait_for_control_ack\<close> of the exercises 28 to 30), and the
  names they print. The commands are proved against what the device reads when it follows the
  descriptors it was offered.
\<close>

section \<open>Constants\<close>

definition kVirtioNetCtrlRx :: u8 where "kVirtioNetCtrlRx = 0"
definition kVirtioNetCtrlRxPromisc :: u8 where "kVirtioNetCtrlRxPromisc = 0"
definition kVirtioNetCtrlMac :: u8 where "kVirtioNetCtrlMac = 1"
definition kVirtioNetCtrlMacTableSet :: u8 where "kVirtioNetCtrlMacTableSet = 0"
definition kVirtioNetCtrlMacAddrSet :: u8 where "kVirtioNetCtrlMacAddrSet = 1"
definition kVirtioNetOk :: u8 where "kVirtioNetOk = 0"
definition kVirtioNetErr :: u8 where "kVirtioNetErr = 1"
definition kVirtioNetCtrlAckInitial :: u8 where "kVirtioNetCtrlAckInitial = 0xff"

lemmas ctrl_constants = kVirtioNetCtrlRx_def kVirtioNetCtrlRxPromisc_def kVirtioNetCtrlMac_def
  kVirtioNetCtrlMacTableSet_def kVirtioNetCtrlMacAddrSet_def kVirtioNetOk_def kVirtioNetErr_def
  kVirtioNetCtrlAckInitial_def

definition virtio_net_ctrl_ack_name :: "u8 \<Rightarrow> string" where
  "virtio_net_ctrl_ack_name ack =
     (if ack = kVirtioNetOk then ''OK'' else if ack = kVirtioNetErr then ''ERR''
      else if ack = kVirtioNetCtrlAckInitial then ''not-written'' else ''unknown'')"

section \<open>Publishing a command\<close>

text \<open>
  The buffer starts at offset 0, so \<open>dma_base + offset\<close> is the offset. Each command writes the two
  header bytes, the data and the initial ACK byte, then its descriptors, then entry 0 and the index of
  the available ring.
\<close>

definition offer_chain :: "nat \<Rightarrow> VringLayout \<Rightarrow> ('w st, unit) M" where
  "offer_chain ctrl_queue_base ctrl_vring =
     thenM (store16 (vring_avail_ring ctrl_queue_base ctrl_vring) 0)
           (store16 (vring_avail_idx ctrl_queue_base ctrl_vring) 1)"

definition publish_rx_promisc_control_command ::
  "nat \<Rightarrow> CtrlqDmaLayout \<Rightarrow> u64 \<Rightarrow> bool \<Rightarrow> ('w st, unit) M" where
  "publish_rx_promisc_control_command ctrl_queue_base layout base_iova promisc =
     (let header = unat (cl_ctrl_hdr_offset layout);
          state = unat (cl_ctrl_data_offset layout);
          ack = unat (cl_ctrl_ack_offset layout);
          desc = vring_descs ctrl_queue_base (cl_ctrl_vring layout)
      in thenM (throw_ifM (cl_ctrl_data_size layout < kVirtioNetCtrlStateSize)
           (RuntimeError ''control command data area is too small for RX_PROMISC state''))
        (thenM (store header [kVirtioNetCtrlRx])
        (thenM (store (header + 1) [kVirtioNetCtrlRxPromisc])
        (thenM (store state [if promisc then 1 else 0])
        (thenM (store ack [kVirtioNetCtrlAckInitial])
        (thenM (store_desc desc 0 (base_iova + cl_ctrl_hdr_offset layout) (ucast kVirtioNetCtrlHdrSize) kVringDescFNext 1)
        (thenM (store_desc desc 1 (base_iova + cl_ctrl_data_offset layout) (ucast kVirtioNetCtrlStateSize) kVringDescFNext 2)
        (thenM (store_desc desc 2 (base_iova + cl_ctrl_ack_offset layout) (ucast kVirtioNetCtrlAckSize) kVringDescFWrite 0)
               (offer_chain ctrl_queue_base (cl_ctrl_vring layout))))))))))"

definition publish_mac_addr_control_command ::
  "nat \<Rightarrow> CtrlqDmaLayout \<Rightarrow> u64 \<Rightarrow> u8 list \<Rightarrow> ('w st, unit) M" where
  "publish_mac_addr_control_command ctrl_queue_base layout base_iova mac =
     (let header = unat (cl_ctrl_hdr_offset layout);
          data = unat (cl_ctrl_data_offset layout);
          ack = unat (cl_ctrl_ack_offset layout);
          desc = vring_descs ctrl_queue_base (cl_ctrl_vring layout)
      in thenM (throw_ifM (cl_ctrl_data_size layout < kVirtioNetCtrlMacAddrSize)
           (RuntimeError ''control command data area is too small for MAC_ADDR_SET''))
        (thenM (store header [kVirtioNetCtrlMac])
        (thenM (store (header + 1) [kVirtioNetCtrlMacAddrSet])
        (thenM (store data mac)
        (thenM (store ack [kVirtioNetCtrlAckInitial])
        (thenM (store_desc desc 0 (base_iova + cl_ctrl_hdr_offset layout) (ucast kVirtioNetCtrlHdrSize) kVringDescFNext 1)
        (thenM (store_desc desc 1 (base_iova + cl_ctrl_data_offset layout) (ucast kVirtioNetCtrlMacAddrSize) kVringDescFNext 2)
        (thenM (store_desc desc 2 (base_iova + cl_ctrl_ack_offset layout) (ucast kVirtioNetCtrlAckSize) kVringDescFWrite 0)
               (offer_chain ctrl_queue_base (cl_ctrl_vring layout))))))))))"

definition unicast_table_size :: u64 where
  "unicast_table_size = kVirtioNetCtrlMacTableCountSize + 1 * kVirtioNetCtrlMacAddrSize"

definition multicast_table_size :: u64 where
  "multicast_table_size = kVirtioNetCtrlMacTableCountSize + 0 * kVirtioNetCtrlMacAddrSize"

definition publish_mac_table_control_command ::
  "nat \<Rightarrow> CtrlqDmaLayout \<Rightarrow> u64 \<Rightarrow> u8 list \<Rightarrow> ('w st, unit) M" where
  "publish_mac_table_control_command ctrl_queue_base layout base_iova unicast_mac =
     (let header = unat (cl_ctrl_hdr_offset layout);
          unicast_table = unat (cl_ctrl_data_offset layout);
          multicast_table = unicast_table + unat unicast_table_size;
          ack = unat (cl_ctrl_ack_offset layout);
          desc = vring_descs ctrl_queue_base (cl_ctrl_vring layout)
      in thenM (throw_ifM (vl_queue_size (cl_ctrl_vring layout) < 4)
           (RuntimeError ''control queue-size must be at least 4 for MAC_TABLE_SET''))
        (thenM (throw_ifM (cl_ctrl_data_size layout < unicast_table_size + multicast_table_size)
           (RuntimeError ''control command data area is too small for MAC_TABLE_SET''))
        (thenM (store header [kVirtioNetCtrlMac])
        (thenM (store (header + 1) [kVirtioNetCtrlMacTableSet])
        (thenM (store unicast_table (write_le32_to_bytes 1))
        (thenM (store (unicast_table + unat kVirtioNetCtrlMacTableCountSize) unicast_mac)
        (thenM (store multicast_table (write_le32_to_bytes 0))
        (thenM (store ack [kVirtioNetCtrlAckInitial])
        (thenM (store_desc desc 0 (base_iova + cl_ctrl_hdr_offset layout) (ucast kVirtioNetCtrlHdrSize) kVringDescFNext 1)
        (thenM (store_desc desc 1 (base_iova + cl_ctrl_data_offset layout) (ucast unicast_table_size) kVringDescFNext 2)
        (thenM (store_desc desc 2 (base_iova + cl_ctrl_data_offset layout + unicast_table_size)
                  (ucast multicast_table_size) kVringDescFNext 3)
        (thenM (store_desc desc 3 (base_iova + cl_ctrl_ack_offset layout) (ucast kVirtioNetCtrlAckSize) kVringDescFWrite 0)
               (offer_chain ctrl_queue_base (cl_ctrl_vring layout))))))))))))))"

section \<open>Waiting for the ACK\<close>

text \<open>
  The bounded wait of all the programs for something in a used ring: the loop reads the clock, then
  the used index, and is done when the index is \<open>enough\<close>. One unit of fuel is one round.
\<close>

primrec wait_used_loop ::
  "nat \<Rightarrow> 'w env \<Rightarrow> nat \<Rightarrow> VringLayout \<Rightarrow> (u16 \<Rightarrow> bool) \<Rightarrow> nat \<Rightarrow> ('w st, unit) M" where
  "wait_used_loop 0 env b vring enough deadline =
     bindM (now env) (\<lambda>t. if t < deadline then throwM OutOfFuel else returnM ())"
| "wait_used_loop (Suc fuel) env b vring enough deadline =
     bindM (now env) (\<lambda>t.
     if t < deadline
     then bindM (read_used_idx env b vring) (\<lambda>current.
          if enough current then returnM ()
          else thenM (sleep_for env (ms 10)) (wait_used_loop fuel env b vring enough deadline))
     else returnM ())"

text \<open>The wait with the test of \<open>wait_ms\<close> around it.\<close>

definition wait_used :: "'w env \<Rightarrow> nat \<Rightarrow> VringLayout \<Rightarrow> (u16 \<Rightarrow> bool) \<Rightarrow> u32 \<Rightarrow> ('w st, unit) M" where
  "wait_used env b vring enough wait_ms =
     (if wait_ms > 0
      then bindM (now env) (\<lambda>t.
           wait_used_loop (unat wait_ms div 10 + 1) env b vring enough (t + ms (unat wait_ms)))
      else returnM ())"

text \<open>\<open>print_used_entries\<close>: the text it prints for an entry is its slot, id and length.\<close>

primrec used_entries :: "'w env \<Rightarrow> nat \<Rightarrow> VringLayout \<Rightarrow> u16 \<Rightarrow> nat list \<Rightarrow> ('w st, (u16 \<times> u32 \<times> u32) list) M" where
  "used_entries env b vring old_idx [] = returnM []"
| "used_entries env b vring old_idx (i # is) =
     (let slot = used_slot_of vring old_idx i
      in bindM (used_elem_id env b vring (unat slot)) (\<lambda>did.
         bindM (used_elem_len env b vring (unat slot)) (\<lambda>len.
         bindM (used_entries env b vring old_idx is) (\<lambda>es. returnM ((slot, did, len) # es)))))"

definition print_used_entries ::
  "'w env \<Rightarrow> nat \<Rightarrow> VringLayout \<Rightarrow> u16 \<Rightarrow> u16 \<Rightarrow> ('w st, (u16 \<times> u32 \<times> u32) list) M" where
  "print_used_entries env b vring old_idx new_idx =
     (let count = used_delta old_idx new_idx
      in if count = 0 then returnM []
         else used_entries env b vring old_idx [0..<unat (min count 8)])"

text \<open>
  \<open>wait_for_control_ack\<close>. The ACK byte is read after an acquire fence, so after another move of the
  device.
\<close>

definition wait_for_control_ack ::
  "'w env \<Rightarrow> nat \<Rightarrow> CtrlqDmaLayout \<Rightarrow> u16 \<Rightarrow> u32 \<Rightarrow> ('w st, u8) M" where
  "wait_for_control_ack env ctrl_queue_base layout base_idx wait_ms =
     bindM (now env) (\<lambda>t.
     thenM (wait_used_loop (unat wait_ms div 10 + 1) env ctrl_queue_base (cl_ctrl_vring layout)
              (\<lambda>current. used_delta base_idx current \<ge> 1) (t + ms (unat wait_ms)))
    (bindM (read_used_idx env ctrl_queue_base (cl_ctrl_vring layout)) (\<lambda>after.
     thenM (print_used_entries env ctrl_queue_base (cl_ctrl_vring layout) base_idx after)
    (bindM (vload env (unat (cl_ctrl_ack_offset layout)) 1) (\<lambda>bs. returnM (hd bs))))))"

section \<open>What the device finds\<close>

text \<open>
  The descriptors of a chain as the device follows them from descriptor \<open>i\<close>, and what it reads: the
  bytes at the readable ones, in the order of the chain, in an area mapped at \<open>base_iova\<close>.
\<close>

primrec chain :: "nat \<Rightarrow> nat \<Rightarrow> VringLayout \<Rightarrow> u8 list \<Rightarrow> nat \<Rightarrow> VringDesc list" where
  "chain 0 b l m i = []"
| "chain (Suc k) b l m i =
     (let d = desc_at b l m i
      in d # (if vd_flags d AND kVringDescFNext \<noteq> 0 then chain k b l m (unat (vd_next d)) else []))"

definition writable :: "VringDesc \<Rightarrow> bool" where
  "writable d \<longleftrightarrow> vd_flags d AND kVringDescFWrite \<noteq> 0"

definition chain_bytes :: "u64 \<Rightarrow> u8 list \<Rightarrow> VringDesc list \<Rightarrow> u8 list" where
  "chain_bytes base_iova m ds =
     concat (map (\<lambda>d. segment (unat (vd_addr d - base_iova)) (unat (vd_len d)) m) (filter (\<lambda>d. \<not> writable d) ds))"

text \<open>
  A command is delivered: the device is offered one chain, which is \<open>cmd\<close> in readable descriptors
  followed by one writable byte, the ACK byte, that still has its initial value.
\<close>

definition delivered :: "CtrlqDmaLayout \<Rightarrow> u64 \<Rightarrow> u8 list \<Rightarrow> u8 list \<Rightarrow> bool" where
  "delivered l base_iova m cmd \<longleftrightarrow>
     (let b = unat (cl_ctrl_vring_offset l); vr = cl_ctrl_vring l;
          ds = chain (unat (vl_queue_size vr)) b vr m (unat (avail_at b vr m 0))
      in avail_idx_of b vr m = 1 \<and> chain_bytes base_iova m ds = cmd \<and>
         filter writable ds = [last ds] \<and> vd_addr (last ds) = base_iova + cl_ctrl_ack_offset l \<and>
         vd_len (last ds) = 1 \<and> segment (unat (cl_ctrl_ack_offset l)) 1 m = [kVirtioNetCtrlAckInitial])"

text \<open>Where the parts of the command area are, in numbers, in a buffer of \<open>n\<close> bytes.\<close>

definition ctrl_area :: "CtrlqDmaLayout \<Rightarrow> nat \<Rightarrow> bool" where
  "ctrl_area l n \<longleftrightarrow>
     queue_at (unat (cl_ctrl_vring_offset l)) (cl_ctrl_vring l) n \<and>
     3 \<le> unat (vl_queue_size (cl_ctrl_vring l)) \<and>
     unat (cl_ctrl_vring_offset l) + unat (vl_total_size (cl_ctrl_vring l)) \<le> unat (cl_ctrl_hdr_offset l) \<and>
     unat (cl_ctrl_data_offset l) = unat (cl_ctrl_hdr_offset l) + 2 \<and>
     unat (cl_ctrl_ack_offset l) = unat (cl_ctrl_data_offset l) + unat (cl_ctrl_data_size l) \<and>
     0 < unat (cl_ctrl_data_size l) \<and> unat (cl_ctrl_ack_offset l) + 1 \<le> n"

lemma ctrlq_layout_area:
  assumes "compute_ctrlq_dma_layout ps rxq txq cq al rxb rbs ds = Inr l" and "unat ds + 3 \<le> page_bytes ps"
  shows "ctrl_area l (unat (cl_total_size l))"
proof -
  note p = ctrlq_layout_parts [OF assms]
  note v = compute_vring_layout_fields [OF p(3)]
  have "packed (ctrlq_regions l) (unat (cl_total_size l))" by (rule p(4))
  then show ?thesis
    using p v by (auto simp: ctrl_area_def queue_at_def ctrlq_regions_def packed_Cons word_le_nat_alt unat_gt_0)
qed

section \<open>Writing a chain\<close>

primrec descs_mem :: "nat \<Rightarrow> VringDesc list \<Rightarrow> u8 list \<Rightarrow> u8 list" where
  "descs_mem p [] m = m"
| "descs_mem p (d # ds) m = descs_mem (p + 16) ds (desc_mem p (vd_addr d) (vd_len d) (vd_flags d) (vd_next d) m)"

lemma length_descs_mem [simp]:
  "p + 16 * length ds \<le> length m \<Longrightarrow> length (descs_mem p ds m) = length m"
  by (induction ds arbitrary: p m) (simp_all add: algebra_simps)

lemma descs_mem_other:
  "p + 16 * length ds \<le> length m \<Longrightarrow> q + n \<le> length m \<Longrightarrow> q + n \<le> p \<or> p + 16 * length ds \<le> q \<Longrightarrow>
     segment q n (descs_mem p ds m) = segment q n m"
  by (induction ds arbitrary: p m) (auto simp: algebra_simps desc_mem_other)

lemma desc_at_segment:
  assumes "segment (vring_descs b l + 16 * i) 16 m = segment (vring_descs b l + 16 * i) 16 m'"
  shows "desc_at b l m i = desc_at b l m' i"
proof -
  let ?p = "vring_descs b l + 16 * i"
  have part: "segment (p + k) n m = segment k n (segment p 16 m)" if "k + n \<le> 16" for p k n and m :: "u8 list"
    using that by (simp add: segment_def drop_take min_def add.commute)
  have "segment (?p + k) n m = segment (?p + k) n m'" if "k + n \<le> 16" for k n
    using part [OF that, of ?p m] part [OF that, of ?p m'] assms by simp
  from this [of 0 8] this [of 8 4] this [of 12 2] this [of 14 2] show ?thesis
    by (simp add: desc_at_def Let_def rd16_def rd32_def rd64_def)
qed

lemma descs_mem_at:
  assumes "vring_descs b l + 16 * (k + length ds) \<le> length m" and "i < length ds"
  shows "desc_at b l (descs_mem (vring_descs b l + 16 * k) ds m) (k + i) = ds ! i"
  using assms
proof (induction ds arbitrary: k m i)
  case (Cons d ds)
  let ?p = "vring_descs b l + 16 * k"
  let ?m = "desc_mem ?p (vd_addr d) (vd_len d) (vd_flags d) (vd_next d) m"
  have len: "length ?m = length m" using Cons.prems(1) by simp
  show ?case
  proof (cases i)
    case 0
    have "segment ?p 16 (descs_mem (?p + 16) ds ?m) = segment ?p 16 ?m"
      using Cons.prems(1) len by (intro descs_mem_other) auto
    then have "desc_at b l (descs_mem (?p + 16) ds ?m) k = desc_at b l ?m k"
      by (rule desc_at_segment)
    also have "\<dots> = d" using Cons.prems(1) by (simp add: desc_mem_at)
    finally show ?thesis using 0 by simp
  next
    case (Suc j)
    have eq: "?p + 16 = vring_descs b l + 16 * Suc k" by simp
    have "desc_at b l (descs_mem (vring_descs b l + 16 * Suc k) ds ?m) (Suc k + j) = ds ! j"
      using Cons.IH [of "Suc k" ?m j] Cons.prems Suc len by simp
    then show ?thesis unfolding descs_mem.simps eq Suc by (simp only: add_Suc add_Suc_right nth_Cons_Suc)
  qed
qed simp

definition offered :: "nat \<Rightarrow> VringLayout \<Rightarrow> VringDesc list \<Rightarrow> u8 list \<Rightarrow> u8 list" where
  "offered b l ds m =
     overwrite (vring_avail_idx b l) (le_bytes 2 (1 :: u16))
      (overwrite (vring_avail_ring b l) (le_bytes 2 (0 :: u16)) (descs_mem (vring_descs b l) ds m))"

lemma offered_views:
  assumes at: "queue_at b l (length m)" and ds: "length ds \<le> unat (vl_queue_size l)" "ds \<noteq> []"
  shows "length (offered b l ds m) = length m"
    and "i < length ds \<Longrightarrow> desc_at b l (offered b l ds m) i = ds ! i"
    and "avail_idx_of b l (offered b l ds m) = 1" and "avail_at b l (offered b l ds m) 0 = 0"
    and "b + unat (vl_total_size l) \<le> q \<Longrightarrow> q + n \<le> length m \<Longrightarrow>
      segment q n (offered b l ds m) = segment q n m"
proof -
  from ds have k: "length ds - 1 < unat (vl_queue_size l)" and k0: "0 < unat (vl_queue_size l)"
    by (cases ds; simp)+
  note t = table_apart [OF at k] queue_at_bounds [OF at k]
  note z = table_apart [OF at k0] ring_apart [OF at k0] queue_at_bounds [OF at k0] queue_at_idx [OF at]
  have n: "vring_descs b l + 16 * length ds \<le> vring_avail_idx b l"
    using t(1) ds(2) by (cases ds) simp_all
  let ?d = "descs_mem (vring_descs b l) ds m"
  have len: "length ?d = length m" using n z by simp
  show "length (offered b l ds m) = length m"
    using z len by (simp add: offered_def)
  show "avail_idx_of b l (offered b l ds m) = 1" "avail_at b l (offered b l ds m) 0 = 0"
    using z len by (simp_all add: offered_def avail_idx_of_def avail_at_def rd_other)
  show "desc_at b l (offered b l ds m) i = ds ! i" if i: "i < length ds"
  proof -
    have "16 * i + 16 \<le> 16 * length ds" using i by simp
    with n have "vring_descs b l + 16 * i + 16 \<le> vring_avail_idx b l" by linarith
    then have "segment (vring_descs b l + 16 * i) 16 (offered b l ds m) = segment (vring_descs b l + 16 * i) 16 ?d"
      unfolding offered_def using z len
      by (subst segment_overwrite_other; simp) (subst segment_overwrite_other; simp)
    then have "desc_at b l (offered b l ds m) i = desc_at b l ?d i" by (rule desc_at_segment)
    also have "\<dots> = ds ! i"
      using descs_mem_at [of b l 0 ds m i] i n z by simp
    finally show ?thesis .
  qed
  show "segment q n (offered b l ds m) = segment q n m"
    if "b + unat (vl_total_size l) \<le> q" "q + n \<le> length m"
  proof -
    have "vring_avail_ring b l + 2 \<le> b + unat (vl_total_size l)" "vring_avail_idx b l + 2 \<le> b + unat (vl_total_size l)"
      using at k0 by (auto simp: queue_at_def vring_wf_def vring_pointers)
    then show ?thesis
      unfolding offered_def using that z len n
      by (subst segment_overwrite_other; simp) (subst segment_overwrite_other; simp add: descs_mem_other)
  qed
qed

lemma store_descs3:
  assumes "vring_descs b l + 48 \<le> length (mem s)" and "vring_avail_ring b l + 2 \<le> length (mem s)"
    and "vring_avail_idx b l + 2 \<le> length (mem s)"
  shows "thenM (store_desc (vring_descs b l) 0 a0 l0 f0 n0)
     (thenM (store_desc (vring_descs b l) (Suc 0) a1 l1 f1 n1)
     (thenM (store_desc (vring_descs b l) 2 a2 l2 f2 n2) (offer_chain b l))) s =
     (Inr (), s\<lparr>mem := offered b l [\<lparr>vd_addr = a0, vd_len = l0, vd_flags = f0, vd_next = n0\<rparr>,
        \<lparr>vd_addr = a1, vd_len = l1, vd_flags = f1, vd_next = n1\<rparr>,
        \<lparr>vd_addr = a2, vd_len = l2, vd_flags = f2, vd_next = n2\<rparr>] (mem s)\<rparr>)"
  using assms by (simp add: bindM_def store_desc_eq offer_chain_def store_eqs offered_def add.commute)

lemma store_descs4:
  assumes "vring_descs b l + 64 \<le> length (mem s)" and "vring_avail_ring b l + 2 \<le> length (mem s)"
    and "vring_avail_idx b l + 2 \<le> length (mem s)"
  shows "thenM (store_desc (vring_descs b l) 0 a0 l0 f0 n0)
     (thenM (store_desc (vring_descs b l) (Suc 0) a1 l1 f1 n1)
     (thenM (store_desc (vring_descs b l) 2 a2 l2 f2 n2)
     (thenM (store_desc (vring_descs b l) 3 a3 l3 f3 n3) (offer_chain b l)))) s =
     (Inr (), s\<lparr>mem := offered b l [\<lparr>vd_addr = a0, vd_len = l0, vd_flags = f0, vd_next = n0\<rparr>,
        \<lparr>vd_addr = a1, vd_len = l1, vd_flags = f1, vd_next = n1\<rparr>,
        \<lparr>vd_addr = a2, vd_len = l2, vd_flags = f2, vd_next = n2\<rparr>,
        \<lparr>vd_addr = a3, vd_len = l3, vd_flags = f3, vd_next = n3\<rparr>] (mem s)\<rparr>)"
  using assms by (simp add: bindM_def store_desc_eq offer_chain_def store_eqs offered_def add.commute)

lemma desc_flags:
  "kVringDescFNext \<noteq> 0" "kVringDescFNext AND kVringDescFWrite = 0"
  "kVringDescFWrite AND kVringDescFNext = 0" "kVringDescFWrite \<noteq> 0"
  by (simp_all add: kVringDescFNext_def kVringDescFWrite_def)

text \<open>A chain of three or four offered descriptors, as the device follows it.\<close>

lemma chain_offered3:
  assumes at: "queue_at b l (length m)" and q: "3 \<le> unat (vl_queue_size l)"
  shows "chain (unat (vl_queue_size l)) b l (offered b l
     [\<lparr>vd_addr = a0, vd_len = l0, vd_flags = kVringDescFNext, vd_next = 1\<rparr>,
      \<lparr>vd_addr = a1, vd_len = l1, vd_flags = kVringDescFNext, vd_next = 2\<rparr>,
      \<lparr>vd_addr = a2, vd_len = l2, vd_flags = kVringDescFWrite, vd_next = 0\<rparr>] m) 0 =
     [\<lparr>vd_addr = a0, vd_len = l0, vd_flags = kVringDescFNext, vd_next = 1\<rparr>,
      \<lparr>vd_addr = a1, vd_len = l1, vd_flags = kVringDescFNext, vd_next = 2\<rparr>,
      \<lparr>vd_addr = a2, vd_len = l2, vd_flags = kVringDescFWrite, vd_next = 0\<rparr>]" (is "chain _ _ _ (offered b l ?ds m) 0 = _")
proof -
  from q obtain k where k: "unat (vl_queue_size l) = Suc (Suc (Suc k))"
    by (auto simp: nat_le_iff_add eval_nat_numeral)
  have "desc_at b l (offered b l ?ds m) i = ?ds ! i" if "i < 3" for i
    using offered_views(2) [OF at, of ?ds i] q that by simp
  from this [of 0] this [of 1] this [of 2] show ?thesis
    unfolding k by (simp add: Let_def desc_flags)
qed

lemma chain_offered4:
  assumes at: "queue_at b l (length m)" and q: "4 \<le> unat (vl_queue_size l)"
  shows "chain (unat (vl_queue_size l)) b l (offered b l
     [\<lparr>vd_addr = a0, vd_len = l0, vd_flags = kVringDescFNext, vd_next = 1\<rparr>,
      \<lparr>vd_addr = a1, vd_len = l1, vd_flags = kVringDescFNext, vd_next = 2\<rparr>,
      \<lparr>vd_addr = a2, vd_len = l2, vd_flags = kVringDescFNext, vd_next = 3\<rparr>,
      \<lparr>vd_addr = a3, vd_len = l3, vd_flags = kVringDescFWrite, vd_next = 0\<rparr>] m) 0 =
     [\<lparr>vd_addr = a0, vd_len = l0, vd_flags = kVringDescFNext, vd_next = 1\<rparr>,
      \<lparr>vd_addr = a1, vd_len = l1, vd_flags = kVringDescFNext, vd_next = 2\<rparr>,
      \<lparr>vd_addr = a2, vd_len = l2, vd_flags = kVringDescFNext, vd_next = 3\<rparr>,
      \<lparr>vd_addr = a3, vd_len = l3, vd_flags = kVringDescFWrite, vd_next = 0\<rparr>]" (is "chain _ _ _ (offered b l ?ds m) 0 = _")
proof -
  from q obtain k where k: "unat (vl_queue_size l) = Suc (Suc (Suc (Suc k)))"
    by (auto simp: nat_le_iff_add eval_nat_numeral)
  have "desc_at b l (offered b l ?ds m) i = ?ds ! i" if "i < 4" for i
    using offered_views(2) [OF at, of ?ds i] q that by simp
  from this [of 0] this [of 1] this [of 2] this [of 3] show ?thesis
    unfolding k by (simp add: Let_def desc_flags)
qed

lemma ctrl_pointers:
  assumes "ctrl_area l n"
  defines "b \<equiv> unat (cl_ctrl_vring_offset l)" and "vr \<equiv> cl_ctrl_vring l"
  shows "vring_descs b vr + 48 \<le> n" and "vring_avail_ring b vr + 2 \<le> n" and "vring_avail_idx b vr + 2 \<le> n"
    and "4 \<le> unat (vl_queue_size vr) \<Longrightarrow> vring_descs b vr + 64 \<le> n"
proof -
  from assms(1) have at: "queue_at b vr n" and q: "3 \<le> unat (vl_queue_size vr)"
    by (simp_all add: ctrl_area_def b_def vr_def)
  then show "vring_descs b vr + 48 \<le> n" "vring_avail_ring b vr + 2 \<le> n" "vring_avail_idx b vr + 2 \<le> n"
    using queue_at_bounds [OF at, of 2] queue_at_bounds [OF at, of 0] queue_at_idx [OF at] by simp_all
  show "vring_descs b vr + 64 \<le> n" if "4 \<le> unat (vl_queue_size vr)"
    using queue_at_bounds [OF at, of 3] that by simp
qed

lemma addr_back: "base + off - base = (off :: u64)" "base + off + k - base = off + k"
  by simp_all

text \<open>The command area after a command of any number of descriptors is offered.\<close>

lemma offered_area:
  assumes area: "ctrl_area l (length m)" and cmd: "length cmd \<le> 2 + unat (cl_ctrl_data_size l)"
    and ds: "length ds \<le> unat (vl_queue_size (cl_ctrl_vring l))" "ds \<noteq> []"
    and m': "m' = offered (unat (cl_ctrl_vring_offset l)) (cl_ctrl_vring l) ds
      (overwrite (unat (cl_ctrl_ack_offset l)) [kVirtioNetCtrlAckInitial]
        (overwrite (unat (cl_ctrl_hdr_offset l)) cmd m))"
  shows "length m' = length m" and "avail_idx_of (unat (cl_ctrl_vring_offset l)) (cl_ctrl_vring l) m' = 1"
    and "avail_at (unat (cl_ctrl_vring_offset l)) (cl_ctrl_vring l) m' 0 = 0"
    and "segment (unat (cl_ctrl_hdr_offset l)) (length cmd) m' = cmd"
    and "segment (unat (cl_ctrl_ack_offset l)) 1 m' = [kVirtioNetCtrlAckInitial]"
proof -
  let ?b = "unat (cl_ctrl_vring_offset l)" and ?vr = "cl_ctrl_vring l"
  let ?h = "unat (cl_ctrl_hdr_offset l)" and ?a = "unat (cl_ctrl_ack_offset l)"
  let ?m = "overwrite ?a [kVirtioNetCtrlAckInitial] (overwrite ?h cmd m)"
  from area have at: "queue_at ?b ?vr (length m)"
    and off: "?b + unat (vl_total_size ?vr) \<le> ?h" "?a = ?h + 2 + unat (cl_ctrl_data_size l)" "?a + 1 \<le> length m"
    by (simp_all add: ctrl_area_def)
  have fit: "?h + length cmd \<le> length m" "?h + length cmd \<le> ?a" "?a + length [kVirtioNetCtrlAckInitial] \<le> length m"
    using off cmd by simp_all
  then have lenm: "length ?m = length m" by simp
  with at have at': "queue_at ?b ?vr (length ?m)" by simp
  note views = offered_views [OF at' ds, folded m']
  show "length m' = length m" using views(1) lenm by simp
  show "avail_idx_of ?b ?vr m' = 1" "avail_at ?b ?vr m' 0 = 0" by (rule views(3,4))+
  have keep: "segment p n m' = segment p n ?m" if "?h \<le> p" "p + n \<le> length m" for p n
    using views(5) [of p n] that off lenm by simp
  show "segment ?h (length cmd) m' = cmd"
    using fit keep [of ?h "length cmd"] segment_overwrite_same [OF fit(1)] by (simp add: segment_overwrite_other)
  show "segment ?a 1 m' = [kVirtioNetCtrlAckInitial]"
    using fit off keep [of ?a 1] segment_overwrite_same [of ?a "[kVirtioNetCtrlAckInitial]" "overwrite ?h cmd m"] by simp
qed

text \<open>The three-descriptor commands: header, \<open>data\<close>, ACK.\<close>

lemma three_part_command:
  assumes area: "ctrl_area l (length m)" and data: "length data \<le> unat (cl_ctrl_data_size l)"
    and len: "unat dlen = length data" and hdr: "length hdr = 2"
    and m': "m' = offered (unat (cl_ctrl_vring_offset l)) (cl_ctrl_vring l)
      [\<lparr>vd_addr = iova + cl_ctrl_hdr_offset l, vd_len = ucast kVirtioNetCtrlHdrSize, vd_flags = kVringDescFNext, vd_next = 1\<rparr>,
       \<lparr>vd_addr = iova + cl_ctrl_data_offset l, vd_len = dlen, vd_flags = kVringDescFNext, vd_next = 2\<rparr>,
       \<lparr>vd_addr = iova + cl_ctrl_ack_offset l, vd_len = ucast kVirtioNetCtrlAckSize, vd_flags = kVringDescFWrite, vd_next = 0\<rparr>]
      (overwrite (unat (cl_ctrl_ack_offset l)) [kVirtioNetCtrlAckInitial]
        (overwrite (unat (cl_ctrl_hdr_offset l)) (hdr @ data) m))"
  shows "length m' = length m \<and> delivered l iova m' (hdr @ data)"
proof -
  let ?h = "unat (cl_ctrl_hdr_offset l)" and ?d = "unat (cl_ctrl_data_offset l)"
  from area have q: "3 \<le> unat (vl_queue_size (cl_ctrl_vring l))" and d: "?d = ?h + 2"
    and at: "queue_at (unat (cl_ctrl_vring_offset l)) (cl_ctrl_vring l) (length m)"
    and fit: "?h + length (hdr @ data) \<le> length m" "unat (cl_ctrl_ack_offset l) < length m"
    using data hdr by (simp_all add: ctrl_area_def)
  have sz: "length (hdr @ data) \<le> 2 + unat (cl_ctrl_data_size l)" using data hdr by simp
  have q3: "Suc (Suc (Suc 0)) \<le> unat (vl_queue_size (cl_ctrl_vring l))" using q by (simp add: eval_nat_numeral)
  note o = offered_area [OF area sz _ _ m', simplified, OF q3]
  have "segment ?h 2 m' @ segment ?d (length data) m' = hdr @ data"
    using o(4) segment_split [of ?h 2 "length data" m'] d hdr by simp
  then have seg: "segment ?h 2 m' = hdr" "segment ?d (length data) m' = data"
    using o(1) fit hdr by (simp_all add: append_eq_append_conv)
  have ch: "chain (unat (vl_queue_size (cl_ctrl_vring l))) (unat (cl_ctrl_vring_offset l)) (cl_ctrl_vring l) m' 0 =
      [\<lparr>vd_addr = iova + cl_ctrl_hdr_offset l, vd_len = ucast kVirtioNetCtrlHdrSize, vd_flags = kVringDescFNext, vd_next = 1\<rparr>,
       \<lparr>vd_addr = iova + cl_ctrl_data_offset l, vd_len = dlen, vd_flags = kVringDescFNext, vd_next = 2\<rparr>,
       \<lparr>vd_addr = iova + cl_ctrl_ack_offset l, vd_len = ucast kVirtioNetCtrlAckSize, vd_flags = kVringDescFWrite, vd_next = 0\<rparr>]"
    unfolding m' by (rule chain_offered3) (use at q fit in simp_all)
  show ?thesis
    using seg o(1,2,3,5) len
    by (simp add: delivered_def Let_def ch writable_def desc_flags chain_bytes_def kVirtioNetCtrlHdrSize_def
        kVirtioNetCtrlAckSize_def)
qed

text \<open>The four-descriptor command: header, two pieces of data, ACK.\<close>

lemma four_part_command:
  assumes area: "ctrl_area l (length m)" and data: "length (xs @ ys) \<le> unat (cl_ctrl_data_size l)"
    and len: "unat xlen = length xs" "unat ylen = length ys" and hdr: "length hdr = 2"
    and k: "unat k = length xs" and q: "4 \<le> unat (vl_queue_size (cl_ctrl_vring l))"
    and m': "m' = offered (unat (cl_ctrl_vring_offset l)) (cl_ctrl_vring l)
      [\<lparr>vd_addr = iova + cl_ctrl_hdr_offset l, vd_len = ucast kVirtioNetCtrlHdrSize, vd_flags = kVringDescFNext, vd_next = 1\<rparr>,
       \<lparr>vd_addr = iova + cl_ctrl_data_offset l, vd_len = xlen, vd_flags = kVringDescFNext, vd_next = 2\<rparr>,
       \<lparr>vd_addr = iova + cl_ctrl_data_offset l + k, vd_len = ylen, vd_flags = kVringDescFNext, vd_next = 3\<rparr>,
       \<lparr>vd_addr = iova + cl_ctrl_ack_offset l, vd_len = ucast kVirtioNetCtrlAckSize, vd_flags = kVringDescFWrite, vd_next = 0\<rparr>]
      (overwrite (unat (cl_ctrl_ack_offset l)) [kVirtioNetCtrlAckInitial]
        (overwrite (unat (cl_ctrl_hdr_offset l)) (hdr @ xs @ ys) m))"
  shows "length m' = length m \<and> delivered l iova m' (hdr @ xs @ ys)"
proof -
  let ?h = "unat (cl_ctrl_hdr_offset l)" and ?d = "unat (cl_ctrl_data_offset l)"
  from area have d: "?d = ?h + 2" and a: "unat (cl_ctrl_ack_offset l) = ?d + unat (cl_ctrl_data_size l)"
    and at: "queue_at (unat (cl_ctrl_vring_offset l)) (cl_ctrl_vring l) (length m)"
    and fit: "?h + length (hdr @ xs @ ys) \<le> length m" "unat (cl_ctrl_ack_offset l) < length m"
    using data hdr by (simp_all add: ctrl_area_def)
  have sz: "length (hdr @ xs @ ys) \<le> 2 + unat (cl_ctrl_data_size l)" using data hdr by simp
  have q4: "Suc (Suc (Suc (Suc 0))) \<le> unat (vl_queue_size (cl_ctrl_vring l))" using q by (simp add: eval_nat_numeral)
  note o = offered_area [OF area sz _ _ m', simplified, OF q4]
  have "?d + length xs < 18446744073709551616"
    using data a unat_u64_lt [of "cl_ctrl_ack_offset l"] by simp
  then have kd: "unat (cl_ctrl_data_offset l + k) = ?d + length xs"
    using k by (simp add: unat_word_ariths)
  have "segment ?h 2 m' @ segment ?d (length xs) m' @ segment (?d + length xs) (length ys) m' = hdr @ xs @ ys"
    using o(4) segment_split [of ?h 2 "length xs + length ys" m'] segment_split [of ?d "length xs" "length ys" m'] d hdr
    by simp
  then have seg: "segment ?h 2 m' = hdr" "segment ?d (length xs) m' = xs"
      "segment (?d + length xs) (length ys) m' = ys"
    using o(1) fit d hdr by (simp_all add: append_eq_append_conv)
  have ch: "chain (unat (vl_queue_size (cl_ctrl_vring l))) (unat (cl_ctrl_vring_offset l)) (cl_ctrl_vring l) m' 0 =
      [\<lparr>vd_addr = iova + cl_ctrl_hdr_offset l, vd_len = ucast kVirtioNetCtrlHdrSize, vd_flags = kVringDescFNext, vd_next = 1\<rparr>,
       \<lparr>vd_addr = iova + cl_ctrl_data_offset l, vd_len = xlen, vd_flags = kVringDescFNext, vd_next = 2\<rparr>,
       \<lparr>vd_addr = iova + cl_ctrl_data_offset l + k, vd_len = ylen, vd_flags = kVringDescFNext, vd_next = 3\<rparr>,
       \<lparr>vd_addr = iova + cl_ctrl_ack_offset l, vd_len = ucast kVirtioNetCtrlAckSize, vd_flags = kVringDescFWrite, vd_next = 0\<rparr>]"
    unfolding m' by (rule chain_offered4) (use at q fit a in simp_all)
  have addr: "iova + cl_ctrl_data_offset l + k - iova = cl_ctrl_data_offset l + k" by simp
  show ?thesis
    using seg o(1,2,3,5) len kd
    by (simp add: delivered_def Let_def ch addr writable_def desc_flags chain_bytes_def kVirtioNetCtrlHdrSize_def
        kVirtioNetCtrlAckSize_def)
qed

section \<open>The commands are delivered\<close>

lemma unat_one_state: "unat (ucast kVirtioNetCtrlStateSize :: u32) = 1"
  "unat (ucast kVirtioNetCtrlMacAddrSize :: u32) = 6"
  "unat unicast_table_size = 10" "unat multicast_table_size = 4"
  "unat (ucast unicast_table_size :: u32) = 10" "unat (ucast multicast_table_size :: u32) = 4"
  "unat kVirtioNetCtrlMacTableCountSize = 4"
  by (simp_all add: kVirtioNetCtrlStateSize_def kVirtioNetCtrlMacAddrSize_def unicast_table_size_def
      multicast_table_size_def kVirtioNetCtrlMacTableCountSize_def)

lemma store_then:
  "p + length bs \<le> length (mem s) \<Longrightarrow> thenM (store p bs) k s = k (s\<lparr>mem := overwrite p bs (mem s)\<rparr>)"
  by (simp add: bindM_def store_eq)

text \<open>The stores into the command area are one store of the command and one of the ACK byte.\<close>

lemma command_stores:
  assumes "ctrl_area l (length (mem s))" and "length data \<le> unat (cl_ctrl_data_size l)"
  shows "thenM (store (unat (cl_ctrl_hdr_offset l)) [c])
      (thenM (store (unat (cl_ctrl_hdr_offset l) + 1) [k])
      (thenM (store (unat (cl_ctrl_data_offset l)) data)
      (thenM (store (unat (cl_ctrl_ack_offset l)) [x]) m))) s =
    m (s\<lparr>mem := overwrite (unat (cl_ctrl_ack_offset l)) [x]
         (overwrite (unat (cl_ctrl_hdr_offset l)) ([c, k] @ data) (mem s))\<rparr>)"
proof -
  let ?h = "unat (cl_ctrl_hdr_offset l)"
  from assms have "?h + 2 + length data \<le> length (mem s)" "unat (cl_ctrl_data_offset l) = ?h + 2"
    "unat (cl_ctrl_ack_offset l) < length (mem s)"
    by (auto simp: ctrl_area_def)
  then show ?thesis
    using overwrite_adjacent [of ?h "[c]" "?h + 1" "[k]" "mem s"]
      overwrite_adjacent [of ?h "[c, k]" "?h + 2" data "mem s"] by (simp add: store_then)
qed

lemma table_stores:
  assumes "ctrl_area l (length (mem s))" and "length (xs @ ys @ zs) \<le> unat (cl_ctrl_data_size l)"
    and "i = length xs" and "j = i + length ys"
  shows "thenM (store (unat (cl_ctrl_data_offset l)) xs)
      (thenM (store (unat (cl_ctrl_data_offset l) + i) ys)
      (thenM (store (unat (cl_ctrl_data_offset l) + j) zs) m)) s =
    thenM (store (unat (cl_ctrl_data_offset l)) (xs @ ys @ zs)) m s"
proof -
  let ?d = "unat (cl_ctrl_data_offset l)"
  from assms have "?d + length xs + length ys + length zs \<le> length (mem s)"
    by (auto simp: ctrl_area_def)
  then show ?thesis
    using assms(3,4) overwrite_adjacent [of ?d xs "?d + length xs" ys "mem s"]
      overwrite_adjacent [of ?d "xs @ ys" "?d + length xs + length ys" zs "mem s"] by (simp add: store_then add.assoc)
qed

text \<open>A command as data: the stores and the chain.\<close>

lemma command3_run:
  assumes area: "ctrl_area l (length (mem s))" and data: "length data \<le> unat (cl_ctrl_data_size l)"
    and len: "unat dlen = length data"
  shows "\<exists>m'. thenM (store (unat (cl_ctrl_hdr_offset l)) [c])
      (thenM (store (unat (cl_ctrl_hdr_offset l) + 1) [k])
      (thenM (store (unat (cl_ctrl_data_offset l)) data)
      (thenM (store (unat (cl_ctrl_ack_offset l)) [kVirtioNetCtrlAckInitial])
      (thenM (store_desc (vring_descs (unat (cl_ctrl_vring_offset l)) (cl_ctrl_vring l)) 0 (iova + cl_ctrl_hdr_offset l) (ucast kVirtioNetCtrlHdrSize) kVringDescFNext 1)
      (thenM (store_desc (vring_descs (unat (cl_ctrl_vring_offset l)) (cl_ctrl_vring l)) (Suc 0) (iova + cl_ctrl_data_offset l) dlen kVringDescFNext 2)
      (thenM (store_desc (vring_descs (unat (cl_ctrl_vring_offset l)) (cl_ctrl_vring l)) 2 (iova + cl_ctrl_ack_offset l) (ucast kVirtioNetCtrlAckSize) kVringDescFWrite 0)
         (offer_chain (unat (cl_ctrl_vring_offset l)) (cl_ctrl_vring l)))))))) s = (Inr (), s\<lparr>mem := m'\<rparr>) \<and>
      length m' = length (mem s) \<and> delivered l iova m' ([c, k] @ data)"
proof -
  let ?m = "overwrite (unat (cl_ctrl_ack_offset l)) [kVirtioNetCtrlAckInitial]
      (overwrite (unat (cl_ctrl_hdr_offset l)) ([c, k] @ data) (mem s))"
  from area data have "unat (cl_ctrl_hdr_offset l) + length ([c, k] @ data) \<le> length (mem s)"
    "unat (cl_ctrl_ack_offset l) < length (mem s)"
    by (auto simp: ctrl_area_def)
  then have lm: "length ?m = length (mem s)" by simp
  show ?thesis
    unfolding command_stores [OF area data]
    using ctrl_pointers [OF area] lm
      three_part_command [OF area data len _ refl, of "[c, k]" iova]
    by (simp add: store_descs3) blast
qed

lemma command4_run:
  assumes area: "ctrl_area l (length (mem s))" and data: "length (xs @ ys) \<le> unat (cl_ctrl_data_size l)"
    and len: "unat xlen = length xs" "unat ylen = length ys" and n: "unat n = length xs"
    and q: "4 \<le> unat (vl_queue_size (cl_ctrl_vring l))"
  shows "\<exists>m'. thenM (store (unat (cl_ctrl_hdr_offset l)) [c])
      (thenM (store (unat (cl_ctrl_hdr_offset l) + 1) [k])
      (thenM (store (unat (cl_ctrl_data_offset l)) (xs @ ys))
      (thenM (store (unat (cl_ctrl_ack_offset l)) [kVirtioNetCtrlAckInitial])
      (thenM (store_desc (vring_descs (unat (cl_ctrl_vring_offset l)) (cl_ctrl_vring l)) 0 (iova + cl_ctrl_hdr_offset l) (ucast kVirtioNetCtrlHdrSize) kVringDescFNext 1)
      (thenM (store_desc (vring_descs (unat (cl_ctrl_vring_offset l)) (cl_ctrl_vring l)) (Suc 0) (iova + cl_ctrl_data_offset l) xlen kVringDescFNext 2)
      (thenM (store_desc (vring_descs (unat (cl_ctrl_vring_offset l)) (cl_ctrl_vring l)) 2 (iova + cl_ctrl_data_offset l + n) ylen kVringDescFNext 3)
      (thenM (store_desc (vring_descs (unat (cl_ctrl_vring_offset l)) (cl_ctrl_vring l)) 3 (iova + cl_ctrl_ack_offset l) (ucast kVirtioNetCtrlAckSize) kVringDescFWrite 0)
         (offer_chain (unat (cl_ctrl_vring_offset l)) (cl_ctrl_vring l))))))))) s = (Inr (), s\<lparr>mem := m'\<rparr>) \<and>
      length m' = length (mem s) \<and> delivered l iova m' ([c, k] @ xs @ ys)"
proof -
  let ?m = "overwrite (unat (cl_ctrl_ack_offset l)) [kVirtioNetCtrlAckInitial]
      (overwrite (unat (cl_ctrl_hdr_offset l)) ([c, k] @ xs @ ys) (mem s))"
  from area data have "unat (cl_ctrl_hdr_offset l) + length ([c, k] @ xs @ ys) \<le> length (mem s)"
    "unat (cl_ctrl_ack_offset l) < length (mem s)"
    by (auto simp: ctrl_area_def)
  then have lm: "length ?m = length (mem s)" by simp
  show ?thesis
    unfolding command_stores [OF area data]
    using ctrl_pointers [OF area] lm q four_part_command [OF area data len _ n q refl, of "[c, k]" iova]
    by (simp add: store_descs4) blast
qed

lemma promisc_run:
  assumes area: "ctrl_area l (length (mem s))"
  shows "\<exists>m'. publish_rx_promisc_control_command (unat (cl_ctrl_vring_offset l)) l iova promisc s = (Inr (), s\<lparr>mem := m'\<rparr>) \<and>
      length m' = length (mem s) \<and> delivered l iova m' ([kVirtioNetCtrlRx, kVirtioNetCtrlRxPromisc] @ [of_bool promisc])"
proof -
  have one: "\<not> cl_ctrl_data_size l < kVirtioNetCtrlStateSize" and sz: "length [of_bool promisc :: u8] \<le> unat (cl_ctrl_data_size l)"
    using area by (simp_all add: ctrl_area_def word_less_nat_alt kVirtioNetCtrlStateSize_def)
  have st: "(if promisc then 1 else 0) = (of_bool promisc :: u8)" by simp
  show ?thesis
    using command3_run [OF area sz, of "ucast kVirtioNetCtrlStateSize" kVirtioNetCtrlRx kVirtioNetCtrlRxPromisc iova] one
    by (simp add: publish_rx_promisc_control_command_def Let_def throw_ifM_def st unat_one_state)
qed

lemma mac_addr_run:
  assumes area: "ctrl_area l (length (mem s))" and mac: "length mac = 6" and six: "6 \<le> unat (cl_ctrl_data_size l)"
  shows "\<exists>m'. publish_mac_addr_control_command (unat (cl_ctrl_vring_offset l)) l iova mac s = (Inr (), s\<lparr>mem := m'\<rparr>) \<and>
      length m' = length (mem s) \<and> delivered l iova m' ([kVirtioNetCtrlMac, kVirtioNetCtrlMacAddrSet] @ mac)"
proof -
  have "\<not> cl_ctrl_data_size l < kVirtioNetCtrlMacAddrSize"
    using six by (simp add: word_less_nat_alt kVirtioNetCtrlMacAddrSize_def)
  then show ?thesis
    using command3_run [OF area, of mac "ucast kVirtioNetCtrlMacAddrSize" kVirtioNetCtrlMac kVirtioNetCtrlMacAddrSet iova]
      mac six
    by (simp add: publish_mac_addr_control_command_def Let_def throw_ifM_def unat_one_state)
qed

text \<open>
  The two commands of one argument reach the device: in a buffer laid out by
  \<open>compute_ctrlq_dma_layout\<close>, the device is offered one chain that reads as class, command and data
  and ends in the ACK byte, which it alone may write; setting a MAC address throws, with nothing
  written, when the data area has less than six bytes.
\<close>

theorem short_commands_delivered:
  assumes "compute_ctrlq_dma_layout ps rxq txq cq al rxb rbs ds = Inr l" and "unat ds + 3 \<le> page_bytes ps"
    and len: "length (mem s) = unat (cl_total_size l)" and mac: "length mac = 6"
  shows "(\<exists>m'. publish_rx_promisc_control_command (unat (cl_ctrl_vring_offset l)) l iova promisc s = (Inr (), s\<lparr>mem := m'\<rparr>) \<and>
      length m' = length (mem s) \<and> delivered l iova m' [0, 0, of_bool promisc]) \<and>
    (if unat ds < 6
     then publish_mac_addr_control_command (unat (cl_ctrl_vring_offset l)) l iova mac s =
       (Inl (RuntimeError ''control command data area is too small for MAC_ADDR_SET''), s)
     else \<exists>m'. publish_mac_addr_control_command (unat (cl_ctrl_vring_offset l)) l iova mac s = (Inr (), s\<lparr>mem := m'\<rparr>) \<and>
       length m' = length (mem s) \<and> delivered l iova m' ([1, 1] @ mac))"
proof -
  have area: "ctrl_area l (length (mem s))" using ctrlq_layout_area [OF assms(1,2)] len by simp
  have ds: "cl_ctrl_data_size l = ds" by (rule ctrlq_layout_parts [OF assms(1,2)])
  have six: "cl_ctrl_data_size l < kVirtioNetCtrlMacAddrSize \<longleftrightarrow> unat ds < 6"
    by (simp add: ds word_less_nat_alt kVirtioNetCtrlMacAddrSize_def)
  have "publish_mac_addr_control_command (unat (cl_ctrl_vring_offset l)) l iova mac s =
       (Inl (RuntimeError ''control command data area is too small for MAC_ADDR_SET''), s)" if "unat ds < 6"
    using six that by (simp add: publish_mac_addr_control_command_def Let_def throw_ifM_def) (simp add: throwM_def)
  then show ?thesis
    using promisc_run [OF area, of iova promisc] mac_addr_run [OF area mac, of iova] ds
    by (simp add: kVirtioNetCtrlRx_def kVirtioNetCtrlRxPromisc_def kVirtioNetCtrlMac_def kVirtioNetCtrlMacAddrSet_def)
qed

theorem short_commands_delivered_witness:
  "\<exists>l m'. compute_ctrlq_dma_layout 4096 256 256 64 4096 64 2048 6 = Inr l \<and>
     publish_mac_addr_control_command (unat (cl_ctrl_vring_offset l)) l 0x100000000 [2, 0, 0, 0, 0, 1]
       (quiet_st (unat (cl_total_size l))) = (Inr (), (quiet_st (unat (cl_total_size l)))\<lparr>mem := m'\<rparr>) \<and>
     delivered l 0x100000000 m' [1, 1, 2, 0, 0, 0, 0, 1]"
proof -
  have "\<exists>l. compute_ctrlq_dma_layout 4096 256 256 64 4096 64 2048 6 = Inr l"
    by (intro exI) code_simp
  then obtain l where l: "compute_ctrlq_dma_layout 4096 256 256 64 4096 64 2048 6 = Inr l" ..
  from short_commands_delivered [OF l, of "quiet_st (unat (cl_total_size l))" "[2, 0, 0, 0, 0, 1]" "0x100000000"] l
  show ?thesis by (auto simp: quiet_st_def start_st_def)
qed

text \<open>
  C37. The table command: the device reads one unicast address and no multicast address, each table
  with its 32-bit count before it; a control queue of less than four descriptors and a data area of
  less than 14 bytes are refused before anything is written.
\<close>

theorem table_command_delivered:
  assumes "compute_ctrlq_dma_layout ps rxq txq cq al rxb rbs ds = Inr l" and "unat ds + 3 \<le> page_bytes ps"
    and len: "length (mem s) = unat (cl_total_size l)" and mac: "length mac = 6"
  shows "if unat cq < 4
     then publish_mac_table_control_command (unat (cl_ctrl_vring_offset l)) l iova mac s =
       (Inl (RuntimeError ''control queue-size must be at least 4 for MAC_TABLE_SET''), s)
     else if unat ds < 14
     then publish_mac_table_control_command (unat (cl_ctrl_vring_offset l)) l iova mac s =
       (Inl (RuntimeError ''control command data area is too small for MAC_TABLE_SET''), s)
     else \<exists>m'. publish_mac_table_control_command (unat (cl_ctrl_vring_offset l)) l iova mac s = (Inr (), s\<lparr>mem := m'\<rparr>) \<and>
       length m' = length (mem s) \<and> delivered l iova m' ([1, 0] @ ([1, 0, 0, 0] @ mac) @ [0, 0, 0, 0])"
proof -
  have area: "ctrl_area l (length (mem s))" using ctrlq_layout_area [OF assms(1,2)] len by simp
  have ds: "cl_ctrl_data_size l = ds" by (rule ctrlq_layout_parts [OF assms(1,2)])
  have cq: "vl_queue_size (cl_ctrl_vring l) = cq"
    using compute_vring_layout_fields [OF ctrlq_layout_parts(3) [OF assms(1,2)]] by simp
  have c4: "vl_queue_size (cl_ctrl_vring l) < 4 \<longleftrightarrow> unat cq < 4" by (simp add: cq word_less_nat_alt)
  have d14: "cl_ctrl_data_size l < unicast_table_size + multicast_table_size \<longleftrightarrow> unat ds < 14"
    by (simp add: ds word_less_nat_alt unicast_table_size_def multicast_table_size_def kVirtioNetCtrlMacTableCountSize_def
        kVirtioNetCtrlMacAddrSize_def)
  have le: "write_le32_to_bytes 1 = [1, 0, 0, 0]" "write_le32_to_bytes 0 = [0, 0, 0, 0]" by code_simp+
  have run: "\<exists>m'. publish_mac_table_control_command (unat (cl_ctrl_vring_offset l)) l iova mac s = (Inr (), s\<lparr>mem := m'\<rparr>) \<and>
      length m' = length (mem s) \<and>
      delivered l iova m' ([kVirtioNetCtrlMac, kVirtioNetCtrlMacTableSet] @ ([1, 0, 0, 0] @ mac) @ [0, 0, 0, 0])"
    if "\<not> unat cq < 4" "\<not> unat ds < 14"
  proof -
    let ?xs = "[1, 0, 0, 0] @ mac" and ?ys = "[0, 0, 0, 0] :: u8 list"
    have fit: "unat (cl_ctrl_hdr_offset l) + 1 < length (mem s)" and sz: "length (?xs @ ?ys) \<le> unat (cl_ctrl_data_size l)"
      using area that ds mac by (simp_all add: ctrl_area_def)
    have q: "4 \<le> unat (vl_queue_size (cl_ctrl_vring l))" using cq that by simp
    have tables: "thenM (store (unat (cl_ctrl_data_offset l)) [1, 0, 0, 0])
        (thenM (store (unat (cl_ctrl_data_offset l) + 4) mac)
        (thenM (store (unat (cl_ctrl_data_offset l) + 10) ?ys) m)) t =
        thenM (store (unat (cl_ctrl_data_offset l)) (?xs @ ?ys)) m t"
      if "length (mem t) = length (mem s)" for t :: "'a st" and m :: "('a st, unit) M"
      unfolding append_assoc by (rule table_stores) (use area sz that mac in simp_all)
    show ?thesis
      using command4_run [OF area sz, of "ucast unicast_table_size" "ucast multicast_table_size" unicast_table_size
          kVirtioNetCtrlMac kVirtioNetCtrlMacTableSet iova] q sz fit mac c4 d14 that
      by (simp add: publish_mac_table_control_command_def Let_def throw_ifM_def unat_one_state le store_then tables)
  qed
  have "publish_mac_table_control_command (unat (cl_ctrl_vring_offset l)) l iova mac s =
       (Inl (RuntimeError ''control queue-size must be at least 4 for MAC_TABLE_SET''), s)" if "unat cq < 4"
    using c4 that by (simp add: publish_mac_table_control_command_def Let_def throw_ifM_def) (simp add: throwM_def)
  moreover have "publish_mac_table_control_command (unat (cl_ctrl_vring_offset l)) l iova mac s =
       (Inl (RuntimeError ''control command data area is too small for MAC_TABLE_SET''), s)"
    if "\<not> unat cq < 4" "unat ds < 14"
    using c4 d14 that by (simp add: publish_mac_table_control_command_def Let_def throw_ifM_def) (simp add: throwM_def)
  ultimately show ?thesis
    using run by (simp add: kVirtioNetCtrlMac_def kVirtioNetCtrlMacTableSet_def)
qed

theorem table_command_delivered_witness:
  "\<exists>l m'. compute_ctrlq_dma_layout 4096 256 256 64 4096 64 2048 14 = Inr l \<and>
     publish_mac_table_control_command (unat (cl_ctrl_vring_offset l)) l 0x100000000 [2, 0, 0, 0, 0, 1]
       (quiet_st (unat (cl_total_size l))) = (Inr (), (quiet_st (unat (cl_total_size l)))\<lparr>mem := m'\<rparr>) \<and>
     delivered l 0x100000000 m' [1, 0, 1, 0, 0, 0, 2, 0, 0, 0, 0, 1, 0, 0, 0, 0]"
proof -
  have "\<exists>l. compute_ctrlq_dma_layout 4096 256 256 64 4096 64 2048 14 = Inr l"
    by (intro exI) code_simp
  then obtain l where l: "compute_ctrlq_dma_layout 4096 256 256 64 4096 64 2048 14 = Inr l" ..
  from table_command_delivered [OF l, of "quiet_st (unat (cl_total_size l))" "[2, 0, 0, 0, 0, 1]" "0x100000000"] l
  show ?thesis by (auto simp: quiet_st_def start_st_def)
qed

section \<open>The wait for the ACK\<close>

text \<open>Returns a result with \<open>Q\<close> in a buffer that keeps its size, and time does not run backwards.\<close>

definition completes :: "nat \<Rightarrow> ('w st, 'a) M \<Rightarrow> ('a \<Rightarrow> 'w st \<Rightarrow> bool) \<Rightarrow> bool" where
  "completes n m Q \<longleftrightarrow>
     (\<forall>s. buffer_size n s \<longrightarrow> (\<exists>a s'. m s = (Inr a, s') \<and> buffer_size n s' \<and> time s \<le> time s' \<and> Q a s'))"

lemma completesE:
  assumes "completes n m Q" and "length (mem s) = n"
  obtains a s' where "m s = (Inr a, s')" "length (mem s') = n" "time s \<le> time s'" "Q a s'"
  using assms by (auto simp: completes_def buffer_size_def)

lemma completes_bindM:
  assumes "completes n m R" and "\<And>a. completes n (f a) Q"
  shows "completes n (bindM m f) Q"
proof (unfold completes_def, intro allI impI)
  fix s :: "'a st" assume s: "buffer_size n s"
  with assms(1) obtain a s1 where 1: "m s = (Inr a, s1)" "buffer_size n s1" "time s \<le> time s1"
    unfolding completes_def by blast
  with assms(2) obtain b s2 where "f a s1 = (Inr b, s2)" "buffer_size n s2" "time s1 \<le> time s2" "Q b s2"
    unfolding completes_def by blast
  with 1 show "\<exists>a s'. bindM m f s = (Inr a, s') \<and> buffer_size n s' \<and> time s \<le> time s' \<and> Q a s'"
    by (auto simp: bindM_def)
qed

lemma completes_returnM: "(\<And>s. Q a s) \<Longrightarrow> completes n (returnM a) Q"
  by (simp add: completes_def returnM_def)

lemma completes_vload:
  assumes "env_ok env" and "p + k \<le> n"
  shows "completes n (vload env p k) (\<lambda>bs s. bs = segment p k (mem s))"
proof (unfold completes_def, intro allI impI)
  fix s :: "'a st" assume s: "buffer_size n s"
  obtain m w where m: "env_dma env (mem s) (world s) = (m, w)" by fastforce
  with assms(1) have "length m = length (mem s)" by (metis env_ok_def fst_conv)
  with m assms(2) s show "\<exists>a s'. vload env p k s = (Inr a, s') \<and> buffer_size n s' \<and> time s \<le> time s' \<and> a = segment p k (mem s')"
    by (simp add: vload_def bindM_def dma_step_def load_def buffer_size_def)
qed

lemma completes_weaken: "completes n m R \<Longrightarrow> (\<And>a s. R a s \<Longrightarrow> Q a s) \<Longrightarrow> completes n m Q"
  unfolding completes_def by blast

abbreviation any :: "'a \<Rightarrow> 'w st \<Rightarrow> bool" where
  "any \<equiv> \<lambda>_ _. True"

named_theorems completes_rules "computations that return"

lemma completes_bind_any [completes_rules]:
  "completes n m any \<Longrightarrow> (\<And>a. completes n (f a) Q) \<Longrightarrow> completes n (bindM m f) Q"
  by (rule completes_bindM)

lemma completes_returnM_any [completes_rules]: "completes n (returnM a) any"
  by (simp add: completes_returnM)

lemma completes_byte:
  assumes "env_ok env" and "p + 1 \<le> n"
  shows "completes n (bindM (vload env p 1) (\<lambda>bs. returnM (hd bs))) (\<lambda>x s. x = mem s ! p)"
proof (unfold completes_def, intro allI impI)
  fix s :: "'a st" assume s: "buffer_size n s"
  with completes_vload [OF assms] obtain s' where "vload env p 1 s = (Inr (segment p 1 (mem s')), s')" "buffer_size n s'"
      "time s \<le> time s'" unfolding completes_def by blast
  with assms(2) show "\<exists>x s'. bindM (vload env p 1) (\<lambda>bs. returnM (hd bs)) s = (Inr x, s') \<and> buffer_size n s' \<and>
      time s \<le> time s' \<and> x = mem s' ! p"
    by (simp add: bindM_def returnM_def segment_def buffer_size_def hd_drop_conv_nth)
qed

lemma completes_vload16: "env_ok env \<Longrightarrow> p + 2 \<le> n \<Longrightarrow> completes n (vload16 env p) any"
  unfolding vload16_def by (rule completes_bindM [OF completes_vload]) (simp_all add: completes_returnM)

lemma completes_vload32: "env_ok env \<Longrightarrow> p + 4 \<le> n \<Longrightarrow> completes n (vload32 env p) any"
  unfolding vload32_def by (rule completes_bindM [OF completes_vload]) (simp_all add: completes_returnM)

lemma completes_read_used_idx: "env_ok env \<Longrightarrow> queue_at b l n \<Longrightarrow> completes n (read_used_idx env b l) any"
  unfolding read_used_idx_def by (rule completes_vload16) (simp_all add: queue_at_idx)

lemma completes_used_elem:
  assumes "env_ok env" and "queue_at b l n" and "i < unat (vl_queue_size l)"
  shows "completes n (used_elem_id env b l i) any" and "completes n (used_elem_len env b l i) any"
  unfolding used_elem_id_def used_elem_len_def
  using queue_at_bounds(3) [OF assms(2,3)] by (simp_all add: completes_vload32 assms(1))

lemma completes_used_entries:
  assumes "env_ok env" and "queue_at b l n"
  shows "completes n (used_entries env b l idx is) any"
  by (induction "is")
    (simp_all add: Let_def completes_rules completes_used_elem [OF assms] used_slot_in_ring [OF assms(2)])

lemma completes_print_used_entries:
  "env_ok env \<Longrightarrow> queue_at b l n \<Longrightarrow> completes n (print_used_entries env b l i j) any"
  by (simp add: print_used_entries_def Let_def completes_used_entries completes_rules)

lemma now_run_mem: obtains t s' where "now env s = (Inr t, s')" "time s \<le> t" "time s' = t" "mem s' = mem s"
  by (cases "env_delay env (world s)") (simp add: now_def)

lemma sleep_for_run:
  obtains s' where "sleep_for env d s = (Inr (), s')" "time s + d \<le> time s'" "mem s' = mem s"
  by (cases "env_delay env (world s)") (simp add: sleep_for_def)

lemma wait_used_loop_returns:
  assumes "env_ok env" and "queue_at b l (length (mem s))" and "deadline \<le> time s + fuel * ms 10"
  shows "\<exists>s'. wait_used_loop fuel env b l enough deadline s = (Inr (), s') \<and> length (mem s') = length (mem s)"
  using assms(2,3)
proof (induction fuel arbitrary: s)
  case 0
  obtain t s1 where "now env s = (Inr t, s1)" "time s \<le> t" "mem s1 = mem s" by (rule now_run_mem)
  with 0 show ?case by (simp add: bindM_def returnM_def)
next
  case (Suc fuel)
  obtain t s1 where 1: "now env s = (Inr t, s1)" "time s \<le> t" "time s1 = t" "mem s1 = mem s" by (rule now_run_mem)
  obtain current s2 where 2: "read_used_idx env b l s1 = (Inr current, s2)" "length (mem s2) = length (mem s)"
      "time s1 \<le> time s2"
    using completesE [OF completes_read_used_idx [OF assms(1) Suc.prems(1)], of s1] 1(4) by metis
  obtain s3 where 3: "sleep_for env (ms 10) s2 = (Inr (), s3)" "time s2 + ms 10 \<le> time s3" "mem s3 = mem s2"
    by (rule sleep_for_run)
  have "deadline \<le> time s3 + fuel * ms 10" using Suc.prems(2) 1 2 3 by simp
  with Suc.IH [of s3] Suc.prems(1) 1 2 3 show ?case by (auto simp: bindM_def returnM_def)
qed

lemma wait_used_returns:
  assumes "env_ok env" and "queue_at b l (length (mem s))"
  shows "\<exists>s'. wait_used env b l enough wait_ms s = (Inr (), s') \<and> length (mem s') = length (mem s)"
proof (cases "wait_ms > 0")
  case True
  obtain t s1 where 1: "now env s = (Inr t, s1)" "time s1 = t" "mem s1 = mem s" by (rule now_run_mem)
  have "t + ms (unat wait_ms) \<le> time s1 + (unat wait_ms div 10 + 1) * ms 10" by (simp add: 1 ms_def)
  from wait_used_loop_returns [OF assms(1) _ this, of b l enough] assms(2) True 1 show ?thesis
    by (simp add: wait_used_def bindM_def)
qed (simp add: wait_used_def returnM_def)

text \<open>
  The wait for the ACK always ends, inside the buffer, whatever the device does: it returns the
  byte that stands in the ACK area when it stops waiting.
\<close>

theorem wait_for_control_ack_returns:
  assumes env: "env_ok env" and area: "ctrl_area l (length (mem s))"
  shows "\<exists>ack s'. wait_for_control_ack env (unat (cl_ctrl_vring_offset l)) l idx wait_ms s = (Inr ack, s') \<and>
    length (mem s') = length (mem s) \<and> ack = mem s' ! unat (cl_ctrl_ack_offset l)"
proof -
  let ?b = "unat (cl_ctrl_vring_offset l)" and ?vr = "cl_ctrl_vring l" and ?a = "unat (cl_ctrl_ack_offset l)"
  let ?enough = "\<lambda>current. used_delta idx current \<ge> 1"
  have q: "queue_at ?b ?vr (length (mem s))" and a: "?a + 1 \<le> length (mem s)"
    using area by (simp_all add: ctrl_area_def)
  have rest: "completes (length (mem s)) (bindM (read_used_idx env ?b ?vr) (\<lambda>after.
      thenM (print_used_entries env ?b ?vr idx after)
        (bindM (vload env ?a 1) (\<lambda>bs. returnM (hd bs))))) (\<lambda>x s'. x = mem s' ! ?a)"
    by (intro completes_bind_any completes_read_used_idx completes_print_used_entries completes_byte env q a)
  obtain t s1 where 1: "now env s = (Inr t, s1)" "time s1 = t" "mem s1 = mem s" by (rule now_run_mem)
  have "unat wait_ms \<le> (unat wait_ms div 10 + 1) * 10" by presburger
  then have "unat wait_ms * 1000000 \<le> (unat wait_ms div 10 + 1) * 10 * 1000000" by (rule mult_le_mono1)
  then have "t + ms (unat wait_ms) \<le> time s1 + (unat wait_ms div 10 + 1) * ms 10"
    using 1(2) by (simp add: ms_def algebra_simps)
  from wait_used_loop_returns [OF env _ this, of ?b ?vr ?enough] q 1(3)
  obtain s2 where 2: "wait_used_loop (unat wait_ms div 10 + 1) env ?b ?vr ?enough (t + ms (unat wait_ms)) s1 = (Inr (), s2)"
      "length (mem s2) = length (mem s)" by auto
  from completesE [OF rest 2(2)] obtain x s3 where "bindM (read_used_idx env ?b ?vr) (\<lambda>after.
      thenM (print_used_entries env ?b ?vr idx after) (bindM (vload env ?a 1) (\<lambda>bs. returnM (hd bs)))) s2 = (Inr x, s3)"
      "length (mem s3) = length (mem s)" "x = mem s3 ! ?a" by blast
  with 1(1) 2(1) show ?thesis by (simp add: wait_for_control_ack_def bindM_run del: Suc_eq_plus1)
qed

theorem wait_for_control_ack_returns_witness:
  "\<exists>ack s' l. compute_ctrlq_dma_layout 4096 256 256 64 4096 64 2048 1 = Inr l \<and>
     wait_for_control_ack quiet_env (unat (cl_ctrl_vring_offset l)) l 0 60000 (quiet_st (unat (cl_total_size l))) = (Inr ack, s') \<and>
     ack = mem s' ! unat (cl_ctrl_ack_offset l)"
proof -
  have "\<exists>l. compute_ctrlq_dma_layout 4096 256 256 64 4096 64 2048 1 = Inr l"
    by (intro exI) code_simp
  then obtain l where l: "compute_ctrlq_dma_layout 4096 256 256 64 4096 64 2048 1 = Inr l" ..
  have "ctrl_area l (length (mem (quiet_st (unat (cl_total_size l)))))"
    using ctrlq_layout_area [OF l] by (simp add: quiet_st_def start_st_def)
  from wait_for_control_ack_returns [OF quiet_env_ok this, of 0 60000] l show ?thesis by blast
qed

end
