(* ===== verification/Dump.thy ===== *)
theory Dump
  imports RxScan Parse
begin

text \<open>
  What the programs print of the DMA buffer, from \<open>userspace_drivers/virtio_net_vfio.hpp\<close>: hex dumps, the
  summary of an Ethernet header, received buffers and entries of the RX used ring. A printing function
  returns the lines it prints. Its accesses stay inside the buffer, and a dump shows the bytes that are
  there.
\<close>

section \<open>Text of numbers and bytes\<close>

fun to_hex :: "nat \<Rightarrow> string" where
  "to_hex n = (if n < 16 then [hex_digit n] else to_hex (n div 16) @ [hex_digit (n mod 16)])"

declare to_hex.simps [simp del]

text \<open>The format \<open>{:04x}\<close>.\<close>

definition hex4 :: "nat \<Rightarrow> string" where
  "hex4 n = (let h = to_hex n in replicate (4 - length h) (CHR ''0'') @ h)"

definition isprint :: "u8 \<Rightarrow> bool" where
  "isprint ch \<longleftrightarrow> 32 \<le> ch \<and> ch \<le> 126"

definition decimal_u8 :: "u8 \<Rightarrow> string" where "decimal_u8 x = to_string (unat x)"
definition decimal_u16 :: "u16 \<Rightarrow> string" where "decimal_u16 x = to_string (unat x)"
definition decimal_u32 :: "u32 \<Rightarrow> string" where "decimal_u32 x = to_string (unat x)"
definition decimal_u64 :: "u64 \<Rightarrow> string" where "decimal_u64 x = to_string (unat x)"

section \<open>Dumps\<close>

text \<open>One line of a hex dump: the offset, sixteen columns of bytes, and the bytes as characters.\<close>

definition hex_columns :: "u8 list \<Rightarrow> string" where
  "hex_columns bs = concat (map (\<lambda>i. if i < length bs then hex2 (bs ! i) @ '' '' else ''   '') [0..<16])"

definition hex_dump_line :: "nat \<Rightarrow> u8 list \<Rightarrow> string" where
  "hex_dump_line offset bs =
     ''  '' @ hex4 offset @ '': '' @ hex_columns bs @ '' '' @
     map (\<lambda>ch. if isprint ch then char_of (unat ch) else CHR ''.'') bs"

text \<open>The loop over the offsets below \<open>count\<close> in steps of 16.\<close>

primrec hex_dump_lines :: "nat \<Rightarrow> nat \<Rightarrow> nat list \<Rightarrow> ('w st, string list) M" where
  "hex_dump_lines data count [] = returnM []"
| "hex_dump_lines data count (offset # offsets) =
     bindM (load (data + offset) (min 16 (count - offset))) (\<lambda>bs.
     bindM (hex_dump_lines data count offsets) (\<lambda>ls. returnM (hex_dump_line offset bs # ls)))"

definition print_hex_dump :: "nat \<Rightarrow> u64 \<Rightarrow> u64 \<Rightarrow> ('w st, string list) M" where
  "print_hex_dump data sz max_bytes =
     (let count = min sz max_bytes
      in if count = 0 then returnM [''  <empty>'']
         else bindM (hex_dump_lines data (unat count) (map (\<lambda>k. 16 * k) [0..<(unat count + 15) div 16])) (\<lambda>ls.
              returnM (ls @ (if sz > count
                then [''  ... '' @ decimal_u64 (sz - count) @ '' more bytes not shown''] else []))))"

definition print_ethernet_summary :: "nat \<Rightarrow> u64 \<Rightarrow> ('w st, string list) M" where
  "print_ethernet_summary packet packet_size =
     (if packet_size < 14
      then returnM [''  Ethernet frame: <too short: '' @ decimal_u64 packet_size @ '' bytes>'']
      else bindM (load (packet + 12) 2) (\<lambda>ty.
           bindM (load packet 6) (\<lambda>dst.
           bindM (load (packet + 6) 6) (\<lambda>src.
           returnM [''  Ethernet dst: '' @ mac_string dst, ''  Ethernet src: '' @ mac_string src,
                    ''  Ethernet ethertype: 0x'' @ hex4 (unat (read_be16_from_bytes ty))]))))"

text \<open>A field of the virtio-net header, with the text before its value.\<close>

definition le16_line :: "string \<Rightarrow> nat \<Rightarrow> ('w st, string) M" where
  "le16_line name p = bindM (load p 2) (\<lambda>bs. returnM (name @ decimal_u16 (read_le16_from_bytes bs)))"

definition print_virtio_net_rx_buffer :: "nat \<Rightarrow> u64 \<Rightarrow> u64 \<Rightarrow> ('w st, string list) M" where
  "print_virtio_net_rx_buffer data used_len dump_bytes =
     (if used_len < kVirtioNetHeaderSize
      then bindM (print_hex_dump data used_len dump_bytes) (\<lambda>ls.
           returnM ([''  virtio-net header: <too short: '' @ decimal_u64 used_len @ '' bytes>'',
                     ''  Raw buffer prefix:''] @ ls))
      else bindM (load data 1) (\<lambda>flags.
           bindM (load (data + 1) 1) (\<lambda>gso_type.
           bindM (le16_line ''    hdr_len: '' (data + 2)) (\<lambda>l1.
           bindM (le16_line ''    gso_size: '' (data + 4)) (\<lambda>l2.
           bindM (le16_line ''    csum_start: '' (data + 6)) (\<lambda>l3.
           bindM (le16_line ''    csum_offset: '' (data + 8)) (\<lambda>l4.
           bindM (le16_line ''    num_buffers: '' (data + 10)) (\<lambda>l5.
           let packet = data + unat kVirtioNetHeaderSize;
               packet_size = used_len - kVirtioNetHeaderSize
           in bindM (print_ethernet_summary packet packet_size) (\<lambda>eth.
              bindM (print_hex_dump data used_len dump_bytes) (\<lambda>ls.
              returnM ([''  virtio-net header:'', ''    flags: 0x'' @ hex2 (hd flags), ''    gso_type: 0x'' @ hex2 (hd gso_type),
                 l1, l2, l3, l4, l5, ''  Packet bytes after virtio-net header: '' @ decimal_u64 packet_size] @
                 eth @ [''  Raw buffer prefix:''] @ ls)))))))))))"

text \<open>One used entry of the RX ring, and the list of at most eight of them.\<close>

definition entry_line :: "u16 \<Rightarrow> u32 \<Rightarrow> u32 \<Rightarrow> string" where
  "entry_line slot did len =
     ''  slot '' @ decimal_u16 slot @ '': id='' @ decimal_u32 did @ '' len='' @ decimal_u32 len"

primrec rx_entry_lines :: "'w env \<Rightarrow> nat \<Rightarrow> VringLayout \<Rightarrow> u16 \<Rightarrow> nat list \<Rightarrow> ('w st, string list) M" where
  "rx_entry_lines env rx_queue_base rx_layout old_idx [] = returnM []"
| "rx_entry_lines env rx_queue_base rx_layout old_idx (i # is) =
     (let slot = used_slot_of rx_layout old_idx i
      in bindM (used_elem_id env rx_queue_base rx_layout (unat slot)) (\<lambda>did.
         bindM (used_elem_len env rx_queue_base rx_layout (unat slot)) (\<lambda>len.
         bindM (rx_entry_lines env rx_queue_base rx_layout old_idx is) (\<lambda>ls.
         returnM (entry_line slot did len # ls)))))"

definition print_rx_used_entries ::
  "'w env \<Rightarrow> nat \<Rightarrow> VringLayout \<Rightarrow> u16 \<Rightarrow> u16 \<Rightarrow> ('w st, string list) M" where
  "print_rx_used_entries env rx_queue_base rx_layout old_idx new_idx =
     (let count = used_delta old_idx new_idx
      in if count = 0 then returnM [''RX used entries: <none>'']
         else let to_print = min count 8
         in bindM (rx_entry_lines env rx_queue_base rx_layout old_idx [0..<unat to_print]) (\<lambda>ls.
            returnM ((''RX used entries (showing '' @ decimal_u16 to_print @ '' of '' @ decimal_u16 count @ ''):'') # ls)))"

text \<open>The dump of the buffers of new used entries.\<close>

primrec rx_buffer_lines ::
  "'w env \<Rightarrow> nat \<Rightarrow> DmaLayout \<Rightarrow> u16 \<Rightarrow> u16 \<Rightarrow> u64 \<Rightarrow> u64 \<Rightarrow> nat list \<Rightarrow> ('w st, string list) M" where
  "rx_buffer_lines env rx_queue_base layout old_idx rx_buffers rx_buffer_size dump_bytes [] = returnM []"
| "rx_buffer_lines env rx_queue_base layout old_idx rx_buffers rx_buffer_size dump_bytes (i # is) =
     (let slot = used_slot_of (dl_rx_vring layout) old_idx i
      in bindM (used_elem_id env rx_queue_base (dl_rx_vring layout) (unat slot)) (\<lambda>did.
         bindM (used_elem_len env rx_queue_base (dl_rx_vring layout) (unat slot)) (\<lambda>len.
         bindM (if did \<ge> ucast rx_buffers
                then returnM [''  cannot dump: descriptor id is outside posted RX buffers'']
                else if ucast len > rx_buffer_size
                then returnM [''  cannot dump safely: used len exceeds RX buffer size '' @ decimal_u64 rx_buffer_size]
                else print_virtio_net_rx_buffer (rx_buffer_at layout did rx_buffer_size) (ucast len) dump_bytes) (\<lambda>ls.
         bindM (rx_buffer_lines env rx_queue_base layout old_idx rx_buffers rx_buffer_size dump_bytes is) (\<lambda>rest.
         returnM ((''  used slot '' @ decimal_u16 slot @ '': desc id='' @ decimal_u32 did @ '' len='' @ decimal_u32 len) # ls @ rest))))))"

definition dump_rx_used_buffers ::
  "'w env \<Rightarrow> nat \<Rightarrow> DmaLayout \<Rightarrow> u16 \<Rightarrow> u16 \<Rightarrow> u16 \<Rightarrow> u64 \<Rightarrow> u16 \<Rightarrow> u64 \<Rightarrow> ('w st, string list) M" where
  "dump_rx_used_buffers env rx_queue_base layout old_idx new_idx rx_buffers rx_buffer_size max_entries dump_bytes =
     (let count = used_delta old_idx new_idx
      in if count = 0 then returnM []
         else let to_dump = min (min count rx_buffers) max_entries
         in bindM (rx_buffer_lines env rx_queue_base layout old_idx rx_buffers rx_buffer_size dump_bytes
                     [0..<unat to_dump]) (\<lambda>ls.
            returnM (''RX packet buffer dump:'' # ls)))"

section \<open>A dump stays inside the buffer\<close>

lemma safe_hex_dump_lines:
  "data + count \<le> n \<Longrightarrow> \<forall>k \<in> set offsets. k \<le> count \<Longrightarrow> safe (buffer_size n) (hex_dump_lines data count offsets)"
  by (induction offsets) (auto intro!: safe_rules safe_load)

lemma safe_print_hex_dump [safe_rules]:
  assumes "data + unat sz \<le> n"
  shows "safe (buffer_size n) (print_hex_dump data sz max_bytes)"
proof -
  have "unat (min sz max_bytes) \<le> unat sz" by (simp add: min_def word_le_nat_alt)
  with assms show ?thesis
    by (auto simp: print_hex_dump_def Let_def intro!: safe_rules safe_hex_dump_lines)
qed

lemma safe_ethernet_summary [safe_rules]:
  "p + unat sz \<le> n \<Longrightarrow> safe (buffer_size n) (print_ethernet_summary p sz)"
  by (auto simp: print_ethernet_summary_def word_less_nat_alt intro!: safe_rules safe_load)

lemma safe_le16_line: "p + 2 \<le> n \<Longrightarrow> safe (buffer_size n) (le16_line name p)"
  by (simp add: le16_line_def safe_rules safe_load)

lemma safe_print_rx_buffer [safe_rules]:
  assumes "data + unat len \<le> n"
  shows "safe (buffer_size n) (print_virtio_net_rx_buffer data len dump_bytes)"
proof (cases "len < kVirtioNetHeaderSize")
  case True
  with assms show ?thesis by (simp add: print_virtio_net_rx_buffer_def safe_rules)
next
  case False
  then have "12 \<le> unat len" "unat (len - kVirtioNetHeaderSize) = unat len - 12"
    by (simp_all add: kVirtioNetHeaderSize_def word_less_nat_alt unat_sub_small)
  with assms False show ?thesis
    by (simp add: print_virtio_net_rx_buffer_def Let_def safe_rules safe_load safe_le16_line kVirtioNetHeaderSize_def)
qed

text \<open>
  Dumping is safe against the device: whatever it writes into the used ring, and whenever,
  \<open>dump_rx_used_buffers\<close> and \<open>print_rx_used_entries\<close> read only inside the DMA buffer.
\<close>

theorem dump_rx_used_buffers_safe:
  assumes env: "env_ok env" and area: "dma_area l rxb rbs n"
  shows "safe (buffer_size n)
      (dump_rx_used_buffers env (unat (dl_rx_vring_offset l)) l old_idx new_idx rxb rbs max_entries dump_bytes) \<and>
    safe (buffer_size n) (print_rx_used_entries env (unat (dl_rx_vring_offset l)) (dl_rx_vring l) old_idx new_idx)"
proof -
  have q: "queue_at (unat (dl_rx_vring_offset l)) (dl_rx_vring l) n" using area by (simp add: dma_area_def)
  note elem = safe_used_elem [OF env q used_slot_in_ring [OF q]]
  have one: "safe (buffer_size n) (print_virtio_net_rx_buffer (rx_buffer_at l did rbs) (ucast len) dump_bytes)"
    if "\<not> did \<ge> ucast rxb" "\<not> ucast len > rbs" for did and len :: u32
  proof (rule safe_print_rx_buffer)
    have "unat len \<le> unat rbs" using that(2) by (simp add: word_less_nat_alt not_less)
    with rx_buffer_at_bound [OF area, of did] that(1)
    show "rx_buffer_at l did rbs + unat (ucast len :: u64) \<le> n" by (simp add: not_le)
  qed
  have "safe (buffer_size n) (rx_buffer_lines env (unat (dl_rx_vring_offset l)) l old_idx rxb rbs dump_bytes is)" for "is"
    by (induction "is") (simp_all add: Let_def safe_rules elem one)
  moreover have "safe (buffer_size n) (rx_entry_lines env (unat (dl_rx_vring_offset l)) (dl_rx_vring l) old_idx is)" for "is"
    by (induction "is") (simp_all add: Let_def safe_rules elem)
  ultimately show ?thesis
    by (simp add: dump_rx_used_buffers_def print_rx_used_entries_def Let_def safe_rules)
qed

theorem dump_rx_used_buffers_safe_witness:
  "safe (buffer_size 512) (dump_rx_used_buffers quiet_env (unat (dl_rx_vring_offset small_area)) small_area 0 1 2 64 4 160)"
  using dump_rx_used_buffers_safe [OF quiet_env_ok small_area_ok] by blast

section \<open>A dump shows the bytes\<close>

lemma length_to_hex: "n < 16 ^ Suc k \<Longrightarrow> length (to_hex n) \<le> Suc k"
proof (induction k arbitrary: n)
  case 0
  then show ?case by (subst to_hex.simps) simp
next
  case (Suc k)
  then have "n div 16 < 16 ^ Suc k" by (simp add: less_mult_imp_div_less)
  with Suc.IH have "length (to_hex (n div 16)) \<le> Suc k" by blast
  then show ?case by (subst to_hex.simps) simp
qed

lemma length_hex4: "n < 65536 \<Longrightarrow> length (hex4 n) = 4"
  using length_to_hex [of n 3] by (simp add: hex4_def Let_def)

lemma hex_digits_concat:
  "(\<And>x. x \<in> set xs \<Longrightarrow> hex_digits skip (g x) = Some (f x)) \<Longrightarrow>
     hex_digits skip (concat (map g xs)) = Some (concat (map f xs))"
  by (induction xs) (simp_all add: hex_digits_append)

abbreviation blank :: "char \<Rightarrow> bool" where
  "blank \<equiv> \<lambda>ch. isspace ch \<or> is_separator ch"

lemma hex_digits_column: "hex_digits blank (hex2 b @ '' '') = Some (hex2 b)" "hex_digits blank ''   '' = Some []"
proof -
  have x: "isxdigit (hex_digit (unat b div 16))" "isxdigit (hex_digit (unat b mod 16))"
    by (simp_all add: isxdigit_def hex_digit_facts nibbles)
  have sp: "isspace (CHR '' '')" by code_simp
  with x xdigit_facts(1) [OF x(1)] xdigit_facts(1) [OF x(2)]
  show "hex_digits blank (hex2 b @ '' '') = Some (hex2 b)" "hex_digits blank ''   '' = Some []"
    by (simp_all add: hex2_def hex_digit_facts nibbles)
qed

lemma byte_pairs_all: "byte_pairs (concat (map hex2 bs)) = Inr bs"
  by (induction bs) (simp_all add: byte_pairs_hex2)

lemma hex_columns_read:
  assumes "length bs \<le> 16"
  shows "parse_hex_bytes (hex_columns bs) name = Inr bs"
proof -
  have "hex_digits blank (hex_columns bs) =
      Some (concat (map (\<lambda>i. if i < length bs then hex2 (bs ! i) else []) [0..<16]))"
    unfolding hex_columns_def by (rule hex_digits_concat) (simp only: hex_digits_column split: if_split, simp)
  moreover have "[0..<16] = [0..<length bs] @ [length bs..<16]"
    using assms upt_add_eq_append [of 0 "length bs" "16 - length bs"] by simp
  moreover have "concat (map (\<lambda>i. if i < length bs then hex2 (bs ! i) else []) [length bs..<16]) = []" by simp
  moreover have "map (\<lambda>i. if i < length bs then hex2 (bs ! i) else []) [0..<length bs] = map hex2 bs"
    by (intro nth_equalityI) simp_all
  moreover have "even (length (concat (map hex2 bs)))"
    by (induction bs) (simp_all add: hex2_def)
  ultimately show ?thesis by (simp add: parse_hex_bytes_def byte_pairs_all even_iff_mod_2_eq_zero)
qed

lemma length_hex_columns: "length (hex_columns bs) = 48"
proof -
  have "sum_list (map (length \<circ> (\<lambda>i. if i < length bs then hex2 (bs ! i) @ '' '' else ''   '')) xs) = 3 * length xs" for xs
    by (induction xs) (simp_all add: hex2_def)
  then show ?thesis by (simp add: hex_columns_def length_concat)
qed

text \<open>The bytes a line of a dump shows, read back from its sixteen columns.\<close>

definition shown :: "string \<Rightarrow> u8 list" where
  "shown line = (case parse_hex_bytes (take 48 (drop 8 line)) ''dump'' of Inr bs \<Rightarrow> bs | Inl _ \<Rightarrow> [])"

lemma shown_line: "offset < 65536 \<Longrightarrow> length bs \<le> 16 \<Longrightarrow> shown (hex_dump_line offset bs) = bs"
  by (simp add: shown_def hex_dump_line_def length_hex4 length_hex_columns hex_columns_read)

lemma hex_dump_lines_run:
  assumes "data + count \<le> length (mem s)" and "count \<le> 65536" and "16 * j < count + 16"
  shows "\<exists>ls. hex_dump_lines data count (map (\<lambda>k. 16 * k) [i..<j]) s = (Inr ls, s) \<and> length ls = j - i \<and>
    concat (map shown ls) = segment (data + 16 * i) (min (16 * j) count - 16 * i) (mem s)"
  using assms(3)
proof (induction "j - i" arbitrary: i)
  case 0
  then show ?case by (simp add: returnM_def segment_def)
next
  case (Suc d)
  then have ij: "i < j" and up: "[i..<j] = i # [Suc i..<j]" by (simp_all add: upt_conv_Cons)
  let ?bs = "segment (data + 16 * i) (min 16 (count - 16 * i)) (mem s)"
  have d: "d = j - Suc i" using Suc.hyps(2) by simp
  from Suc.hyps(1) [OF d Suc.prems] obtain ls where
    ls: "hex_dump_lines data count (map (\<lambda>k. 16 * k) [Suc i..<j]) s = (Inr ls, s)" "length ls = j - Suc i"
      "concat (map shown ls) = segment (data + 16 * Suc i) (min (16 * j) count - 16 * Suc i) (mem s)" by blast
  have lt: "16 * i < count" using ij Suc.prems by simp
  then have ld: "load (data + 16 * i) (min 16 (count - 16 * i)) s = (Inr ?bs, s)"
    using assms(1) by (simp add: load_def)
  have "shown (hex_dump_line (16 * i) ?bs) = ?bs"
    using lt assms by (intro shown_line) simp_all
  moreover have "?bs @ segment (data + 16 * Suc i) (min (16 * j) count - 16 * Suc i) (mem s) =
      segment (data + 16 * i) (min (16 * j) count - 16 * i) (mem s)"
  proof (cases "16 * Suc i \<le> count")
    case True
    then have a: "min 16 (count - 16 * i) = 16"
      and b: "min (16 * j) count - 16 * i = 16 + (min (16 * j) count - 16 * Suc i)" using ij by simp_all
    have c: "data + 16 * Suc i = data + 16 * i + 16" by simp
    show ?thesis unfolding a b c segment_split ..
  next
    case False
    with ij Suc.prems show ?thesis by (simp add: segment_def)
  qed
  ultimately show ?case
    using ls ij by (simp add: up bindM_def ld returnM_def)
qed

text \<open>
  A hex dump shows what is in the buffer: one line for each sixteen bytes, whose columns read back
  as the bytes of the dumped range, cut at \<open>max_bytes\<close>; what is cut is announced in a line of its own.
\<close>

theorem print_hex_dump_shows:
  assumes "data + unat sz \<le> length (mem s)" and "0 < min sz max_bytes" and "unat (min sz max_bytes) \<le> 65536"
  shows "\<exists>ls rest. print_hex_dump data sz max_bytes s = (Inr (ls @ rest), s) \<and>
    length ls = (unat (min sz max_bytes) + 15) div 16 \<and>
    concat (map shown ls) = segment data (unat (min sz max_bytes)) (mem s) \<and>
    rest = (if sz \<le> max_bytes then [] else [''  ... '' @ to_string (unat sz - unat max_bytes) @ '' more bytes not shown''])"
proof -
  let ?n = "unat (min sz max_bytes)"
  let ?j = "(?n + 15) div 16"
  have n: "?n \<le> unat sz" "min sz max_bytes \<noteq> 0" using assms(2) by (auto simp: min_def word_le_nat_alt)
  have j: "16 * ?j < ?n + 16" "?n \<le> 16 * ?j" by simp_all
  from hex_dump_lines_run [of data ?n s ?j 0] n j assms obtain ls where
    ls: "hex_dump_lines data ?n (map (\<lambda>k. 16 * k) [0..<?j]) s = (Inr ls, s)" "length ls = ?j"
      "concat (map shown ls) = segment data ?n (mem s)" by (auto simp: min_absorb2)
  have "sz > min sz max_bytes \<longleftrightarrow> \<not> sz \<le> max_bytes" by (auto simp: min_def)
  moreover have "unat (sz - min sz max_bytes) = unat sz - unat max_bytes" if "\<not> sz \<le> max_bytes"
    using that by (simp add: min_def unat_sub_small word_le_nat_alt not_le)
  ultimately show ?thesis
    using ls n by (auto simp: print_hex_dump_def Let_def bindM_def returnM_def decimal_u64_def)
qed

theorem print_hex_dump_shows_witness:
  "\<exists>ls rest. print_hex_dump 4 40 20 (start_st (map of_nat [0..<64]) ()) = (Inr (ls @ rest), start_st (map of_nat [0..<64]) ()) \<and>
     concat (map shown ls) = map of_nat [4..<24] \<and> rest = [''  ... 20 more bytes not shown'']"
proof -
  have "segment 4 20 (map of_nat [0..<64]) = (map of_nat [4..<24] :: u8 list)" by (simp add: segment_def drop_map take_map)
  moreover have "to_string 20 = ''20''" by (simp add: to_string.simps char_of_eq_iff)
  ultimately show ?thesis
    using print_hex_dump_shows [of 4 40 "start_st (map of_nat [0..<64]) ()" 20] by (auto simp: start_st_def)
qed

end
