(* ===== verification/CtrlRun.thy ===== *)
theory CtrlRun
  imports Ctrl Dump EchoLoop Scopes
begin

text \<open>
  The programs that use the control queue: exercises 27 to 30 of \<open>userspace_drivers/\<close>
  (\<open>27_virtio_net_ctrl_promisc.cpp\<close>, \<open>28_virtio_net_promisc_observe.cpp\<close>, \<open>29_virtio_net_ctrl_mac_addr.cpp\<close>,
  \<open>30_virtio_net_ctrl_mac_table.cpp\<close>). The last three are the same program but for the command, the
  negotiation and what they print; here they are three instances of the same definitions. The lemmas
  show that observing packets stays inside the buffer and ends, that the parts exercise 27 has of its
  own agree with the shared header, and that all four programs reset the device before they give up
  its memory.
\<close>

section \<open>Options\<close>

text \<open>The options all four programs have, and the ones of the programs that observe packets afterwards.\<close>

record CtrlOptions =
  co_rx_queue :: u16
  co_tx_queue :: u16
  co_ctrl_queue :: u16
  co_queue_size :: "u16 option"
  co_iova :: u64
  co_align :: u64
  co_rx_buffers :: u16
  co_rx_buffer_size :: u64
  co_wait_ms :: u32
  co_yes :: bool

record ObserveOptions = CtrlOptions +
  co_stop_after :: u16
  co_dump_bytes :: u64
  co_match_ethertype :: "u16 option"
  co_dump_every_packet :: bool

record PromiscOptions = ObserveOptions +
  co_promisc :: bool

record MacAddrOptions = ObserveOptions +
  co_new_mac :: "u8 list"

record MacTableOptions = ObserveOptions +
  co_filter_mac :: "u8 list"

section \<open>Observing packets\<close>

definition rx_view_layout :: "CtrlqDmaLayout \<Rightarrow> DmaLayout" where
  "rx_view_layout l =
     \<lparr>dl_rx_vring = cl_rx_vring l, dl_tx_vring = cl_tx_vring l, dl_rx_vring_offset = cl_rx_vring_offset l,
      dl_tx_vring_offset = cl_tx_vring_offset l, dl_rx_buffers_offset = cl_rx_buffers_offset l,
      dl_rx_buffers_size = cl_rx_buffers_size l, dl_tx_packet_offset = 0, dl_tx_packet_size = 0,
      dl_tx_buffers_offset = 0, dl_tx_buffers_size = 0, dl_tx_buffer_size = 0, dl_total_size = cl_total_size l\<rparr>"

text \<open>The local variables the loop reads: the layout, the doorbell of the RX queue and its value.\<close>

record ObserveCtx =
  oc_layout :: DmaLayout
  oc_rx_notify :: NotifyWindow
  oc_rx_notify_value :: u16

text \<open>
  The ones it changes, and what it prints of each packet: destination, source and type of the
  Ethernet header.
\<close>

record ObserveState =
  os_last_rx_used_idx :: u16
  os_matched :: u16
  os_skipped :: u32
  os_seen :: "(u8 list \<times> u8 list \<times> u16) list"

definition recycle_observed :: "'w env \<Rightarrow> ObserveCtx \<Rightarrow> u32 \<Rightarrow> ('w st, unit) M" where
  "recycle_observed env c did =
     thenM (recycle_rx_buffer env (unat (dl_rx_vring_offset (oc_layout c))) (dl_rx_vring (oc_layout c)) (ucast did))
           (write_notify env (nw_mapping (oc_rx_notify c)) (nw_delta (oc_rx_notify c)) (oc_rx_notify_value c))"

text \<open>
  The body of the loop over the new used entries; the flag of the result is true when it ends with
  \<open>break\<close>. Exercise 28 also reads the length of the entry (\<open>read_len\<close>), which it does not use.
\<close>

definition observe_entry ::
  "'w env \<Rightarrow> bool \<Rightarrow> 'o ObserveOptions_scheme \<Rightarrow> ObserveCtx \<Rightarrow> nat \<Rightarrow> ObserveState \<Rightarrow> ('w st, bool \<times> ObserveState) M" where
  "observe_entry env read_len opt c i st =
     (let l = oc_layout c;
          b = unat (dl_rx_vring_offset l);
          used_slot = used_slot_of (dl_rx_vring l) (os_last_rx_used_idx st) i
      in bindM (used_elem_id env b (dl_rx_vring l) (unat used_slot)) (\<lambda>did.
         thenM (if read_len then bindM (used_elem_len env b (dl_rx_vring l) (unat used_slot)) (\<lambda>_. returnM ()) else returnM ())
        (bindM (read_rx_used_packet env b l used_slot (co_rx_buffers opt) (co_rx_buffer_size opt)
                  (co_match_ethertype opt)) (\<lambda>received.
         case received of
           None \<Rightarrow>
             thenM (if did < ucast (co_rx_buffers opt) then recycle_observed env c did else returnM ())
                   (returnM (False, st\<lparr>os_skipped := os_skipped st + 1\<rparr>))
         | Some p \<Rightarrow>
             let ethernet = rp_buffer p + unat kVirtioNetHeaderSize;
                 matched = os_matched st + 1
             in bindM (mac_from_bytes ethernet) (\<lambda>dst.
                bindM (mac_from_bytes (ethernet + 6)) (\<lambda>src.
                thenM (if (matched = 1 \<or> co_dump_every_packet opt) \<and> co_dump_bytes opt > 0
                       then bindM (print_virtio_net_rx_buffer (rp_buffer p) (ucast (rp_used_len p)) (co_dump_bytes opt)) (\<lambda>_. returnM ())
                       else returnM ())
               (thenM (recycle_observed env c (rp_desc_id p))
                      (returnM (matched \<ge> co_stop_after opt,
                         st\<lparr>os_matched := matched, os_seen := os_seen st @ [(dst, src, rp_ethertype p)]\<rparr>)))))))))"

primrec observe_entries ::
  "'w env \<Rightarrow> bool \<Rightarrow> 'o ObserveOptions_scheme \<Rightarrow> ObserveCtx \<Rightarrow> nat list \<Rightarrow> ObserveState \<Rightarrow> ('w st, ObserveState) M" where
  "observe_entries env read_len opt c [] st = returnM st"
| "observe_entries env read_len opt c (i # is) st =
     bindM (observe_entry env read_len opt c i st) (\<lambda>(brk, st').
     if brk then returnM st' else observe_entries env read_len opt c is st')"

text \<open>The main loop; one unit of fuel is one round.\<close>

primrec observe_loop ::
  "nat \<Rightarrow> 'w env \<Rightarrow> bool \<Rightarrow> 'o ObserveOptions_scheme \<Rightarrow> ObserveCtx \<Rightarrow> nat \<Rightarrow> ObserveState \<Rightarrow> ('w st, ObserveState) M" where
  "observe_loop 0 env read_len opt c deadline st = throwM OutOfFuel"
| "observe_loop (Suc fuel) env read_len opt c deadline st =
     (if \<not> os_matched st < co_stop_after opt then returnM st
      else bindM (now env) (\<lambda>t.
        if \<not> t < deadline then returnM st
        else bindM (read_used_idx env (unat (dl_rx_vring_offset (oc_layout c))) (dl_rx_vring (oc_layout c))) (\<lambda>current_rx_used.
             let count = used_delta (os_last_rx_used_idx st) current_rx_used
             in if count = 0
                then thenM (sleep_for env (ms 10)) (observe_loop fuel env read_len opt c deadline st)
                else bindM (observe_entries env read_len opt c [0..<unat count] st) (\<lambda>st'.
                     observe_loop fuel env read_len opt c deadline (st'\<lparr>os_last_rx_used_idx := current_rx_used\<rparr>)))))"

section \<open>The observation stays inside the buffer\<close>

text \<open>What holds of the counters and of the packets seen so far.\<close>

definition observe_ok :: "'o ObserveOptions_scheme \<Rightarrow> ObserveState \<Rightarrow> bool" where
  "observe_ok opt st \<longleftrightarrow> os_matched st \<le> co_stop_after opt \<and> length (os_seen st) = unat (os_matched st) \<and>
     (\<forall>(dst, src, ty) \<in> set (os_seen st). length dst = 6 \<and> length src = 6 \<and>
        (co_match_ethertype opt = None \<or> co_match_ethertype opt = Some ty))"

lemma mac_from_bytes_yields: "p + 6 \<le> n \<Longrightarrow> yields n (mac_from_bytes p) (\<lambda>mac. length mac = 6)"
  by (simp add: yields_def hoare_def mac_from_bytes_def load_def buffer_size_def)

lemma safe_recycle_observed:
  "env_ok env \<Longrightarrow> dma_area (oc_layout c) rxb rbs n \<Longrightarrow> safe (buffer_size n) (recycle_observed env c did)"
  unfolding recycle_observed_def
  by (intro safe_bindM safe_recycle_rx_buffer) (simp_all add: dma_area_def write_notify_def safe_rules)

lemma observe_entry_yields:
  assumes env: "env_ok env" and area: "dma_area (oc_layout c) (co_rx_buffers opt) (co_rx_buffer_size opt) n"
    and ok: "observe_ok opt st" and less: "os_matched st < co_stop_after opt"
  shows "yields n (observe_entry env read_len opt c i st)
    (\<lambda>(brk, st'). observe_ok opt st' \<and> (\<not> brk \<longrightarrow> os_matched st' < co_stop_after opt))"
proof -
  let ?Q = "\<lambda>(brk, st'). observe_ok opt st' \<and> (\<not> brk \<longrightarrow> os_matched st' < co_stop_after opt)"
  have q: "queue_at (unat (dl_rx_vring_offset (oc_layout c))) (dl_rx_vring (oc_layout c)) n"
    using area by (simp add: dma_area_def)
  have lt: "unat (os_matched st) + 1 < 65536"
    using less unat_u16_lt [of "co_stop_after opt"] by (simp add: word_less_nat_alt)
  then have succ: "unat (os_matched st + 1) = unat (os_matched st) + 1" by (subst unat_add_small) simp_all
  then have room: "os_matched st + 1 \<le> co_stop_after opt" "unat (os_matched st + 1) = unat (os_matched st) + 1"
    using less by (simp_all add: word_less_nat_alt word_le_nat_alt)
  have seen: "observe_ok opt (st\<lparr>os_matched := os_matched st + 1, os_seen := os_seen st @ [(dst, src, rp_ethertype p)]\<rparr>)"
    if "packet_ok (oc_layout c) (co_rx_buffers opt) (co_rx_buffer_size opt) (co_match_ethertype opt) p"
      "length dst = 6" "length src = 6" for p dst src
    using that ok room by (auto simp: observe_ok_def packet_ok_def)
  have inside: "rp_buffer p + unat (rp_used_len p) \<le> n" "26 \<le> unat (rp_used_len p)"
    if "packet_ok (oc_layout c) (co_rx_buffers opt) (co_rx_buffer_size opt) mt p" for p mt
    using that rx_buffer_at_bound [OF area, of "rp_desc_id p"] by (simp_all add: packet_ok_def)
  note elem = safe_used_elem [OF env q used_slot_in_ring [OF q]]
  have len: "safe (buffer_size n) (if read_len then bindM (used_elem_len env (unat (dl_rx_vring_offset (oc_layout c)))
      (dl_rx_vring (oc_layout c)) (unat (used_slot_of (dl_rx_vring (oc_layout c)) k i))) (\<lambda>_. returnM ()) else returnM ())" for k
    by (intro safe_if safe_bindM elem safe_returnM)
  show ?thesis
    unfolding observe_entry_def Let_def
  proof (rule yields_bind_safe [OF elem(1)], rule yields_bind_safe [OF len])
    fix did
    show "yields n (bindM (read_rx_used_packet env (unat (dl_rx_vring_offset (oc_layout c))) (oc_layout c)
        (used_slot_of (dl_rx_vring (oc_layout c)) (os_last_rx_used_idx st) i) (co_rx_buffers opt)
        (co_rx_buffer_size opt) (co_match_ethertype opt)) (\<lambda>received.
      case received of
        None \<Rightarrow> thenM (if did < ucast (co_rx_buffers opt) then recycle_observed env c did else returnM ())
          (returnM (False, st\<lparr>os_skipped := os_skipped st + 1\<rparr>))
      | Some p \<Rightarrow>
          bindM (mac_from_bytes (rp_buffer p + unat kVirtioNetHeaderSize)) (\<lambda>dst.
          bindM (mac_from_bytes (rp_buffer p + unat kVirtioNetHeaderSize + 6)) (\<lambda>src.
          thenM (if (os_matched st + 1 = 1 \<or> co_dump_every_packet opt) \<and> co_dump_bytes opt > 0
                 then bindM (print_virtio_net_rx_buffer (rp_buffer p) (ucast (rp_used_len p)) (co_dump_bytes opt)) (\<lambda>_. returnM ())
                 else returnM ())
         (thenM (recycle_observed env c (rp_desc_id p))
            (returnM (os_matched st + 1 \<ge> co_stop_after opt,
               st\<lparr>os_matched := os_matched st + 1, os_seen := os_seen st @ [(dst, src, rp_ethertype p)]\<rparr>))))))) ?Q"
    proof (rule yields_bindM [OF read_rx_used_packet_yields [OF env area used_slot_in_ring [OF q]]], goal_cases)
      case (1 received)
      show ?case
      proof (cases received)
        case None
        then show ?thesis
          using ok less by (auto simp: observe_ok_def intro!: yields_bind_safe safe_recycle_observed [OF env area] safe_rules yields_returnM)
      next
        case (Some p)
        with 1 have p: "packet_ok (oc_layout c) (co_rx_buffers opt) (co_rx_buffer_size opt) (co_match_ethertype opt) p"
          by simp
        from inside [OF p] have m: "rp_buffer p + unat kVirtioNetHeaderSize + 6 \<le> n"
            "rp_buffer p + unat kVirtioNetHeaderSize + 6 + 6 \<le> n"
            "rp_buffer p + unat (ucast (rp_used_len p) :: u64) \<le> n"
          by (simp_all add: kVirtioNetHeaderSize_def)
        show ?thesis
          unfolding Some option.case
          by (intro yields_bindM [OF mac_from_bytes_yields [OF m(1)]] yields_bindM [OF mac_from_bytes_yields [OF m(2)]]
              yields_bind_safe safe_if safe_bindM safe_print_rx_buffer [OF m(3)] safe_returnM
              safe_recycle_observed [OF env area] yields_returnM)
            (use seen [OF p] in \<open>auto simp: not_le\<close>)
      qed
    qed
  qed
qed

lemma observe_entries_yields:
  assumes env: "env_ok env" and area: "dma_area (oc_layout c) (co_rx_buffers opt) (co_rx_buffer_size opt) n"
  shows "observe_ok opt st \<Longrightarrow> os_matched st < co_stop_after opt \<Longrightarrow>
    yields n (observe_entries env read_len opt c is st) (observe_ok opt)"
proof (induction "is" arbitrary: st)
  case (Cons i "is")
  show ?case
    unfolding observe_entries.simps
    by (rule yields_bindM [OF observe_entry_yields [OF env area Cons.prems]])
      (intro yields_case_prod yields_if yields_returnM Cons.IH; simp)
qed (simp add: yields_returnM)

lemma observe_loop_yields:
  assumes env: "env_ok env" and area: "dma_area (oc_layout c) (co_rx_buffers opt) (co_rx_buffer_size opt) n"
  shows "observe_ok opt st \<Longrightarrow> yields n (observe_loop fuel env read_len opt c deadline st) (observe_ok opt)"
proof (induction fuel arbitrary: st)
  case 0
  show ?case by (simp add: yields_throwM)
next
  case (Suc fuel)
  have q: "queue_at (unat (dl_rx_vring_offset (oc_layout c))) (dl_rx_vring (oc_layout c)) n"
    using area by (simp add: dma_area_def)
  have keep: "observe_ok opt (st'\<lparr>os_last_rx_used_idx := k\<rparr>)" if "observe_ok opt st'" for st' k
    using that by (simp add: observe_ok_def)
  show ?case
  proof (cases "os_matched st < co_stop_after opt")
    case True
    show ?thesis
      unfolding observe_loop.simps Let_def
      by (intro yields_if yields_returnM yields_bind_safe [OF safe_now] yields_bind_safe [OF safe_sleep_for]
          yields_bind_safe [OF safe_read_used_idx [OF env q]] Suc.IH keep Suc.prems
          yields_bindM [OF observe_entries_yields [OF env area Suc.prems True]])
  qed (use Suc.prems in \<open>simp add: yields_returnM\<close>)
qed

text \<open>
  Observing packets is safe and exact: whatever the device does, the loop stays inside the buffer,
  counts no more packets than \<open>stop-after\<close>, and has shown one destination, source and type for each
  packet counted, of the ethertype asked for.
\<close>

theorem observe_loop_safe:
  assumes "env_ok env" and "dma_area (oc_layout c) (co_rx_buffers opt) (co_rx_buffer_size opt) (length (mem s))"
    and "observe_ok opt st" and "observe_loop fuel env read_len opt c deadline st s = (r, s')"
  shows "length (mem s') = length (mem s) \<and> (\<forall>e. r = Inl e \<longrightarrow> \<not> is_ub e) \<and> (\<forall>st'. r = Inr st' \<longrightarrow> observe_ok opt st')"
  using observe_loop_yields [OF assms(1-3), of fuel read_len deadline] assms(4)
  by (cases r) (auto simp: yields_def hoare_def buffer_size_def)

text \<open>An observation of 5 milliseconds in the area of 512 bytes, with a device that does nothing.\<close>

definition small_observe :: ObserveOptions where
  "small_observe = \<lparr>co_rx_queue = 0, co_tx_queue = 1, co_ctrl_queue = 2, co_queue_size = Some 4,
     co_iova = 0x100000000, co_align = 16, co_rx_buffers = 2, co_rx_buffer_size = 64, co_wait_ms = 5, co_yes = True,
     co_stop_after = 1, co_dump_bytes = 0, co_match_ethertype = Some 0x88b5, co_dump_every_packet = False\<rparr>"

definition small_observe_ctx :: ObserveCtx where
  "small_observe_ctx = \<lparr>oc_layout = small_area, oc_rx_notify = small_notify, oc_rx_notify_value = 0\<rparr>"

definition no_packets :: "u16 \<Rightarrow> ObserveState" where
  "no_packets last_rx = \<lparr>os_last_rx_used_idx = last_rx, os_matched = 0, os_skipped = 0, os_seen = []\<rparr>"

lemma no_packets_ok: "observe_ok opt (no_packets k)"
  by (simp add: observe_ok_def no_packets_def)

theorem observe_loop_safe_witness:
  "\<exists>r s'. observe_loop 10 quiet_env True small_observe small_observe_ctx 5000000 (no_packets 0) (quiet_st 512) = (r, s') \<and>
     length (mem s') = 512 \<and> (\<forall>e. r = Inl e \<longrightarrow> \<not> is_ub e)"
proof -
  obtain r s' where run: "observe_loop 10 quiet_env True small_observe small_observe_ctx 5000000 (no_packets 0)
      (quiet_st 512) = (r, s')" by fastforce
  have "dma_area (oc_layout small_observe_ctx) (co_rx_buffers small_observe) (co_rx_buffer_size small_observe)
      (length (mem (quiet_st 512)))"
    using small_area_ok by (simp add: small_observe_ctx_def small_observe_def quiet_st_def start_st_def)
  from observe_loop_safe [OF quiet_env_ok this no_packets_ok run] run show ?thesis
    by (auto simp: quiet_st_def start_st_def)
qed

section \<open>The observation ends\<close>

lemma ends_dump [ends_rules]:
  "ends (hex_dump_lines p k os)" "ends (print_hex_dump p sz mx)" "ends (print_ethernet_summary p sz)"
  "ends (le16_line name p)" "ends (print_virtio_net_rx_buffer p sz mx)"
proof -
  show *: "ends (hex_dump_lines p k os)" for p k os by (induction os) (simp_all add: ends_rules)
  show **: "ends (print_hex_dump p sz mx)" for p sz mx by (simp add: print_hex_dump_def Let_def ends_rules *)
  show eth: "ends (print_ethernet_summary p sz)" for p sz by (simp add: print_ethernet_summary_def ends_rules)
  show line: "ends (le16_line name p)" for name p by (simp add: le16_line_def ends_rules)
  show "ends (print_virtio_net_rx_buffer p sz mx)"
    by (simp add: print_virtio_net_rx_buffer_def Let_def ends_rules ** eth line)
qed

lemma ends_observe_entries [ends_rules]:
  "ends (observe_entry env read_len opt c i st)" "ends (observe_entries env read_len opt c is st)"
proof -
  show *: "ends (observe_entry env read_len opt c i st)" for i st
    by (simp add: observe_entry_def recycle_observed_def Let_def ends_rules)
  show "ends (observe_entries env read_len opt c is st)"
    by (induction "is" arbitrary: st) (simp_all add: ends_rules * split: prod.splits)
qed

text \<open>
  The observation ends: with a clock that moves between two readings it needs no more rounds than there are
  nanoseconds to the deadline.
\<close>

theorem observe_loop_ends:
  assumes "ticks env"
  shows "deadline < time s + fuel \<Longrightarrow> 0 < fuel \<Longrightarrow> fst (observe_loop fuel env read_len opt c deadline st s) \<noteq> Inl OutOfFuel"
proof (induction fuel arbitrary: st s)
  case (Suc fuel)
  obtain t s1 where t: "now env s = (Inr t, s1)" "time s \<le> t" "time s1 = t"
    "t = time s + fst (env_delay env (world s))" by (rule now_run)
  with assms have later: "time s < t" by (simp add: ticks_def)
  have again: "fst (observe_loop fuel env read_len opt c deadline st' s') \<noteq> Inl OutOfFuel"
    if "time s1 \<le> time s'" "t < deadline" for st' s'
    using Suc.IH [of s' st'] Suc.prems(1) that t(3) later by (cases fuel) simp_all
  show ?case
  proof (cases "os_matched st < co_stop_after opt \<and> t < deadline")
    case False
    with t(1) show ?thesis by (auto simp: bindM_def returnM_def)
  next
    case True
    obtain x s2 where x: "read_used_idx env (unat (dl_rx_vring_offset (oc_layout c))) (dl_rx_vring (oc_layout c)) s1 = (x, s2)"
      by fastforce
    note 2 = endsD [OF ends_read_used_idx x]
    obtain s3 where s3: "sleep_for env (ms 10) s2 = (Inr (), s3)" "time s2 + ms 10 \<le> time s3" by (rule sleep_run)
    show ?thesis
    proof (cases x)
      case (Inl e)
      with True t(1) x 2 show ?thesis by (simp add: bindM_def)
    next
      case (Inr current)
      obtain y s4 where y: "observe_entries env read_len opt c [0..<unat (used_delta (os_last_rx_used_idx st) current)] st s2 = (y, s4)"
        by fastforce
      note 4 = endsD [OF ends_observe_entries(2) y]
      have "fst (observe_loop fuel env read_len opt c deadline st s3) \<noteq> Inl OutOfFuel"
        "fst (observe_loop fuel env read_len opt c deadline (st'\<lparr>os_last_rx_used_idx := current\<rparr>) s4) \<noteq> Inl OutOfFuel" for st'
        using True 2(2) s3(2) 4(2) by (simp_all add: again)
      with True t(1) x Inr s3(1) y 4(1) show ?thesis
        by (cases y) (simp_all add: bindM_def Let_def)
    qed
  qed
qed simp

theorem observe_loop_ends_witness:
  "fst (observe_loop 5000001 quiet_env True small_observe small_observe_ctx 5000000 (no_packets 0) (quiet_st 512)) \<noteq> Inl OutOfFuel"
  by (rule observe_loop_ends) (simp_all add: ticks_def quiet_env_def quiet_st_def start_st_def)

section \<open>The programs\<close>

text \<open>The three queues are enabled in the order RX, TX, control; then the doorbells of RX and control are mapped.\<close>

definition enable_queues ::
  "'w env \<Rightarrow> 'o CtrlOptions_scheme \<Rightarrow> MappedRegion \<Rightarrow> u64 \<Rightarrow> VirtioCap \<Rightarrow> RegionInfo \<Rightarrow> VringLayout \<Rightarrow> u64 \<Rightarrow>
     VringLayout \<Rightarrow> u64 \<Rightarrow> VringLayout \<Rightarrow> u64 \<Rightarrow> ('w st, NotifyWindow \<times> u16 \<times> NotifyWindow \<times> u16) M" where
  "enable_queues env opt m d notify notify_region rx_vring rx_queue_iova tx_vring tx_queue_iova ctrl_vring ctrl_queue_iova =
     bindM (program_and_enable_queue env m d (co_rx_queue opt) rx_vring rx_queue_iova ''RX queue'') (\<lambda>rx_after.
     thenM (program_and_enable_queue env m d (co_tx_queue opt) tx_vring tx_queue_iova ''TX queue'')
    (bindM (program_and_enable_queue env m d (co_ctrl_queue opt) ctrl_vring ctrl_queue_iova ''control queue'') (\<lambda>ctrl_after.
     bindM (map_notify_window env notify notify_region (qv_notify_off rx_after)) (\<lambda>rx_notify.
     bindM (map_notify_window env notify notify_region (qv_notify_off ctrl_after)) (\<lambda>ctrl_notify.
     returnM (rx_notify, qv_selected rx_after, ctrl_notify, qv_selected ctrl_after))))))"

definition ring_doorbell :: "'w env \<Rightarrow> NotifyWindow \<Rightarrow> u16 \<Rightarrow> ('w st, unit) M" where
  "ring_doorbell env window v = write_notify env (nw_mapping window) (nw_delta window) v"

text \<open>
  From the publication of the RX buffers to the unmapping. \<open>publish\<close> is the control command, and
  \<open>after_ack\<close> what the program does between the ACK and the observation.
\<close>

definition observe_datapath ::
  "nat \<Rightarrow> 'w env \<Rightarrow> bool \<Rightarrow> (nat \<Rightarrow> CtrlqDmaLayout \<Rightarrow> u64 \<Rightarrow> ('w st, unit) M) \<Rightarrow> ('w st, unit) M \<Rightarrow>
     'o ObserveOptions_scheme \<Rightarrow> ConfigRegion \<Rightarrow> u16 \<Rightarrow> MappedRegion \<Rightarrow> u64 \<Rightarrow> u16 \<Rightarrow> VirtioCap \<Rightarrow> RegionInfo \<Rightarrow>
     CtrlqDmaLayout \<Rightarrow> ('w st, ObserveState) M" where
  "observe_datapath fuel env read_len publish after_ack opt config original_command m d original_select notify
     notify_region layout =
     (let rx_queue_base = unat (cl_rx_vring_offset layout);
          tx_queue_base = unat (cl_tx_vring_offset layout);
          ctrl_queue_base = unat (cl_ctrl_vring_offset layout)
      in thenM (publish_rx_buffers rx_queue_base (cl_rx_vring layout) (co_iova opt + cl_rx_buffers_offset layout)
                  (co_rx_buffers opt) (co_rx_buffer_size opt))
        (thenM (vload16 env (vring_avail_idx rx_queue_base (cl_rx_vring layout)))
        (thenM (read_used_idx env rx_queue_base (cl_rx_vring layout))
        (thenM (read_used_idx env tx_queue_base (cl_tx_vring layout))
        (thenM (publish ctrl_queue_base layout (co_iova opt))
        (thenM (vload16 env (vring_avail_idx ctrl_queue_base (cl_ctrl_vring layout)))
        (thenM (read_used_idx env ctrl_queue_base (cl_ctrl_vring layout))
        (bindM (enable_queues env opt m d notify notify_region
                  (cl_rx_vring layout) (co_iova opt + cl_rx_vring_offset layout)
                  (cl_tx_vring layout) (co_iova opt + cl_tx_vring_offset layout)
                  (cl_ctrl_vring layout) (co_iova opt + cl_ctrl_vring_offset layout))
           (\<lambda>(rx_notify, rx_notify_value, ctrl_notify, ctrl_notify_value).
         bindM (read_used_idx env ctrl_queue_base (cl_ctrl_vring layout)) (\<lambda>ctrl_used_base_idx.
         bindM (read_used_idx env rx_queue_base (cl_rx_vring layout)) (\<lambda>last_rx_used_idx.
         thenM (set_driver_ok env m d)
        (thenM (read_status env m d)
        (thenM (ring_doorbell env rx_notify rx_notify_value)
        (thenM (ring_doorbell env ctrl_notify ctrl_notify_value)
        (bindM (wait_for_control_ack env ctrl_queue_base layout ctrl_used_base_idx (co_wait_ms opt)) (\<lambda>ack.
         thenM (throw_ifM (ack \<noteq> kVirtioNetOk) (RuntimeError ''control command did not return VIRTIO_NET_OK''))
        (thenM after_ack
        (bindM (now env) (\<lambda>t.
         bindM (observe_loop fuel env read_len opt
                  \<lparr>oc_layout = rx_view_layout layout, oc_rx_notify = rx_notify, oc_rx_notify_value = rx_notify_value\<rparr>
                  (t + ms (unat (co_wait_ms opt))) (no_packets last_rx_used_idx)) (\<lambda>st.
         thenM (vload16 env (vring_avail_idx rx_queue_base (cl_rx_vring layout)))
        (thenM (read_used_idx env rx_queue_base (cl_rx_vring layout))
        (thenM (read_status env m d)
               (clean_up env config original_command m d original_select (co_iova opt) (cl_total_size layout) st)))))))))))))))))))))))"

text \<open>From the checks of the queue numbers to the DMA area; \<open>data_size\<close> is the size of the command's data.\<close>

definition ctrl_queue_scope ::
  "'w env \<Rightarrow> 'o CtrlOptions_scheme \<Rightarrow> (u16 \<Rightarrow> unit res) \<Rightarrow> u64 res \<Rightarrow> MappedRegion \<Rightarrow> u64 \<Rightarrow> u16 \<Rightarrow>
     (CtrlqDmaLayout \<Rightarrow> ('w st, 'a) M) \<Rightarrow> ('w st, 'a) M" where
  "ctrl_queue_scope env opt check_ctrl_size data_size m d original_select run =
     with_selection env m d original_select
      (bindM (size_queue env m d (co_rx_queue opt) (co_queue_size opt) ''RX queue'') (\<lambda>rx_queue_size.
       bindM (size_queue env m d (co_tx_queue opt) (co_queue_size opt) ''TX queue'') (\<lambda>tx_queue_size.
       bindM (size_queue env m d (co_ctrl_queue opt) (co_queue_size opt) ''control queue'') (\<lambda>ctrl_queue_size.
       thenM (liftR (check_ctrl_size ctrl_queue_size))
      (bindM (liftR (bindR data_size (compute_ctrlq_dma_layout (env_page_size env) rx_queue_size tx_queue_size
           ctrl_queue_size (co_align opt) (co_rx_buffers opt) (co_rx_buffer_size opt)))) (\<lambda>layout.
       with_dma env (co_iova opt) (cl_total_size layout) m d (run layout)))))))"

text \<open>The negotiation, the configuration and the checks of the queue numbers.\<close>

definition ctrl_checks :: "'o CtrlOptions_scheme \<Rightarrow> u16 \<Rightarrow> unit res" where
  "ctrl_checks opt num_queues =
     bindR (throw_if (co_rx_queue opt \<ge> num_queues) (RuntimeError ''RX queue index is outside num_queues'')) (\<lambda>_.
     bindR (throw_if (co_tx_queue opt \<ge> num_queues) (RuntimeError ''TX queue index is outside num_queues'')) (\<lambda>_.
     bindR (throw_if (co_ctrl_queue opt \<ge> num_queues) (RuntimeError ''control queue index is outside num_queues'')) (\<lambda>_.
     throw_if (co_rx_queue opt = co_tx_queue opt \<or> co_rx_queue opt = co_ctrl_queue opt \<or> co_tx_queue opt = co_ctrl_queue opt)
       (RuntimeError ''RX, TX, and control queues must be different''))))"

definition ctrl_device_scope ::
  "'w env \<Rightarrow> 'o CtrlOptions_scheme \<Rightarrow> (MappedRegion \<Rightarrow> u64 \<Rightarrow> ('w st, 'g) M) \<Rightarrow>
     (MappedRegion \<Rightarrow> u64 \<Rightarrow> u16 \<Rightarrow> ('w st, VirtioNetConfigView) M \<Rightarrow> VirtioCap \<Rightarrow> RegionInfo \<Rightarrow> ('w st, 'a) M) \<Rightarrow>
     ConfigRegion \<Rightarrow> u16 \<Rightarrow> ('w st, 'a) M" where
  "ctrl_device_scope env opt negotiate_features queue_scope config original_command =
     with_virtio env config original_command (\<lambda>m d dm dd notify notify_region device_cfg.
     thenM (negotiate_features m d)
    (thenM (read_virtio_net_config env dm dd (vc_length device_cfg))
    (bindM (read16 env m (d + VIRTIO_PCI_COMMON_NUMQ)) (\<lambda>num_queues.
     bindM (read16 env m (d + VIRTIO_PCI_COMMON_Q_SELECT)) (\<lambda>original_select.
     thenM (liftR (ctrl_checks opt num_queues))
       (queue_scope m d original_select (read_virtio_net_config env dm dd (vc_length device_cfg)) notify notify_region))))))"

section \<open>Exercises 28, 29 and 30\<close>

definition promisc_datapath where
  "promisc_datapath fuel env opt config original_command m d sel notify notify_region =
     observe_datapath fuel env True
       (\<lambda>ctrl_queue_base layout iova. publish_rx_promisc_control_command ctrl_queue_base layout iova (co_promisc opt))
       (returnM ()) opt config original_command m d sel notify notify_region"

definition promisc_device_scope where
  "promisc_device_scope fuel env opt config original_command =
     ctrl_device_scope env opt (negotiate_ctrl_rx_features env)
       (\<lambda>m d sel read_config notify notify_region.
          ctrl_queue_scope env opt (\<lambda>_. Inr ()) (Inr kVirtioNetCtrlStateSize) m d sel
            (promisc_datapath fuel env opt config original_command m d sel notify notify_region))
       config original_command"

definition run_promisc_observe ::
  "nat \<Rightarrow> 'w env \<Rightarrow> PromiscOptions \<Rightarrow> ('w st, ObserveState) M" where
  "run_promisc_observe fuel env opt =
     with_iova_check env (co_iova opt) (with_pci env (promisc_device_scope fuel env opt))"

definition mac_addr_datapath where
  "mac_addr_datapath fuel env opt config original_command m d sel read_config notify notify_region =
     observe_datapath fuel env False
       (\<lambda>ctrl_queue_base layout iova. publish_mac_addr_control_command ctrl_queue_base layout iova (co_new_mac opt))
       (thenM read_config (returnM ())) opt config original_command m d sel notify notify_region"

definition mac_addr_device_scope where
  "mac_addr_device_scope fuel env opt config original_command =
     ctrl_device_scope env opt (negotiate_ctrl_mac_addr_features env)
       (\<lambda>m d sel read_config notify notify_region.
          ctrl_queue_scope env opt (\<lambda>_. Inr ()) (Inr kVirtioNetCtrlMacAddrSize) m d sel
            (mac_addr_datapath fuel env opt config original_command m d sel read_config notify notify_region))
       config original_command"

definition run_mac_addr_sample ::
  "nat \<Rightarrow> 'w env \<Rightarrow> MacAddrOptions \<Rightarrow> ('w st, ObserveState) M" where
  "run_mac_addr_sample fuel env opt =
     with_iova_check env (co_iova opt) (with_pci env (mac_addr_device_scope fuel env opt))"

definition mac_table_datapath where
  "mac_table_datapath fuel env opt config original_command m d sel read_config notify notify_region =
     observe_datapath fuel env False
       (\<lambda>ctrl_queue_base layout iova. publish_mac_table_control_command ctrl_queue_base layout iova (co_filter_mac opt))
       (thenM read_config (returnM ())) opt config original_command m d sel notify notify_region"

definition check_table_queue :: "u16 \<Rightarrow> unit res" where
  "check_table_queue ctrl_queue_size =
     throw_if (ctrl_queue_size < 4) (RuntimeError ''control queue-size must be at least 4 for MAC_TABLE_SET'')"

definition mac_table_device_scope where
  "mac_table_device_scope fuel env opt config original_command =
     ctrl_device_scope env opt (negotiate_ctrl_rx_features env)
       (\<lambda>m d sel read_config notify notify_region.
          ctrl_queue_scope env opt check_table_queue (mac_table_control_data_size 1 0) m d sel
            (mac_table_datapath fuel env opt config original_command m d sel read_config notify notify_region))
       config original_command"

definition run_mac_table_sample ::
  "nat \<Rightarrow> 'w env \<Rightarrow> MacTableOptions \<Rightarrow> ('w st, ObserveState) M" where
  "run_mac_table_sample fuel env opt =
     with_iova_check env (co_iova opt) (with_pci env (mac_table_device_scope fuel env opt))"

section \<open>What the programs do to the outside\<close>

lemma adds_commands [adds_rules]:
  "adds P (publish_rx_promisc_control_command b l iova p)"
  "adds P (publish_mac_addr_control_command b l iova mac)"
  "adds P (publish_mac_table_control_command b l iova mac)"
  by (simp_all add: publish_rx_promisc_control_command_def publish_mac_addr_control_command_def
      publish_mac_table_control_command_def offer_chain_def Let_def adds_rules)

lemma adds_wait_used_loop [adds_rules]: "adds P (wait_used_loop fuel env b l enough dl)"
  by (induction fuel) (simp_all add: adds_rules)

lemma adds_wait_used [adds_rules]: "adds P (wait_used env b l enough wait_ms)"
  by (simp add: wait_used_def adds_rules)

lemma adds_used_entries [adds_rules]: "adds P (used_entries env b l i is)"
  by (induction "is") (simp_all add: Let_def adds_rules)

lemma adds_wait_for_control_ack [adds_rules]: "adds P (wait_for_control_ack env b l i wait_ms)"
  by (simp add: wait_for_control_ack_def print_used_entries_def Let_def adds_rules)

lemma adds_dump [adds_rules]:
  "adds P (hex_dump_lines p k os)" "adds P (print_hex_dump p sz mx)" "adds P (print_ethernet_summary p sz)"
  "adds P (le16_line name p)" "adds P (print_virtio_net_rx_buffer p sz mx)"
proof -
  show *: "adds P (hex_dump_lines p k os)" for p k os by (induction os) (simp_all add: adds_rules)
  show **: "adds P (print_hex_dump p sz mx)" for p sz mx by (simp add: print_hex_dump_def Let_def adds_rules *)
  show eth: "adds P (print_ethernet_summary p sz)" for p sz by (simp add: print_ethernet_summary_def adds_rules)
  show line: "adds P (le16_line name p)" for name p by (simp add: le16_line_def adds_rules)
  show "adds P (print_virtio_net_rx_buffer p sz mx)"
    by (simp add: print_virtio_net_rx_buffer_def Let_def adds_rules ** eth line)
qed

lemma adds_observe [adds_rules]:
  "adds harmless (observe_entry env rl opt c i st)" "adds harmless (observe_entries env rl opt c is st)"
  "adds harmless (observe_loop fuel env rl opt c dl st)"
proof -
  show *: "adds harmless (observe_entry env rl opt c i st)" for i st
    by (simp add: observe_entry_def recycle_observed_def Let_def adds_rules)
  show **: "adds harmless (observe_entries env rl opt c is st)" for "is" st
    by (induction "is" arbitrary: st) (simp_all add: adds_rules *)
  show "adds harmless (observe_loop fuel env rl opt c dl st)"
    by (induction fuel arbitrary: st) (simp_all add: adds_rules Let_def **)
qed

lemma adds_enable_queues [adds_rules]: "adds harmless (enable_queues env opt m d notify region rv ri tv ti cv ci)"
  by (simp add: enable_queues_def adds_rules)

section \<open>The device is reset before its memory goes\<close>

lemma observe_datapath_guarded:
  assumes "has_status m d" and "\<And>b l iova. adds harmless (publish b l iova)" and "adds harmless after_ack"
  shows "hoare (phase True False False)
    (observe_datapath fuel env rl publish after_ack opt config cmd m d sel notify region layout)
    (\<lambda>_. guarded) (\<lambda>_. guarded)"
  unfolding observe_datapath_def Let_def
  by (intro armed_step hoare_case_prod clean_up_guarded [OF assms(1)])
    (simp_all add: adds_rules assms(2,3) ring_doorbell_def)

section \<open>Exercise 27\<close>

text \<open>The program of exercise 27 was written before the shared header had a control queue; it has a layout, a negotiation and a command of its own.\<close>

definition kCtrlHdrSize :: u64 where "kCtrlHdrSize = 2"
definition kCtrlStateSize :: u64 where "kCtrlStateSize = 1"
definition kCtrlAckSize :: u64 where "kCtrlAckSize = 1"
definition kCtrlAckInitial :: u8 where "kCtrlAckInitial = 0xff"

record ControlOptions = CtrlOptions +
  cn_promisc :: bool

record ControlDmaLayout =
  cd_rx_vring :: VringLayout
  cd_tx_vring :: VringLayout
  cd_ctrl_vring :: VringLayout
  cd_rx_vring_offset :: u64
  cd_tx_vring_offset :: u64
  cd_ctrl_vring_offset :: u64
  cd_rx_buffers_offset :: u64
  cd_rx_buffers_size :: u64
  cd_ctrl_command_offset :: u64
  cd_ctrl_hdr_offset :: u64
  cd_ctrl_state_offset :: u64
  cd_ctrl_ack_offset :: u64
  cd_total_size :: u64

definition compute_control_dma_layout ::
  "int \<Rightarrow> u16 \<Rightarrow> u16 \<Rightarrow> u16 \<Rightarrow> u64 \<Rightarrow> u16 \<Rightarrow> u64 \<Rightarrow> ControlDmaLayout res" where
  "compute_control_dma_layout page_size rx_queue_size tx_queue_size ctrl_queue_size align rx_buffers rx_buffer_size =
     bindR (throw_if (rx_buffers = 0) (RuntimeError ''rx-buffers must be greater than 0'')) (\<lambda>_.
     bindR (throw_if (rx_buffers > rx_queue_size)
       (RuntimeError (''rx-buffers must not exceed RX queue_size '' @ to_string (unat rx_queue_size)))) (\<lambda>_.
     bindR (throw_if (rx_buffer_size = 0) (RuntimeError ''rx-buffer-size must be greater than 0'')) (\<lambda>_.
     bindR (throw_if (ctrl_queue_size < 3)
       (RuntimeError ''control queue-size must be at least 3 for this descriptor chain'')) (\<lambda>_.
     bindR (compute_vring_layout rx_queue_size align) (\<lambda>rx_vring.
     bindR (compute_vring_layout tx_queue_size align) (\<lambda>tx_vring.
     bindR (compute_vring_layout ctrl_queue_size align) (\<lambda>ctrl_vring.
     bindR (round_up_to_page page_size (vl_total_size rx_vring)) (\<lambda>tx_vring_offset.
     bindR (bindR (checked_add tx_vring_offset (vl_total_size tx_vring) ''TX vring end'') (round_up_to_page page_size)) (\<lambda>ctrl_vring_offset.
     bindR (bindR (checked_add ctrl_vring_offset (vl_total_size ctrl_vring) ''control vring end'') (round_up_to_page page_size)) (\<lambda>rx_buffers_offset.
     bindR (checked_mul (ucast rx_buffers) rx_buffer_size ''RX buffer area'') (\<lambda>rx_buffers_size.
     bindR (bindR (checked_add rx_buffers_offset rx_buffers_size ''RX buffer area end'') (round_up_to_page page_size)) (\<lambda>ctrl_command_offset.
     let ctrl_hdr_offset = ctrl_command_offset;
         ctrl_state_offset = ctrl_hdr_offset + kCtrlHdrSize;
         ctrl_ack_offset = ctrl_state_offset + kCtrlStateSize
     in bindR (bindR (checked_add ctrl_ack_offset kCtrlAckSize ''control command area'') (round_up_to_page page_size)) (\<lambda>total_size.
     Inr \<lparr>cd_rx_vring = rx_vring, cd_tx_vring = tx_vring, cd_ctrl_vring = ctrl_vring, cd_rx_vring_offset = 0,
          cd_tx_vring_offset = tx_vring_offset, cd_ctrl_vring_offset = ctrl_vring_offset,
          cd_rx_buffers_offset = rx_buffers_offset, cd_rx_buffers_size = rx_buffers_size,
          cd_ctrl_command_offset = ctrl_command_offset, cd_ctrl_hdr_offset = ctrl_hdr_offset,
          cd_ctrl_state_offset = ctrl_state_offset, cd_ctrl_ack_offset = ctrl_ack_offset,
          cd_total_size = total_size\<rparr>)))))))))))))"

definition negotiate_control_features :: "'w env \<Rightarrow> MappedRegion \<Rightarrow> u64 \<Rightarrow> ('w st, u32 list) M" where
  "negotiate_control_features env mapping mapping_delta =
     thenM (reset_device env mapping mapping_delta)
    (thenM (write_status env mapping mapping_delta VIRTIO_CONFIG_S_ACKNOWLEDGE)
    (thenM (read_status env mapping mapping_delta)
    (thenM (write_status env mapping mapping_delta (VIRTIO_CONFIG_S_ACKNOWLEDGE OR VIRTIO_CONFIG_S_DRIVER))
    (thenM (read_status env mapping mapping_delta)
    (bindM (read_feature_words env mapping mapping_delta VIRTIO_PCI_COMMON_DFSELECT VIRTIO_PCI_COMMON_DF kFeatureWords) (\<lambda>device_features.
     thenM (throw_ifM (\<not> feature_is_set (fw_words device_features) VIRTIO_NET_F_CTRL_VQ)
       (RuntimeError ''device does not offer VIRTIO_NET_F_CTRL_VQ; no control virtqueue''))
    (thenM (throw_ifM (\<not> feature_is_set (fw_words device_features) VIRTIO_NET_F_CTRL_RX)
       (RuntimeError ''device does not offer VIRTIO_NET_F_CTRL_RX; cannot send RX mode control commands''))
    (bindM (liftR (minimal_guest_features (fw_words device_features))) (\<lambda>guest_features.
     bindM (liftR (set_feature guest_features VIRTIO_NET_F_CTRL_VQ)) (\<lambda>guest_features.
     bindM (liftR (set_feature guest_features VIRTIO_NET_F_CTRL_RX)) (\<lambda>guest_features.
     thenM (write_guest_feature_words env mapping mapping_delta guest_features)
    (thenM (write_status env mapping mapping_delta
              (VIRTIO_CONFIG_S_ACKNOWLEDGE OR VIRTIO_CONFIG_S_DRIVER OR VIRTIO_CONFIG_S_FEATURES_OK))
    (bindM (read_status env mapping mapping_delta) (\<lambda>after_features_ok.
     thenM (throw_ifM (after_features_ok AND VIRTIO_CONFIG_S_FEATURES_OK = 0)
       (RuntimeError ''device rejected FEATURES_OK''))
       (returnM guest_features)))))))))))))))"

definition publish_promisc_control_command ::
  "nat \<Rightarrow> ControlDmaLayout \<Rightarrow> u64 \<Rightarrow> bool \<Rightarrow> ('w st, unit) M" where
  "publish_promisc_control_command ctrl_queue_base layout base_iova promisc =
     (let header = unat (cd_ctrl_hdr_offset layout);
          state = unat (cd_ctrl_state_offset layout);
          ack = unat (cd_ctrl_ack_offset layout);
          desc = vring_descs ctrl_queue_base (cd_ctrl_vring layout)
      in thenM (store header [kVirtioNetCtrlRx])
        (thenM (store (header + 1) [kVirtioNetCtrlRxPromisc])
        (thenM (store state [if promisc then 1 else 0])
        (thenM (store ack [kCtrlAckInitial])
        (thenM (store_desc desc 0 (base_iova + cd_ctrl_hdr_offset layout) (ucast kCtrlHdrSize) kVringDescFNext 1)
        (thenM (store_desc desc 1 (base_iova + cd_ctrl_state_offset layout) (ucast kCtrlStateSize) kVringDescFNext 2)
        (thenM (store_desc desc 2 (base_iova + cd_ctrl_ack_offset layout) (ucast kCtrlAckSize) kVringDescFWrite 0)
        (thenM (store16 (vring_avail_ring ctrl_queue_base (cd_ctrl_vring layout)) 0)
               (store16 (vring_avail_idx ctrl_queue_base (cd_ctrl_vring layout)) 1)))))))))"

text \<open>From the end of the wait to the report of the ACK byte, which is the result here.\<close>

definition read_control_result ::
  "'w env \<Rightarrow> ControlDmaLayout \<Rightarrow> u16 \<Rightarrow> ('w st, u8) M" where
  "read_control_result env layout ctrl_used_base_idx =
     (let b = unat (cd_ctrl_vring_offset layout); vr = cd_ctrl_vring layout
      in bindM (read_used_idx env b vr) (\<lambda>ctrl_used_after_wait.
         thenM (if used_delta ctrl_used_base_idx ctrl_used_after_wait \<ge> 1
                then let used_slot = ctrl_used_base_idx mod vl_queue_size vr
                     in thenM (used_elem_id env b vr (unat used_slot))
                       (thenM (used_elem_len env b vr (unat used_slot)) (returnM ()))
                else returnM ())
        (bindM (vload env (unat (cd_ctrl_ack_offset layout)) 1) (\<lambda>bs. returnM (hd bs)))))"

definition control_datapath ::
  "'w env \<Rightarrow> ControlOptions \<Rightarrow> ConfigRegion \<Rightarrow> u16 \<Rightarrow> MappedRegion \<Rightarrow> u64 \<Rightarrow> u16 \<Rightarrow> VirtioCap \<Rightarrow> RegionInfo \<Rightarrow>
     ControlDmaLayout \<Rightarrow> ('w st, u8) M" where
  "control_datapath env opt config original_command m d original_select notify notify_region layout =
     (let rx_queue_base = unat (cd_rx_vring_offset layout);
          tx_queue_base = unat (cd_tx_vring_offset layout);
          ctrl_queue_base = unat (cd_ctrl_vring_offset layout)
      in thenM (publish_rx_buffers rx_queue_base (cd_rx_vring layout) (co_iova opt + cd_rx_buffers_offset layout)
                  (co_rx_buffers opt) (co_rx_buffer_size opt))
        (thenM (vload16 env (vring_avail_idx rx_queue_base (cd_rx_vring layout)))
        (thenM (read_used_idx env rx_queue_base (cd_rx_vring layout))
        (thenM (read_used_idx env tx_queue_base (cd_tx_vring layout))
        (thenM (publish_promisc_control_command ctrl_queue_base layout (co_iova opt) (cn_promisc opt))
        (thenM (vload16 env (vring_avail_idx ctrl_queue_base (cd_ctrl_vring layout)))
        (thenM (read_used_idx env ctrl_queue_base (cd_ctrl_vring layout))
        (bindM (enable_queues env opt m d notify notify_region
                  (cd_rx_vring layout) (co_iova opt + cd_rx_vring_offset layout)
                  (cd_tx_vring layout) (co_iova opt + cd_tx_vring_offset layout)
                  (cd_ctrl_vring layout) (co_iova opt + cd_ctrl_vring_offset layout))
           (\<lambda>(rx_notify, rx_notify_value, ctrl_notify, ctrl_notify_value).
         bindM (read_used_idx env ctrl_queue_base (cd_ctrl_vring layout)) (\<lambda>ctrl_used_base_idx.
         thenM (set_driver_ok env m d)
        (thenM (read_status env m d)
        (thenM (ring_doorbell env rx_notify rx_notify_value)
        (thenM (ring_doorbell env ctrl_notify ctrl_notify_value)
        (thenM (wait_used env ctrl_queue_base (cd_ctrl_vring layout)
                  (\<lambda>current. used_delta ctrl_used_base_idx current \<ge> 1) (co_wait_ms opt))
        (bindM (read_control_result env layout ctrl_used_base_idx) (\<lambda>ack.
         thenM (read_status env m d)
               (clean_up env config original_command m d original_select (co_iova opt) (cd_total_size layout) ack)))))))))))))))))"

definition control_queue_scope where
  "control_queue_scope env opt config original_command m d original_select notify notify_region =
     with_selection env m d original_select
      (bindM (size_queue env m d (co_rx_queue opt) (co_queue_size opt) ''RX queue'') (\<lambda>rx_queue_size.
       bindM (size_queue env m d (co_tx_queue opt) (co_queue_size opt) ''TX queue'') (\<lambda>tx_queue_size.
       bindM (size_queue env m d (co_ctrl_queue opt) (co_queue_size opt) ''control queue'') (\<lambda>ctrl_queue_size.
       bindM (liftR (compute_control_dma_layout (env_page_size env) rx_queue_size tx_queue_size ctrl_queue_size
           (co_align opt) (co_rx_buffers opt) (co_rx_buffer_size opt))) (\<lambda>layout.
       with_dma env (co_iova opt) (cd_total_size layout) m d
         (control_datapath env opt config original_command m d original_select notify notify_region layout))))))"

definition control_device_scope where
  "control_device_scope env opt config original_command =
     ctrl_device_scope env opt (negotiate_control_features env)
       (\<lambda>m d sel read_config notify notify_region.
          control_queue_scope env opt config original_command m d sel notify notify_region)
       config original_command"

definition run_control_command :: "'w env \<Rightarrow> ControlOptions \<Rightarrow> ('w st, u8) M" where
  "run_control_command env opt = with_iova_check env (co_iova opt) (with_pci env (control_device_scope env opt))"

section \<open>Exercise 27 and the shared header agree\<close>

definition control_view :: "CtrlqDmaLayout \<Rightarrow> ControlDmaLayout" where
  "control_view l =
     \<lparr>cd_rx_vring = cl_rx_vring l, cd_tx_vring = cl_tx_vring l, cd_ctrl_vring = cl_ctrl_vring l,
      cd_rx_vring_offset = cl_rx_vring_offset l, cd_tx_vring_offset = cl_tx_vring_offset l,
      cd_ctrl_vring_offset = cl_ctrl_vring_offset l, cd_rx_buffers_offset = cl_rx_buffers_offset l,
      cd_rx_buffers_size = cl_rx_buffers_size l, cd_ctrl_command_offset = cl_ctrl_command_offset l,
      cd_ctrl_hdr_offset = cl_ctrl_hdr_offset l, cd_ctrl_state_offset = cl_ctrl_data_offset l,
      cd_ctrl_ack_offset = cl_ctrl_ack_offset l, cd_total_size = cl_total_size l\<rparr>"

lemma bindR_assoc: "bindR (bindR m f) g = bindR m (\<lambda>x. bindR (f x) g)"
  by (cases m) simp_all

lemma map_sum_bindR: "map_sum id g (bindR m f) = bindR m (\<lambda>x. map_sum id g (f x))"
  by (cases m) simp_all

lemma liftR_bindR: "liftR (bindR m f) = bindM (liftR m) (\<lambda>x. liftR (f x))"
  by (rule ext) (cases m; simp add: liftR_def bindM_def)

lemma liftR_throw_if: "liftR (throw_if b e) = throw_ifM b e"
  by (simp add: throw_ifM_def throw_if_def liftR_def throwM_def returnM_def)

lemma control_layout_eq:
  "compute_control_dma_layout ps rxq txq cq al rxb rbs =
     map_sum id control_view (compute_ctrlq_dma_layout ps rxq txq cq al rxb rbs kVirtioNetCtrlStateSize)"
proof -
  note sizes = kVirtioNetCtrlStateSize_def kVirtioNetCtrlHdrSize_def kVirtioNetCtrlAckSize_def kCtrlHdrSize_def
    kCtrlStateSize_def kCtrlAckSize_def
  have "throw_if (kVirtioNetCtrlStateSize = 0) e = Inr ()" "throw_if (kVirtioNetCtrlStateSize > 0xffffffff) e = Inr ()" for e
    by (simp_all add: kVirtioNetCtrlStateSize_def)
  then show ?thesis
    unfolding compute_control_dma_layout_def compute_ctrlq_dma_layout_def check_rx_buffers_def Let_def
    by (simp add: map_sum_bindR bindR_assoc control_view_def sizes)
qed

lemma control_negotiation_eq: "negotiate_control_features = negotiate_ctrl_rx_features"
  by (intro ext)
    (simp add: negotiate_control_features_def negotiate_ctrl_rx_features_def negotiate_def ctrl_rx_guest_features_def
      liftR_bindR liftR_throw_if bindM_assoc)

lemma control_sizes:
  "kCtrlStateSize = kVirtioNetCtrlStateSize" "kCtrlHdrSize = kVirtioNetCtrlHdrSize"
  "kCtrlAckSize = kVirtioNetCtrlAckSize" "kCtrlAckInitial = kVirtioNetCtrlAckInitial"
  by (simp_all add: kVirtioNetCtrlStateSize_def kVirtioNetCtrlHdrSize_def kVirtioNetCtrlAckSize_def
      kVirtioNetCtrlAckInitial_def kCtrlHdrSize_def kCtrlStateSize_def kCtrlAckSize_def kCtrlAckInitial_def)

lemma control_command_eq:
  "kVirtioNetCtrlStateSize \<le> cl_ctrl_data_size l \<Longrightarrow>
     publish_promisc_control_command b (control_view l) iova p = publish_rx_promisc_control_command b l iova p"
  by (simp add: publish_promisc_control_command_def publish_rx_promisc_control_command_def control_view_def Let_def
      offer_chain_def throw_ifM_def control_sizes not_less [symmetric])

text \<open>
  The parts exercise 27 has of its own do what the shared header does: its layout is that of
  \<open>compute_ctrlq_dma_layout\<close> with one byte of data, error for error, its negotiation is
  \<open>negotiate_ctrl_rx_features\<close>, and in such a layout its command is \<open>publish_rx_promisc_control_command\<close>.
\<close>

theorem exercise_27_equivalent:
  fixes env :: "'w env"
  shows "compute_control_dma_layout ps rxq txq cq al rxb rbs =
     map_sum id control_view (compute_ctrlq_dma_layout ps rxq txq cq al rxb rbs kVirtioNetCtrlStateSize) \<and>
   negotiate_control_features env m d = negotiate_ctrl_rx_features env m d \<and>
   (compute_ctrlq_dma_layout ps rxq txq cq al rxb rbs kVirtioNetCtrlStateSize = Inr l \<longrightarrow>
     (publish_promisc_control_command b (control_view l) iova p :: ('w st, unit) M) = publish_rx_promisc_control_command b l iova p)"
proof -
  have "cl_ctrl_data_size l = kVirtioNetCtrlStateSize"
    if "compute_ctrlq_dma_layout ps rxq txq cq al rxb rbs kVirtioNetCtrlStateSize = Inr l"
    using that by (auto simp: compute_ctrlq_dma_layout_def Let_def res_iff)
  then show ?thesis by (simp add: control_layout_eq control_negotiation_eq control_command_eq)
qed

theorem exercise_27_equivalent_witness:
  "\<exists>l. compute_control_dma_layout 4096 64 64 64 4096 8 2048 = Inr (control_view l) \<and>
     publish_promisc_control_command 0 (control_view l) 0x100000000 True (quiet_st 512) =
       publish_rx_promisc_control_command 0 l 0x100000000 True (quiet_st 512)"
proof -
  have "\<exists>l. compute_ctrlq_dma_layout 4096 64 64 64 4096 8 2048 1 = Inr l"
    by (intro exI) code_simp
  then obtain l where "compute_ctrlq_dma_layout 4096 64 64 64 4096 8 2048 kVirtioNetCtrlStateSize = Inr l"
    by (auto simp: kVirtioNetCtrlStateSize_def)
  with exercise_27_equivalent [of 4096 64 64 64 4096 8 2048 quiet_env "\<lparr>mr_offset = 0, mr_size = 0\<rparr>" 0 l 0 "0x100000000" True]
  show ?thesis by (intro exI [of _ l]) simp
qed

section \<open>The device is reset before its memory goes\<close>

lemma control_datapath_guarded:
  assumes "has_status m d"
  shows "hoare (phase True False False)
    (control_datapath env opt config cmd m d sel notify region layout) (\<lambda>_. guarded) (\<lambda>_. guarded)"
  unfolding control_datapath_def Let_def
  by (intro armed_step hoare_case_prod clean_up_guarded [OF assms])
    (simp_all add: adds_rules ring_doorbell_def publish_promisc_control_command_def read_control_result_def Let_def)

context device_program
begin

lemma final_trace:
  "trace s = [] \<Longrightarrow> tr = trace (snd (with_iova_check env iova (with_pci env body) s)) \<Longrightarrow>
     reset_first tr \<and> (mapped tr \<longrightarrow> quiet tr)"
  using resets_first [OF prod.collapse [symmetric]] by simp

end

interpretation control_path:
  datapath env m d "control_datapath env opt config cmd m d sel notify region layout"
  for env :: "'w env" and m d opt config cmd sel notify region layout
  by unfold_locales (rule control_datapath_guarded)

interpretation promisc_path:
  datapath env m d "promisc_datapath fuel env opt config cmd m d sel notify region layout"
  for env :: "'w env" and m d fuel and opt :: "'o PromiscOptions_scheme" and config cmd sel notify region layout
  by unfold_locales (simp add: promisc_datapath_def observe_datapath_guarded adds_rules)

interpretation mac_addr_path:
  datapath env m d "mac_addr_datapath fuel env opt config cmd m d sel (read_virtio_net_config env dm dd len) notify region layout"
  for env :: "'w env" and m d fuel and opt :: "'o MacAddrOptions_scheme" and config cmd sel notify region layout dm dd len
  by unfold_locales (simp add: mac_addr_datapath_def observe_datapath_guarded adds_rules)

interpretation mac_table_path:
  datapath env m d "mac_table_datapath fuel env opt config cmd m d sel (read_virtio_net_config env dm dd len) notify region layout"
  for env :: "'w env" and m d fuel and opt :: "'o MacTableOptions_scheme" and config cmd sel notify region layout dm dd len
  by unfold_locales (simp add: mac_table_datapath_def observe_datapath_guarded adds_rules)

lemma ctrl_queue_scope_safe:
  assumes "\<And>layout. hoare (phase False True False) (with_dma env (co_iova opt) (cl_total_size layout) m d (run layout))
    (\<lambda>_. memory_safe) (\<lambda>_. memory_safe)"
  shows "hoare (phase False True False) (ctrl_queue_scope env opt check data_size m d sel run)
    (\<lambda>_. memory_safe) (\<lambda>_. memory_safe)"
  unfolding ctrl_queue_scope_def
  by (intro with_selection_safe unmapped_step assms) (simp_all add: adds_rules)

lemma ctrl_device_scope_safe:
  assumes "\<And>m d. adds harmless (negotiate_features m d)"
    and "\<And>m d sel dm dd len notify region. has_status m d \<Longrightarrow> hoare (phase False True False)
      (queue_scope m d sel (read_virtio_net_config env dm dd len) notify region) (\<lambda>_. memory_safe) (\<lambda>_. memory_safe)"
  shows "hoare (phase False True False) (ctrl_device_scope env opt negotiate_features queue_scope config cmd)
    (\<lambda>_. memory_safe) (\<lambda>_. memory_safe)"
  unfolding ctrl_device_scope_def
  by (intro with_virtio_safe unmapped_step assms) (simp_all add: adds_rules)

interpretation control_run: device_program env "control_device_scope env opt" for env :: "'w env" and opt
proof
  show "hoare (phase False True False) (control_device_scope env opt config cmd) (\<lambda>_. memory_safe) (\<lambda>_. memory_safe)" for config cmd
    unfolding control_device_scope_def control_queue_scope_def
    by (intro ctrl_device_scope_safe with_selection_safe unmapped_step control_path.with_dma_safe)
      (simp_all add: adds_rules control_negotiation_eq negotiate_ctrl_rx_features_def)
qed

interpretation promisc_run: device_program env "promisc_device_scope fuel env opt"
  for env :: "'w env" and fuel and opt :: "'o PromiscOptions_scheme"
proof
  show "hoare (phase False True False) (promisc_device_scope fuel env opt config cmd) (\<lambda>_. memory_safe) (\<lambda>_. memory_safe)" for config cmd
    unfolding promisc_device_scope_def
    by (intro ctrl_device_scope_safe ctrl_queue_scope_safe promisc_path.with_dma_safe)
      (simp_all add: adds_rules negotiate_ctrl_rx_features_def)
qed

interpretation mac_addr_run: device_program env "mac_addr_device_scope fuel env opt"
  for env :: "'w env" and fuel and opt :: "'o MacAddrOptions_scheme"
proof
  show "hoare (phase False True False) (mac_addr_device_scope fuel env opt config cmd) (\<lambda>_. memory_safe) (\<lambda>_. memory_safe)" for config cmd
    unfolding mac_addr_device_scope_def
    by (intro ctrl_device_scope_safe ctrl_queue_scope_safe mac_addr_path.with_dma_safe)
      (simp_all add: adds_rules negotiate_ctrl_mac_addr_features_def)
qed

interpretation mac_table_run: device_program env "mac_table_device_scope fuel env opt"
  for env :: "'w env" and fuel and opt :: "'o MacTableOptions_scheme"
proof
  show "hoare (phase False True False) (mac_table_device_scope fuel env opt config cmd) (\<lambda>_. memory_safe) (\<lambda>_. memory_safe)" for config cmd
    unfolding mac_table_device_scope_def
    by (intro ctrl_device_scope_safe ctrl_queue_scope_safe mac_table_path.with_dma_safe)
      (simp_all add: adds_rules negotiate_ctrl_rx_features_def)
qed

text \<open>
  C36. None of the four control-queue programs leaves the device with access to memory it no longer owns,
  however it ends: memory is only unmapped and released after a 0 was the last thing written to the
  device status, and a device whose memory was ever mapped is left reset.
\<close>

theorem ctrl_programs_reset_first:
  assumes "trace s = []"
    and "tr \<in> {trace (snd (run_control_command env opt27 s)), trace (snd (run_promisc_observe fuel env opt28 s)),
      trace (snd (run_mac_addr_sample fuel env opt29 s)), trace (snd (run_mac_table_sample fuel env opt30 s))}"
  shows "reset_first tr \<and> (mapped tr \<longrightarrow> quiet tr)"
proof -
  note runs = control_run.final_trace [OF assms(1)] promisc_run.final_trace [OF assms(1)]
    mac_addr_run.final_trace [OF assms(1)] mac_table_run.final_trace [OF assms(1)]
  note defs = run_control_command_def run_promisc_observe_def run_mac_addr_sample_def run_mac_table_sample_def
  from assms(2) show ?thesis
    unfolding defs insert_iff by (elim disjE emptyE) (erule runs)+
qed

theorem ctrl_programs_reset_first_witness:
  "reset_first (trace (snd (run_promisc_observe 3 quiet_env
     \<lparr>co_rx_queue = 0, co_tx_queue = 1, co_ctrl_queue = 2, co_queue_size = None, co_iova = 0x100000000, co_align = 4096,
      co_rx_buffers = 64, co_rx_buffer_size = 2048, co_wait_ms = 60000, co_yes = True, co_stop_after = 1,
      co_dump_bytes = 160, co_match_ethertype = Some 0x88b5, co_dump_every_packet = False, co_promisc = True\<rparr>
     (start_st [] ()))))"
  by (rule conjunct1 [OF ctrl_programs_reset_first [OF _ insertI2 [OF insertI1]]]) (simp add: start_st_def)

end
