(* ===== verification/ProgramsDefined.thy ===== *)
theory ProgramsDefined
  imports Defined IrqEcho CtrlRun
begin

text \<open>
  Freedom from undefined behaviour for the interrupt-driven echo program (exercise 26) and for the
  programs that use the control queue (exercises 27 to 30), by the rules of Defined.thy.
\<close>

section \<open>The interrupt-driven echo program\<close>

lemma run_irq_loops_yields:
  assumes "env_ok env" and "echo_ctx_ok opt c n" and "echo_state_ok opt st"
    and "es_echoed_tx st \<le> eo_max_packets opt"
  shows "yields n (run_irq_loops fuel env opt c rx_irq tx_irq st) (\<lambda>st'. es_echoed_tx st' \<le> eo_max_packets opt)"
  unfolding run_irq_loops_def
proof (intro yields_bind_safe [OF safe_now], rule yields_bindM [OF irq_loop_yields [OF assms]],
    rule yields_bind_safe [OF safe_now])
  fix st1 t'
  assume st1: "echo_state_ok opt st1 \<and> es_echoed_tx st1 \<le> eo_max_packets opt"
  then have "echo_state_ok opt st1 \<and> es_echoed_tx st1 = es_echoed_tx st1" by simp
  from irq_drain_loop_yields [OF assms(1,2) this, of fuel rx_irq tx_irq "t' + ms 1000"] st1
  show "yields n (irq_drain_loop fuel env c rx_irq tx_irq (t' + ms 1000) st1)
      (\<lambda>st'. es_echoed_tx st' \<le> eo_max_packets opt)"
    unfolding yields_def by (elim hoare_post) simp
qed

lemma any_irq [any_rules]:
  "safe (buffer_size n) (vfio_disable_irq_index env i)" "safe (buffer_size n) (vfio_set_irq_eventfds env i start fds)"
  "safe (buffer_size n) (irq_disable env i)" "safe (buffer_size n) (irq_guard_drop env i)"
  "safe (buffer_size n) irq_activate"
  "safe (buffer_size n) (program_and_enable_queue_with_msix env r d queue l iova vector label)"
  "safe (buffer_size n) (vfio_get_device_info env)" "safe (buffer_size n) (vfio_get_irq_info env i)"
  by (auto simp: vfio_disable_irq_index_def vfio_set_irq_eventfds_def irq_disable_def irq_guard_drop_def irq_activate_def
      program_and_enable_queue_with_msix_def vfio_get_device_info_def vfio_get_irq_info_def safe_rules any_rules
      split: option.splits sum.splits)

lemma echo_ctx_of_layout:
  assumes "compute_dma_layout ps rxq txq al (eo_rx_buffers opt) (eo_tx_buffers opt) (eo_rx_buffer_size opt) tbs = Inr layout"
    and "ec_layout c = layout" and "length (ec_reply_src_mac c) = 6"
  shows "echo_ctx_ok opt c (unat (dl_total_size layout))"
  using dma_layout_parts [OF assms(1)] dma_layout_area [OF assms(1)] assms(2,3) vring_size_of_layout
  by (simp add: echo_ctx_ok_def word_le_nat_alt)

lemma queues_of_layout:
  assumes "compute_dma_layout ps rxq txq al rxb txb rbs tbs = Inr layout"
  shows "queue_at (unat (dl_rx_vring_offset layout)) (dl_rx_vring layout) (unat (dl_total_size layout))"
    and "queue_at (unat (dl_tx_vring_offset layout)) (dl_tx_vring layout) (unat (dl_total_size layout))"
    and "rxb \<le> vl_queue_size (dl_rx_vring layout)"
  using dma_layout_parts [OF assms] dma_layout_area [OF assms] vring_size_of_layout by (auto simp: dma_area_def)

lemma irq_datapath_defined:
  assumes env: "env_ok env" and mac: "length mac = 6"
    and l: "compute_dma_layout ps rxq txq al (eo_rx_buffers (io_echo iopt)) (eo_tx_buffers (io_echo iopt))
      (eo_rx_buffer_size (io_echo iopt)) tbs = Inr layout"
  shows "safe (buffer_size (unat (dl_total_size layout)))
    (irq_datapath fuel env iopt rx_irq tx_irq config cmd m d sel notify region layout mac)"
proof -
  note q = queues_of_layout [OF l]
  note loops = yields_safe [OF run_irq_loops_yields [OF env echo_ctx_of_layout [OF l]]]
  show ?thesis
    unfolding irq_datapath_def Let_def
    by (intro safe_bindM any_rules safe_publish_rx_buffers safe_read_used_idx safe_vload16 loops)
      (use q mac env in \<open>simp_all add: queue_at_idx any_rules safe_rules notify_rx_def initial_pool_def\<close>)
qed

lemma irq_queue_scope_defined:
  assumes "env_ok env" and "case_option True (\<lambda>mac. length mac = 6) (eo_src_mac (io_echo iopt))"
    and "length (nc_mac view) = 6"
  shows "defined (irq_queue_scope fuel env iopt rx_irq tx_irq config cmd m d sel notify region view)"
proof -
  have mac: "length (case eo_src_mac (io_echo iopt) of Some mac \<Rightarrow> mac | None \<Rightarrow> nc_mac view) = 6"
    using assms(2,3) by (simp split: option.splits)
  show ?thesis
    unfolding irq_queue_scope_def Let_def
    by (intro with_selection_defined defined_bind [OF any_queues(2)] safe_bind_liftR with_dma_defined
        irq_datapath_defined [OF assms(1) mac] fault_rules)
qed

lemma validate_irq_vectors_yields:
  "yields n (validate_irq_vectors env iopt)
     (\<lambda>irq. ucast (io_rx_vector iopt) < ii_count irq \<and> ucast (io_tx_vector iopt) < ii_count irq)"
  unfolding yields_def
proof (rule hoareI)
  fix s :: "'a st" assume s: "buffer_size n s"
  have safe: "safe (buffer_size n) (validate_irq_vectors env iopt)"
    by (simp add: validate_irq_vectors_def safe_rules any_rules)
  obtain x s' where x: "validate_irq_vectors env iopt s = (x, s')" by fastforce
  from safe s x validate_irq_vectors_Inr [of env iopt s]
  show "case validate_irq_vectors env iopt s of (Inl e, s') \<Rightarrow> \<not> is_ub e \<and> buffer_size n s'
      | (Inr irq, s') \<Rightarrow> (ucast (io_rx_vector iopt) < ii_count irq \<and> ucast (io_tx_vector iopt) < ii_count irq) \<and> buffer_size n s'"
    by (cases x) (auto simp: safe_def dest: hoare_Inl hoare_Inr)
qed

lemma IrqEventfdBinding_new_yields: "yields n (IrqEventfdBinding_new env v) (\<lambda>b. ib_vector b = v)"
  unfolding IrqEventfdBinding_new_def
  by (intro yields_bind_safe [OF safe_external]) (auto simp: yields_throwM yields_returnM split: sum.splits)

lemma bind_irq_eventfds_safe:
  assumes "ucast (ib_vector rx) < ii_count irq" and "\<forall>t. tx = Some t \<longrightarrow> ucast (ib_vector t) < ii_count irq"
  shows "safe (buffer_size n) (bind_irq_eventfds env i irq rx tx)"
proof -
  obtain start count where range: "irq_range irq (ib_vector rx) (map_option ib_vector tx) = (start, count)"
    by fastforce
  have "\<forall>v. map_option ib_vector tx = Some v \<longrightarrow> ucast v < ii_count irq" using assms(2) by auto
  note c = irq_range_covers [OF range assms(1) this]
  obtain fds1 where 1: "set_event_fd (replicate (unat count) (-1)) (ucast (ib_vector rx) - start) (ib_fd rx) = Inr fds1"
    "length fds1 = unat count"
    using set_event_fd_in [of start "ib_vector rx" "replicate (unat count) (-1)" "ib_fd rx"] c(2,3) by auto
  show ?thesis
  proof (cases tx)
    case None
    with range 1 show ?thesis
      by (simp add: bind_irq_eventfds_def liftR_def bindM_def returnM_def any_rules safe_rules)
  next
    case (Some t)
    obtain fds2 where "set_event_fd fds1 (ucast (ib_vector t) - start) (ib_fd t) = Inr fds2"
      using set_event_fd_in [of start "ib_vector t" fds1 "ib_fd t"] c(4) Some 1(2) by auto
    with Some range 1 show ?thesis
      by (simp add: bind_irq_eventfds_def liftR_def bindM_def any_rules safe_rules)
  qed
qed

lemma with_irq_bindings_defined:
  assumes "ucast (ib_vector rx) < ii_count irq" and "\<forall>t. tx = Some t \<longrightarrow> ucast (ib_vector t) < ii_count irq"
    and "defined body"
  shows "defined (with_irq_bindings env i irq rx tx body)"
  unfolding with_irq_bindings_def
  by (intro defined_bind defined_finally_release bind_irq_eventfds_safe assms any_rules) (simp add: safe_rules)

lemma run_irq_echo_loop_defined:
  assumes "env_ok env" and "case_option True (\<lambda>mac. length mac = 6) (eo_src_mac (io_echo iopt))"
  shows "defined (run_irq_echo_loop fuel env iopt)"
proof -
  have scope: "defined (irq_device_scope fuel env iopt rx_irq tx_irq config cmd)" for rx_irq tx_irq config cmd
    unfolding irq_device_scope_def Let_def
    by (intro with_virtio_defined defined_bind defined_bind_value [OF read_virtio_net_config_mac]
        irq_queue_scope_defined assms)
      (simp_all add: safe_rules any_rules)
  have tx: "yields n (if io_tx_vector iopt \<noteq> io_rx_vector iopt
      then bindM (IrqEventfdBinding_new env (io_tx_vector iopt)) (\<lambda>tx. returnM (Some tx))
      else returnM None) (\<lambda>tx. \<forall>t. tx = Some t \<longrightarrow> ib_vector t = io_tx_vector iopt)" for n
    by (intro yields_if yields_bindM [OF IrqEventfdBinding_new_yields] yields_returnM) simp_all
  show ?thesis
    unfolding run_irq_echo_loop_def
    by (intro with_iova_check_defined defined_bind_value [OF validate_irq_vectors_yields]
        defined_bind_value [OF IrqEventfdBinding_new_yields] defined_bind_value [OF tx] with_irq_bindings_defined
        with_pci_defined scope) auto
qed

section \<open>The control-queue programs\<close>

lemma ctrlq_queues:
  assumes "compute_ctrlq_dma_layout ps rxq txq cq al rxb rbs ds = Inr l" and "unat ds + 3 \<le> page_bytes ps"
  shows "dma_area (rx_view_layout l) rxb rbs (unat (cl_total_size l))"
    and "queue_at (unat (cl_tx_vring_offset l)) (cl_tx_vring l) (unat (cl_total_size l))"
    and "rxb \<le> vl_queue_size (cl_rx_vring l)" and "cl_ctrl_data_size l = ds"
    and "vl_queue_size (cl_ctrl_vring l) = cq"
proof -
  note p = ctrlq_layout_parts [OF assms]
  note v = p(1-3) [THEN compute_vring_layout_fields(5)] p(1-3) [THEN compute_vring_layout_fields(1)]
  show "dma_area (rx_view_layout l) rxb rbs (unat (cl_total_size l))"
    "queue_at (unat (cl_tx_vring_offset l)) (cl_tx_vring l) (unat (cl_total_size l))"
    using p(4,5) v unat_u64_lt [of "cl_total_size l"]
    by (auto simp: dma_area_def rx_view_layout_def queue_at_def ctrlq_regions_def packed_Cons)
  show "rxb \<le> vl_queue_size (cl_rx_vring l)" "cl_ctrl_data_size l = ds" "vl_queue_size (cl_ctrl_vring l) = cq"
    using p v by simp_all
qed

lemma safe_wait_used_loop: "env_ok env \<Longrightarrow> queue_at b l n \<Longrightarrow> safe (buffer_size n) (wait_used_loop fuel env b l enough dl)"
  by (induction fuel) (simp_all add: safe_rules)

lemma safe_wait_used: "env_ok env \<Longrightarrow> queue_at b l n \<Longrightarrow> safe (buffer_size n) (wait_used env b l enough wait_ms)"
  by (simp add: wait_used_def safe_rules safe_wait_used_loop)

lemma safe_used_entries: "env_ok env \<Longrightarrow> queue_at b l n \<Longrightarrow> safe (buffer_size n) (used_entries env b l old is)"
  by (induction "is") (simp_all add: Let_def safe_rules used_slot_in_ring)

lemma safe_print_used_entries [safe_rules]:
  "env_ok env \<Longrightarrow> queue_at b l n \<Longrightarrow> safe (buffer_size n) (print_used_entries env b l old new)"
  by (simp add: print_used_entries_def Let_def safe_rules safe_used_entries)

lemma ctrl_area_parts:
  assumes "ctrl_area l n"
  shows "queue_at (unat (cl_ctrl_vring_offset l)) (cl_ctrl_vring l) n" and "unat (cl_ctrl_ack_offset l) + 1 \<le> n"
  using assms by (simp_all add: ctrl_area_def)

lemma safe_wait_for_control_ack:
  assumes "env_ok env" and "ctrl_area l n"
  shows "safe (buffer_size n) (wait_for_control_ack env (unat (cl_ctrl_vring_offset l)) l i wait_ms)"
  unfolding wait_for_control_ack_def
  by (intro safe_bindM safe_vload safe_wait_used_loop safe_read_used_idx safe_print_used_entries ctrl_area_parts assms)
    (simp_all add: safe_rules)

lemma safe_commands:
  assumes "ctrl_area l n"
  shows "safe (buffer_size n) (publish_rx_promisc_control_command (unat (cl_ctrl_vring_offset l)) l iova p)"
    and "length mac = 6 \<Longrightarrow> safe (buffer_size n) (publish_mac_addr_control_command (unat (cl_ctrl_vring_offset l)) l iova mac)"
    and "length mac = 6 \<Longrightarrow> safe (buffer_size n) (publish_mac_table_control_command (unat (cl_ctrl_vring_offset l)) l iova mac)"
proof -
  note q = ctrl_area_parts(1) [OF assms]
  have c: "3 \<le> unat (vl_queue_size (cl_ctrl_vring l))"
    "unat (cl_ctrl_data_offset l) = unat (cl_ctrl_hdr_offset l) + 2"
    "unat (cl_ctrl_ack_offset l) = unat (cl_ctrl_data_offset l) + unat (cl_ctrl_data_size l)"
    "0 < unat (cl_ctrl_data_size l)" "unat (cl_ctrl_ack_offset l) + 1 \<le> n"
    using assms by (simp_all add: ctrl_area_def)
  have offer: "safe (buffer_size n) (offer_chain (unat (cl_ctrl_vring_offset l)) (cl_ctrl_vring l))"
    using queue_at_bounds(2) [OF q, of 0] queue_at_idx [OF q] c(1)
    by (simp add: offer_chain_def safe_rules safe_store16)
  have desc: "safe (buffer_size n) (store_desc (vring_descs (unat (cl_ctrl_vring_offset l)) (cl_ctrl_vring l)) i a len fl nx)"
    if "i < unat (vl_queue_size (cl_ctrl_vring l))" for i a len fl nx
    by (rule safe_store_desc) (rule queue_at_bounds(1) [OF q that])
  note sizes = kVirtioNetCtrlStateSize_def kVirtioNetCtrlMacAddrSize_def unicast_table_size_def
    multicast_table_size_def kVirtioNetCtrlMacTableCountSize_def write_le32_to_bytes_def
  show "safe (buffer_size n) (publish_rx_promisc_control_command (unat (cl_ctrl_vring_offset l)) l iova p)"
    unfolding publish_rx_promisc_control_command_def Let_def
    by (intro safe_bind_guard safe_bindM safe_store desc offer) (use c in simp_all)
  show "safe (buffer_size n) (publish_mac_addr_control_command (unat (cl_ctrl_vring_offset l)) l iova mac)" if "length mac = 6"
    unfolding publish_mac_addr_control_command_def Let_def
    by (intro safe_bind_guard safe_bindM safe_store desc offer) (use c that in \<open>simp_all add: sizes word_less_nat_alt\<close>)
  show "safe (buffer_size n) (publish_mac_table_control_command (unat (cl_ctrl_vring_offset l)) l iova mac)" if "length mac = 6"
    unfolding publish_mac_table_control_command_def Let_def
    by (intro safe_bind_guard safe_bindM safe_store desc offer) (use c that in \<open>simp_all add: sizes word_less_nat_alt\<close>)
qed

lemma any_enable_queues [any_rules]:
  "safe (buffer_size n) (enable_queues env opt m d notify region rv ri tv ti cv ci)"
  "safe (buffer_size n) (ring_doorbell env w v)"
  by (simp_all add: enable_queues_def ring_doorbell_def safe_rules any_rules)

lemma observe_datapath_defined:
  assumes env: "env_ok env"
    and l: "compute_ctrlq_dma_layout ps rxq txq cq al (co_rx_buffers opt) (co_rx_buffer_size opt) ds = Inr layout"
    and room: "unat ds + 3 \<le> page_bytes ps"
    and publish: "\<And>iova. safe (buffer_size (unat (cl_total_size layout))) (publish (unat (cl_ctrl_vring_offset layout)) layout iova)"
    and after_ack: "safe (buffer_size (unat (cl_total_size layout))) after_ack"
  shows "safe (buffer_size (unat (cl_total_size layout)))
    (observe_datapath fuel env read_len publish after_ack opt config cmd m d sel notify region layout)"
proof -
  note q = ctrlq_queues [OF l room]
  note area = ctrlq_layout_area [OF l room]
  let ?n = "unat (cl_total_size layout)"
  have rx: "queue_at (unat (cl_rx_vring_offset layout)) (cl_rx_vring layout) ?n"
    using q(1) by (simp add: dma_area_def rx_view_layout_def)
  have loop: "safe (buffer_size ?n) (observe_loop fuel env read_len opt c dl (no_packets k))"
    if "oc_layout c = rx_view_layout layout" for c dl k
    by (rule yields_safe [OF observe_loop_yields [OF env]]) (use q(1) that no_packets_ok in simp_all)
  show ?thesis
    unfolding observe_datapath_def Let_def
    by (intro safe_bindM safe_case_prod any_rules safe_publish_rx_buffers safe_read_used_idx safe_vload16 publish after_ack
        safe_wait_for_control_ack area env loop q(2,3) rx ctrl_area_parts(1) queue_at_idx safe_now safe_throw_ifM)
      simp_all
qed

lemma ctrl_queue_scope_defined:
  assumes "\<And>layout rxq txq cq. bindR data_size (compute_ctrlq_dma_layout (env_page_size env) rxq txq cq (co_align opt)
        (co_rx_buffers opt) (co_rx_buffer_size opt)) = Inr layout \<Longrightarrow> check cq = Inr () \<Longrightarrow>
      safe (buffer_size (unat (cl_total_size layout))) (run layout)"
    and "fault_free data_size" and "\<And>cq. fault_free (check cq)"
  shows "defined (ctrl_queue_scope env opt check data_size m d sel run)"
proof -
  have "fault_free (compute_ctrlq_dma_layout ps rxq txq cq al rxb rbs ds)" for ps rxq txq cq al rxb rbs ds
    by (simp add: compute_ctrlq_dma_layout_def check_rx_buffers_def Let_def fault_rules)
  then show ?thesis
    unfolding ctrl_queue_scope_def
    by (intro with_selection_defined defined_bind [OF any_queues(2)] safe_bind_liftR with_dma_defined assms fault_rules)
      (assumption | simp)+
qed

lemma ctrl_device_scope_defined:
  assumes "\<And>n m d. safe (buffer_size n) (negotiate_features m d)"
    and "\<And>m d sel dm dd len notify region. defined (queue_scope m d sel (read_virtio_net_config env dm dd len) notify region)"
  shows "defined (ctrl_device_scope env opt negotiate_features queue_scope config cmd)"
proof -
  have "fault_free (ctrl_checks opt q)" for q by (simp add: ctrl_checks_def fault_rules)
  then show ?thesis
    unfolding ctrl_device_scope_def
    by (intro with_virtio_defined defined_bind defined_bind_value [OF read_virtio_net_config_mac] assms
        safe_bindM [OF safe_liftR_fault_free]) (simp_all add: safe_rules)
qed

lemma control_datapath_defined:
  assumes env: "env_ok env"
    and l: "compute_ctrlq_dma_layout ps rxq txq cq al (co_rx_buffers opt) (co_rx_buffer_size opt) kVirtioNetCtrlStateSize = Inr l"
    and room: "unat kVirtioNetCtrlStateSize + 3 \<le> page_bytes ps"
  shows "safe (buffer_size (unat (cl_total_size l)))
    (control_datapath env opt config cmd m d sel notify region (control_view l))"
proof -
  note q = ctrlq_queues [OF l room]
  note area = ctrlq_layout_area [OF l room]
  let ?n = "unat (cl_total_size l)"
  have rx: "queue_at (unat (cl_rx_vring_offset l)) (cl_rx_vring l) ?n"
    using q(1) by (simp add: dma_area_def rx_view_layout_def)
  have "kVirtioNetCtrlStateSize \<le> cl_ctrl_data_size l" using q(4) by simp
  note publish = safe_commands(1) [OF area, folded control_command_eq [OF this]]
  have fields: "cd_rx_vring (control_view l) = cl_rx_vring l" "cd_tx_vring (control_view l) = cl_tx_vring l"
    "cd_ctrl_vring (control_view l) = cl_ctrl_vring l" "cd_rx_vring_offset (control_view l) = cl_rx_vring_offset l"
    "cd_tx_vring_offset (control_view l) = cl_tx_vring_offset l" "cd_ctrl_vring_offset (control_view l) = cl_ctrl_vring_offset l"
    "cd_ctrl_ack_offset (control_view l) = cl_ctrl_ack_offset l"
    by (simp_all add: control_view_def)
  have slot: "unat (k mod vl_queue_size (cl_ctrl_vring l)) < unat (vl_queue_size (cl_ctrl_vring l))" for k
    using queue_at_slot [OF ctrl_area_parts(1) [OF area], of "unat k"] by (simp add: unat_mod)
  have result: "safe (buffer_size ?n) (read_control_result env (control_view l) k)" for k
    unfolding read_control_result_def Let_def fields
    by (intro safe_bindM safe_if safe_read_used_idx safe_used_elem safe_vload env ctrl_area_parts area slot safe_returnM)
  show ?thesis
    unfolding control_datapath_def Let_def fields
    by (intro safe_bindM safe_case_prod any_rules safe_publish_rx_buffers safe_read_used_idx safe_vload16 publish result
        safe_wait_used env q(2,3) rx ctrl_area_parts(1) [OF area] queue_at_idx safe_now safe_if safe_returnM)
qed

text \<open>The page is big enough for the longest command: 2 bytes of header, 14 of data, the ACK byte.\<close>

lemma run_control_command_defined:
  assumes "env_ok env" and "17 \<le> page_bytes (env_page_size env)"
  shows "defined (run_control_command env opt)"
proof -
  have room: "unat kVirtioNetCtrlStateSize + 3 \<le> page_bytes (env_page_size env)"
    using assms(2) by (simp add: kVirtioNetCtrlStateSize_def)
  have layout: "fault_free (compute_control_dma_layout ps rxq txq cq al rxb rbs)" for ps rxq txq cq al rxb rbs
    by (simp add: compute_control_dma_layout_def Let_def fault_rules)
  have path: "safe (buffer_size (unat (cd_total_size l))) (control_datapath env opt config cmd m d sel notify region l)"
    if layout: "compute_control_dma_layout (env_page_size env) rxq txq cq (co_align opt) (co_rx_buffers opt) (co_rx_buffer_size opt) = Inr l"
    for l rxq txq cq config cmd m d sel notify region
  proof -
    from layout obtain l' where l': "l = control_view l'" "compute_ctrlq_dma_layout (env_page_size env) rxq txq cq (co_align opt)
        (co_rx_buffers opt) (co_rx_buffer_size opt) kVirtioNetCtrlStateSize = Inr l'"
      unfolding control_layout_eq by (auto simp: map_sum_def split: sum.splits)
    then show ?thesis using control_datapath_defined [OF assms(1) l'(2) room] by (simp add: control_view_def)
  qed
  have "defined (control_device_scope env opt config cmd)" for config cmd
    unfolding control_device_scope_def control_queue_scope_def control_negotiation_eq
    by (intro ctrl_device_scope_defined any_rules with_selection_defined defined_bind [OF any_queues(2)]
        safe_bind_liftR layout with_dma_defined path)
  then show ?thesis
    unfolding run_control_command_def by (intro with_iova_check_defined with_pci_defined)
qed

lemma run_observe_defined:
  assumes env: "env_ok env" and page: "17 \<le> page_bytes (env_page_size env)"
  shows "defined (run_promisc_observe fuel env popt)"
    and "length (co_new_mac aopt) = 6 \<Longrightarrow> defined (run_mac_addr_sample fuel env aopt)"
    and "length (co_filter_mac topt) = 6 \<Longrightarrow> defined (run_mac_table_sample fuel env topt)"
proof -
  have table: "mac_table_control_data_size 1 0 = Inr 14" by code_simp
  note areas = ctrlq_layout_area [of "env_page_size env"]
  have "defined (promisc_device_scope fuel env popt config cmd)" for config cmd
    unfolding promisc_device_scope_def promisc_datapath_def
    by (intro ctrl_device_scope_defined any_rules ctrl_queue_scope_defined fault_rules)
      (use page in \<open>auto intro!: observe_datapath_defined [OF env] safe_commands(1) areas safe_returnM simp: res_iff kVirtioNetCtrlStateSize_def\<close>)
  then show "defined (run_promisc_observe fuel env popt)"
    unfolding run_promisc_observe_def by (intro with_iova_check_defined with_pci_defined)
  have config: "safe (buffer_size n) (thenM (read_virtio_net_config env dm dd len) (returnM ()))" for n dm dd len
    by (intro safe_bindM yields_safe [OF read_virtio_net_config_mac] safe_returnM)
  show "defined (run_mac_addr_sample fuel env aopt)" if mac: "length (co_new_mac aopt) = 6"
  proof -
    have "defined (mac_addr_device_scope fuel env aopt config cmd)" for config cmd
      unfolding mac_addr_device_scope_def mac_addr_datapath_def
      by (intro ctrl_device_scope_defined any_rules ctrl_queue_scope_defined fault_rules)
        (use page mac in \<open>auto intro!: observe_datapath_defined [OF env] safe_commands(2) areas config simp: res_iff kVirtioNetCtrlMacAddrSize_def\<close>)
    then show ?thesis
      unfolding run_mac_addr_sample_def by (intro with_iova_check_defined with_pci_defined)
  qed
  show "defined (run_mac_table_sample fuel env topt)" if mac: "length (co_filter_mac topt) = 6"
  proof -
    have "defined (mac_table_device_scope fuel env topt config cmd)" for config cmd
      unfolding mac_table_device_scope_def mac_table_datapath_def table
      by (intro ctrl_device_scope_defined any_rules ctrl_queue_scope_defined fault_rules)
        (use page mac in \<open>auto intro!: observe_datapath_defined [OF env] safe_commands(3) areas config fault_rules simp: res_iff check_table_queue_def\<close>)
    then show ?thesis
      unfolding run_mac_table_sample_def by (intro with_iova_check_defined with_pci_defined)
  qed
qed

end
