(* ===== verification/NetRuns.thy ===== *)
theory NetRuns
  imports CtrlRun
begin

text \<open>
  The programs of exercises 21 to 24 of \<open>userspace_drivers/\<close>, from the open VFIO device to the last
  destructor: \<open>run_rx_buffers\<close> posts RX buffers and looks at the used ring, \<open>run_rx_observe\<close> also dumps
  what it received, \<open>run_tx_packet\<close> sends one packet, \<open>run_rx_tx_echo\<close> answers one. They are built from
  the scopes of Scopes.thy, like the later exercises. The theorem is that each resets the device
  before its memory goes.
\<close>

section \<open>Options\<close>

text \<open>The options all four programs have, then the further options of exercises 22, 23 and 24.\<close>

record NetOptions =
  no_rx_queue :: u16
  no_tx_queue :: u16
  no_queue_size :: "u16 option"
  no_iova :: u64
  no_align :: u64
  no_rx_buffers :: u16
  no_rx_buffer_size :: u64
  no_wait_ms :: u32
  no_yes :: bool

record RxObserveOptions = NetOptions +
  ro_stop_after :: u16
  ro_dump_bytes :: u64

record TxOptions = NetOptions +
  to_dump_bytes :: u64
  to_dst_mac :: "u8 list option"
  to_src_mac :: "u8 list option"
  to_ethertype :: u16
  to_payload :: "u8 list"

record ReplyOptions = NetOptions +
  yo_dump_bytes :: u64
  yo_src_mac :: "u8 list option"
  yo_match_ethertype :: "u16 option"

section \<open>What the programs share\<close>

definition net_checks :: "'o NetOptions_scheme \<Rightarrow> u16 \<Rightarrow> unit res" where
  "net_checks opt num_queues =
     bindR (throw_if (no_rx_queue opt \<ge> num_queues) (RuntimeError ''RX queue index is outside num_queues'')) (\<lambda>_.
     bindR (throw_if (no_tx_queue opt \<ge> num_queues) (RuntimeError ''TX queue index is outside num_queues'')) (\<lambda>_.
     throw_if (no_rx_queue opt = no_tx_queue opt) (RuntimeError ''RX queue and TX queue must be different'')))"

text \<open>
  From the number of the queues to the DMA area: \<open>compute\<close> is the layout for the two sizes, \<open>run\<close> what
  is done with it.
\<close>

definition net_queue_scope ::
  "'w env \<Rightarrow> 'o NetOptions_scheme \<Rightarrow> (u16 \<Rightarrow> u16 \<Rightarrow> DmaLayout res) \<Rightarrow> MappedRegion \<Rightarrow> u64 \<Rightarrow>
     (u16 \<Rightarrow> DmaLayout \<Rightarrow> ('w st, 'a) M) \<Rightarrow> ('w st, 'a) M" where
  "net_queue_scope env opt compute m d run =
     bindM (read16 env m (d + VIRTIO_PCI_COMMON_NUMQ)) (\<lambda>num_queues.
     bindM (read16 env m (d + VIRTIO_PCI_COMMON_Q_SELECT)) (\<lambda>original_select.
     thenM (liftR (net_checks opt num_queues))
       (with_selection env m d original_select
         (bindM (size_queue env m d (no_rx_queue opt) (no_queue_size opt) ''RX queue'') (\<lambda>rx_queue_size.
          bindM (size_queue env m d (no_tx_queue opt) (no_queue_size opt) ''TX queue'') (\<lambda>tx_queue_size.
          bindM (liftR (compute rx_queue_size tx_queue_size)) (\<lambda>layout.
          with_dma env (no_iova opt) (dl_total_size layout) m d (run original_select layout))))))))"

text \<open>The posting of the RX buffers and the two lines about it.\<close>

definition net_post_rx :: "'w env \<Rightarrow> 'o NetOptions_scheme \<Rightarrow> DmaLayout \<Rightarrow> ('w st, unit) M" where
  "net_post_rx env opt layout =
     (let rx_queue_base = unat (dl_rx_vring_offset layout)
      in thenM (publish_rx_buffers rx_queue_base (dl_rx_vring layout) (no_iova opt + dl_rx_buffers_offset layout)
                  (no_rx_buffers opt) (no_rx_buffer_size opt))
        (thenM (vload16 env (vring_avail_idx rx_queue_base (dl_rx_vring layout)))
        (thenM (read_used_idx env rx_queue_base (dl_rx_vring layout))
               (returnM ()))))"

text \<open>Both queues are programmed and enabled; what the device says of them then.\<close>

definition net_enable_queues ::
  "'w env \<Rightarrow> 'o NetOptions_scheme \<Rightarrow> MappedRegion \<Rightarrow> u64 \<Rightarrow> DmaLayout \<Rightarrow> ('w st, QueueView \<times> QueueView) M" where
  "net_enable_queues env opt m d layout =
     bindM (program_and_enable_queue env m d (no_rx_queue opt) (dl_rx_vring layout)
              (no_iova opt + dl_rx_vring_offset layout) ''RX queue'') (\<lambda>rx_after.
     bindM (program_and_enable_queue env m d (no_tx_queue opt) (dl_tx_vring layout)
              (no_iova opt + dl_tx_vring_offset layout) ''TX queue'') (\<lambda>tx_after.
     returnM (rx_after, tx_after)))"

text \<open>Exercises 22 to 24, from bus mastering to the negotiated features and the device's config.\<close>

definition net_device_scope ::
  "u64 \<Rightarrow> 'w env \<Rightarrow> (MappedRegion \<Rightarrow> u64 \<Rightarrow> VirtioCap \<Rightarrow> RegionInfo \<Rightarrow> VirtioNetConfigView \<Rightarrow> ('w st, 'a) M) \<Rightarrow>
     ConfigRegion \<Rightarrow> u16 \<Rightarrow> ('w st, 'a) M" where
  "net_device_scope required_length env queue_scope config original_command =
     with_virtio_min required_length env config original_command (\<lambda>m d dm dd notify notify_region device_cfg.
     thenM (negotiate_minimal_features env m d)
    (bindM (read_virtio_net_config env dm dd (vc_length device_cfg)) (\<lambda>net_config.
     queue_scope m d notify notify_region net_config)))"

section \<open>Exercise 21: RX buffers\<close>

text \<open>This program has no guard of the PCI command register, and no DEVICE_CFG.\<close>

definition rx_buffers_datapath ::
  "'w env \<Rightarrow> NetOptions \<Rightarrow> MappedRegion \<Rightarrow> u64 \<Rightarrow> VirtioCap \<Rightarrow> RegionInfo \<Rightarrow> u16 \<Rightarrow> DmaLayout \<Rightarrow> ('w st, u16) M" where
  "rx_buffers_datapath env opt m d notify notify_region original_select layout =
     (let rx_queue_base = unat (dl_rx_vring_offset layout)
      in thenM (net_post_rx env opt layout)
        (bindM (net_enable_queues env opt m d layout) (\<lambda>(rx_after, tx_after).
         bindM (map_notify_window env notify notify_region (qv_notify_off rx_after)) (\<lambda>rx_notify.
         thenM (set_driver_ok env m d)
        (thenM (read_status env m d)
        (thenM (ring_doorbell env rx_notify (qv_selected rx_after))
        (bindM (read_used_idx env rx_queue_base (dl_rx_vring layout)) (\<lambda>used_before_wait.
         thenM (wait_used env rx_queue_base (dl_rx_vring layout) (\<lambda>current. current \<noteq> used_before_wait) (no_wait_ms opt))
        (bindM (read_used_idx env rx_queue_base (dl_rx_vring layout)) (\<lambda>used_after_wait.
         thenM (print_rx_used_entries env rx_queue_base (dl_rx_vring layout) used_before_wait used_after_wait)
        (thenM (read_status env m d)
        (thenM (selection_restore env m d original_select)
        (thenM (reset_device env m d)
        (thenM reset_guard_disarm
        (thenM (DmaMapping_unmap env (no_iova opt) (dl_total_size layout))
               (returnM (used_delta used_before_wait used_after_wait)))))))))))))))))"

definition rx_buffers_device_scope :: "'w env \<Rightarrow> NetOptions \<Rightarrow> ConfigRegion \<Rightarrow> ('w st, u16) M" where
  "rx_buffers_device_scope env opt config =
     bindM (read_virtio_caps env config) (\<lambda>caps.
     bindM (liftR (find_common_cfg caps)) (\<lambda>common.
     bindM (liftR (find_notify_cfg caps)) (\<lambda>notify.
     bindM (liftR (vfio_bar_region_index (vc_bar notify))) (\<lambda>notify_index.
     bindM (get_region_info env notify_index) (\<lambda>notify_region.
     bindM (map_common_cfg env common True) (\<lambda>(m, d).
     thenM (read_status env m d)
    (thenM (negotiate_minimal_transport_features env m d)
       (net_queue_scope env opt
          (\<lambda>rx_queue_size tx_queue_size. compute_dma_layout_rx (env_page_size env) rx_queue_size tx_queue_size
             (no_align opt) (no_rx_buffers opt) (no_rx_buffer_size opt))
          m d (rx_buffers_datapath env opt m d notify notify_region)))))))))"

definition run_rx_buffers :: "'w env \<Rightarrow> NetOptions \<Rightarrow> ('w st, u16) M" where
  "run_rx_buffers env opt =
     with_iova_check env (no_iova opt) (bindM (get_config_region env) (rx_buffers_device_scope env opt))"

section \<open>Exercise 22: observing RX packets\<close>

definition rx_observe_datapath ::
  "'w env \<Rightarrow> RxObserveOptions \<Rightarrow> ConfigRegion \<Rightarrow> u16 \<Rightarrow> MappedRegion \<Rightarrow> u64 \<Rightarrow> VirtioCap \<Rightarrow> RegionInfo \<Rightarrow> u16 \<Rightarrow>
     DmaLayout \<Rightarrow> ('w st, u16) M" where
  "rx_observe_datapath env opt config original_command m d notify notify_region original_select layout =
     (let rx_queue_base = unat (dl_rx_vring_offset layout)
      in thenM (net_post_rx env opt layout)
        (bindM (net_enable_queues env opt m d layout) (\<lambda>(rx_after, tx_after).
         bindM (map_notify_window env notify notify_region (qv_notify_off rx_after)) (\<lambda>rx_notify.
         bindM (read_used_idx env rx_queue_base (dl_rx_vring layout)) (\<lambda>used_base_idx.
         thenM (set_driver_ok env m d)
        (thenM (read_status env m d)
        (thenM (ring_doorbell env rx_notify (qv_selected rx_after))
        (thenM (wait_used env rx_queue_base (dl_rx_vring layout)
                  (\<lambda>current. used_delta used_base_idx current \<ge> ro_stop_after opt) (no_wait_ms opt))
        (bindM (read_used_idx env rx_queue_base (dl_rx_vring layout)) (\<lambda>used_after_wait.
         thenM (print_rx_used_entries env rx_queue_base (dl_rx_vring layout) used_base_idx used_after_wait)
        (thenM (dump_rx_used_buffers env rx_queue_base layout used_base_idx used_after_wait (no_rx_buffers opt)
                  (no_rx_buffer_size opt) (ro_stop_after opt) (ro_dump_bytes opt))
        (thenM (read_status env m d)
               (clean_up env config original_command m d original_select (no_iova opt) (dl_total_size layout)
                  (used_delta used_base_idx used_after_wait))))))))))))))"

definition rx_observe_queue_scope ::
  "'w env \<Rightarrow> RxObserveOptions \<Rightarrow> ConfigRegion \<Rightarrow> u16 \<Rightarrow> MappedRegion \<Rightarrow> u64 \<Rightarrow> VirtioCap \<Rightarrow> RegionInfo \<Rightarrow>
     VirtioNetConfigView \<Rightarrow> ('w st, u16) M" where
  "rx_observe_queue_scope env opt config original_command m d notify notify_region net_config =
     net_queue_scope env opt
       (\<lambda>rx_queue_size tx_queue_size. compute_dma_layout_rx (env_page_size env) rx_queue_size tx_queue_size
          (no_align opt) (no_rx_buffers opt) (no_rx_buffer_size opt))
       m d (rx_observe_datapath env opt config original_command m d notify notify_region)"

definition run_rx_observe :: "'w env \<Rightarrow> RxObserveOptions \<Rightarrow> ('w st, u16) M" where
  "run_rx_observe env opt =
     with_iova_check env (no_iova opt) (with_pci env (\<lambda>config original_command.
       net_device_scope 0 env (rx_observe_queue_scope env opt config original_command) config original_command))"

section \<open>Exercise 23: one TX packet\<close>

text \<open>The bytes of the payload and the two addresses.\<close>

definition tx_payload :: "TxOptions \<Rightarrow> u8 list" where
  "tx_payload opt = (if to_payload opt = [] then default_tx_payload else to_payload opt)"

definition tx_dst_mac :: "TxOptions \<Rightarrow> u8 list" where
  "tx_dst_mac opt = (case to_dst_mac opt of Some mac \<Rightarrow> mac | None \<Rightarrow> broadcast_mac)"

definition tx_src_mac :: "TxOptions \<Rightarrow> VirtioNetConfigView \<Rightarrow> u8 list" where
  "tx_src_mac opt net_config = (case to_src_mac opt of Some mac \<Rightarrow> mac | None \<Rightarrow> nc_mac net_config)"

text \<open>The packet is built, offered and printed before the queues are enabled.\<close>

definition tx_post_packet :: "'w env \<Rightarrow> TxOptions \<Rightarrow> VirtioNetConfigView \<Rightarrow> DmaLayout \<Rightarrow> ('w st, unit) M" where
  "tx_post_packet env opt net_config layout =
     (let tx_queue_base = unat (dl_tx_vring_offset layout);
          tx_packet = unat (dl_tx_packet_offset layout)
      in thenM (build_tx_packet tx_packet (tx_dst_mac opt) (tx_src_mac opt net_config) (to_ethertype opt)
                  (tx_payload opt) (dl_tx_packet_size layout))
        (thenM (publish_tx_packet0 tx_queue_base (dl_tx_vring layout) (no_iova opt + dl_tx_packet_offset layout)
                  (dl_tx_packet_size layout))
        (thenM (vload16 env (vring_avail_idx tx_queue_base (dl_tx_vring layout)))
        (thenM (read_used_idx env tx_queue_base (dl_tx_vring layout))
        (thenM (print_hex_dump tx_packet (dl_tx_packet_size layout) (to_dump_bytes opt))
               (returnM ()))))))"

text \<open>The wait for the device to take the packet, common to exercises 23 and 24; the number of new entries.\<close>

definition net_wait_tx :: "'w env \<Rightarrow> 'o NetOptions_scheme \<Rightarrow> DmaLayout \<Rightarrow> u16 \<Rightarrow> ('w st, u16) M" where
  "net_wait_tx env opt layout tx_used_base_idx =
     (let tx_queue_base = unat (dl_tx_vring_offset layout)
      in thenM (wait_used env tx_queue_base (dl_tx_vring layout)
                  (\<lambda>current. used_delta tx_used_base_idx current \<ge> 1) (no_wait_ms opt))
        (bindM (read_used_idx env tx_queue_base (dl_tx_vring layout)) (\<lambda>tx_used_after_wait.
         thenM (print_used_entries env tx_queue_base (dl_tx_vring layout) tx_used_base_idx tx_used_after_wait)
               (returnM (used_delta tx_used_base_idx tx_used_after_wait)))))"

definition tx_packet_datapath ::
  "'w env \<Rightarrow> TxOptions \<Rightarrow> ConfigRegion \<Rightarrow> u16 \<Rightarrow> MappedRegion \<Rightarrow> u64 \<Rightarrow> VirtioCap \<Rightarrow> RegionInfo \<Rightarrow>
     VirtioNetConfigView \<Rightarrow> u16 \<Rightarrow> DmaLayout \<Rightarrow> ('w st, u16) M" where
  "tx_packet_datapath env opt config original_command m d notify notify_region net_config original_select layout =
     (let tx_queue_base = unat (dl_tx_vring_offset layout)
      in thenM (net_post_rx env opt layout)
        (thenM (tx_post_packet env opt net_config layout)
        (bindM (net_enable_queues env opt m d layout) (\<lambda>(rx_after, tx_after).
         bindM (map_notify_window env notify notify_region (qv_notify_off rx_after)) (\<lambda>rx_notify.
         bindM (map_notify_window env notify notify_region (qv_notify_off tx_after)) (\<lambda>tx_notify.
         bindM (read_used_idx env tx_queue_base (dl_tx_vring layout)) (\<lambda>tx_used_base_idx.
         thenM (set_driver_ok env m d)
        (thenM (read_status env m d)
        (thenM (ring_doorbell env rx_notify (qv_selected rx_after))
        (thenM (ring_doorbell env tx_notify (qv_selected tx_after))
        (bindM (net_wait_tx env opt layout tx_used_base_idx) (\<lambda>taken.
         thenM (read_status env m d)
               (clean_up env config original_command m d original_select (no_iova opt) (dl_total_size layout)
                  taken)))))))))))))"

definition tx_packet_queue_scope ::
  "'w env \<Rightarrow> TxOptions \<Rightarrow> ConfigRegion \<Rightarrow> u16 \<Rightarrow> MappedRegion \<Rightarrow> u64 \<Rightarrow> VirtioCap \<Rightarrow> RegionInfo \<Rightarrow>
     VirtioNetConfigView \<Rightarrow> ('w st, u16) M" where
  "tx_packet_queue_scope env opt config original_command m d notify notify_region net_config =
     net_queue_scope env opt
       (\<lambda>rx_queue_size tx_queue_size. compute_dma_layout_packet (env_page_size env) rx_queue_size tx_queue_size
          (no_align opt) (no_rx_buffers opt) (no_rx_buffer_size opt)
          (tx_packet_size_for_payload (of_nat (length (tx_payload opt)))))
       m d (tx_packet_datapath env opt config original_command m d notify notify_region net_config)"

definition run_tx_packet :: "'w env \<Rightarrow> TxOptions \<Rightarrow> ('w st, u16) M" where
  "run_tx_packet env opt =
     with_iova_check env (no_iova opt) (with_pci env (\<lambda>config original_command.
       net_device_scope 0 env (tx_packet_queue_scope env opt config original_command) config original_command))"

section \<open>Exercise 24: one packet received and answered\<close>

definition reply_src_mac :: "ReplyOptions \<Rightarrow> VirtioNetConfigView \<Rightarrow> u8 list" where
  "reply_src_mac opt net_config = (case yo_src_mac opt of Some mac \<Rightarrow> mac | None \<Rightarrow> nc_mac net_config)"

definition no_match :: "u16 option \<Rightarrow> exn" where
  "no_match match_ethertype =
     RuntimeError (''no RX packet matched ethertype '' @
       (case match_ethertype of Some ty \<Rightarrow> ''0x'' @ hex4 (unat ty) | None \<Rightarrow> ''any''))"

text \<open>What is done with the packet that was found: the reply is built, offered and announced.\<close>

definition send_one_reply ::
  "'w env \<Rightarrow> ReplyOptions \<Rightarrow> VirtioNetConfigView \<Rightarrow> NotifyWindow \<Rightarrow> u16 \<Rightarrow> DmaLayout \<Rightarrow> ReceivedPacket \<Rightarrow>
     ('w st, u16) M" where
  "send_one_reply env opt net_config tx_notify tx_notify_value layout received =
     (let tx_queue_base = unat (dl_tx_vring_offset layout);
          tx_packet = unat (dl_tx_packet_offset layout)
      in thenM (mac_from_bytes (rp_buffer received + unat kVirtioNetHeaderSize + 6))
        (thenM (print_virtio_net_rx_buffer (rp_buffer received) (ucast (rp_used_len received)) (yo_dump_bytes opt))
        (bindM (read_used_idx env tx_queue_base (dl_tx_vring layout)) (\<lambda>tx_used_base_idx.
         bindM (build_tx_reply_from_rx tx_packet (dl_tx_packet_size layout) (rp_buffer received)
                  (ucast (rp_used_len received)) (reply_src_mac opt net_config)) (\<lambda>tx_used_len.
         thenM (publish_tx_packet0 tx_queue_base (dl_tx_vring layout) (no_iova opt + dl_tx_packet_offset layout)
                  tx_used_len)
        (thenM (vload16 env (vring_avail_idx tx_queue_base (dl_tx_vring layout)))
        (thenM (print_hex_dump tx_packet tx_used_len (yo_dump_bytes opt))
        (thenM (ring_doorbell env tx_notify tx_notify_value)
               (net_wait_tx env opt layout tx_used_base_idx)))))))))"

definition rx_tx_echo_datapath ::
  "'w env \<Rightarrow> ReplyOptions \<Rightarrow> ConfigRegion \<Rightarrow> u16 \<Rightarrow> MappedRegion \<Rightarrow> u64 \<Rightarrow> VirtioCap \<Rightarrow> RegionInfo \<Rightarrow>
     VirtioNetConfigView \<Rightarrow> u16 \<Rightarrow> DmaLayout \<Rightarrow> ('w st, u16) M" where
  "rx_tx_echo_datapath env opt config original_command m d notify notify_region net_config original_select layout =
     (let rx_queue_base = unat (dl_rx_vring_offset layout);
          tx_queue_base = unat (dl_tx_vring_offset layout)
      in thenM (net_post_rx env opt layout)
        (thenM (read_used_idx env tx_queue_base (dl_tx_vring layout))
        (bindM (net_enable_queues env opt m d layout) (\<lambda>(rx_after, tx_after).
         bindM (map_notify_window env notify notify_region (qv_notify_off rx_after)) (\<lambda>rx_notify.
         bindM (map_notify_window env notify notify_region (qv_notify_off tx_after)) (\<lambda>tx_notify.
         bindM (read_used_idx env rx_queue_base (dl_rx_vring layout)) (\<lambda>rx_used_base_idx.
         thenM (set_driver_ok env m d)
        (thenM (read_status env m d)
        (thenM (ring_doorbell env rx_notify (qv_selected rx_after))
        (bindM (wait_for_matching_rx_packet env rx_queue_base layout rx_used_base_idx (no_rx_buffers opt)
                  (no_rx_buffer_size opt) (yo_match_ethertype opt) (no_wait_ms opt)) (\<lambda>received.
         bindM (read_used_idx env rx_queue_base (dl_rx_vring layout)) (\<lambda>rx_used_after_wait.
         thenM (print_rx_used_entries env rx_queue_base (dl_rx_vring layout) rx_used_base_idx rx_used_after_wait)
        (bindM (case received of None \<Rightarrow> throwM (no_match (yo_match_ethertype opt))
                | Some packet \<Rightarrow> send_one_reply env opt net_config tx_notify (qv_selected tx_after) layout packet) (\<lambda>taken.
         thenM (read_status env m d)
               (clean_up env config original_command m d original_select (no_iova opt) (dl_total_size layout)
                  taken)))))))))))))))"

definition rx_tx_echo_queue_scope ::
  "'w env \<Rightarrow> ReplyOptions \<Rightarrow> ConfigRegion \<Rightarrow> u16 \<Rightarrow> MappedRegion \<Rightarrow> u64 \<Rightarrow> VirtioCap \<Rightarrow> RegionInfo \<Rightarrow>
     VirtioNetConfigView \<Rightarrow> ('w st, u16) M" where
  "rx_tx_echo_queue_scope env opt config original_command m d notify notify_region net_config =
     net_queue_scope env opt
       (\<lambda>rx_queue_size tx_queue_size. compute_dma_layout_packet (env_page_size env) rx_queue_size tx_queue_size
          (no_align opt) (no_rx_buffers opt) (no_rx_buffer_size opt) (no_rx_buffer_size opt))
       m d (rx_tx_echo_datapath env opt config original_command m d notify notify_region net_config)"

definition run_rx_tx_echo :: "'w env \<Rightarrow> ReplyOptions \<Rightarrow> ('w st, u16) M" where
  "run_rx_tx_echo env opt =
     with_iova_check env (no_iova opt) (with_pci env (\<lambda>config original_command.
       net_device_scope 12 env (rx_tx_echo_queue_scope env opt config original_command) config original_command))"

section \<open>The device is reset before its memory goes\<close>

lemma adds_print_used_entries [adds_rules]: "adds P (print_used_entries env b l i j)"
  by (simp add: print_used_entries_def Let_def adds_rules)

lemma adds_rx_lines [adds_rules]:
  "adds P (print_rx_used_entries env b l i j)" "adds P (dump_rx_used_buffers env b layout i j rxb rbs k dump_bytes)"
proof -
  have "adds P (rx_entry_lines env b l i is)" for "is"
    by (induction "is") (simp_all add: Let_def adds_rules)
  then show "adds P (print_rx_used_entries env b l i j)"
    by (simp add: print_rx_used_entries_def Let_def adds_rules)
  have "adds P (rx_buffer_lines env b layout i rxb rbs dump_bytes is)" for "is"
    by (induction "is") (simp_all add: Let_def adds_rules)
  then show "adds P (dump_rx_used_buffers env b layout i j rxb rbs k dump_bytes)"
    by (simp add: dump_rx_used_buffers_def Let_def adds_rules)
qed

lemma adds_rx_scan [adds_rules]: "adds P (rx_scan env b layout j rxb rbs mt is)"
  by (induction "is") (simp_all add: adds_rules)

lemma adds_wait_rx [adds_rules]: "adds P (wait_for_matching_rx_packet env b layout i rxb rbs mt wait_ms)"
proof -
  have "adds P (wait_rx_loop fuel env b layout j rxb rbs mt wait_ms dl)" for fuel j dl
    by (induction fuel arbitrary: j) (simp_all only: wait_rx_loop.simps adds_rules)
  then show ?thesis by (simp add: wait_for_matching_rx_packet_def adds_rules)
qed

lemma adds_build_tx_packet [adds_rules]: "adds P (build_tx_packet p dst src ty payload sz)"
  by (simp add: build_tx_packet_def Let_def adds_rules)

lemma adds_net [adds_rules]:
  "adds P (net_post_rx env opt layout)" "adds P (tx_post_packet env topt view layout)"
  "adds P (net_wait_tx env opt layout i)" "adds harmless (net_enable_queues env opt m d layout)"
  "adds harmless (send_one_reply env yopt view window v layout p)"
  by (simp_all add: net_post_rx_def tx_post_packet_def net_wait_tx_def net_enable_queues_def send_one_reply_def
      ring_doorbell_def publish_tx_packet0_def Let_def adds_rules)

lemma reset_and_unmap_guarded:
  assumes "has_status m d"
  shows "hoare (phase True False False)
    (thenM (reset_device env m d) (thenM reset_guard_disarm (thenM (DmaMapping_unmap env iova sz) (returnM result))))
    (\<lambda>_. guarded) (\<lambda>_. guarded)"
proof -
  have disarm: "hoare (phase True False True) reset_guard_disarm (\<lambda>_. phase False False True) (\<lambda>_. guarded)"
    by (auto simp: hoare_def reset_guard_disarm_def modifyM_def phase_def)
  have unmap: "hoare (phase False False True) (DmaMapping_unmap env iova sz) (\<lambda>_. phase False False True) (\<lambda>_. guarded)"
    by (rule hoare_weaken [OF DmaMapping_unmap_quiet]) (auto intro: guarded_phases)
  show ?thesis
    by (intro hoare_bindM [OF reset_device_quiet [OF assms]] hoare_bindM [OF disarm] hoare_bindM [OF unmap] hoare_returnM)
      (auto intro: guarded_phases)
qed

interpretation rx_buffers_path: datapath env m d "rx_buffers_datapath env opt m d notify region sel layout"
  for env :: "'w env" and opt m d notify region sel layout
proof
  assume "has_status m d"
  then show "hoare (phase True False False) (rx_buffers_datapath env opt m d notify region sel layout)
      (\<lambda>_. guarded) (\<lambda>_. guarded)"
    unfolding rx_buffers_datapath_def Let_def
    by (intro reset_and_unmap_guarded armed_step hoare_case_prod) (simp_all add: adds_rules ring_doorbell_def)
qed

interpretation rx_observe_path:
  datapath env m d "rx_observe_datapath env opt config cmd m d notify region sel layout"
  for env :: "'w env" and opt config cmd m d notify region sel layout
proof
  assume "has_status m d"
  then show "hoare (phase True False False) (rx_observe_datapath env opt config cmd m d notify region sel layout)
      (\<lambda>_. guarded) (\<lambda>_. guarded)"
    unfolding rx_observe_datapath_def Let_def
    by (intro armed_step hoare_case_prod clean_up_guarded) (simp_all add: adds_rules ring_doorbell_def)
qed

interpretation tx_packet_path:
  datapath env m d "tx_packet_datapath env opt config cmd m d notify region view sel layout"
  for env :: "'w env" and opt config cmd m d notify region view sel layout
proof
  assume "has_status m d"
  then show "hoare (phase True False False) (tx_packet_datapath env opt config cmd m d notify region view sel layout)
      (\<lambda>_. guarded) (\<lambda>_. guarded)"
    unfolding tx_packet_datapath_def Let_def
    by (intro armed_step hoare_case_prod clean_up_guarded) (simp_all add: adds_rules ring_doorbell_def)
qed

interpretation rx_tx_echo_path:
  datapath env m d "rx_tx_echo_datapath env opt config cmd m d notify region view sel layout"
  for env :: "'w env" and opt config cmd m d notify region view sel layout
proof
  assume "has_status m d"
  then show "hoare (phase True False False) (rx_tx_echo_datapath env opt config cmd m d notify region view sel layout)
      (\<lambda>_. guarded) (\<lambda>_. guarded)"
    unfolding rx_tx_echo_datapath_def Let_def
    by (intro armed_step hoare_case_prod clean_up_guarded) (simp_all add: adds_rules ring_doorbell_def)
qed

lemma net_queue_scope_safe:
  assumes "\<And>sel layout. hoare (phase False True False) (with_dma env (no_iova opt) (dl_total_size layout) m d (run sel layout))
    (\<lambda>_. memory_safe) (\<lambda>_. memory_safe)"
  shows "hoare (phase False True False) (net_queue_scope env opt compute m d run) (\<lambda>_. memory_safe) (\<lambda>_. memory_safe)"
  unfolding net_queue_scope_def
  by (intro with_selection_safe unmapped_step assms) (simp_all add: adds_rules)

lemma net_device_scope_safe:
  assumes "\<And>m d notify region view. has_status m d \<Longrightarrow> hoare (phase False True False) (queue_scope m d notify region view)
    (\<lambda>_. memory_safe) (\<lambda>_. memory_safe)"
  shows "hoare (phase False True False) (net_device_scope req env queue_scope config cmd) (\<lambda>_. memory_safe) (\<lambda>_. memory_safe)"
  unfolding net_device_scope_def
  by (intro with_virtio_min_safe unmapped_step assms) (simp_all add: adds_rules negotiate_minimal_features_def)

lemma rx_buffers_safe:
  "hoare (phase False True False) (run_rx_buffers env opt) (\<lambda>_. memory_safe) (\<lambda>_. memory_safe)"
  unfolding run_rx_buffers_def rx_buffers_device_scope_def with_iova_check_def
  by (intro unmapped_step hoare_case_prod read_status_has net_queue_scope_safe rx_buffers_path.with_dma_safe)
    (simp_all add: adds_rules negotiate_minimal_transport_features_def)

interpretation rx_observe_run:
  device_program env "\<lambda>config cmd. net_device_scope 0 env (rx_observe_queue_scope env opt config cmd) config cmd"
  for env :: "'w env" and opt
  by unfold_locales
    (intro net_device_scope_safe, unfold rx_observe_queue_scope_def, intro net_queue_scope_safe rx_observe_path.with_dma_safe)

interpretation tx_packet_run:
  device_program env "\<lambda>config cmd. net_device_scope 0 env (tx_packet_queue_scope env opt config cmd) config cmd"
  for env :: "'w env" and opt
  by unfold_locales
    (intro net_device_scope_safe, unfold tx_packet_queue_scope_def, intro net_queue_scope_safe tx_packet_path.with_dma_safe)

interpretation rx_tx_echo_run:
  device_program env "\<lambda>config cmd. net_device_scope 12 env (rx_tx_echo_queue_scope env opt config cmd) config cmd"
  for env :: "'w env" and opt
  by unfold_locales
    (intro net_device_scope_safe, unfold rx_tx_echo_queue_scope_def, intro net_queue_scope_safe rx_tx_echo_path.with_dma_safe)

lemma rx_buffers_final_trace:
  assumes "trace s = []" and "tr = trace (snd (run_rx_buffers env opt s))"
  shows "reset_first tr \<and> (mapped tr \<longrightarrow> quiet tr)"
proof -
  have "phase False True False s" using assms(1) by (simp add: phase_def)
  with rx_buffers_safe have "memory_safe (snd (run_rx_buffers env opt s))"
    by (cases "run_rx_buffers env opt s"; cases "fst (run_rx_buffers env opt s)") (auto dest: hoare_Inl hoare_Inr)
  then show ?thesis using assms(2) by (simp add: memory_safe_def)
qed

lemma net_final_traces:
  assumes "trace s = []"
  shows "tr = trace (snd (run_rx_observe env opt22 s)) \<Longrightarrow> reset_first tr \<and> (mapped tr \<longrightarrow> quiet tr)"
    and "tr = trace (snd (run_tx_packet env opt23 s)) \<Longrightarrow> reset_first tr \<and> (mapped tr \<longrightarrow> quiet tr)"
    and "tr = trace (snd (run_rx_tx_echo env opt24 s)) \<Longrightarrow> reset_first tr \<and> (mapped tr \<longrightarrow> quiet tr)"
  unfolding run_rx_observe_def run_tx_packet_def run_rx_tx_echo_def
  by (rule rx_observe_run.final_trace [OF assms] tx_packet_run.final_trace [OF assms]
      rx_tx_echo_run.final_trace [OF assms], assumption)+

text \<open>
  C22. None of exercises 21 to 24 leaves the device with access to memory it no longer owns, however it
  ends: memory is only unmapped and released after a 0 was the last thing written to the device
  status, and a device whose memory was ever mapped is left reset.
\<close>

theorem net_programs_reset_first:
  fixes env :: "'w env"
  assumes "trace s = []"
    and "tr \<in> {trace (snd (run_rx_buffers env opt21 s)), trace (snd (run_rx_observe env opt22 s)),
      trace (snd (run_tx_packet env opt23 s)), trace (snd (run_rx_tx_echo env opt24 s))}"
  shows "reset_first tr \<and> (mapped tr \<longrightarrow> quiet tr)"
proof -
  from assms(2) consider "tr = trace (snd (run_rx_buffers env opt21 s))" | "tr = trace (snd (run_rx_observe env opt22 s))"
    | "tr = trace (snd (run_tx_packet env opt23 s))" | "tr = trace (snd (run_rx_tx_echo env opt24 s))"
    by blast
  then show ?thesis
    by cases (erule rx_buffers_final_trace [OF assms(1)] net_final_traces [OF assms(1)])+
qed

definition default_rx_buffers_options :: NetOptions where
  "default_rx_buffers_options = \<lparr>no_rx_queue = 0, no_tx_queue = 1, no_queue_size = None, no_iova = 0x100000000,
     no_align = 4096, no_rx_buffers = 8, no_rx_buffer_size = 2048, no_wait_ms = 1000, no_yes = False\<rparr>"

definition default_rx_observe_options :: RxObserveOptions where
  "default_rx_observe_options = \<lparr>no_rx_queue = 0, no_tx_queue = 1, no_queue_size = None, no_iova = 0x100000000,
     no_align = 4096, no_rx_buffers = 32, no_rx_buffer_size = 2048, no_wait_ms = 10000, no_yes = False,
     ro_stop_after = 1, ro_dump_bytes = 96\<rparr>"

definition default_tx_options :: TxOptions where
  "default_tx_options = \<lparr>no_rx_queue = 0, no_tx_queue = 1, no_queue_size = None, no_iova = 0x100000000,
     no_align = 4096, no_rx_buffers = 32, no_rx_buffer_size = 2048, no_wait_ms = 5000, no_yes = False,
     to_dump_bytes = 96, to_dst_mac = None, to_src_mac = None, to_ethertype = 0x88b5, to_payload = []\<rparr>"

definition default_reply_options :: ReplyOptions where
  "default_reply_options = \<lparr>no_rx_queue = 0, no_tx_queue = 1, no_queue_size = None, no_iova = 0x100000000,
     no_align = 4096, no_rx_buffers = 64, no_rx_buffer_size = 2048, no_wait_ms = 30000, no_yes = False,
     yo_dump_bytes = 160, yo_src_mac = None, yo_match_ethertype = Some 0x88b5\<rparr>"

theorem net_programs_reset_first_witness:
  "reset_first (trace (snd (run_tx_packet quiet_env default_tx_options (start_st [] ()))))"
  by (rule conjunct1 [OF net_programs_reset_first [of "start_st [] ()" _ quiet_env
      default_rx_buffers_options default_rx_observe_options default_tx_options default_reply_options]]) (simp_all add: start_st_def)

end
