(* ===== verification/NetDefined.thy ===== *)
theory NetDefined
  imports ProgramsDefined NetRuns
begin

text \<open>Freedom from undefined behaviour for exercises 21 to 24, by the rules of Defined.thy.\<close>

section \<open>No undefined behaviour\<close>

text \<open>What a layout of these programs gives: the area, the sizes of the rings, and the place of the packet.\<close>

definition net_area :: "'o NetOptions_scheme \<Rightarrow> DmaLayout \<Rightarrow> nat \<Rightarrow> bool" where
  "net_area opt l n \<longleftrightarrow> dma_area l (no_rx_buffers opt) (no_rx_buffer_size opt) n \<and>
     no_rx_buffers opt \<le> vl_queue_size (dl_rx_vring l)"

lemma net_area_rx_layout:
  "compute_dma_layout_rx ps rxq txq (no_align opt) (no_rx_buffers opt) (no_rx_buffer_size opt) = Inr l \<Longrightarrow>
     net_area opt l (unat (dl_total_size l))"
  using vring_size_of_layout [OF dma_layout_rx_parts(1)] dma_layout_rx_parts(6)
  by (auto simp: net_area_def intro: dma_layout_rx_area)

lemma net_area_packet_layout:
  assumes "compute_dma_layout_packet ps rxq txq (no_align opt) (no_rx_buffers opt) (no_rx_buffer_size opt) tps = Inr l"
  shows "net_area opt l (unat (dl_total_size l))"
    and "unat (dl_tx_packet_offset l) + unat (dl_tx_packet_size l) \<le> unat (dl_total_size l)"
    and "dl_tx_packet_size l = tps"
  using vring_size_of_layout [OF dma_layout_packet_parts(1) [OF assms]] dma_layout_packet_parts [OF assms]
    dma_layout_packet_area [OF assms]
  by (auto simp: net_area_def dma_regions_def packed_Cons)

lemma net_area_queues:
  "net_area opt l n \<Longrightarrow> queue_at (unat (dl_rx_vring_offset l)) (dl_rx_vring l) n"
  "net_area opt l n \<Longrightarrow> queue_at (unat (dl_tx_vring_offset l)) (dl_tx_vring l) n"
  "net_area opt l n \<Longrightarrow> dma_area l (no_rx_buffers opt) (no_rx_buffer_size opt) n"
  by (simp_all add: net_area_def dma_area_def)

lemma safe_net_post_rx:
  "env_ok env \<Longrightarrow> net_area opt l n \<Longrightarrow> safe (buffer_size n) (net_post_rx env opt l)"
  unfolding net_post_rx_def Let_def
  by (intro safe_bindM safe_publish_rx_buffers safe_vload16 safe_read_used_idx queue_at_idx net_area_queues safe_returnM)
    (simp_all add: net_area_def)

lemma safe_net_enable_queues: "safe (buffer_size n) (net_enable_queues env opt m d l)"
  by (simp add: net_enable_queues_def any_rules safe_rules)

lemma safe_net_wait_tx:
  "env_ok env \<Longrightarrow> net_area opt l n \<Longrightarrow> safe (buffer_size n) (net_wait_tx env opt l i)"
  unfolding net_wait_tx_def Let_def
  by (intro safe_bindM safe_wait_used safe_read_used_idx safe_print_used_entries net_area_queues safe_returnM)

lemma safe_rx_dumps:
  assumes "env_ok env" and "net_area opt l n"
  shows "safe (buffer_size n) (print_rx_used_entries env (unat (dl_rx_vring_offset l)) (dl_rx_vring l) i j)"
    and "safe (buffer_size n)
      (dump_rx_used_buffers env (unat (dl_rx_vring_offset l)) l i j (no_rx_buffers opt) (no_rx_buffer_size opt) k dump_bytes)"
  using dump_rx_used_buffers_safe [OF assms(1) net_area_queues(3) [OF assms(2)]] by blast+

lemma rx_buffers_datapath_defined:
  assumes "env_ok env" and "net_area opt l n"
  shows "safe (buffer_size n) (rx_buffers_datapath env opt m d notify region sel l)"
  unfolding rx_buffers_datapath_def Let_def
  by (intro safe_bindM safe_case_prod safe_net_post_rx safe_net_enable_queues safe_wait_used safe_read_used_idx
      safe_rx_dumps [OF assms] net_area_queues(1) [OF assms(2)] any_rules safe_rules assms) 

lemma rx_observe_datapath_defined:
  assumes "env_ok env" and "net_area opt l n"
  shows "safe (buffer_size n) (rx_observe_datapath env opt config cmd m d notify region sel l)"
  unfolding rx_observe_datapath_def Let_def
  by (intro safe_bindM safe_case_prod safe_net_post_rx safe_net_enable_queues safe_wait_used safe_read_used_idx
      safe_rx_dumps [OF assms] net_area_queues(1) [OF assms(2)] any_rules safe_returnM assms)

lemma net_queue_scope_defined:
  assumes "\<And>rxq txq. fault_free (compute rxq txq)"
    and "\<And>sel l rxq txq. compute rxq txq = Inr l \<Longrightarrow> safe (buffer_size (unat (dl_total_size l))) (run sel l)"
  shows "defined (net_queue_scope env opt compute m d run)"
proof -
  have "fault_free (net_checks opt q)" for q by (simp add: net_checks_def fault_rules)
  then show ?thesis
    unfolding net_queue_scope_def
    by (intro defined_bind safe_bind_liftR with_selection_defined defined_bind [OF any_queues(2)] with_dma_defined assms)
      (assumption | simp add: safe_rules any_rules)+
qed

lemma net_device_scope_defined:
  assumes "\<And>m d notify region view. length (nc_mac view) = 6 \<Longrightarrow> defined (queue_scope m d notify region view)"
  shows "defined (net_device_scope req env queue_scope config cmd)"
  unfolding net_device_scope_def
  by (intro with_virtio_min_defined defined_bind defined_bind_value [OF read_virtio_net_config_mac] assms)
    (simp_all add: safe_rules any_rules)

lemma run_rx_buffers_defined: "env_ok env \<Longrightarrow> defined (run_rx_buffers env opt)"
  unfolding run_rx_buffers_def rx_buffers_device_scope_def
  by (intro with_iova_check_defined defined_bind safe_bind_liftR safe_case_prod net_queue_scope_defined
      rx_buffers_datapath_defined net_area_rx_layout fault_rules)
    (assumption | simp add: safe_rules any_rules)+

lemma run_rx_observe_defined: "env_ok env \<Longrightarrow> defined (run_rx_observe env opt)"
  unfolding run_rx_observe_def rx_observe_queue_scope_def
  by (intro with_iova_check_defined with_pci_defined net_device_scope_defined net_queue_scope_defined
      rx_observe_datapath_defined net_area_rx_layout fault_rules)

text \<open>The packets of exercises 23 and 24.\<close>

lemma safe_build_tx_packet:
  assumes "length dst = 6" and "length src = 6" and "26 + length payload \<le> unat sz" and "p + unat sz \<le> n"
  shows "safe (buffer_size n) (build_tx_packet p dst src ty payload sz)"
  unfolding build_tx_packet_def Let_def
  by (intro safe_bindM safe_store) (use assms in simp_all)

lemma tx_packet_room:
  assumes "length payload < 2 ^ 63"
  shows "26 + length payload \<le> unat (tx_packet_size_for_payload (of_nat (length payload)))"
proof -
  have "unat (of_nat (length payload) :: u64) = length payload"
    using assms by (simp add: unat_of_nat)
  with tx_packet_size_value [of "of_nat (length payload)"] assms show ?thesis by simp
qed

definition tx_options_ok :: "TxOptions \<Rightarrow> bool" where
  "tx_options_ok opt \<longleftrightarrow> length (to_payload opt) < 2 ^ 63 \<and>
     case_option True (\<lambda>mac. length mac = 6) (to_dst_mac opt) \<and> case_option True (\<lambda>mac. length mac = 6) (to_src_mac opt)"

lemma tx_options_parts:
  assumes "tx_options_ok opt"
  shows "length (tx_payload opt) < 2 ^ 63" and "length (tx_dst_mac opt) = 6"
    and "length (nc_mac view) = 6 \<Longrightarrow> length (tx_src_mac opt view) = 6"
  using assms
  by (auto simp: tx_options_ok_def tx_payload_def tx_dst_mac_def tx_src_mac_def broadcast_mac_def
      default_tx_payload_def bytes_of_string_def split: option.splits)

lemma safe_tx_post_packet:
  assumes "env_ok env" and "tx_options_ok opt" and "length (nc_mac view) = 6" and area: "net_area opt l n"
    and "unat (dl_tx_packet_offset l) + unat (dl_tx_packet_size l) \<le> n"
    and "dl_tx_packet_size l = tx_packet_size_for_payload (of_nat (length (tx_payload opt)))"
  shows "safe (buffer_size n) (tx_post_packet env opt view l)"
  unfolding tx_post_packet_def Let_def
  by (intro safe_bindM safe_build_tx_packet safe_publish_tx_packet0 safe_vload16 safe_read_used_idx safe_print_hex_dump
      queue_at_idx net_area_queues(2) [OF area] safe_returnM)
    (use assms tx_options_parts [OF assms(2)] tx_packet_room in simp_all)

lemma tx_packet_datapath_defined:
  assumes "env_ok env" and "net_area opt l n" and "safe (buffer_size n) (tx_post_packet env opt view l)"
  shows "safe (buffer_size n) (tx_packet_datapath env opt config cmd m d notify region view sel l)"
  unfolding tx_packet_datapath_def Let_def
  by (intro safe_bindM safe_case_prod safe_net_post_rx safe_net_enable_queues safe_net_wait_tx safe_read_used_idx
      net_area_queues(2) [OF assms(2)] any_rules assms)

lemma run_tx_packet_defined: "env_ok env \<Longrightarrow> tx_options_ok opt \<Longrightarrow> defined (run_tx_packet env opt)"
  unfolding run_tx_packet_def tx_packet_queue_scope_def
  by (intro with_iova_check_defined with_pci_defined net_device_scope_defined net_queue_scope_defined
      tx_packet_datapath_defined safe_tx_post_packet net_area_packet_layout fault_rules)

lemma yields_result:
  assumes "safe (buffer_size n) m" and "\<And>s a s'. m s = (Inr a, s') \<Longrightarrow> Q a"
  shows "yields n m Q"
  using assms(1) assms(2)
  by (fastforce simp: yields_def safe_def hoare_def split: sum.splits prod.splits)

lemma reply_fits:
  assumes "build_tx_reply_from_rx tx sz rx used mac s = (Inr len, s')"
  shows "len \<le> sz"
  using assms
  by (auto simp: build_tx_reply_from_rx_def Let_def bindM_def liftR_def throw_ifM_def returnM_def throwM_def split: if_splits prod.splits sum.splits)

lemma wait_for_packet_yields:
  assumes "env_ok env" and "dma_area l rxb rbs n"
  shows "yields n (wait_for_matching_rx_packet env (unat (dl_rx_vring_offset l)) l i rxb rbs mt wait_ms)
    (option_ok (packet_ok l rxb rbs mt))"
  unfolding wait_for_matching_rx_packet_def
  by (intro yields_bind_safe [OF safe_now] wait_rx_loop_yields assms)

lemma send_one_reply_safe:
  assumes env: "env_ok env" and area: "net_area opt l n"
    and tx: "unat (dl_tx_packet_offset l) + unat (dl_tx_packet_size l) \<le> n"
    and mac: "length (reply_src_mac opt view) = 6"
    and p: "packet_ok l (no_rx_buffers opt) (no_rx_buffer_size opt) mt p"
  shows "safe (buffer_size n) (send_one_reply env opt view window v l p)"
proof -
  have inside: "rp_buffer p + unat (rp_used_len p) \<le> n" "26 \<le> unat (rp_used_len p)"
    using p rx_buffer_at_bound [OF net_area_queues(3) [OF area], of "rp_desc_id p"] by (auto simp: packet_ok_def)
  have reply: "yields n (build_tx_reply_from_rx (unat (dl_tx_packet_offset l)) (dl_tx_packet_size l) (rp_buffer p)
      (ucast (rp_used_len p)) (reply_src_mac opt view)) (\<lambda>len. len \<le> dl_tx_packet_size l)"
    using inside by (intro yields_result [OF safe_build_tx_reply [OF tx _ mac]] reply_fits) simp_all
  have dump: "safe (buffer_size n) (print_hex_dump (unat (dl_tx_packet_offset l)) len k)" if "len \<le> dl_tx_packet_size l" for len k
    using tx that by (intro safe_print_hex_dump) (simp add: word_le_nat_alt)
  have "yields n (send_one_reply env opt view window v l p) (\<lambda>_. True)"
    unfolding send_one_reply_def Let_def mac_from_bytes_def
    by (intro yields_bind_safe safe_load safe_print_rx_buffer safe_read_used_idx yields_bindM [OF reply] safe_yields
        safe_publish_tx_packet0 safe_vload16 dump safe_net_wait_tx any_rules queue_at_idx net_area_queues(2) [OF area] env area)
      (use inside in \<open>simp_all add: kVirtioNetHeaderSize_def\<close>)
  then show ?thesis by (rule yields_safe)
qed

lemma rx_tx_echo_datapath_defined:
  assumes env: "env_ok env" and area: "net_area opt l n"
    and tx: "unat (dl_tx_packet_offset l) + unat (dl_tx_packet_size l) \<le> n"
    and mac: "length (reply_src_mac opt view) = 6"
  shows "safe (buffer_size n) (rx_tx_echo_datapath env opt config cmd m d notify region view sel l)"
proof -
  note wait = wait_for_packet_yields [OF env net_area_queues(3) [OF area]]
  have answer: "safe (buffer_size n) (case r of None \<Rightarrow> throwM (no_match mt)
      | Some p \<Rightarrow> send_one_reply env opt view window v l p)"
    if "option_ok (packet_ok l (no_rx_buffers opt) (no_rx_buffer_size opt) mt) r" for r window v mt
    using that send_one_reply_safe [OF env area tx mac] by (cases r) (simp_all add: safe_rules no_match_def)
  have "yields n (rx_tx_echo_datapath env opt config cmd m d notify region view sel l) (\<lambda>_. True)"
    unfolding rx_tx_echo_datapath_def Let_def
    by (intro yields_bind_safe yields_case_prod safe_net_post_rx safe_read_used_idx safe_net_enable_queues
        yields_bindM [OF wait] answer safe_rx_dumps(1) [OF env area] net_area_queues [OF area] safe_yields any_rules env area)
  then show ?thesis by (rule yields_safe)
qed

lemma run_rx_tx_echo_defined:
  assumes "env_ok env" and "case_option True (\<lambda>mac. length mac = 6) (yo_src_mac opt)"
  shows "defined (run_rx_tx_echo env opt)"
proof -
  have "length (reply_src_mac opt view) = 6" if "length (nc_mac view) = 6" for view
    using assms(2) that by (simp add: reply_src_mac_def split: option.splits)
  then show ?thesis
    unfolding run_rx_tx_echo_def rx_tx_echo_queue_scope_def
    by (intro with_iova_check_defined with_pci_defined net_device_scope_defined net_queue_scope_defined
        rx_tx_echo_datapath_defined assms(1) net_area_packet_layout fault_rules)
qed

end
