(* ===== verification/CtrlMain.thy ===== *)
theory CtrlMain
  imports CtrlRun EchoMain
begin

text \<open>
  The command lines of the exercises 27 to 30: \<open>parse_on_off\<close>, the options of each program, the checks
  between them and the run.
\<close>

section \<open>The command lines\<close>

definition parse_on_off :: "string \<Rightarrow> string \<Rightarrow> bool res" where
  "parse_on_off w name =
     (if w = ''on'' \<or> w = ''1'' \<or> w = ''true'' \<or> w = ''yes'' then Inr True
      else if w = ''off'' \<or> w = ''0'' \<or> w = ''false'' \<or> w = ''no'' then Inr False
      else Inl (invalid name w))"

text \<open>The options with a value: the ones all four programs have, those of the observing programs, and the one of each.\<close>

definition ctrl_value_option :: "string \<Rightarrow> string \<Rightarrow> 'o CtrlOptions_scheme \<Rightarrow> 'o CtrlOptions_scheme option res" where
  "ctrl_value_option arg v opt =
     (if arg = ''--rx-queue'' then bindR (parse_u16 v ''rx-queue'') (\<lambda>x. Inr (Some (opt\<lparr>co_rx_queue := x\<rparr>)))
      else if arg = ''--tx-queue'' then bindR (parse_u16 v ''tx-queue'') (\<lambda>x. Inr (Some (opt\<lparr>co_tx_queue := x\<rparr>)))
      else if arg = ''--ctrl-queue'' then bindR (parse_u16 v ''ctrl-queue'') (\<lambda>x. Inr (Some (opt\<lparr>co_ctrl_queue := x\<rparr>)))
      else if arg = ''--queue-size'' then bindR (parse_u16 v ''queue-size'') (\<lambda>x. Inr (Some (opt\<lparr>co_queue_size := Some x\<rparr>)))
      else if arg = ''--rx-buffers'' then bindR (parse_u16 v ''rx-buffers'') (\<lambda>x. Inr (Some (opt\<lparr>co_rx_buffers := x\<rparr>)))
      else if arg = ''--rx-buffer-size'' then bindR (parse_ull v ''rx-buffer-size'') (\<lambda>x. Inr (Some (opt\<lparr>co_rx_buffer_size := x\<rparr>)))
      else if arg = ''--iova'' then bindR (parse_ull v ''iova'') (\<lambda>x. Inr (Some (opt\<lparr>co_iova := x\<rparr>)))
      else if arg = ''--align'' then bindR (parse_ull v ''align'') (\<lambda>x. Inr (Some (opt\<lparr>co_align := x\<rparr>)))
      else if arg = ''--wait-ms'' then bindR (parse_u32 v ''wait-ms'') (\<lambda>x. Inr (Some (opt\<lparr>co_wait_ms := x\<rparr>)))
      else Inr None)"

definition observe_value_option :: "string \<Rightarrow> string \<Rightarrow> 'o ObserveOptions_scheme \<Rightarrow> 'o ObserveOptions_scheme option res" where
  "observe_value_option arg v opt =
     (if arg = ''--stop-after'' then bindR (parse_u16 v ''stop-after'') (\<lambda>x. Inr (Some (opt\<lparr>co_stop_after := x\<rparr>)))
      else if arg = ''--match-ethertype'' then bindR (parse_u16 v ''match-ethertype'') (\<lambda>x. Inr (Some (opt\<lparr>co_match_ethertype := Some x\<rparr>)))
      else if arg = ''--dump-bytes'' then bindR (parse_ull v ''dump-bytes'') (\<lambda>x. Inr (Some (opt\<lparr>co_dump_bytes := x\<rparr>)))
      else ctrl_value_option arg v opt)"

definition control_value_option :: "string \<Rightarrow> string \<Rightarrow> ControlOptions \<Rightarrow> ControlOptions option res" where
  "control_value_option arg v opt =
     (if arg = ''--promisc'' then bindR (parse_on_off v ''promisc'') (\<lambda>x. Inr (Some (opt\<lparr>cn_promisc := x\<rparr>)))
      else ctrl_value_option arg v opt)"

definition promisc_value_option :: "string \<Rightarrow> string \<Rightarrow> PromiscOptions \<Rightarrow> PromiscOptions option res" where
  "promisc_value_option arg v opt =
     (if arg = ''--promisc'' then bindR (parse_on_off v ''promisc'') (\<lambda>x. Inr (Some (opt\<lparr>co_promisc := x\<rparr>)))
      else observe_value_option arg v opt)"

definition mac_addr_value_option :: "string \<Rightarrow> string \<Rightarrow> MacAddrOptions \<Rightarrow> MacAddrOptions option res" where
  "mac_addr_value_option arg v opt =
     (if arg = ''--new-mac'' then bindR (parse_mac v ''new-mac'') (\<lambda>x. Inr (Some (opt\<lparr>co_new_mac := x\<rparr>)))
      else observe_value_option arg v opt)"

definition mac_table_value_option :: "string \<Rightarrow> string \<Rightarrow> MacTableOptions \<Rightarrow> MacTableOptions option res" where
  "mac_table_value_option arg v opt =
     (if arg = ''--filter-mac'' then bindR (parse_mac v ''filter-mac'') (\<lambda>x. Inr (Some (opt\<lparr>co_filter_mac := x\<rparr>)))
      else observe_value_option arg v opt)"

definition ctrl_flag_option :: "string \<Rightarrow> 'o CtrlOptions_scheme \<Rightarrow> 'o CtrlOptions_scheme option" where
  "ctrl_flag_option arg opt =
     (if arg = ''--dry-run'' then Some (opt\<lparr>co_yes := False\<rparr>)
      else if arg = ''--yes'' then Some (opt\<lparr>co_yes := True\<rparr>) else None)"

definition observe_flag_option :: "string \<Rightarrow> 'o ObserveOptions_scheme \<Rightarrow> 'o ObserveOptions_scheme option" where
  "observe_flag_option arg opt =
     (if arg = ''--accept-any-ethertype'' then Some (opt\<lparr>co_match_ethertype := None\<rparr>)
      else if arg = ''--dump-every-packet'' then Some (opt\<lparr>co_dump_every_packet := True\<rparr>)
      else ctrl_flag_option arg opt)"

text \<open>The checks between the arguments and the run.\<close>

definition ctrl_option_checks :: "'o CtrlOptions_scheme \<Rightarrow> unit res" where
  "ctrl_option_checks opt =
     bindR (throw_if (\<not> is_power_of_two (co_align opt) \<or> co_align opt < kVringUsedAlignSize)
       (RuntimeError ''align must be a power of two and at least 4 bytes'')) (\<lambda>_.
     throw_if (co_wait_ms opt = 0) (RuntimeError ''wait-ms must be greater than 0''))"

definition observe_option_checks :: "'o ObserveOptions_scheme \<Rightarrow> unit res" where
  "observe_option_checks opt =
     bindR (ctrl_option_checks opt) (\<lambda>_.
     throw_if (co_stop_after opt = 0) (RuntimeError ''stop-after must be greater than 0''))"

text \<open>
  \<open>main\<close> up to the choice between the run and \<open>dry_run\<close>, for the options and checks of one program.
\<close>

definition ctrl_main ::
  "(string \<Rightarrow> string \<Rightarrow> 'o \<Rightarrow> 'o option res) \<Rightarrow> (string \<Rightarrow> 'o \<Rightarrow> 'o option) \<Rightarrow> 'o \<Rightarrow> ('o \<Rightarrow> unit res) \<Rightarrow>
     (string \<Rightarrow> bool) \<Rightarrow> string list \<Rightarrow> (string \<times> 'o) option res" where
  "ctrl_main value_option flag_option initial checks exists args =
     (case args of [] \<Rightarrow> Inr None
      | bdf_text # rest \<Rightarrow>
          let bdf = normalize_bdf bdf_text
          in if \<not> exists bdf then Inr None
             else bindR (option_loop value_option flag_option rest initial) (\<lambda>r.
               case r of None \<Rightarrow> Inr None
               | Some opt \<Rightarrow> bindR (checks opt) (\<lambda>_. Inr (Some (bdf, opt)))))"

definition default_control_options :: ControlOptions where
  "default_control_options = \<lparr>co_rx_queue = 0, co_tx_queue = 1, co_ctrl_queue = 2, co_queue_size = None,
     co_iova = 0x100000000, co_align = 4096, co_rx_buffers = 64, co_rx_buffer_size = 2048, co_wait_ms = 5000,
     co_yes = False, cn_promisc = True\<rparr>"

definition default_promisc_options :: PromiscOptions where
  "default_promisc_options = \<lparr>co_rx_queue = 0, co_tx_queue = 1, co_ctrl_queue = 2, co_queue_size = None,
     co_iova = 0x100000000, co_align = 4096, co_rx_buffers = 64, co_rx_buffer_size = 2048, co_wait_ms = 60000,
     co_yes = False, co_stop_after = 1, co_dump_bytes = 160, co_match_ethertype = Some 0x88b5,
     co_dump_every_packet = False, co_promisc = True\<rparr>"

definition default_mac_addr_options :: MacAddrOptions where
  "default_mac_addr_options = \<lparr>co_rx_queue = 0, co_tx_queue = 1, co_ctrl_queue = 2, co_queue_size = None,
     co_iova = 0x100000000, co_align = 4096, co_rx_buffers = 64, co_rx_buffer_size = 2048, co_wait_ms = 60000,
     co_yes = False, co_stop_after = 1, co_dump_bytes = 160, co_match_ethertype = Some 0x88b5,
     co_dump_every_packet = False, co_new_mac = [0x02, 0x00, 0x00, 0x00, 0x29, 0x01]\<rparr>"

definition default_mac_table_options :: MacTableOptions where
  "default_mac_table_options = \<lparr>co_rx_queue = 0, co_tx_queue = 1, co_ctrl_queue = 2, co_queue_size = None,
     co_iova = 0x100000000, co_align = 4096, co_rx_buffers = 64, co_rx_buffer_size = 2048, co_wait_ms = 60000,
     co_yes = False, co_stop_after = 1, co_dump_bytes = 160, co_match_ethertype = Some 0x88b5,
     co_dump_every_packet = False, co_filter_mac = [0x02, 0x00, 0x00, 0x00, 0x30, 0x01]\<rparr>"

definition control_main where
  "control_main = ctrl_main control_value_option ctrl_flag_option default_control_options ctrl_option_checks"

definition promisc_main where
  "promisc_main = ctrl_main promisc_value_option observe_flag_option default_promisc_options observe_option_checks"

definition mac_addr_main where
  "mac_addr_main = ctrl_main mac_addr_value_option observe_flag_option default_mac_addr_options observe_option_checks"

definition mac_table_main where
  "mac_table_main = ctrl_main mac_table_value_option observe_flag_option default_mac_table_options observe_option_checks"

section \<open>What the command lines guarantee\<close>

lemma option_steps:
  "ctrl_value_option arg v opt = Inr (Some opt') \<Longrightarrow> CtrlOptions.more opt' = CtrlOptions.more opt"
  "ctrl_flag_option arg opt = Some opt' \<Longrightarrow> CtrlOptions.more opt' = CtrlOptions.more opt"
  by (auto simp: ctrl_value_option_def ctrl_flag_option_def res_iff split: if_splits)

lemma observe_option_steps:
  "observe_value_option arg v opt = Inr (Some opt') \<Longrightarrow> ObserveOptions.more opt' = ObserveOptions.more opt"
  "observe_flag_option arg opt = Some opt' \<Longrightarrow> ObserveOptions.more opt' = ObserveOptions.more opt"
  by (auto simp: observe_value_option_def observe_flag_option_def ctrl_value_option_def ctrl_flag_option_def res_iff split: if_splits)

abbreviation six_bytes :: "MacAddrOptions \<Rightarrow> bool" where
  "six_bytes opt \<equiv> length (co_new_mac opt) = 6"

lemma mac_addr_value_keeps:
  assumes "mac_addr_value_option arg v o1 = Inr (Some o2)" and "six_bytes o1"
  shows "six_bytes o2"
proof (cases "arg = ''--new-mac''")
  case True
  with assms show ?thesis by (auto simp: mac_addr_value_option_def res_iff intro: parse_mac_length)
next
  case False
  with assms observe_option_steps(1) [of arg v o1 o2] show ?thesis
    by (cases o1, cases o2) (simp add: mac_addr_value_option_def)
qed

lemma mac_addr_flag_keeps: "observe_flag_option arg o1 = Some o2 \<Longrightarrow> six_bytes o1 \<Longrightarrow> six_bytes o2"
  using observe_option_steps(2) [of arg o1 o2] by (cases o1, cases o2) simp

lemma mac_addr_loop:
  "option_loop mac_addr_value_option observe_flag_option args opt = Inr (Some opt') \<Longrightarrow> six_bytes opt \<Longrightarrow> six_bytes opt'"
  by (rule option_loop_keeps [where P = six_bytes])
    (erule (1) mac_addr_value_keeps | erule (1) mac_addr_flag_keeps | assumption)+

lemma ctrl_main_accepted:
  assumes "ctrl_main value_option flag_option initial checks exists args = Inr (Some (bdf, opt))"
  obtains rest where "option_loop value_option flag_option rest initial = Inr (Some opt)" and "checks opt = Inr ()" and "exists bdf"
  using assms by (auto simp: ctrl_main_def Let_def res_iff split: list.splits if_splits option.splits)

text \<open>
  What exercise 29 accepts it can deliver: options that pass \<open>main\<close> name an existing device, ask for at
  least one packet and a positive wait, and carry a MAC address of six bytes, so that in any DMA area
  laid out for the run the device is offered exactly that address as the new one.
\<close>

theorem mac_addr_main_delivers:
  assumes "mac_addr_main exists args = Inr (Some (bdf, opt))"
    and "compute_ctrlq_dma_layout ps rxq txq cq (co_align opt) (co_rx_buffers opt) (co_rx_buffer_size opt) kVirtioNetCtrlMacAddrSize = Inr l"
    and "9 \<le> page_bytes ps" and "length (mem s) = unat (cl_total_size l)"
  shows "exists bdf \<and> 0 < co_stop_after opt \<and> 0 < co_wait_ms opt \<and>
    (\<exists>m'. publish_mac_addr_control_command (unat (cl_ctrl_vring_offset l)) l (co_iova opt) (co_new_mac opt) s =
       (Inr (), s\<lparr>mem := m'\<rparr>) \<and> delivered l (co_iova opt) m' ([1, 1] @ co_new_mac opt))"
proof -
  from assms(1) obtain rest where rest: "option_loop mac_addr_value_option observe_flag_option rest default_mac_addr_options = Inr (Some opt)"
    "observe_option_checks opt = Inr ()" "exists bdf"
    unfolding mac_addr_main_def by (rule ctrl_main_accepted)
  have mac: "length (co_new_mac opt) = 6"
    by (rule mac_addr_loop [OF rest(1)]) (simp add: default_mac_addr_options_def)
  have pos: "0 < co_stop_after opt" "0 < co_wait_ms opt"
    using rest(2) by (simp_all add: observe_option_checks_def ctrl_option_checks_def res_iff word_gt_0)
  have room: "unat kVirtioNetCtrlMacAddrSize + 3 \<le> page_bytes ps" using assms(3) by (simp add: kVirtioNetCtrlMacAddrSize_def)
  have ds: "cl_ctrl_data_size l = kVirtioNetCtrlMacAddrSize" by (rule ctrlq_layout_parts [OF assms(2) room])
  have area: "ctrl_area l (length (mem s))" using ctrlq_layout_area [OF assms(2) room] assms(4) by simp
  from mac_addr_run [OF area mac, of "co_iova opt"] ds rest(3) pos show ?thesis
    by (auto simp: kVirtioNetCtrlMacAddrSize_def kVirtioNetCtrlMac_def kVirtioNetCtrlMacAddrSet_def)
qed

theorem mac_addr_main_delivers_witness:
  "\<exists>opt l m'. mac_addr_main (\<lambda>_. True) [''c1:00.6'', ''--yes''] = Inr (Some (''0000:c1:00.6'', opt)) \<and>
     publish_mac_addr_control_command (unat (cl_ctrl_vring_offset l)) l (co_iova opt) (co_new_mac opt)
       (quiet_st (unat (cl_total_size l))) = (Inr (), (quiet_st (unat (cl_total_size l)))\<lparr>mem := m'\<rparr>) \<and>
     delivered l (co_iova opt) m' [1, 1, 2, 0, 0, 0, 0x29, 1]"
proof -
  let ?opt = "default_mac_addr_options\<lparr>co_yes := True\<rparr>"
  have "is_power_of_two 4096" by code_simp
  then have main: "mac_addr_main (\<lambda>_. True) [''c1:00.6'', ''--yes''] = Inr (Some (''0000:c1:00.6'', ?opt))"
    by (simp add: mac_addr_main_def ctrl_main_def normalize_bdf_def observe_flag_option_def ctrl_flag_option_def
        default_mac_addr_options_def observe_option_checks_def ctrl_option_checks_def kVringUsedAlignSize_def)
  have "\<exists>l. compute_ctrlq_dma_layout 4096 256 256 64 4096 64 2048 6 = Inr l"
    by (intro exI) code_simp
  then obtain l where l: "compute_ctrlq_dma_layout 4096 256 256 64 (co_align ?opt) (co_rx_buffers ?opt)
      (co_rx_buffer_size ?opt) kVirtioNetCtrlMacAddrSize = Inr l"
    by (auto simp: default_mac_addr_options_def kVirtioNetCtrlMacAddrSize_def)
  from mac_addr_main_delivers [OF main l, of "quiet_st (unat (cl_total_size l))"] obtain m' where
    "publish_mac_addr_control_command (unat (cl_ctrl_vring_offset l)) l (co_iova ?opt) (co_new_mac ?opt)
       (quiet_st (unat (cl_total_size l))) = (Inr (), (quiet_st (unat (cl_total_size l)))\<lparr>mem := m'\<rparr>)"
    "delivered l (co_iova ?opt) m' ([1, 1] @ co_new_mac ?opt)"
    by (auto simp: quiet_st_def start_st_def)
  with main show ?thesis by (intro exI [of _ ?opt] exI [of _ l] exI [of _ m']) (simp add: default_mac_addr_options_def)
qed

end
