(* ===== verification/NetMain.thy ===== *)
theory NetMain
  imports NetDefined CtrlMain
begin

text \<open>
  Exercises 21 to 24 to their ends: the packet exercise 23 offers to the device, the four command
  lines, and what they guarantee of the options that reach the device.
\<close>

section \<open>What the device finds in exercise 23\<close>

definition publish_mem :: "nat \<Rightarrow> VringLayout \<Rightarrow> u64 \<Rightarrow> u32 \<Rightarrow> u8 list \<Rightarrow> u8 list" where
  "publish_mem b l iova len m =
     overwrite (vring_avail_idx b l) (le_bytes 2 (1 :: u16))
       (overwrite (vring_avail_ring b l) (le_bytes 2 (0 :: u16)) (desc_mem (vring_descs b l) iova len 0 0 m))"

lemma queue_at_first: "queue_at b l n \<Longrightarrow> 0 < unat (vl_queue_size l)"
  by (simp add: queue_at_def vring_wf_def)

lemma publish_tx_packet0_run:
  assumes "queue_at b l (length (mem s))" and "sz \<le> 0xffffffff"
  shows "publish_tx_packet0 b l iova sz s = (Inr (), s\<lparr>mem := publish_mem b l iova (ucast sz) (mem s)\<rparr>)"
  using queue_at_bounds [OF assms(1) queue_at_first [OF assms(1)]] queue_at_idx [OF assms(1)]
    store_desc_eq [of "vring_descs b l" 0 s] leD [OF assms(2)]
  by (simp add: publish_tx_packet0_def throw_ifM_def returnM_def bindM_def store_eqs publish_mem_def)

lemma publish_mem_offers:
  assumes at: "queue_at b l (length m)"
  shows "avail_idx_of b l (publish_mem b l iova len m) = 1" and "avail_at b l (publish_mem b l iova len m) 0 = 0"
    and "desc_at b l (publish_mem b l iova len m) 0 = \<lparr>vd_addr = iova, vd_len = len, vd_flags = 0, vd_next = 0\<rparr>"
    and "q + k \<le> length m \<Longrightarrow> b + unat (vl_used_offset l) \<le> q \<Longrightarrow> segment q k (publish_mem b l iova len m) = segment q k m"
proof -
  note f = queue_at_first [OF at]
  note d = queue_at_bounds [OF at f] table_apart [OF at f] ring_apart [OF at f]
  show "avail_idx_of b l (publish_mem b l iova len m) = 1" "avail_at b l (publish_mem b l iova len m) 0 = 0"
    using d by (simp_all add: publish_mem_def avail_idx_of_def avail_at_def rd_other)
  have "desc_at b l (publish_mem b l iova len m) 0 = desc_at b l (desc_mem (vring_descs b l) iova len 0 0 m) 0"
    using d by (simp add: publish_mem_def desc_at_def Let_def rd_other)
  then show "desc_at b l (publish_mem b l iova len m) 0 = \<lparr>vd_addr = iova, vd_len = len, vd_flags = 0, vd_next = 0\<rparr>"
    using d by (simp add: desc_mem_at)
  show "segment q k (publish_mem b l iova len m) = segment q k m"
    if "q + k \<le> length m" "b + unat (vl_used_offset l) \<le> q"
    using that d by (simp add: publish_mem_def segment_overwrite_other desc_mem_other)
qed

text \<open>The packet stands behind both queues.\<close>

lemma packet_behind_tx_queue:
  assumes "compute_dma_layout_packet ps rxq txq al rxb rbs tps = Inr l"
  shows "unat (dl_tx_vring_offset l) + unat (vl_used_offset (dl_tx_vring l)) \<le> unat (dl_tx_packet_offset l)"
    and "unat (dl_tx_packet_offset l) + unat tps \<le> unat (dl_total_size l)"
    and "queue_at (unat (dl_tx_vring_offset l)) (dl_tx_vring l) (unat (dl_total_size l))"
  using dma_layout_packet_parts [OF assms] dma_layout_packet_area [OF assms]
    compute_vring_layout_fields(5) [OF dma_layout_packet_parts(2) [OF assms]]
  by (auto simp: dma_regions_def packed_Cons dma_area_def queue_at_def vring_wf_def)

text \<open>
  What exercise 23 offers to the device. With the layout it computes for its payload, building and
  publishing the packet succeeds, and then the TX queue offers one chain, descriptor 0; the
  descriptor is device-readable and points at the packet's place in the mapping, with the length of
  the packet; and at that place stand an empty virtio-net header, the two addresses, the ethertype in
  network order, the payload and zeros up to the Ethernet minimum.
\<close>

theorem tx_packet_offered:
  assumes layout: "compute_dma_layout_packet ps rxq txq al rxb rbs
      (tx_packet_size_for_payload (of_nat (length (tx_payload opt)))) = Inr l"
    and opt: "tx_options_ok opt" "length (nc_mac view) = 6" and short: "length (tx_payload opt) < 2 ^ 31"
    and buf: "length (mem s) = unat (dl_total_size l)"
  shows "\<exists>m. thenM (build_tx_packet (unat (dl_tx_packet_offset l)) (tx_dst_mac opt) (tx_src_mac opt view)
        (to_ethertype opt) (tx_payload opt) (dl_tx_packet_size l))
      (publish_tx_packet0 (unat (dl_tx_vring_offset l)) (dl_tx_vring l) (iova + dl_tx_packet_offset l)
        (dl_tx_packet_size l)) s = (Inr (), s\<lparr>mem := m\<rparr>) \<and>
    avail_idx_of (unat (dl_tx_vring_offset l)) (dl_tx_vring l) m = 1 \<and>
    avail_at (unat (dl_tx_vring_offset l)) (dl_tx_vring l) m 0 = 0 \<and>
    desc_at (unat (dl_tx_vring_offset l)) (dl_tx_vring l) m 0 =
      \<lparr>vd_addr = iova + dl_tx_packet_offset l, vd_len = ucast (dl_tx_packet_size l), vd_flags = 0, vd_next = 0\<rparr> \<and>
    unat (dl_tx_packet_size l) = 26 + max (length (tx_payload opt)) 46 \<and>
    segment (unat (dl_tx_packet_offset l)) (unat (dl_tx_packet_size l)) m =
      test_packet_bytes (tx_dst_mac opt) (tx_src_mac opt view) (to_ethertype opt) (tx_payload opt)
        (unat (dl_tx_packet_size l))"
proof -
  let ?p = "unat (dl_tx_packet_offset l)" and ?b = "unat (dl_tx_vring_offset l)" and ?v = "dl_tx_vring l"
  let ?sz = "dl_tx_packet_size l"
  let ?bytes = "test_packet_bytes (tx_dst_mac opt) (tx_src_mac opt view) (to_ethertype opt) (tx_payload opt) (unat ?sz)"
  let ?m1 = "overwrite ?p ?bytes (mem s)" and ?iova = "iova + dl_tx_packet_offset l"
  note o = tx_options_parts [OF opt(1)] and place = packet_behind_tx_queue [OF layout]
  have sz: "?sz = tx_packet_size_for_payload (of_nat (length (tx_payload opt)))"
    using dma_layout_packet_parts(6) [OF layout] .
  from place(2) buf have fits: "?p + unat ?sz \<le> length (mem s)" by (simp add: sz)
  from build_tx_packet_correct [OF o(2) o(3) [OF opt(2)] o(1) sz fits]
  have build: "build_tx_packet ?p (tx_dst_mac opt) (tx_src_mac opt view) (to_ethertype opt) (tx_payload opt) ?sz s =
      (Inr (), s\<lparr>mem := ?m1\<rparr>)" and n: "unat ?sz = 26 + max (length (tx_payload opt)) 46"
    by blast+
  have bytes: "length ?bytes = unat ?sz"
    using n o(2) o(3) [OF opt(2)] by (simp add: test_packet_bytes_def)
  have at: "queue_at ?b ?v (length ?m1)" using place(3) buf fits bytes by simp
  have "?sz \<le> 0xffffffff" using n short by (simp add: word_le_nat_alt)
  with at have publish: "publish_tx_packet0 ?b ?v ?iova ?sz (s\<lparr>mem := ?m1\<rparr>) =
      (Inr (), s\<lparr>mem := publish_mem ?b ?v ?iova (ucast ?sz) ?m1\<rparr>)"
    by (subst publish_tx_packet0_run) simp_all
  have "segment ?p (unat ?sz) (publish_mem ?b ?v ?iova (ucast ?sz) ?m1) = segment ?p (unat ?sz) ?m1"
    by (rule publish_mem_offers(4) [OF at _ place(1)]) (use fits bytes in simp)
  also have "\<dots> = ?bytes" using fits bytes by (metis segment_overwrite_same)
  finally have there: "segment ?p (unat ?sz) (publish_mem ?b ?v ?iova (ucast ?sz) ?m1) = ?bytes" .
  have run: "thenM (build_tx_packet ?p (tx_dst_mac opt) (tx_src_mac opt view) (to_ethertype opt) (tx_payload opt) ?sz)
      (publish_tx_packet0 ?b ?v ?iova ?sz) s = (Inr (), s\<lparr>mem := publish_mem ?b ?v ?iova (ucast ?sz) ?m1\<rparr>)"
    by (rule bindM_run, rule build, rule publish)
  show ?thesis
    by (intro exI [of _ "publish_mem ?b ?v ?iova (ucast ?sz) ?m1"] conjI run publish_mem_offers(1-3) [OF at] n there)
qed

theorem tx_packet_offered_witness:
  "\<exists>l m. compute_dma_layout_packet 4096 256 256 4096 32 2048 72 = Inr l \<and>
     avail_idx_of (unat (dl_tx_vring_offset l)) (dl_tx_vring l) m = 1 \<and>
     segment (unat (dl_tx_packet_offset l)) (unat (dl_tx_packet_size l)) m =
       test_packet_bytes broadcast_mac [2, 0, 0, 0, 0, 1] 0x88b5 [9, 9] (unat (dl_tx_packet_size l))"
proof -
  let ?opt = "default_tx_options\<lparr>to_payload := [9, 9], to_src_mac := Some [2, 0, 0, 0, 0, 1]\<rparr>"
  let ?view = "\<lparr>nc_mac = [0, 0, 0, 0, 0, 0], nc_status = None, nc_max_virtqueue_pairs = None, nc_mtu = None\<rparr>"
  have "\<exists>l. compute_dma_layout_packet 4096 256 256 4096 32 2048 72 = Inr l"
    by (intro exI) code_simp
  then obtain l where l: "compute_dma_layout_packet 4096 256 256 4096 32 2048 72 = Inr l" ..
  have parts: "tx_payload ?opt = [9, 9]" "tx_dst_mac ?opt = broadcast_mac" "tx_src_mac ?opt ?view = [2, 0, 0, 0, 0, 1]"
    "to_ethertype ?opt = 0x88b5" "tx_options_ok ?opt"
    by (simp_all add: tx_payload_def tx_dst_mac_def tx_src_mac_def default_tx_options_def tx_options_ok_def)
  have sz: "tx_packet_size_for_payload (of_nat (length (tx_payload ?opt))) = 72"
    unfolding parts by code_simp
  let ?s = "quiet_st (unat (dl_total_size l))"
  have "\<exists>m. avail_idx_of (unat (dl_tx_vring_offset l)) (dl_tx_vring l) m = 1 \<and>
      segment (unat (dl_tx_packet_offset l)) (unat (dl_tx_packet_size l)) m =
        test_packet_bytes (tx_dst_mac ?opt) (tx_src_mac ?opt ?view) (to_ethertype ?opt) (tx_payload ?opt)
          (unat (dl_tx_packet_size l))"
    using tx_packet_offered [where opt = ?opt and view = ?view and s = ?s and iova = "0x100000000", OF l [folded sz] parts(5)]
    by (auto simp: parts(1) quiet_st_def start_st_def)
  then show ?thesis using l unfolding parts by blast
qed

section \<open>The command lines\<close>

definition net_value_option :: "string \<Rightarrow> string \<Rightarrow> 'o NetOptions_scheme \<Rightarrow> 'o NetOptions_scheme option res" where
  "net_value_option arg v opt =
     (if arg = ''--rx-queue'' then bindR (parse_u16 v ''rx-queue'') (\<lambda>x. Inr (Some (opt\<lparr>no_rx_queue := x\<rparr>)))
      else if arg = ''--tx-queue'' then bindR (parse_u16 v ''tx-queue'') (\<lambda>x. Inr (Some (opt\<lparr>no_tx_queue := x\<rparr>)))
      else if arg = ''--queue-size'' then bindR (parse_u16 v ''queue-size'') (\<lambda>x. Inr (Some (opt\<lparr>no_queue_size := Some x\<rparr>)))
      else if arg = ''--rx-buffers'' then bindR (parse_u16 v ''rx-buffers'') (\<lambda>x. Inr (Some (opt\<lparr>no_rx_buffers := x\<rparr>)))
      else if arg = ''--rx-buffer-size'' then bindR (parse_ull v ''rx-buffer-size'') (\<lambda>x. Inr (Some (opt\<lparr>no_rx_buffer_size := x\<rparr>)))
      else if arg = ''--iova'' then bindR (parse_ull v ''iova'') (\<lambda>x. Inr (Some (opt\<lparr>no_iova := x\<rparr>)))
      else if arg = ''--align'' then bindR (parse_ull v ''align'') (\<lambda>x. Inr (Some (opt\<lparr>no_align := x\<rparr>)))
      else if arg = ''--wait-ms'' then bindR (parse_u32 v ''wait-ms'') (\<lambda>x. Inr (Some (opt\<lparr>no_wait_ms := x\<rparr>)))
      else Inr None)"

definition net_flag_option :: "string \<Rightarrow> 'o NetOptions_scheme \<Rightarrow> 'o NetOptions_scheme option" where
  "net_flag_option arg opt =
     (if arg = ''--dry-run'' then Some (opt\<lparr>no_yes := False\<rparr>)
      else if arg = ''--yes'' then Some (opt\<lparr>no_yes := True\<rparr>) else None)"

definition rx_observe_value_option :: "string \<Rightarrow> string \<Rightarrow> RxObserveOptions \<Rightarrow> RxObserveOptions option res" where
  "rx_observe_value_option arg v opt =
     (if arg = ''--stop-after'' then bindR (parse_u16 v ''stop-after'') (\<lambda>x. Inr (Some (opt\<lparr>ro_stop_after := x\<rparr>)))
      else if arg = ''--dump-bytes'' then bindR (parse_ull v ''dump-bytes'') (\<lambda>x. Inr (Some (opt\<lparr>ro_dump_bytes := x\<rparr>)))
      else net_value_option arg v opt)"

definition tx_value_option :: "string \<Rightarrow> string \<Rightarrow> TxOptions \<Rightarrow> TxOptions option res" where
  "tx_value_option arg v opt =
     (if arg = ''--dst-mac'' then bindR (parse_mac v ''dst-mac'') (\<lambda>x. Inr (Some (opt\<lparr>to_dst_mac := Some x\<rparr>)))
      else if arg = ''--src-mac'' then bindR (parse_mac v ''src-mac'') (\<lambda>x. Inr (Some (opt\<lparr>to_src_mac := Some x\<rparr>)))
      else if arg = ''--ethertype'' then bindR (parse_u16 v ''ethertype'') (\<lambda>x. Inr (Some (opt\<lparr>to_ethertype := x\<rparr>)))
      else if arg = ''--payload-hex'' then bindR (parse_hex_bytes v ''payload-hex'') (\<lambda>x. Inr (Some (opt\<lparr>to_payload := x\<rparr>)))
      else if arg = ''--dump-bytes'' then bindR (parse_ull v ''dump-bytes'') (\<lambda>x. Inr (Some (opt\<lparr>to_dump_bytes := x\<rparr>)))
      else net_value_option arg v opt)"

definition reply_value_option :: "string \<Rightarrow> string \<Rightarrow> ReplyOptions \<Rightarrow> ReplyOptions option res" where
  "reply_value_option arg v opt =
     (if arg = ''--src-mac'' then bindR (parse_mac v ''src-mac'') (\<lambda>x. Inr (Some (opt\<lparr>yo_src_mac := Some x\<rparr>)))
      else if arg = ''--match-ethertype'' then bindR (parse_u16 v ''match-ethertype'') (\<lambda>x. Inr (Some (opt\<lparr>yo_match_ethertype := Some x\<rparr>)))
      else if arg = ''--dump-bytes'' then bindR (parse_ull v ''dump-bytes'') (\<lambda>x. Inr (Some (opt\<lparr>yo_dump_bytes := x\<rparr>)))
      else net_value_option arg v opt)"

definition reply_flag_option :: "string \<Rightarrow> ReplyOptions \<Rightarrow> ReplyOptions option" where
  "reply_flag_option arg opt =
     (if arg = ''--accept-any-ethertype'' then Some (opt\<lparr>yo_match_ethertype := None\<rparr>)
      else net_flag_option arg opt)"

text \<open>The checks between the arguments and the run, and the four mains up to the choice between the run and \<open>dry_run\<close>.\<close>

definition net_option_checks :: "'o NetOptions_scheme \<Rightarrow> unit res" where
  "net_option_checks opt =
     throw_if (\<not> is_power_of_two (no_align opt) \<or> no_align opt < kVringUsedAlignSize)
       (RuntimeError ''align must be a power of two and at least 4 bytes'')"

definition rx_observe_option_checks :: "RxObserveOptions \<Rightarrow> unit res" where
  "rx_observe_option_checks opt =
     bindR (net_option_checks opt) (\<lambda>_.
     bindR (throw_if (ro_stop_after opt = 0) (RuntimeError ''stop-after must be greater than 0'')) (\<lambda>_.
     throw_if (ro_stop_after opt > no_rx_buffers opt) (RuntimeError ''stop-after must not exceed rx-buffers'')))"

definition rx_buffers_main :: "(string \<Rightarrow> bool) \<Rightarrow> string list \<Rightarrow> (string \<times> NetOptions) option res" where
  "rx_buffers_main = ctrl_main net_value_option net_flag_option default_rx_buffers_options net_option_checks"

definition rx_observe_main :: "(string \<Rightarrow> bool) \<Rightarrow> string list \<Rightarrow> (string \<times> RxObserveOptions) option res" where
  "rx_observe_main = ctrl_main rx_observe_value_option net_flag_option default_rx_observe_options rx_observe_option_checks"

definition tx_packet_main :: "(string \<Rightarrow> bool) \<Rightarrow> string list \<Rightarrow> (string \<times> TxOptions) option res" where
  "tx_packet_main = ctrl_main tx_value_option net_flag_option default_tx_options net_option_checks"

definition rx_tx_echo_main :: "(string \<Rightarrow> bool) \<Rightarrow> string list \<Rightarrow> (string \<times> ReplyOptions) option res" where
  "rx_tx_echo_main = ctrl_main reply_value_option reply_flag_option default_reply_options net_option_checks"

section \<open>What the command lines guarantee\<close>

lemma option_loop_keeps_args:
  assumes "\<And>arg v opt opt'. Q v \<Longrightarrow> value_option arg v opt = Inr (Some opt') \<Longrightarrow> P opt \<Longrightarrow> P opt'"
    and "\<And>arg opt opt'. flag_option arg opt = Some opt' \<Longrightarrow> P opt \<Longrightarrow> P opt'"
  shows "option_loop value_option flag_option args opt = Inr (Some opt') \<Longrightarrow> \<forall>v \<in> set args. Q v \<Longrightarrow> P opt \<Longrightarrow> P opt'"
proof (induction value_option\<equiv>value_option flag_option\<equiv>flag_option args opt rule: option_loop.induct)
  case (3 arg v args opt)
  then show ?case using assms by (auto simp: res_iff split: option.splits)
qed (use assms in auto)

lemma net_option_more:
  "net_value_option arg v opt = Inr (Some opt') \<Longrightarrow> NetOptions.more opt' = NetOptions.more opt"
  "net_flag_option arg opt = Some opt' \<Longrightarrow> NetOptions.more opt' = NetOptions.more opt"
  by (auto simp: net_value_option_def net_flag_option_def res_iff split: if_splits)

lemma tx_option_ok_more: "NetOptions.more opt' = NetOptions.more opt \<Longrightarrow> tx_options_ok opt \<Longrightarrow> tx_options_ok opt'"
  by (cases opt, cases opt') (simp add: tx_options_ok_def)

lemma parse_hex_bytes_length: "parse_hex_bytes v name = Inr bytes \<Longrightarrow> length bytes \<le> length v"
  using parse_hex_bytes_result [of name v] by (auto split: sum.splits)

lemma tx_value_option_ok:
  assumes "length v < 2 ^ 63" and "tx_value_option arg v opt = Inr (Some opt')" and "tx_options_ok opt"
  shows "tx_options_ok opt'"
proof -
  have "length mac = 6" if "parse_mac v name = Inr mac" for mac name using parse_mac_length [OF that] .
  moreover have "length bytes < 2 ^ 63" if "parse_hex_bytes v name = Inr bytes" for bytes name
    using parse_hex_bytes_length [OF that] assms(1) by simp
  ultimately show ?thesis
    using assms(2,3) tx_option_ok_more [OF net_option_more(1) [of arg v opt opt'] assms(3)]
    by (auto simp: tx_value_option_def res_iff tx_options_ok_def split: if_splits)
qed

lemma tx_main_options:
  assumes "tx_packet_main exists args = Inr (Some (bdf, opt))" and "\<forall>arg \<in> set args. length arg < 2 ^ 63"
  shows "tx_options_ok opt"
proof (cases args)
  case (Cons bdf_text rest)
  with assms(1) have loop: "option_loop tx_value_option net_flag_option rest default_tx_options = Inr (Some opt)"
    by (auto simp: tx_packet_main_def ctrl_main_def Let_def res_iff split: if_splits option.splits)
  have "tx_options_ok default_tx_options" by (simp add: tx_options_ok_def default_tx_options_def)
  with assms(2) Cons show ?thesis
    by (intro option_loop_keeps_args [where Q = "\<lambda>v. length v < 2 ^ 63" and P = tx_options_ok, OF _ _ loop])
      (erule (2) tx_value_option_ok | erule tx_option_ok_more [OF net_option_more(2)] | simp)+
qed (use assms(1) in \<open>simp add: tx_packet_main_def ctrl_main_def\<close>)

definition reply_options_ok :: "ReplyOptions \<Rightarrow> bool" where
  "reply_options_ok opt \<longleftrightarrow> case_option True (\<lambda>mac. length mac = 6) (yo_src_mac opt)"

lemma reply_option_steps:
  assumes "reply_options_ok opt"
  shows "reply_value_option arg v opt = Inr (Some opt') \<Longrightarrow> reply_options_ok opt'"
    and "reply_flag_option arg opt = Some opt' \<Longrightarrow> reply_options_ok opt'"
proof -
  have keep: "reply_options_ok opt'" if "NetOptions.more opt' = NetOptions.more opt"
    using assms that by (cases opt, cases opt') (simp add: reply_options_ok_def)
  have mac: "length mac = 6" if "parse_mac v name = Inr mac" for mac name using parse_mac_length [OF that] .
  show "reply_options_ok opt'" if "reply_value_option arg v opt = Inr (Some opt')"
    using that assms keep [OF net_option_more(1) [of arg v opt opt']] mac
    by (auto simp: reply_value_option_def res_iff reply_options_ok_def split: if_splits)
  show "reply_options_ok opt'" if "reply_flag_option arg opt = Some opt'"
    using that assms keep [OF net_option_more(2) [of arg opt opt']]
    by (auto simp: reply_flag_option_def reply_options_ok_def split: if_splits)
qed

lemma reply_main_options:
  assumes "rx_tx_echo_main exists args = Inr (Some (bdf, opt))"
  shows "reply_options_ok opt"
proof -
  from assms obtain rest where
    loop: "option_loop reply_value_option reply_flag_option rest default_reply_options = Inr (Some opt)"
    unfolding rx_tx_echo_main_def by (rule ctrl_main_accepted)
  show ?thesis
    by (rule option_loop_keeps [OF _ _ loop, where P = reply_options_ok])
      (erule reply_option_steps(1) [rotated] | erule reply_option_steps(2) [rotated] | assumption
       | simp add: reply_options_ok_def default_reply_options_def)+
qed

end
