(* ===== verification/Inspect.thy ===== *)
theory Inspect
  imports Defined EchoMain
begin

text \<open>
  The exercises 12, 13, 14 and 18 of \<open>userspace_drivers/\<close>: the programs that look at COMMON_CFG before
  there is a DMA buffer. They show the queues, change the device status, show or negotiate features, and
  compute the address of a doorbell. The registers they print are their result. The theorems say
  what they write to the device: nothing unless \<open>--yes\<close> is given, and in the programs that only look,
  nothing but selections, which are undone on every path.
\<close>

section \<open>Waiting for a status\<close>

text \<open>
  \<open>wait_for_status\<close> of these programs differs from the one of the header in what is thrown.
\<close>

definition wait_status_or ::
  "'w env \<Rightarrow> MappedRegion \<Rightarrow> u64 \<Rightarrow> u8 \<Rightarrow> nat \<Rightarrow> ('w st, unit) M \<Rightarrow> ('w st, unit) M" where
  "wait_status_or env m d expected timeout_ms timed_out =
     bindM (now env) (\<lambda>t.
     bindM (wait_status_loop timeout_ms env m d expected (t + ms timeout_ms)) (\<lambda>seen.
     if seen then returnM () else timed_out))"

text \<open>Exercise 13: the numbers after \<open>0x\<close> are decimal.\<close>

definition wait_for_status13 :: "'w env \<Rightarrow> MappedRegion \<Rightarrow> u64 \<Rightarrow> u8 \<Rightarrow> nat \<Rightarrow> ('w st, unit) M" where
  "wait_for_status13 env m d expected timeout_ms =
     wait_status_or env m d expected timeout_ms
       (bindM (read_status env m d) (\<lambda>actual.
        throwM (RuntimeError (''timed out waiting for device_status 0x'' @ to_string (unat expected) @
          '', actual=0x'' @ to_string (unat actual)))))"

definition wait_for_status14 :: "'w env \<Rightarrow> MappedRegion \<Rightarrow> u64 \<Rightarrow> u8 \<Rightarrow> nat \<Rightarrow> ('w st, unit) M" where
  "wait_for_status14 env m d expected timeout_ms =
     wait_status_or env m d expected timeout_ms
       (throwM (RuntimeError (''timed out waiting for device_status '' @ status_names expected)))"

section \<open>Exercise 13: the device status\<close>

text \<open>\<open>VIRTIO_PCI_COMMON_STATUS + 1\<close>; with it, the mapping of the programs that need only the status.\<close>

definition status_length :: u64 where "status_length = 21"

definition map_common_cfg13 :: "'w env \<Rightarrow> VirtioCap \<Rightarrow> ('w st, MappedRegion \<times> u64) M" where
  "map_common_cfg13 env common =
     map_common_window status_length ''COMMON_CFG is shorter than device_status'' status_length env common True"

definition change_status :: "'w env \<Rightarrow> MappedRegion \<Rightarrow> u64 \<Rightarrow> bool \<Rightarrow> bool \<Rightarrow> ('w st, unit) M" where
  "change_status env m d reset ack_driver =
     thenM (if reset
            then thenM (write_status env m d 0)
                (thenM (wait_for_status13 env m d 0 1000)
                (thenM (read_status env m d) (returnM ())))
            else returnM ())
       (if ack_driver
        then thenM (write_status env m d VIRTIO_CONFIG_S_ACKNOWLEDGE)
            (thenM (read_status env m d)
            (thenM (write_status env m d (VIRTIO_CONFIG_S_ACKNOWLEDGE OR VIRTIO_CONFIG_S_DRIVER))
            (thenM (read_status env m d) (returnM ()))))
        else returnM ())"

definition show_or_change_status :: "'w env \<Rightarrow> bool \<Rightarrow> bool \<Rightarrow> bool \<Rightarrow> ('w st, u8) M" where
  "show_or_change_status env reset ack_driver yes =
     bindM (get_config_region env) (\<lambda>config.
     bindM (read_virtio_caps_with (CapFields False False) env config) (\<lambda>caps.
     bindM (liftR (find_common_cfg caps)) (\<lambda>common.
     bindM (map_common_cfg13 env common) (\<lambda>(m, d).
     bindM (read_status env m d) (\<lambda>initial.
     if \<not> reset \<and> \<not> ack_driver then returnM initial
     else if \<not> yes then returnM initial
     else thenM (change_status env m d reset ack_driver) (returnM initial))))))"

section \<open>Exercise 14: the feature bits\<close>

definition map_common_cfg14 :: "'w env \<Rightarrow> VirtioCap \<Rightarrow> bool \<Rightarrow> ('w st, MappedRegion \<times> u64) M" where
  "map_common_cfg14 =
     map_common_window status_length ''COMMON_CFG is shorter than feature/status fields'' status_length"

record FeatureView =
  fv_df_select :: u32
  fv_device_feature :: u32
  fv_gf_select :: u32
  fv_guest_feature :: u32

definition print_current_feature_view :: "'w env \<Rightarrow> MappedRegion \<Rightarrow> u64 \<Rightarrow> ('w st, FeatureView) M" where
  "print_current_feature_view env m d =
     bindM (read32 env m (d + VIRTIO_PCI_COMMON_DFSELECT)) (\<lambda>df_select.
     bindM (read32 env m (d + VIRTIO_PCI_COMMON_DF)) (\<lambda>device_feature.
     bindM (read32 env m (d + VIRTIO_PCI_COMMON_GFSELECT)) (\<lambda>gf_select.
     bindM (read32 env m (d + VIRTIO_PCI_COMMON_GF)) (\<lambda>guest_feature.
     returnM \<lparr>fv_df_select = df_select, fv_device_feature = device_feature, fv_gf_select = gf_select,
       fv_guest_feature = guest_feature\<rparr>))))"

text \<open>The words of the device and of the guest that are shown, if they are.\<close>

definition show_features ::
  "'w env \<Rightarrow> MappedRegion \<Rightarrow> u64 \<Rightarrow> bool \<Rightarrow> ('w st, (FeatureWords \<times> FeatureWords) option) M" where
  "show_features env m d yes =
     thenM (read_status env m d)
    (thenM (print_current_feature_view env m d)
       (if \<not> yes then returnM None
        else bindM (read_feature_words env m d VIRTIO_PCI_COMMON_DFSELECT VIRTIO_PCI_COMMON_DF kFeatureWords)
               (\<lambda>device_features.
             bindM (read_feature_words env m d VIRTIO_PCI_COMMON_GFSELECT VIRTIO_PCI_COMMON_GF kFeatureWords)
               (\<lambda>guest_features. returnM (Some (device_features, guest_features))))))"

definition negotiate_minimal14 :: "'w env \<Rightarrow> MappedRegion \<Rightarrow> u64 \<Rightarrow> bool \<Rightarrow> ('w st, u32 list option) M" where
  "negotiate_minimal14 env m d yes =
     thenM (read_status env m d)
    (thenM (print_current_feature_view env m d)
       (if \<not> yes then returnM None
        else
          thenM (write_status env m d 0)
         (thenM (wait_for_status14 env m d 0 1000)
         (thenM (read_status env m d)
         (thenM (write_status env m d VIRTIO_CONFIG_S_ACKNOWLEDGE)
         (thenM (read_status env m d)
         (thenM (write_status env m d (VIRTIO_CONFIG_S_ACKNOWLEDGE OR VIRTIO_CONFIG_S_DRIVER))
         (thenM (read_status env m d)
         (bindM (read_feature_words env m d VIRTIO_PCI_COMMON_DFSELECT VIRTIO_PCI_COMMON_DF kFeatureWords)
            (\<lambda>device_features.
          bindM (liftR (minimal_transport_features (fw_words device_features))) (\<lambda>guest_features.
          thenM (write_guest_feature_words env m d guest_features)
         (thenM (write_status env m d
              (VIRTIO_CONFIG_S_ACKNOWLEDGE OR VIRTIO_CONFIG_S_DRIVER OR VIRTIO_CONFIG_S_FEATURES_OK))
         (bindM (read_status env m d) (\<lambda>after_features_ok.
          thenM (throw_ifM (after_features_ok AND VIRTIO_CONFIG_S_FEATURES_OK = 0)
            (RuntimeError ''device rejected FEATURES_OK''))
            (returnM (Some guest_features))))))))))))))))"

datatype Mode = Show | NegotiateMinimal

datatype feature_sample = Shown "(FeatureWords \<times> FeatureWords) option" | Negotiated "u32 list option"

definition run_feature_sample :: "'w env \<Rightarrow> Mode \<Rightarrow> bool \<Rightarrow> ('w st, feature_sample) M" where
  "run_feature_sample env mode yes =
     bindM (get_config_region env) (\<lambda>config.
     bindM (read_virtio_caps_with (CapFields False False) env config) (\<lambda>caps.
     bindM (liftR (find_common_cfg caps)) (\<lambda>common.
     bindM (map_common_cfg14 env common yes) (\<lambda>(m, d).
     case mode of
       Show \<Rightarrow> bindM (show_features env m d yes) (\<lambda>r. returnM (Shown r))
     | NegotiateMinimal \<Rightarrow> bindM (negotiate_minimal14 env m d yes) (\<lambda>r. returnM (Negotiated r))))))"

section \<open>Exercise 12: the queues\<close>

definition VIRTIO_PCI_COMMON_Q_RESET :: u64 where "VIRTIO_PCI_COMMON_Q_RESET = 58"

text \<open>What is printed of a queue. The vector is read twice, for its two formats.\<close>

record QueueInfo =
  qi_desc :: u64
  qi_avail :: u64
  qi_used :: u64
  qi_size :: u16
  qi_msix_vector :: "u16 \<times> u16"
  qi_enable :: u16
  qi_notify_off :: u16
  qi_notify_data :: u16
  qi_reset :: u16

definition print_queue_view :: "'w env \<Rightarrow> MappedRegion \<Rightarrow> u64 \<Rightarrow> ('w st, QueueInfo) M" where
  "print_queue_view env m d =
     bindM (read_common_u64 env m d VIRTIO_PCI_COMMON_Q_DESCLO VIRTIO_PCI_COMMON_Q_DESCHI) (\<lambda>desc.
     bindM (read_common_u64 env m d VIRTIO_PCI_COMMON_Q_AVAILLO VIRTIO_PCI_COMMON_Q_AVAILHI) (\<lambda>avail.
     bindM (read_common_u64 env m d VIRTIO_PCI_COMMON_Q_USEDLO VIRTIO_PCI_COMMON_Q_USEDHI) (\<lambda>used.
     bindM (read16 env m (d + VIRTIO_PCI_COMMON_Q_SIZE)) (\<lambda>sz.
     bindM (read16 env m (d + VIRTIO_PCI_COMMON_Q_MSIX)) (\<lambda>msix.
     bindM (read16 env m (d + VIRTIO_PCI_COMMON_Q_MSIX)) (\<lambda>msix2.
     bindM (read16 env m (d + VIRTIO_PCI_COMMON_Q_ENABLE)) (\<lambda>enable.
     bindM (read16 env m (d + VIRTIO_PCI_COMMON_Q_NOFF)) (\<lambda>noff.
     bindM (read16 env m (d + VIRTIO_PCI_COMMON_Q_NDATA)) (\<lambda>ndata.
     bindM (read16 env m (d + VIRTIO_PCI_COMMON_Q_RESET)) (\<lambda>reset.
     returnM \<lparr>qi_desc = desc, qi_avail = avail, qi_used = used, qi_size = sz, qi_msix_vector = (msix, msix2),
       qi_enable = enable, qi_notify_off = noff, qi_notify_data = ndata, qi_reset = reset\<rparr>))))))))))"

text \<open>
  The block \<open>try ... catch (...) { if (changed_selection) ...; throw; }\<close> and the statement after it. The
  variable \<open>changed_selection\<close> is kept in \<open>sel_changed\<close>, like the member of the guard that later exercises use
  for this, with its two operations.
\<close>

definition restoring_selection :: "'w env \<Rightarrow> MappedRegion \<Rightarrow> u64 \<Rightarrow> u16 \<Rightarrow> ('w st, 'a) M \<Rightarrow> ('w st, 'a) M" where
  "restoring_selection env m d original_select body s =
     (case body (s\<lparr>sel_changed := False\<rparr>) of
        (Inl e, s1) \<Rightarrow> (case selection_restore env m d original_select s1 of
            (Inl e', s2) \<Rightarrow> (Inl e', s2) | (Inr _, s2) \<Rightarrow> (Inl e, s2))
      | (Inr a, s1) \<Rightarrow> (case selection_restore env m d original_select s1 of
            (Inl e', s2) \<Rightarrow> (Inl e', s2) | (Inr _, s2) \<Rightarrow> (Inr a, s2)))"

lemma queue_successor:
  fixes queue :: u16
  assumes "queue \<noteq> 0xffff"
  shows "unat (queue + 1) = Suc (unat queue)"
proof -
  have "(- 1 :: u16) = 0xffff" by simp
  with assms have "1 + queue \<noteq> 0" by (metis add.commute eq_neg_iff_add_eq_0)
  then show ?thesis by (simp add: unatSuc add.commute)
qed

text \<open>The loop over the queues, which ends also when \<open>last\<close> is the largest number there is.\<close>

function enumerate_queues :: "'w env \<Rightarrow> MappedRegion \<Rightarrow> u64 \<Rightarrow> u16 \<Rightarrow> u16 \<Rightarrow> ('w st, (u16 \<times> QueueInfo) list) M" where
  "enumerate_queues env m d queue last_queue =
     (if queue \<le> last_queue
      then thenM (selection_select env m d queue)
          (bindM (read16 env m (d + VIRTIO_PCI_COMMON_Q_SELECT)) (\<lambda>selected.
           bindM (print_queue_view env m d) (\<lambda>view.
           if queue = 0xffff then returnM [(selected, view)]
           else bindM (enumerate_queues env m d (queue + 1) last_queue) (\<lambda>views.
             returnM ((selected, view) # views)))))
      else returnM [])"
  by pat_completeness auto

termination
proof (relation "measure (\<lambda>(env, m, d, queue, last_queue). 2 ^ 16 - unat queue)", goal_cases)
  case (2 env m d queue last_queue)
  with queue_successor [of queue] unat_u16_lt [of queue] show ?case by simp
qed simp

declare enumerate_queues.simps [simp del]

definition queue_check :: "u16 option \<Rightarrow> u16 \<Rightarrow> unit res" where
  "queue_check requested_queue num_queues =
     (case requested_queue of None \<Rightarrow> Inr ()
      | Some queue \<Rightarrow> throw_if (queue \<ge> num_queues)
          (RuntimeError (''requested queue '' @ to_string (unat queue) @ '' is outside num_queues='' @
            to_string (unat num_queues))))"

definition common_short :: "VirtioCap \<Rightarrow> string" where
  "common_short common =
     (if vc_length common = 0 then ''COMMON_CFG length is zero''
      else ''COMMON_CFG is shorter than queue address fields'')"

text \<open>\<open>VIRTIO_PCI_COMMON_Q_RESET + 2\<close>.\<close>

definition reset_length :: u64 where "reset_length = 60"

definition last_listed :: "u16 option \<Rightarrow> u16 \<Rightarrow> u16" where
  "last_listed requested_queue num_queues =
     (case requested_queue of Some queue \<Rightarrow> queue | None \<Rightarrow> if num_queues = 0 then 0 else num_queues - 1)"

definition list_queues ::
  "'w env \<Rightarrow> MappedRegion \<Rightarrow> u64 \<Rightarrow> u16 option \<Rightarrow> bool \<Rightarrow> ('w st, (u16 \<times> QueueInfo) list) M" where
  "list_queues env m d requested_queue yes =
     bindM (read16 env m (d + VIRTIO_PCI_COMMON_NUMQ)) (\<lambda>num_queues.
     bindM (read16 env m (d + VIRTIO_PCI_COMMON_Q_SELECT)) (\<lambda>original_select.
     thenM (read8 env m (d + VIRTIO_PCI_COMMON_STATUS))
    (thenM (liftR (queue_check requested_queue num_queues))
       (if \<not> yes then bindM (print_queue_view env m d) (\<lambda>view. returnM [(original_select, view)])
        else restoring_selection env m d original_select
          (enumerate_queues env m d (case requested_queue of Some queue \<Rightarrow> queue | None \<Rightarrow> 0)
             (last_listed requested_queue num_queues))))))"

definition show_queue_info :: "'w env \<Rightarrow> u16 option \<Rightarrow> bool \<Rightarrow> ('w st, (u16 \<times> QueueInfo) list) M" where
  "show_queue_info env requested_queue yes =
     bindM (get_config_region env) (\<lambda>config.
     bindM (read_virtio_caps_with (CapFields True False) env config) (\<lambda>caps.
     bindM (liftR (find_common_cfg caps)) (\<lambda>common.
     bindM (map_common_window common_min_length (common_short common) reset_length env common yes) (\<lambda>(m, d).
     list_queues env m d requested_queue yes))))"

section \<open>Exercise 18: the address of a doorbell\<close>

record QueueNotifyView =
  qn_selected :: u16
  qn_size :: u16
  qn_enable :: u16
  qn_notify_off :: u16
  qn_notify_data :: "u16 option"

definition read_queue_notify_view :: "'w env \<Rightarrow> MappedRegion \<Rightarrow> u64 \<Rightarrow> ('w st, QueueNotifyView) M" where
  "read_queue_notify_view env m d =
     bindM (read16 env m (d + VIRTIO_PCI_COMMON_Q_SELECT)) (\<lambda>selected.
     bindM (read16 env m (d + VIRTIO_PCI_COMMON_Q_SIZE)) (\<lambda>sz.
     bindM (read16 env m (d + VIRTIO_PCI_COMMON_Q_ENABLE)) (\<lambda>enable.
     bindM (read16 env m (d + VIRTIO_PCI_COMMON_Q_NOFF)) (\<lambda>noff.
     bindM (read16 env m (d + VIRTIO_PCI_COMMON_Q_NDATA)) (\<lambda>ndata.
     returnM \<lparr>qn_selected = selected, qn_size = sz, qn_enable = enable, qn_notify_off = noff,
       qn_notify_data = Some ndata\<rparr>)))))"

text \<open>What is printed of the address, and whether there is a warning.\<close>

record NotifyResult =
  nr_bar_offset :: u64
  nr_file_offset :: u64
  nr_value :: u16
  nr_data :: "u16 option"
  nr_outside :: bool

definition print_notify_result :: "VirtioCap \<Rightarrow> RegionInfo \<Rightarrow> QueueNotifyView \<Rightarrow> NotifyResult" where
  "print_notify_result notify bar_region queue =
     (let bar_offset = notify_bar_offset notify (qn_notify_off queue)
      in \<lparr>nr_bar_offset = bar_offset, nr_file_offset = ri_offset bar_region + bar_offset,
          nr_value = qn_selected queue, nr_data = qn_notify_data queue,
          nr_outside = (bar_offset + 2 > vc_offset notify + vc_length notify)\<rparr>)"

definition notify_info_checks :: "VirtioCap \<Rightarrow> RegionInfo \<Rightarrow> VirtioCap \<Rightarrow> RegionInfo \<Rightarrow> unit res" where
  "notify_info_checks common info notify notify_info =
     bindR (throw_if (ri_size info = 0) (RuntimeError ''COMMON_CFG BAR region is not present'')) (\<lambda>_.
     bindR (throw_if (ri_flags info AND VFIO_REGION_INFO_FLAG_MMAP = 0)
       (RuntimeError ''COMMON_CFG BAR region does not support mmap'')) (\<lambda>_.
     bindR (throw_if (vc_offset common \<ge> ri_size info)
       (RuntimeError ''COMMON_CFG offset is past BAR region size'')) (\<lambda>_.
     bindR (throw_if (vc_length common < common_min_length) (RuntimeError (common_short common))) (\<lambda>_.
     bindR (throw_if (vc_length notify = 0) (RuntimeError ''NOTIFY_CFG length is zero'')) (\<lambda>_.
     throw_if (vc_offset notify \<ge> ri_size notify_info)
       (RuntimeError ''NOTIFY_CFG offset is past BAR region size''))))))"

definition list_notify_info ::
  "'w env \<Rightarrow> MappedRegion \<Rightarrow> u64 \<Rightarrow> VirtioCap \<Rightarrow> RegionInfo \<Rightarrow> u16 option \<Rightarrow> bool \<Rightarrow> ('w st, NotifyResult list) M" where
  "list_notify_info env m d notify notify_info requested_queue yes =
     bindM (read16 env m (d + VIRTIO_PCI_COMMON_NUMQ)) (\<lambda>num_queues.
     bindM (read16 env m (d + VIRTIO_PCI_COMMON_Q_SELECT)) (\<lambda>original_select.
     thenM (read8 env m (d + VIRTIO_PCI_COMMON_STATUS))
    (thenM (liftR (queue_check requested_queue num_queues))
    (bindM (read_queue_notify_view env m d) (\<lambda>current.
     case requested_queue of
       None \<Rightarrow> returnM [print_notify_result notify notify_info current]
     | Some queue \<Rightarrow>
         if \<not> yes then returnM [print_notify_result notify notify_info current]
         else restoring_selection env m d original_select
          (thenM (selection_select env m d queue)
          (bindM (read_queue_notify_view env m d) (\<lambda>selected.
           returnM [print_notify_result notify notify_info current,
             print_notify_result notify notify_info selected]))))))))"

definition show_notify_info :: "'w env \<Rightarrow> u16 option \<Rightarrow> bool \<Rightarrow> ('w st, NotifyResult list) M" where
  "show_notify_info env requested_queue yes =
     bindM (get_config_region env) (\<lambda>config.
     bindM (read_virtio_caps_with (CapFields True True) env config) (\<lambda>caps.
     bindM (liftR (find_common_cfg caps)) (\<lambda>common.
     bindM (liftR (find_notify_cfg caps)) (\<lambda>notify.
     bindM (liftR (vfio_bar_region_index (vc_bar common))) (\<lambda>region_index.
     bindM (get_region_info env region_index) (\<lambda>info.
     bindM (liftR (vfio_bar_region_index (vc_bar notify))) (\<lambda>notify_region_index.
     bindM (get_region_info env notify_region_index) (\<lambda>notify_info.
     thenM (liftR (notify_info_checks common info notify notify_info))
    (bindM (map_common_range reset_length env info common yes) (\<lambda>(m, d).
     list_notify_info env m d notify notify_info requested_queue yes))))))))))"

section \<open>What the programs write to the device\<close>

text \<open>\<open>reads_only\<close>: nothing but reads of the config space; reads of registers leave no event.\<close>

definition reads_only :: "event \<Rightarrow> bool" where
  "reads_only e = (case e of ConfigRead p k \<Rightarrow> True | _ \<Rightarrow> False)"

lemma reads_only_config [simp]: "reads_only (ConfigRead p k)"
  by (simp add: reads_only_def)

lemma adds_config_reads:
  assumes "\<And>p k. P (ConfigRead p k)"
  shows "adds P (read_config_u8 env config o8)" and "adds P (read_config_le16 env config o16)"
    and "adds P (read_config_le32 env config o32)" and "adds P (read_config_le64_from_halves env config lo hi)"
proof -
  have pread: "adds P (pread_loop fuel env sz off what acc)" for fuel sz off what acc
    using assms by (induction fuel arbitrary: acc) (simp_all add: adds_rules)
  show u8: "adds P (read_config_u8 env config o8)" and u16: "adds P (read_config_le16 env config o16)"
    and u32: "adds P (read_config_le32 env config o32)" for o8 o16 o32
    by (simp_all add: read_config_u8_def read_config_le16_def read_config_le32_def read_config_bytes_def
        pread_exact_def adds_rules pread)
  show "adds P (read_config_le64_from_halves env config lo hi)"
    by (simp add: read_config_le64_from_halves_def adds_rules u32)
qed

lemma adds_reading_caps [adds_rules]: "adds reads_only (read_virtio_caps_with fs env config)"
proof -
  have "adds reads_only (virtio_cap_walk hops fs env config cap vis caps)" for hops cap vis caps
    by (induction hops arbitrary: cap vis caps)
      (simp_all add: read_one_virtio_cap_def Let_def adds_rules adds_config_reads)
  then show ?thesis by (simp add: read_virtio_caps_with_def adds_rules adds_config_reads)
qed

lemma adds_map_common [adds_rules]:
  "adds P (map_common_range len env region cap wr)" "adds P (map_common_window lo msg len env cap wr)"
  by (simp_all add: map_common_range_def map_common_window_def Let_def adds_rules)

lemma adds_views [adds_rules]:
  "adds P (read_common_u64 env m d lo hi)" "adds P (print_current_feature_view env m d)"
  "adds P (print_queue_view env m d)" "adds P (read_queue_notify_view env m d)"
  by (simp_all add: read_common_u64_def print_current_feature_view_def print_queue_view_def read_queue_notify_view_def
      adds_rules)

lemma adds_trace:
  assumes "adds P m" and "trace s = []"
  shows "\<forall>e \<in> set (trace (snd (m s))). P e"
  using assms by (auto simp: adds_def dest: spec [of _ s])

lemma inspection_reads_only:
  "adds reads_only (show_or_change_status env reset ack_driver False)"
  "adds reads_only (show_or_change_status env False False yes)"
  "adds reads_only (run_feature_sample env mode False)"
  "adds reads_only (show_queue_info env queue False)"
  "adds reads_only (show_notify_info env queue False)"
  by (simp_all add: show_or_change_status_def map_common_cfg13_def run_feature_sample_def map_common_cfg14_def
      show_features_def negotiate_minimal14_def show_queue_info_def list_queues_def show_notify_info_def
      list_notify_info_def adds_rules split: Mode.split)

section \<open>Selections are undone\<close>

text \<open>\<open>silent m\<close>: however \<open>m\<close> ends, it has left the trace and the selection guard alone.\<close>

definition silent :: "('w st, 'a) M \<Rightarrow> bool" where
  "silent m \<longleftrightarrow> (\<forall>s. trace (snd (m s)) = trace s \<and> sel_changed (snd (m s)) = sel_changed s)"

named_theorems silent_rules "computations that leave the trace and the selection guard alone"

lemma silent_bindM [silent_rules]: "silent m \<Longrightarrow> (\<And>a. silent (f a)) \<Longrightarrow> silent (bindM m f)"
  by (auto simp: silent_def bindM_def split: prod.splits sum.splits) (metis snd_conv)+

lemma silent_basic [silent_rules]:
  "silent (returnM a)" "silent (throwM e)" "silent (throw_ifM b e)" "silent (liftR r)" "silent (external f)"
  by (auto simp: silent_def returnM_def throwM_def throw_ifM_def liftR_def external_def split: prod.splits)

lemma silent_reads [silent_rules]:
  "silent (read8 env m off)" "silent (read16 env m off)" "silent (read32 env m off)"
  by (simp_all add: read8_def read16_def read32_def mmio_read_def silent_rules)

lemma silent_views [silent_rules]:
  "silent (print_queue_view env m d)" "silent (read_queue_notify_view env m d)"
  by (simp_all add: print_queue_view_def read_common_u64_def read_queue_notify_view_def silent_rules)

text \<open>The register of the selection, and the invariant of the block that changes it.\<close>

definition select_register :: "MappedRegion \<Rightarrow> u64 \<Rightarrow> u64" where
  "select_register m d = mr_offset m + (d + VIRTIO_PCI_COMMON_Q_SELECT)"

definition selects :: "MappedRegion \<Rightarrow> u64 \<Rightarrow> event \<Rightarrow> bool" where
  "selects m d e \<longleftrightarrow> (\<exists>queue :: u16. e = MmioWrite 2 (select_register m d) (ucast queue))"

definition selected_since :: "event list \<Rightarrow> MappedRegion \<Rightarrow> u64 \<Rightarrow> 'w st \<Rightarrow> bool" where
  "selected_since tr0 m d s \<longleftrightarrow>
     (\<exists>tr. trace s = tr0 @ tr \<and> (\<forall>e \<in> set tr. selects m d e) \<and> (tr \<noteq> [] \<longleftrightarrow> sel_changed s)) \<and>
     (sel_changed s \<longrightarrow> check_range m (d + VIRTIO_PCI_COMMON_Q_SELECT) 2 = Inr ())"

lemma selected_silent: "silent m' \<Longrightarrow> hoare (selected_since tr0 m d) m' (\<lambda>_. selected_since tr0 m d) (\<lambda>_. selected_since tr0 m d)"
proof (rule hoareI, goal_cases)
  case (1 s)
  obtain x s' where x: "m' s = (x, s')" by fastforce
  with 1 have "selected_since tr0 m d s'"
    unfolding silent_def selected_since_def by (metis snd_conv)
  with x show ?case by (simp split: sum.split)
qed

lemma write16_cases:
  "write16 env m off v s =
     (case check_range m off 2 of Inl e \<Rightarrow> (Inl e, s)
      | Inr _ \<Rightarrow> (Inr (), s\<lparr>trace := trace s @ [MmioWrite 2 (mr_offset m + off) (ucast v)],
          world := env_mmio_write env 2 (mr_offset m + off) (ucast v) (world s)\<rparr>))"
  by (auto simp: write16_def mmio_write_def bindM_def liftR_def emit_def external_def split: sum.split)

lemma selected_select:
  "hoare (selected_since tr0 m d) (selection_select env m d queue) (\<lambda>_ s. selected_since tr0 m d s \<and> sel_changed s)
     (\<lambda>_. selected_since tr0 m d)"
  by (auto simp: hoare_def selection_select_def bindM_def write16_cases modifyM_def selected_since_def selects_def
      select_register_def split: sum.splits)

lemma selected_enumerate:
  "hoare (selected_since tr0 m d) (enumerate_queues env m d queue last_queue) (\<lambda>_. selected_since tr0 m d)
     (\<lambda>_. selected_since tr0 m d)"
proof (induction env m d queue last_queue rule: enumerate_queues.induct)
  case (1 env m d queue last_queue)
  have select: "hoare (selected_since tr0 m d) (selection_select env m d queue) (\<lambda>_. selected_since tr0 m d)
      (\<lambda>_. selected_since tr0 m d)"
    by (rule hoare_post [OF selected_select]) simp
  have rest: "hoare (selected_since tr0 m d)
      (if queue = 0xffff then returnM [(selected, view)]
       else bindM (enumerate_queues env m d (queue + 1) last_queue) (\<lambda>views. returnM ((selected, view) # views)))
      (\<lambda>_. selected_since tr0 m d) (\<lambda>_. selected_since tr0 m d)"
    if "queue \<le> last_queue" for selected view
    using "1.IH" [OF that] by (auto intro!: hoare_bindM hoare_returnM)
  show ?case
    by (subst enumerate_queues.simps, cases "queue \<le> last_queue")
      (auto intro!: hoare_bindM [OF select] hoare_bindM [OF selected_silent] hoare_returnM rest silent_rules)
qed

lemma restoring_selection_undoes:
  assumes body: "hoare (selected_since (trace s) m d) body (\<lambda>_. selected_since (trace s) m d) (\<lambda>_. selected_since (trace s) m d)"
  shows "\<exists>tr. trace (snd (restoring_selection env m d original body s)) = trace s @ tr \<and> (\<forall>e \<in> set tr. selects m d e) \<and>
    (tr \<noteq> [] \<longrightarrow> last tr = MmioWrite 2 (select_register m d) (ucast original))"
proof -
  obtain x s1 where x: "body (s\<lparr>sel_changed := False\<rparr>) = (x, s1)" by fastforce
  have start: "selected_since (trace s) m d (s\<lparr>sel_changed := False\<rparr>)"
    by (simp add: selected_since_def)
  with body x have "selected_since (trace s) m d s1"
    by (cases x) (auto dest: hoare_Inl hoare_Inr)
  then obtain tr where tr: "trace s1 = trace s @ tr" "\<forall>e \<in> set tr. selects m d e" "tr \<noteq> [] \<longleftrightarrow> sel_changed s1"
    and ok: "sel_changed s1 \<longrightarrow> check_range m (d + VIRTIO_PCI_COMMON_Q_SELECT) 2 = Inr ()"
    by (auto simp: selected_since_def)
  have final: "trace (snd (restoring_selection env m d original body s)) = trace (snd (selection_restore env m d original s1))"
    using x by (auto simp: restoring_selection_def split: sum.split prod.split)
  show ?thesis
  proof (cases "sel_changed s1")
    case True
    with ok tr show ?thesis
      by (intro exI [of _ "tr @ [MmioWrite 2 (select_register m d) (ucast original)]"])
        (auto simp: final selection_restore_def bindM_def readM_def write16_cases modifyM_def selects_def select_register_def)
  next
    case False
    with tr show ?thesis
      by (intro exI [of _ "[]"]) (simp add: final selection_restore_def bindM_def readM_def returnM_def)
  qed
qed

lemma silent_trace: "silent m \<Longrightarrow> m s = (x, s') \<Longrightarrow> trace s' = trace s"
  by (metis silent_def snd_conv)

text \<open>The reading part of the two programs, up to the block that selects.\<close>

lemma reading_first:
  assumes "read16 env m (d + VIRTIO_PCI_COMMON_NUMQ) s = (Inr n, s1)"
    and "read16 env m (d + VIRTIO_PCI_COMMON_Q_SELECT) s1 = (Inr original, s2)"
  shows "trace s2 = trace s"
    and "bindM (read16 env m (d + VIRTIO_PCI_COMMON_NUMQ)) (\<lambda>num_queues.
      bindM (read16 env m (d + VIRTIO_PCI_COMMON_Q_SELECT)) (\<lambda>original_select. f num_queues original_select)) s = f n original s2"
  using assms silent_trace [OF silent_reads(2) assms(1)] silent_trace [OF silent_reads(2) assms(2)]
  by (simp_all add: bindM_def)

definition undone :: "MappedRegion \<Rightarrow> u64 \<Rightarrow> u16 \<Rightarrow> 'w st \<Rightarrow> 'w st \<Rightarrow> bool" where
  "undone m d original s s' \<longleftrightarrow>
     (\<exists>tr. trace s' = trace s @ tr \<and> (\<forall>e \<in> set tr. selects m d e) \<and>
       (tr \<noteq> [] \<longrightarrow> last tr = MmioWrite 2 (select_register m d) (ucast original)))"

lemma undone_silent: "silent m' \<Longrightarrow> undone m d original s (snd (m' s))"
  by (simp add: undone_def silent_def)

lemma undone_bindM:
  assumes "silent m'" and "\<And>a s'. m' s = (Inr a, s') \<Longrightarrow> undone m d original s' (snd (f a s'))"
  shows "undone m d original s (snd (bindM m' f s))"
proof -
  obtain x s' where x: "m' s = (x, s')" by fastforce
  have "trace s' = trace s" by (rule silent_trace [OF assms(1) x])
  with x assms(2) show ?thesis
    by (cases x) (force simp: bindM_def undone_def)+
qed

lemma undone_restoring:
  "(\<And>tr. hoare (selected_since tr m d) body (\<lambda>_. selected_since tr m d) (\<lambda>_. selected_since tr m d)) \<Longrightarrow>
     undone m d original s (snd (restoring_selection env m d original body s))"
  unfolding undone_def by (rule restoring_selection_undoes)

text \<open>
  C32. What exercises 12 and 18 select is undone on every path. From the moment the program has read the number of queues
  and the selection it found, whatever the device answers, whether the run ends normally or with an exception: the only
  writes to the device are selections of a queue, and if there was one, the last write of all is the selection
  that was found.
\<close>

theorem selection_undone:
  assumes "read16 env m (d + VIRTIO_PCI_COMMON_NUMQ) s = (Inr n, s1)"
    and "read16 env m (d + VIRTIO_PCI_COMMON_Q_SELECT) s1 = (Inr original, s2)"
  shows "undone m d original s (snd (list_queues env m d queue yes s)) \<and>
    undone m d original s (snd (list_notify_info env m d notify info queue yes s))"
proof -
  note first = reading_first [OF assms]
  have select: "hoare (selected_since tr m d) (thenM (selection_select env m d q) (bindM (read_queue_notify_view env m d) g))
      (\<lambda>_. selected_since tr m d) (\<lambda>_. selected_since tr m d)" if "\<And>v. silent (g v)" for tr q g
    by (rule hoare_bindM [OF hoare_post [OF selected_select] hoare_bindM [OF selected_silent selected_silent]])
      (simp_all add: silent_rules that)
  have from_s2: "undone m d original s t" if "undone m d original s2 t" for t
    using that first(1) by (simp add: undone_def)
  show ?thesis
  proof
    show "undone m d original s (snd (list_queues env m d queue yes s))"
      unfolding list_queues_def first(2)
      by (intro from_s2 undone_bindM silent_rules, cases yes)
        (simp_all add: undone_restoring selected_enumerate undone_silent silent_rules)
    show "undone m d original s (snd (list_notify_info env m d notify info queue yes s))"
      unfolding list_notify_info_def first(2)
      by (intro from_s2 undone_bindM silent_rules, cases queue; cases yes)
        (simp_all add: undone_restoring select undone_silent silent_rules)
  qed
qed

lemma emits_views [emit_rules]:
  "emits (print_queue_view env m d) []" "emits (read_queue_notify_view env m d) []"
  "emits (print_current_feature_view env m d) []"
  unfolding print_queue_view_def read_queue_notify_view_def print_current_feature_view_def
  by (rule emits_bindM emit_rules | simp)+

lemma emits_select [emit_rules]:
  "emits (selection_select env m d queue) [MmioWrite 2 (select_register m d) (ucast queue)]"
  unfolding selection_select_def
  by (rule emits_bindM emit_rules emits_modifyM | simp add: select_register_def)+

definition queue_range :: "u16 \<Rightarrow> u16 \<Rightarrow> u16 list" where
  "queue_range queue stop = map of_nat [unat queue..<Suc (unat stop)]"

lemma queue_range_rec:
  "queue_range queue stop =
     (if queue \<le> stop then queue # (if queue = 0xffff then [] else queue_range (queue + 1) stop) else [])"
proof (cases "queue \<le> stop")
  case True
  then have le: "unat queue \<le> unat stop" by (simp add: word_le_nat_alt)
  show ?thesis
  proof (cases "queue = 0xffff")
    case True
    with le unat_u16_lt [of stop] have "unat stop = unat (0xffff :: u16)" by simp
    then have "stop = 0xffff" by (simp only: word_unat_eq_iff)
    with True show ?thesis by (simp add: queue_range_def)
  next
    case False
    from le have "[unat queue..<Suc (unat stop)] = unat queue # [Suc (unat queue)..<Suc (unat stop)]"
      by (simp add: upt_conv_Cons)
    with False True show ?thesis by (simp add: queue_range_def queue_successor)
  qed
qed (simp add: queue_range_def word_le_nat_alt)

lemma enumerate_queues_selects:
  assumes "enumerate_queues env m d queue stop s = (Inr views, s')"
  shows "trace s' = trace s @ map (\<lambda>q. MmioWrite 2 (select_register m d) (ucast q)) (queue_range queue stop) \<and>
    length views = length (queue_range queue stop) \<and> (queue \<le> stop \<longrightarrow> sel_changed s')"
  using assms
proof (induction env m d queue stop arbitrary: s views s' rule: enumerate_queues.induct)
  case (1 env m d queue stop)
  show ?case
  proof (cases "queue \<le> stop")
    case False
    with 1(2) show ?thesis by (simp add: queue_range_rec [of queue stop] enumerate_queues.simps returnM_def)
  next
    case True
    from 1(2) True obtain s1 selected s2 view s3 where
      run: "selection_select env m d queue s = (Inr (), s1)"
      "read16 env m (d + VIRTIO_PCI_COMMON_Q_SELECT) s1 = (Inr selected, s2)" "print_queue_view env m d s2 = (Inr view, s3)"
      and rest: "(if queue = 0xffff then returnM [(selected, view)]
        else bindM (enumerate_queues env m d (queue + 1) stop) (\<lambda>views. returnM ((selected, view) # views))) s3 = (Inr views, s')"
      by (subst (asm) enumerate_queues.simps) (simp add: run_iff, blast)
    have tr: "trace s3 = trace s @ [MmioWrite 2 (select_register m d) (ucast queue)]"
      using emitsD [OF emits_select run(1)] silent_trace [OF silent_reads(2) run(2)]
        silent_trace [OF silent_views(1) run(3)] by simp
    have ch: "sel_changed s3"
    proof -
      have "sel_changed s1" using run(1) by (auto simp: selection_select_def run_iff modifyM_def)
      then show ?thesis using run(2,3) silent_reads(2) silent_views(1) unfolding silent_def by (metis snd_conv)
    qed
    show ?thesis
    proof (cases "queue = 0xffff")
      case True
      with rest tr ch \<open>queue \<le> stop\<close> show ?thesis by (auto simp: queue_range_rec [of "0xffff" stop] returnM_def)
    next
      case False
      with rest obtain vs where vs: "enumerate_queues env m d (queue + 1) stop s3 = (Inr vs, s')"
        and views: "views = (selected, view) # vs"
        by (auto simp: run_iff)
      from "1.IH" [OF True False vs] have ih: "trace s' = trace s3 @ map (\<lambda>q. MmioWrite 2 (select_register m d) (ucast q))
          (queue_range (queue + 1) stop)" "length vs = length (queue_range (queue + 1) stop)"
        by simp_all
      have "sel_changed s'"
      proof (cases "queue + 1 \<le> stop")
        case True
        with "1.IH" [OF \<open>queue \<le> stop\<close> False vs] show ?thesis by simp
      next
        case f: False
        with vs ch show ?thesis by (simp add: enumerate_queues.simps returnM_def)
      qed
      with ih tr views False True show ?thesis by (simp add: queue_range_rec [of queue stop])
    qed
  qed
qed

lemma restoring_selection_run:
  assumes "restoring_selection env m d original body s = (Inr a, s')"
  obtains s1 where "body (s\<lparr>sel_changed := False\<rparr>) = (Inr a, s1)" and
    "sel_changed s1 \<longrightarrow> trace s' = trace s1 @ [MmioWrite 2 (select_register m d) (ucast original)]"
  using assms
  by (auto simp: restoring_selection_def selection_restore_def run_iff readM_def modifyM_def bindM_def write16_cases
      select_register_def split: sum.splits prod.splits if_splits)

text \<open>
  Exercise 12 shows every queue once, in order. When it returns with \<open>--yes\<close>, the device was told to select the
  queues 0, 1, ... up to the last one it has (or the one that was asked for) one after the other, each was read
  once, and then the selection that was found is put back; there is no other write. (For a device
  without queues the code selects queue 0 nevertheless.) The loop ends also for 65535 queues and more.
\<close>

theorem queues_enumerated:
  assumes "read16 env m (d + VIRTIO_PCI_COMMON_NUMQ) s = (Inr n, s1)"
    and "read16 env m (d + VIRTIO_PCI_COMMON_Q_SELECT) s1 = (Inr original, s2)"
    and "list_queues env m d queue True s = (Inr views, s')"
    and "qs = (case queue of Some q \<Rightarrow> [q] | None \<Rightarrow> if n = 0 then [0] else map of_nat [0..<unat n])"
  shows "trace s' = trace s @ map (\<lambda>q. MmioWrite 2 (select_register m d) (ucast q)) (qs @ [original]) \<and>
    length views = length qs"
proof -
  let ?first = "case queue of Some q \<Rightarrow> q | None \<Rightarrow> 0"
  note first = reading_first [OF assms(1,2)]
  from assms(3) obtain s3 s4 st where st: "read8 env m (d + VIRTIO_PCI_COMMON_STATUS) s2 = (Inr st, s3)"
    "liftR (queue_check queue n) s3 = (Inr (), s4)"
    and run: "restoring_selection env m d original (enumerate_queues env m d ?first (last_listed queue n)) s4 = (Inr views, s')"
    unfolding list_queues_def first(2) by (auto simp: run_iff liftR_def)
  have s4: "trace s4 = trace s"
    using first(1) silent_trace [OF silent_reads(1) st(1)] st(2) by (simp add: liftR_def)
  obtain s5 where body: "enumerate_queues env m d ?first (last_listed queue n) (s4\<lparr>sel_changed := False\<rparr>) = (Inr views, s5)"
    and last_write: "sel_changed s5 \<longrightarrow> trace s' = trace s5 @ [MmioWrite 2 (select_register m d) (ucast original)]"
    using run by (rule restoring_selection_run)
  have range: "queue_range ?first (last_listed queue n) = qs" and le: "?first \<le> last_listed queue n"
  proof -
    have "unat n = Suc (unat (n - 1))" if "n \<noteq> 0"
      using that unat_minus_one [OF that] unat_gt_0 [of n] by simp
    then show "queue_range ?first (last_listed queue n) = qs"
      using assms(4) by (auto simp: queue_range_def last_listed_def split: option.split)
    show "?first \<le> last_listed queue n" by (simp add: last_listed_def split: option.split)
  qed
  from enumerate_queues_selects [OF body] last_write le s4 show ?thesis
    unfolding range by simp
qed

text \<open>A device with two queues whose other registers read 0, and a COMMON_CFG of 60 bytes.\<close>

definition two_queue_env :: "unit env" where
  "two_queue_env = quiet_env\<lparr>env_mmio_read := \<lambda>n off w. (if off = 0x1012 then 2 else 0, w)\<rparr>"

definition regs60 :: MappedRegion where "regs60 = \<lparr>mr_offset = 0x1000, mr_size = 60\<rparr>"

lemma regs60_range: "unat off + unat n \<le> 60 \<Longrightarrow> check_range regs60 off n = Inr ()"
  by (simp add: check_range_iff regs60_def)

lemma two_queue_regs:
  "unat off + 1 \<le> 60 \<Longrightarrow> read8 two_queue_env regs60 off s = (Inr (if off = 18 then 2 else 0), s)"
  "unat off + 2 \<le> 60 \<Longrightarrow> read16 two_queue_env regs60 off s = (Inr (if off = 18 then 2 else 0), s)"
  "unat off + 4 \<le> 60 \<Longrightarrow> read32 two_queue_env regs60 off s = (Inr (if off = 18 then 2 else 0), s)"
  "unat off + 2 \<le> 60 \<Longrightarrow> \<exists>w. write16 two_queue_env regs60 off v s =
     (Inr (), s\<lparr>trace := trace s @ [MmioWrite 2 (0x1000 + off) (ucast v)], world := w\<rparr>)"
proof -
  have "0x1000 + off = 0x1000 + 18 \<longleftrightarrow> off = 18" by (rule add_left_cancel)
  then have eq: "0x1000 + off = 0x1012 \<longleftrightarrow> off = 18" by simp
  have q: "env_mmio_read two_queue_env n off' w = (if off' = 0x1012 then 2 else 0, w)" for n off' w
    by (simp add: two_queue_env_def)
  have r: "mr_offset regs60 = 0x1000" by (simp add: regs60_def)
  note defs = mmio_read_def bindM_def liftR_def returnM_def external_def read8_def read16_def read32_def
  show "unat off + 1 \<le> 60 \<Longrightarrow> read8 two_queue_env regs60 off s = (Inr (if off = 18 then 2 else 0), s)"
    using regs60_range [of off 1] by (simp add: defs q r eq)
  show "unat off + 2 \<le> 60 \<Longrightarrow> read16 two_queue_env regs60 off s = (Inr (if off = 18 then 2 else 0), s)"
    using regs60_range [of off 2] by (simp add: defs q r eq)
  show "unat off + 4 \<le> 60 \<Longrightarrow> read32 two_queue_env regs60 off s = (Inr (if off = 18 then 2 else 0), s)"
    using regs60_range [of off 4] by (simp add: defs q r eq)
  show "unat off + 2 \<le> 60 \<Longrightarrow> \<exists>w. write16 two_queue_env regs60 off v s =
     (Inr (), s\<lparr>trace := trace s @ [MmioWrite 2 (0x1000 + off) (ucast v)], world := w\<rparr>)"
    using regs60_range [of off 2] by (simp add: write16_cases r)
qed

lemma two_queue_select:
  "\<exists>s'. selection_select two_queue_env regs60 0 q s = (Inr (), s')"
  using two_queue_regs(4) [of 22 q s]
  by (auto simp: selection_select_def bindM_def modifyM_def common_regs)

lemma two_queue_views:
  "\<exists>v. print_queue_view two_queue_env regs60 0 s = (Inr v, s)"
  by (simp add: print_queue_view_def read_common_u64_def bindM_def returnM_def two_queue_regs common_regs
      VIRTIO_PCI_COMMON_Q_RESET_def)

lemma two_queue_enumerate:
  "\<exists>views s'. enumerate_queues two_queue_env regs60 0 queue stop s = (Inr views, s')"
proof (induction "two_queue_env" regs60 "0 :: u64" queue stop arbitrary: s rule: enumerate_queues.induct)
  case (1 queue stop)
  show ?case
  proof (cases "queue \<le> stop")
    case True
    obtain s1 where s1: "selection_select two_queue_env regs60 0 queue s = (Inr (), s1)"
      using two_queue_select by blast
    obtain v where v: "print_queue_view two_queue_env regs60 0 s1 = (Inr v, s1)"
      using two_queue_views by blast
    show ?thesis
    proof (cases "queue = 0xffff")
      case False
      from "1.hyps" [OF True False] obtain vs s2 where "enumerate_queues two_queue_env regs60 0 (queue + 1) stop s1 = (Inr vs, s2)"
        by blast
      with True False s1 v show ?thesis
        by (subst enumerate_queues.simps) (simp add: bindM_def returnM_def two_queue_regs common_regs)
    next
      case max: True
      with True s1 v show ?thesis
        by (subst enumerate_queues.simps) (simp add: bindM_def returnM_def two_queue_regs common_regs)
    qed
  qed (simp add: enumerate_queues.simps returnM_def)
qed

lemma two_queue_list:
  "\<exists>views s'. list_queues two_queue_env regs60 0 None True s = (Inr views, s')"
proof -
  obtain views s1 where e: "enumerate_queues two_queue_env regs60 0 0 1 (s\<lparr>sel_changed := False\<rparr>) = (Inr views, s1)"
    using two_queue_enumerate by blast
  then have ch: "sel_changed s1" using enumerate_queues_selects [OF e] by simp
  with e two_queue_regs(4) [of 22 0 s1] show ?thesis
    by (auto simp: list_queues_def queue_check_def last_listed_def restoring_selection_def selection_restore_def readM_def
        bindM_def returnM_def liftR_def modifyM_def two_queue_regs common_regs split: prod.split)
qed

theorem queues_enumerated_witness:
  "\<exists>views s'. list_queues two_queue_env regs60 0 None True (start_st [] ()) = (Inr views, s') \<and>
     trace s' = [MmioWrite 2 0x1016 0, MmioWrite 2 0x1016 1, MmioWrite 2 0x1016 0] \<and> length views = 2"
proof -
  obtain views s' where run: "list_queues two_queue_env regs60 0 None True (start_st [] ()) = (Inr views, s')"
    using two_queue_list by blast
  have "read16 two_queue_env regs60 (0 + VIRTIO_PCI_COMMON_NUMQ) (start_st [] ()) = (Inr 2, start_st [] ())"
    and "read16 two_queue_env regs60 (0 + VIRTIO_PCI_COMMON_Q_SELECT) (start_st [] ()) = (Inr 0, start_st [] ())"
    by (simp_all add: two_queue_regs common_regs)
  from queues_enumerated [OF this run refl] run show ?thesis
    by (simp add: select_register_def regs60_def common_regs start_st_def upt_rec)
qed

theorem selection_undone_witness:
  "undone regs60 0 0 (start_st [] ()) (snd (list_notify_info two_queue_env regs60 0 notify_cap4 bar4 (Some 1) True (start_st [] ())))"
  by (rule conjunct2 [OF selection_undone [of two_queue_env regs60 0 "start_st [] ()" 2 "start_st [] ()" 0 "start_st [] ()"]])
    (simp_all add: two_queue_regs common_regs)

section \<open>The status and the features\<close>

lemma emits_wait_status_or:
  "(\<And>s a s'. timed_out s \<noteq> (Inr a, s')) \<Longrightarrow> emits (wait_status_or env m d e t timed_out) []"
  unfolding wait_status_or_def
  by (rule emits_bindM emit_rules emits_if emits_wait_status_loop | simp add: emits_def)+

lemma emits_waits [emit_rules]:
  "emits (wait_for_status13 env m d e t) []" "emits (wait_for_status14 env m d e t) []"
  unfolding wait_for_status13_def wait_for_status14_def
  by (rule emits_wait_status_or, simp add: bindM_def throwM_def split: sum.split prod.split)+

definition status_write :: "MappedRegion \<Rightarrow> u64 \<Rightarrow> u8 \<Rightarrow> event" where
  "status_write m d v = MmioWrite 1 (mr_offset m + (d + VIRTIO_PCI_COMMON_STATUS)) (ucast v)"

text \<open>
  What exercise 13 writes when it returns: the 0 of a reset, if it was asked for, then ACKNOWLEDGE and
  DRIVER, if they were.
\<close>

lemma emits_change_status:
  "emits (change_status env m d reset ack_driver)
    ((if reset then [status_write m d 0] else []) @
     (if ack_driver then [status_write m d VIRTIO_CONFIG_S_ACKNOWLEDGE,
        status_write m d (VIRTIO_CONFIG_S_ACKNOWLEDGE OR VIRTIO_CONFIG_S_DRIVER)] else []))"
proof -
  have reset: "emits (thenM (write_status env m d 0) (thenM (wait_for_status13 env m d 0 1000)
      (thenM (read_status env m d) (returnM ())))) [status_write m d 0]"
    by (rule emits_bindM emit_rules | simp add: status_write_def)+
  have ack: "emits (thenM (write_status env m d VIRTIO_CONFIG_S_ACKNOWLEDGE) (thenM (read_status env m d)
      (thenM (write_status env m d (VIRTIO_CONFIG_S_ACKNOWLEDGE OR VIRTIO_CONFIG_S_DRIVER))
      (thenM (read_status env m d) (returnM ())))))
    [status_write m d VIRTIO_CONFIG_S_ACKNOWLEDGE, status_write m d (VIRTIO_CONFIG_S_ACKNOWLEDGE OR VIRTIO_CONFIG_S_DRIVER)]"
    by (rule emits_bindM emit_rules | simp add: status_write_def)+
  show ?thesis
    unfolding change_status_def
    by (rule emits_bindM [OF _ _ refl]) (simp_all add: reset ack emit_rules)
qed

text \<open>The waits end: they need no more rounds than the timeout has milliseconds.\<close>

lemma wait_status_or_ends:
  assumes "\<And>s. fst (timed_out s) \<noteq> Inl OutOfFuel"
  shows "fst (wait_status_or env m d e timeout_ms timed_out s) \<noteq> Inl OutOfFuel"
proof -
  obtain dt w where dt: "env_delay env (world s) = (dt, w)" by fastforce
  let ?s1 = "s\<lparr>time := time s + dt, world := w\<rparr>"
  obtain x s2 where x: "wait_status_loop timeout_ms env m d e (time s + dt + ms timeout_ms) ?s1 = (x, s2)"
    by fastforce
  have "x \<noteq> Inl OutOfFuel"
    using wait_status_loop_fuel [of "time s + dt + ms timeout_ms" ?s1 timeout_ms env m d e] x by simp
  with dt x assms show ?thesis
    by (auto simp: wait_status_or_def bindM_def now_def returnM_def split: sum.splits)
qed

lemma waits_end:
  "fst (wait_for_status13 env m d e timeout_ms s) \<noteq> Inl OutOfFuel"
  "fst (wait_for_status14 env m d e timeout_ms s) \<noteq> Inl OutOfFuel"
proof -
  have "fst (bindM (read_status env m d) (\<lambda>actual. throwM (RuntimeError (msg actual))) s) \<noteq> Inl OutOfFuel" for msg s
    using read_status_run(2) [of env m d s]
    by (auto simp: bindM_def throwM_def split: sum.splits prod.splits)
  then show "fst (wait_for_status13 env m d e timeout_ms s) \<noteq> Inl OutOfFuel"
    unfolding wait_for_status13_def by (rule wait_status_or_ends)
  show "fst (wait_for_status14 env m d e timeout_ms s) \<noteq> Inl OutOfFuel"
    unfolding wait_for_status14_def by (rule wait_status_or_ends) (simp add: throwM_def)
qed

lemma wait_for_status14_returns:
  "wait_for_status14 env m d e t s = (Inr (), s') \<longleftrightarrow> wait_for_status env m d e t s = (Inr (), s')"
  by (simp add: wait_for_status14_def wait_status_or_def wait_for_status_def run_iff)


section \<open>The doorbell of exercise 18 is the one exercise 19 rings\<close>

theorem doorbell_announced:
  assumes "map_notify_window env notify info (qn_notify_off queue) s = (Inr w, s')"
  shows "nr_file_offset (print_notify_result notify info queue) = mr_offset (nw_mapping w) + nw_delta w \<and>
    nr_bar_offset (print_notify_result notify info queue) = nw_bar_offset w \<and>
    \<not> nr_outside (print_notify_result notify info queue)"
  using assms
  by (auto simp: map_notify_window_def run_iff Let_def print_notify_result_def check_notify_offset_def res_iff
      dest!: MappedRegion_new_Inr)


theorem doorbell_announced_witness:
  "\<exists>w s'. map_notify_window quiet_env notify_cap4 bar4 2 (quiet_st 0) = (Inr w, s') \<and>
     nr_file_offset (print_notify_result notify_cap4 bar4 \<lparr>qn_selected = 1, qn_size = 256, qn_enable = 0,
       qn_notify_off = 2, qn_notify_data = None\<rparr>) = mr_offset (nw_mapping w) + nw_delta w"
proof -
  let ?queue = "\<lparr>qn_selected = 1, qn_size = 256, qn_enable = 0, qn_notify_off = 2, qn_notify_data = None\<rparr>"
  obtain w s' where run: "map_notify_window quiet_env notify_cap4 bar4 2 (quiet_st 0) = (Inr w, s')"
    using notify_window_target_witness by blast
  then have "map_notify_window quiet_env notify_cap4 bar4 (qn_notify_off ?queue) (quiet_st 0) = (Inr w, s')" by simp
  from run doorbell_announced [OF this] show ?thesis by blast
qed

section \<open>No undefined behaviour\<close>

lemma any_waits [any_rules]:
  "safe (buffer_size n) (wait_for_status13 env m d e t)" "safe (buffer_size n) (wait_for_status14 env m d e t)"
  by (simp_all add: wait_for_status13_def wait_for_status14_def wait_status_or_def safe_rules any_rules)

lemma any_inspection [any_rules]:
  "safe (buffer_size n) (read_common_u64 env m d lo hi)" "safe (buffer_size n) (print_queue_view env m d)"
  "safe (buffer_size n) (print_current_feature_view env m d)" "safe (buffer_size n) (read_queue_notify_view env m d)"
  "safe (buffer_size n) (read_feature_words env m d sel v k)" "safe (buffer_size n) (write_guest_feature_words env m d ws)"
  by (simp_all add: print_queue_view_def print_current_feature_view_def read_queue_notify_view_def read_common_u64_def
      read_feature_words_def write_guest_feature_words_def safe_rules any_rules)

lemma any_restoring [any_rules]:
  assumes "safe (buffer_size n) body"
  shows "safe (buffer_size n) (restoring_selection env m d original body)"
proof (unfold safe_def, rule hoareI)
  fix s :: "'a st" assume s: "buffer_size n s"
  note body = assms [unfolded safe_def]
  have "safe (buffer_size n) (selection_restore env m d original)" by (rule any_rules)
  note restore = this [unfolded safe_def]
  obtain x s1 where x: "body (s\<lparr>sel_changed := False\<rparr>) = (x, s1)" by fastforce
  obtain y s2 where y: "selection_restore env m d original s1 = (y, s2)" by fastforce
  have start: "buffer_size n (s\<lparr>sel_changed := False\<rparr>)" using s by (simp add: buffer_size_def)
  have x_ok: "(\<forall>e. x = Inl e \<longrightarrow> \<not> is_ub e) \<and> buffer_size n s1"
    using hoare_Inl [OF body start, of _ s1] hoare_Inr [OF body start, of _ s1] x by (cases x) auto
  then have "(\<forall>e. y = Inl e \<longrightarrow> \<not> is_ub e) \<and> buffer_size n s2"
    using hoare_Inl [OF restore, of s1 _ s2] hoare_Inr [OF restore, of s1 _ s2] y by (cases y) auto
  with x_ok x y show "case restoring_selection env m d original body s of (Inl e, s') \<Rightarrow> \<not> is_ub e \<and> buffer_size n s'
      | (Inr a, s') \<Rightarrow> buffer_size n s'"
    by (cases x; cases y) (simp_all add: restoring_selection_def)
qed

lemma any_enumerate [any_rules]: "safe (buffer_size n) (enumerate_queues env m d queue stop)"
proof (induction env m d queue stop rule: enumerate_queues.induct)
  case (1 env m d queue stop)
  then show ?case by (subst enumerate_queues.simps) (auto simp: safe_rules any_rules intro!: safe_rules any_rules)
qed

lemma fault_free_checks [fault_rules]:
  "fault_free (queue_check queue n)" "fault_free (notify_info_checks common info notify notify_info)"
  by (simp_all add: queue_check_def notify_info_checks_def fault_rules split: option.split)

lemma inspections_defined:
  "defined (show_or_change_status env reset ack_driver yes)" "defined (run_feature_sample env mode yes)"
  "defined (show_queue_info env queue yes)" "defined (show_notify_info env queue yes)"
proof -
  have "safe (buffer_size n) (show_or_change_status env reset ack_driver yes)" for n
    by (simp add: show_or_change_status_def map_common_cfg13_def change_status_def safe_rules any_rules fault_rules)
  then show "defined (show_or_change_status env reset ack_driver yes)" by (rule safe_any)
  have "safe (buffer_size n) (run_feature_sample env mode yes)" for n
    by (cases mode) (simp_all add: run_feature_sample_def map_common_cfg14_def show_features_def negotiate_minimal14_def
        safe_rules any_rules fault_rules)
  then show "defined (run_feature_sample env mode yes)" by (rule safe_any)
  have "safe (buffer_size n) (show_queue_info env queue yes)" for n
    by (simp add: show_queue_info_def list_queues_def safe_rules any_rules fault_rules)
  then show "defined (show_queue_info env queue yes)" by (rule safe_any)
  have "safe (buffer_size n) (show_notify_info env queue yes)" for n
    by (cases queue) (simp_all add: show_notify_info_def list_notify_info_def safe_rules any_rules fault_rules)
  then show "defined (show_notify_info env queue yes)" by (rule safe_any)
qed

section \<open>The command lines\<close>

text \<open>
  Every \<open>main\<close> wants the device and one option at least. \<open>accept\<close> is the check of the flags after the loop, whose
  failure is the \<open>usage\<close> exit.
\<close>

definition inspect_main ::
  "(string \<Rightarrow> string \<Rightarrow> 'o \<Rightarrow> 'o option res) \<Rightarrow> (string \<Rightarrow> 'o \<Rightarrow> 'o option) \<Rightarrow> 'o \<Rightarrow> ('o \<Rightarrow> bool) \<Rightarrow>
     (string \<Rightarrow> bool) \<Rightarrow> string list \<Rightarrow> (string \<times> 'o) option res" where
  "inspect_main value_option flag_option initial accept exists args =
     (case args of
        bdf_text # arg # rest \<Rightarrow>
          let bdf = normalize_bdf bdf_text
          in if \<not> exists bdf then Inr None
             else bindR (option_loop value_option flag_option (arg # rest) initial) (\<lambda>r.
               case r of None \<Rightarrow> Inr None
               | Some opt \<Rightarrow> Inr (if accept opt then Some (bdf, opt) else None))
      | _ \<Rightarrow> Inr None)"

definition no_value_option :: "string \<Rightarrow> string \<Rightarrow> 'o \<Rightarrow> 'o option res" where
  "no_value_option arg v opt = Inr None"

text \<open>Exercises 12 and 18.\<close>

record ShowOptions =
  sh_show :: bool
  sh_queue :: "u16 option"
  sh_yes :: bool

definition show_value_option :: "string \<Rightarrow> string \<Rightarrow> ShowOptions \<Rightarrow> ShowOptions option res" where
  "show_value_option arg v opt =
     (if arg = ''--queue'' then bindR (parse_u16 v ''--queue'') (\<lambda>x. Inr (Some (opt\<lparr>sh_queue := Some x\<rparr>)))
      else Inr None)"

definition show_flag_option :: "string \<Rightarrow> ShowOptions \<Rightarrow> ShowOptions option" where
  "show_flag_option arg opt =
     (if arg = ''--show'' then Some (opt\<lparr>sh_show := True\<rparr>)
      else if arg = ''--dry-run'' then Some (opt\<lparr>sh_yes := False\<rparr>)
      else if arg = ''--yes'' then Some (opt\<lparr>sh_yes := True\<rparr>) else None)"

definition show_main :: "(string \<Rightarrow> bool) \<Rightarrow> string list \<Rightarrow> (string \<times> ShowOptions) option res" where
  "show_main =
     inspect_main show_value_option show_flag_option \<lparr>sh_show = False, sh_queue = None, sh_yes = False\<rparr> sh_show"

text \<open>Exercise 13.\<close>

record StatusOptions =
  so_show :: bool
  so_reset :: bool
  so_ack_driver :: bool
  so_yes :: bool

definition status_flag_option :: "string \<Rightarrow> StatusOptions \<Rightarrow> StatusOptions option" where
  "status_flag_option arg opt =
     (if arg = ''--show'' then Some (opt\<lparr>so_show := True\<rparr>)
      else if arg = ''--reset'' then Some (opt\<lparr>so_reset := True\<rparr>)
      else if arg = ''--ack-driver'' then Some (opt\<lparr>so_ack_driver := True\<rparr>)
      else if arg = ''--dry-run'' then Some (opt\<lparr>so_yes := False\<rparr>)
      else if arg = ''--yes'' then Some (opt\<lparr>so_yes := True\<rparr>) else None)"

definition status_flags_ok :: "StatusOptions \<Rightarrow> bool" where
  "status_flags_ok opt \<longleftrightarrow>
     \<not> (so_show opt \<and> (so_reset opt \<or> so_ack_driver opt \<or> so_yes opt)) \<and>
     \<not> (\<not> so_show opt \<and> \<not> so_reset opt \<and> \<not> so_ack_driver opt)"

definition status_main :: "(string \<Rightarrow> bool) \<Rightarrow> string list \<Rightarrow> (string \<times> StatusOptions) option res" where
  "status_main =
     inspect_main no_value_option status_flag_option
       \<lparr>so_show = False, so_reset = False, so_ack_driver = False, so_yes = False\<rparr> status_flags_ok"

text \<open>Exercise 14; the mode is the one of the two flags that was given.\<close>

record FeatureOptions =
  fo_show :: bool
  fo_negotiate_minimal :: bool
  fo_yes :: bool

definition feature_flag_option :: "string \<Rightarrow> FeatureOptions \<Rightarrow> FeatureOptions option" where
  "feature_flag_option arg opt =
     (if arg = ''--show'' then Some (opt\<lparr>fo_show := True\<rparr>)
      else if arg = ''--negotiate-minimal'' then Some (opt\<lparr>fo_negotiate_minimal := True\<rparr>)
      else if arg = ''--dry-run'' then Some (opt\<lparr>fo_yes := False\<rparr>)
      else if arg = ''--yes'' then Some (opt\<lparr>fo_yes := True\<rparr>) else None)"

definition feature_mode :: "FeatureOptions \<Rightarrow> Mode" where
  "feature_mode opt = (if fo_show opt then Show else NegotiateMinimal)"

definition feature_main :: "(string \<Rightarrow> bool) \<Rightarrow> string list \<Rightarrow> (string \<times> FeatureOptions) option res" where
  "feature_main =
     inspect_main no_value_option feature_flag_option \<lparr>fo_show = False, fo_negotiate_minimal = False, fo_yes = False\<rparr>
       (\<lambda>opt. fo_show opt \<noteq> fo_negotiate_minimal opt)"

text \<open>The last of \<open>--yes\<close> and \<open>--dry-run\<close> counts, and without \<open>--yes\<close> among the arguments nothing is ever written.\<close>

lemma yes_needs_flag:
  assumes "\<And>arg v o1 o2. value_option arg v o1 = Inr (Some o2) \<Longrightarrow> yes o2 = yes o1"
    and "\<And>arg o1 o2. flag_option arg o1 = Some o2 \<Longrightarrow> arg \<noteq> ''--yes'' \<Longrightarrow> yes o2 \<Longrightarrow> yes o1"
  shows "option_loop value_option flag_option args opt = Inr (Some opt') \<Longrightarrow> ''--yes'' \<notin> set args \<Longrightarrow> yes opt' \<Longrightarrow> yes opt"
proof (induction value_option\<equiv>value_option flag_option\<equiv>flag_option args opt rule: option_loop.induct)
  case (2 arg opt)
  then show ?case using assms(2) by auto
next
  case (3 arg v args opt)
  then show ?case using assms by (auto simp: res_iff split: option.splits) blast+
qed simp

lemma inspect_main_yes:
  assumes "\<And>arg v o1 o2. value_option arg v o1 = Inr (Some o2) \<Longrightarrow> yes o2 = yes o1"
    and "\<And>arg o1 o2. flag_option arg o1 = Some o2 \<Longrightarrow> arg \<noteq> ''--yes'' \<Longrightarrow> yes o2 \<Longrightarrow> yes o1"
    and "inspect_main value_option flag_option initial accept exists args = Inr (Some (bdf, opt))"
    and "\<not> yes initial" and "''--yes'' \<notin> set args"
  shows "\<not> yes opt"
  using assms(3-) yes_needs_flag [where yes = yes, OF assms(1,2)]
  by (auto simp: inspect_main_def Let_def res_iff split: list.splits if_splits option.splits)

lemma inspection_mains_yes:
  assumes args: "''--yes'' \<notin> set args"
  shows "show_main exists args = Inr (Some (bdf, sopt)) \<Longrightarrow> \<not> sh_yes sopt"
    and "status_main exists args = Inr (Some (bdf, topt)) \<Longrightarrow> \<not> so_yes topt"
    and "feature_main exists args = Inr (Some (bdf, fopt)) \<Longrightarrow> \<not> fo_yes fopt"
proof -
  show "\<not> sh_yes sopt" if run: "show_main exists args = Inr (Some (bdf, sopt))"
    by (rule inspect_main_yes [where yes = sh_yes, OF _ _ run [unfolded show_main_def] _ args])
      (auto simp: show_value_option_def show_flag_option_def res_iff split: if_splits)
  show "\<not> so_yes topt" if run: "status_main exists args = Inr (Some (bdf, topt))"
    by (rule inspect_main_yes [where yes = so_yes, OF _ _ run [unfolded status_main_def] _ args])
      (auto simp: no_value_option_def status_flag_option_def split: if_splits)
  show "\<not> fo_yes fopt" if run: "feature_main exists args = Inr (Some (bdf, fopt))"
    by (rule inspect_main_yes [where yes = fo_yes, OF _ _ run [unfolded feature_main_def] _ args])
      (auto simp: no_value_option_def feature_flag_option_def split: if_splits)
qed

text \<open>
  C24. Without \<open>--yes\<close> the programs only look. For any arguments among which there is no \<open>--yes\<close> and that \<open>main\<close> accepts,
  the runs of exercises 12, 13, 14 and 18 read the config space and do nothing else to the device: whatever the
  device and the kernel answer and however the run ends, no register is written, also not in the windows that were mapped
  read-only, and no memory is mapped.
\<close>

theorem inspection_dry_run:
  fixes env :: "'w env"
  assumes "trace s = []" and "''--yes'' \<notin> set args"
  shows "(\<forall>bdf opt. show_main exists args = Inr (Some (bdf, opt)) \<longrightarrow>
      (\<forall>e \<in> set (trace (snd (show_queue_info env (sh_queue opt) (sh_yes opt) s))). reads_only e) \<and>
      (\<forall>e \<in> set (trace (snd (show_notify_info env (sh_queue opt) (sh_yes opt) s))). reads_only e)) \<and>
    (\<forall>bdf opt. status_main exists args = Inr (Some (bdf, opt)) \<longrightarrow>
      (\<forall>e \<in> set (trace (snd (show_or_change_status env (so_reset opt) (so_ack_driver opt) (so_yes opt) s))). reads_only e)) \<and>
    (\<forall>bdf opt. feature_main exists args = Inr (Some (bdf, opt)) \<longrightarrow>
      (\<forall>e \<in> set (trace (snd (run_feature_sample env (feature_mode opt) (fo_yes opt) s))). reads_only e))"
  using inspection_mains_yes [OF assms(2), of exists] adds_trace [OF inspection_reads_only(1) assms(1)]
    adds_trace [OF inspection_reads_only(3) assms(1)] adds_trace [OF inspection_reads_only(4) assms(1)]
    adds_trace [OF inspection_reads_only(5) assms(1)]
  by simp

theorem inspection_dry_run_witness:
  "list_all reads_only (trace (snd (show_queue_info quiet_env None False (start_st [] ()))))"
proof -
  have "show_main (\<lambda>_. True) [''c1:00.6'', ''--show''] =
      Inr (Some (''0000:c1:00.6'', \<lparr>sh_show = True, sh_queue = None, sh_yes = False\<rparr>))"
    by (simp add: show_main_def inspect_main_def normalize_bdf_def show_flag_option_def)
  with inspection_dry_run [of "start_st [] ()" "[''c1:00.6'', ''--show'']" "\<lambda>_. True" quiet_env] show ?thesis
    by (simp add: start_st_def list_all_iff)
qed

end
