(* ===== verification/QueueSteps.thy ===== *)
theory QueueSteps
  imports NetMain Inspect
begin

text \<open>
  The exercises 15, 16, 17, 19 and 20 of \<open>userspace_drivers/\<close>, which bring up one queue step by step:
  the first maps a vring, the next program its addresses, enable it, ring its doorbell or set DRIVER_OK. None of
  them has a guard of the PCI command register. The theorems say that the device is reset before it loses the vring,
  that no run has undefined behaviour, and what each step writes to the device.
\<close>

section \<open>Options and the shared scopes\<close>

record QueueOptions =
  qo_queue :: u16
  qo_queue_size :: "u16 option"
  qo_iova :: u64
  qo_align :: u64
  qo_yes :: bool

record DriverOkOptions = QueueOptions +
  qo_wait_ms :: u32

definition default_queue_options :: QueueOptions where
  "default_queue_options =
     \<lparr>qo_queue = 0, qo_queue_size = None, qo_iova = 0x100000000, qo_align = 4096, qo_yes = False\<rparr>"

definition default_driver_ok_options :: DriverOkOptions where
  "default_driver_ok_options =
     \<lparr>qo_queue = 0, qo_queue_size = None, qo_iova = 0x100000000, qo_align = 4096, qo_yes = False, qo_wait_ms = 100\<rparr>"

text \<open>The COMMON_CFG mapping without \<open>queue_notify_data\<close>, of all but exercise 19.\<close>

definition map_common_cfg16 :: "'w env \<Rightarrow> VirtioCap \<Rightarrow> bool \<Rightarrow> ('w st, MappedRegion \<times> u64) M" where
  "map_common_cfg16 =
     map_common_window common_min_length ''COMMON_CFG is shorter than queue address fields'' common_min_length"

text \<open>From the options to the mapped COMMON_CFG and its status.\<close>

definition with_common16 :: "'w env \<Rightarrow> u64 \<Rightarrow> (MappedRegion \<Rightarrow> u64 \<Rightarrow> ('w st, 'a) M) \<Rightarrow> ('w st, 'a) M" where
  "with_common16 env iova body =
     with_iova_check env iova
      (bindM (get_config_region env) (\<lambda>config.
       bindM (read_virtio_caps_with (CapFields False False) env config) (\<lambda>caps.
       bindM (liftR (find_common_cfg caps)) (\<lambda>common.
       bindM (map_common_cfg16 env common True) (\<lambda>(m, d).
       thenM (read_status env m d) (body m d))))))"

text \<open>The scope of \<open>selection\<close> and the layout of the one vring.\<close>

definition one_queue_scope ::
  "bool \<Rightarrow> 'w env \<Rightarrow> 'o QueueOptions_scheme \<Rightarrow> MappedRegion \<Rightarrow> u64 \<Rightarrow>
     (u16 \<Rightarrow> VringLayout \<Rightarrow> u64 \<Rightarrow> ('w st, 'a) M) \<Rightarrow> ('w st, 'a) M" where
  "one_queue_scope with_data env opt m d run =
     bindM (read16 env m (d + VIRTIO_PCI_COMMON_NUMQ)) (\<lambda>num_queues.
     bindM (read16 env m (d + VIRTIO_PCI_COMMON_Q_SELECT)) (\<lambda>original_select.
     thenM (throw_ifM (qo_queue opt \<ge> num_queues) (RuntimeError ''queue index is outside num_queues''))
       (with_selection env m d original_select
         (thenM (selection_select env m d (qo_queue opt))
         (bindM (read_queue_view_with with_data env m d) (\<lambda>before.
          thenM (throw_ifM (qv_enable before \<noteq> 0)
            (RuntimeError ''selected queue is already enabled; reset the device before using this tutorial sample''))
         (bindM (liftR (choose_queue_size (qv_size before) (qo_queue_size opt))) (\<lambda>chosen_queue_size.
          bindM (liftR (compute_vring_layout chosen_queue_size (qo_align opt))) (\<lambda>layout.
          bindM (liftR (round_up_to_page (env_page_size env) (vl_total_size layout))) (\<lambda>mapped_size.
          run original_select layout mapped_size))))))))))"

section \<open>Exercise 15: mapping a vring\<close>

text \<open>The scopes of \<open>buffer\<close> and \<open>dma\<close>; there is no reset guard, as the device does not learn of the vring.\<close>

definition with_mapped_buffer :: "'w env \<Rightarrow> u64 \<Rightarrow> u64 \<Rightarrow> ('w st, 'a) M \<Rightarrow> ('w st, 'a) M" where
  "with_mapped_buffer env iova total_size body =
     thenM (AnonymousBuffer_new env total_size)
    (finallyM
      (thenM AnonymousBuffer_zero
      (thenM (DmaMapping_new env iova total_size (VFIO_DMA_MAP_FLAG_READ OR VFIO_DMA_MAP_FLAG_WRITE))
      (finallyM body (DmaMapping_drop env iova total_size))))
      AnonymousBuffer_drop)"

definition vring_map_scope :: "'w env \<Rightarrow> QueueOptions \<Rightarrow> MappedRegion \<Rightarrow> u64 \<Rightarrow> ('w st, u64) M" where
  "vring_map_scope env opt m d =
     one_queue_scope False env opt m d (\<lambda>original_select layout mapped_size.
       with_mapped_buffer env (qo_iova opt) mapped_size
         (bindM (DmaMapping_unmap env (qo_iova opt) mapped_size) (\<lambda>unmapped.
          thenM (selection_restore env m d original_select) (returnM unmapped))))"

definition map_vring_for_queue :: "'w env \<Rightarrow> QueueOptions \<Rightarrow> ('w st, u64) M" where
  "map_vring_for_queue env opt = with_common16 env (qo_iova opt) (vring_map_scope env opt)"

section \<open>Exercises 16, 17 and 20\<close>

text \<open>How they and exercise 19 end.\<close>

definition queue_clean_up ::
  "'w env \<Rightarrow> 'o QueueOptions_scheme \<Rightarrow> MappedRegion \<Rightarrow> u64 \<Rightarrow> u16 \<Rightarrow> u64 \<Rightarrow> ('w st, unit) M" where
  "queue_clean_up env opt m d original_select mapped_size =
     thenM (selection_restore env m d original_select)
    (thenM (reset_device env m d)
    (thenM reset_guard_disarm
    (thenM (DmaMapping_unmap env (qo_iova opt) mapped_size)
           (returnM ()))))"

text \<open>The negotiation and the queue; \<open>datapath\<close> is what happens while the reset guard is armed.\<close>

definition negotiated_queue ::
  "bool \<Rightarrow> 'w env \<Rightarrow> 'o QueueOptions_scheme \<Rightarrow> MappedRegion \<Rightarrow> u64 \<Rightarrow>
     (u16 \<Rightarrow> VringLayout \<Rightarrow> u64 \<Rightarrow> ('w st, 'a) M) \<Rightarrow> ('w st, 'a) M" where
  "negotiated_queue with_data env opt m d datapath_of =
     thenM (negotiate_minimal_transport_features env m d)
       (one_queue_scope with_data env opt m d (\<lambda>original_select layout mapped_size.
          with_dma env (qo_iova opt) mapped_size m d (datapath_of original_select layout mapped_size)))"

definition queue_program_datapath ::
  "'w env \<Rightarrow> QueueOptions \<Rightarrow> MappedRegion \<Rightarrow> u64 \<Rightarrow> u16 \<Rightarrow> VringLayout \<Rightarrow> u64 \<Rightarrow> ('w st, unit) M" where
  "queue_program_datapath env opt m d original_select layout mapped_size =
     thenM (program_queue_addresses env m d layout (qo_iova opt))
    (thenM (read_queue_view_with False env m d)
           (queue_clean_up env opt m d original_select mapped_size))"

definition run_queue_program :: "'w env \<Rightarrow> QueueOptions \<Rightarrow> ('w st, unit) M" where
  "run_queue_program env opt =
     with_common16 env (qo_iova opt) (\<lambda>m d. negotiated_queue False env opt m d (queue_program_datapath env opt m d))"

text \<open>The addresses, the enable bit and its check, which the three later exercises begin with.\<close>

definition program_and_enable ::
  "bool \<Rightarrow> 'w env \<Rightarrow> 'o QueueOptions_scheme \<Rightarrow> MappedRegion \<Rightarrow> u64 \<Rightarrow> VringLayout \<Rightarrow> ('w st, QueueView) M" where
  "program_and_enable with_data env opt m d layout =
     thenM (program_queue_addresses env m d layout (qo_iova opt))
    (thenM (read_queue_view_with with_data env m d)
    (thenM (enable_queue env m d)
    (bindM (read_queue_view_with with_data env m d) (\<lambda>after_enable.
     thenM (throw_ifM (qv_enable after_enable \<noteq> 1) (RuntimeError ''queue_enable did not read back as 1''))
           (returnM after_enable)))))"

definition queue_enable_datapath ::
  "'w env \<Rightarrow> QueueOptions \<Rightarrow> MappedRegion \<Rightarrow> u64 \<Rightarrow> u16 \<Rightarrow> VringLayout \<Rightarrow> u64 \<Rightarrow> ('w st, unit) M" where
  "queue_enable_datapath env opt m d original_select layout mapped_size =
     thenM (program_and_enable False env opt m d layout) (queue_clean_up env opt m d original_select mapped_size)"

definition run_queue_enable :: "'w env \<Rightarrow> QueueOptions \<Rightarrow> ('w st, unit) M" where
  "run_queue_enable env opt =
     with_common16 env (qo_iova opt) (\<lambda>m d. negotiated_queue False env opt m d (queue_enable_datapath env opt m d))"

definition driver_ok_datapath ::
  "'w env \<Rightarrow> DriverOkOptions \<Rightarrow> MappedRegion \<Rightarrow> u64 \<Rightarrow> u16 \<Rightarrow> VringLayout \<Rightarrow> u64 \<Rightarrow> ('w st, unit) M" where
  "driver_ok_datapath env opt m d original_select layout mapped_size =
     thenM (program_and_enable False env opt m d layout)
    (thenM (set_driver_ok env m d)
    (thenM (read_status env m d)
    (thenM (if qo_wait_ms opt > 0
            then thenM (sleep_for env (ms (unat (qo_wait_ms opt)))) (thenM (read_status env m d) (returnM ()))
            else returnM ())
           (queue_clean_up env opt m d original_select mapped_size))))"

definition run_driver_ok :: "'w env \<Rightarrow> DriverOkOptions \<Rightarrow> ('w st, unit) M" where
  "run_driver_ok env opt =
     with_common16 env (qo_iova opt) (\<lambda>m d. negotiated_queue False env opt m d (driver_ok_datapath env opt m d))"

section \<open>Exercise 19: ringing the doorbell\<close>

definition notify_write_datapath ::
  "'w env \<Rightarrow> QueueOptions \<Rightarrow> MappedRegion \<Rightarrow> u64 \<Rightarrow> VirtioCap \<Rightarrow> RegionInfo \<Rightarrow> u16 \<Rightarrow> VringLayout \<Rightarrow> u64 \<Rightarrow>
     ('w st, unit) M" where
  "notify_write_datapath env opt m d notify notify_region original_select layout mapped_size =
     bindM (program_and_enable True env opt m d layout) (\<lambda>after_enable.
     bindM (map_notify_window env notify notify_region (qv_notify_off after_enable)) (\<lambda>window.
     thenM (write_notify env (nw_mapping window) (nw_delta window) (qv_selected after_enable))
           (queue_clean_up env opt m d original_select mapped_size)))"

definition run_notify_write :: "'w env \<Rightarrow> QueueOptions \<Rightarrow> ('w st, unit) M" where
  "run_notify_write env opt =
     with_iova_check env (qo_iova opt)
      (bindM (get_config_region env) (\<lambda>config.
       bindM (read_virtio_caps env config) (\<lambda>caps.
       bindM (liftR (find_common_cfg caps)) (\<lambda>common.
       bindM (liftR (find_notify_cfg caps)) (\<lambda>notify.
       bindM (liftR (vfio_bar_region_index (vc_bar notify))) (\<lambda>notify_index.
       bindM (get_region_info env notify_index) (\<lambda>notify_region.
       bindM (map_common_cfg env common True) (\<lambda>(m, d).
       thenM (read_status env m d)
         (negotiated_queue True env opt m d (notify_write_datapath env opt m d notify notify_region))))))))))"

section \<open>The device is reset before it loses the vring\<close>

lemma adds_queue_steps [adds_rules]:
  "adds harmless (program_and_enable with_data env opt m d layout)"
  by (simp add: program_and_enable_def adds_rules)

lemma queue_clean_up_guarded:
  assumes "has_status m d"
  shows "hoare (phase True False False) (queue_clean_up env opt m d sel sz) (\<lambda>_. guarded) (\<lambda>_. guarded)"
  unfolding queue_clean_up_def
  by (intro armed_step reset_and_unmap_guarded assms) (simp add: adds_rules)

interpretation queue_program_path: datapath env m d "queue_program_datapath env opt m d sel layout sz"
  for env :: "'w env" and opt m d sel layout sz
  by unfold_locales
    (unfold queue_program_datapath_def, intro armed_step queue_clean_up_guarded, simp_all add: adds_rules)

interpretation queue_enable_path: datapath env m d "queue_enable_datapath env opt m d sel layout sz"
  for env :: "'w env" and opt m d sel layout sz
  by unfold_locales
    (unfold queue_enable_datapath_def, intro armed_step queue_clean_up_guarded, simp_all add: adds_rules)

interpretation driver_ok_path: datapath env m d "driver_ok_datapath env opt m d sel layout sz"
  for env :: "'w env" and opt m d sel layout sz
  by unfold_locales
    (unfold driver_ok_datapath_def, intro armed_step queue_clean_up_guarded, simp_all add: adds_rules)

interpretation notify_write_path: datapath env m d "notify_write_datapath env opt m d notify region sel layout sz"
  for env :: "'w env" and opt m d notify region sel layout sz
  by unfold_locales
    (unfold notify_write_datapath_def, intro armed_step queue_clean_up_guarded, simp_all add: adds_rules)

text \<open>The scopes around the datapaths.\<close>

lemma negotiated_queue_safe:
  assumes "\<And>sel layout sz. hoare (phase False True False) (with_dma env (qo_iova opt) sz m d (datapath_of sel layout sz))
    (\<lambda>_. memory_safe) (\<lambda>_. memory_safe)"
  shows "hoare (phase False True False) (negotiated_queue with_data env opt m d datapath_of) (\<lambda>_. memory_safe) (\<lambda>_. memory_safe)"
  unfolding negotiated_queue_def one_queue_scope_def
  by (intro unmapped_step with_selection_safe assms) (simp_all add: adds_rules negotiate_minimal_transport_features_def)

lemma with_common16_safe:
  assumes "\<And>m d. has_status m d \<Longrightarrow> hoare (phase False True False) (body m d) (\<lambda>_. memory_safe) (\<lambda>_. memory_safe)"
  shows "hoare (phase False True False) (with_common16 env iova body) (\<lambda>_. memory_safe) (\<lambda>_. memory_safe)"
  unfolding with_common16_def with_iova_check_def map_common_cfg16_def
  by (intro unmapped_step hoare_case_prod read_status_has assms) (simp_all add: adds_rules)

lemma queue_runs_safe:
  "hoare (phase False True False) (run_queue_program env opt) (\<lambda>_. memory_safe) (\<lambda>_. memory_safe)"
  "hoare (phase False True False) (run_queue_enable env opt) (\<lambda>_. memory_safe) (\<lambda>_. memory_safe)"
  "hoare (phase False True False) (run_driver_ok env dopt) (\<lambda>_. memory_safe) (\<lambda>_. memory_safe)"
  "hoare (phase False True False) (run_notify_write env opt) (\<lambda>_. memory_safe) (\<lambda>_. memory_safe)"
proof -
  show "hoare (phase False True False) (run_queue_program env opt) (\<lambda>_. memory_safe) (\<lambda>_. memory_safe)"
    "hoare (phase False True False) (run_queue_enable env opt) (\<lambda>_. memory_safe) (\<lambda>_. memory_safe)"
    "hoare (phase False True False) (run_driver_ok env dopt) (\<lambda>_. memory_safe) (\<lambda>_. memory_safe)"
    unfolding run_queue_program_def run_queue_enable_def run_driver_ok_def
    by (intro with_common16_safe negotiated_queue_safe queue_program_path.with_dma_safe queue_enable_path.with_dma_safe
        driver_ok_path.with_dma_safe, assumption)+
  show "hoare (phase False True False) (run_notify_write env opt) (\<lambda>_. memory_safe) (\<lambda>_. memory_safe)"
    unfolding run_notify_write_def with_iova_check_def
    by (intro unmapped_step hoare_case_prod read_status_has negotiated_queue_safe notify_write_path.with_dma_safe)
      (simp_all add: adds_rules)
qed

lemma memory_safe_trace:
  assumes "hoare (phase False True False) m (\<lambda>_. memory_safe) (\<lambda>_. memory_safe)" and "trace s = []"
  shows "reset_first (trace (snd (m s))) \<and> (mapped (trace (snd (m s))) \<longrightarrow> quiet (trace (snd (m s))))"
proof -
  have "phase False True False s" using assms(2) by (simp add: phase_def)
  with assms(1) have "memory_safe (snd (m s))"
    by (cases "m s"; cases "fst (m s)") (auto dest: hoare_Inl hoare_Inr)
  then show ?thesis by (simp add: memory_safe_def)
qed

text \<open>
  C23. The step-by-step programs 16, 17, 19 and 20 keep the vring until the device is reset. However they end, also when the
  queue does not come up, the doorbell cannot be mapped or the reset times out: the vring is only unmapped and
  its memory only released after a 0 was the last thing written to the device status, and a device that was
  ever given a vring is left reset.
\<close>

theorem queue_steps_reset_first:
  fixes env :: "'w env"
  assumes "trace s = []"
    and "tr \<in> {trace (snd (run_queue_program env opt s)), trace (snd (run_queue_enable env opt s)),
      trace (snd (run_notify_write env opt s)), trace (snd (run_driver_ok env dopt s))}"
  shows "reset_first tr \<and> (mapped tr \<longrightarrow> quiet tr)"
  using assms(2)
  by (elim insertE emptyE; hypsubst; intro memory_safe_trace [OF _ assms(1)] queue_runs_safe)

theorem queue_steps_reset_first_witness:
  "reset_first (trace (snd (run_queue_enable quiet_env default_queue_options (start_st [] ()))))"
  by (rule conjunct1 [OF queue_steps_reset_first [of "start_st [] ()" _ quiet_env default_queue_options
      default_driver_ok_options]]) (simp_all add: start_st_def)

section \<open>No undefined behaviour\<close>

lemma with_mapped_buffer_reset:
  "with_dma env iova sz m d body =
     with_mapped_buffer env iova sz (thenM reset_guard_new (finallyM body (reset_guard_drop env m d)))"
  by (simp add: with_dma_def with_mapped_buffer_def)

lemma with_mapped_buffer_defined:
  assumes "\<And>n. safe (buffer_size n) body"
  shows "defined (with_mapped_buffer env iova sz body)"
proof -
  have "hoare (\<lambda>_. True) (with_mapped_buffer env iova sz body) (\<lambda>_ _. True) (\<lambda>e _. \<not> is_ub e)"
    unfolding with_mapped_buffer_def
    by (rule hoare_bindM [OF AnonymousBuffer_new_size], rule finally_drop_defined [OF _ AnonymousBuffer_drop_defined])
      (simp add: assms safe_rules any_rules)
  then show ?thesis by (simp add: safe_def)
qed

lemma any_queue_steps [any_rules]:
  "safe (buffer_size n) (queue_clean_up env opt m d sel sz)" "safe (buffer_size n) (program_and_enable b env opt m d layout)"
  by (simp_all add: queue_clean_up_def program_and_enable_def safe_rules any_rules)

lemma any_datapaths [any_rules]:
  "safe (buffer_size n) (queue_program_datapath env opt m d sel layout sz)"
  "safe (buffer_size n) (queue_enable_datapath env opt m d sel layout sz)"
  "safe (buffer_size n) (driver_ok_datapath env dopt m d sel layout sz)"
  "safe (buffer_size n) (notify_write_datapath env opt m d notify region sel layout sz)"
  by (simp_all add: queue_program_datapath_def queue_enable_datapath_def driver_ok_datapath_def
      notify_write_datapath_def safe_rules any_rules)

lemma one_queue_scope_defined:
  assumes "\<And>sel layout sz. defined (run sel layout sz)"
  shows "defined (one_queue_scope b env opt m d run)"
  unfolding one_queue_scope_def
  by (intro with_selection_defined defined_bind safe_bind_liftR assms) (simp_all add: safe_rules any_rules fault_rules)

lemma with_common16_defined:
  assumes "\<And>m d. defined (body m d)"
  shows "defined (with_common16 env iova body)"
  unfolding with_common16_def map_common_cfg16_def
  by (intro with_iova_check_defined defined_bind safe_case_prod assms) (simp_all add: safe_rules any_rules fault_rules)

lemma negotiated_queue_defined:
  assumes "\<And>n sel layout sz. safe (buffer_size n) (datapath_of sel layout sz)"
  shows "defined (negotiated_queue b env opt m d datapath_of)"
  unfolding negotiated_queue_def
  by (intro defined_bind one_queue_scope_defined with_dma_defined assms any_rules)

lemma queue_steps_defined:
  "defined (map_vring_for_queue env opt)" "defined (run_queue_program env opt)" "defined (run_queue_enable env opt)"
  "defined (run_driver_ok env dopt)" "defined (run_notify_write env opt)"
proof -
  show "defined (map_vring_for_queue env opt)"
    unfolding map_vring_for_queue_def vring_map_scope_def
    by (intro with_common16_defined one_queue_scope_defined with_mapped_buffer_defined)
      (simp add: safe_rules any_rules)
  show "defined (run_queue_program env opt)" "defined (run_queue_enable env opt)" "defined (run_driver_ok env dopt)"
    unfolding run_queue_program_def run_queue_enable_def run_driver_ok_def
    by (intro with_common16_defined negotiated_queue_defined any_rules)+
  show "defined (run_notify_write env opt)"
    unfolding run_notify_write_def
    by (intro with_iova_check_defined defined_bind safe_case_prod negotiated_queue_defined any_rules)
      (simp_all add: safe_rules any_rules fault_rules)
qed

section \<open>Exercise 15 keeps the vring to itself\<close>

text \<open>
  \<open>only_selects reg\<close>: no register but \<open>reg\<close> is written, and that only with two bytes, the config space is not
  written and no interrupt is bound. Mapping and unmapping memory is allowed.
\<close>

definition only_selects :: "u64 \<Rightarrow> event \<Rightarrow> bool" where
  "only_selects reg e = (case e of MmioWrite n off v \<Rightarrow> n = 2 \<and> off = reg | ConfigWrite p bs \<Rightarrow> False
     | IrqSet i fl fds \<Rightarrow> False | IrqDisable i \<Rightarrow> False | _ \<Rightarrow> True)"

lemma only_selects_simps [simp]:
  "only_selects reg (MmioWrite n off v) \<longleftrightarrow> n = 2 \<and> off = reg" "only_selects reg (ConfigRead p k)"
  "only_selects reg (DmaMap iova sz fl)" "only_selects reg (DmaUnmap iova sz)" "only_selects reg (BufferAlloc sz)"
  "only_selects reg BufferFree"
  by (simp_all add: only_selects_def)

lemma adds_finallyM: "adds P m \<Longrightarrow> adds P c \<Longrightarrow> adds P (finallyM m c)"
proof (unfold adds_def, rule allI)
  fix s
  assume m: "\<forall>s. \<exists>tr. trace (snd (m s)) = trace s @ tr \<and> (\<forall>e \<in> set tr. P e) \<and>
      reset_active (snd (m s)) = reset_active s \<and> irq_active (snd (m s)) = irq_active s"
    and c: "\<forall>s. \<exists>tr. trace (snd (c s)) = trace s @ tr \<and> (\<forall>e \<in> set tr. P e) \<and>
      reset_active (snd (c s)) = reset_active s \<and> irq_active (snd (c s)) = irq_active s"
  obtain x s1 where x: "m s = (x, s1)" by fastforce
  have "snd (finallyM m c s) = snd (c s1)" using x by (cases x) (simp_all add: finallyM_def split: prod.splits)
  moreover from m x obtain t1 where "trace s1 = trace s @ t1" "\<forall>e \<in> set t1. P e"
    "reset_active s1 = reset_active s" "irq_active s1 = irq_active s" by (metis snd_conv)
  moreover from c obtain t2 where "trace (snd (c s1)) = trace s1 @ t2" "\<forall>e \<in> set t2. P e"
    "reset_active (snd (c s1)) = reset_active s1" "irq_active (snd (c s1)) = irq_active s1" by metis
  ultimately show "\<exists>tr. trace (snd (finallyM m c s)) = trace s @ tr \<and> (\<forall>e \<in> set tr. P e) \<and>
      reset_active (snd (finallyM m c s)) = reset_active s \<and> irq_active (snd (finallyM m c s)) = irq_active s"
    by (intro exI [of _ "t1 @ t2"]) auto
qed

lemma adds_mapping:
  "adds (only_selects reg) (AnonymousBuffer_new env sz)" "adds (only_selects reg) AnonymousBuffer_zero"
  "adds (only_selects reg) AnonymousBuffer_drop" "adds (only_selects reg) (DmaMapping_new env iova sz fl)"
  "adds (only_selects reg) (DmaMapping_unmap env iova sz)"
  by (simp_all add: AnonymousBuffer_new_def AnonymousBuffer_zero_def AnonymousBuffer_drop_def DmaMapping_new_def
      DmaMapping_unmap_def Let_def adds_rules)

lemma adds_DmaMapping_drop: "adds (only_selects reg) (DmaMapping_drop env iova sz)"
proof -
  have "snd (DmaMapping_drop env iova sz s) = snd (DmaMapping_unmap env iova sz s)" for s
    by (simp add: DmaMapping_drop_def bindM_def returnM_def split: sum.splits prod.splits)
  with adds_mapping(5) [of reg env iova sz] show ?thesis by (simp add: adds_def)
qed

lemma adds_view_with [adds_rules]: "adds P (read_queue_view_with b env m d)"
  by (simp add: read_queue_view_with_def read_common_u64_def adds_rules)

lemma adds_selection:
  "adds (only_selects (select_register m d)) (selection_select env m d queue)"
  "adds (only_selects (select_register m d)) (selection_restore env m d queue)"
  by (simp_all add: selection_select_def selection_restore_def write16_def mmio_write_def select_register_def adds_rules)

lemma vring_map_scope_selects: "adds (only_selects (select_register m d)) (vring_map_scope env opt m d)"
  unfolding vring_map_scope_def one_queue_scope_def with_selection_def with_mapped_buffer_def
  by (intro adds_bindM adds_finallyM) (simp_all add: adds_rules adds_mapping adds_DmaMapping_drop adds_selection)

definition selects_one :: "('w st, 'a) M \<Rightarrow> bool" where
  "selects_one m' \<longleftrightarrow> (\<forall>s. \<exists>reg tr. trace (snd (m' s)) = trace s @ tr \<and> (\<forall>e \<in> set tr. only_selects reg e))"

lemma selects_one_adds: "adds (only_selects reg) m' \<Longrightarrow> selects_one m'"
  unfolding adds_def selects_one_def by meson

lemma selects_one_bind:
  assumes "adds reads_only m'" and "\<And>a. selects_one (f a)"
  shows "selects_one (bindM m' f)"
proof (unfold selects_one_def, rule allI)
  fix s
  obtain x s1 where x: "m' s = (x, s1)" by fastforce
  obtain t1 where t1: "trace s1 = trace s @ t1" "\<forall>e \<in> set t1. reads_only e"
    using assms(1) x by (rule addsE)
  have "reads_only e \<Longrightarrow> only_selects reg e" for e reg
    by (cases e) (simp_all add: reads_only_def)
  with t1(2) have t1': "\<forall>e \<in> set t1. only_selects reg e" for reg by blast
  show "\<exists>reg tr. trace (snd (bindM m' f s)) = trace s @ tr \<and> (\<forall>e \<in> set tr. only_selects reg e)"
  proof (cases x)
    case (Inl e)
    with x t1 t1' show ?thesis by (auto simp: bindM_def)
  next
    case (Inr a)
    from assms(2) [of a] obtain reg t2 where "trace (snd (f a s1)) = trace s1 @ t2" "\<forall>e \<in> set t2. only_selects reg e"
      unfolding selects_one_def by meson
    with x t1 t1' Inr show ?thesis
      by (intro exI [of _ reg] exI [of _ "t1 @ t2"]) (auto simp: bindM_def)
  qed
qed

lemma map_vring_selects: "selects_one (map_vring_for_queue env opt)"
proof -
  have "adds (only_selects (select_register m d)) (thenM (read_status env m d) (vring_map_scope env opt m d))" for m d
    by (intro adds_bindM vring_map_scope_selects) (simp add: adds_rules)
  note inner = selects_one_adds [OF this]
  have "selects_one (case p of (m, d) \<Rightarrow> thenM (read_status env m d) (vring_map_scope env opt m d))" for p
    using inner by (cases p) simp
  then show ?thesis
    unfolding map_vring_for_queue_def with_common16_def with_iova_check_def map_common_cfg16_def
    by (intro selects_one_bind) (simp_all add: adds_rules)
qed

text \<open>
  Exercise 15 maps a vring the device never hears of. However it ends, the only register it writes is the
  selection of a queue: no address, no size, no enable bit, no doorbell and no status; nor does it write the config space
  or bind an interrupt. So it may map and unmap without a reset of the device.
\<close>

theorem vring_map_private:
  assumes "trace s = []"
  shows "\<exists>reg. \<forall>e \<in> set (trace (snd (map_vring_for_queue env opt s))). only_selects reg e"
  using map_vring_selects [of env opt] assms unfolding selects_one_def by (metis append_Nil)

theorem vring_map_private_witness:
  "\<exists>reg. \<forall>e \<in> set (trace (snd (map_vring_for_queue quiet_env default_queue_options (start_st [] ())))). only_selects reg e"
  by (rule vring_map_private) (simp add: start_st_def)

section \<open>What each step writes\<close>

lemma emits_view_with [emit_rules]: "emits (read_queue_view_with b env r d) []"
  unfolding read_queue_view_with_def
  by (cases b; simp only: if_True if_False; (rule emits_bindM emit_rules | simp)+)

lemma emits_program_and_enable_step [emit_rules]:
  "emits (program_and_enable b env opt m d layout) (tl (queue_writes m d queue layout (qo_iova opt)))"
  unfolding program_and_enable_def program_queue_addresses_def enable_queue_def
  by (rule emits_bindM emit_rules | simp add: queue_writes_def Let_def)+

text \<open>The registers the end of a run may write.\<close>

definition clean_up_event :: "MappedRegion \<Rightarrow> u64 \<Rightarrow> event \<Rightarrow> bool" where
  "clean_up_event m d e = (case e of
       MmioWrite n off v \<Rightarrow> off = select_register m d \<or> off = mr_offset m + (d + VIRTIO_PCI_COMMON_STATUS) \<and> v = 0
     | DmaUnmap iova sz \<Rightarrow> True | _ \<Rightarrow> False)"

lemma queue_clean_up_events:
  assumes "queue_clean_up env opt m d sel sz s = (Inr (), s')"
  shows "\<exists>tr. trace s' = trace s @ tr \<and> (\<forall>e \<in> set tr. clean_up_event m d e)"
proof -
  from assms obtain s1 s2 s3 u where run: "selection_restore env m d sel s = (Inr (), s1)"
    "reset_device env m d s1 = (Inr (), s2)" "reset_guard_disarm s2 = (Inr (), s3)"
    "DmaMapping_unmap env (qo_iova opt) sz s3 = (Inr u, s')"
    by (auto simp: queue_clean_up_def run_iff)
  have "adds (clean_up_event m d) (selection_restore env m d sel)"
    by (simp add: selection_restore_def write16_def mmio_write_def adds_rules clean_up_event_def select_register_def)
  from addsE [OF this run(1)] obtain t1 where 1: "trace s1 = trace s @ t1" "\<forall>e \<in> set t1. clean_up_event m d e" .
  have 2: "trace s2 = trace s1 @ [MmioWrite 1 (mr_offset m + (d + VIRTIO_PCI_COMMON_STATUS)) 0]"
    using emitsD [OF emits_reset_device run(2)] by simp
  have 3: "trace s3 = trace s2"
    using run(3) by (auto simp: reset_guard_disarm_def modifyM_def)
  have "adds (clean_up_event m d) (DmaMapping_unmap env (qo_iova opt) sz)"
    by (simp add: DmaMapping_unmap_def Let_def adds_rules clean_up_event_def)
  from addsE [OF this run(4)] obtain t4 where 4: "trace s' = trace s3 @ t4" "\<forall>e \<in> set t4. clean_up_event m d e" .
  from 1 2 3 4 show ?thesis
    by (intro exI [of _ "t1 @ [MmioWrite 1 (mr_offset m + (d + VIRTIO_PCI_COMMON_STATUS)) 0] @ t4"])
      (auto simp: clean_up_event_def)
qed

text \<open>
  Exercise 19 rings one doorbell, the right one, after the queue is up. When the part of the run under the reset guard
  returns, the device reported the queue enabled, in a view \<open>v\<close>, and the writes were: the size and the
  addresses of the vring, the enable bit, then two bytes with the index of the queue at the place that NOTIFY_CFG and the
  reported \<open>queue_notify_off\<close> give; after that only the selection was put back and the status set to 0.
\<close>

theorem doorbell_rung_once:
  assumes "notify_write_datapath env opt m d notify region sel layout sz s = (Inr (), s')"
  shows "\<exists>(v :: QueueView) tr. qv_enable v = 1 \<and>
    trace s' = trace s @ tl (queue_writes m d (qo_queue opt) layout (qo_iova opt)) @
      [MmioWrite 2 (ri_offset region + notify_bar_offset notify (qv_notify_off v)) (ucast (qv_selected v))] @ tr \<and>
    (\<forall>e \<in> set tr. clean_up_event m d e)"
proof -
  from assms obtain v s1 w s2 s3 where run: "program_and_enable True env opt m d layout s = (Inr v, s1)"
    "map_notify_window env notify region (qv_notify_off v) s1 = (Inr w, s2)"
    "write_notify env (nw_mapping w) (nw_delta w) (qv_selected v) s2 = (Inr (), s3)"
    and fin: "queue_clean_up env opt m d sel sz s3 = (Inr (), s')"
    by (auto simp: notify_write_datapath_def run_iff)
  have v: "qv_enable v = 1"
    using run(1) by (auto simp: program_and_enable_def run_iff)
  have 1: "trace s1 = trace s @ tl (queue_writes m d (qo_queue opt) layout (qo_iova opt))"
    by (rule emitsD [OF emits_program_and_enable_step run(1)])
  have "adds (\<lambda>_. False) (map_notify_window env notify region (qv_notify_off v))"
    by (simp add: map_notify_window_def Let_def adds_rules)
  from addsE [OF this run(2)] have 2: "trace s2 = trace s1" by fastforce
  have w: "mr_offset (nw_mapping w) + nw_delta w = ri_offset region + notify_bar_offset notify (qv_notify_off v)"
    using run(2) by (auto simp: map_notify_window_def run_iff Let_def dest!: MappedRegion_new_Inr)
  have "emits (write_notify env (nw_mapping w) (nw_delta w) (qv_selected v))
      [MmioWrite 2 (mr_offset (nw_mapping w) + nw_delta w) (ucast (qv_selected v))]"
    unfolding write_notify_def by (rule emit_rules)
  note 3 = emitsD [OF this run(3), unfolded w]
  from queue_clean_up_events [OF fin] obtain tr where "trace s' = trace s3 @ tr" "\<forall>e \<in> set tr. clean_up_event m d e" by blast
  with v 1 2 3 show ?thesis by (intro exI [of _ v] exI [of _ tr]) simp
qed

section \<open>The command lines\<close>

definition queue_value_option :: "string \<Rightarrow> string \<Rightarrow> 'o QueueOptions_scheme \<Rightarrow> 'o QueueOptions_scheme option res" where
  "queue_value_option arg v opt =
     (if arg = ''--queue'' then bindR (parse_u16 v ''queue'') (\<lambda>x. Inr (Some (opt\<lparr>qo_queue := x\<rparr>)))
      else if arg = ''--queue-size'' then bindR (parse_u16 v ''queue-size'') (\<lambda>x. Inr (Some (opt\<lparr>qo_queue_size := Some x\<rparr>)))
      else if arg = ''--iova'' then bindR (parse_ull v ''iova'') (\<lambda>x. Inr (Some (opt\<lparr>qo_iova := x\<rparr>)))
      else if arg = ''--align'' then bindR (parse_ull v ''align'') (\<lambda>x. Inr (Some (opt\<lparr>qo_align := x\<rparr>)))
      else Inr None)"

definition driver_ok_value_option :: "string \<Rightarrow> string \<Rightarrow> DriverOkOptions \<Rightarrow> DriverOkOptions option res" where
  "driver_ok_value_option arg v opt =
     (if arg = ''--wait-ms'' then bindR (parse_u32 v ''wait-ms'') (\<lambda>x. Inr (Some (opt\<lparr>qo_wait_ms := x\<rparr>)))
      else queue_value_option arg v opt)"

definition queue_flag_option :: "string \<Rightarrow> 'o QueueOptions_scheme \<Rightarrow> 'o QueueOptions_scheme option" where
  "queue_flag_option arg opt =
     (if arg = ''--dry-run'' then Some (opt\<lparr>qo_yes := False\<rparr>)
      else if arg = ''--yes'' then Some (opt\<lparr>qo_yes := True\<rparr>) else None)"

definition queue_option_checks :: "string \<Rightarrow> 'o QueueOptions_scheme \<Rightarrow> unit res" where
  "queue_option_checks msg opt =
     throw_if (\<not> is_power_of_two (qo_align opt) \<or> qo_align opt < kVringUsedAlignSize) (RuntimeError msg)"

text \<open>Exercise 15, exercises 16, 17 and 19, and exercise 20.\<close>

definition vring_map_main :: "(string \<Rightarrow> bool) \<Rightarrow> string list \<Rightarrow> (string \<times> QueueOptions) option res" where
  "vring_map_main = ctrl_main queue_value_option queue_flag_option default_queue_options
     (queue_option_checks ''align must be a power of two and at least VRING_USED_ALIGN_SIZE'')"

definition queue_main :: "(string \<Rightarrow> bool) \<Rightarrow> string list \<Rightarrow> (string \<times> QueueOptions) option res" where
  "queue_main = ctrl_main queue_value_option queue_flag_option default_queue_options
     (queue_option_checks ''align must be a power of two and at least 4 bytes'')"

definition driver_ok_main :: "(string \<Rightarrow> bool) \<Rightarrow> string list \<Rightarrow> (string \<times> DriverOkOptions) option res" where
  "driver_ok_main = ctrl_main driver_ok_value_option queue_flag_option default_driver_ok_options
     (queue_option_checks ''align must be a power of two and at least 4 bytes'')"

lemma queue_env_notify:
  "\<exists>w s'. map_notify_window queue_env notify_cap4 bar4 0 s = (Inr w, s') \<and> world s' = world s \<and>
     check_range (nw_mapping w) (nw_delta w) 2 = Inr ()"
proof -
  have "\<exists>w s'. map_notify_window queue_env notify_cap4 bar4 0 s = (Inr w, s') \<and> world s' = world s"
    by (simp add: map_notify_window_def check_notify_offset_def notify_bar_offset_def notify_cap4_def
        bar4_def VFIO_REGION_INFO_FLAG_MMAP_def VFIO_REGION_INFO_FLAG_WRITE_def throw_ifM_def
        require_mmap_area_contains_def MappedRegion_new_def system_page_size_def queue_env_def
        Let_def bindM_def liftR_def returnM_def external_def)
  then obtain w s' where run: "map_notify_window queue_env notify_cap4 bar4 0 s = (Inr w, s')" "world s' = world s"
    by blast
  with notify_window_target [OF run(1)] show ?thesis by (auto simp: notify_cap4_def)
qed

lemma queue_env_status:
  "read_status queue_env regs58 0 s = (Inr 0, s)"
  using regs58_range [of 20 1]
  by (simp add: read_status_def read8_def mmio_read_def common_regs bindM_def liftR_def returnM_def external_def)
    (simp add: queue_env_def regs58_def)

lemma queue_env_reset:
  "\<exists>s'. reset_device queue_env regs58 0 s = (Inr (), s') \<and> dma_active s' = dma_active s"
proof -
  have now: "now queue_env s = (Inr (time s + 1), s\<lparr>time := time s + 1\<rparr>)" for s :: "bool st"
    by (simp add: now_def queue_env_def)
  obtain w where w: "write_status queue_env regs58 0 0 s = (Inr (), s\<lparr>trace := trace s @ [MmioWrite 1 0x1014 0], world := w\<rparr>)"
  proof
    show "write_status queue_env regs58 0 0 s = (Inr (), s\<lparr>trace := trace s @ [MmioWrite 1 0x1014 0],
        world := env_mmio_write queue_env 1 0x1014 0 (world s)\<rparr>)"
      using regs58_range [of 20 1]
      by (simp add: write_status_def write8_def mmio_write_def common_regs bindM_def liftR_def external_def emit_def regs58_def)
  qed
  have wait: "wait_status_loop (Suc f) queue_env regs58 0 0 deadline t = (Inr True, t\<lparr>time := time t + 1\<rparr>)"
    if "time t + 1 < deadline" for f deadline and t :: "bool st"
    using that by (simp add: bindM_def now queue_env_status returnM_def)
  have "wait_status_loop 1000 queue_env regs58 0 0 deadline t = (Inr True, t\<lparr>time := time t + 1\<rparr>)"
    if "time t + 1 < deadline" for deadline and t :: "bool st"
    using wait [OF that, of 999] by (simp add: numeral_eq_Suc del: wait_status_loop.simps)
  then show ?thesis
    using w by (simp add: reset_device_def wait_for_status_def bindM_def now queue_env_status returnM_def ms_def
        del: wait_status_loop.simps)
qed

lemma queue_env_program_step:
  assumes "\<not> world s"
  shows "\<exists>v s'. program_and_enable True queue_env opt regs58 0 l s = (Inr v, s') \<and> qv_notify_off v = 0"
proof -
  have view: "\<exists>v. read_queue_view_with True queue_env regs58 0 t = (Inr v, t) \<and> qv_notify_off v = 0 \<and>
      qv_enable v = (if world t then 1 else 0)" for t
    by (simp add: read_queue_view_with_def read_common_u64_def bindM_def returnM_def queue_env_regs common_regs)
  obtain s1 where 1: "program_queue_addresses queue_env regs58 0 l (qo_iova opt) s = (Inr (), s1)"
    using queue_env_program by blast
  obtain v1 where v1: "read_queue_view_with True queue_env regs58 0 s1 = (Inr v1, s1)" using view by blast
  obtain s2 where 2: "enable_queue queue_env regs58 0 s1 = (Inr (), s2)" "world s2"
    by (simp add: enable_queue_def queue_env_regs common_regs)
  obtain v2 where v2: "read_queue_view_with True queue_env regs58 0 s2 = (Inr v2, s2)" "qv_notify_off v2 = 0" "qv_enable v2 = 1"
    using view [of s2] 2(2) by auto
  from 1 v1 2 v2 show ?thesis
    by (simp add: program_and_enable_def bindM_def throw_ifM_def returnM_def)
qed

lemma queue_env_clean_up:
  "\<exists>s'. queue_clean_up queue_env opt regs58 0 sel sz s = (Inr (), s')"
proof -
  have restore: "\<exists>t'. selection_restore queue_env regs58 0 sel t = (Inr (), t')" for t
    by (simp add: selection_restore_def readM_def returnM_def bindM_def modifyM_def queue_env_regs common_regs)
  have unmap: "\<exists>u t'. DmaMapping_unmap queue_env iova sz t = (Inr u, t')" for iova t
    by (simp add: DmaMapping_unmap_def readM_def returnM_def bindM_def modifyM_def external_def emit_def queue_env_def)
  obtain s1 where 1: "selection_restore queue_env regs58 0 sel s = (Inr (), s1)" using restore by blast
  obtain s2 where 2: "reset_device queue_env regs58 0 s1 = (Inr (), s2)" using queue_env_reset by blast
  obtain u s3 where "DmaMapping_unmap queue_env (qo_iova opt) sz (s2\<lparr>reset_active := False\<rparr>) = (Inr u, s3)" using unmap by blast
  with 1 2 show ?thesis
    by (simp add: queue_clean_up_def bindM_def reset_guard_disarm_def modifyM_def returnM_def)
qed

theorem doorbell_rung_once_witness:
  "\<exists>s' (v :: QueueView) tr. notify_write_datapath queue_env default_queue_options regs58 0 notify_cap4 bar4 0 ring_layout4 4096
      (start_st [] False) = (Inr (), s') \<and> qv_enable v = 1 \<and>
    trace s' = tl (queue_writes regs58 0 0 ring_layout4 0x100000000) @
      [MmioWrite 2 (ri_offset bar4 + notify_bar_offset notify_cap4 (qv_notify_off v)) (ucast (qv_selected v))] @ tr"
proof -
  obtain v s1 where 1: "program_and_enable True queue_env default_queue_options regs58 0 ring_layout4 (start_st [] False) = (Inr v, s1)"
    "qv_notify_off v = 0"
    using queue_env_program_step [of "start_st [] False" default_queue_options ring_layout4] by (auto simp: start_st_def)
  obtain w s2 where 2: "map_notify_window queue_env notify_cap4 bar4 0 s1 = (Inr w, s2)"
    "check_range (nw_mapping w) (nw_delta w) 2 = Inr ()"
    using queue_env_notify [of s1] by blast
  obtain s3 where 3: "write_notify queue_env (nw_mapping w) (nw_delta w) (qv_selected v) s2 = (Inr (), s3)"
    using 2(2) by (simp add: write_notify_def write16_cases)
  obtain s4 where 4: "queue_clean_up queue_env default_queue_options regs58 0 0 4096 s3 = (Inr (), s4)"
    using queue_env_clean_up by blast
  have run: "notify_write_datapath queue_env default_queue_options regs58 0 notify_cap4 bar4 0 ring_layout4 4096
      (start_st [] False) = (Inr (), s4)"
    using 1 2 3 4 by (simp add: notify_write_datapath_def bindM_def)
  from doorbell_rung_once [OF run] run show ?thesis
    by (auto simp: default_queue_options_def start_st_def)
qed

end
