(* ===== verification/FdQueue.thy ===== *)
theory FdQueue
  imports Prelude
begin

text \<open>
  The queue of accepted connections of \<open>io_uring/19_multithread_echo.cpp\<close>: a ring of \<open>CAPACITY\<close> file
  descriptors that one accept thread fills and one worker thread empties, without a lock. First the
  two operations as functions, which refine a bounded list; then the two threads as the single
  loads and stores they make, in any interleaving, with the eventfd that wakes the worker.
\<close>

section \<open>The queue\<close>

definition CAPACITY :: nat where "CAPACITY = 4096"

text \<open>\<open>head\<close> and \<open>tail\<close> are indices, never negative.\<close>

record FdQueue =
  fq_data :: "int list"
  fq_head :: nat
  fq_tail :: nat

definition empty_queue :: FdQueue where
  "empty_queue = \<lparr>fq_data = replicate CAPACITY 0, fq_head = 0, fq_tail = 0\<rparr>"

definition push :: "int \<Rightarrow> FdQueue \<Rightarrow> bool \<times> FdQueue" where
  "push fd q =
     (let t = fq_tail q; nxt = (t + 1) mod CAPACITY
      in if nxt = fq_head q then (False, q)
         else (True, q\<lparr>fq_data := (fq_data q)[t := fd], fq_tail := nxt\<rparr>))"

definition pop :: "FdQueue \<Rightarrow> int option \<times> FdQueue" where
  "pop q =
     (let h = fq_head q
      in if h = fq_tail q then (None, q)
         else (Some (fq_data q ! h), q\<lparr>fq_head := (h + 1) mod CAPACITY\<rparr>))"

text \<open>The worker's loop over \<open>pop\<close>: the descriptors in the order it takes them. A queue has fewer than \<open>CAPACITY\<close>.\<close>

primrec drain_queue :: "nat \<Rightarrow> FdQueue \<Rightarrow> int list \<times> FdQueue" where
  "drain_queue 0 q = ([], q)"
| "drain_queue (Suc n) q =
     (case pop q of (None, q') \<Rightarrow> ([], q')
      | (Some fd, q') \<Rightarrow> (case drain_queue n q' of (fds, q'') \<Rightarrow> (fd # fds, q'')))"

section \<open>A bounded first-in-first-out queue\<close>

text \<open>
  A sequence of operations, \<open>Some x\<close> to enqueue \<open>x\<close> and \<open>None\<close> to dequeue: what was taken in, what was
  given out, and the queue after it.
\<close>

fun run_queue :: "('a \<Rightarrow> 'q \<Rightarrow> bool \<times> 'q) \<Rightarrow> ('q \<Rightarrow> 'a option \<times> 'q) \<Rightarrow> 'a option list \<Rightarrow> 'q \<Rightarrow> 'a list \<times> 'a list \<times> 'q" where
  "run_queue enq deq [] q = ([], [], q)"
| "run_queue enq deq (Some x # ops) q =
     (case enq x q of (b, q1) \<Rightarrow> case run_queue enq deq ops q1 of (took, gave, q2) \<Rightarrow>
        (if b then x # took else took, gave, q2))"
| "run_queue enq deq (None # ops) q =
     (case deq q of (r, q1) \<Rightarrow> case run_queue enq deq ops q1 of (took, gave, q2) \<Rightarrow>
        (took, case r of None \<Rightarrow> gave | Some y \<Rightarrow> y # gave, q2))"

text \<open>The contract of a queue: what it holds, as a list, and what the operations do to it.\<close>

locale fifo =
  fixes enq :: "'a \<Rightarrow> 'q \<Rightarrow> bool \<times> 'q" and deq :: "'q \<Rightarrow> 'a option \<times> 'q"
    and held :: "'q \<Rightarrow> 'a list" and ok :: "'q \<Rightarrow> bool" and room :: nat
  assumes held_room: "ok q \<Longrightarrow> length (held q) \<le> room"
    and enq_full: "ok q \<Longrightarrow> length (held q) = room \<Longrightarrow> enq x q = (False, q)"
    and enq_held: "ok q \<Longrightarrow> length (held q) < room \<Longrightarrow> \<exists>q'. enq x q = (True, q') \<and> ok q' \<and> held q' = held q @ [x]"
    and deq_empty: "ok q \<Longrightarrow> held q = [] \<Longrightarrow> deq q = (None, q)"
    and deq_held: "ok q \<Longrightarrow> held q = y # ys \<Longrightarrow> \<exists>q'. deq q = (Some y, q') \<and> ok q' \<and> held q' = ys"
begin

lemma enq_cases:
  assumes "ok q" and "enq x q = (b, q')"
  shows "ok q' \<and> held q' = (if b then held q @ [x] else held q) \<and> (b \<longleftrightarrow> length (held q) < room)"
proof (cases "length (held q) = room")
  case True
  with assms enq_full [of q x] show ?thesis by simp
next
  case False
  with assms held_room [of q] enq_held [of q x] show ?thesis by auto
qed

lemma deq_cases:
  assumes "ok q" and "deq q = (r, q')"
  shows "ok q' \<and> (case r of None \<Rightarrow> held q = [] \<and> q' = q | Some y \<Rightarrow> held q = y # held q')"
proof (cases "held q")
  case Nil
  with assms deq_empty [of q] show ?thesis by simp
next
  case (Cons y ys)
  with assms deq_held [of q y ys] show ?thesis by auto
qed

text \<open>Whatever the operations, what comes out is what went in, in the same order, and the rest is still held.\<close>

lemma first_in_first_out:
  "ok q \<Longrightarrow> run_queue enq deq ops q = (took, gave, q') \<Longrightarrow> ok q' \<and> held q @ took = gave @ held q'"
proof (induction ops arbitrary: q took gave q')
  case (Cons a ops)
  show ?case
  proof (cases a)
    case None
    obtain r q1 where 1: "deq q = (r, q1)" by fastforce
    obtain took1 gave1 q2 where 2: "run_queue enq deq ops q1 = (took1, gave1, q2)" by (rule prod_cases3)
    from deq_cases [OF Cons.prems(1) 1] Cons.IH [OF _ 2] Cons.prems(2) None 1 2 show ?thesis
      by (auto split: option.splits)
  next
    case (Some x)
    obtain b q1 where 1: "enq x q = (b, q1)" by fastforce
    obtain took1 gave1 q2 where 2: "run_queue enq deq ops q1 = (took1, gave1, q2)" by (rule prod_cases3)
    from enq_cases [OF Cons.prems(1) 1] Cons.IH [OF _ 2] Cons.prems(2) Some 1 2 show ?thesis
      by (auto split: if_splits)
  qed
qed simp

end

section \<open>The ring keeps the contract\<close>

definition held_fds :: "FdQueue \<Rightarrow> int list" where
  "held_fds q = map (\<lambda>i. fq_data q ! ((fq_head q + i) mod CAPACITY))
     [0..<(fq_tail q + CAPACITY - fq_head q) mod CAPACITY]"

definition queue_ok :: "FdQueue \<Rightarrow> bool" where
  "queue_ok q \<longleftrightarrow> length (fq_data q) = CAPACITY \<and> fq_head q < CAPACITY \<and> fq_tail q < CAPACITY"

lemma CAPACITY_pos [simp]: "0 < CAPACITY" "1 < CAPACITY"
  by (simp_all add: CAPACITY_def)

lemma held_tail:
  assumes "queue_ok q"
  shows "length (held_fds q) < CAPACITY" and "fq_tail q = (fq_head q + length (held_fds q)) mod CAPACITY"
  using assms by (auto simp: held_fds_def queue_ok_def mod_if)

lemma held_fds_eqI:
  assumes "length xs < CAPACITY" and "fq_head q < CAPACITY" and "fq_tail q = (fq_head q + length xs) mod CAPACITY"
    and "\<And>i. i < length xs \<Longrightarrow> fq_data q ! ((fq_head q + i) mod CAPACITY) = xs ! i"
  shows "held_fds q = xs"
  using assms by (intro nth_equalityI) (simp_all add: held_fds_def ring_distance)

lemma nth_held_fds: "i < length (held_fds q) \<Longrightarrow> held_fds q ! i = fq_data q ! ((fq_head q + i) mod CAPACITY)"
  by (simp add: held_fds_def)

lemma push_full_iff:
  assumes "queue_ok q"
  shows "(fq_tail q + 1) mod CAPACITY = fq_head q \<longleftrightarrow> length (held_fds q) = CAPACITY - 1"
proof -
  let ?n = "length (held_fds q)"
  note n = held_tail [OF assms]
  have h: "(fq_head q + 0) mod CAPACITY = fq_head q" using assms by (simp add: queue_ok_def)
  have nxt: "(fq_tail q + 1) mod CAPACITY = (fq_head q + (?n + 1)) mod CAPACITY"
    unfolding n(2) by (simp add: mod_Suc_eq)
  show ?thesis
  proof (cases "?n + 1 = CAPACITY")
    case True
    then show ?thesis using nxt h by simp
  next
    case False
    then have "(fq_head q + 0) mod CAPACITY \<noteq> (fq_head q + (?n + 1)) mod CAPACITY"
      using n(1) by (intro mod_slots_distinct) simp_all
    moreover have "?n \<noteq> CAPACITY - 1" using False n(1) by linarith
    ultimately show ?thesis using nxt h by simp
  qed
qed

text \<open>The two stores of \<open>push\<close>: the slot at the tail is not one of those held; the new tail publishes it.\<close>

lemma held_write_slot:
  assumes "queue_ok q"
  shows "queue_ok (q\<lparr>fq_data := (fq_data q)[fq_tail q := fd]\<rparr>)"
    and "held_fds (q\<lparr>fq_data := (fq_data q)[fq_tail q := fd]\<rparr>) = held_fds q"
proof -
  note n = held_tail [OF assms]
  have "fq_tail q \<noteq> (fq_head q + i) mod CAPACITY" if "i < length (held_fds q)" for i
    using mod_slots_distinct [OF that n(1), of "fq_head q"] n(2) by simp
  then show "held_fds (q\<lparr>fq_data := (fq_data q)[fq_tail q := fd]\<rparr>) = held_fds q"
    using assms n by (intro held_fds_eqI) (simp_all add: nth_held_fds queue_ok_def)
  show "queue_ok (q\<lparr>fq_data := (fq_data q)[fq_tail q := fd]\<rparr>)"
    using assms by (simp add: queue_ok_def)
qed

lemma held_publish:
  assumes "queue_ok q" and "length (held_fds q) < CAPACITY - 1" and "fq_data q ! fq_tail q = fd"
  shows "queue_ok (q\<lparr>fq_tail := (fq_tail q + 1) mod CAPACITY\<rparr>)"
    and "held_fds (q\<lparr>fq_tail := (fq_tail q + 1) mod CAPACITY\<rparr>) = held_fds q @ [fd]"
proof -
  let ?q = "q\<lparr>fq_tail := (fq_tail q + 1) mod CAPACITY\<rparr>"
  note n = held_tail [OF assms(1)]
  show "queue_ok ?q" using assms(1) by (simp add: queue_ok_def)
  show "held_fds ?q = held_fds q @ [fd]"
  proof (rule held_fds_eqI)
    show "fq_tail ?q = (fq_head ?q + length (held_fds q @ [fd])) mod CAPACITY"
      using n(2) by (simp add: mod_Suc_eq)
    fix i assume "i < length (held_fds q @ [fd])"
    then show "fq_data ?q ! ((fq_head ?q + i) mod CAPACITY) = (held_fds q @ [fd]) ! i"
      using n(2) assms(3) by (cases "i = length (held_fds q)") (simp_all add: nth_append nth_held_fds)
  qed (use assms in \<open>simp_all add: queue_ok_def\<close>)
qed

lemma push_held:
  assumes "queue_ok q" and "length (held_fds q) < CAPACITY - 1"
  shows "\<exists>q'. push fd q = (True, q') \<and> queue_ok q' \<and> held_fds q' = held_fds q @ [fd]"
proof -
  let ?w = "q\<lparr>fq_data := (fq_data q)[fq_tail q := fd]\<rparr>"
  note w = held_write_slot [OF assms(1), of fd]
  have "fq_data ?w ! fq_tail ?w = fd" using assms(1) by (simp add: queue_ok_def)
  from held_publish [OF w(1) _ this] assms(2) w(2)
  have "queue_ok (?w\<lparr>fq_tail := (fq_tail q + 1) mod CAPACITY\<rparr>)"
    "held_fds (?w\<lparr>fq_tail := (fq_tail q + 1) mod CAPACITY\<rparr>) = held_fds q @ [fd]" by simp_all
  moreover have "push fd q = (True, ?w\<lparr>fq_tail := (fq_tail q + 1) mod CAPACITY\<rparr>)"
    using push_full_iff [OF assms(1)] assms(2) by (simp add: push_def Let_def)
  ultimately show ?thesis by blast
qed

text \<open>The only store of \<open>pop\<close>.\<close>

lemma held_advance:
  assumes "queue_ok q" and "held_fds q = y # ys"
  shows "queue_ok (q\<lparr>fq_head := (fq_head q + 1) mod CAPACITY\<rparr>)"
    and "held_fds (q\<lparr>fq_head := (fq_head q + 1) mod CAPACITY\<rparr>) = ys"
    and "fq_head q \<noteq> fq_tail q" and "fq_data q ! fq_head q = y"
proof -
  let ?q = "q\<lparr>fq_head := (fq_head q + 1) mod CAPACITY\<rparr>"
  note n = held_tail [OF assms(1)]
  have data: "length (fq_data q) = CAPACITY" "fq_head q < CAPACITY" "fq_tail q < CAPACITY"
    using assms(1) by (simp_all add: queue_ok_def)
  have "(fq_head q + 0) mod CAPACITY \<noteq> (fq_head q + length (held_fds q)) mod CAPACITY"
    using n(1) assms(2) by (intro mod_slots_distinct) simp_all
  then show "fq_head q \<noteq> fq_tail q" using n(2) data by simp
  show "fq_data q ! fq_head q = y"
    using nth_held_fds [of 0 q] assms(2) data by simp
  show "held_fds ?q = ys"
  proof (rule held_fds_eqI)
    show "fq_tail ?q = (fq_head ?q + length ys) mod CAPACITY"
      using n(2) assms(2) by (simp add: mod_add_left_eq)
    fix i assume "i < length ys"
    then show "fq_data ?q ! ((fq_head ?q + i) mod CAPACITY) = ys ! i"
      using nth_held_fds [of "Suc i" q] assms(2) by (simp add: mod_add_left_eq)
  qed (use n(1) assms(2) in simp_all)
  show "queue_ok ?q" using data by (simp add: queue_ok_def)
qed

lemma pop_held:
  assumes "queue_ok q" and "held_fds q = y # ys"
  shows "\<exists>q'. pop q = (Some y, q') \<and> queue_ok q' \<and> held_fds q' = ys"
  using held_advance [OF assms] by (simp add: pop_def Let_def)

lemma pop_empty:
  assumes "queue_ok q" and "held_fds q = []"
  shows "pop q = (None, q)"
  using held_tail [OF assms(1)] assms by (simp add: pop_def queue_ok_def)

interpretation fds: fifo push pop held_fds queue_ok "CAPACITY - 1"
proof
  show "length (held_fds q) \<le> CAPACITY - 1" if "queue_ok q" for q using held_tail(1) [OF that] by simp
  show "push x q = (False, q)" if "queue_ok q" "length (held_fds q) = CAPACITY - 1" for x q
    using push_full_iff [OF that(1)] that(2) by (simp add: push_def)
qed (auto intro: push_held pop_held pop_empty)

text \<open>An empty queue is one whose indices meet.\<close>

lemma held_Nil_iff: "queue_ok q \<Longrightarrow> held_fds q = [] \<longleftrightarrow> fq_head q = fq_tail q"
  using held_tail [of q] held_advance(3) [of q] by (cases "held_fds q") (auto simp: queue_ok_def)

lemma empty_queue_ok: "queue_ok empty_queue" "held_fds empty_queue = []"
  by (simp_all add: queue_ok_def empty_queue_def held_fds_def)

text \<open>
  C14. The ring is a bounded first-in-first-out queue: for any sequence of \<open>push\<close> and \<open>pop\<close> on a queue
  that holds anything, what \<open>pop\<close> gives is what was in the queue and what \<open>push\<close> accepted, in that
  order, and what is not given yet is still held; it never holds more than 4095.
\<close>

theorem fd_queue_fifo:
  assumes "queue_ok q" and "run_queue push pop ops q = (took, gave, q')"
  shows "held_fds q @ took = gave @ held_fds q' \<and> length (held_fds q') \<le> 4095 \<and> queue_ok q'"
  using fds.first_in_first_out [OF assms] fds.held_room [of q'] by (simp add: CAPACITY_def)

theorem fd_queue_fifo_witness:
  "\<exists>q'. run_queue push pop [Some 7, Some 8, None, Some 9, None] empty_queue = ([7, 8, 9], [7, 8], q') \<and> held_fds q' = [9]"
proof -
  obtain q' where run: "run_queue push pop [Some 7, Some 8, None, Some 9, None] empty_queue = ([7, 8, 9], [7, 8], q')"
    by (simp add: push_def pop_def empty_queue_def CAPACITY_def Let_def)
  from fd_queue_fifo [OF empty_queue_ok(1) run] empty_queue_ok(2) have "held_fds q' = [9]" by simp
  with run show ?thesis by blast
qed

text \<open>The worker's loop takes all that is held.\<close>

lemma drain_queue_held:
  "queue_ok q \<Longrightarrow> length (held_fds q) \<le> n \<Longrightarrow>
     \<exists>q'. drain_queue n q = (held_fds q, q') \<and> queue_ok q' \<and> held_fds q' = []"
proof (induction n arbitrary: q)
  case (Suc n)
  show ?case
  proof (cases "held_fds q")
    case Nil
    with Suc.prems show ?thesis by (simp add: pop_empty)
  next
    case (Cons y ys)
    obtain q1 where "pop q = (Some y, q1)" "queue_ok q1" "held_fds q1 = ys"
      using pop_held [OF Suc.prems(1) Cons] by blast
    with Suc.IH [of q1] Suc.prems(2) Cons show ?thesis by auto
  qed
qed simp

section \<open>Two threads\<close>

text \<open>
  The accept thread, with what it holds in local variables between two steps: it accepts a
  connection, pushes it (load \<open>tail\<close>, load \<open>head\<close>, store the slot, store \<open>tail\<close>; the result of
  \<open>push\<close> is not used), and writes to the eventfd. Every step is one access to shared memory or one system
  call. The releases and acquires of the source order the accesses as the steps have them.
\<close>

datatype producer =
    Accepting
  | LoadTail int
  | LoadHead int nat
  | StoreSlot int nat
  | StoreTail int nat
  | WriteEventfd

text \<open>
  The worker: it polls the eventfd, reads it (which sets it to 0), and pops until the queue is
  empty (load \<open>head\<close>, load \<open>tail\<close>, load the slot, store \<open>head\<close>), handing each descriptor to \<open>client_handler\<close>.
\<close>

datatype consumer =
    Polling
  | PopHead
  | PopTail nat
  | PopSlot nat
  | PopStore nat int

text \<open>
  The shared state, and the history: the descriptors whose push was a success, those whose push
  failed, and those that have a handler.
\<close>

record threads =
  th_queue :: FdQueue
  th_eventfd :: nat
  th_producer :: producer
  th_consumer :: consumer
  th_pushed :: "int list"
  th_dropped :: "int list"
  th_served :: "int list"

definition threads_start :: threads where
  "threads_start = \<lparr>th_queue = empty_queue, th_eventfd = 0, th_producer = Accepting, th_consumer = Polling,
     th_pushed = [], th_dropped = [], th_served = []\<rparr>"

text \<open>One step of the accept thread; \<open>client_fd\<close> is the next connection.\<close>

fun accept_step :: "int \<Rightarrow> threads \<Rightarrow> threads" where
  "accept_step client_fd s =
     (case th_producer s of
        Accepting \<Rightarrow> s\<lparr>th_producer := LoadTail client_fd\<rparr>
      | LoadTail fd \<Rightarrow> s\<lparr>th_producer := LoadHead fd (fq_tail (th_queue s))\<rparr>
      | LoadHead fd t \<Rightarrow>
          if (t + 1) mod CAPACITY = fq_head (th_queue s)
          then s\<lparr>th_producer := WriteEventfd, th_dropped := th_dropped s @ [fd]\<rparr>
          else s\<lparr>th_producer := StoreSlot fd t\<rparr>
      | StoreSlot fd t \<Rightarrow>
          s\<lparr>th_queue := (th_queue s)\<lparr>fq_data := (fq_data (th_queue s))[t := fd]\<rparr>, th_producer := StoreTail fd t\<rparr>
      | StoreTail fd t \<Rightarrow>
          s\<lparr>th_queue := (th_queue s)\<lparr>fq_tail := (t + 1) mod CAPACITY\<rparr>, th_producer := WriteEventfd,
            th_pushed := th_pushed s @ [fd]\<rparr>
      | WriteEventfd \<Rightarrow> s\<lparr>th_eventfd := th_eventfd s + 1, th_producer := Accepting\<rparr>)"

text \<open>One step of the worker; it waits as long as the eventfd is 0.\<close>

fun worker_step :: "threads \<Rightarrow> threads" where
  "worker_step s =
     (case th_consumer s of
        Polling \<Rightarrow> if th_eventfd s = 0 then s else s\<lparr>th_eventfd := 0, th_consumer := PopHead\<rparr>
      | PopHead \<Rightarrow> s\<lparr>th_consumer := PopTail (fq_head (th_queue s))\<rparr>
      | PopTail h \<Rightarrow>
          if h = fq_tail (th_queue s) then s\<lparr>th_consumer := Polling\<rparr> else s\<lparr>th_consumer := PopSlot h\<rparr>
      | PopSlot h \<Rightarrow> s\<lparr>th_consumer := PopStore h (fq_data (th_queue s) ! h)\<rparr>
      | PopStore h fd \<Rightarrow>
          s\<lparr>th_queue := (th_queue s)\<lparr>fq_head := (h + 1) mod CAPACITY\<rparr>, th_consumer := PopHead,
            th_served := th_served s @ [fd]\<rparr>)"

declare accept_step.simps [simp del] worker_step.simps [simp del]

text \<open>Any interleaving, with any connections.\<close>

inductive interleaved :: "threads \<Rightarrow> bool" where
  start: "interleaved threads_start"
| accepts: "interleaved s \<Longrightarrow> interleaved (accept_step client_fd s)"
| works: "interleaved s \<Longrightarrow> interleaved (worker_step s)"

section \<open>Every connection that was pushed is served once, in order\<close>

fun producer_ok :: "FdQueue \<Rightarrow> producer \<Rightarrow> bool" where
  "producer_ok q (LoadHead fd t) = (t = fq_tail q)"
| "producer_ok q (StoreSlot fd t) = (t = fq_tail q \<and> length (held_fds q) < CAPACITY - 1)"
| "producer_ok q (StoreTail fd t) = (t = fq_tail q \<and> length (held_fds q) < CAPACITY - 1 \<and> fq_data q ! t = fd)"
| "producer_ok q p = True"

fun consumer_ok :: "FdQueue \<Rightarrow> consumer \<Rightarrow> bool" where
  "consumer_ok q (PopTail h) = (h = fq_head q)"
| "consumer_ok q (PopSlot h) = (h = fq_head q \<and> held_fds q \<noteq> [])"
| "consumer_ok q (PopStore h fd) = (h = fq_head q \<and> held_fds q \<noteq> [] \<and> hd (held_fds q) = fd)"
| "consumer_ok q c = True"

definition threads_ok :: "threads \<Rightarrow> bool" where
  "threads_ok s \<longleftrightarrow> queue_ok (th_queue s) \<and> th_pushed s = th_served s @ held_fds (th_queue s) \<and>
     producer_ok (th_queue s) (th_producer s) \<and> consumer_ok (th_queue s) (th_consumer s) \<and>
     (th_consumer s = Polling \<and> held_fds (th_queue s) \<noteq> [] \<longrightarrow> 0 < th_eventfd s \<or> th_producer s = WriteEventfd)"

lemma consumer_ok_keep:
  assumes "consumer_ok q c" and "fq_head q' = fq_head q" and "held_fds q' = held_fds q @ xs"
  shows "consumer_ok q' c"
  using assms by (cases c) simp_all

lemma producer_ok_keep:
  assumes "producer_ok q p" and "fq_tail q' = fq_tail q" and "fq_data q' = fq_data q"
    and "length (held_fds q') \<le> length (held_fds q)"
  shows "producer_ok q' p"
  using assms by (cases p) auto

lemma accept_step_ok:
  assumes ok: "threads_ok s"
  shows "threads_ok (accept_step fd s)"
proof (cases "th_producer s")
  case (LoadHead fd' t)
  have "length (held_fds (th_queue s)) < CAPACITY - 1" if "(fq_tail (th_queue s) + 1) mod CAPACITY \<noteq> fq_head (th_queue s)"
    using that push_full_iff [of "th_queue s"] held_tail(1) [of "th_queue s"] ok by (auto simp: threads_ok_def)
  with ok LoadHead show ?thesis by (auto simp: threads_ok_def accept_step.simps)
next
  case (StoreSlot fd' t)
  let ?q = "(th_queue s)\<lparr>fq_data := (fq_data (th_queue s))[fq_tail (th_queue s) := fd']\<rparr>"
  from ok have q: "queue_ok (th_queue s)" by (simp add: threads_ok_def)
  note w = held_write_slot [OF q, of fd']
  have "consumer_ok ?q (th_consumer s)"
    by (rule consumer_ok_keep [of "th_queue s" _ _ "[]"]) (use ok w in \<open>simp_all add: threads_ok_def\<close>)
  moreover have "fq_tail (th_queue s) < length (fq_data (th_queue s))" using q by (simp add: queue_ok_def)
  ultimately show ?thesis using ok StoreSlot w by (simp add: threads_ok_def accept_step.simps)
next
  case (StoreTail fd' t)
  let ?q = "(th_queue s)\<lparr>fq_tail := (fq_tail (th_queue s) + 1) mod CAPACITY\<rparr>"
  from ok StoreTail have q: "queue_ok (th_queue s)" "length (held_fds (th_queue s)) < CAPACITY - 1"
    "fq_data (th_queue s) ! fq_tail (th_queue s) = fd'" "t = fq_tail (th_queue s)"
    by (auto simp: threads_ok_def)
  note w = held_publish [OF q(1-3)]
  have "consumer_ok ?q (th_consumer s)"
    by (rule consumer_ok_keep [of "th_queue s" _ _ "[fd']"]) (use ok w in \<open>simp_all add: threads_ok_def\<close>)
  with ok StoreTail q w show ?thesis by (auto simp: threads_ok_def accept_step.simps)
qed (use ok in \<open>simp_all add: threads_ok_def accept_step.simps\<close>)

lemma worker_step_ok:
  assumes ok: "threads_ok s"
  shows "threads_ok (worker_step s)"
proof (cases "th_consumer s")
  case (PopTail h)
  with ok held_Nil_iff [of "th_queue s"] show ?thesis by (auto simp: threads_ok_def worker_step.simps)
next
  case (PopSlot h)
  from ok have q: "queue_ok (th_queue s)" by (simp add: threads_ok_def)
  from ok PopSlot obtain y ys where "held_fds (th_queue s) = y # ys"
    by (cases "held_fds (th_queue s)") (simp_all add: threads_ok_def)
  with ok PopSlot held_advance(4) [OF q this] show ?thesis by (simp add: threads_ok_def worker_step.simps)
next
  case (PopStore h fd)
  from ok have q: "queue_ok (th_queue s)" by (simp add: threads_ok_def)
  from ok PopStore obtain ys where ys: "held_fds (th_queue s) = fd # ys"
    by (cases "held_fds (th_queue s)") (simp_all add: threads_ok_def)
  note w = held_advance [OF q ys]
  have "producer_ok ((th_queue s)\<lparr>fq_head := (fq_head (th_queue s) + 1) mod CAPACITY\<rparr>) (th_producer s)"
    by (rule producer_ok_keep [of "th_queue s"]) (use ok w ys in \<open>simp_all add: threads_ok_def\<close>)
  with ok PopStore w ys show ?thesis by (simp add: threads_ok_def worker_step.simps)
qed (use ok in \<open>auto simp: threads_ok_def worker_step.simps\<close>)

lemma interleaved_ok: "interleaved s \<Longrightarrow> threads_ok s"
proof (induction rule: interleaved.induct)
  case start
  show ?case by (simp add: threads_ok_def threads_start_def empty_queue_ok)
qed (simp_all add: accept_step_ok worker_step_ok)

text \<open>
  C12. The lock-free queue between the threads loses nothing: in every interleaving of the loads and
  stores of the accept thread and the worker, the descriptors that have a handler, followed by those
  still in the ring, are exactly the descriptors pushed with success, in the order of the pushes; a
  connection is dropped only while 4095 wait; and the thread that stores a slot and the one that
  loads a slot never do so on the same one.
\<close>

theorem fd_queue_threads:
  assumes "interleaved s"
  shows "th_pushed s = th_served s @ held_fds (th_queue s) \<and>
    (th_dropped (accept_step fd s) \<noteq> th_dropped s \<longrightarrow> length (held_fds (th_queue s)) = 4095) \<and>
    (\<forall>fd t h. th_producer s = StoreSlot fd t \<and> th_consumer s = PopSlot h \<longrightarrow> t \<noteq> h)"
proof -
  note ok = interleaved_ok [OF assms]
  then have q: "queue_ok (th_queue s)" by (simp add: threads_ok_def)
  have "length (held_fds (th_queue s)) = 4095" if "th_dropped (accept_step fd s) \<noteq> th_dropped s"
    using that ok push_full_iff [OF q]
    by (auto simp: threads_ok_def accept_step.simps CAPACITY_def split: producer.splits if_splits)
  moreover have "t \<noteq> h" if "th_producer s = StoreSlot fd' t" "th_consumer s = PopSlot h" for fd' t h
    using that ok held_Nil_iff [OF q] by (simp add: threads_ok_def)
  ultimately show ?thesis using ok by (auto simp: threads_ok_def)
qed

theorem fd_queue_threads_witness:
  "\<exists>s. interleaved s \<and> th_producer s = StoreSlot 7 0 \<and> th_pushed s = th_served s @ held_fds (th_queue s)"
proof -
  let ?s = "accept_step 0 (accept_step 0 (accept_step 7 threads_start))"
  have run: "interleaved ?s" by (intro interleaved.intros)
  moreover have "th_producer ?s = StoreSlot 7 0"
    by (simp add: accept_step.simps threads_start_def empty_queue_def CAPACITY_def)
  ultimately show ?thesis using fd_queue_threads [OF run] by blast
qed

text \<open>
  C13. No wake-up is lost: when the accept thread waits for a connection, the worker waits for the eventfd, and
  the eventfd is 0 (so that neither will ever look at the queue by itself again), every descriptor
  that was pushed has a handler.
\<close>

theorem no_lost_wakeup:
  assumes "interleaved s" and "th_producer s = Accepting" and "th_consumer s = Polling" and "th_eventfd s = 0"
  shows "th_served s = th_pushed s"
  using interleaved_ok [OF assms(1)] assms(2-4) by (auto simp: threads_ok_def)

theorem no_lost_wakeup_witness:
  "\<exists>s. interleaved s \<and> th_consumer s = Polling \<and> th_pushed s = [7] \<and> th_served s = [7]"
proof -
  let ?p = "accept_step 0 (accept_step 0 (accept_step 0 (accept_step 0 (accept_step 0 (accept_step 7 threads_start)))))"
  let ?s = "worker_step (worker_step (worker_step (worker_step (worker_step (worker_step (worker_step ?p))))))"
  have q: "fq_head empty_queue = 0" "fq_tail empty_queue = 0" "length (fq_data empty_queue) = CAPACITY"
    by (simp_all add: empty_queue_def)
  have c: "CAPACITY \<noteq> Suc 0" by (simp add: CAPACITY_def)
  have p: "?p = \<lparr>th_queue = empty_queue\<lparr>fq_data := (fq_data empty_queue)[0 := 7], fq_tail := 1\<rparr>, th_eventfd = 1,
      th_producer = Accepting, th_consumer = Polling, th_pushed = [7], th_dropped = [], th_served = []\<rparr>"
    by (simp add: accept_step.simps threads_start_def q c)
  have s: "th_producer ?s = Accepting" "th_consumer ?s = Polling" "th_eventfd ?s = 0" "th_pushed ?s = [7]"
    unfolding p by (simp_all add: worker_step.simps q c)
  have run: "interleaved ?s" by (intro interleaved.intros)
  have "th_served ?s = th_pushed ?s" by (rule no_lost_wakeup [OF run s(1-3)])
  with run s show ?thesis by metis
qed

end
