(* ===== verification/UringEcho.thy ===== *)
theory UringEcho
  imports Bytes "HOL-Library.Multiset" "HOL-Library.Sublist"
begin

unbundle bit_operations_syntax

text \<open>
  The echo server of \<open>io_uring/07_echo_server.cpp\<close>, with \<open>echo_common.hpp\<close>, \<open>07_echo_common.hpp\<close> and
  the submission queue of \<open>io_uring_utils.hpp\<close>: the encoding of an operation in \<open>user_data\<close>, the
  treatment of a completion (\<open>handle_cqe\<close>), the event loop, and the kernel as a relation that completes
  any request in flight at any time. The invariant says that every connection has exactly one
  operation; from it follow the correctness of the echo and the safety of the buffers.
\<close>

section \<open>Operations in user data\<close>

definition OP_ACCEPT :: u64 where "OP_ACCEPT = 0x0100000000000000"
definition OP_RECV :: u64 where "OP_RECV = 0x0200000000000000"
definition OP_SEND :: u64 where "OP_SEND = 0x0300000000000000"
definition OP_MASK :: u64 where "OP_MASK = 0xFF00000000000000"
definition FD_MASK :: u64 where "FD_MASK = 0x00FFFFFFFFFFFFFF"

definition encode :: "u64 \<Rightarrow> int \<Rightarrow> u64" where
  "encode op fd = op OR word_of_int fd"

definition decode_op :: "u64 \<Rightarrow> u64" where
  "decode_op ud = ud AND OP_MASK"

text \<open>The conversion to \<open>int\<close> keeps the low 32 bits.\<close>

definition decode_fd :: "u64 \<Rightarrow> int" where
  "decode_fd ud = sint (ucast (ud AND FD_MASK) :: 32 word)"

definition is_fd :: "int \<Rightarrow> bool" where
  "is_fd fd \<longleftrightarrow> 0 \<le> fd \<and> fd < 2 ^ 31"

section \<open>Requests and completions\<close>

text \<open>
  What a request asks for: a connection from the listening socket, or a transfer between a socket and
  the buffer of its client, from an offset and of a length. \<open>user_data\<close> comes back in the completion.
\<close>

datatype io = Accept int | Recv int nat nat | Send int nat nat

record sqe =
  sq_io :: io
  sq_data :: u64

record cqe =
  cq_data :: u64
  cq_res :: int

definition CLIENT_BUF_SIZE :: nat where "CLIENT_BUF_SIZE = 4096"

record Client =
  cl_buf :: "u8 list"
  cl_send_len :: nat
  cl_send_offset :: nat

definition new_client :: Client where
  "new_client = \<lparr>cl_buf = replicate CLIENT_BUF_SIZE 0, cl_send_len = 0, cl_send_offset = 0\<rparr>"

text \<open>The server's memory: its clients by descriptor, and the submission queue.\<close>

record server =
  sv_clients :: "int \<Rightarrow> Client option"
  sv_sq :: "sqe list"

text \<open>\<open>get_sqe\<close> and the preparation of the request; the queue has \<open>depth\<close> places.\<close>

definition queue_sqe :: "nat \<Rightarrow> io \<Rightarrow> u64 \<Rightarrow> server \<Rightarrow> server res" where
  "queue_sqe depth io ud sv =
     (if length (sv_sq sv) \<ge> depth then Inl (RuntimeError ''submission queue is full'')
      else Inr (sv\<lparr>sv_sq := sv_sq sv @ [\<lparr>sq_io = io, sq_data = ud\<rparr>]\<rparr>))"

section \<open>The treatment of a completion\<close>

text \<open>The result also has the descriptors that were closed.\<close>

definition handle_accept :: "nat \<Rightarrow> int \<Rightarrow> int \<Rightarrow> server \<Rightarrow> (server \<times> int list) res" where
  "handle_accept depth listen_fd res sv =
     bindR (if res \<ge> 0
            then queue_sqe depth (Recv res 0 CLIENT_BUF_SIZE) (encode OP_RECV res)
                   (sv\<lparr>sv_clients := (sv_clients sv)(res \<mapsto> new_client)\<rparr>)
            else Inr sv) (\<lambda>sv'.
     bindR (queue_sqe depth (Accept listen_fd) (encode OP_ACCEPT listen_fd) sv') (\<lambda>sv''.
     Inr (sv'', [])))"

text \<open>\<open>clients[fd]\<close> creates an entry if there is none.\<close>

definition handle_recv :: "nat \<Rightarrow> int \<Rightarrow> int \<Rightarrow> server \<Rightarrow> (server \<times> int list) res" where
  "handle_recv depth fd res sv =
     (if res \<le> 0 then Inr (sv\<lparr>sv_clients := (sv_clients sv)(fd := None)\<rparr>, [fd])
      else let c = (case sv_clients sv fd of Some c \<Rightarrow> c | None \<Rightarrow> new_client);
               c' = c\<lparr>cl_send_len := nat res, cl_send_offset := 0\<rparr>
           in bindR (queue_sqe depth (Send fd 0 (cl_send_len c')) (encode OP_SEND fd)
                       (sv\<lparr>sv_clients := (sv_clients sv)(fd \<mapsto> c')\<rparr>)) (\<lambda>sv'.
              Inr (sv', [])))"

definition handle_send :: "nat \<Rightarrow> int \<Rightarrow> int \<Rightarrow> server \<Rightarrow> (server \<times> int list) res" where
  "handle_send depth fd res sv =
     (case sv_clients sv fd of
        None \<Rightarrow> Inr (sv, [])
      | Some c \<Rightarrow>
          if res \<le> 0 then Inr (sv\<lparr>sv_clients := (sv_clients sv)(fd := None)\<rparr>, [fd])
          else let c' = c\<lparr>cl_send_offset := cl_send_offset c + nat res\<rparr>;
                   sv' = sv\<lparr>sv_clients := (sv_clients sv)(fd \<mapsto> c')\<rparr>
               in bindR (if cl_send_offset c' < cl_send_len c'
                         then queue_sqe depth (Send fd (cl_send_offset c') (cl_send_len c' - cl_send_offset c'))
                                (encode OP_SEND fd) sv'
                         else queue_sqe depth (Recv fd 0 CLIENT_BUF_SIZE) (encode OP_RECV fd) sv') (\<lambda>sv''.
                  Inr (sv'', [])))"

definition handle_cqe :: "nat \<Rightarrow> int \<Rightarrow> u64 \<Rightarrow> int \<Rightarrow> int \<Rightarrow> server \<Rightarrow> (server \<times> int list) res" where
  "handle_cqe depth listen_fd op fd res sv =
     (if op = OP_ACCEPT then handle_accept depth listen_fd res sv
      else if op = OP_RECV then handle_recv depth fd res sv
      else if op = OP_SEND then handle_send depth fd res sv
      else Inr (sv, []))"

section \<open>The server and the kernel\<close>

text \<open>What the peer of a connection has sent so far (and the server received), and what it was sent.\<close>

record conn =
  cn_in :: "u8 list"
  cn_out :: "u8 list"

text \<open>
  The server, the requests in flight, the completion queue, the open connections, and how many
  completions the loop has still to treat before the next \<open>submit_and_wait\<close>.
\<close>

record sys =
  sy_server :: server
  sy_inflight :: "sqe multiset"
  sy_cq :: "cqe list"
  sy_conns :: "int \<Rightarrow> conn option"
  sy_ready :: nat

definition close_all :: "int list \<Rightarrow> (int \<Rightarrow> conn option) \<Rightarrow> int \<Rightarrow> conn option" where
  "close_all fds cns = (\<lambda>fd. if fd \<in> set fds then None else cns fd)"

definition echo_start :: "int \<Rightarrow> sys" where
  "echo_start listen_fd =
     \<lparr>sy_server = \<lparr>sv_clients = (\<lambda>_. None),
        sv_sq = [\<lparr>sq_io = Accept listen_fd, sq_data = encode OP_ACCEPT listen_fd\<rparr>]\<rparr>,
      sy_inflight = {#}, sy_cq = [], sy_conns = (\<lambda>_. None), sy_ready = 0\<rparr>"

text \<open>
  The kernel completes a request: it accepts a connection under a descriptor that is not in use or
  fails to; it receives some bytes into the buffer, or reports the end of the stream or an error; it
  sends some of the bytes, or fails.
\<close>

definition completed :: "sqe \<Rightarrow> int \<Rightarrow> sys \<Rightarrow> sys" where
  "completed s res y =
     y\<lparr>sy_inflight := sy_inflight y - {#s#}, sy_cq := sy_cq y @ [\<lparr>cq_data = sq_data s, cq_res = res\<rparr>]\<rparr>"

definition received :: "int \<Rightarrow> nat \<Rightarrow> u8 list \<Rightarrow> Client \<Rightarrow> conn \<Rightarrow> sys \<Rightarrow> sys" where
  "received fd off bs c cn y =
     y\<lparr>sy_server := (sy_server y)\<lparr>sv_clients := (sv_clients (sy_server y))(fd \<mapsto> c\<lparr>cl_buf := overwrite off bs (cl_buf c)\<rparr>)\<rparr>,
       sy_conns := (sy_conns y)(fd \<mapsto> cn\<lparr>cn_in := cn_in cn @ bs\<rparr>)\<rparr>"

definition sent :: "int \<Rightarrow> u8 list \<Rightarrow> conn \<Rightarrow> sys \<Rightarrow> sys" where
  "sent fd bs cn y = y\<lparr>sy_conns := (sy_conns y)(fd \<mapsto> cn\<lparr>cn_out := cn_out cn @ bs\<rparr>)\<rparr>"

inductive kernel_step :: "sys \<Rightarrow> sys \<Rightarrow> bool" where
  accepted: "s \<in># sy_inflight y \<Longrightarrow> sq_io s = Accept l \<Longrightarrow> is_fd fd \<Longrightarrow> sy_conns y fd = None \<Longrightarrow>
    kernel_step y ((completed s fd y)\<lparr>sy_conns := (sy_conns y)(fd \<mapsto> \<lparr>cn_in = [], cn_out = []\<rparr>)\<rparr>)"
| accept_failed: "s \<in># sy_inflight y \<Longrightarrow> sq_io s = Accept l \<Longrightarrow> res < 0 \<Longrightarrow> kernel_step y (completed s res y)"
| recv_some: "s \<in># sy_inflight y \<Longrightarrow> sq_io s = Recv fd off len \<Longrightarrow>
    sv_clients (sy_server y) fd = Some c \<Longrightarrow> sy_conns y fd = Some cn \<Longrightarrow> bs \<noteq> [] \<Longrightarrow> length bs \<le> len \<Longrightarrow>
    kernel_step y (received fd off bs c cn (completed s (int (length bs)) y))"
| recv_none: "s \<in># sy_inflight y \<Longrightarrow> sq_io s = Recv fd off len \<Longrightarrow> res \<le> 0 \<Longrightarrow> kernel_step y (completed s res y)"
| send_some: "s \<in># sy_inflight y \<Longrightarrow> sq_io s = Send fd off len \<Longrightarrow>
    sv_clients (sy_server y) fd = Some c \<Longrightarrow> sy_conns y fd = Some cn \<Longrightarrow> 0 < n \<Longrightarrow> n \<le> len \<Longrightarrow>
    kernel_step y (sent fd (segment off n (cl_buf c)) cn (completed s (int n) y))"
| send_none: "s \<in># sy_inflight y \<Longrightarrow> sq_io s = Send fd off len \<Longrightarrow> res \<le> 0 \<Longrightarrow> kernel_step y (completed s res y)"

text \<open>
  The event loop: \<open>submit_and_wait\<close> hands over the queued requests, and returns when there are
  completions; then as many are treated, each with \<open>peek\<close> and \<open>seen\<close>.
\<close>

inductive loop_step :: "nat \<Rightarrow> int \<Rightarrow> sys \<Rightarrow> sys \<Rightarrow> bool" for depth listen_fd where
  submit: "sy_ready y = 0 \<Longrightarrow>
    loop_step depth listen_fd y
      (y\<lparr>sy_inflight := sy_inflight y + mset (sv_sq (sy_server y)), sy_server := (sy_server y)\<lparr>sv_sq := []\<rparr>\<rparr>)"
| wake: "sy_ready y = 0 \<Longrightarrow> sv_sq (sy_server y) = [] \<Longrightarrow> sy_cq y \<noteq> [] \<Longrightarrow>
    loop_step depth listen_fd y (y\<lparr>sy_ready := length (sy_cq y)\<rparr>)"
| treat: "sy_ready y = Suc n \<Longrightarrow> sy_cq y = e # es \<Longrightarrow>
    handle_cqe depth listen_fd (decode_op (cq_data e)) (decode_fd (cq_data e)) (cq_res e) (sy_server y) = Inr (sv, fds) \<Longrightarrow>
    loop_step depth listen_fd y (y\<lparr>sy_server := sv, sy_cq := es, sy_conns := close_all fds (sy_conns y), sy_ready := n\<rparr>)"

inductive echo_run :: "nat \<Rightarrow> int \<Rightarrow> sys \<Rightarrow> bool" for depth listen_fd where
  start: "echo_run depth listen_fd (echo_start listen_fd)"
| kernel: "echo_run depth listen_fd y \<Longrightarrow> kernel_step y y' \<Longrightarrow> echo_run depth listen_fd y'"
| loop: "echo_run depth listen_fd y \<Longrightarrow> loop_step depth listen_fd y y' \<Longrightarrow> echo_run depth listen_fd y'"

section \<open>Encoding and decoding\<close>

lemma word_of_fd:
  assumes "is_fd fd"
  shows "(word_of_int fd :: u64) AND OP_MASK = 0" and "(word_of_int fd :: u64) AND FD_MASK = word_of_int fd"
    and "sint (ucast (word_of_int fd :: u64) :: 32 word) = fd"
proof -
  have f: "0 \<le> fd" "fd < 2147483648" using assms by (simp_all add: is_fd_def)
  then have u: "uint (word_of_int fd :: u64) = fd" by (simp add: uint_word_of_int_eq take_bit_int_eq_self)
  have m: "FD_MASK = mask 56" by (simp add: FD_MASK_def mask_eq_exp_minus_1)
  have "take_bit 56 (word_of_int fd :: u64) = word_of_int fd"
    using f u by (simp add: word_uint_eq_iff unsigned_take_bit_eq take_bit_int_eq_self)
  then show and_fd: "(word_of_int fd :: u64) AND FD_MASK = word_of_int fd"
    by (simp add: m take_bit_eq_mask)
  have "FD_MASK AND OP_MASK = 0" by (simp add: FD_MASK_def OP_MASK_def)
  then show "(word_of_int fd :: u64) AND OP_MASK = 0"
    by (metis and_fd and.assoc and_zero_eq)
  show "sint (ucast (word_of_int fd :: u64) :: 32 word) = fd"
    using f by (simp add: unsigned_of_int take_bit_int_eq_self signed_of_int signed_take_bit_int_eq_self)
qed

lemma op_masks:
  "OP_ACCEPT AND OP_MASK = OP_ACCEPT" "OP_RECV AND OP_MASK = OP_RECV" "OP_SEND AND OP_MASK = OP_SEND"
  "OP_ACCEPT AND FD_MASK = 0" "OP_RECV AND FD_MASK = 0" "OP_SEND AND FD_MASK = 0"
  "OP_ACCEPT \<noteq> OP_RECV" "OP_ACCEPT \<noteq> OP_SEND" "OP_RECV \<noteq> OP_SEND"
  "OP_RECV \<noteq> OP_ACCEPT" "OP_SEND \<noteq> OP_ACCEPT" "OP_SEND \<noteq> OP_RECV"
  by (simp_all add: OP_ACCEPT_def OP_RECV_def OP_SEND_def OP_MASK_def FD_MASK_def)

lemma decode_encode [simp]:
  assumes "is_fd fd"
  shows "decode_op (encode OP_ACCEPT fd) = OP_ACCEPT" "decode_op (encode OP_RECV fd) = OP_RECV"
    "decode_op (encode OP_SEND fd) = OP_SEND"
    "decode_fd (encode OP_ACCEPT fd) = fd" "decode_fd (encode OP_RECV fd) = fd" "decode_fd (encode OP_SEND fd) = fd"
  using word_of_fd [OF assms]
  by (simp_all add: decode_op_def decode_fd_def encode_def bit.conj_disj_distrib2 op_masks)

section \<open>One operation for each connection\<close>

text \<open>Requests and completions together: what the server still has to expect.\<close>

type_synonym token = "sqe + cqe"

definition tok_data :: "token \<Rightarrow> u64" where
  "tok_data t = (case t of Inl s \<Rightarrow> sq_data s | Inr e \<Rightarrow> cq_data e)"

definition tokens :: "sys \<Rightarrow> token multiset" where
  "tokens y = image_mset Inl (mset (sv_sq (sy_server y)) + sy_inflight y) + image_mset Inr (mset (sy_cq y))"

definition accepts :: "token \<Rightarrow> bool" where
  "accepts t \<longleftrightarrow> decode_op (tok_data t) = OP_ACCEPT"

definition serves :: "int \<Rightarrow> token \<Rightarrow> bool" where
  "serves fd t \<longleftrightarrow> decode_op (tok_data t) \<noteq> OP_ACCEPT \<and> decode_fd (tok_data t) = fd"

text \<open>What the buffer of a client still owes to its peer.\<close>

definition owed :: "Client \<Rightarrow> u8 list" where
  "owed c = segment (cl_send_offset c) (cl_send_len c - cl_send_offset c) (cl_buf c)"

text \<open>
  The operation of a connection. A request to receive asks for the whole buffer, and everything received
  has been sent; a request to send asks for what is owed, and what was received is what
  was sent and what is owed; the completions report what the kernel did.
\<close>

definition recv_ok :: "int \<Rightarrow> Client \<Rightarrow> conn \<Rightarrow> token \<Rightarrow> bool" where
  "recv_ok fd c cn t \<longleftrightarrow> tok_data t = encode OP_RECV fd \<and>
     (case t of Inl s \<Rightarrow> sq_io s = Recv fd 0 CLIENT_BUF_SIZE \<and> cn_in cn = cn_out cn
      | Inr e \<Rightarrow> if cq_res e \<le> 0 then cn_in cn = cn_out cn
                 else cq_res e \<le> int CLIENT_BUF_SIZE \<and> cn_in cn = cn_out cn @ take (nat (cq_res e)) (cl_buf c))"

definition send_ok :: "int \<Rightarrow> Client \<Rightarrow> conn \<Rightarrow> token \<Rightarrow> bool" where
  "send_ok fd c cn t \<longleftrightarrow> tok_data t = encode OP_SEND fd \<and>
     cl_send_offset c < cl_send_len c \<and> cl_send_len c \<le> CLIENT_BUF_SIZE \<and>
     (case t of Inl s \<Rightarrow> sq_io s = Send fd (cl_send_offset c) (cl_send_len c - cl_send_offset c) \<and>
        cn_in cn = cn_out cn @ owed c
      | Inr e \<Rightarrow> if cq_res e \<le> 0 then cn_in cn = cn_out cn @ owed c
                 else cq_res e \<le> int (cl_send_len c - cl_send_offset c) \<and>
                   cn_in cn = cn_out cn @ owed (c\<lparr>cl_send_offset := cl_send_offset c + nat (cq_res e)\<rparr>))"

definition client_ok :: "int \<Rightarrow> Client \<Rightarrow> conn \<Rightarrow> token \<Rightarrow> bool" where
  "client_ok fd c cn t \<longleftrightarrow> length (cl_buf c) = CLIENT_BUF_SIZE \<and> (recv_ok fd c cn t \<or> send_ok fd c cn t)"

text \<open>The accept operation: a new connection that waits to be treated has no client yet, and is fresh.\<close>

definition accept_ok :: "int \<Rightarrow> (int \<Rightarrow> Client option) \<Rightarrow> (int \<Rightarrow> conn option) \<Rightarrow> token \<Rightarrow> bool" where
  "accept_ok l cls cns t \<longleftrightarrow> tok_data t = encode OP_ACCEPT l \<and>
     (case t of Inl s \<Rightarrow> sq_io s = Accept l
      | Inr e \<Rightarrow> 0 \<le> cq_res e \<longrightarrow> is_fd (cq_res e) \<and> cls (cq_res e) = None \<and>
          cns (cq_res e) = Some \<lparr>cn_in = [], cn_out = []\<rparr>)"

text \<open>What a descriptor without and with a client has: its connection and its operations.\<close>

fun conn_ok :: "int \<Rightarrow> Client option \<Rightarrow> conn option \<Rightarrow> token multiset \<Rightarrow> bool" where
  "conn_ok fd None cn M \<longleftrightarrow> M = {#} \<and> (cn = None \<or> cn = Some \<lparr>cn_in = [], cn_out = []\<rparr>)"
| "conn_ok fd (Some c) cn M \<longleftrightarrow> is_fd fd \<and> (\<exists>cn' t. cn = Some cn' \<and> M = {#t#} \<and> client_ok fd c cn' t)"

definition consistent :: "int \<Rightarrow> (int \<Rightarrow> Client option) \<Rightarrow> (int \<Rightarrow> conn option) \<Rightarrow> token multiset \<Rightarrow> bool" where
  "consistent l cls cns T \<longleftrightarrow>
     (\<exists>t. filter_mset accepts T = {#t#} \<and> accept_ok l cls cns t) \<and>
     (\<forall>fd. conn_ok fd (cls fd) (cns fd) (filter_mset (serves fd) T)) \<and>
     finite (dom cls) \<and> size T = card (dom cls) + 1"

lemma serves_accepts: "serves fd t \<Longrightarrow> \<not> accepts t" "serves fd t \<Longrightarrow> serves fd' t \<longleftrightarrow> fd' = fd"
  "accepts t \<Longrightarrow> \<not> serves fd t"
  by (auto simp: serves_def accepts_def)

lemma client_ok_serves: "is_fd fd \<Longrightarrow> client_ok fd c cn t \<Longrightarrow> serves fd t"
  by (auto simp: client_ok_def recv_ok_def send_ok_def serves_def op_masks)

lemma accept_ok_accepts: "is_fd l \<Longrightarrow> accept_ok l cls cns t \<Longrightarrow> accepts t"
  by (simp add: accept_ok_def accepts_def)

text \<open>The one operation of a client.\<close>

lemma consistent_serves:
  assumes "consistent l cls cns (add_mset a T)" and "serves fd a"
  obtains c cn where "cls fd = Some c" and "cns fd = Some cn" and "is_fd fd" and "client_ok fd c cn a"
    and "filter_mset (serves fd) T = {#}"
proof -
  from assms(1) have "conn_ok fd (cls fd) (cns fd) (filter_mset (serves fd) (add_mset a T))"
    unfolding consistent_def by blast
  with assms(2) that show thesis by (cases "cls fd") auto
qed

lemma consistent_accepts:
  assumes "consistent l cls cns (add_mset a T)" and "accepts a"
  shows "accept_ok l cls cns a" and "filter_mset accepts T = {#}"
  using assms by (auto simp: consistent_def)

lemma consistent_other:
  "consistent l cls cns (add_mset a T) \<Longrightarrow> \<not> serves fd a \<Longrightarrow> conn_ok fd (cls fd) (cns fd) (filter_mset (serves fd) T)"
  unfolding consistent_def by (metis filter_mset_add_mset)

text \<open>A client goes on to its next operation.\<close>

lemma consistent_client:
  assumes c: "consistent l cls cns (add_mset a T)" and a: "serves fd a" and b: "client_ok fd c' cn' b"
  shows "consistent l (cls(fd \<mapsto> c')) (cns(fd \<mapsto> cn')) (add_mset b T)"
proof -
  obtain c0 cn0 where fd: "cls fd = Some c0" "cns fd = Some cn0" "is_fd fd" "filter_mset (serves fd) T = {#}"
    using consistent_serves [OF c a] by metis
  from client_ok_serves [OF fd(3) b] have sb: "serves fd b" .
  note sa = serves_accepts(1,2) [OF a] serves_accepts(1,2) [OF sb]
  from c sa obtain t where t: "filter_mset accepts T = {#t#}" "accept_ok l cls cns t"
    by (auto simp: consistent_def)
  have "accept_ok l (cls(fd \<mapsto> c')) (cns(fd \<mapsto> cn')) t"
    using t(2) fd(1) by (auto simp: accept_ok_def split: sum.splits)
  moreover have "insert fd (dom cls) = dom cls" using fd(1) by auto
  moreover have "conn_ok fd' (cls fd') (cns fd') (filter_mset (serves fd') T)" if "fd' \<noteq> fd" for fd'
    using consistent_other [OF c] sa(2) that by simp
  moreover have "finite (dom cls)" "size T = card (dom cls)" using c by (simp_all add: consistent_def)
  ultimately show ?thesis
    using t(1) sa sb b fd by (auto simp: consistent_def)
qed

text \<open>A client is closed.\<close>

lemma consistent_close:
  assumes c: "consistent l cls cns (add_mset a T)" and a: "serves fd a"
  shows "consistent l (cls(fd := None)) (cns(fd := None)) T"
proof -
  obtain c0 cn0 where fd: "cls fd = Some c0" "cns fd = Some cn0" "is_fd fd" "filter_mset (serves fd) T = {#}"
    using consistent_serves [OF c a] by metis
  note sa = serves_accepts(1,2) [OF a]
  from c sa obtain t where t: "filter_mset accepts T = {#t#}" "accept_ok l cls cns t"
    by (auto simp: consistent_def)
  have "accept_ok l (cls(fd := None)) (cns(fd := None)) t"
    using t(2) fd(1) by (auto simp: accept_ok_def split: sum.splits)
  moreover have "card (dom cls) = card (dom cls - {fd}) + 1"
    using c fd(1) by (subst card_Suc_Diff1 [symmetric, of _ fd]) (auto simp: consistent_def)
  moreover have "conn_ok fd' (cls fd') (cns fd') (filter_mset (serves fd') T)" if "fd' \<noteq> fd" for fd'
    using consistent_other [OF c] sa(2) that by simp
  moreover have "finite (dom cls)" "size T = card (dom cls)" using c by (simp_all add: consistent_def)
  ultimately show ?thesis
    using t(1) sa fd by (auto simp: consistent_def)
qed

text \<open>The accept operation goes on, perhaps with a new connection.\<close>

lemma consistent_accept:
  assumes c: "consistent l cls cns (add_mset a T)" and a: "accepts a" and b: "accepts b"
    and new: "cns' = cns \<or> (\<exists>fd. cns fd = None \<and> cns' = cns(fd \<mapsto> \<lparr>cn_in = [], cn_out = []\<rparr>))"
    and ok: "accept_ok l cls cns' b"
  shows "consistent l cls cns' (add_mset b T)"
proof -
  note ab = consistent_accepts [OF c a] serves_accepts(3) [OF a] serves_accepts(3) [OF b]
  have "conn_ok fd (cls fd) (cns' fd) (filter_mset (serves fd) T)" for fd
  proof -
    note old = consistent_other [OF c ab(3), of fd]
    with new show ?thesis by (cases "cls fd") (auto split: if_splits)
  qed
  with c ab a b ok show ?thesis by (simp add: consistent_def)
qed

text \<open>A new connection gets its client.\<close>

lemma consistent_new_client:
  assumes c: "consistent l cls cns (add_mset (Inr e) T)" and a: "accepts (Inr e)" and res: "0 \<le> cq_res e"
    and b: "accepts b" "accept_ok l (cls(cq_res e \<mapsto> c')) cns b"
    and r: "client_ok (cq_res e) c' \<lparr>cn_in = [], cn_out = []\<rparr> r"
  shows "consistent l (cls(cq_res e \<mapsto> c')) cns (add_mset b (add_mset r T))"
proof -
  let ?fd = "cq_res e"
  from consistent_accepts [OF c a] res have new: "is_fd ?fd" "cls ?fd = None" "cns ?fd = Some \<lparr>cn_in = [], cn_out = []\<rparr>"
    and none: "filter_mset accepts T = {#}" by (simp_all add: accept_ok_def)
  note s = client_ok_serves [OF new(1) r]
  note ss = serves_accepts(3) [OF a] serves_accepts(3) [OF b(1)] serves_accepts(1,2) [OF s]
  from c new(2) ss have "filter_mset (serves ?fd) T = {#}"
    by (auto simp: consistent_def dest: spec [of _ ?fd])
  moreover have "card (dom (cls(?fd \<mapsto> c'))) = card (dom cls) + 1"
    using c new(2) by (auto simp: consistent_def card_insert_if)
  moreover have "conn_ok fd' (cls fd') (cns fd') (filter_mset (serves fd') T)" for fd'
    using consistent_other [OF c] ss(1) by simp
  moreover have "finite (dom cls)" "size T = card (dom cls)" using c by (simp_all add: consistent_def)
  ultimately show ?thesis
    using ss b r s new none a by (auto simp: consistent_def)
qed

section \<open>The invariant of the server\<close>

definition echo_inv :: "int \<Rightarrow> sys \<Rightarrow> bool" where
  "echo_inv l y \<longleftrightarrow> consistent l (sv_clients (sy_server y)) (sy_conns y) (tokens y) \<and> sy_ready y \<le> length (sy_cq y)"

lemma token_cases:
  assumes "consistent l cls cns (add_mset a T)"
  obtains (accept) "accepts a" "accept_ok l cls cns a"
    | (client) fd c cn where "serves fd a" "cls fd = Some c" "cns fd = Some cn" "is_fd fd" "client_ok fd c cn a"
proof (cases "accepts a")
  case True
  then show thesis using accept consistent_accepts [OF assms] by blast
next
  case False
  then have "serves (decode_fd (tok_data a)) a" by (simp add: serves_def accepts_def)
  then show thesis using client consistent_serves [OF assms] by metis
qed

text \<open>What a request says about its connection.\<close>

lemma request_accept:
  assumes "consistent l cls cns (add_mset (Inl s) T)" and "sq_io s = Accept l'"
  shows "accepts (Inl s) \<and> sq_data s = encode OP_ACCEPT l"
  using assms(2)
  by (cases rule: token_cases [OF assms(1)])
    (auto simp: client_ok_def recv_ok_def send_ok_def accept_ok_def tok_data_def)

lemma request_recv:
  assumes "consistent l cls cns (add_mset (Inl s) T)" and "sq_io s = Recv fd off len"
  obtains c cn where "serves fd (Inl s)" and "cls fd = Some c" and "cns fd = Some cn" and "is_fd fd"
    and "length (cl_buf c) = CLIENT_BUF_SIZE" and "off = 0" and "len = CLIENT_BUF_SIZE"
    and "sq_data s = encode OP_RECV fd" and "cn_in cn = cn_out cn"
  using assms(2)
  by (cases rule: token_cases [OF assms(1)])
    (auto simp: client_ok_def recv_ok_def send_ok_def accept_ok_def tok_data_def)

lemma request_send:
  assumes "consistent l cls cns (add_mset (Inl s) T)" and "sq_io s = Send fd off len"
  obtains c cn where "serves fd (Inl s)" and "cls fd = Some c" and "cns fd = Some cn" and "is_fd fd"
    and "length (cl_buf c) = CLIENT_BUF_SIZE" and "off = cl_send_offset c" and "len = cl_send_len c - cl_send_offset c"
    and "cl_send_offset c < cl_send_len c" and "cl_send_len c \<le> CLIENT_BUF_SIZE"
    and "sq_data s = encode OP_SEND fd" and "cn_in cn = cn_out cn @ owed c"
  using assms(2)
  by (cases rule: token_cases [OF assms(1)])
    (auto simp: client_ok_def recv_ok_def send_ok_def accept_ok_def tok_data_def)

text \<open>The completion of a request replaces its token.\<close>

lemma completed_simps [simp]:
  "sy_server (completed s res y) = sy_server y" "sy_conns (completed s res y) = sy_conns y"
  "sy_ready (completed s res y) = sy_ready y" "length (sy_cq (completed s res y)) = length (sy_cq y) + 1"
  by (simp_all add: completed_def)

lemma in_flight:
  assumes "echo_inv l y" and "s \<in># sy_inflight y"
  obtains T where "consistent l (sv_clients (sy_server y)) (sy_conns y) (add_mset (Inl s) T)"
    and "\<And>res cls cns y'. consistent l cls cns (add_mset (Inr \<lparr>cq_data = sq_data s, cq_res = res\<rparr>) T) \<Longrightarrow>
      sv_sq (sy_server y') = sv_sq (sy_server y) \<Longrightarrow> sy_inflight y' = sy_inflight (completed s res y) \<Longrightarrow>
      sy_cq y' = sy_cq (completed s res y) \<Longrightarrow> sy_ready y' = sy_ready y \<Longrightarrow>
      sv_clients (sy_server y') = cls \<Longrightarrow> sy_conns y' = cns \<Longrightarrow> echo_inv l y'"
proof -
  from assms(2) obtain M where M: "sy_inflight y = add_mset s M" by (auto dest: multi_member_split)
  let ?T = "image_mset Inl (mset (sv_sq (sy_server y)) + M) + image_mset Inr (mset (sy_cq y)) :: token multiset"
  have "tokens y = add_mset (Inl s) ?T" by (simp add: tokens_def M)
  with assms(1) show thesis
    by (intro that [of ?T]) (simp_all add: echo_inv_def tokens_def completed_def M)
qed

lemma kernel_step_inv:
  assumes "is_fd l" and "kernel_step y y'" and inv: "echo_inv l y"
  shows "echo_inv l y'"
  using assms(2)
proof cases
  case (accepted s l' fd)
  show ?thesis
  proof (rule in_flight [OF inv accepted(2)], goal_cases)
    case (1 T)
    note a = request_accept [OF 1(1) accepted(3)]
    from 1(1) have "conn_ok fd (sv_clients (sy_server y) fd) (sy_conns y fd) (filter_mset (serves fd) (add_mset (Inl s) T))"
      unfolding consistent_def by blast
    with accepted(5) have none: "sv_clients (sy_server y) fd = None" by (cases "sv_clients (sy_server y) fd") simp_all
    have "consistent l (sv_clients (sy_server y)) ((sy_conns y)(fd \<mapsto> \<lparr>cn_in = [], cn_out = []\<rparr>))
        (add_mset (Inr \<lparr>cq_data = sq_data s, cq_res = fd\<rparr>) T)"
      by (rule consistent_accept [OF 1(1)])
        (use accepted none a \<open>is_fd l\<close> in \<open>auto simp: accepts_def accept_ok_def tok_data_def\<close>)
    then show ?case by (rule 1(2)) (simp_all add: accepted(1) completed_def)
  qed
next
  case (accept_failed s l' res)
  show ?thesis
  proof (rule in_flight [OF inv accept_failed(2)], goal_cases)
    case (1 T)
    note a = request_accept [OF 1(1) accept_failed(3)]
    show ?case
      by (rule 1(2) [OF consistent_accept [OF 1(1)]])
        (use accept_failed a \<open>is_fd l\<close> in \<open>auto simp: accepts_def accept_ok_def tok_data_def\<close>)
  qed
next
  case (recv_some s fd off len c cn bs)
  show ?thesis
  proof (rule in_flight [OF inv recv_some(2)], goal_cases)
    case (1 T)
    obtain c0 cn0 where r: "serves fd (Inl s)" "sv_clients (sy_server y) fd = Some c0" "sy_conns y fd = Some cn0"
      "is_fd fd" "length (cl_buf c0) = CLIENT_BUF_SIZE" "off = 0" "len = CLIENT_BUF_SIZE"
      "sq_data s = encode OP_RECV fd" "cn_in cn0 = cn_out cn0"
      using request_recv [OF 1(1) recv_some(3)] by metis
    have "take (length bs) (overwrite 0 bs (cl_buf c)) = bs" by (simp add: overwrite_def)
    then have "client_ok fd (c\<lparr>cl_buf := overwrite off bs (cl_buf c)\<rparr>) (cn\<lparr>cn_in := cn_in cn @ bs\<rparr>)
        (Inr \<lparr>cq_data = sq_data s, cq_res = int (length bs)\<rparr>)"
      using r recv_some(4-7) by (simp add: client_ok_def recv_ok_def tok_data_def)
    from consistent_client [OF 1(1) r(1) this] show ?case
      by (rule 1(2)) (simp_all add: recv_some(1) received_def completed_def)
  qed
next
  case (recv_none s fd off len res)
  show ?thesis
  proof (rule in_flight [OF inv recv_none(2)], goal_cases)
    case (1 T)
    obtain c0 cn0 where r: "serves fd (Inl s)" "sv_clients (sy_server y) fd = Some c0" "sy_conns y fd = Some cn0"
      "is_fd fd" "length (cl_buf c0) = CLIENT_BUF_SIZE" "sq_data s = encode OP_RECV fd" "cn_in cn0 = cn_out cn0"
      using request_recv [OF 1(1) recv_none(3)] by metis
    then have "client_ok fd c0 cn0 (Inr \<lparr>cq_data = sq_data s, cq_res = res\<rparr>)"
      using recv_none(4) by (simp add: client_ok_def recv_ok_def tok_data_def)
    from consistent_client [OF 1(1) r(1) this] r(2,3)
    have "consistent l (sv_clients (sy_server y)) (sy_conns y) (add_mset (Inr \<lparr>cq_data = sq_data s, cq_res = res\<rparr>) T)"
      by (simp add: map_upd_triv)
    then show ?case by (rule 1(2)) (simp_all add: recv_none(1))
  qed
next
  case (send_some s fd off len c cn n)
  show ?thesis
  proof (rule in_flight [OF inv send_some(2)], goal_cases)
    case (1 T)
    obtain c0 cn0 where r: "serves fd (Inl s)" "sv_clients (sy_server y) fd = Some c0" "sy_conns y fd = Some cn0"
      "is_fd fd" "length (cl_buf c0) = CLIENT_BUF_SIZE" "off = cl_send_offset c0" "len = cl_send_len c0 - cl_send_offset c0"
      "cl_send_offset c0 < cl_send_len c0" "cl_send_len c0 \<le> CLIENT_BUF_SIZE"
      "sq_data s = encode OP_SEND fd" "cn_in cn0 = cn_out cn0 @ owed c0"
      using request_send [OF 1(1) send_some(3)] by metis
    have c0: "c0 = c" "cn0 = cn" using r(2,3) send_some(4,5) by simp_all
    have "n + (len - n) = cl_send_len c - cl_send_offset c" using send_some(7) r(7) c0 by simp
    then have "owed c = segment off n (cl_buf c) @ owed (c\<lparr>cl_send_offset := cl_send_offset c + n\<rparr>)"
      using segment_split [of off n "len - n" "cl_buf c"] r(6,7) c0 by (simp add: owed_def)
    moreover have "int n \<le> int (cl_send_len c) - int (cl_send_offset c)" using send_some(7) r(7,8) c0 by simp
    ultimately have "client_ok fd c (cn\<lparr>cn_out := cn_out cn @ segment off n (cl_buf c)\<rparr>)
        (Inr \<lparr>cq_data = sq_data s, cq_res = int n\<rparr>)"
      using r c0 send_some(6,7) by (simp add: client_ok_def send_ok_def tok_data_def)
    from consistent_client [OF 1(1) r(1) this]
    have "consistent l (sv_clients (sy_server y)) ((sy_conns y)(fd \<mapsto> cn\<lparr>cn_out := cn_out cn @ segment off n (cl_buf c)\<rparr>))
        (add_mset (Inr \<lparr>cq_data = sq_data s, cq_res = int n\<rparr>) T)"
      using send_some(4) by (simp add: map_upd_triv)
    then show ?case by (rule 1(2)) (simp_all add: send_some(1) sent_def completed_def)
  qed
next
  case (send_none s fd off len res)
  show ?thesis
  proof (rule in_flight [OF inv send_none(2)], goal_cases)
    case (1 T)
    obtain c0 cn0 where r: "serves fd (Inl s)" "sv_clients (sy_server y) fd = Some c0" "sy_conns y fd = Some cn0"
      "is_fd fd" "length (cl_buf c0) = CLIENT_BUF_SIZE" "cl_send_offset c0 < cl_send_len c0"
      "cl_send_len c0 \<le> CLIENT_BUF_SIZE" "sq_data s = encode OP_SEND fd" "cn_in cn0 = cn_out cn0 @ owed c0"
      using request_send [OF 1(1) send_none(3)] by metis
    then have "client_ok fd c0 cn0 (Inr \<lparr>cq_data = sq_data s, cq_res = res\<rparr>)"
      using send_none(4) by (simp add: client_ok_def send_ok_def tok_data_def)
    from consistent_client [OF 1(1) r(1) this] r(2,3)
    have "consistent l (sv_clients (sy_server y)) (sy_conns y) (add_mset (Inr \<lparr>cq_data = sq_data s, cq_res = res\<rparr>) T)"
      by (simp add: map_upd_triv)
    then show ?case by (rule 1(2)) (simp_all add: send_none(1))
  qed
qed

section \<open>The event loop keeps the invariant\<close>

text \<open>The requests a handler queues take the place of the completion it treats.\<close>

definition handled :: "int \<Rightarrow> server \<Rightarrow> (int \<Rightarrow> conn option) \<Rightarrow> token multiset \<Rightarrow> server \<Rightarrow> int list \<Rightarrow> bool" where
  "handled l sv cns T sv' fds \<longleftrightarrow>
     (\<exists>qs. sv_sq sv' = sv_sq sv @ qs \<and>
       consistent l (sv_clients sv') (close_all fds cns) (image_mset Inl (mset qs) + T))"

lemma close_all_simps [simp]: "close_all [] cns = cns" "close_all [fd] cns = cns(fd := None)"
  by (auto simp: close_all_def)

lemma handled_one:
  assumes "consistent l (sv_clients sv') (close_all fds cns) (add_mset (Inl s) T)" and "sv_sq sv' = sv_sq sv @ [s]"
  shows "handled l sv cns T sv' fds"
  using assms unfolding handled_def by (intro exI [of _ "[s]"]) simp

lemma queue_sqe_Inr:
  "queue_sqe depth io ud sv = Inr sv' \<longleftrightarrow>
     length (sv_sq sv) < depth \<and> sv' = sv\<lparr>sv_sq := sv_sq sv @ [\<lparr>sq_io = io, sq_data = ud\<rparr>]\<rparr>"
  by (auto simp: queue_sqe_def)

lemma handle_accept_handled:
  assumes "is_fd l" and c: "consistent l (sv_clients sv) cns (add_mset (Inr e) T)" and a: "accepts (Inr e)"
    and h: "handle_accept depth l (cq_res e) sv = Inr (sv', fds)"
  shows "handled l sv cns T sv' fds"
proof -
  let ?s = "\<lparr>sq_io = Accept l, sq_data = encode OP_ACCEPT l\<rparr>"
  have b: "accepts (Inl ?s)" "accept_ok l cls cns (Inl ?s)" for cls cns
    using assms(1) by (simp_all add: accepts_def accept_ok_def tok_data_def)
  show ?thesis
  proof (cases "0 \<le> cq_res e")
    case True
    let ?r = "\<lparr>sq_io = Recv (cq_res e) 0 CLIENT_BUF_SIZE, sq_data = encode OP_RECV (cq_res e)\<rparr>"
    have "client_ok (cq_res e) new_client \<lparr>cn_in = [], cn_out = []\<rparr> (Inl ?r)"
      by (simp add: client_ok_def recv_ok_def new_client_def tok_data_def)
    from consistent_new_client [OF c a True b this] h True show ?thesis
      unfolding handled_def
      by (intro exI [of _ "[?r, ?s]"]) (auto simp: handle_accept_def queue_sqe_Inr bindR_Inr_iff add_mset_commute)
  next
    case False
    from consistent_accept [OF c a b(1) disjI1 [OF refl] b(2)] h False show ?thesis
      by (intro handled_one [where s = ?s]) (auto simp: handle_accept_def queue_sqe_Inr bindR_Inr_iff)
  qed
qed

lemma handle_recv_handled:
  assumes c: "consistent l (sv_clients sv) cns (add_mset (Inr e) T)" and s: "serves fd (Inr e)"
    and o: "decode_op (cq_data e) = OP_RECV" and h: "handle_recv depth fd (cq_res e) sv = Inr (sv', fds)"
  shows "handled l sv cns T sv' fds"
proof -
  obtain cl cn where fd: "sv_clients sv fd = Some cl" "cns fd = Some cn" "is_fd fd" "client_ok fd cl cn (Inr e)"
    using consistent_serves [OF c s] by metis
  with o have r: "recv_ok fd cl cn (Inr e)" "length (cl_buf cl) = CLIENT_BUF_SIZE"
    by (auto simp: client_ok_def send_ok_def tok_data_def op_masks)
  show ?thesis
  proof (cases "cq_res e \<le> 0")
    case True
    with h consistent_close [OF c s] show ?thesis
      unfolding handled_def by (intro exI [of _ "[]"]) (auto simp: handle_recv_def)
  next
    case False
    let ?cl = "cl\<lparr>cl_send_len := nat (cq_res e), cl_send_offset := 0\<rparr>"
    let ?s = "\<lparr>sq_io = Send fd 0 (nat (cq_res e)), sq_data = encode OP_SEND fd\<rparr>"
    have "client_ok fd ?cl cn (Inl ?s)"
      using r False by (auto simp: client_ok_def recv_ok_def send_ok_def owed_def segment_def tok_data_def)
    from consistent_client [OF c s this] fd(2)
    have "consistent l ((sv_clients sv)(fd \<mapsto> ?cl)) cns (add_mset (Inl ?s) T)" by (simp add: map_upd_triv)
    with h False fd(1) show ?thesis
      by (intro handled_one [where s = ?s]) (auto simp: handle_recv_def queue_sqe_Inr bindR_Inr_iff Let_def)
  qed
qed

lemma handle_send_handled:
  assumes c: "consistent l (sv_clients sv) cns (add_mset (Inr e) T)" and s: "serves fd (Inr e)"
    and o: "decode_op (cq_data e) = OP_SEND" and h: "handle_send depth fd (cq_res e) sv = Inr (sv', fds)"
  shows "handled l sv cns T sv' fds"
proof -
  obtain cl cn where fd: "sv_clients sv fd = Some cl" "cns fd = Some cn" "is_fd fd" "client_ok fd cl cn (Inr e)"
    using consistent_serves [OF c s] by metis
  with o have r: "send_ok fd cl cn (Inr e)" "length (cl_buf cl) = CLIENT_BUF_SIZE"
    by (auto simp: client_ok_def recv_ok_def tok_data_def op_masks)
  show ?thesis
  proof (cases "cq_res e \<le> 0")
    case True
    with h fd(1) consistent_close [OF c s] show ?thesis
      unfolding handled_def by (intro exI [of _ "[]"]) (auto simp: handle_send_def)
  next
    case False
    let ?cl = "cl\<lparr>cl_send_offset := cl_send_offset cl + nat (cq_res e)\<rparr>"
    let ?s = "if cl_send_offset ?cl < cl_send_len ?cl
      then \<lparr>sq_io = Send fd (cl_send_offset ?cl) (cl_send_len ?cl - cl_send_offset ?cl), sq_data = encode OP_SEND fd\<rparr>
      else \<lparr>sq_io = Recv fd 0 CLIENT_BUF_SIZE, sq_data = encode OP_RECV fd\<rparr>"
    have "client_ok fd ?cl cn (Inl ?s)"
      using r False by (auto simp: client_ok_def recv_ok_def send_ok_def owed_def segment_def tok_data_def)
    from consistent_client [OF c s this] fd(2)
    have "consistent l ((sv_clients sv)(fd \<mapsto> ?cl)) cns (add_mset (Inl ?s) T)" by (simp add: map_upd_triv)
    with h False fd(1) show ?thesis
      by (intro handled_one [where s = ?s]) (auto simp: handle_send_def queue_sqe_Inr bindR_Inr_iff Let_def split: if_splits)
  qed
qed

lemma handle_cqe_handled:
  assumes "is_fd l" and c: "consistent l (sv_clients sv) cns (add_mset (Inr e) T)"
    and h: "handle_cqe depth l (decode_op (cq_data e)) (decode_fd (cq_data e)) (cq_res e) sv = Inr (sv', fds)"
  shows "handled l sv cns T sv' fds"
  using c
proof (cases rule: token_cases)
  case accept
  then have "decode_op (cq_data e) = OP_ACCEPT" by (simp add: accepts_def tok_data_def)
  with handle_accept_handled [OF assms(1) c accept(1)] h show ?thesis by (simp add: handle_cqe_def)
next
  case (client fd cl cn)
  then have "cq_data e = encode OP_RECV fd \<or> cq_data e = encode OP_SEND fd"
    by (auto simp: client_ok_def recv_ok_def send_ok_def tok_data_def)
  then have "decode_op (cq_data e) = OP_RECV \<or> decode_op (cq_data e) = OP_SEND" and fd: "decode_fd (cq_data e) = fd"
    using decode_encode [OF client(4)] by metis+
  then show ?thesis
  proof (elim disjE)
    assume o: "decode_op (cq_data e) = OP_RECV"
    with handle_recv_handled [OF c client(1) o] h fd show ?thesis by (simp add: handle_cqe_def op_masks)
  next
    assume o: "decode_op (cq_data e) = OP_SEND"
    with handle_send_handled [OF c client(1) o] h fd show ?thesis by (simp add: handle_cqe_def op_masks)
  qed
qed

lemma loop_step_inv:
  assumes "is_fd l" and "loop_step depth l y y'" and inv: "echo_inv l y"
  shows "echo_inv l y'"
  using assms(2)
proof cases
  case submit
  with inv show ?thesis by (simp add: echo_inv_def tokens_def ac_simps)
next
  case wake
  with inv show ?thesis by (simp add: echo_inv_def tokens_def)
next
  case (treat n e es sv fds)
  let ?T = "image_mset Inl (mset (sv_sq (sy_server y)) + sy_inflight y) + image_mset Inr (mset es) :: token multiset"
  have "consistent l (sv_clients (sy_server y)) (sy_conns y) (add_mset (Inr e) ?T)"
    using inv treat(3) by (simp add: echo_inv_def tokens_def)
  from handle_cqe_handled [OF assms(1) this treat(4)] inv treat(1-3) show ?thesis
    by (auto simp: handled_def echo_inv_def tokens_def ac_simps)
qed

lemma echo_start_inv:
  assumes "is_fd l"
  shows "echo_inv l (echo_start l)"
  using assms
  by (auto simp: echo_inv_def echo_start_def tokens_def consistent_def accepts_def serves_def accept_ok_def tok_data_def)

lemma echo_run_inv:
  assumes "is_fd l" and "echo_run depth l y"
  shows "echo_inv l y"
  using assms(2)
  by induction (use assms(1) echo_start_inv kernel_step_inv loop_step_inv in blast)+

section \<open>What the server promises\<close>

lemma token_member:
  assumes "echo_inv l y" and "t \<in># tokens y"
  obtains T where "tokens y = add_mset t T"
    and "consistent l (sv_clients (sy_server y)) (sy_conns y) (add_mset t T)"
  using assms by (auto simp: echo_inv_def dest!: multi_member_split)

lemma connection_cases:
  assumes "echo_inv l y" and "sy_conns y fd = Some cn"
  obtains (fresh) "cn = \<lparr>cn_in = [], cn_out = []\<rparr>" "sv_clients (sy_server y) fd = None"
    | (served) c t where "sv_clients (sy_server y) fd = Some c" "client_ok fd c cn t"
        "filter_mset (serves fd) (tokens y) = {#t#}"
proof -
  from assms(1) have "conn_ok fd (sv_clients (sy_server y) fd) (sy_conns y fd) (filter_mset (serves fd) (tokens y))"
    unfolding echo_inv_def consistent_def by blast
  with assms(2) fresh served show thesis by (cases "sv_clients (sy_server y) fd") auto
qed

lemma client_ok_prefix: "client_ok fd c cn t \<Longrightarrow> prefix (cn_out cn) (cn_in cn)"
  by (auto simp: client_ok_def recv_ok_def send_ok_def split: sum.splits if_splits)

text \<open>A safe transfer: for an open connection, within the buffer of its client, not empty, and alone.\<close>

definition uses :: "int \<Rightarrow> sqe \<Rightarrow> bool" where
  "uses fd s \<longleftrightarrow> (case sq_io s of Accept _ \<Rightarrow> False | Recv fd' _ _ \<Rightarrow> fd' = fd | Send fd' _ _ \<Rightarrow> fd' = fd)"

definition requests :: "sys \<Rightarrow> sqe multiset" where
  "requests y = mset (sv_sq (sy_server y)) + sy_inflight y"

definition transfer_safe :: "sys \<Rightarrow> int \<Rightarrow> nat \<Rightarrow> nat \<Rightarrow> bool" where
  "transfer_safe y fd off len \<longleftrightarrow>
     sy_conns y fd \<noteq> None \<and> 0 < len \<and>
     (case sv_clients (sy_server y) fd of None \<Rightarrow> False | Some c \<Rightarrow> off + len \<le> length (cl_buf c)) \<and>
     size (filter_mset (uses fd) (requests y)) = 1"

definition request_safe :: "int \<Rightarrow> sys \<Rightarrow> sqe \<Rightarrow> bool" where
  "request_safe l y s \<longleftrightarrow>
     (case sq_io s of
        Accept l' \<Rightarrow> l' = l
      | Recv fd off len \<Rightarrow> transfer_safe y fd off len
      | Send fd off len \<Rightarrow> transfer_safe y fd off len)"

lemma tokens_requests: "tokens y = image_mset Inl (requests y) + image_mset Inr (mset (sy_cq y))"
  by (simp add: tokens_def requests_def)

lemma request_consistent:
  assumes "echo_inv l y" and "s \<in># requests y"
  obtains T where "tokens y = add_mset (Inl s) T"
    and "consistent l (sv_clients (sy_server y)) (sy_conns y) (add_mset (Inl s) T)"
proof -
  have "Inl s \<in># tokens y" using assms(2) by (simp add: tokens_requests)
  from token_member [OF assms(1) this] that show thesis by metis
qed

lemma uses_serves:
  assumes "echo_inv l y" and "s \<in># requests y"
  shows "uses fd s \<longleftrightarrow> serves fd (Inl s)"
proof -
  obtain T where T: "consistent l (sv_clients (sy_server y)) (sy_conns y) (add_mset (Inl s) T)"
    using request_consistent [OF assms] by metis
  show ?thesis
  proof (cases "sq_io s")
    case (Accept l')
    with request_accept [OF T] show ?thesis by (auto simp: uses_def serves_accepts(3))
  next
    case (Recv fd' off len)
    show ?thesis by (rule request_recv [OF T Recv]) (auto simp: uses_def Recv serves_accepts(2))
  next
    case (Send fd' off len)
    show ?thesis by (rule request_send [OF T Send]) (auto simp: uses_def Send serves_accepts(2))
  qed
qed

lemma one_transfer:
  assumes inv: "echo_inv l y" and s: "s \<in># requests y" and "serves fd (Inl s)"
  shows "size (filter_mset (uses fd) (requests y)) = 1"
proof -
  obtain T where T: "tokens y = add_mset (Inl s) T"
    "consistent l (sv_clients (sy_server y)) (sy_conns y) (add_mset (Inl s) T)"
    using request_consistent [OF inv s] by metis
  from consistent_serves [OF T(2) assms(3)] T(1) assms(3)
  have "size (filter_mset (serves fd) (tokens y)) = 1" by auto
  then have "size (filter_mset (\<lambda>s. serves fd (Inl s)) (requests y)) \<le> 1"
    by (simp add: tokens_requests filter_mset_image_mset)
  moreover have "filter_mset (uses fd) (requests y) = filter_mset (\<lambda>s. serves fd (Inl s)) (requests y)"
    using uses_serves [OF inv] by (intro filter_mset_cong) simp_all
  moreover have "s \<in># filter_mset (\<lambda>s. serves fd (Inl s)) (requests y)" using s assms(3) by simp
  ultimately show ?thesis
    by (metis One_nat_def le_Suc_eq le_zero_eq size_eq_0_iff_empty empty_iff set_mset_empty)
qed

text \<open>When the server waits for more, everything received has been sent back.\<close>

lemma recv_request_complete:
  assumes "echo_inv l y" and "s \<in># requests y" and "sq_io s = Recv fd off len" and "sy_conns y fd = Some cn"
  shows "cn_out cn = cn_in cn"
proof -
  obtain T where T: "consistent l (sv_clients (sy_server y)) (sy_conns y) (add_mset (Inl s) T)"
    using request_consistent [OF assms(1,2)] by metis
  show ?thesis by (rule request_recv [OF T assms(3)]) (use assms(4) in auto)
qed

text \<open>
  C2. In every run of the server, whatever the kernel accepts, receives and sends, in whatever order:
  what a connection was sent is the beginning of what it has sent to the server, byte for byte; and
  when a request to receive more from it is queued or in flight, it is all of it.
\<close>

theorem echo_server_echoes:
  assumes "is_fd l" and "echo_run depth l y" and "sy_conns y fd = Some cn"
  shows "prefix (cn_out cn) (cn_in cn) \<and>
    (\<forall>s \<in># requests y. \<forall>off len. sq_io s = Recv fd off len \<longrightarrow> cn_out cn = cn_in cn)"
proof -
  note inv = echo_run_inv [OF assms(1,2)]
  from inv assms(3) have "prefix (cn_out cn) (cn_in cn)"
    by (cases rule: connection_cases) (simp_all add: client_ok_prefix)
  with recv_request_complete [OF inv] assms(3) show ?thesis by blast
qed

text \<open>
  In every run, every request queued or in flight is safe: a transfer is for an open connection
  whose client is in the table, stays within the client's buffer and is not empty, and it is the only one of its
  connection, so that the kernel never uses a buffer that was freed or that another transfer uses.
\<close>

theorem echo_requests_safe:
  assumes "is_fd l" and "echo_run depth l y" and "s \<in># requests y"
  shows "request_safe l y s"
proof -
  note inv = echo_run_inv [OF assms(1,2)]
  obtain T where T: "consistent l (sv_clients (sy_server y)) (sy_conns y) (add_mset (Inl s) T)"
    using request_consistent [OF inv assms(3)] by metis
  show ?thesis
  proof (cases "sq_io s")
    case (Accept l')
    with consistent_accepts(1) [OF T] request_accept [OF T] show ?thesis
      by (simp add: request_safe_def accept_ok_def)
  next
    case (Recv fd off len)
    show ?thesis
      by (rule request_recv [OF T Recv])
        (use one_transfer [OF inv assms(3)] in \<open>auto simp: request_safe_def transfer_safe_def Recv CLIENT_BUF_SIZE_def\<close>)
  next
    case (Send fd off len)
    show ?thesis
      by (rule request_send [OF T Send])
        (use one_transfer [OF inv assms(3)] in \<open>auto simp: request_safe_def transfer_safe_def Send\<close>)
  qed
qed

text \<open>
  The submission queue is big enough for as many clients as it has places, less two: in every run
  with fewer, the treatment of the next completion does not fail.
\<close>

theorem echo_queue_suffices:
  assumes "is_fd l" and "echo_run depth l y" and "sy_cq y = e # es"
    and "card (dom (sv_clients (sy_server y))) + 1 < depth"
  shows "\<exists>r. handle_cqe depth l (decode_op (cq_data e)) (decode_fd (cq_data e)) (cq_res e) (sy_server y) = Inr r"
proof -
  from echo_run_inv [OF assms(1,2)] have "size (tokens y) = card (dom (sv_clients (sy_server y))) + 1"
    by (simp add: echo_inv_def consistent_def)
  with assms(3,4) have "length (sv_sq (sy_server y)) + 1 < depth" by (simp add: tokens_def)
  then show ?thesis
    by (auto simp: handle_cqe_def handle_accept_def handle_recv_def handle_send_def queue_sqe_def Let_def
        split: option.split)
qed

text \<open>
  The operation and the descriptor of a request can be read back from the \<open>user_data\<close> of its
  completion, and different operations have different \<open>user_data\<close>.
\<close>

theorem user_data_roundtrip:
  assumes "op \<in> {OP_ACCEPT, OP_RECV, OP_SEND}" and "is_fd fd"
  shows "decode_op (encode op fd) = op \<and> decode_fd (encode op fd) = fd"
  using assms by auto

theorem user_data_roundtrip_witness:
  "decode_op (encode OP_RECV 7) = OP_RECV \<and> decode_fd (encode OP_RECV 7) = 7"
  by (rule user_data_roundtrip) (simp_all add: is_fd_def)

section \<open>A run\<close>

text \<open>
  A client connects as descriptor 5 and sends two bytes; the kernel first sends one of them back.
  \<open>sent_one\<close> is the state with this completion in the queue.
\<close>

definition run_state :: "(int \<Rightarrow> Client option) \<Rightarrow> sqe list \<Rightarrow> sqe multiset \<Rightarrow> cqe list \<Rightarrow> (int \<Rightarrow> conn option) \<Rightarrow> nat \<Rightarrow> sys" where
  "run_state cls sq infl cq cns n =
     \<lparr>sy_server = \<lparr>sv_clients = cls, sv_sq = sq\<rparr>, sy_inflight = infl, sy_cq = cq, sy_conns = cns, sy_ready = n\<rparr>"

definition accept_3 :: sqe where "accept_3 = \<lparr>sq_io = Accept 3, sq_data = encode OP_ACCEPT 3\<rparr>"
definition recv_5 :: sqe where "recv_5 = \<lparr>sq_io = Recv 5 0 CLIENT_BUF_SIZE, sq_data = encode OP_RECV 5\<rparr>"
definition send_5 :: "nat \<Rightarrow> nat \<Rightarrow> sqe" where "send_5 off len = \<lparr>sq_io = Send 5 off len, sq_data = encode OP_SEND 5\<rparr>"
definition got_two :: Client where "got_two = new_client\<lparr>cl_buf := overwrite 0 [7, 8] (cl_buf new_client)\<rparr>"
definition sending :: Client where "sending = got_two\<lparr>cl_send_len := 2, cl_send_offset := 0\<rparr>"

definition waiting :: sys where
  "waiting = run_state [5 \<mapsto> new_client] [] {#accept_3, recv_5#} [] [5 \<mapsto> \<lparr>cn_in = [], cn_out = []\<rparr>] 0"

definition replying :: sys where
  "replying = run_state [5 \<mapsto> sending] [] {#accept_3, send_5 0 2#} [] [5 \<mapsto> \<lparr>cn_in = [7, 8], cn_out = []\<rparr>] 0"

definition sent_one :: sys where
  "sent_one = run_state [5 \<mapsto> sending] [] {#accept_3#} [\<lparr>cq_data = encode OP_SEND 5, cq_res = 1\<rparr>]
     [5 \<mapsto> \<lparr>cn_in = [7, 8], cn_out = [7]\<rparr>] 0"

lemma loop_submit:
  assumes "echo_run d l (run_state cls sq infl cq cns 0)"
  shows "echo_run d l (run_state cls [] (infl + mset sq) cq cns 0)"
  using loop [OF assms submit] by (simp add: run_state_def)

lemma loop_treat:
  assumes "echo_run d l (run_state cls [] infl [e] cns 0)"
    and "handle_cqe d l (decode_op (cq_data e)) (decode_fd (cq_data e)) (cq_res e) \<lparr>sv_clients = cls, sv_sq = []\<rparr> =
      Inr (\<lparr>sv_clients = cls', sv_sq = sq'\<rparr>, [])"
  shows "echo_run d l (run_state cls' [] (infl + mset sq') [] cns 0)"
proof -
  have w: "echo_run d l (run_state cls [] infl [e] cns 1)"
    using loop [OF assms(1) wake] by (simp add: run_state_def)
  have "echo_run d l (run_state cls' sq' infl [] cns 0)"
    using loop [OF w treat [of _ 0 e "[]"]] assms(2) by (simp add: run_state_def)
  then show ?thesis by (rule loop_submit)
qed

lemma fd_3 [simp]: "is_fd 3" "is_fd 5" by (simp_all add: is_fd_def)

lemma waiting_run: "echo_run 4096 3 waiting"
proof -
  have "echo_run 4096 3 (run_state (\<lambda>_. None) [] {#accept_3#} [] (\<lambda>_. None) 0)"
    using loop_submit [of 4096 3 "\<lambda>_. None" "[accept_3]" "{#}" "[]" "\<lambda>_. None"] echo_run.start [of 4096 3]
    by (simp add: echo_start_def run_state_def accept_3_def)
  from kernel [OF this accepted [of accept_3 _ 3 5]]
  have "echo_run 4096 3 (run_state (\<lambda>_. None) [] {#} [\<lparr>cq_data = encode OP_ACCEPT 3, cq_res = 5\<rparr>] [5 \<mapsto> \<lparr>cn_in = [], cn_out = []\<rparr>] 0)"
    by (simp add: run_state_def completed_def accept_3_def)
  from loop_treat [OF this, of "[5 \<mapsto> new_client]" "[recv_5, accept_3]"] show ?thesis
    by (simp add: handle_cqe_def handle_accept_def queue_sqe_def waiting_def recv_5_def accept_3_def add_mset_commute)
qed

lemma replying_run: "echo_run 4096 3 replying"
proof -
  have "kernel_step waiting (run_state [5 \<mapsto> got_two] [] {#accept_3#} [\<lparr>cq_data = encode OP_RECV 5, cq_res = 2\<rparr>]
      [5 \<mapsto> \<lparr>cn_in = [7, 8], cn_out = []\<rparr>] 0)"
    using recv_some [of recv_5 waiting 5 0 CLIENT_BUF_SIZE new_client "\<lparr>cn_in = [], cn_out = []\<rparr>" "[7, 8]"]
    by (simp add: waiting_def run_state_def completed_def received_def recv_5_def got_two_def CLIENT_BUF_SIZE_def
        accept_3_def)
  from loop_treat [OF kernel [OF waiting_run this], of "[5 \<mapsto> sending]" "[send_5 0 2]"] show ?thesis
    by (simp add: handle_cqe_def handle_recv_def queue_sqe_def replying_def op_masks sending_def send_5_def add_mset_commute Let_def)
qed

lemma sent_one_run: "echo_run 4096 3 sent_one"
proof -
  have b: "segment 0 1 (cl_buf sending) = [7]" by (simp add: sending_def got_two_def overwrite_def segment_def)
  have "kernel_step replying sent_one"
    using send_some [of "send_5 0 2" replying 5 0 2 sending "\<lparr>cn_in = [7, 8], cn_out = []\<rparr>" 1] b
    by (simp add: replying_def sent_one_def run_state_def completed_def sent_def send_5_def accept_3_def)
  with replying_run show ?thesis by (rule kernel)
qed

theorem echo_server_echoes_witness:
  "prefix (cn_out \<lparr>cn_in = [7, 8], cn_out = [7]\<rparr>) (cn_in \<lparr>cn_in = [7, 8], cn_out = [7]\<rparr>)"
  by (rule echo_server_echoes [THEN conjunct1, OF fd_3(1) sent_one_run, of 5]) (simp add: sent_one_def run_state_def)

theorem echo_requests_safe_witness:
  "request_safe 3 replying (send_5 0 2) \<and> transfer_safe replying 5 0 2"
proof -
  have "send_5 0 2 \<in># requests replying" by (simp add: replying_def run_state_def requests_def)
  from echo_requests_safe [OF fd_3(1) replying_run this] show ?thesis by (simp add: request_safe_def send_5_def)
qed

theorem echo_queue_suffices_witness:
  "\<exists>r. handle_cqe 4096 3 OP_SEND 5 1 (sy_server sent_one) = Inr r"
  using echo_queue_suffices [OF fd_3(1) sent_one_run, of "\<lparr>cq_data = encode OP_SEND 5, cq_res = 1\<rparr>" "[]"]
  by (simp add: sent_one_def run_state_def)

end
