(* ===== verification/FileServer.thy ===== *)
theory FileServer
  imports Prelude "HOL-Library.Sublist"
begin

text \<open>
  The file server of \<open>io_uring/13_file_server.cpp\<close>: the path of a request, the response headers, and the
  coroutine that serves one connection, as a datatype of what is left of it at each await. The kernel
  is a relation that completes any part of a request, and the server resumes the coroutines of all its
  connections in any order. The theorems say what a connection is sent,
  that its descriptors are closed once, and how many completions it costs; and that the check of the
  path does not keep requests inside the directory.
\<close>

section \<open>Requests for files\<close>

primrec index_of :: "char \<Rightarrow> string \<Rightarrow> nat option" where
  "index_of c [] = None"
| "index_of c (x # xs) = (if x = c then Some 0 else map_option Suc (index_of c xs))"

text \<open>\<open>find\<close> from a position on.\<close>

definition find_char :: "char \<Rightarrow> nat \<Rightarrow> string \<Rightarrow> nat option" where
  "find_char c pos s = map_option (\<lambda>i. pos + i) (index_of c (drop pos s))"

definition parse_path :: "string \<Rightarrow> string" where
  "parse_path req =
     (if take 4 req \<noteq> ''GET '' then ''''
      else case find_char (CHR '' '') 4 req of
          None \<Rightarrow> ''''
        | Some stop \<Rightarrow>
            let path = take (stop - 4) (drop 4 req);
                path = (if path \<noteq> [] \<and> hd path = CHR ''/'' then tl path else path);
                path = (if path = [] then ''sample.txt'' else path)
            in if sublist ''..'' path then '''' else path)"

definition crlf :: string where "crlf = [CHR 0x0D, CHR 0x0A]"

definition make_response_header :: "nat \<Rightarrow> string \<Rightarrow> nat \<Rightarrow> string" where
  "make_response_header status status_text content_length =
     ''HTTP/1.0 '' @ to_string status @ '' '' @ status_text @ crlf @
     ''Content-Length: '' @ to_string content_length @ crlf @
     ''Content-Type: text/plain'' @ crlf @ ''Connection: close'' @ crlf @ crlf"

section \<open>The coroutine\<close>

text \<open>
  A coroutine is what is left of it at an await: the request it waits for, and what it does with
  the result. A completion has a result and the bytes the kernel put into the buffer. The end of a
  coroutine carries the descriptors it closed, in their order.
\<close>

datatype request = RRecv int nat | RSend int string | RRead int nat nat

datatype task = Done "int list" | Suspend request "int \<Rightarrow> string \<Rightarrow> task"

text \<open>The loop that sends all of a text; \<open>fail\<close> and \<open>after\<close> are what comes after the loop.\<close>

function send_all :: "int \<Rightarrow> string \<Rightarrow> nat \<Rightarrow> task \<Rightarrow> task \<Rightarrow> task" where
  "send_all fd data total_sent fail after =
     (if total_sent < length data
      then Suspend (RSend fd (drop total_sent data)) (\<lambda>sent _.
             if sent \<le> 0 then fail else send_all fd data (total_sent + nat sent) fail after)
      else after)"
  by pat_completeness auto

termination
  by (relation "measure (\<lambda>(fd, data, total_sent, fail, after). length data - total_sent)") auto

text \<open>The loop over the file in chunks of the buffer's size. The program goes on with the bytes that were read.\<close>

definition BUF_SIZE :: nat where "BUF_SIZE = 4096"

function send_file :: "int \<Rightarrow> int \<Rightarrow> nat \<Rightarrow> nat \<Rightarrow> task" where
  "send_file fd file_fd file_size offset =
     (if offset < file_size
      then Suspend (RRead file_fd (min (file_size - offset) BUF_SIZE) offset) (\<lambda>bytes_read bytes.
             if bytes_read \<le> 0 then Done [file_fd, fd]
             else send_all fd bytes 0 (Done [file_fd, fd]) (send_file fd file_fd file_size (offset + nat bytes_read)))
      else Done [file_fd, fd])"
  by pat_completeness auto

termination
  by (relation "measure (\<lambda>(fd, file_fd, file_size, offset). file_size - offset)") auto

declare send_all.simps [simp del] send_file.simps [simp del]

text \<open>
  The file system is an argument: the descriptor and the size of the file a name opens. A C string
  ends at its first NUL.
\<close>

definition c_str :: "string \<Rightarrow> string" where "c_str s = takeWhile (\<lambda>c. c \<noteq> CHR 0x00) s"

definition not_found :: "string \<Rightarrow> string" where
  "not_found path = ''404 Not Found: '' @ path @ [CHR 0x0A]"

definition answer_request :: "(string \<Rightarrow> (int \<times> nat) option) \<Rightarrow> int \<Rightarrow> string \<Rightarrow> task" where
  "answer_request open_file fd request =
     (let path = parse_path request
      in if path = '''' then send_all fd (make_response_header 400 ''Bad Request'' 0) 0 (Done [fd]) (Done [fd])
         else case open_file (c_str path) of
             None \<Rightarrow>
               let body = not_found path
               in send_all fd (make_response_header 404 ''Not Found'' (length body) @ body) 0 (Done [fd]) (Done [fd])
           | Some (file_fd, file_size) \<Rightarrow>
               send_all fd (make_response_header 200 ''OK'' file_size) 0 (Done [file_fd, fd])
                 (send_file fd file_fd file_size 0))"

definition client_handler :: "(string \<Rightarrow> (int \<times> nat) option) \<Rightarrow> int \<Rightarrow> task" where
  "client_handler open_file fd =
     Suspend (RRecv fd (BUF_SIZE - 1)) (\<lambda>n bytes. if n \<le> 0 then Done [fd] else answer_request open_file fd bytes)"

section \<open>The kernel\<close>

text \<open>
  A run of a coroutine: what was received, what was sent, whether every operation made progress, how
  many completions there were, and where the coroutine is. The kernel may complete any part of a
  request, or fail. \<open>content\<close> is what the open files hold.
\<close>

inductive task_run :: "(int \<Rightarrow> string) \<Rightarrow> task \<Rightarrow> string \<Rightarrow> string \<Rightarrow> bool \<Rightarrow> nat \<Rightarrow> task \<Rightarrow> bool"
  for content :: "int \<Rightarrow> string" and start :: task where
  run_start: "task_run content start [] [] True 0 start"
| run_recv: "task_run content start inp out ok n (Suspend (RRecv fd len) k) \<Longrightarrow> bytes \<noteq> [] \<Longrightarrow> length bytes \<le> len \<Longrightarrow>
    task_run content start (inp @ bytes) out ok (Suc n) (k (int (length bytes)) bytes)"
| run_send: "task_run content start inp out ok n (Suspend (RSend fd data) k) \<Longrightarrow> 0 < sent \<Longrightarrow> sent \<le> length data \<Longrightarrow>
    task_run content start inp (out @ take sent data) ok (Suc n) (k (int sent) [])"
| run_read: "task_run content start inp out ok n (Suspend (RRead file len off) k) \<Longrightarrow>
    bytes = take got (drop off (content file)) \<Longrightarrow> bytes \<noteq> [] \<Longrightarrow> length bytes \<le> len \<Longrightarrow>
    task_run content start inp out ok (Suc n) (k (int (length bytes)) bytes)"
| run_fail: "task_run content start inp out ok n (Suspend r k) \<Longrightarrow> res \<le> 0 \<Longrightarrow>
    task_run content start inp out False (Suc n) (k res [])"

section \<open>What a coroutine will send\<close>

definition awaits_send :: "task \<Rightarrow> bool" where
  "awaits_send t \<longleftrightarrow> (\<exists>fd data k. t = Suspend (RSend fd data) k)"

text \<open>
  The coroutine sends \<open>rest\<close>, however the kernel cuts the requests, unless an operation fails; after a
  read it sends.
\<close>

primrec sends :: "(int \<Rightarrow> string) \<Rightarrow> task \<Rightarrow> string \<Rightarrow> bool" where
  "sends content (Done fds) = (\<lambda>rest. rest = [])"
| "sends content (Suspend r k) = (\<lambda>rest. case r of
     RRecv fd len \<Rightarrow> False
   | RSend fd data \<Rightarrow> prefix data rest \<and>
       (\<forall>n. 0 < n \<and> n \<le> length data \<longrightarrow> sends content (k (int n) []) (drop n rest))
   | RRead file len off \<Rightarrow>
       (\<forall>bytes got. bytes = take got (drop off (content file)) \<and> bytes \<noteq> [] \<and> length bytes \<le> len \<longrightarrow>
          sends content (k (int (length bytes)) bytes) rest \<and> awaits_send (k (int (length bytes)) bytes)))"

lemma awaits_send_all: "pos < length data \<Longrightarrow> awaits_send (send_all fd data pos fail after)"
  by (subst send_all.simps) (simp add: awaits_send_def)

text \<open>Every operation that fails ends the coroutine, and it ends with the descriptors \<open>fds\<close> closed.\<close>

primrec closes :: "int list \<Rightarrow> task \<Rightarrow> bool" where
  "closes fds (Done closed) \<longleftrightarrow> closed = fds"
| "closes fds (Suspend r k) \<longleftrightarrow>
     (\<forall>res bytes. closes fds (k res bytes)) \<and> (\<forall>res bytes. res \<le> 0 \<longrightarrow> k res bytes = Done fds) \<and>
     (case r of RRecv fd len \<Rightarrow> fd \<in> set fds | RSend fd data \<Rightarrow> fd \<in> set fds | RRead file len off \<Rightarrow> file \<in> set fds)"

lemma sends_all:
  assumes "sends content after rest"
  shows "sends content (send_all fd data pos fail after) (drop pos data @ rest)"
  using assms
proof (induction fd data pos fail after rule: send_all.induct)
  case (1 fd data pos fail after)
  show ?case
  proof (cases "pos < length data")
    case True
    have "sends content (send_all fd data (pos + n) fail after) (drop n (drop pos data @ rest))"
      if "0 < n" "n \<le> length data - pos" for n
      using "1.IH" [of "int n"] "1.prems" True that by (simp add: add.commute)
    with True show ?thesis by (subst send_all.simps) simp
  next
    case False
    with "1.prems" show ?thesis by (subst send_all.simps) simp
  qed
qed

lemma closes_all:
  assumes "closes fds after" and "fd \<in> set fds" and "fail = Done fds"
  shows "closes fds (send_all fd data pos fail after)"
  using assms
proof (induction fd data pos fail after rule: send_all.induct)
  case (1 fd data pos fail after)
  then show ?case by (subst send_all.simps) auto
qed

lemma sends_file:
  assumes "length (content ff) = sz"
  shows "sends content (send_file fd ff sz offset) (drop offset (content ff))"
  using assms
proof (induction fd ff sz offset rule: send_file.induct)
  case (1 fd ff sz offset)
  have "sends content (send_all fd bytes 0 (Done [ff, fd]) (send_file fd ff sz (offset + length bytes)))
      (drop offset (content ff))"
    if less: "offset < sz" and bytes: "bytes = take got (drop offset (content ff))" "bytes \<noteq> []" for bytes got
  proof -
    have rest: "sends content (send_file fd ff sz (offset + length bytes)) (drop (offset + length bytes) (content ff))"
      using "1.IH" [OF less, of "int (length bytes)"] "1.prems" bytes(2) by simp
    have "bytes @ drop (offset + length bytes) (content ff) = drop offset (content ff)"
      using bytes(1) by (metis add.commute append_take_drop_id drop_drop length_take min.commute take_all_iff take_take nle_le)
    with sends_all [OF rest, of fd bytes 0 "Done [ff, fd]"] show ?thesis by simp
  qed
  then show ?case
    using "1.prems" by (subst send_file.simps) (auto simp: awaits_send_all)
qed

lemma closes_file: "closes [ff, fd] (send_file fd ff sz offset)"
proof (induction fd ff sz offset rule: send_file.induct)
  case (1 fd ff sz offset)
  have "closes [ff, fd] (send_all fd bytes 0 (Done [ff, fd]) (send_file fd ff sz (offset + nat res)))"
    if "offset < sz" "\<not> res \<le> 0" for res bytes
    using that "1.IH" by (intro closes_all) simp_all
  then show ?case by (subst send_file.simps) auto
qed

text \<open>The answer to a request: what is sent, and what is closed.\<close>

definition response :: "(string \<Rightarrow> (int \<times> nat) option) \<Rightarrow> (int \<Rightarrow> string) \<Rightarrow> string \<Rightarrow> string" where
  "response open_file content request =
     (let path = parse_path request
      in if path = '''' then make_response_header 400 ''Bad Request'' 0
         else case open_file (c_str path) of
             None \<Rightarrow> make_response_header 404 ''Not Found'' (length (not_found path)) @ not_found path
           | Some (file_fd, file_size) \<Rightarrow> make_response_header 200 ''OK'' file_size @ content file_fd)"

definition descriptors :: "(string \<Rightarrow> (int \<times> nat) option) \<Rightarrow> int \<Rightarrow> string \<Rightarrow> int list" where
  "descriptors open_file fd request =
     (if parse_path request = '''' then [fd]
      else case open_file (c_str (parse_path request)) of None \<Rightarrow> [fd] | Some (file_fd, _) \<Rightarrow> [file_fd, fd])"

text \<open>The size the file system reports is the size of the content.\<close>

definition sizes_true :: "(string \<Rightarrow> (int \<times> nat) option) \<Rightarrow> (int \<Rightarrow> string) \<Rightarrow> bool" where
  "sizes_true open_file content \<longleftrightarrow> (\<forall>path ff sz. open_file path = Some (ff, sz) \<longrightarrow> length (content ff) = sz)"

lemma answer_sends:
  assumes "sizes_true open_file content"
  shows "sends content (answer_request open_file fd request) (response open_file content request)"
proof -
  have fin: "sends content (Done fds) []" for fds by simp
  have body: "sends content (send_file fd ff sz 0) (content ff)" if "length (content ff) = sz" for ff sz
    using that sends_file [of content ff sz fd 0] by simp
  show ?thesis
    using assms sends_all [OF fin, where pos = 0] sends_all [OF body, where pos = 0]
    by (auto simp: answer_request_def response_def Let_def sizes_true_def split: option.splits)
qed

lemma answer_closes: "closes (descriptors open_file fd request) (answer_request open_file fd request)"
  by (auto simp: answer_request_def descriptors_def Let_def split: option.splits
      intro!: closes_all closes_file)

section \<open>Runs\<close>

definition handled_so_far ::
  "(string \<Rightarrow> (int \<times> nat) option) \<Rightarrow> (int \<Rightarrow> string) \<Rightarrow> int \<Rightarrow> string \<Rightarrow> string \<Rightarrow> bool \<Rightarrow> nat \<Rightarrow> task \<Rightarrow> bool" where
  "handled_so_far open_file content fd inp out ok n t \<longleftrightarrow>
     (if inp = [] then out = [] \<and> (if ok then t = client_handler open_file fd \<and> n = 0 else t = Done [fd] \<and> n = 1)
      else prefix out (response open_file content inp) \<and> closes (descriptors open_file fd inp) t \<and>
        n \<le> 1 + 2 * length out + (if ok \<and> \<not> awaits_send t then 0 else if ok then 1 else 2) \<and>
        (if ok then sends content t (drop (length out) (response open_file content inp))
         else t = Done (descriptors open_file fd inp)))"

lemma task_run_handled:
  assumes "sizes_true open_file content"
    and "task_run content (client_handler open_file fd) inp out ok n t"
  shows "handled_so_far open_file content fd inp out ok n t"
  using assms(2)
proof induction
  case run_start
  show ?case by (simp add: handled_so_far_def)
next
  case (run_recv inp out ok n fd' len k bytes)
  have "inp = [] \<and> ok"
  proof (rule ccontr)
    assume "\<not> (inp = [] \<and> ok)"
    with run_recv.IH show False by (auto simp: handled_so_far_def split: if_splits)
  qed
  with run_recv answer_sends [OF assms(1)] answer_closes show ?case
    by (auto simp: handled_so_far_def client_handler_def split: if_splits)
next
  case (run_send inp out ok n fd' data k sent)
  let ?r = "response open_file content inp"
  from run_send.IH have i: "inp \<noteq> []" "ok" "prefix out ?r" "closes (descriptors open_file fd inp) (Suspend (RSend fd' data) k)"
    "sends content (Suspend (RSend fd' data) k) (drop (length out) ?r)" and n: "n \<le> 2 + 2 * length out"
    by (auto simp: handled_so_far_def client_handler_def split: if_splits)
  then have data: "prefix data (drop (length out) ?r)"
    and rest: "sends content (k (int sent) []) (drop sent (drop (length out) ?r))"
    using run_send.hyps by simp_all
  from i(3) have "?r = out @ drop (length out) ?r" by (auto simp: prefix_def)
  moreover have "drop (length out) ?r = take sent data @ drop sent (drop (length out) ?r)"
  proof -
    from data obtain zs where zs: "drop (length out) ?r = data @ zs" by (auto simp: prefix_def)
    with run_send.hyps append_take_drop_id [of sent "data @ zs"] show ?thesis by simp
  qed
  ultimately have "prefix (out @ take sent data) ?r"
    by (metis append.assoc prefixI)
  with i n rest run_send.hyps show ?case
    by (simp add: handled_so_far_def add.commute)
next
  case (run_read inp out ok n ff len off k bytes got)
  from run_read.IH have "inp \<noteq> []" "ok" "prefix out (response open_file content inp)"
    "closes (descriptors open_file fd inp) (Suspend (RRead ff len off) k)"
    "sends content (Suspend (RRead ff len off) k) (drop (length out) (response open_file content inp))"
    "n \<le> 1 + 2 * length out"
    by (auto simp: awaits_send_def handled_so_far_def client_handler_def split: if_splits)
  with run_read.hyps show ?case by (simp add: handled_so_far_def)
next
  case (run_fail inp out ok n r k res)
  then show ?case
    by (cases ok) (auto simp: handled_so_far_def client_handler_def split: if_splits)
qed

lemma client_run_prefix:
  assumes "sizes_true open_file content" and "task_run content (client_handler open_file fd) inp out ok n t" and "inp \<noteq> []"
  shows "prefix out (response open_file content inp)" and "closes (descriptors open_file fd inp) t"
    and "n \<le> 3 + 2 * length out" and "ok \<Longrightarrow> sends content t (drop (length out) (response open_file content inp))"
    and "\<not> ok \<Longrightarrow> t = Done (descriptors open_file fd inp)"
  using task_run_handled [OF assms(1,2)] assms(3) by (auto simp: handled_so_far_def split: if_splits)

section \<open>The server\<close>

text \<open>
  The accept loop and the event loop: a completion resumes the coroutine it belongs to (the rule takes any number of
  completions of one connection at once). A connection carries the files as they are while it is served, and what happened on it so far.
\<close>

record connection =
  cn_fd :: int
  cn_open :: "string \<Rightarrow> (int \<times> nat) option"
  cn_content :: "int \<Rightarrow> string"
  cn_in :: string
  cn_out :: string
  cn_ok :: bool
  cn_count :: nat
  cn_task :: task

definition accept_resume ::
  "(string \<Rightarrow> (int \<times> nat) option) \<Rightarrow> (int \<Rightarrow> string) \<Rightarrow> int \<Rightarrow> connection list \<Rightarrow> connection list" where
  "accept_resume open_file content client_fd conns =
     (if client_fd < 0 then conns
      else conns @ [\<lparr>cn_fd = client_fd, cn_open = open_file, cn_content = content, cn_in = [], cn_out = [], cn_ok = True,
             cn_count = 0, cn_task = client_handler open_file client_fd\<rparr>])"

inductive server_run :: "connection list \<Rightarrow> bool" where
  server_start: "server_run []"
| server_accept: "server_run conns \<Longrightarrow> sizes_true open_file content \<Longrightarrow>
    server_run (accept_resume open_file content client_fd conns)"
| server_resume: "server_run conns \<Longrightarrow> i < length conns \<Longrightarrow> c = conns ! i \<Longrightarrow>
    task_run (cn_content c) (cn_task c) inp out ok n t \<Longrightarrow>
    server_run (conns[i := c\<lparr>cn_in := cn_in c @ inp, cn_out := cn_out c @ out, cn_ok := cn_ok c \<and> ok,
      cn_count := cn_count c + n, cn_task := t\<rparr>])"

text \<open>Serving many connections at once is serving each: what happens on one is a run of its own handler.\<close>

lemma task_run_append:
  assumes "task_run content t inp2 out2 ok2 n2 t2" and "task_run content start inp out ok n t"
  shows "task_run content start (inp @ inp2) (out @ out2) (ok \<and> ok2) (n + n2) t2"
  using assms
proof induction
  case run_start
  then show ?case by simp
next
  case (run_recv inp2 out2 ok2 n2 fd len k bytes)
  then show ?case using task_run.run_recv [of content start "inp @ inp2"] by simp
next
  case (run_send inp2 out2 ok2 n2 fd data k sent)
  then show ?case using task_run.run_send [of content start _ "out @ out2"] by simp
next
  case (run_read inp2 out2 ok2 n2 ff len off k bytes got)
  then show ?case using task_run.run_read [of content start "inp @ inp2"] by simp
next
  case (run_fail inp2 out2 ok2 n2 r k res)
  then show ?case using task_run.run_fail [of content start "inp @ inp2"] by simp
qed

definition conn_run :: "connection \<Rightarrow> bool" where
  "conn_run c \<longleftrightarrow> sizes_true (cn_open c) (cn_content c) \<and>
     task_run (cn_content c) (client_handler (cn_open c) (cn_fd c)) (cn_in c) (cn_out c) (cn_ok c) (cn_count c) (cn_task c)"

lemma server_run_conns:
  assumes "server_run conns" and "c \<in> set conns"
  shows "conn_run c"
  using assms
proof (induction arbitrary: c)
  case server_start
  then show ?case by simp
next
  case (server_accept conns open_file content client_fd)
  then show ?case
    by (auto simp: accept_resume_def conn_run_def run_start split: if_splits)
next
  case (server_resume conns i d inp out ok n t)
  then have d: "conn_run d" by simp
  from server_resume.prems have "c \<in> set conns \<or> c = d\<lparr>cn_in := cn_in d @ inp, cn_out := cn_out d @ out,
      cn_ok := cn_ok d \<and> ok, cn_count := cn_count d + n, cn_task := t\<rparr>"
    using set_update_subset_insert [of conns i] by auto
  then show ?case
  proof
    assume "c \<in> set conns"
    then show ?thesis by (rule server_resume.IH)
  next
    assume "c = d\<lparr>cn_in := cn_in d @ inp, cn_out := cn_out d @ out, cn_ok := cn_ok d \<and> ok,
      cn_count := cn_count d + n, cn_task := t\<rparr>"
    with d task_run_append [OF server_resume.hyps(4)] show ?thesis by (simp add: conn_run_def)
  qed
qed

text \<open>
  C17. The file server answers what was asked. However the kernel cuts receives, sends and reads and mixes the
  connections, what a connection has been sent is at any time a beginning of the one right answer: the 400
  response, the 404 response with its text, or the 200 header with the length of the file and then its
  content. If no operation on it failed, a connection whose handler has ended was sent the whole answer; and a handler
  that has ended, well or not, has closed the connection, and the file if it opened one, each once and nothing else.
\<close>

theorem file_server_answers:
  assumes "server_run conns" and "c \<in> set conns" and "cn_in c \<noteq> []"
  shows "prefix (cn_out c) (response (cn_open c) (cn_content c) (cn_in c)) \<and>
    (\<forall>closed. cn_task c = Done closed \<longrightarrow> closed = descriptors (cn_open c) (cn_fd c) (cn_in c) \<and>
       (cn_ok c \<longrightarrow> cn_out c = response (cn_open c) (cn_content c) (cn_in c)))"
proof -
  from server_run_conns [OF assms(1,2)] have run: "sizes_true (cn_open c) (cn_content c)"
    "task_run (cn_content c) (client_handler (cn_open c) (cn_fd c)) (cn_in c) (cn_out c) (cn_ok c) (cn_count c) (cn_task c)"
    by (simp_all add: conn_run_def)
  note r = client_run_prefix [OF run assms(3)]
  have "cn_out c = response (cn_open c) (cn_content c) (cn_in c)" if "cn_task c = Done closed" "cn_ok c" for closed
    using r(1) r(4) [OF that(2)] that(1) by (auto simp: prefix_def)
  with r(1,2) show ?thesis by auto
qed

text \<open>
  C18. A handler makes no idle rounds: however many others are served, a connection costs at most three completions
  and two for each byte of its answer, however small the pieces are that the kernel sends and reads, and while it is
  not over the handler waits for an operation on the connection or on the file it opened.
\<close>

theorem file_server_bounded:
  assumes "server_run conns" and "c \<in> set conns" and "cn_in c \<noteq> []"
  shows "cn_count c \<le> 3 + 2 * length (response (cn_open c) (cn_content c) (cn_in c)) \<and>
    (case cn_task c of Done _ \<Rightarrow> True
     | Suspend r _ \<Rightarrow> (case r of
           RRecv f _ \<Rightarrow> False
         | RSend f data \<Rightarrow> f \<in> set (descriptors (cn_open c) (cn_fd c) (cn_in c))
         | RRead f len _ \<Rightarrow> f \<in> set (descriptors (cn_open c) (cn_fd c) (cn_in c))))"
proof -
  from server_run_conns [OF assms(1,2)] have run: "sizes_true (cn_open c) (cn_content c)"
    "task_run (cn_content c) (client_handler (cn_open c) (cn_fd c)) (cn_in c) (cn_out c) (cn_ok c) (cn_count c) (cn_task c)"
    by (simp_all add: conn_run_def)
  note r = client_run_prefix [OF run assms(3)]
  have "length (cn_out c) \<le> length (response (cn_open c) (cn_content c) (cn_in c))"
    using r(1) by (rule prefix_length_le)
  with r show ?thesis by (cases "cn_ok c") (auto split: task.splits request.splits)
qed

text \<open>
  The check of \<open>parse_path\<close> for two dots does not keep a request inside the directory: only one leading
  slash is removed, so a path that starts with two is absolute.
\<close>

theorem parse_path_absolute:
  "parse_path (''GET /'' @ CHR ''/'' # name @ '' HTTP/1.0'') = CHR ''/'' # name"
  if "CHR '' '' \<notin> set name" and "\<not> sublist ''..'' name"
proof -
  have "index_of c (xs @ c # ys) = Some (length xs)" if "c \<notin> set xs" for c xs ys
    using that by (induction xs) auto
  from this [of "CHR '' ''" "''//'' @ name" "''HTTP/1.0''"] that(1)
  have "find_char (CHR '' '') 4 (''GET //'' @ name @ '' HTTP/1.0'') = Some (length name + 6)"
    by (simp add: find_char_def)
  moreover have "\<not> sublist ''..'' (CHR ''/'' # name)"
    using that(2) by (simp add: sublist_Cons_right)
  ultimately show ?thesis by (simp add: parse_path_def Let_def)
qed

theorem parse_path_absolute_witness:
  "parse_path ''GET //etc/passwd HTTP/1.0'' = ''/etc/passwd''"
  using parse_path_absolute [of "''etc/passwd''"] by (simp add: sublist_Cons_right)

section \<open>A run\<close>

definition one_file :: "string \<Rightarrow> (int \<times> nat) option" where
  "one_file path = (if path = ''a'' then Some (9, 2) else None)"

definition two_bytes :: "int \<Rightarrow> string" where "two_bytes ff = (if ff = 9 then ''hi'' else '''')"

definition get_a :: string where "get_a = ''GET /a HTTP/1.0''"

lemma one_file_true: "sizes_true one_file two_bytes"
  by (simp add: sizes_true_def one_file_def two_bytes_def)

lemma get_a_path: "parse_path get_a = ''a''"
  by (simp add: parse_path_def get_a_def find_char_def Let_def sublist_Cons_right)

lemma run_whole_send:
  assumes "task_run content start inp out ok n (send_all fd data 0 fail after)" and "data \<noteq> []"
  shows "task_run content start inp (out @ data) ok (Suc n) after"
proof -
  from assms have "task_run content start inp out ok n (Suspend (RSend fd data) (\<lambda>sent _.
      if sent \<le> 0 then fail else send_all fd data (0 + nat sent) fail after))"
    by (subst (asm) send_all.simps) (simp only: drop_0 length_greater_0_conv simp_thms if_True)
  from run_send [OF this, of "length data"] assms(2) show ?thesis
    by (simp add: send_all.simps)
qed

lemma example_run:
  "task_run two_bytes (client_handler one_file 5) get_a (response one_file two_bytes get_a) True 4 (Done [9, 5])"
proof -
  let ?h = "client_handler one_file 5" and ?header = "make_response_header 200 ''OK'' 2"
  have resp: "response one_file two_bytes get_a = ?header @ ''hi''"
    by (simp add: response_def get_a_path one_file_def two_bytes_def c_str_def)
  have "task_run two_bytes ?h [] [] True 0 (Suspend (RRecv 5 (BUF_SIZE - 1)) (\<lambda>n bytes.
      if n \<le> 0 then Done [5] else answer_request one_file 5 bytes))"
    using run_start [of two_bytes ?h] by (simp add: client_handler_def)
  from run_recv [OF this, of get_a]
  have "task_run two_bytes ?h get_a [] True 1 (send_all 5 ?header 0 (Done [9, 5]) (send_file 5 9 2 0))"
    using get_a_path by (simp add: answer_request_def get_a_def BUF_SIZE_def one_file_def c_str_def)
  from run_whole_send [OF this] have "task_run two_bytes ?h get_a ?header True (Suc 1) (send_file 5 9 2 0)"
    unfolding make_response_header_def append_Nil by (simp only: append_is_Nil_conv list.distinct simp_thms)
  then have "task_run two_bytes ?h get_a ?header True (Suc 1) (Suspend (RRead 9 2 0) (\<lambda>bytes_read bytes.
      if bytes_read \<le> 0 then Done [9, 5]
      else send_all 5 bytes 0 (Done [9, 5]) (send_file 5 9 2 (0 + nat bytes_read))))"
    by (subst (asm) send_file.simps) (simp add: BUF_SIZE_def)
  from run_read [OF this, of "''hi''" 2]
  have "task_run two_bytes ?h get_a ?header True (Suc (Suc 1)) (send_all 5 ''hi'' 0 (Done [9, 5]) (send_file 5 9 2 2))"
    by (simp add: two_bytes_def numeral_2_eq_2)
  from run_whole_send [OF this] show ?thesis
    by (simp add: resp send_file.simps numeral_eq_Suc)
qed

definition served :: connection where
  "served = \<lparr>cn_fd = 5, cn_open = one_file, cn_content = two_bytes, cn_in = get_a,
     cn_out = response one_file two_bytes get_a, cn_ok = True, cn_count = 4, cn_task = Done [9, 5]\<rparr>"

lemma served_run: "server_run [served]"
proof -
  from server_accept [OF server_start one_file_true, of 5]
  have "server_run (accept_resume one_file two_bytes 5 [])" .
  from server_resume [OF this, of 0 _ get_a "response one_file two_bytes get_a" True 4 "Done [9, 5]"] example_run
  show ?thesis by (simp add: accept_resume_def served_def)
qed

theorem file_server_answers_witness:
  "cn_out served = make_response_header 200 ''OK'' 2 @ ''hi''"
  using file_server_answers [OF served_run, of served]
  by (simp add: served_def response_def get_a_path one_file_def two_bytes_def c_str_def get_a_def [symmetric])

theorem file_server_bounded_witness:
  "(4 :: nat) \<le> 3 + 2 * length (response one_file two_bytes get_a)"
  using file_server_bounded [OF served_run, of served] by (simp add: served_def get_a_def)

end
