(* ===== verification/UringCopy.thy ===== *)
theory UringCopy
  imports Prelude
begin

text \<open>
  The three programs of \<open>io_uring/\<close> that copy a file: \<open>03_file_copy.cpp\<close> (a read, then a write),
  \<open>04_linked_copy.cpp\<close> (a read linked to its write) and \<open>05_pipeline_copy.cpp\<close> (a write
  and the next read at the same time, with two buffers). The kernel decides how much of each transfer it makes,
  which transfers fail, and in which order two transfers complete. The theorems say when the
  copy is the original: the first program needs complete writes only, the second notices a short
  read, the third copies wrongly after one.
\<close>

section \<open>Files and transfers\<close>

definition COPY_BUF_SIZE :: nat where "COPY_BUF_SIZE = 65536"

text \<open>A write behind the end of a file fills the gap with zeros.\<close>

definition write_at :: "nat \<Rightarrow> u8 list \<Rightarrow> u8 list \<Rightarrow> u8 list" where
  "write_at off bs f =
     (if bs = [] then f
      else take off (f @ replicate (off - length f) 0) @ bs @ drop (off + length bs) f)"

text \<open>
  The kernel's decisions: the results of the read and of the write of a round, for an offset and a length,
  and whether the write of the previous round completes before the read of this one.
\<close>

record kernel =
  ke_read :: "nat \<Rightarrow> nat \<Rightarrow> nat \<Rightarrow> int"
  ke_write :: "nat \<Rightarrow> nat \<Rightarrow> nat \<Rightarrow> int"
  ke_write_first :: "nat \<Rightarrow> bool"

text \<open>What a read leaves in a buffer and what a write leaves in a file; nothing when it fails.\<close>

definition read_into :: "u8 list \<Rightarrow> nat \<Rightarrow> int \<Rightarrow> u8 list \<Rightarrow> u8 list" where
  "read_into src off got buf = overwrite 0 (take (nat got) (drop off src)) buf"

definition write_from :: "u8 list \<Rightarrow> nat \<Rightarrow> int \<Rightarrow> u8 list \<Rightarrow> u8 list" where
  "write_from buf off put dst = write_at off (take (nat put) buf) dst"

section \<open>A read, then a write (exercise 03)\<close>

fun file_copy :: "nat \<Rightarrow> kernel \<Rightarrow> u8 list \<Rightarrow> nat \<Rightarrow> nat \<Rightarrow> u8 list \<Rightarrow> u8 list \<Rightarrow> (nat \<times> u8 list) res" where
  "file_copy 0 k src i offset buf dst = Inl OutOfFuel"
| "file_copy (Suc fuel) k src i offset buf dst =
     (let bytes_read = ke_read k i offset COPY_BUF_SIZE in
      if bytes_read < 0 then Inl (SystemError (- bytes_read) ''read'')
      else if bytes_read = 0 then Inr (offset, dst)
      else let buf = read_into src offset bytes_read buf;
               put = ke_write k i offset (nat bytes_read)
           in if put < 0 then Inl (SystemError (- put) ''write'')
              else file_copy fuel k src (Suc i) (offset + nat bytes_read) buf (write_from buf offset put dst))"

section \<open>A read linked to its write (exercise 04)\<close>

definition ECANCELED :: int where "ECANCELED = 125"

text \<open>
  The kernel starts the second request of a chain only when the first has transferred all it was asked for, and
  cancels it otherwise. The file is copied up to the size it had at the start.
\<close>

function linked_copy :: "kernel \<Rightarrow> u8 list \<Rightarrow> nat \<Rightarrow> nat \<Rightarrow> nat \<Rightarrow> u8 list \<Rightarrow> u8 list \<Rightarrow> (nat \<times> u8 list) res" where
  "linked_copy k src i remaining offset buf dst =
     (if remaining > 0
      then let chunk = min remaining COPY_BUF_SIZE;
               got = ke_read k i offset chunk;
               buf = read_into src offset got buf;
               put = (if got = int chunk then ke_write k i offset chunk else - ECANCELED)
           in if got < 0 then Inl (SystemError (- got) ''read'')
              else if put < 0 then Inl (SystemError (- put) ''write'')
              else linked_copy k src (Suc i) (remaining - chunk) (offset + chunk) buf (write_from buf offset put dst)
      else Inr (offset, dst))"
  by pat_completeness auto

termination
  by (relation "measure (\<lambda>(k, src, i, remaining, offset, buf, dst). remaining)") (auto simp: COPY_BUF_SIZE_def)

declare linked_copy.simps [simp del]

section \<open>Two buffers (exercise 05)\<close>

text \<open>Requests in flight, with the number of their buffer, their length and their offset.\<close>

datatype transfer = ReadOp nat nat nat | WriteOp nat nat nat

definition TAG_READ :: u64 where "TAG_READ = 0"
definition TAG_WRITE :: u64 where "TAG_WRITE = 1"

record pipeline =
  pi_cur :: nat
  pi_read_off :: nat
  pi_write_off :: nat
  pi_read_done :: bool
  pi_has_pending_write :: bool
  pi_bufs :: "nat \<Rightarrow> u8 list"
  pi_dst :: "u8 list"
  pi_inflight :: "transfer list"

text \<open>The kernel makes one transfer and adds its completion to the queue.\<close>

definition transferred :: "kernel \<Rightarrow> u8 list \<Rightarrow> nat \<Rightarrow> transfer \<Rightarrow> pipeline \<Rightarrow> pipeline \<times> (u64 \<times> int)" where
  "transferred k src i t p =
     (case t of
        ReadOp b len off \<Rightarrow> let res = ke_read k i off len in
          (p\<lparr>pi_bufs := (pi_bufs p)(b := read_into src off res (pi_bufs p b))\<rparr>, (TAG_READ, res))
      | WriteOp b len off \<Rightarrow> let res = ke_write k i off len in
          (p\<lparr>pi_dst := write_from (pi_bufs p b) off res (pi_dst p)\<rparr>, (TAG_WRITE, res)))"

fun all_transferred :: "kernel \<Rightarrow> u8 list \<Rightarrow> nat \<Rightarrow> transfer list \<Rightarrow> pipeline \<Rightarrow> pipeline \<times> (u64 \<times> int) list" where
  "all_transferred k src i [] p = (p, [])"
| "all_transferred k src i (t # ts) p =
     (let (p, e) = transferred k src i t p; (p, es) = all_transferred k src i ts p in (p, e # es))"

text \<open>Everything in flight completes, in the order the kernel likes.\<close>

definition kernel_round :: "kernel \<Rightarrow> u8 list \<Rightarrow> nat \<Rightarrow> pipeline \<Rightarrow> pipeline \<times> (u64 \<times> int) list" where
  "kernel_round k src i p =
     (let ts = (if ke_write_first k i then rev (pi_inflight p) else pi_inflight p)
      in all_transferred k src i ts (p\<lparr>pi_inflight := []\<rparr>))"

text \<open>The loop that reaps completions; a \<open>wait\<close> without a completion never returns.\<close>

fun reap :: "nat \<Rightarrow> (u64 \<times> int) list \<Rightarrow> int \<Rightarrow> int res" where
  "reap 0 cq bytes_read = Inr bytes_read"
| "reap (Suc n) [] bytes_read = Inl OutOfFuel"
| "reap (Suc n) ((tag, res) # cq) bytes_read =
     (if tag = TAG_READ
      then if res < 0 then Inl (SystemError (- res) ''read'') else reap n cq res
      else if res < 0 then Inl (SystemError (- res) ''write'') else reap n cq bytes_read)"

text \<open>The read of the next chunk into the buffer \<open>cur\<close>.\<close>

definition submit_read :: "nat \<Rightarrow> pipeline \<Rightarrow> pipeline" where
  "submit_read file_size p =
     (let chunk = min (file_size - pi_read_off p) COPY_BUF_SIZE
      in p\<lparr>pi_inflight := ReadOp (pi_cur p) chunk (pi_read_off p) # pi_inflight p, pi_read_off := pi_read_off p + chunk\<rparr>)"

definition pipeline_start :: "nat \<Rightarrow> (nat \<Rightarrow> u8 list) \<Rightarrow> pipeline" where
  "pipeline_start file_size bufs =
     (let p = submit_read file_size \<lparr>pi_cur = 0, pi_read_off = 0, pi_write_off = 0, pi_read_done = False,
                pi_has_pending_write = False, pi_bufs = bufs, pi_dst = [], pi_inflight = []\<rparr>
      in p\<lparr>pi_read_done := pi_read_off p \<ge> file_size\<rparr>)"

text \<open>
  What follows the reaping: the write of the buffer just filled, and the next read, unless there is none. In the list
  of requests in flight a read stands before a write.
\<close>

definition pipeline_submit :: "nat \<Rightarrow> int \<Rightarrow> pipeline \<Rightarrow> pipeline" where
  "pipeline_submit file_size bytes_read p =
     (let filled = pi_cur p;
          p = p\<lparr>pi_cur := (if pi_cur p = 0 then 1 else 0), pi_inflight := [WriteOp filled (nat bytes_read) (pi_write_off p)]\<rparr>;
          p = (if pi_read_done p then p
               else let p = submit_read file_size p in p\<lparr>pi_read_done := pi_read_off p \<ge> file_size\<rparr>)
      in p\<lparr>pi_write_off := pi_write_off p + nat bytes_read, pi_has_pending_write := True\<rparr>)"

fun pipeline_loop :: "nat \<Rightarrow> kernel \<Rightarrow> u8 list \<Rightarrow> nat \<Rightarrow> pipeline \<Rightarrow> (nat \<times> u8 list) res" where
  "pipeline_loop 0 k src i p = Inl OutOfFuel"
| "pipeline_loop (Suc fuel) k src i p =
     (let (p, cq) = kernel_round k src i p in
      bindR (reap (1 + (if pi_has_pending_write p then 1 else 0)) cq 0) (\<lambda>bytes_read.
      if bytes_read = 0 then Inr (pi_write_off p, pi_dst p)
      else let more_reads = \<not> pi_read_done p; p = pipeline_submit (length src) bytes_read p in
        if more_reads then pipeline_loop fuel k src (Suc i) p
        else let (p, cq) = kernel_round k src (Suc i) p in
          bindR (reap 1 cq 0) (\<lambda>_. Inr (pi_write_off p, pi_dst p))))"

definition pipeline_copy :: "nat \<Rightarrow> kernel \<Rightarrow> u8 list \<Rightarrow> (nat \<Rightarrow> u8 list) \<Rightarrow> (nat \<times> u8 list) res" where
  "pipeline_copy fuel k src bufs = pipeline_loop fuel k src 0 (pipeline_start (length src) bufs)"

section \<open>The transfers\<close>

text \<open>
  What a kernel may answer: it reads no more than it is asked for and than there is, and nothing only at the
  end of the file. A transfer is complete or fails in a kernel without short transfers.
\<close>

definition reads_ok :: "u8 list \<Rightarrow> kernel \<Rightarrow> bool" where
  "reads_ok src k \<longleftrightarrow> (\<forall>i off len. ke_read k i off len \<le> int (min len (length src - off)) \<and>
     (ke_read k i off len = 0 \<longrightarrow> min len (length src - off) = 0))"

definition reads_complete :: "u8 list \<Rightarrow> kernel \<Rightarrow> bool" where
  "reads_complete src k \<longleftrightarrow> (\<forall>i off len. ke_read k i off len < 0 \<or> ke_read k i off len = int (min len (length src - off)))"

definition writes_complete :: "kernel \<Rightarrow> bool" where
  "writes_complete k \<longleftrightarrow> (\<forall>i off len. ke_write k i off len < 0 \<or> ke_write k i off len = int len)"

text \<open>The outcome of a copy: a failure that is reported, or the original.\<close>

definition copied_or_failed :: "u8 list \<Rightarrow> (nat \<times> u8 list) res \<Rightarrow> bool" where
  "copied_or_failed src r \<longleftrightarrow> (\<exists>e t. r = Inl (SystemError e t)) \<or> r = Inr (length src, src)"

lemma copied_or_failed_simps [simp]:
  "copied_or_failed src (Inl (SystemError e t))" "copied_or_failed src (Inr (n, dst)) \<longleftrightarrow> n = length src \<and> dst = src"
  by (auto simp: copied_or_failed_def)

lemma write_at_end [simp]: "length f = off \<Longrightarrow> write_at off bs f = f @ bs"
  by (simp add: write_at_def)

lemma length_read_into [simp]:
  "got \<le> int (min (length buf) (length src - off)) \<Longrightarrow> length (read_into src off got buf) = length buf"
  by (simp add: read_into_def)

lemma take_read_into:
  "got \<le> int (min (length buf) (length src - off)) \<Longrightarrow> take (nat got) (read_into src off got buf) = take (nat got) (drop off src)"
  by (simp add: read_into_def overwrite_def)

text \<open>A chunk is read and written behind what has been copied.\<close>

lemma chunk_copied:
  assumes "got \<le> int (min (length buf) (length src - off))" and "off \<le> length src" and "dst = take off src"
  shows "write_from (read_into src off got buf) off got dst = take (off + nat got) src"
proof -
  have "length dst = off" using assms by simp
  with assms(3) show ?thesis
    unfolding write_from_def take_read_into [OF assms(1)] by (simp only: write_at_end take_add)
qed

lemma file_copy_correct:
  assumes "reads_ok src k" and "writes_complete k"
    and "length src - offset < fuel" and "offset \<le> length src" and "dst = take offset src" and "length buf = COPY_BUF_SIZE"
  shows "copied_or_failed src (file_copy fuel k src i offset buf dst)"
  using assms(3-6)
proof (induction fuel arbitrary: i offset buf dst)
  case (Suc fuel)
  let ?got = "ke_read k i offset COPY_BUF_SIZE"
  from assms(1) have "?got \<le> int (min COPY_BUF_SIZE (length src - offset)) \<and>
      (?got = 0 \<longrightarrow> min COPY_BUF_SIZE (length src - offset) = 0)"
    unfolding reads_ok_def by blast
  moreover have "0 < COPY_BUF_SIZE" by (simp add: COPY_BUF_SIZE_def)
  ultimately have got: "?got \<le> int (min (length buf) (length src - offset))" "?got = 0 \<Longrightarrow> length src - offset = 0"
    using Suc.prems(4) by simp_all
  consider "?got < 0" | "?got = 0" | "0 < ?got" by linarith
  then show ?case
  proof cases
    case 3
    let ?buf = "read_into src offset ?got buf"
    let ?put = "ke_write k i offset (nat ?got)"
    have next_round: "copied_or_failed src (file_copy fuel k src (Suc i) (offset + nat ?got) ?buf (write_from ?buf offset ?got dst))"
      by (rule Suc.IH)
        (use Suc.prems got 3 chunk_copied [OF got(1) Suc.prems(2,3)] in \<open>simp_all add: take_read_into\<close>)
    have "?put < 0 \<or> ?put = int (nat ?got)" using assms(2) unfolding writes_complete_def by blast
    with 3 next_round show ?thesis by (auto simp: Let_def)
  qed (use Suc.prems got in \<open>simp_all add: Let_def\<close>)
qed simp

lemma linked_copy_correct:
  assumes "\<And>i off len. ke_read k i off len \<le> int (min len (length src - off))" and "writes_complete k"
    and "length src = offset + remaining" and "dst = take offset src" and "length buf = COPY_BUF_SIZE"
  shows "copied_or_failed src (linked_copy k src i remaining offset buf dst)"
  using assms(3-5)
proof (induction remaining arbitrary: i offset buf dst rule: less_induct)
  case (less remaining)
  let ?chunk = "min remaining COPY_BUF_SIZE"
  let ?got = "ke_read k i offset ?chunk" and ?put = "ke_write k i offset ?chunk"
  show ?case
  proof (cases "0 < remaining \<and> ?got = int ?chunk")
    case True
    have got: "?got \<le> int (min (length buf) (length src - offset))"
      using True less.prems by (simp add: min_def)
    let ?buf = "read_into src offset ?got buf"
    have next_round: "copied_or_failed src (linked_copy k src (Suc i) (remaining - ?chunk) (offset + ?chunk) ?buf
        (write_from ?buf offset ?got dst))"
      by (rule less.IH)
        (use True less.prems got chunk_copied [OF got, of dst] in \<open>auto simp: COPY_BUF_SIZE_def\<close>)
    have "?put < 0 \<or> ?put = ?got" using assms(2) True by (auto simp: writes_complete_def)
    with True next_round show ?thesis by (subst linked_copy.simps) (auto simp: Let_def)
  next
    case False
    with less.prems show ?thesis by (subst linked_copy.simps) (auto simp: Let_def ECANCELED_def)
  qed
qed

section \<open>The pipeline\<close>

text \<open>
  The state at the beginning of a round. The read in flight is for the chunk behind what has been handed to the
  file, into the buffer \<open>cur\<close>; the write in flight, if there is one, is for the chunk before it, from the other
  buffer. So no buffer is used by two transfers.
\<close>

definition pipe_ok :: "u8 list \<Rightarrow> pipeline \<Rightarrow> bool" where
  "pipe_ok src p \<longleftrightarrow>
     (let sz = length src; wo = pi_write_off p; len = min (sz - wo) COPY_BUF_SIZE; cur = pi_cur p; other = 1 - cur in
      cur < 2 \<and> (\<forall>b < 2. length (pi_bufs p b) = COPY_BUF_SIZE) \<and> wo \<le> sz \<and>
      pi_read_off p = wo + len \<and> (pi_read_done p \<longleftrightarrow> sz \<le> pi_read_off p) \<and>
      (if pi_has_pending_write p
       then \<exists>n. pi_inflight p = [ReadOp cur len wo, WriteOp other n (wo - n)] \<and> n \<le> wo \<and> n \<le> COPY_BUF_SIZE \<and>
         wo < sz \<and> take n (pi_bufs p other) = take n (drop (wo - n) src) \<and> pi_dst p = take (wo - n) src
       else pi_inflight p = [ReadOp cur len wo] \<and> wo = 0 \<and> pi_dst p = []))"

lemma pipeline_start_ok:
  "(\<And>b. b < 2 \<Longrightarrow> length (bufs b) = COPY_BUF_SIZE) \<Longrightarrow> pipe_ok src (pipeline_start (length src) bufs)"
  by (simp add: pipe_ok_def pipeline_start_def submit_read_def Let_def)

text \<open>A round in which nothing fails: what was in flight has arrived.\<close>

definition arrived :: "u8 list \<Rightarrow> pipeline \<Rightarrow> int \<Rightarrow> pipeline \<Rightarrow> bool" where
  "arrived src p bytes_read p' \<longleftrightarrow>
     (let len = min (length src - pi_write_off p) COPY_BUF_SIZE in
      bytes_read = int len \<and> pi_dst p' = take (pi_write_off p) src \<and>
      (\<forall>b < 2. length (pi_bufs p' b) = COPY_BUF_SIZE) \<and>
      take len (pi_bufs p' (pi_cur p)) = take len (drop (pi_write_off p) src) \<and>
      pi_cur p' = pi_cur p \<and> pi_read_off p' = pi_read_off p \<and> pi_write_off p' = pi_write_off p \<and>
      pi_read_done p' = pi_read_done p \<and> pi_has_pending_write p' = pi_has_pending_write p)"

lemma TAGs [simp]: "TAG_WRITE \<noteq> TAG_READ" "TAG_READ \<noteq> TAG_WRITE"
  by (simp_all add: TAG_READ_def TAG_WRITE_def)

lemma round_arrives:
  assumes "pipe_ok src p" and "reads_complete src k" and "writes_complete k"
    and "kernel_round k src i p = (p', cq)"
  shows "case reap (1 + (if pi_has_pending_write p' then 1 else 0)) cq 0 of
      Inl e \<Rightarrow> (\<exists>n t. e = SystemError n t) | Inr bytes_read \<Rightarrow> arrived src p bytes_read p'"
proof -
  let ?wo = "pi_write_off p" and ?cur = "pi_cur p"
  let ?len = "min (length src - ?wo) COPY_BUF_SIZE"
  let ?got = "ke_read k i ?wo ?len"
  have p: "?cur < 2" "\<And>b. b < 2 \<Longrightarrow> length (pi_bufs p b) = COPY_BUF_SIZE" "?wo \<le> length src"
    using assms(1) by (simp_all add: pipe_ok_def Let_def)
  have "?got < 0 \<or> ?got = int (min ?len (length src - ?wo))" using assms(2) unfolding reads_complete_def by blast
  then have got: "?got < 0 \<or> ?got = int ?len" by (simp add: min.absorb1)
  show ?thesis
  proof (cases "pi_has_pending_write p")
    case False
    with assms(1) have i: "pi_inflight p = [ReadOp ?cur ?len ?wo]" "?wo = 0" "pi_dst p = []"
      by (simp_all add: pipe_ok_def Let_def)
    let ?b = "read_into src 0 ?got (pi_bufs p ?cur)"
    have k: "p' = p\<lparr>pi_inflight := [], pi_bufs := (pi_bufs p)(?cur := ?b)\<rparr>" "cq = [(TAG_READ, ?got)]"
      using assms(4) i(1) by (auto simp: kernel_round_def transferred_def i(2) Let_def split: if_splits)
    have "length ?b = COPY_BUF_SIZE \<and> take ?len ?b = take ?len src" if "\<not> ?got < 0"
      using that got p(1,2) i(2) take_read_into [of ?got "pi_bufs p ?cur" src 0] by simp
    with got p(2) k(1) i(2,3) have "arrived src p ?got p'" if "\<not> ?got < 0"
      using that unfolding arrived_def Let_def by simp
    with k False show ?thesis by simp
  next
    case True
    with assms(1) obtain n where i: "pi_inflight p = [ReadOp ?cur ?len ?wo, WriteOp (1 - ?cur) n (?wo - n)]"
      and n: "n \<le> ?wo" "n \<le> COPY_BUF_SIZE" "take n (pi_bufs p (1 - ?cur)) = take n (drop (?wo - n) src)"
        "pi_dst p = take (?wo - n) src"
      by (auto simp: pipe_ok_def Let_def)
    let ?put = "ke_write k i (?wo - n) n"
    let ?b = "read_into src ?wo ?got (pi_bufs p ?cur)"
    have other: "1 - ?cur \<noteq> ?cur" "1 - ?cur < 2" using p(1) by (auto simp: less_2_cases_iff)
    let ?p = "p\<lparr>pi_inflight := [], pi_bufs := (pi_bufs p)(?cur := ?b),
      pi_dst := write_from (pi_bufs p (1 - ?cur)) (?wo - n) ?put (pi_dst p)\<rparr>"
    have k: "p' = ?p" "cq = [(TAG_READ, ?got), (TAG_WRITE, ?put)] \<or> cq = [(TAG_WRITE, ?put), (TAG_READ, ?got)]"
      using assms(4) i other by (auto simp: kernel_round_def transferred_def Let_def split: if_splits)
    have put: "?put < 0 \<or> ?put = int n" using assms(3) unfolding writes_complete_def by blast
    have dst: "pi_dst ?p = take ?wo src" if "?put = int n"
    proof -
      have "write_from (pi_bufs p (1 - ?cur)) (?wo - n) (int n) (pi_dst p) = take (?wo - n) src @ take n (drop (?wo - n) src)"
        using n p(3) by (simp add: write_from_def)
      also have "\<dots> = take ?wo src" using n(1) by (simp flip: take_add)
      finally show ?thesis using that by simp
    qed
    have "length ?b = COPY_BUF_SIZE \<and> take ?len ?b = take ?len (drop ?wo src)" if "\<not> ?got < 0"
      using that got p(1,2) take_read_into [of ?got "pi_bufs p ?cur" src ?wo] by simp
    with got p(2) k(1) dst put have "arrived src p ?got p'" if "\<not> ?got < 0" "\<not> ?put < 0"
      using that unfolding arrived_def Let_def by simp
    with k(2) show ?thesis unfolding k(1) by (auto simp: True)
  qed
qed

text \<open>After a round with more to read the next one begins in order; after the last the write of the rest is in flight.\<close>

lemma pipeline_submit_more:
  assumes "pipe_ok src p" and "arrived src p bytes_read p'" and "bytes_read \<noteq> 0" and "\<not> pi_read_done p'"
  shows "pipe_ok src (pipeline_submit (length src) bytes_read p')"
    and "length src - pi_read_off (pipeline_submit (length src) bytes_read p') < length src - pi_read_off p'"
proof -
  let ?wo = "pi_write_off p" and ?len = "min (length src - pi_write_off p) COPY_BUF_SIZE"
  have p': "pi_cur p' = pi_cur p" "pi_write_off p' = ?wo" "pi_read_off p' = pi_read_off p" "pi_read_done p' = pi_read_done p"
    using assms(2) by (simp_all add: arrived_def Let_def)
  let ?q = "pipeline_submit (length src) bytes_read p'"
  from assms(1,4) p' have cur: "pi_cur p = 0 \<or> pi_cur p = 1" and off: "pi_read_off p = ?wo + ?len" "?wo + ?len < length src"
    by (auto simp: pipe_ok_def Let_def)
  from assms(2) have arr: "bytes_read = int ?len" "pi_dst p' = take ?wo src" "\<forall>b < 2. length (pi_bufs p' b) = COPY_BUF_SIZE"
    "take ?len (pi_bufs p' (pi_cur p)) = take ?len (drop ?wo src)"
    by (simp_all add: arrived_def Let_def)
  let ?next = "min (length src - (?wo + ?len)) COPY_BUF_SIZE"
  have q: "pi_cur ?q = 1 - pi_cur p" "pi_write_off ?q = ?wo + ?len" "pi_read_off ?q = ?wo + ?len + ?next"
    "pi_read_done ?q \<longleftrightarrow> length src \<le> ?wo + ?len + ?next" "pi_has_pending_write ?q" "pi_bufs ?q = pi_bufs p'"
    "pi_dst ?q = pi_dst p'" "pi_inflight ?q = [ReadOp (1 - pi_cur p) ?next (?wo + ?len), WriteOp (pi_cur p) ?len ?wo]"
    using cur assms(4) p' off(1) arr(1) by (auto simp: pipeline_submit_def submit_read_def Let_def)
  have "1 - (1 - pi_cur p) = pi_cur p" using cur by auto
  then show "pipe_ok src ?q"
    using cur off(2) arr(2-4) q(5) unfolding pipe_ok_def Let_def q(1-4,6-8) by (auto intro: exI [of _ ?len])
  show "length src - pi_read_off ?q < length src - pi_read_off p'"
    unfolding q p' off(1) using off(2) by (auto simp: COPY_BUF_SIZE_def min_def)
qed

lemma pipeline_submit_last:
  assumes "pipe_ok src p" and "arrived src p bytes_read p'" and "bytes_read \<noteq> 0" and "pi_read_done p'"
    and "writes_complete k" and "kernel_round k src i (pipeline_submit (length src) bytes_read p') = (p'', cq)"
  shows "case reap 1 cq 0 of Inl e \<Rightarrow> (\<exists>n t. e = SystemError n t)
     | Inr _ \<Rightarrow> pi_write_off p'' = length src \<and> pi_dst p'' = src"
proof -
  let ?wo = "pi_write_off p" and ?len = "length src - pi_write_off p"
  let ?buf = "pi_bufs p' (pi_cur p)" and ?put = "ke_write k i (pi_write_off p) (length src - pi_write_off p)"
  note a = assms(1,2) [unfolded pipe_ok_def arrived_def Let_def]
  have p': "pi_cur p' = pi_cur p" "pi_write_off p' = ?wo" "pi_read_off p' = pi_read_off p" "pi_read_done p' = pi_read_done p"
    using assms(2) by (simp_all add: arrived_def Let_def)
  have len: "bytes_read = int ?len" "?wo \<le> length src" "pi_dst p' = take ?wo src" "take ?len ?buf = drop ?wo src"
    using a assms(4) p' by (auto simp: min_def split: if_splits)
  have "pi_inflight (pipeline_submit (length src) bytes_read p') = [WriteOp (pi_cur p) ?len ?wo]"
    using assms(4) p' len(1) by (simp add: pipeline_submit_def Let_def)
  then have k: "pi_dst p'' = write_from ?buf ?wo ?put (pi_dst p')" "pi_write_off p'' = length src" "cq = [(TAG_WRITE, ?put)]"
    using assms(4,6) p' len(1,2) by (auto simp: kernel_round_def transferred_def pipeline_submit_def Let_def split: if_splits)
  have "?put < 0 \<or> ?put = int ?len" using assms(5) unfolding writes_complete_def by blast
  moreover have "write_from ?buf ?wo (int ?len) (take ?wo src) = src"
    using len(2,4) by (simp add: write_from_def del: of_nat_diff)
  ultimately show ?thesis using k len(3) by auto
qed

lemma pipeline_loop_correct:
  assumes "reads_complete src k" and "writes_complete k" and "pipe_ok src p" and "length src - pi_read_off p < fuel"
  shows "copied_or_failed src (pipeline_loop fuel k src i p)"
  using assms(3,4)
proof (induction fuel arbitrary: i p)
  case (Suc fuel)
  obtain p' cq where r: "kernel_round k src i p = (p', cq)" by fastforce
  note a = round_arrives [OF Suc.prems(1) assms(1,2) r]
  show ?case
  proof (cases "reap (1 + (if pi_has_pending_write p' then 1 else 0)) cq 0")
    case (Inl e)
    with a r show ?thesis by (auto simp: copied_or_failed_def)
  next
    case (Inr bytes_read)
    with a have arr: "arrived src p bytes_read p'" by simp
    then have same: "pi_read_off p' = pi_read_off p" "pi_dst p' = take (pi_write_off p) src" "pi_write_off p' = pi_write_off p"
      by (simp_all add: arrived_def Let_def)
    show ?thesis
    proof (cases "bytes_read = 0")
      case True
      with arr Suc.prems(1) have "length src \<le> pi_write_off p" "pi_write_off p \<le> length src"
        by (auto simp: arrived_def pipe_ok_def Let_def COPY_BUF_SIZE_def min_def split: if_splits)
      with r Inr True same show ?thesis by simp
    next
      case more: False
      let ?p = "pipeline_submit (length src) bytes_read p'"
      show ?thesis
      proof (cases "pi_read_done p'")
        case True
        obtain p'' cq' where r2: "kernel_round k src (Suc i) ?p = (p'', cq')" by fastforce
        from pipeline_submit_last [OF Suc.prems(1) arr more True assms(2) r2] r r2 Inr more True show ?thesis
          by (cases "reap 1 cq' 0") (auto simp: copied_or_failed_def)
      next
        case False
        note n = pipeline_submit_more [OF Suc.prems(1) arr more False]
        from n(2) Suc.prems(2) same have "length src - pi_read_off ?p < fuel" by simp
        from Suc.IH [OF n(1) this] r Inr more False show ?thesis by simp
      qed
    qed
  qed
qed simp

section \<open>What the programs promise\<close>

text \<open>
  The serial copies are right whenever every write is complete or fails, however short the reads are: each
  ends with the original, and reports its size, or with the error of a transfer. The first goes on after a short read with the
  bytes it got; in the second a short read cancels the write, so that the program fails. As many rounds as the
  file has bytes, and one, are enough.
\<close>

theorem serial_copies_correct:
  assumes "reads_ok src k" and "writes_complete k" and "length buf = COPY_BUF_SIZE" and "length src < fuel"
  shows "copied_or_failed src (file_copy fuel k src 0 0 buf []) \<and>
    copied_or_failed src (linked_copy k src 0 (length src) 0 buf [])"
proof
  show "copied_or_failed src (file_copy fuel k src 0 0 buf [])"
    by (rule file_copy_correct [OF assms(1,2)]) (use assms in simp_all)
  show "copied_or_failed src (linked_copy k src 0 (length src) 0 buf [])"
    by (rule linked_copy_correct [OF _ assms(2)]) (use assms in \<open>auto simp: reads_ok_def\<close>)
qed

text \<open>
  C15. The pipelined copy is right when every transfer is complete or fails, in whatever order the kernel
  completes a write and the read that runs beside it: it ends with the original, or with the error of a
  transfer, and never waits for a completion that does not come. No buffer is used by two transfers at once (\<open>pipe_ok\<close>, the invariant of its proof).
\<close>

theorem pipeline_copy_correct:
  assumes "reads_complete src k" and "writes_complete k" and "length src < fuel"
    and "\<And>b. b < 2 \<Longrightarrow> length (bufs b) = COPY_BUF_SIZE"
  shows "copied_or_failed src (pipeline_copy fuel k src bufs)"
  unfolding pipeline_copy_def
  by (rule pipeline_loop_correct [OF assms(1,2) pipeline_start_ok [OF assms(4)]]) (use assms(3) in auto)


text \<open>A kernel that completes every transfer, the writes first; one whose first read is short, and one whose writes are.\<close>

definition full_kernel :: "u8 list \<Rightarrow> kernel" where
  "full_kernel src = \<lparr>ke_read = (\<lambda>i off len. int (min len (length src - off))), ke_write = (\<lambda>i off len. int len),
     ke_write_first = (\<lambda>_. True)\<rparr>"

lemma full_kernel_complete:
  "reads_ok src (full_kernel src)" "reads_complete src (full_kernel src)" "writes_complete (full_kernel src)"
  by (simp_all add: full_kernel_def reads_ok_def reads_complete_def writes_complete_def)

theorem serial_copies_correct_witness:
  "copied_or_failed [1, 2, 3] (file_copy 4 (full_kernel [1, 2, 3]) [1, 2, 3] 0 0 (replicate COPY_BUF_SIZE 0) [])"
  by (rule conjunct1 [OF serial_copies_correct]) (simp_all add: full_kernel_complete)

theorem pipeline_copy_correct_witness:
  "copied_or_failed [1, 2, 3] (pipeline_copy 4 (full_kernel [1, 2, 3]) [1, 2, 3] (\<lambda>_. replicate COPY_BUF_SIZE 0))"
  by (rule pipeline_copy_correct) (simp_all add: full_kernel_complete)


end
