(* ===== verification/BufPool.thy ===== *)
theory BufPool
  imports UringEcho
begin

unbundle bit_operations_syntax

text \<open>
  The echo server with provided buffers (\<open>io_uring/10_provided_buffers.cpp\<close>): the pool of buffers and the ring
  that hands them to the kernel, the treatment of a completion, the event loop, and the kernel, which picks
  the buffer at the head of the ring when data arrives. The invariant says where every buffer of the
  pool is: in the ring, in a completion, or being sent, and in one place only.
\<close>

section \<open>The pool, the events and the requests\<close>

definition NUM_BUFS :: nat where "NUM_BUFS = 4096"
definition POOL_BUF_SIZE :: nat where "POOL_BUF_SIZE = 4096"
definition ENOBUFS :: int where "ENOBUFS = 105"
definition IORING_CQE_F_BUFFER :: u32 where "IORING_CQE_F_BUFFER = 1"
definition IORING_CQE_BUFFER_SHIFT :: nat where "IORING_CQE_BUFFER_SHIFT = 16"

text \<open>
  An event is the object that \<open>user_data\<close> points to: allocated with the request, owned by it, and freed when
  its completion has been treated, unless it goes on to another request. A \<open>SendEv\<close> has its buffer, length and offset.
\<close>

datatype Event = AcceptEv int | RecvEv int | SendEv int nat nat nat

datatype pool_io = PAccept int | PRecv int | PSend int nat nat

record pool_sqe =
  ps_io :: pool_io
  ps_data :: Event

record pool_cqe =
  pc_data :: Event
  pc_res :: int
  pc_flags :: u32

text \<open>An entry of the buffer ring: the place in the pool, the length and the identifier.\<close>

record ring_entry =
  re_addr :: nat
  re_len :: nat
  re_bid :: nat

record pool_server =
  bs_ring :: "ring_entry list"
  bs_clients :: "int set"
  bs_sq :: "pool_sqe list"

section \<open>The treatment of a completion\<close>

definition pool_entry :: "nat \<Rightarrow> ring_entry" where
  "pool_entry bid = \<lparr>re_addr = bid * POOL_BUF_SIZE, re_len = POOL_BUF_SIZE, re_bid = bid\<rparr>"

definition recycle_buf :: "nat \<Rightarrow> pool_server \<Rightarrow> pool_server" where
  "recycle_buf bid sv = sv\<lparr>bs_ring := bs_ring sv @ [pool_entry bid]\<rparr>"

definition pool_get_sqe :: "nat \<Rightarrow> pool_io \<Rightarrow> Event \<Rightarrow> pool_server \<Rightarrow> pool_server res" where
  "pool_get_sqe depth io ev sv =
     (if length (bs_sq sv) \<ge> depth then Inl (RuntimeError ''submission queue is full'')
      else Inr (sv\<lparr>bs_sq := bs_sq sv @ [\<lparr>ps_io = io, ps_data = ev\<rparr>]\<rparr>))"

definition queue_recv :: "nat \<Rightarrow> int \<Rightarrow> pool_server \<Rightarrow> pool_server res" where
  "queue_recv depth fd sv = pool_get_sqe depth (PRecv fd) (RecvEv fd) sv"

definition queue_send :: "nat \<Rightarrow> int \<Rightarrow> nat \<Rightarrow> nat \<Rightarrow> nat \<Rightarrow> pool_server \<Rightarrow> pool_server res" where
  "queue_send depth fd bid len offset sv =
     pool_get_sqe depth (PSend fd (bid * POOL_BUF_SIZE + offset) (len - offset)) (SendEv fd bid len offset) sv"

definition queue_accept :: "nat \<Rightarrow> int \<Rightarrow> pool_server \<Rightarrow> pool_server res" where
  "queue_accept depth listen_fd sv = pool_get_sqe depth (PAccept listen_fd) (AcceptEv listen_fd) sv"

text \<open>\<open>close(fd)\<close> and \<open>clients.erase(fd)\<close>; the closed descriptors are part of the result.\<close>

definition drop_client :: "int \<Rightarrow> pool_server \<Rightarrow> (pool_server \<times> int list) res" where
  "drop_client fd sv = Inr (sv\<lparr>bs_clients := bs_clients sv - {fd}\<rparr>, [fd])"

definition buffer_id :: "u32 \<Rightarrow> nat" where
  "buffer_id flags = unat (drop_bit IORING_CQE_BUFFER_SHIFT flags)"

definition pool_accepted :: "nat \<Rightarrow> int \<Rightarrow> int \<Rightarrow> pool_server \<Rightarrow> (pool_server \<times> int list) res" where
  "pool_accepted depth listen_fd res sv =
     bindR (if res \<ge> 0 then queue_recv depth res (sv\<lparr>bs_clients := insert res (bs_clients sv)\<rparr>) else Inr sv) (\<lambda>sv.
     bindR (queue_accept depth listen_fd sv) (\<lambda>sv. Inr (sv, [])))"

definition pool_received :: "nat \<Rightarrow> int \<Rightarrow> int \<Rightarrow> u32 \<Rightarrow> pool_server \<Rightarrow> (pool_server \<times> int list) res" where
  "pool_received depth fd res flags sv =
     (if res = - ENOBUFS then bindR (queue_recv depth fd sv) (\<lambda>sv. Inr (sv, []))
      else if res \<le> 0 then drop_client fd sv
      else if flags AND IORING_CQE_F_BUFFER = 0 then drop_client fd sv
      else bindR (queue_send depth fd (buffer_id flags) (nat res) 0 sv) (\<lambda>sv. Inr (sv, [])))"

definition pool_sent :: "nat \<Rightarrow> int \<Rightarrow> nat \<Rightarrow> nat \<Rightarrow> nat \<Rightarrow> int \<Rightarrow> pool_server \<Rightarrow> (pool_server \<times> int list) res" where
  "pool_sent depth fd bid len offset res sv =
     (if res \<le> 0 then drop_client fd (recycle_buf bid sv)
      else let offset = offset + nat res in
        if offset < len then bindR (queue_send depth fd bid len offset sv) (\<lambda>sv. Inr (sv, []))
        else let sv = recycle_buf bid sv in
          bindR (if fd \<in> bs_clients sv then queue_recv depth fd sv else Inr sv) (\<lambda>sv. Inr (sv, [])))"

definition pool_handle :: "nat \<Rightarrow> int \<Rightarrow> pool_cqe \<Rightarrow> pool_server \<Rightarrow> (pool_server \<times> int list) res" where
  "pool_handle depth listen_fd e sv =
     (case pc_data e of
        AcceptEv _ \<Rightarrow> pool_accepted depth listen_fd (pc_res e) sv
      | RecvEv fd \<Rightarrow> pool_received depth fd (pc_res e) (pc_flags e) sv
      | SendEv fd bid len offset \<Rightarrow> pool_sent depth fd bid len offset (pc_res e) sv)"

section \<open>The server and the kernel\<close>

record pool_sys =
  py_server :: pool_server
  py_inflight :: "pool_sqe multiset"
  py_cq :: "pool_cqe list"
  py_conns :: "int \<Rightarrow> conn option"
  py_mem :: "u8 list"
  py_ready :: nat

text \<open>All buffers are in the ring at the start; the mapping is zeroed.\<close>

definition pool_start :: "int \<Rightarrow> pool_sys" where
  "pool_start listen_fd =
     \<lparr>py_server = \<lparr>bs_ring = map pool_entry [0..<NUM_BUFS], bs_clients = {},
        bs_sq = [\<lparr>ps_io = PAccept listen_fd, ps_data = AcceptEv listen_fd\<rparr>]\<rparr>,
      py_inflight = {#}, py_cq = [], py_conns = (\<lambda>_. None), py_mem = replicate (NUM_BUFS * POOL_BUF_SIZE) 0, py_ready = 0\<rparr>"

definition pool_completed :: "pool_sqe \<Rightarrow> int \<Rightarrow> u32 \<Rightarrow> pool_sys \<Rightarrow> pool_sys" where
  "pool_completed s res flags y =
     y\<lparr>py_inflight := py_inflight y - {#s#},
       py_cq := py_cq y @ [\<lparr>pc_data = ps_data s, pc_res = res, pc_flags = flags\<rparr>]\<rparr>"

text \<open>The flags of a completion that carries a buffer.\<close>

definition buffer_flags :: "nat \<Rightarrow> u32" where
  "buffer_flags bid = push_bit IORING_CQE_BUFFER_SHIFT (of_nat bid) OR IORING_CQE_F_BUFFER"

text \<open>
  The kernel takes the buffer at the head of the ring only for data it received; a receive that fails, that
  finds the ring empty (\<open>ENOBUFS\<close>) or the end of the stream takes none.
\<close>

inductive pool_kernel_step :: "pool_sys \<Rightarrow> pool_sys \<Rightarrow> bool" where
  p_accepted: "s \<in># py_inflight y \<Longrightarrow> ps_io s = PAccept l \<Longrightarrow> is_fd fd \<Longrightarrow> py_conns y fd = None \<Longrightarrow>
    pool_kernel_step y ((pool_completed s fd 0 y)\<lparr>py_conns := (py_conns y)(fd \<mapsto> \<lparr>cn_in = [], cn_out = []\<rparr>)\<rparr>)"
| p_accept_failed: "s \<in># py_inflight y \<Longrightarrow> ps_io s = PAccept l \<Longrightarrow> res < 0 \<Longrightarrow> pool_kernel_step y (pool_completed s res 0 y)"
| p_recv_some: "s \<in># py_inflight y \<Longrightarrow> ps_io s = PRecv fd \<Longrightarrow> py_conns y fd = Some cn \<Longrightarrow>
    bs_ring (py_server y) = r # rs \<Longrightarrow> bs \<noteq> [] \<Longrightarrow> length bs \<le> re_len r \<Longrightarrow>
    pool_kernel_step y ((pool_completed s (int (length bs)) (buffer_flags (re_bid r)) y)
      \<lparr>py_server := (py_server y)\<lparr>bs_ring := rs\<rparr>, py_mem := overwrite (re_addr r) bs (py_mem y),
       py_conns := (py_conns y)(fd \<mapsto> cn\<lparr>cn_in := cn_in cn @ bs\<rparr>)\<rparr>)"
| p_recv_none: "s \<in># py_inflight y \<Longrightarrow> ps_io s = PRecv fd \<Longrightarrow> res \<le> 0 \<Longrightarrow> pool_kernel_step y (pool_completed s res 0 y)"
| p_send_some: "s \<in># py_inflight y \<Longrightarrow> ps_io s = PSend fd addr len \<Longrightarrow> py_conns y fd = Some cn \<Longrightarrow> 0 < n \<Longrightarrow> n \<le> len \<Longrightarrow>
    pool_kernel_step y ((pool_completed s (int n) 0 y)
      \<lparr>py_conns := (py_conns y)(fd \<mapsto> cn\<lparr>cn_out := cn_out cn @ segment addr n (py_mem y)\<rparr>)\<rparr>)"
| p_send_none: "s \<in># py_inflight y \<Longrightarrow> ps_io s = PSend fd addr len \<Longrightarrow> res \<le> 0 \<Longrightarrow> pool_kernel_step y (pool_completed s res 0 y)"

inductive pool_loop_step :: "nat \<Rightarrow> int \<Rightarrow> pool_sys \<Rightarrow> pool_sys \<Rightarrow> bool" for depth listen_fd where
  p_submit: "py_ready y = 0 \<Longrightarrow>
    pool_loop_step depth listen_fd y
      (y\<lparr>py_inflight := py_inflight y + mset (bs_sq (py_server y)), py_server := (py_server y)\<lparr>bs_sq := []\<rparr>\<rparr>)"
| p_wake: "py_ready y = 0 \<Longrightarrow> bs_sq (py_server y) = [] \<Longrightarrow> py_cq y \<noteq> [] \<Longrightarrow>
    pool_loop_step depth listen_fd y (y\<lparr>py_ready := length (py_cq y)\<rparr>)"
| p_treat: "py_ready y = Suc n \<Longrightarrow> py_cq y = e # es \<Longrightarrow> pool_handle depth listen_fd e (py_server y) = Inr (sv, fds) \<Longrightarrow>
    pool_loop_step depth listen_fd y (y\<lparr>py_server := sv, py_cq := es, py_conns := close_all fds (py_conns y), py_ready := n\<rparr>)"

inductive pool_run :: "nat \<Rightarrow> int \<Rightarrow> pool_sys \<Rightarrow> bool" for depth listen_fd where
  p_start: "pool_run depth listen_fd (pool_start listen_fd)"
| p_kernel: "pool_run depth listen_fd y \<Longrightarrow> pool_kernel_step y y' \<Longrightarrow> pool_run depth listen_fd y'"
| p_loop: "pool_run depth listen_fd y \<Longrightarrow> pool_loop_step depth listen_fd y y' \<Longrightarrow> pool_run depth listen_fd y'"

section \<open>One operation for each connection, one place for each buffer\<close>

text \<open>Requests and completions together, each with its event.\<close>

datatype answer = Asked pool_io | Answered int u32

datatype pool_token = Tok Event answer

definition sqe_token :: "pool_sqe \<Rightarrow> pool_token" where
  "sqe_token s = Tok (ps_data s) (Asked (ps_io s))"

definition cqe_token :: "pool_cqe \<Rightarrow> pool_token" where
  "cqe_token e = Tok (pc_data e) (Answered (pc_res e) (pc_flags e))"

definition pool_tokens :: "pool_sys \<Rightarrow> pool_token multiset" where
  "pool_tokens y = image_mset sqe_token (mset (bs_sq (py_server y)) + py_inflight y) + image_mset cqe_token (mset (py_cq y))"

text \<open>The buffers an operation has taken out of the ring.\<close>

fun takes :: "pool_token \<Rightarrow> nat list" where
  "takes (Tok (AcceptEv _) _) = []"
| "takes (Tok (RecvEv _) (Asked _)) = []"
| "takes (Tok (RecvEv _) (Answered res flags)) = (if res > 0 then [buffer_id flags] else [])"
| "takes (Tok (SendEv _ bid _ _) _) = [bid]"

definition taken :: "pool_token multiset \<Rightarrow> nat multiset" where
  "taken T = \<Sum>\<^sub># (image_mset (\<lambda>t. mset (takes t)) T)"

lemma taken_simps [simp]:
  "taken {#} = {#}" "taken (add_mset t T) = mset (takes t) + taken T" "taken (T + U) = taken T + taken U"
  by (simp_all add: taken_def)

definition buffer_at :: "u8 list \<Rightarrow> nat \<Rightarrow> u8 list" where
  "buffer_at mem bid = segment (bid * POOL_BUF_SIZE) POOL_BUF_SIZE mem"

fun is_accept :: "pool_token \<Rightarrow> bool" where
  "is_accept (Tok (AcceptEv _) _) = True"
| "is_accept _ = False"

fun token_of :: "int \<Rightarrow> pool_token \<Rightarrow> bool" where
  "token_of fd (Tok (AcceptEv _) _) = False"
| "token_of fd (Tok (RecvEv fd') _) = (fd' = fd)"
| "token_of fd (Tok (SendEv fd' _ _ _) _) = (fd' = fd)"

text \<open>
  An operation of a connection, given the contents of the buffers. A receive asks for anything, after everything
  received has been sent; its completion has a buffer with what came. A send asks for the rest of its buffer, and what was
  received is what was sent and this rest.
\<close>

fun token_ok :: "(nat \<Rightarrow> u8 list) \<Rightarrow> int \<Rightarrow> conn \<Rightarrow> pool_token \<Rightarrow> bool" where
  "token_ok buf fd cn (Tok (AcceptEv _) _) = False"
| "token_ok buf fd cn (Tok (RecvEv fd') (Asked io)) \<longleftrightarrow> fd' = fd \<and> io = PRecv fd \<and> cn_in cn = cn_out cn"
| "token_ok buf fd cn (Tok (RecvEv fd') (Answered res flags)) \<longleftrightarrow> fd' = fd \<and>
     (if res \<le> 0 then cn_in cn = cn_out cn
      else flags AND IORING_CQE_F_BUFFER \<noteq> 0 \<and> res \<le> int POOL_BUF_SIZE \<and>
        cn_in cn = cn_out cn @ take (nat res) (buf (buffer_id flags)))"
| "token_ok buf fd cn (Tok (SendEv fd' bid len off) (Asked io)) \<longleftrightarrow> fd' = fd \<and> off < len \<and> len \<le> POOL_BUF_SIZE \<and>
     io = PSend fd (bid * POOL_BUF_SIZE + off) (len - off) \<and> cn_in cn = cn_out cn @ segment off (len - off) (buf bid)"
| "token_ok buf fd cn (Tok (SendEv fd' bid len off) (Answered res flags)) \<longleftrightarrow> fd' = fd \<and> off < len \<and> len \<le> POOL_BUF_SIZE \<and>
     (if res \<le> 0 then cn_in cn = cn_out cn @ segment off (len - off) (buf bid)
      else nat res \<le> len - off \<and> cn_in cn = cn_out cn @ segment (off + nat res) (len - off - nat res) (buf bid))"

fun accept_token_ok :: "int \<Rightarrow> int set \<Rightarrow> (int \<Rightarrow> conn option) \<Rightarrow> pool_token \<Rightarrow> bool" where
  "accept_token_ok l cls cns (Tok (AcceptEv l') (Asked io)) \<longleftrightarrow> io = PAccept l"
| "accept_token_ok l cls cns (Tok (AcceptEv l') (Answered res flags)) \<longleftrightarrow>
     (0 \<le> res \<longrightarrow> is_fd res \<and> res \<notin> cls \<and> cns res = Some \<lparr>cn_in = [], cn_out = []\<rparr>)"
| "accept_token_ok l cls cns _ \<longleftrightarrow> False"

definition fd_ok :: "int set \<Rightarrow> (int \<Rightarrow> conn option) \<Rightarrow> u8 list \<Rightarrow> pool_token multiset \<Rightarrow> int \<Rightarrow> bool" where
  "fd_ok cls cns mem T fd \<longleftrightarrow>
     (if fd \<in> cls
      then \<exists>t cn. filter_mset (token_of fd) T = {#t#} \<and> cns fd = Some cn \<and> token_ok (buffer_at mem) fd cn t
      else filter_mset (token_of fd) T = {#} \<and> (cns fd = None \<or> cns fd = Some \<lparr>cn_in = [], cn_out = []\<rparr>))"

text \<open>Every buffer of the pool is in the ring or taken, once.\<close>

definition pool_ok :: "ring_entry list \<Rightarrow> pool_token multiset \<Rightarrow> bool" where
  "pool_ok ring T \<longleftrightarrow> (\<exists>bids. ring = map pool_entry bids \<and> mset bids + taken T = mset [0..<NUM_BUFS])"

definition pool_consistent ::
  "int \<Rightarrow> int set \<Rightarrow> (int \<Rightarrow> conn option) \<Rightarrow> ring_entry list \<Rightarrow> u8 list \<Rightarrow> pool_token multiset \<Rightarrow> bool" where
  "pool_consistent l cls cns ring mem T \<longleftrightarrow>
     (\<exists>t. filter_mset is_accept T = {#t#} \<and> accept_token_ok l cls cns t) \<and>
     (\<forall>fd. fd_ok cls cns mem T fd) \<and> pool_ok ring T \<and> length mem = NUM_BUFS * POOL_BUF_SIZE"

lemma token_of_unique: "token_of fd t \<Longrightarrow> token_of fd' t \<longleftrightarrow> fd' = fd" "token_of fd t \<Longrightarrow> \<not> is_accept t"
  "is_accept t \<Longrightarrow> \<not> token_of fd t"
  by (cases "(fd, t)" rule: token_of.cases; auto)+

lemma token_ok_of: "token_ok buf fd cn t \<Longrightarrow> token_of fd t"
  by (cases "(buf, fd, cn, t)" rule: token_ok.cases) auto

lemma token_ok_cong:
  "(\<And>bid. bid \<in> set (takes t) \<Longrightarrow> buf' bid = buf bid) \<Longrightarrow> token_ok buf' fd cn t \<longleftrightarrow> token_ok buf fd cn t"
  by (cases "(buf, fd, cn, t)" rule: token_ok.cases) auto

lemma accept_token_kind: "accept_token_ok l cls cns t \<Longrightarrow> is_accept t"
  by (cases t rule: is_accept.cases) auto

text \<open>The operation of a client, and of the others.\<close>

lemma pool_client_token:
  assumes "pool_consistent l cls cns ring mem (add_mset a T)" and "token_of fd a"
  obtains cn where "fd \<in> cls" and "cns fd = Some cn" and "token_ok (buffer_at mem) fd cn a" and "filter_mset (token_of fd) T = {#}"
proof -
  from assms(1) have "fd_ok cls cns mem (add_mset a T) fd" by (simp add: pool_consistent_def)
  with assms(2) that show thesis by (auto simp: fd_ok_def split: if_splits)
qed

lemma fd_ok_other: "\<not> token_of fd a \<Longrightarrow> fd_ok cls cns mem (add_mset a T) fd \<longleftrightarrow> fd_ok cls cns mem T fd"
  by (simp add: fd_ok_def)

lemma pool_other_tokens:
  "pool_consistent l cls cns ring mem (add_mset a T) \<Longrightarrow> \<not> token_of fd a \<Longrightarrow> fd_ok cls cns mem T fd"
  unfolding pool_consistent_def using fd_ok_other by blast

lemma fd_ok_keep:
  assumes "fd_ok cls cns mem T fd" and "\<And>t bid. t \<in># T \<Longrightarrow> bid \<in> set (takes t) \<Longrightarrow> buffer_at mem' bid = buffer_at mem bid"
    and "fd \<in> cls' \<longleftrightarrow> fd \<in> cls" and "cns' fd = cns fd"
  shows "fd_ok cls' cns' mem' T fd"
proof (cases "fd \<in> cls")
  case True
  with assms(1) obtain t cn where t: "filter_mset (token_of fd) T = {#t#}" "cns fd = Some cn" "token_ok (buffer_at mem) fd cn t"
    by (auto simp: fd_ok_def)
  from t(1) have "t \<in># filter_mset (token_of fd) T" by simp
  then have "t \<in># T" by simp
  from token_ok_cong [of t "buffer_at mem'" "buffer_at mem" fd cn, OF assms(2) [OF this]] t(3)
  have "token_ok (buffer_at mem') fd cn t" by simp
  with t assms(3,4) True show ?thesis by (simp add: fd_ok_def)
qed (use assms in \<open>simp add: fd_ok_def\<close>)

text \<open>A client goes on to its next operation, or is closed.\<close>

lemma pool_client_next:
  assumes c: "pool_consistent l cls cns ring mem (add_mset a T)" and a: "token_of fd a"
    and b: "token_ok (buffer_at mem') fd cn' b" and p: "pool_ok ring' (add_mset b T)"
    and keep: "\<And>t bid. t \<in># T \<Longrightarrow> bid \<in> set (takes t) \<Longrightarrow> buffer_at mem' bid = buffer_at mem bid"
    and len: "length mem' = length mem"
  shows "pool_consistent l cls (cns(fd \<mapsto> cn')) ring' mem' (add_mset b T)"
proof -
  obtain cn where fd: "fd \<in> cls" "cns fd = Some cn" "filter_mset (token_of fd) T = {#}"
    using pool_client_token [OF c a] by metis
  note ua = token_of_unique(1,2) [OF a] and ub = token_of_unique(1,2) [OF token_ok_of [OF b]]
  from c ua obtain t where t: "filter_mset is_accept T = {#t#}" "accept_token_ok l cls cns t"
    by (auto simp: pool_consistent_def)
  have "accept_token_ok l cls (cns(fd \<mapsto> cn')) t"
    using t(2) fd(1) by (cases "(l, cls, cns, t)" rule: accept_token_ok.cases) auto
  moreover have "fd_ok cls (cns(fd \<mapsto> cn')) mem' (add_mset b T) fd'" for fd'
  proof (cases "fd' = fd")
    case True
    with fd b ub show ?thesis by (simp add: fd_ok_def)
  next
    case False
    with ua pool_other_tokens [OF c] have "fd_ok cls cns mem T fd'" by simp
    then have "fd_ok cls (cns(fd \<mapsto> cn')) mem' T fd'" by (rule fd_ok_keep) (use keep False in auto)
    with False ub show ?thesis by (simp add: fd_ok_other)
  qed
  ultimately show ?thesis using c t(1) ub p len by (simp add: pool_consistent_def)
qed

lemma pool_client_closed:
  assumes c: "pool_consistent l cls cns ring mem (add_mset a T)" and a: "token_of fd a" and p: "pool_ok ring' T"
  shows "pool_consistent l (cls - {fd}) (cns(fd := None)) ring' mem T"
proof -
  obtain cn where fd: "fd \<in> cls" "cns fd = Some cn" "filter_mset (token_of fd) T = {#}"
    using pool_client_token [OF c a] by metis
  note ua = token_of_unique(1,2) [OF a]
  from c ua obtain t where t: "filter_mset is_accept T = {#t#}" "accept_token_ok l cls cns t"
    by (auto simp: pool_consistent_def)
  have "accept_token_ok l (cls - {fd}) (cns(fd := None)) t"
    using t(2) fd(1) by (cases "(l, cls, cns, t)" rule: accept_token_ok.cases) auto
  moreover have "fd_ok (cls - {fd}) (cns(fd := None)) mem T fd'" for fd'
  proof (cases "fd' = fd")
    case True
    with fd show ?thesis by (simp add: fd_ok_def)
  next
    case False
    with ua pool_other_tokens [OF c] have "fd_ok cls cns mem T fd'" by simp
    then show ?thesis by (rule fd_ok_keep) (use False in auto)
  qed
  ultimately show ?thesis using c t(1) p by (simp add: pool_consistent_def)
qed

text \<open>The accept operation goes on, perhaps with a new connection, which gets its client when it is treated.\<close>

lemma pool_accept_token:
  assumes "pool_consistent l cls cns ring mem (add_mset a T)" and "is_accept a"
  shows "accept_token_ok l cls cns a" and "filter_mset is_accept T = {#}"
  using assms by (auto simp: pool_consistent_def)

lemma takes_accept [simp]: "is_accept t \<Longrightarrow> takes t = []"
  by (cases t rule: is_accept.cases) simp_all

lemma pool_accept_next:
  assumes c: "pool_consistent l cls cns ring mem (add_mset a T)" and a: "is_accept a"
    and new: "cns' = cns \<or> (\<exists>fd. cns fd = None \<and> cns' = cns(fd \<mapsto> \<lparr>cn_in = [], cn_out = []\<rparr>))"
    and ok: "accept_token_ok l cls cns' b"
  shows "pool_consistent l cls cns' ring mem (add_mset b T)"
proof -
  note b = accept_token_kind [OF ok]
  note ab = pool_accept_token [OF c a] token_of_unique(3) [OF a] token_of_unique(3) [OF b]
  have "fd_ok cls cns' mem (add_mset b T) fd" for fd
  proof -
    note old = pool_other_tokens [OF c ab(3), of fd]
    with new show ?thesis by (auto simp: fd_ok_def ab(4) split: if_splits)
  qed
  with c ab a b ok show ?thesis by (simp add: pool_consistent_def pool_ok_def)
qed

lemma pool_new_client:
  assumes c: "pool_consistent l cls cns ring mem (add_mset a T)" and a: "is_accept a"
    and fd: "fd \<notin> cls" "cns fd = Some \<lparr>cn_in = [], cn_out = []\<rparr>"
    and ok: "accept_token_ok l (insert fd cls) cns b"
  shows "pool_consistent l (insert fd cls) cns ring mem (add_mset b (add_mset (Tok (RecvEv fd) (Asked (PRecv fd))) T))"
    (is "pool_consistent _ _ _ _ _ (add_mset b (add_mset ?r T))")
proof -
  note b = accept_token_kind [OF ok]
  note ab = pool_accept_token [OF c a] token_of_unique(3) [OF a] token_of_unique(3) [OF b]
  have "fd_ok (insert fd cls) cns mem (add_mset b (add_mset ?r T)) fd'" for fd'
  proof -
    note old = pool_other_tokens [OF c ab(3), of fd']
    with fd show ?thesis by (cases "fd' = fd") (auto simp: fd_ok_def ab(4) split: if_splits)
  qed
  with c ab a b ok show ?thesis by (simp add: pool_consistent_def pool_ok_def)
qed

lemma pool_token_cases:
  assumes "pool_consistent l cls cns ring mem (add_mset a T)"
  obtains (accept) "is_accept a" "accept_token_ok l cls cns a"
    | (client) fd cn where "token_of fd a" "fd \<in> cls" "cns fd = Some cn" "token_ok (buffer_at mem) fd cn a"
proof (cases "is_accept a")
  case True
  then show thesis using accept pool_accept_token [OF assms] by blast
next
  case False
  then obtain fd where "token_of fd a" by (cases a rule: is_accept.cases) auto
  then show thesis using client pool_client_token [OF assms] by metis
qed

section \<open>The buffers\<close>

text \<open>A buffer that is in the ring has not been taken, and no buffer is taken twice.\<close>

lemma pool_ok_entries:
  assumes "pool_ok ring T"
  obtains bids where "ring = map pool_entry bids" and "mset bids + taken T = mset [0..<NUM_BUFS]"
    and "\<And>bid. bid \<in> set bids \<or> bid \<in># taken T \<Longrightarrow> bid < NUM_BUFS"
    and "distinct bids" and "\<And>bid. bid \<in># taken T \<Longrightarrow> bid \<notin> set bids"
proof -
  from assms obtain bids where b: "ring = map pool_entry bids" "mset bids + taken T = mset [0..<NUM_BUFS]"
    by (auto simp: pool_ok_def)
  have le: "count (mset bids) x + count (taken T) x \<le> 1" for x
  proof -
    have "count (mset bids + taken T) x = count (mset [0..<NUM_BUFS]) x" by (simp only: b(2))
    then show ?thesis by (simp add: count_mset_set')
  qed
  have pos: "x \<in> set bids \<longleftrightarrow> 0 < count (mset bids) x" "x \<in># taken T \<longleftrightarrow> 0 < count (taken T) x" for x
    by simp_all
  have "bid < NUM_BUFS" if "bid \<in> set bids \<or> bid \<in># taken T" for bid
  proof -
    from that have "bid \<in># mset bids + taken T" by auto
    then show ?thesis unfolding b(2) by simp
  qed
  moreover have "distinct bids"
    unfolding distinct_count_atmost_1
  proof
    fix x show "count (mset bids) x = (if x \<in> set bids then 1 else 0)"
    proof (cases "x \<in> set bids")
      case True
      then have "count (mset bids) x = 1" using le [of x] pos(1) [of x] by linarith
      with True show ?thesis by (simp only: if_True)
    next
      case False
      then have "count (mset bids) x = 0" using pos(1) [of x] by linarith
      with False show ?thesis by (simp only: if_False)
    qed
  qed
  moreover have "bid \<notin> set bids" if "bid \<in># taken T" for bid
    using le [of bid] pos [of bid] that by linarith
  ultimately show thesis using that b by blast
qed


lemma buffer_flags_id:
  assumes "bid < NUM_BUFS"
  shows "buffer_id (buffer_flags bid) = bid" and "buffer_flags bid AND IORING_CQE_F_BUFFER \<noteq> 0"
proof -
  have "buffer_flags bid = 1 OR push_bit 16 (of_nat bid)"
    by (simp add: buffer_flags_def IORING_CQE_BUFFER_SHIFT_def IORING_CQE_F_BUFFER_def or.commute)
  also have "\<dots> = of_nat (bid * 65536 + 1)"
    by (subst or_push_bit_add) (simp_all add: push_bit_eq_mult mult.commute)
  finally have eq: "buffer_flags bid = of_nat (bid * 65536 + 1)" .
  then have "unat (buffer_flags bid) = bid * 65536 + 1"
    using assms by (simp only: eq) (rule unat_of_nat_small, simp add: NUM_BUFS_def)
  then show "buffer_id (buffer_flags bid) = bid"
    unfolding buffer_id_def IORING_CQE_BUFFER_SHIFT_def unat_drop_bit_eq by (simp add: drop_bit_eq_div)
  have "buffer_flags bid AND IORING_CQE_F_BUFFER = (push_bit 16 (of_nat bid) AND 1) OR 1"
    by (simp add: buffer_flags_def IORING_CQE_BUFFER_SHIFT_def IORING_CQE_F_BUFFER_def bit.conj_disj_distrib2)
  then show "buffer_flags bid AND IORING_CQE_F_BUFFER \<noteq> 0" by (simp only: or_eq_0_iff) simp
qed

text \<open>A store into one buffer leaves the others as they are.\<close>

lemma buffer_after_store:
  assumes "length mem = NUM_BUFS * POOL_BUF_SIZE" and "b < NUM_BUFS" and "length bs \<le> POOL_BUF_SIZE"
  shows "take (length bs) (buffer_at (overwrite (b * POOL_BUF_SIZE) bs mem) b) = bs"
    and "bid < NUM_BUFS \<Longrightarrow> bid \<noteq> b \<Longrightarrow> buffer_at (overwrite (b * POOL_BUF_SIZE) bs mem) bid = buffer_at mem bid"
    and "length (overwrite (b * POOL_BUF_SIZE) bs mem) = length mem"
proof -
  have room: "(x + 1) * POOL_BUF_SIZE \<le> length mem" if "x < NUM_BUFS" for x
    unfolding assms(1) using that by (intro mult_le_mono1) simp
  from room [OF assms(2)] assms(3) have fit: "b * POOL_BUF_SIZE + length bs \<le> length mem" by simp
  then show "length (overwrite (b * POOL_BUF_SIZE) bs mem) = length mem" by simp
  show "take (length bs) (buffer_at (overwrite (b * POOL_BUF_SIZE) bs mem) b) = bs"
    using segment_overwrite_same [OF fit] assms(3) by (simp add: buffer_at_def segment_def min.absorb1)
  assume bid: "bid < NUM_BUFS" "bid \<noteq> b"
  have "(x + 1) * POOL_BUF_SIZE \<le> y * POOL_BUF_SIZE" if "x < y" for x y
    using that by (intro mult_le_mono1) simp
  then have "bid * POOL_BUF_SIZE + POOL_BUF_SIZE \<le> b * POOL_BUF_SIZE \<or> b * POOL_BUF_SIZE + length bs \<le> bid * POOL_BUF_SIZE"
    using bid(2) assms(3) by (metis add.commute add_le_mono1 linorder_neqE_nat le_trans mult_Suc add_mono order_refl Suc_eq_plus1)
  then show "buffer_at (overwrite (b * POOL_BUF_SIZE) bs mem) bid = buffer_at mem bid"
    unfolding buffer_at_def using fit room [OF bid(1)] by (intro segment_overwrite_other) simp_all
qed


lemma segment_buffer:
  "off + n \<le> POOL_BUF_SIZE \<Longrightarrow> segment (bid * POOL_BUF_SIZE + off) n mem = segment off n (buffer_at mem bid)"
  by (simp add: buffer_at_def segment_def drop_take take_take min.absorb1 add.commute)

lemma takes_taken: "t \<in># T \<Longrightarrow> bid \<in> set (takes t) \<Longrightarrow> bid \<in># taken T"
  by (auto simp: dest!: multi_member_split)

section \<open>The kernel keeps the invariant\<close>

definition pool_inv :: "int \<Rightarrow> pool_sys \<Rightarrow> bool" where
  "pool_inv l y \<longleftrightarrow>
     pool_consistent l (bs_clients (py_server y)) (py_conns y) (bs_ring (py_server y)) (py_mem y) (pool_tokens y) \<and>
     py_ready y \<le> length (py_cq y)"

lemma pool_completed_simps [simp]:
  "py_server (pool_completed s res flags y) = py_server y" "py_conns (pool_completed s res flags y) = py_conns y"
  "py_mem (pool_completed s res flags y) = py_mem y" "py_ready (pool_completed s res flags y) = py_ready y"
  by (simp_all add: pool_completed_def)

text \<open>The completion of a request replaces its token.\<close>

lemma pool_in_flight:
  assumes "pool_inv l y" and "s \<in># py_inflight y"
  obtains T where
    "pool_consistent l (bs_clients (py_server y)) (py_conns y) (bs_ring (py_server y)) (py_mem y) (add_mset (Tok (ps_data s) (Asked (ps_io s))) T)"
    and "\<And>res flags y'. pool_consistent l (bs_clients (py_server y')) (py_conns y') (bs_ring (py_server y')) (py_mem y')
        (add_mset (Tok (ps_data s) (Answered res flags)) T) \<Longrightarrow>
      bs_sq (py_server y') = bs_sq (py_server y) \<Longrightarrow> py_inflight y' = py_inflight (pool_completed s res flags y) \<Longrightarrow>
      py_cq y' = py_cq (pool_completed s res flags y) \<Longrightarrow> py_ready y' = py_ready y \<Longrightarrow> pool_inv l y'"
proof -
  from assms(2) obtain M where M: "py_inflight y = add_mset s M" by (auto dest: multi_member_split)
  let ?T = "image_mset sqe_token (mset (bs_sq (py_server y)) + M) + image_mset cqe_token (mset (py_cq y))"
  have "pool_tokens y = add_mset (Tok (ps_data s) (Asked (ps_io s))) ?T" by (simp add: pool_tokens_def M sqe_token_def)
  with assms(1) show thesis
    by (intro that [of ?T]) (simp_all add: pool_inv_def pool_tokens_def pool_completed_def cqe_token_def M)
qed

text \<open>What a request says about its connection.\<close>

lemma pool_request_accept:
  assumes "pool_consistent l cls cns ring mem (add_mset (Tok ev (Asked (PAccept l'))) T)"
  shows "is_accept (Tok ev (Asked (PAccept l')))"
proof (cases rule: pool_token_cases [OF assms])
  case (2 fd cn)
  then show ?thesis by (cases ev) auto
qed

lemma pool_request_recv:
  assumes "pool_consistent l cls cns ring mem (add_mset (Tok ev (Asked (PRecv fd))) T)"
  obtains cn where "ev = RecvEv fd" and "fd \<in> cls" and "cns fd = Some cn" and "cn_in cn = cn_out cn"
proof (cases rule: pool_token_cases [OF assms])
  case 1
  then show thesis by (cases ev) auto
next
  case (2 fd' cn)
  then show thesis using that by (cases ev) auto
qed

lemma pool_request_send:
  assumes "pool_consistent l cls cns ring mem (add_mset (Tok ev (Asked (PSend fd addr len))) T)"
  obtains cn bid total off where "ev = SendEv fd bid total off" and "fd \<in> cls" and "cns fd = Some cn"
    and "addr = bid * POOL_BUF_SIZE + off" and "len = total - off" and "off < total" and "total \<le> POOL_BUF_SIZE"
    and "cn_in cn = cn_out cn @ segment off len (buffer_at mem bid)"
proof (cases rule: pool_token_cases [OF assms])
  case 1
  then show thesis by (cases ev) auto
next
  case (2 fd' cn)
  then show thesis using that by (cases ev) auto
qed

lemma pool_kernel_step_inv:
  assumes "pool_kernel_step y y'" and inv: "pool_inv l y"
  shows "pool_inv l y'"
  using assms(1)
proof cases
  case (p_accepted s l' fd)
  show ?thesis
  proof (rule pool_in_flight [OF inv p_accepted(2)], goal_cases)
    case (1 T)
    note a = pool_request_accept [OF 1(1) [unfolded p_accepted(3)]]
    have "fd_ok (bs_clients (py_server y)) (py_conns y) (py_mem y) (pool_tokens y) fd"
      using inv by (simp add: pool_inv_def pool_consistent_def)
    with p_accepted(5) have none: "fd \<notin> bs_clients (py_server y)" by (auto simp: fd_ok_def split: if_splits)
    from a have "accept_token_ok l (bs_clients (py_server y)) ((py_conns y)(fd \<mapsto> \<lparr>cn_in = [], cn_out = []\<rparr>))
        (Tok (ps_data s) (Answered fd 0))"
      using p_accepted(4) none by (cases "ps_data s") auto
    from pool_accept_next [OF 1(1) [unfolded p_accepted(3)] a disjI2 [OF exI [of _ fd]] this] p_accepted(5)
    show ?case by (intro 1(2) [where res = fd and flags = 0]) (simp_all add: p_accepted(1) pool_completed_def)
  qed
next
  case (p_accept_failed s l' res)
  show ?thesis
  proof (rule pool_in_flight [OF inv p_accept_failed(2)], goal_cases)
    case (1 T)
    note a = pool_request_accept [OF 1(1) [unfolded p_accept_failed(3)]]
    from a have "accept_token_ok l (bs_clients (py_server y)) (py_conns y) (Tok (ps_data s) (Answered res 0))"
      using p_accept_failed(4) by (cases "ps_data s") auto
    from pool_accept_next [OF 1(1) [unfolded p_accept_failed(3)] a disjI1 [OF refl] this]
    show ?case by (intro 1(2) [where res = res and flags = 0]) (simp_all add: p_accept_failed(1))
  qed
next
  case (p_recv_some s fd cn r rs bs)
  show ?thesis
  proof (rule pool_in_flight [OF inv p_recv_some(2)], goal_cases)
    case (1 T)
    note c = 1(1) [unfolded p_recv_some(3)]
    obtain cn0 where a: "ps_data s = RecvEv fd" "py_conns y fd = Some cn0" "cn_in cn0 = cn_out cn0"
      using pool_request_recv [OF c] by metis
    from c a(1) have ok: "pool_ok (r # rs) T" "length (py_mem y) = NUM_BUFS * POOL_BUF_SIZE"
      by (simp_all add: pool_consistent_def pool_ok_def p_recv_some(5))
    obtain all_bids where e: "r # rs = map pool_entry all_bids"
      "mset all_bids + taken T = mset [0..<NUM_BUFS]" "\<And>bid. bid \<in> set all_bids \<or> bid \<in># taken T \<Longrightarrow> bid < NUM_BUFS"
      "distinct all_bids" "\<And>bid. bid \<in># taken T \<Longrightarrow> bid \<notin> set all_bids"
      by (rule pool_ok_entries [OF ok(1)]) (rule that)
    from e(1) obtain b bids where all_bids: "all_bids = b # bids" by (cases all_bids) auto
    with e have b: "r = pool_entry b" "rs = map pool_entry bids" "mset (b # bids) + taken T = mset [0..<NUM_BUFS]"
      "b < NUM_BUFS" by simp_all
    have other: "bid \<noteq> b" "bid < NUM_BUFS" if "bid \<in># taken T" for bid
      using e(3,5) [of bid] that all_bids by auto
    have le: "length bs \<le> POOL_BUF_SIZE" using p_recv_some(7) by (simp add: b(1) pool_entry_def)
    note mem = buffer_after_store [OF ok(2) b(4) le]
    have "pool_consistent l (bs_clients (py_server y)) ((py_conns y)(fd \<mapsto> cn\<lparr>cn_in := cn_in cn @ bs\<rparr>)) rs
        (overwrite (re_addr r) bs (py_mem y)) (add_mset (Tok (ps_data s) (Answered (int (length bs)) (buffer_flags (re_bid r)))) T)"
    proof (rule pool_client_next [OF c])
      show "token_ok (buffer_at (overwrite (re_addr r) bs (py_mem y))) fd (cn\<lparr>cn_in := cn_in cn @ bs\<rparr>)
          (Tok (ps_data s) (Answered (int (length bs)) (buffer_flags (re_bid r))))"
        using a p_recv_some(4,6) mem(1) le buffer_flags_id [OF b(4)] by (simp add: b(1) pool_entry_def)
      show "pool_ok rs (add_mset (Tok (ps_data s) (Answered (int (length bs)) (buffer_flags (re_bid r)))) T)"
        using b(2,3) p_recv_some(6) buffer_flags_id(1) [OF b(4)]
        by (auto simp: pool_ok_def a(1) b(1) pool_entry_def intro!: exI [of _ bids])
      show "token_of fd (Tok (ps_data s) (Asked (PRecv fd)))" using a(1) by simp
      show "length (overwrite (re_addr r) bs (py_mem y)) = length (py_mem y)" using mem(3) by (simp add: b(1) pool_entry_def)
      show "buffer_at (overwrite (re_addr r) bs (py_mem y)) bid = buffer_at (py_mem y) bid" if "t \<in># T" "bid \<in> set (takes t)" for t bid
        using mem(2) other [OF takes_taken [OF that]] by (simp add: b(1) pool_entry_def)
    qed
    then show ?case
      by (intro 1(2) [where res = "int (length bs)" and flags = "buffer_flags (re_bid r)"])
        (simp_all add: p_recv_some(1) pool_completed_def)
  qed
next
  case (p_recv_none s fd res)
  show ?thesis
  proof (rule pool_in_flight [OF inv p_recv_none(2)], goal_cases)
    case (1 T)
    note c = 1(1) [unfolded p_recv_none(3)]
    obtain cn where a: "ps_data s = RecvEv fd" "py_conns y fd = Some cn" "cn_in cn = cn_out cn"
      using pool_request_recv [OF c] by metis
    have "pool_consistent l (bs_clients (py_server y)) ((py_conns y)(fd \<mapsto> cn)) (bs_ring (py_server y)) (py_mem y)
        (add_mset (Tok (ps_data s) (Answered res 0)) T)"
      by (rule pool_client_next [OF c])
        (use a c p_recv_none(4) in \<open>auto simp: pool_consistent_def pool_ok_def\<close>)
    then show ?case
      using a(2) by (intro 1(2) [where res = res and flags = 0]) (simp_all add: p_recv_none(1) map_upd_triv)
  qed
next
  case (p_send_some s fd addr len cn n)
  show ?thesis
  proof (rule pool_in_flight [OF inv p_send_some(2)], goal_cases)
    case (1 T)
    note c = 1(1) [unfolded p_send_some(3)]
    obtain bid total off where a: "ps_data s = SendEv fd bid total off" "addr = bid * POOL_BUF_SIZE + off" "len = total - off"
      "off < total" "total \<le> POOL_BUF_SIZE" "cn_in cn = cn_out cn @ segment off len (buffer_at (py_mem y) bid)"
      using pool_request_send [OF c] p_send_some(4) by (metis option.inject)
    have "len = n + (len - n)" using p_send_some(6) by simp
    then have rest: "segment off len (buffer_at (py_mem y) bid) =
        segment off n (buffer_at (py_mem y) bid) @ segment (off + n) (len - n) (buffer_at (py_mem y) bid)"
      by (metis segment_split)
    have out: "segment addr n (py_mem y) = segment off n (buffer_at (py_mem y) bid)"
      unfolding a(2) by (rule segment_buffer) (use a p_send_some(6) in simp)
    have "pool_consistent l (bs_clients (py_server y)) ((py_conns y)(fd \<mapsto> cn\<lparr>cn_out := cn_out cn @ segment addr n (py_mem y)\<rparr>))
        (bs_ring (py_server y)) (py_mem y) (add_mset (Tok (ps_data s) (Answered (int n) 0)) T)"
      by (rule pool_client_next [OF c])
        (use a c rest out p_send_some(5,6) in \<open>auto simp: pool_consistent_def pool_ok_def\<close>)
    then show ?case
      by (intro 1(2) [where res = "int n" and flags = 0]) (simp_all add: p_send_some(1) pool_completed_def)
  qed
next
  case (p_send_none s fd addr len res)
  show ?thesis
  proof (rule pool_in_flight [OF inv p_send_none(2)], goal_cases)
    case (1 T)
    note c = 1(1) [unfolded p_send_none(3)]
    obtain cn bid total off where a: "ps_data s = SendEv fd bid total off" "py_conns y fd = Some cn" "len = total - off"
      "off < total" "total \<le> POOL_BUF_SIZE" "cn_in cn = cn_out cn @ segment off len (buffer_at (py_mem y) bid)"
      using pool_request_send [OF c] by metis
    have "pool_consistent l (bs_clients (py_server y)) ((py_conns y)(fd \<mapsto> cn)) (bs_ring (py_server y)) (py_mem y)
        (add_mset (Tok (ps_data s) (Answered res 0)) T)"
      by (rule pool_client_next [OF c])
        (use a c p_send_none(4) in \<open>auto simp: pool_consistent_def pool_ok_def\<close>)
    then show ?case
      using a(2) by (intro 1(2) [where res = res and flags = 0]) (simp_all add: p_send_none(1) map_upd_triv)
  qed
qed

section \<open>The event loop keeps the invariant\<close>

definition pool_handled ::
  "int \<Rightarrow> pool_server \<Rightarrow> (int \<Rightarrow> conn option) \<Rightarrow> u8 list \<Rightarrow> pool_token multiset \<Rightarrow> pool_server \<Rightarrow> int list \<Rightarrow> bool" where
  "pool_handled l sv cns mem T sv' fds \<longleftrightarrow>
     (\<exists>qs. bs_sq sv' = bs_sq sv @ qs \<and>
       pool_consistent l (bs_clients sv') (close_all fds cns) (bs_ring sv') mem (image_mset sqe_token (mset qs) + T))"

lemma pool_handled_one:
  assumes "pool_consistent l (bs_clients sv') (close_all fds cns) (bs_ring sv') mem (add_mset (sqe_token s) T)"
    and "bs_sq sv' = bs_sq sv @ [s]"
  shows "pool_handled l sv cns mem T sv' fds"
  using assms unfolding pool_handled_def by (intro exI [of _ "[s]"]) simp

lemma pool_get_sqe_Inr:
  "pool_get_sqe depth io ev sv = Inr sv' \<longleftrightarrow>
     length (bs_sq sv) < depth \<and> sv' = sv\<lparr>bs_sq := bs_sq sv @ [\<lparr>ps_io = io, ps_data = ev\<rparr>]\<rparr>"
  by (auto simp: pool_get_sqe_def)

lemmas queue_Inr = queue_recv_def queue_send_def queue_accept_def pool_get_sqe_Inr bindR_Inr_iff

lemma pool_ok_recycle:
  "pool_ok ring (add_mset a T) \<Longrightarrow> takes a = [bid] \<Longrightarrow> pool_ok (ring @ [pool_entry bid]) T"
  unfolding pool_ok_def by (elim exE, rule_tac x = "bids @ [bid]" in exI) simp

lemma pool_ok_take:
  "pool_ok ring (add_mset a T) \<Longrightarrow> takes b = takes a \<Longrightarrow> pool_ok ring (add_mset b T)"
  "pool_ok ring (add_mset a T) \<Longrightarrow> takes a = [] \<Longrightarrow> pool_ok ring T"
  by (simp_all add: pool_ok_def)

lemma pool_accepted_handled:
  assumes c: "pool_consistent l (bs_clients sv) cns (bs_ring sv) mem (add_mset (cqe_token e) T)" and a: "is_accept (cqe_token e)"
    and h: "pool_accepted depth l (pc_res e) sv = Inr (sv', fds)"
  shows "pool_handled l sv cns mem T sv' fds"
proof -
  let ?s = "\<lparr>ps_io = PAccept l, ps_data = AcceptEv l\<rparr>"
  have b: "accept_token_ok l cls cns (sqe_token ?s)" for cls cns by (simp add: sqe_token_def)
  show ?thesis
  proof (cases "0 \<le> pc_res e")
    case True
    let ?r = "\<lparr>ps_io = PRecv (pc_res e), ps_data = RecvEv (pc_res e)\<rparr>"
    from pool_accept_token(1) [OF c a] True have new: "pc_res e \<notin> bs_clients sv" "cns (pc_res e) = Some \<lparr>cn_in = [], cn_out = []\<rparr>"
      using a by (auto simp: cqe_token_def split: Event.splits elim: is_accept.elims)
    from pool_new_client [OF c a new b] h True show ?thesis
      unfolding pool_handled_def
      by (intro exI [of _ "[?r, ?s]"]) (auto simp: pool_accepted_def queue_Inr sqe_token_def add_mset_commute)
  next
    case False
    from pool_accept_next [OF c a disjI1 [OF refl] b] h False show ?thesis
      by (intro pool_handled_one [where s = ?s]) (auto simp: pool_accepted_def queue_Inr)
  qed
qed

lemma pool_received_handled:
  assumes c: "pool_consistent l (bs_clients sv) cns (bs_ring sv) mem (add_mset (cqe_token e) T)" and ev: "pc_data e = RecvEv fd"
    and h: "pool_received depth fd (pc_res e) (pc_flags e) sv = Inr (sv', fds)"
  shows "pool_handled l sv cns mem T sv' fds"
proof -
  have s: "token_of fd (cqe_token e)" by (simp add: cqe_token_def ev)
  obtain cn where fd: "cns fd = Some cn" "token_ok (buffer_at mem) fd cn (cqe_token e)"
    using pool_client_token [OF c s] by metis
  have p: "pool_ok (bs_ring sv) (add_mset (cqe_token e) T)" using c by (simp add: pool_consistent_def)
  have next_token: "pool_handled l sv cns mem T sv' fds"
    if "token_ok (buffer_at mem) fd cn (sqe_token q)" "takes (sqe_token q) = takes (cqe_token e)"
      "sv' = sv\<lparr>bs_sq := bs_sq sv @ [q]\<rparr>" "fds = []" for q
    using pool_client_next [OF c s that(1) pool_ok_take(1) [OF p that(2)]] that(3,4) fd(1)
    by (intro pool_handled_one [where s = q]) (simp_all add: map_upd_triv)
  show ?thesis
  proof (cases "pc_res e \<le> 0")
    case True
    then have none: "takes (cqe_token e) = []" by (simp add: cqe_token_def ev)
    show ?thesis
    proof (cases "pc_res e = - ENOBUFS")
      case True
      with h fd(2) none \<open>pc_res e \<le> 0\<close> show ?thesis
        by (intro next_token [of "\<lparr>ps_io = PRecv fd, ps_data = RecvEv fd\<rparr>"])
          (auto simp: pool_received_def queue_Inr sqe_token_def cqe_token_def ev)
    next
      case False
      with h \<open>pc_res e \<le> 0\<close> pool_client_closed [OF c s pool_ok_take(2) [OF p none]] show ?thesis
        unfolding pool_handled_def by (intro exI [of _ "[]"]) (auto simp: pool_received_def drop_client_def)
    qed
  next
    case False
    with fd(2) have t: "pc_flags e AND IORING_CQE_F_BUFFER \<noteq> 0" "pc_res e \<le> int POOL_BUF_SIZE"
      "cn_in cn = cn_out cn @ take (nat (pc_res e)) (buffer_at mem (buffer_id (pc_flags e)))"
      by (simp_all add: cqe_token_def ev)
    from False have "pc_res e \<noteq> - ENOBUFS" by (simp add: ENOBUFS_def)
    with h False t show ?thesis
      by (intro next_token [of "\<lparr>ps_io = PSend fd (buffer_id (pc_flags e) * POOL_BUF_SIZE) (nat (pc_res e)),
            ps_data = SendEv fd (buffer_id (pc_flags e)) (nat (pc_res e)) 0\<rparr>"])
        (auto simp: pool_received_def queue_Inr sqe_token_def cqe_token_def ev segment_def)
  qed
qed

lemma pool_sent_handled:
  assumes c: "pool_consistent l (bs_clients sv) cns (bs_ring sv) mem (add_mset (cqe_token e) T)"
    and ev: "pc_data e = SendEv fd bid len off" and h: "pool_sent depth fd bid len off (pc_res e) sv = Inr (sv', fds)"
  shows "pool_handled l sv cns mem T sv' fds"
proof -
  have s: "token_of fd (cqe_token e)" by (simp add: cqe_token_def ev)
  obtain cn where fd: "fd \<in> bs_clients sv" "cns fd = Some cn" "token_ok (buffer_at mem) fd cn (cqe_token e)"
    using pool_client_token [OF c s] by metis
  have takes: "takes (cqe_token e) = [bid]" by (simp add: cqe_token_def ev)
  have p: "pool_ok (bs_ring sv) (add_mset (cqe_token e) T)" using c by (simp add: pool_consistent_def)
  note again = pool_ok_recycle [OF p takes]
  show ?thesis
  proof (cases "pc_res e \<le> 0")
    case True
    with h pool_client_closed [OF c s again] show ?thesis
      unfolding pool_handled_def by (intro exI [of _ "[]"]) (auto simp: pool_sent_def drop_client_def recycle_buf_def)
  next
    case False
    let ?off = "off + nat (pc_res e)"
    from fd(3) False have t: "len \<le> POOL_BUF_SIZE" "?off \<le> len" "off < len"
      "cn_in cn = cn_out cn @ segment ?off (len - ?off) (buffer_at mem bid)"
      by (auto simp: cqe_token_def ev)
    show ?thesis
    proof (cases "?off < len")
      case True
      let ?q = "\<lparr>ps_io = PSend fd (bid * POOL_BUF_SIZE + ?off) (len - ?off), ps_data = SendEv fd bid len ?off\<rparr>"
      have "token_ok (buffer_at mem) fd cn (sqe_token ?q)" using t True by (simp add: sqe_token_def)
      from pool_client_next [OF c s this pool_ok_take(1) [OF p]] h False True fd(2) show ?thesis
        by (intro pool_handled_one [where s = ?q])
          (auto simp: pool_sent_def queue_Inr Let_def map_upd_triv takes sqe_token_def)
    next
      case full: False
      let ?q = "\<lparr>ps_io = PRecv fd, ps_data = RecvEv fd\<rparr>"
      have "token_ok (buffer_at mem) fd cn (sqe_token ?q)" "takes (sqe_token ?q) = []"
        using t full by (simp_all add: sqe_token_def segment_def)
      from pool_client_next [OF c s this(1), of "bs_ring sv @ [pool_entry bid]"] this(2) again
      have "pool_consistent l (bs_clients sv) (cns(fd \<mapsto> cn)) (bs_ring sv @ [pool_entry bid]) mem (add_mset (sqe_token ?q) T)"
        by (simp add: pool_ok_def)
      with h False full fd show ?thesis
        by (intro pool_handled_one [where s = ?q]) (auto simp: pool_sent_def queue_Inr Let_def map_upd_triv recycle_buf_def)
    qed
  qed
qed

lemma pool_handle_handled:
  assumes "pool_consistent l (bs_clients sv) cns (bs_ring sv) mem (add_mset (cqe_token e) T)"
    and "pool_handle depth l e sv = Inr (sv', fds)"
  shows "pool_handled l sv cns mem T sv' fds"
  using assms pool_accepted_handled [OF assms(1)] pool_received_handled [OF assms(1)] pool_sent_handled [OF assms(1)]
  by (cases "pc_data e") (simp_all add: pool_handle_def cqe_token_def)

lemma pool_loop_step_inv:
  assumes "pool_loop_step depth l y y'" and inv: "pool_inv l y"
  shows "pool_inv l y'"
  using assms(1)
proof cases
  case p_submit
  with inv show ?thesis by (simp add: pool_inv_def pool_tokens_def ac_simps)
next
  case p_wake
  with inv show ?thesis by (simp add: pool_inv_def pool_tokens_def)
next
  case (p_treat n e es sv fds)
  let ?T = "image_mset sqe_token (mset (bs_sq (py_server y)) + py_inflight y) + image_mset cqe_token (mset es)"
  have "pool_consistent l (bs_clients (py_server y)) (py_conns y) (bs_ring (py_server y)) (py_mem y) (add_mset (cqe_token e) ?T)"
    using inv p_treat(3) by (simp add: pool_inv_def pool_tokens_def)
  from pool_handle_handled [OF this p_treat(4)] inv p_treat(1-3) show ?thesis
    by (auto simp: pool_handled_def pool_inv_def pool_tokens_def ac_simps)
qed

lemma pool_start_inv: "pool_inv l (pool_start l)"
  by (auto simp: pool_inv_def pool_start_def pool_tokens_def pool_consistent_def sqe_token_def fd_ok_def pool_ok_def
      intro!: exI [of _ "[0..<NUM_BUFS]"])

lemma pool_run_inv: "pool_run depth l y \<Longrightarrow> pool_inv l y"
  by (induction rule: pool_run.induct) (blast intro: pool_start_inv pool_kernel_step_inv pool_loop_step_inv)+

section \<open>What the server promises\<close>

lemma pool_send_ok:
  assumes inv: "pool_inv l y" and s: "s \<in># mset (bs_sq (py_server y)) + py_inflight y" and io: "ps_io s = PSend fd addr len"
  shows "\<exists>bid off. addr = bid * POOL_BUF_SIZE + off \<and> 0 < len \<and> off + len \<le> POOL_BUF_SIZE \<and> bid < NUM_BUFS \<and>
    pool_entry bid \<notin> set (bs_ring (py_server y))"
proof -
  have "sqe_token s \<in># pool_tokens y" using s by (auto simp: pool_tokens_def)
  then obtain T where T: "pool_tokens y = add_mset (Tok (ps_data s) (Asked (PSend fd addr len))) T"
    by (auto simp: sqe_token_def io dest!: multi_member_split)
  with inv have c: "pool_consistent l (bs_clients (py_server y)) (py_conns y) (bs_ring (py_server y)) (py_mem y)
      (add_mset (Tok (ps_data s) (Asked (PSend fd addr len))) T)" by (simp add: pool_inv_def)
  obtain bid total off where a: "ps_data s = SendEv fd bid total off" "addr = bid * POOL_BUF_SIZE + off" "len = total - off"
    "off < total" "total \<le> POOL_BUF_SIZE"
    using pool_request_send [OF c] by metis
  have p: "pool_ok (bs_ring (py_server y)) (add_mset (Tok (ps_data s) (Asked (PSend fd addr len))) T)"
    using c by (simp add: pool_consistent_def)
  show ?thesis
  proof (rule pool_ok_entries [OF p], goal_cases)
    case (1 bids)
    have "bid \<in># taken (add_mset (Tok (ps_data s) (Asked (PSend fd addr len))) T)" by (simp add: a(1))
    with 1(3,5) have "bid < NUM_BUFS" "bid \<notin> set bids" by blast+
    then have "pool_entry bid \<notin> set (bs_ring (py_server y))" by (auto simp: 1(1) pool_entry_def)
    with a \<open>bid < NUM_BUFS\<close> show ?case by (intro exI [of _ bid] exI [of _ off]) simp
  qed
qed

text \<open>
  C7. In every run of the server, whatever the kernel does, every buffer of the pool is in one place: in the ring, in a
  completion that is still to be treated, or in the hands of one send. So no buffer is lost, the ring never overflows, and
  the bytes of a send that is queued or in flight lie in one buffer of the pool that the kernel cannot pick
  for other data meanwhile.
\<close>

theorem pool_buffers_conserved:
  assumes "pool_run depth l y"
  shows "(\<exists>bids. bs_ring (py_server y) = map pool_entry bids \<and> mset bids + taken (pool_tokens y) = mset [0..<NUM_BUFS]) \<and>
    (\<forall>s \<in># mset (bs_sq (py_server y)) + py_inflight y. \<forall>fd addr len. ps_io s = PSend fd addr len \<longrightarrow>
      (\<exists>bid off. addr = bid * POOL_BUF_SIZE + off \<and> 0 < len \<and> off + len \<le> POOL_BUF_SIZE \<and> bid < NUM_BUFS \<and>
        pool_entry bid \<notin> set (bs_ring (py_server y))))"
proof
  note inv = pool_run_inv [OF assms]
  then show "\<exists>bids. bs_ring (py_server y) = map pool_entry bids \<and> mset bids + taken (pool_tokens y) = mset [0..<NUM_BUFS]"
    by (simp add: pool_inv_def pool_consistent_def pool_ok_def)
  show "\<forall>s \<in># mset (bs_sq (py_server y)) + py_inflight y. \<forall>fd addr len. ps_io s = PSend fd addr len \<longrightarrow>
      (\<exists>bid off. addr = bid * POOL_BUF_SIZE + off \<and> 0 < len \<and> off + len \<le> POOL_BUF_SIZE \<and> bid < NUM_BUFS \<and>
        pool_entry bid \<notin> set (bs_ring (py_server y)))"
    using pool_send_ok [OF inv] by blast
qed

lemma token_ok_prefix: "token_ok buf fd cn t \<Longrightarrow> prefix (cn_out cn) (cn_in cn)"
  by (cases "(buf, fd, cn, t)" rule: token_ok.cases) (auto split: if_splits)

text \<open>
  C8. The server with provided buffers echoes: in every run, what a connection was sent is the beginning of what
  came from it, byte for byte, although its bytes travel through buffers that all connections share; and when a receive is
  queued or in flight for it, it is all of it.
\<close>

theorem pool_server_echoes:
  assumes "pool_run depth l y" and "py_conns y fd = Some cn"
  shows "prefix (cn_out cn) (cn_in cn) \<and>
    (\<forall>s \<in># mset (bs_sq (py_server y)) + py_inflight y. ps_io s = PRecv fd \<longrightarrow> cn_out cn = cn_in cn)"
proof
  note inv = pool_run_inv [OF assms(1)]
  then have "fd_ok (bs_clients (py_server y)) (py_conns y) (py_mem y) (pool_tokens y) fd"
    by (simp add: pool_inv_def pool_consistent_def)
  with assms(2) show "prefix (cn_out cn) (cn_in cn)"
    by (auto simp: fd_ok_def token_ok_prefix split: if_splits)
  show "\<forall>s \<in># mset (bs_sq (py_server y)) + py_inflight y. ps_io s = PRecv fd \<longrightarrow> cn_out cn = cn_in cn"
  proof (intro ballI impI)
    fix s assume s: "s \<in># mset (bs_sq (py_server y)) + py_inflight y" "ps_io s = PRecv fd"
    then have "sqe_token s \<in># pool_tokens y" by (auto simp: pool_tokens_def)
    then obtain T where "pool_tokens y = add_mset (Tok (ps_data s) (Asked (PRecv fd))) T"
      by (auto simp: sqe_token_def s(2) dest!: multi_member_split)
    with inv have "pool_consistent l (bs_clients (py_server y)) (py_conns y) (bs_ring (py_server y)) (py_mem y)
        (add_mset (Tok (ps_data s) (Asked (PRecv fd))) T)" by (simp add: pool_inv_def)
    from pool_request_recv [OF this] assms(2) show "cn_out cn = cn_in cn" by fastforce
  qed
qed

section \<open>A run\<close>

text \<open>A client connects as descriptor 5 and sends two bytes, which the kernel puts into the first buffer.\<close>

definition pool_state ::
  "ring_entry list \<Rightarrow> int set \<Rightarrow> pool_sqe multiset \<Rightarrow> pool_cqe list \<Rightarrow> (int \<Rightarrow> conn option) \<Rightarrow> u8 list \<Rightarrow> pool_sys" where
  "pool_state ring cls infl cq cns mem =
     \<lparr>py_server = \<lparr>bs_ring = ring, bs_clients = cls, bs_sq = []\<rparr>, py_inflight = infl, py_cq = cq, py_conns = cns,
      py_mem = mem, py_ready = 0\<rparr>"

definition all_entries :: "ring_entry list" where "all_entries = map pool_entry [0..<NUM_BUFS]"
definition fresh_mem :: "u8 list" where "fresh_mem = replicate (NUM_BUFS * POOL_BUF_SIZE) 0"
definition pool_accept_3 :: pool_sqe where "pool_accept_3 = \<lparr>ps_io = PAccept 3, ps_data = AcceptEv 3\<rparr>"
definition pool_recv_5 :: pool_sqe where "pool_recv_5 = \<lparr>ps_io = PRecv 5, ps_data = RecvEv 5\<rparr>"
definition pool_send_5 :: pool_sqe where "pool_send_5 = \<lparr>ps_io = PSend 5 0 2, ps_data = SendEv 5 0 2 0\<rparr>"

lemma all_entries_Cons: "all_entries = pool_entry 0 # map pool_entry [1..<NUM_BUFS]"
  unfolding all_entries_def by (subst upt_conv_Cons) (simp_all add: NUM_BUFS_def)

lemma pool_treat_one:
  assumes "pool_run d l (pool_state ring cls infl [e] cns mem)"
    and "pool_handle d l e \<lparr>bs_ring = ring, bs_clients = cls, bs_sq = []\<rparr> =
      Inr (\<lparr>bs_ring = ring', bs_clients = cls', bs_sq = sq'\<rparr>, [])"
  shows "pool_run d l (pool_state ring' cls' (infl + mset sq') [] cns mem)"
proof -
  have w: "pool_run d l ((pool_state ring cls infl [e] cns mem)\<lparr>py_ready := 1\<rparr>)"
    using p_loop [OF assms(1) p_wake] by (simp add: pool_state_def)
  have t: "pool_run d l ((pool_state ring' cls' infl [] cns mem)\<lparr>py_server := \<lparr>bs_ring = ring', bs_clients = cls', bs_sq = sq'\<rparr>\<rparr>)"
    using p_loop [OF w p_treat [of _ 0 e "[]"]] assms(2) by (simp add: pool_state_def)
  show ?thesis
    using p_loop [OF t p_submit] by (simp add: pool_state_def)
qed

lemma pool_waiting_run:
  "pool_run 4096 3 (pool_state all_entries {5} {#pool_accept_3, pool_recv_5#} [] [5 \<mapsto> \<lparr>cn_in = [], cn_out = []\<rparr>] fresh_mem)"
proof -
  have "pool_run 4096 3 (pool_state all_entries {} {#pool_accept_3#} [] (\<lambda>_. None) fresh_mem)"
    using p_loop [OF p_start [of 4096 3] p_submit]
    by (simp add: pool_start_def pool_state_def pool_accept_3_def all_entries_def fresh_mem_def)
  from p_kernel [OF this p_accepted [of pool_accept_3 _ 3 5]]
  have "pool_run 4096 3 (pool_state all_entries {} {#} [\<lparr>pc_data = AcceptEv 3, pc_res = 5, pc_flags = 0\<rparr>]
      [5 \<mapsto> \<lparr>cn_in = [], cn_out = []\<rparr>] fresh_mem)"
    by (simp add: pool_state_def pool_completed_def pool_accept_3_def is_fd_def)
  from pool_treat_one [OF this, of all_entries "{5}" "[pool_recv_5, pool_accept_3]"] show ?thesis
    by (simp add: pool_handle_def pool_accepted_def queue_recv_def queue_accept_def pool_get_sqe_def pool_recv_5_def
        pool_accept_3_def add_mset_commute)
qed

definition pool_replying :: pool_sys where
  "pool_replying = pool_state (map pool_entry [1..<NUM_BUFS]) {5} {#pool_accept_3, pool_send_5#} []
     [5 \<mapsto> \<lparr>cn_in = [7, 8], cn_out = []\<rparr>] (overwrite 0 [7, 8] fresh_mem)"

lemma pool_replying_run: "pool_run 4096 3 pool_replying"
proof -
  have id: "buffer_id (buffer_flags 0) = 0" "buffer_flags 0 AND IORING_CQE_F_BUFFER \<noteq> 0"
    using buffer_flags_id [of 0] by (simp_all add: NUM_BUFS_def)
  have "pool_kernel_step (pool_state all_entries {5} {#pool_accept_3, pool_recv_5#} [] [5 \<mapsto> \<lparr>cn_in = [], cn_out = []\<rparr>] fresh_mem)
      (pool_state (map pool_entry [1..<NUM_BUFS]) {5} {#pool_accept_3#} [\<lparr>pc_data = RecvEv 5, pc_res = 2, pc_flags = buffer_flags 0\<rparr>]
        [5 \<mapsto> \<lparr>cn_in = [7, 8], cn_out = []\<rparr>] (overwrite 0 [7, 8] fresh_mem))"
    using p_recv_some [of pool_recv_5 "pool_state all_entries {5} {#pool_accept_3, pool_recv_5#} [] [5 \<mapsto> \<lparr>cn_in = [], cn_out = []\<rparr>] fresh_mem"
        5 "\<lparr>cn_in = [], cn_out = []\<rparr>" "pool_entry 0" "map pool_entry [1..<NUM_BUFS]" "[7, 8]"]
    by (simp add: pool_state_def all_entries_Cons pool_entry_def pool_completed_def pool_recv_5_def pool_accept_3_def
        POOL_BUF_SIZE_def)
  from pool_treat_one [OF p_kernel [OF pool_waiting_run this], of "map pool_entry [1..<NUM_BUFS]" "{5}" "[pool_send_5]"] id
  show ?thesis
    by (simp add: pool_handle_def pool_received_def queue_send_def pool_get_sqe_def pool_send_5_def pool_replying_def
        ENOBUFS_def add_mset_commute)
qed

theorem pool_buffers_conserved_witness:
  "\<exists>bids. bs_ring (py_server pool_replying) = map pool_entry bids \<and>
    mset bids + taken (pool_tokens pool_replying) = mset [0..<NUM_BUFS]"
  by (rule conjunct1 [OF pool_buffers_conserved [OF pool_replying_run]])

theorem pool_server_echoes_witness: "prefix (cn_out \<lparr>cn_in = [7, 8], cn_out = []\<rparr>) (cn_in \<lparr>cn_in = [7, 8], cn_out = []\<rparr>)"
  by (rule conjunct1 [OF pool_server_echoes [OF pool_replying_run, of 5]]) (simp add: pool_replying_def pool_state_def)

end
