(* ===== verification/Multishot.thy ===== *)
theory Multishot
  imports BufPool
begin

unbundle bit_operations_syntax

text \<open>
  The multi-shot echo server (\<open>io_uring/11_multishot.cpp\<close>): requests to accept and to receive stay in flight and
  complete many times, as long as their completions carry \<open>IORING_CQE_F_MORE\<close>. The pool is that of
  exercise 10. The lemmas show that no buffer is lost; and runs show that a connection can have
  several sends at once, so that its bytes come back in another order and its descriptor is closed twice.
\<close>

section \<open>The treatment of a completion\<close>

definition IORING_CQE_F_MORE :: u32 where "IORING_CQE_F_MORE = 2"

datatype shot_event = ShotAccept int | ShotRecv int | ShotSend int nat nat nat bool

datatype shot_io = SAccept int | SRecv int | SSend int nat nat

record shot_sqe =
  ss_io :: shot_io
  ss_data :: shot_event

record shot_cqe =
  sc_data :: shot_event
  sc_res :: int
  sc_flags :: u32

record shot_server =
  sh_ring :: "ring_entry list"
  sh_clients :: "int set"
  sh_sq :: "shot_sqe list"

definition shot_recycle :: "nat \<Rightarrow> shot_server \<Rightarrow> shot_server" where
  "shot_recycle bid sv = sv\<lparr>sh_ring := sh_ring sv @ [pool_entry bid]\<rparr>"

definition shot_get_sqe :: "nat \<Rightarrow> shot_io \<Rightarrow> shot_event \<Rightarrow> shot_server \<Rightarrow> shot_server res" where
  "shot_get_sqe depth io ev sv =
     (if length (sh_sq sv) \<ge> depth then Inl (RuntimeError ''submission queue is full'')
      else Inr (sv\<lparr>sh_sq := sh_sq sv @ [\<lparr>ss_io = io, ss_data = ev\<rparr>]\<rparr>))"

definition queue_multishot_recv :: "nat \<Rightarrow> int \<Rightarrow> shot_server \<Rightarrow> shot_server res" where
  "queue_multishot_recv depth fd sv = shot_get_sqe depth (SRecv fd) (ShotRecv fd) sv"

definition shot_queue_send :: "nat \<Rightarrow> int \<Rightarrow> nat \<Rightarrow> nat \<Rightarrow> nat \<Rightarrow> bool \<Rightarrow> shot_server \<Rightarrow> shot_server res" where
  "shot_queue_send depth fd bid len offset rearm sv =
     shot_get_sqe depth (SSend fd (bid * POOL_BUF_SIZE + offset) (len - offset)) (ShotSend fd bid len offset rearm) sv"

definition shot_drop_client :: "int \<Rightarrow> shot_server \<Rightarrow> (shot_server \<times> int list) res" where
  "shot_drop_client fd sv = Inr (sv\<lparr>sh_clients := sh_clients sv - {fd}\<rparr>, [fd])"

definition shot_accepted :: "nat \<Rightarrow> int \<Rightarrow> bool \<Rightarrow> int \<Rightarrow> shot_server \<Rightarrow> (shot_server \<times> int list) res" where
  "shot_accepted depth listen_fd alive res sv =
     bindR (if res \<ge> 0 then queue_multishot_recv depth res (sv\<lparr>sh_clients := insert res (sh_clients sv)\<rparr>) else Inr sv) (\<lambda>sv.
     bindR (if \<not> alive then shot_get_sqe depth (SAccept listen_fd) (ShotAccept listen_fd) sv else Inr sv) (\<lambda>sv.
     Inr (sv, [])))"

definition shot_received :: "nat \<Rightarrow> int \<Rightarrow> bool \<Rightarrow> int \<Rightarrow> u32 \<Rightarrow> shot_server \<Rightarrow> (shot_server \<times> int list) res" where
  "shot_received depth fd alive res flags sv =
     (if res = - ENOBUFS then bindR (queue_multishot_recv depth fd sv) (\<lambda>sv. Inr (sv, []))
      else if res \<le> 0 then shot_drop_client fd sv
      else if flags AND IORING_CQE_F_BUFFER = 0 then shot_drop_client fd sv
      else bindR (shot_queue_send depth fd (buffer_id flags) (nat res) 0 (\<not> alive) sv) (\<lambda>sv. Inr (sv, [])))"

definition shot_sent :: "nat \<Rightarrow> int \<Rightarrow> nat \<Rightarrow> nat \<Rightarrow> nat \<Rightarrow> bool \<Rightarrow> int \<Rightarrow> shot_server \<Rightarrow> (shot_server \<times> int list) res" where
  "shot_sent depth fd bid len offset rearm_recv res sv =
     (if res \<le> 0 then shot_drop_client fd (shot_recycle bid sv)
      else let offset = offset + nat res in
        if offset < len then bindR (shot_queue_send depth fd bid len offset rearm_recv sv) (\<lambda>sv. Inr (sv, []))
        else let sv = shot_recycle bid sv in
          bindR (if rearm_recv \<and> fd \<in> sh_clients sv then queue_multishot_recv depth fd sv else Inr sv) (\<lambda>sv. Inr (sv, [])))"

definition shot_handle :: "nat \<Rightarrow> int \<Rightarrow> shot_cqe \<Rightarrow> shot_server \<Rightarrow> (shot_server \<times> int list) res" where
  "shot_handle depth listen_fd e sv =
     (let alive = (sc_flags e AND IORING_CQE_F_MORE \<noteq> 0) in
      case sc_data e of
        ShotAccept _ \<Rightarrow> shot_accepted depth listen_fd alive (sc_res e) sv
      | ShotRecv fd \<Rightarrow> shot_received depth fd alive (sc_res e) (sc_flags e) sv
      | ShotSend fd bid len offset rearm_recv \<Rightarrow> shot_sent depth fd bid len offset rearm_recv (sc_res e) sv)"

section \<open>The server and the kernel\<close>

text \<open>
  A request holds the socket its descriptor stood for when it was submitted (\<open>sr_sock\<close>), also after the descriptor was
  closed. \<open>ms_fds\<close> is the table of the open descriptors, \<open>ms_socks\<close> has the connections in the order they were
  accepted, and \<open>ms_closed\<close> is the list of the descriptors passed to \<open>close\<close>.
\<close>

record shot_request =
  sr_sqe :: shot_sqe
  sr_sock :: "nat option"

record shot_sys =
  ms_server :: shot_server
  ms_inflight :: "shot_request multiset"
  ms_cq :: "shot_cqe list"
  ms_fds :: "int \<Rightarrow> nat option"
  ms_socks :: "conn list"
  ms_mem :: "u8 list"
  ms_ready :: nat
  ms_closed :: "int list"

definition shot_start :: "int \<Rightarrow> shot_sys" where
  "shot_start listen_fd =
     \<lparr>ms_server = \<lparr>sh_ring = map pool_entry [0..<NUM_BUFS], sh_clients = {},
        sh_sq = [\<lparr>ss_io = SAccept listen_fd, ss_data = ShotAccept listen_fd\<rparr>]\<rparr>,
      ms_inflight = {#}, ms_cq = [], ms_fds = (\<lambda>_. None), ms_socks = [], ms_mem = replicate (NUM_BUFS * POOL_BUF_SIZE) 0,
      ms_ready = 0, ms_closed = []\<rparr>"

fun shot_target :: "shot_io \<Rightarrow> int" where
  "shot_target (SAccept l) = l"
| "shot_target (SRecv fd) = fd"
| "shot_target (SSend fd _ _) = fd"

definition shot_request_of :: "(int \<Rightarrow> nat option) \<Rightarrow> shot_sqe \<Rightarrow> shot_request" where
  "shot_request_of fds s = \<lparr>sr_sqe = s, sr_sock = fds (shot_target (ss_io s))\<rparr>"

text \<open>A completion; the request stays in flight when there is more to come.\<close>

definition shot_completed :: "shot_request \<Rightarrow> bool \<Rightarrow> int \<Rightarrow> u32 \<Rightarrow> shot_sys \<Rightarrow> shot_sys" where
  "shot_completed q alive res flags y =
     y\<lparr>ms_inflight := (if alive then ms_inflight y else ms_inflight y - {#q#}),
       ms_cq := ms_cq y @ [\<lparr>sc_data = ss_data (sr_sqe q), sc_res = res,
         sc_flags = (if alive then flags OR IORING_CQE_F_MORE else flags)\<rparr>]\<rparr>"

definition came_in :: "nat \<Rightarrow> u8 list \<Rightarrow> conn list \<Rightarrow> conn list" where
  "came_in k bs cns = cns[k := (cns ! k)\<lparr>cn_in := cn_in (cns ! k) @ bs\<rparr>]"

definition went_out :: "nat \<Rightarrow> u8 list \<Rightarrow> conn list \<Rightarrow> conn list" where
  "went_out k bs cns = cns[k := (cns ! k)\<lparr>cn_out := cn_out (cns ! k) @ bs\<rparr>]"

definition shot_close :: "int list \<Rightarrow> (int \<Rightarrow> nat option) \<Rightarrow> int \<Rightarrow> nat option" where
  "shot_close closed fds = (\<lambda>fd. if fd \<in> set closed then None else fds fd)"

inductive shot_kernel_step :: "shot_sys \<Rightarrow> shot_sys \<Rightarrow> bool" where
  s_accepted: "q \<in># ms_inflight y \<Longrightarrow> ss_io (sr_sqe q) = SAccept l \<Longrightarrow> is_fd fd \<Longrightarrow> ms_fds y fd = None \<Longrightarrow>
    shot_kernel_step y ((shot_completed q alive fd 0 y)
      \<lparr>ms_fds := (ms_fds y)(fd \<mapsto> length (ms_socks y)), ms_socks := ms_socks y @ [\<lparr>cn_in = [], cn_out = []\<rparr>]\<rparr>)"
| s_accept_failed: "q \<in># ms_inflight y \<Longrightarrow> ss_io (sr_sqe q) = SAccept l \<Longrightarrow> res < 0 \<Longrightarrow>
    shot_kernel_step y (shot_completed q alive res 0 y)"
| s_recv_some: "q \<in># ms_inflight y \<Longrightarrow> ss_io (sr_sqe q) = SRecv fd \<Longrightarrow>
    sh_ring (ms_server y) = r # rs \<Longrightarrow> bs \<noteq> [] \<Longrightarrow> length bs \<le> re_len r \<Longrightarrow> sr_sock q = Some k \<Longrightarrow>
    shot_kernel_step y ((shot_completed q alive (int (length bs)) (buffer_flags (re_bid r)) y)
      \<lparr>ms_server := (ms_server y)\<lparr>sh_ring := rs\<rparr>, ms_mem := overwrite (re_addr r) bs (ms_mem y),
       ms_socks := came_in k bs (ms_socks y)\<rparr>)"
| s_recv_none: "q \<in># ms_inflight y \<Longrightarrow> ss_io (sr_sqe q) = SRecv fd \<Longrightarrow> res \<le> 0 \<Longrightarrow>
    shot_kernel_step y (shot_completed q False res 0 y)"
| s_send_some: "q \<in># ms_inflight y \<Longrightarrow> ss_io (sr_sqe q) = SSend fd addr len \<Longrightarrow> 0 < n \<Longrightarrow> n \<le> len \<Longrightarrow> sr_sock q = Some k \<Longrightarrow>
    shot_kernel_step y ((shot_completed q False (int n) 0 y)
      \<lparr>ms_socks := went_out k (segment addr n (ms_mem y)) (ms_socks y)\<rparr>)"
| s_send_none: "q \<in># ms_inflight y \<Longrightarrow> ss_io (sr_sqe q) = SSend fd addr len \<Longrightarrow> res \<le> 0 \<Longrightarrow>
    shot_kernel_step y (shot_completed q False res 0 y)"

inductive shot_loop_step :: "nat \<Rightarrow> int \<Rightarrow> shot_sys \<Rightarrow> shot_sys \<Rightarrow> bool" for depth listen_fd where
  s_submit: "ms_ready y = 0 \<Longrightarrow>
    shot_loop_step depth listen_fd y
      (y\<lparr>ms_inflight := ms_inflight y + image_mset (shot_request_of (ms_fds y)) (mset (sh_sq (ms_server y))),
         ms_server := (ms_server y)\<lparr>sh_sq := []\<rparr>\<rparr>)"
| s_wake: "ms_ready y = 0 \<Longrightarrow> sh_sq (ms_server y) = [] \<Longrightarrow> ms_cq y \<noteq> [] \<Longrightarrow>
    shot_loop_step depth listen_fd y (y\<lparr>ms_ready := length (ms_cq y)\<rparr>)"
| s_treat: "ms_ready y = Suc n \<Longrightarrow> ms_cq y = e # es \<Longrightarrow> shot_handle depth listen_fd e (ms_server y) = Inr (sv, fds) \<Longrightarrow>
    shot_loop_step depth listen_fd y
      (y\<lparr>ms_server := sv, ms_cq := es, ms_fds := shot_close fds (ms_fds y), ms_ready := n, ms_closed := ms_closed y @ fds\<rparr>)"

inductive shot_run :: "nat \<Rightarrow> int \<Rightarrow> shot_sys \<Rightarrow> bool" for depth listen_fd where
  s_start: "shot_run depth listen_fd (shot_start listen_fd)"
| s_kernel: "shot_run depth listen_fd y \<Longrightarrow> shot_kernel_step y y' \<Longrightarrow> shot_run depth listen_fd y'"
| s_loop: "shot_run depth listen_fd y \<Longrightarrow> shot_loop_step depth listen_fd y y' \<Longrightarrow> shot_run depth listen_fd y'"

section \<open>No buffer is lost\<close>

text \<open>The buffers that requests and completions have taken out of the ring.\<close>

fun shot_takes :: "shot_event \<Rightarrow> (int \<times> u32) option \<Rightarrow> nat list" where
  "shot_takes (ShotAccept _) _ = []"
| "shot_takes (ShotRecv _) None = []"
| "shot_takes (ShotRecv _) (Some (res, flags)) = (if res > 0 \<and> flags AND IORING_CQE_F_BUFFER \<noteq> 0 then [buffer_id flags] else [])"
| "shot_takes (ShotSend _ bid _ _ _) _ = [bid]"

abbreviation shot_requests :: "shot_sys \<Rightarrow> shot_sqe multiset" where
  "shot_requests y \<equiv> mset (sh_sq (ms_server y)) + image_mset sr_sqe (ms_inflight y)"

definition shot_taken :: "shot_sys \<Rightarrow> nat multiset" where
  "shot_taken y =
     \<Sum>\<^sub># (image_mset (\<lambda>s. mset (shot_takes (ss_data s) None)) (shot_requests y)) +
     \<Sum>\<^sub># (image_mset (\<lambda>e. mset (shot_takes (sc_data e) (Some (sc_res e, sc_flags e)))) (mset (ms_cq y)))"

definition data_fits :: "shot_sqe \<Rightarrow> bool" where
  "data_fits s \<longleftrightarrow> (case ss_io s of SAccept _ \<Rightarrow> (\<exists>l. ss_data s = ShotAccept l) | SRecv _ \<Rightarrow> (\<exists>fd. ss_data s = ShotRecv fd)
     | SSend _ _ _ \<Rightarrow> (\<exists>fd bid len off rearm. ss_data s = ShotSend fd bid len off rearm))"

definition shot_inv :: "shot_sys \<Rightarrow> bool" where
  "shot_inv y \<longleftrightarrow> (\<exists>bids. sh_ring (ms_server y) = map pool_entry bids \<and> mset bids + shot_taken y = mset [0..<NUM_BUFS]) \<and>
     (\<forall>s \<in># shot_requests y. data_fits s)"

lemma more_flags:
  assumes "bid < NUM_BUFS"
  shows "buffer_id (buffer_flags bid OR IORING_CQE_F_MORE) = bid"
    and "(buffer_flags bid OR IORING_CQE_F_MORE) AND IORING_CQE_F_BUFFER \<noteq> 0"
    and "(buffer_flags bid OR IORING_CQE_F_MORE) AND IORING_CQE_F_MORE \<noteq> 0"
proof -
  show "buffer_id (buffer_flags bid OR IORING_CQE_F_MORE) = bid"
    using buffer_flags_id(1) [OF assms] by (simp add: buffer_id_def IORING_CQE_F_MORE_def IORING_CQE_BUFFER_SHIFT_def)
  have "(buffer_flags bid OR IORING_CQE_F_MORE) AND IORING_CQE_F_BUFFER = buffer_flags bid AND IORING_CQE_F_BUFFER"
    by (simp add: bit.conj_disj_distrib2 IORING_CQE_F_MORE_def IORING_CQE_F_BUFFER_def)
  with buffer_flags_id(2) [OF assms] show "(buffer_flags bid OR IORING_CQE_F_MORE) AND IORING_CQE_F_BUFFER \<noteq> 0" by simp
  show "(buffer_flags bid OR IORING_CQE_F_MORE) AND IORING_CQE_F_MORE \<noteq> 0"
    by (simp add: bit.conj_disj_distrib2 IORING_CQE_F_MORE_def or_eq_0_iff)
qed

lemma taken_completed:
  assumes "q \<in># ms_inflight y" and "alive \<longrightarrow> shot_takes (ss_data (sr_sqe q)) None = []"
  shows "shot_taken (shot_completed q alive res flags y) + mset (shot_takes (ss_data (sr_sqe q)) None) =
    shot_taken y + mset (shot_takes (ss_data (sr_sqe q)) (Some (res, if alive then flags OR IORING_CQE_F_MORE else flags)))"
proof -
  from assms(1) obtain M where "ms_inflight y = add_mset q M" by (auto dest: multi_member_split)
  with assms(2) show ?thesis by (simp add: shot_taken_def shot_completed_def)
qed

lemma shot_taken_other [simp]:
  "shot_taken (y\<lparr>ms_fds := fds\<rparr>) = shot_taken y" "shot_taken (y\<lparr>ms_socks := cns\<rparr>) = shot_taken y"
  "shot_taken (y\<lparr>ms_mem := mem\<rparr>) = shot_taken y"
  "shot_taken (y\<lparr>ms_server := (ms_server y)\<lparr>sh_ring := ring\<rparr>\<rparr>) = shot_taken y" "shot_taken (y\<lparr>ms_ready := n\<rparr>) = shot_taken y"
  by (simp_all add: shot_taken_def)

lemma completed_parts [simp]:
  "ms_server (shot_completed q alive res flags y) = ms_server y"
  "\<And>p. p \<in># ms_inflight (shot_completed q alive res flags y) \<Longrightarrow> p \<in># ms_inflight y"
  by (auto simp: shot_completed_def dest: in_diffD split: if_splits)

lemma shot_inv_same:
  assumes "shot_inv y" and "sh_ring (ms_server y') = sh_ring (ms_server y)" and "shot_taken y' = shot_taken y"
    and "sh_sq (ms_server y') = sh_sq (ms_server y)" and "\<And>p. p \<in># ms_inflight y' \<Longrightarrow> p \<in># ms_inflight y"
  shows "shot_inv y'"
  using assms unfolding shot_inv_def by auto

text \<open>A completion without a buffer, of a request that had none.\<close>

lemma completed_inv:
  assumes inv: "shot_inv y" and q: "q \<in># ms_inflight y" "shot_takes (ss_data (sr_sqe q)) None = []"
    and none: "\<And>f. shot_takes (ss_data (sr_sqe q)) (Some (res, f)) = []"
  shows "shot_inv ((shot_completed q alive res 0 y)\<lparr>ms_fds := fds, ms_socks := cns\<rparr>)"
    "shot_inv (shot_completed q alive res 0 y)"
proof -
  have "shot_taken (shot_completed q alive res 0 y) = shot_taken y"
    using taken_completed [OF q(1), of alive res 0] q(2) none by simp
  then show "shot_inv ((shot_completed q alive res 0 y)\<lparr>ms_fds := fds, ms_socks := cns\<rparr>)"
    "shot_inv (shot_completed q alive res 0 y)"
    using completed_parts(2) [of _ q alive res 0 y] by (auto intro: shot_inv_same [OF inv])
qed

lemma inflight_fits:
  assumes "shot_inv y" and "q \<in># ms_inflight y"
  shows "data_fits (sr_sqe q)"
  using assms by (simp add: shot_inv_def)

lemma accept_data:
  assumes "shot_inv y" and "q \<in># ms_inflight y" and "ss_io (sr_sqe q) = SAccept l"
  obtains l' where "ss_data (sr_sqe q) = ShotAccept l'"
  using inflight_fits [OF assms(1,2)] assms(3) that by (auto simp: data_fits_def)

lemma recv_data:
  assumes "shot_inv y" and "q \<in># ms_inflight y" and "ss_io (sr_sqe q) = SRecv fd"
  obtains fd' where "ss_data (sr_sqe q) = ShotRecv fd'"
  using inflight_fits [OF assms(1,2)] assms(3) that by (auto simp: data_fits_def)

lemma send_completed_inv:
  assumes inv: "shot_inv y" and q: "q \<in># ms_inflight y" "ss_io (sr_sqe q) = SSend fd addr len"
  shows "shot_inv ((shot_completed q False res 0 y)\<lparr>ms_socks := cns\<rparr>)" "shot_inv (shot_completed q False res 0 y)"
proof -
  from inflight_fits [OF inv q(1)] q(2) obtain fd' bid total off rearm
    where "ss_data (sr_sqe q) = ShotSend fd' bid total off rearm" by (auto simp: data_fits_def)
  with taken_completed [OF q(1), of False res 0] have "shot_taken (shot_completed q False res 0 y) = shot_taken y" by simp
  then show "shot_inv ((shot_completed q False res 0 y)\<lparr>ms_socks := cns\<rparr>)" "shot_inv (shot_completed q False res 0 y)"
    using completed_parts(2) [of _ q False res 0 y] by (auto intro: shot_inv_same [OF inv])
qed

lemma recv_completed_inv:
  assumes inv: "shot_inv y" and q: "q \<in># ms_inflight y" "ss_io (sr_sqe q) = SRecv fd"
    and ring: "sh_ring (ms_server y) = r # rs" and bs: "bs \<noteq> []"
  shows "shot_inv ((shot_completed q alive (int (length bs)) (buffer_flags (re_bid r)) y)
    \<lparr>ms_server := (ms_server y)\<lparr>sh_ring := rs\<rparr>, ms_mem := mem, ms_socks := cns\<rparr>)" (is "shot_inv ?y'")
proof -
  from recv_data [OF inv q] obtain fd' where data: "ss_data (sr_sqe q) = ShotRecv fd'" .
  from inv ring obtain b bids where b: "r = pool_entry b" "rs = map pool_entry bids"
    "mset (b # bids) + shot_taken y = mset [0..<NUM_BUFS]"
    unfolding shot_inv_def by (metis (no_types, lifting) map_eq_Cons_conv)
  from b(3) have "b \<in># mset [0..<NUM_BUFS]" by (metis in_multiset_in_set list.set_intros(1) union_iff)
  then have "b < NUM_BUFS" by simp
  note ids = buffer_flags_id [OF this] more_flags [OF this]
  let ?c = "shot_completed q alive (int (length bs)) (buffer_flags (re_bid r)) y"
  have "shot_taken ?c = add_mset b (shot_taken y)"
    using taken_completed [OF q(1), of alive "int (length bs)" "buffer_flags (re_bid r)"] ids bs
    by (simp add: data b(1) pool_entry_def split: if_splits)
  then have "shot_taken ?y' = add_mset b (shot_taken y)"
    by (simp add: shot_taken_def shot_completed_def)
  moreover have "\<forall>p \<in># shot_requests ?y'. data_fits p"
  proof -
    have "p \<in># ms_inflight ?y' \<Longrightarrow> p \<in># ms_inflight y" for p
      using completed_parts(2) [of p q alive _ _ y] by simp
    then show ?thesis using inv unfolding shot_inv_def by auto
  qed
  moreover have "sh_ring (ms_server ?y') = map pool_entry bids" by (simp add: b(2))
  ultimately show ?thesis
    using b(3) unfolding shot_inv_def by (auto intro!: exI [of _ bids])
qed

lemma shot_kernel_step_inv:
  assumes "shot_kernel_step y y'" and inv: "shot_inv y"
  shows "shot_inv y'"
  using assms(1)
proof cases
  case (s_accepted q l fd alive)
  from accept_data [OF inv s_accepted(2,3)] obtain l' where "ss_data (sr_sqe q) = ShotAccept l'" .
  with s_accepted inv show ?thesis by (auto intro: completed_inv)
next
  case (s_accept_failed q l res alive)
  from accept_data [OF inv s_accept_failed(2,3)] obtain l' where "ss_data (sr_sqe q) = ShotAccept l'" .
  with s_accept_failed inv show ?thesis by (auto intro: completed_inv)
next
  case (s_recv_some q fd r rs bs k alive)
  show ?thesis unfolding s_recv_some(1) by (rule recv_completed_inv [OF inv s_recv_some(2-5)])
next
  case (s_recv_none q fd res)
  from recv_data [OF inv s_recv_none(2,3)] obtain fd' where "ss_data (sr_sqe q) = ShotRecv fd'" .
  with s_recv_none inv show ?thesis by (auto intro: completed_inv)
next
  case (s_send_some q fd addr len n k)
  with inv show ?thesis by (auto intro: send_completed_inv)
next
  case (s_send_none q fd addr len res)
  with inv show ?thesis by (auto intro: send_completed_inv)
qed

text \<open>
  What the treatment of a completion does to the server: requests \<open>qs\<close> are queued, buffers \<open>bs\<close> go back to the ring, and
  together they hold the buffers the completion had.
\<close>

definition shot_effect :: "nat list \<Rightarrow> shot_server \<Rightarrow> shot_server \<Rightarrow> bool" where
  "shot_effect held sv sv' \<longleftrightarrow> (\<exists>qs bs. sh_sq sv' = sh_sq sv @ qs \<and> sh_ring sv' = sh_ring sv @ map pool_entry bs \<and>
     mset bs + \<Sum>\<^sub># (image_mset (\<lambda>s. mset (shot_takes (ss_data s) None)) (mset qs)) = mset held \<and> (\<forall>q \<in> set qs. data_fits q))"

lemma shot_effect_refl: "shot_effect [] sv sv"
  unfolding shot_effect_def by (intro exI [of _ "[]"]) simp

lemma shot_effect_trans:
  assumes "shot_effect as sv sv1" and "shot_effect bs sv1 sv2"
  shows "shot_effect (as @ bs) sv sv2"
proof -
  from assms obtain q1 b1 q2 b2 where *:
    "sh_sq sv1 = sh_sq sv @ q1" "sh_ring sv1 = sh_ring sv @ map pool_entry b1"
    "mset b1 + \<Sum>\<^sub># (image_mset (\<lambda>s. mset (shot_takes (ss_data s) None)) (mset q1)) = mset as" "\<forall>q \<in> set q1. data_fits q"
    "sh_sq sv2 = sh_sq sv1 @ q2" "sh_ring sv2 = sh_ring sv1 @ map pool_entry b2"
    "mset b2 + \<Sum>\<^sub># (image_mset (\<lambda>s. mset (shot_takes (ss_data s) None)) (mset q2)) = mset bs" "\<forall>q \<in> set q2. data_fits q"
    unfolding shot_effect_def by blast
  show ?thesis
    unfolding shot_effect_def
    by (intro exI [of _ "q1 @ q2"] exI [of _ "b1 @ b2"])
      (use * in \<open>auto simp flip: *(3,7) simp: ac_simps\<close>)
qed

lemma shot_effect_clients [simp]:
  "shot_effect held (sv\<lparr>sh_clients := c\<rparr>) sv' = shot_effect held sv sv'"
  "shot_effect held sv (sv'\<lparr>sh_clients := c\<rparr>) = shot_effect held sv sv'"
  by (simp_all add: shot_effect_def)

lemma shot_effect_recycle: "shot_effect [bid] sv (shot_recycle bid sv)"
  unfolding shot_effect_def shot_recycle_def by (intro exI [of _ "[]"] exI [of _ "[bid]"]) simp

lemma shot_effect_sqe:
  assumes "shot_get_sqe depth io ev sv = Inr sv'" and "data_fits \<lparr>ss_io = io, ss_data = ev\<rparr>"
  shows "shot_effect (shot_takes ev None) sv sv'"
  unfolding shot_effect_def using assms
  by (intro exI [of _ "[\<lparr>ss_io = io, ss_data = ev\<rparr>]"] exI [of _ "[]"]) (auto simp: shot_get_sqe_def split: if_splits)

lemma shot_effect_recv:
  assumes "queue_multishot_recv depth fd sv = Inr sv'"
  shows "shot_effect [] sv sv'"
  using shot_effect_sqe [OF assms [unfolded queue_multishot_recv_def]] by (simp add: data_fits_def)

lemma shot_effect_send:
  assumes "shot_queue_send depth fd bid len off rearm sv = Inr sv'"
  shows "shot_effect [bid] sv sv'"
  using shot_effect_sqe [OF assms [unfolded shot_queue_send_def]] by (simp add: data_fits_def)

lemma shot_effect_accept:
  assumes "shot_get_sqe depth (SAccept l) (ShotAccept l') sv = Inr sv'"
  shows "shot_effect [] sv sv'"
  using shot_effect_sqe [OF assms] by (simp add: data_fits_def)

lemma shot_effect_drop:
  assumes "shot_drop_client fd sv = Inr (sv', fds)"
  shows "shot_effect [] sv sv'"
  using assms by (auto simp: shot_drop_client_def shot_effect_refl)

lemma shot_accepted_effect:
  assumes "shot_accepted depth l alive res sv = Inr (sv', fds)"
  shows "shot_effect [] sv sv'"
proof -
  from assms obtain sv1 where
    "(if res \<ge> 0 then queue_multishot_recv depth res (sv\<lparr>sh_clients := insert res (sh_clients sv)\<rparr>) else Inr sv) = Inr sv1"
    and "(if \<not> alive then shot_get_sqe depth (SAccept l) (ShotAccept l) sv1 else Inr sv1) = Inr sv'"
    unfolding shot_accepted_def by (auto simp: bindR_Inr_iff)
  then have "shot_effect [] sv sv1" "shot_effect [] sv1 sv'"
    by (auto split: if_splits dest!: shot_effect_recv shot_effect_accept simp: shot_effect_refl)
  from shot_effect_trans [OF this] show ?thesis by simp
qed

lemma shot_received_effect:
  assumes "shot_received depth fd alive res flags sv = Inr (sv', fds)"
  shows "shot_effect (shot_takes (ShotRecv fd) (Some (res, flags))) sv sv'"
  using assms unfolding shot_received_def
  by (auto simp: bindR_Inr_iff ENOBUFS_def split: if_splits dest: shot_effect_recv shot_effect_drop shot_effect_send)

lemma shot_sent_effect:
  assumes "shot_sent depth fd bid len off rearm res sv = Inr (sv', fds)"
  shows "shot_effect [bid] sv sv'"
proof -
  note recycled = shot_effect_trans [OF shot_effect_recycle [of bid sv], of "[]", simplified]
  from assms show ?thesis
    unfolding shot_sent_def
    by (auto simp: bindR_Inr_iff Let_def shot_effect_recycle split: if_splits
        dest: shot_effect_recv shot_effect_drop shot_effect_send intro: recycled)
qed

lemma shot_handle_effect:
  assumes "shot_handle depth l e sv = Inr (sv', fds)"
  shows "shot_effect (shot_takes (sc_data e) (Some (sc_res e, sc_flags e))) sv sv'"
  using assms unfolding shot_handle_def
  by (cases "sc_data e") (auto simp del: shot_takes.simps(3) simp: Let_def
      dest: shot_accepted_effect shot_received_effect shot_sent_effect)

lemma shot_loop_step_inv:
  assumes "shot_loop_step depth l y y'" and inv: "shot_inv y"
  shows "shot_inv y'"
  using assms(1)
proof cases
  case s_submit
  have "image_mset sr_sqe (image_mset (shot_request_of fds) M) = M" for fds M
    by (simp add: multiset.map_comp comp_def shot_request_of_def)
  with s_submit have "shot_requests y' = shot_requests y" by simp
  moreover from s_submit have "sh_ring (ms_server y') = sh_ring (ms_server y)" "ms_cq y' = ms_cq y" by simp_all
  ultimately show ?thesis using inv by (simp only: shot_inv_def shot_taken_def simp_thms) blast
next
  case s_wake
  with inv show ?thesis by (simp add: shot_inv_def)
next
  case (s_treat n e es sv fds)
  from shot_handle_effect [OF s_treat(4)] obtain qs bs where *:
    "sh_sq sv = sh_sq (ms_server y) @ qs" "sh_ring sv = sh_ring (ms_server y) @ map pool_entry bs"
    "mset bs + \<Sum>\<^sub># (image_mset (\<lambda>s. mset (shot_takes (ss_data s) None)) (mset qs)) =
      mset (shot_takes (sc_data e) (Some (sc_res e, sc_flags e)))" "\<forall>q \<in> set qs. data_fits q"
    unfolding shot_effect_def by blast
  have "shot_taken y' + mset bs = shot_taken y"
    unfolding s_treat(1) by (simp add: shot_taken_def s_treat(3) *(1) ac_simps flip: *(3))
  moreover from inv obtain bids where "sh_ring (ms_server y) = map pool_entry bids" "mset bids + shot_taken y = mset [0..<NUM_BUFS]"
    unfolding shot_inv_def by blast
  moreover have "\<forall>q \<in># shot_requests y'. data_fits q"
    using inv *(4) unfolding s_treat(1) shot_inv_def by (auto simp: *(1))
  ultimately show ?thesis
    unfolding shot_inv_def
    by (intro conjI exI [of _ "bids @ bs"]) (auto simp: s_treat(1) *(2) ac_simps)
qed

lemma shot_run_inv: "shot_run depth l y \<Longrightarrow> shot_inv y"
proof (induction rule: shot_run.induct)
  case s_start
  show ?case by (auto simp: shot_inv_def shot_start_def shot_taken_def data_fits_def)
qed (auto intro: shot_kernel_step_inv shot_loop_step_inv)

text \<open>C9. In the multi-shot server every buffer of the pool is in the ring or held by one request or completion, and none is
  held twice, however many completions a request has and in whatever order they are treated.\<close>

theorem multishot_buffers_conserved:
  assumes "shot_run depth l y"
  shows "\<exists>bids. sh_ring (ms_server y) = map pool_entry bids \<and> mset bids + shot_taken y = mset [0..<NUM_BUFS]"
  using shot_run_inv [OF assms] unfolding shot_inv_def by (rule conjunct1)

section \<open>Runs of the server\<close>

text \<open>Between two rounds nothing is queued and no completion is counted.\<close>

definition shot_state ::
  "ring_entry list \<Rightarrow> int set \<Rightarrow> shot_request multiset \<Rightarrow> shot_cqe list \<Rightarrow> (int \<Rightarrow> nat option) \<Rightarrow> conn list \<Rightarrow>
   u8 list \<Rightarrow> int list \<Rightarrow> shot_sys" where
  "shot_state ring cls infl cq fds socks mem closed =
     \<lparr>ms_server = \<lparr>sh_ring = ring, sh_clients = cls, sh_sq = []\<rparr>, ms_inflight = infl, ms_cq = cq, ms_fds = fds,
      ms_socks = socks, ms_mem = mem, ms_ready = 0, ms_closed = closed\<rparr>"

lemma shot_treat_one:
  assumes "shot_run d l (shot_state ring cls infl [e] fds socks mem closed)"
    and "shot_handle d l e \<lparr>sh_ring = ring, sh_clients = cls, sh_sq = []\<rparr> =
      Inr (\<lparr>sh_ring = ring', sh_clients = cls', sh_sq = sq'\<rparr>, gone)"
  shows "shot_run d l (shot_state ring' cls' (infl + image_mset (shot_request_of (shot_close gone fds)) (mset sq')) []
    (shot_close gone fds) socks mem (closed @ gone))"
proof -
  have w: "shot_run d l ((shot_state ring cls infl [e] fds socks mem closed)\<lparr>ms_ready := 1\<rparr>)"
    using s_loop [OF assms(1) s_wake] by (simp add: shot_state_def)
  have t: "shot_run d l ((shot_state ring' cls' infl [] (shot_close gone fds) socks mem (closed @ gone))
      \<lparr>ms_server := \<lparr>sh_ring = ring', sh_clients = cls', sh_sq = sq'\<rparr>\<rparr>)"
    using s_loop [OF w s_treat [of _ 0 e "[]"]] assms(2) by (simp add: shot_state_def)
  show ?thesis
    using s_loop [OF t s_submit] by (simp add: shot_state_def)
qed

lemma shot_close_simps [simp]: "shot_close [] fds = fds" "shot_close [fd] [fd \<mapsto> k] = (\<lambda>_. None)"
  by (simp_all add: shot_close_def fun_eq_iff)

definition shot_accept_3 :: shot_request where
  "shot_accept_3 = \<lparr>sr_sqe = \<lparr>ss_io = SAccept 3, ss_data = ShotAccept 3\<rparr>, sr_sock = None\<rparr>"
definition shot_recv_5 :: "nat \<Rightarrow> shot_request" where
  "shot_recv_5 k = \<lparr>sr_sqe = \<lparr>ss_io = SRecv 5, ss_data = ShotRecv 5\<rparr>, sr_sock = Some k\<rparr>"
definition shot_send_5 :: "nat \<Rightarrow> nat \<Rightarrow> shot_request" where
  "shot_send_5 bid n = \<lparr>sr_sqe = \<lparr>ss_io = SSend 5 (bid * POOL_BUF_SIZE) n, ss_data = ShotSend 5 bid n 0 False\<rparr>, sr_sock = Some 0\<rparr>"

abbreviation no_bytes :: conn where "no_bytes \<equiv> \<lparr>cn_in = [], cn_out = []\<rparr>"

text \<open>A client connects as descriptor 5; both requests stay in flight.\<close>

lemma shot_waiting_run:
  "shot_run 4096 3 (shot_state all_entries {5} {#shot_accept_3, shot_recv_5 0#} [] [5 \<mapsto> 0] [no_bytes] fresh_mem [])"
proof -
  have "shot_run 4096 3 (shot_state all_entries {} {#shot_accept_3#} [] (\<lambda>_. None) [] fresh_mem [])"
    using s_loop [OF s_start [of 4096 3] s_submit]
    by (simp add: shot_start_def shot_state_def shot_accept_3_def all_entries_def fresh_mem_def shot_request_of_def)
  from s_kernel [OF this s_accepted [of shot_accept_3 _ 3 5 True]]
  have "shot_run 4096 3 (shot_state all_entries {} {#shot_accept_3#} [\<lparr>sc_data = ShotAccept 3, sc_res = 5, sc_flags = 2\<rparr>]
      [5 \<mapsto> 0] [no_bytes] fresh_mem [])"
    by (simp add: shot_state_def shot_completed_def shot_accept_3_def is_fd_def IORING_CQE_F_MORE_def)
  from shot_treat_one [OF this, of all_entries "{5}" "[\<lparr>ss_io = SRecv 5, ss_data = ShotRecv 5\<rparr>]" "[]"] show ?thesis
    by (simp add: shot_handle_def shot_accepted_def queue_multishot_recv_def shot_get_sqe_def shot_recv_5_def
        shot_request_of_def IORING_CQE_F_MORE_def add_mset_commute)
qed

text \<open>Data arrives while the receive stays in flight: a send is queued, whatever sends there are.\<close>

lemma shot_recv_round:
  assumes run: "shot_run 4096 3 (shot_state (pool_entry b # ring) cls (add_mset (shot_recv_5 0) infl) [] fds [cn] mem closed)"
    and b: "b < NUM_BUFS" and bs: "bs \<noteq> []" "length bs \<le> POOL_BUF_SIZE" and fds: "fds 5 = Some 0"
  shows "shot_run 4096 3 (shot_state ring cls (add_mset (shot_send_5 b (length bs)) (add_mset (shot_recv_5 0) infl)) [] fds
    [cn\<lparr>cn_in := cn_in cn @ bs\<rparr>] (overwrite (b * POOL_BUF_SIZE) bs mem) closed)"
proof -
  note more = more_flags [OF b]
  let ?e = "\<lparr>sc_data = ShotRecv 5, sc_res = int (length bs), sc_flags = buffer_flags b OR IORING_CQE_F_MORE\<rparr>"
  have "shot_run 4096 3 (shot_state ring cls (add_mset (shot_recv_5 0) infl) [?e] fds
      [cn\<lparr>cn_in := cn_in cn @ bs\<rparr>] (overwrite (b * POOL_BUF_SIZE) bs mem) closed)"
    using s_kernel [OF run s_recv_some [of "shot_recv_5 0" _ 5 "pool_entry b" ring bs 0 True]] bs
    by (simp add: shot_state_def shot_recv_5_def shot_completed_def pool_entry_def came_in_def)
  from shot_treat_one [OF this, of ring cls
      "[\<lparr>ss_io = SSend 5 (b * POOL_BUF_SIZE) (length bs), ss_data = ShotSend 5 b (length bs) 0 False\<rparr>]" "[]"]
  show ?thesis
    using more bs(1) fds
    by (simp add: shot_handle_def shot_received_def shot_queue_send_def shot_get_sqe_def ENOBUFS_def shot_request_of_def
        shot_send_5_def)
qed

definition shot_two_sends :: shot_sys where
  "shot_two_sends = shot_state (map pool_entry [2..<NUM_BUFS]) {5}
     {#shot_send_5 1 1, shot_recv_5 0, shot_send_5 0 2, shot_accept_3#} [] [5 \<mapsto> 0] [\<lparr>cn_in = [7, 8, 9], cn_out = []\<rparr>]
     (overwrite POOL_BUF_SIZE [9] (overwrite 0 [7, 8] fresh_mem)) []"

lemma entries_two: "all_entries = pool_entry 0 # pool_entry 1 # map pool_entry [2..<NUM_BUFS]"
  unfolding all_entries_def
  by (subst upt_conv_Cons, simp add: NUM_BUFS_def, subst upt_conv_Cons, simp add: NUM_BUFS_def) (simp add: numeral_2_eq_2)

lemma small_numbers: "0 < NUM_BUFS" "Suc 0 < NUM_BUFS" "Suc 0 \<le> POOL_BUF_SIZE" "2 \<le> POOL_BUF_SIZE"
  by (simp_all add: NUM_BUFS_def POOL_BUF_SIZE_def)

lemma shot_two_sends_run: "shot_run 4096 3 shot_two_sends"
proof -
  have "shot_run 4096 3 (shot_state (pool_entry 0 # pool_entry 1 # map pool_entry [2..<NUM_BUFS]) {5}
      {#shot_recv_5 0, shot_accept_3#} [] [5 \<mapsto> 0] [no_bytes] fresh_mem [])"
    using shot_waiting_run by (simp add: entries_two add_mset_commute)
  from shot_recv_round [OF this, of "[7, 8]"]
  have "shot_run 4096 3 (shot_state (pool_entry 1 # map pool_entry [2..<NUM_BUFS]) {5}
      {#shot_recv_5 0, shot_send_5 0 2, shot_accept_3#} [] [5 \<mapsto> 0] [\<lparr>cn_in = [7, 8], cn_out = []\<rparr>]
      (overwrite 0 [7, 8] fresh_mem) [])"
    using small_numbers by (simp add: add_mset_commute numeral_2_eq_2)
  from shot_recv_round [OF this, of "[9]"] show ?thesis
    using small_numbers by (simp add: shot_two_sends_def)
qed

lemma sent_memory:
  "segment 0 (Suc 0) (overwrite POOL_BUF_SIZE [9] (overwrite 0 [7, 8] fresh_mem)) = [7]"
  "segment POOL_BUF_SIZE (Suc 0) (overwrite POOL_BUF_SIZE [9] (overwrite 0 [7, 8] fresh_mem)) = [9]"
proof -
  have len: "length fresh_mem = NUM_BUFS * POOL_BUF_SIZE" "POOL_BUF_SIZE + 1 \<le> NUM_BUFS * POOL_BUF_SIZE"
    by (simp_all add: fresh_mem_def NUM_BUFS_def POOL_BUF_SIZE_def)
  show "segment 0 (Suc 0) (overwrite POOL_BUF_SIZE [9] (overwrite 0 [7, 8] fresh_mem)) = [7]"
    using len by (simp add: segment_def overwrite_def POOL_BUF_SIZE_def)
  show "segment POOL_BUF_SIZE (Suc 0) (overwrite POOL_BUF_SIZE [9] (overwrite 0 [7, 8] fresh_mem)) = [9]"
    using len by (simp add: segment_def overwrite_def POOL_BUF_SIZE_def)
qed

text \<open>C10. The multi-shot server does not keep the order of a connection's bytes: two sends of it can be in flight, and when
  the first transfers only one byte the second overtakes the rest. A client that sent 7, 8, 9 then has 7, 9.\<close>

theorem multishot_reorders: "\<exists>y. shot_run 4096 3 y \<and> ms_socks y = [\<lparr>cn_in = [7, 8, 9], cn_out = [7, 9]\<rparr>]"
proof -
  note first = s_kernel [OF shot_two_sends_run s_send_some [of "shot_send_5 0 2" _ 5 0 2 "Suc 0" 0]]
  note second = s_kernel [OF first s_send_some [of "shot_send_5 1 1" _ 5 POOL_BUF_SIZE 1 "Suc 0" 0]]
  show ?thesis
    by (rule exI, rule conjI, rule second)
      (simp_all add: shot_two_sends_def shot_state_def shot_send_5_def shot_completed_def went_out_def sent_memory)
qed

text \<open>C11. It closes a descriptor once for each failed send, and the number may stand for another client by then: the
  connection of a client that has just been accepted as descriptor 5 is closed because a send of its predecessor failed.\<close>

theorem multishot_closes_newcomer:
  "\<exists>y y'. shot_run 4096 3 y \<and> shot_loop_step 4096 3 y y' \<and> 5 \<in> sh_clients (ms_server y) \<and>
     ms_fds y 5 = Some 1 \<and> ms_closed y = [5] \<and> ms_fds y' 5 = None \<and> ms_closed y' = [5, 5]"
proof -
  let ?mem = "overwrite POOL_BUF_SIZE [9] (overwrite 0 [7, 8] fresh_mem)"
  let ?ring = "map pool_entry [2..<NUM_BUFS]" and ?old = "\<lparr>cn_in = [7, 8, 9], cn_out = []\<rparr>"
  let ?failed = "\<lambda>bid n. \<lparr>sc_data = ShotSend 5 bid n 0 False, sc_res = - 32, sc_flags = 0\<rparr>"
  have "shot_run 4096 3 (shot_state ?ring {5} {#shot_send_5 1 1, shot_recv_5 0, shot_accept_3#} [?failed 0 2] [5 \<mapsto> 0] [?old] ?mem [])"
    using s_kernel [OF shot_two_sends_run s_send_none [of "shot_send_5 0 2" _ 5 0 2 "- 32"]]
    by (simp add: shot_two_sends_def shot_state_def shot_send_5_def shot_completed_def add_mset_commute)
  from shot_treat_one [OF this, of "?ring @ [pool_entry 0]" "{}" "[]" "[5]"]
  have "shot_run 4096 3 (shot_state (?ring @ [pool_entry 0]) {} {#shot_send_5 1 1, shot_recv_5 0, shot_accept_3#} []
      (\<lambda>_. None) [?old] ?mem [5])"
    by (simp add: shot_handle_def shot_sent_def shot_drop_client_def shot_recycle_def)
  from s_kernel [OF this s_accepted [of shot_accept_3 _ 3 5 True]]
  have "shot_run 4096 3 (shot_state (?ring @ [pool_entry 0]) {} {#shot_send_5 1 1, shot_recv_5 0, shot_accept_3#}
      [\<lparr>sc_data = ShotAccept 3, sc_res = 5, sc_flags = 2\<rparr>] [5 \<mapsto> 1] [?old, no_bytes] ?mem [5])"
    by (simp add: shot_state_def shot_completed_def shot_accept_3_def is_fd_def IORING_CQE_F_MORE_def)
  from shot_treat_one [OF this, of "?ring @ [pool_entry 0]" "{5}" "[\<lparr>ss_io = SRecv 5, ss_data = ShotRecv 5\<rparr>]" "[]"]
  have "shot_run 4096 3 (shot_state (?ring @ [pool_entry 0]) {5}
      {#shot_recv_5 1, shot_send_5 1 1, shot_recv_5 0, shot_accept_3#} [] [5 \<mapsto> 1] [?old, no_bytes] ?mem [5])"
    by (simp add: shot_handle_def shot_accepted_def queue_multishot_recv_def shot_get_sqe_def shot_recv_5_def
        shot_request_of_def IORING_CQE_F_MORE_def)
  from s_kernel [OF this s_send_none [of "shot_send_5 1 1" _ 5 POOL_BUF_SIZE 1 "- 32"]]
  have "shot_run 4096 3 (shot_state (?ring @ [pool_entry 0]) {5}
      {#shot_recv_5 1, shot_recv_5 0, shot_accept_3#} [?failed 1 1] [5 \<mapsto> 1] [?old, no_bytes] ?mem [5])"
    by (simp add: shot_state_def shot_send_5_def shot_recv_5_def shot_accept_3_def shot_completed_def)
  note woken = s_loop [OF this s_wake]
  let ?y = "(shot_state (?ring @ [pool_entry 0]) {5} {#shot_recv_5 1, shot_recv_5 0, shot_accept_3#} [?failed 1 1]
    [5 \<mapsto> 1] [?old, no_bytes] ?mem [5])\<lparr>ms_ready := 1\<rparr>"
  from woken have run: "shot_run 4096 3 ?y" by (simp add: shot_state_def)
  have "shot_handle 4096 3 (?failed 1 1) (ms_server ?y) =
      Inr (\<lparr>sh_ring = ?ring @ [pool_entry 0, pool_entry 1], sh_clients = {}, sh_sq = []\<rparr>, [5])"
    by (simp add: shot_state_def shot_handle_def shot_sent_def shot_drop_client_def shot_recycle_def)
  from s_treat [OF _ _ this, of 0 "[]"] run show ?thesis
    by (intro exI conjI) (assumption | simp add: shot_state_def)+
qed

theorem multishot_buffers_conserved_witness:
  "\<exists>bids. sh_ring (ms_server shot_two_sends) = map pool_entry bids \<and>
    mset bids + shot_taken shot_two_sends = mset [0..<NUM_BUFS]"
  by (rule multishot_buffers_conserved [OF shot_two_sends_run])

end
