(* ===== verification/Coro.thy ===== *)
theory Coro
  imports UringEcho
begin

text \<open>
  Echo servers written with coroutines, as in exercises 12, 14, 15 and 18 of \<open>io_uring/\<close>. A suspended coroutine is a
  value: the place of its \<open>co_await\<close> and its local variables, in a frame at some address. \<open>user_data\<close> of a request points
  into the frame of the coroutine that awaits it, and the event loop resumes that coroutine when the completion comes. The
  programs (CoroServers) differ in the bodies of their coroutines and share the event loop and the kernel, which are here. The
  invariant, proved once for every body that keeps a contract (a locale), says that each live frame has one operation:
  no destroyed coroutine is resumed, the kernel writes into live frames only, and the bytes of a
  connection come back in order.
\<close>

section \<open>Coroutines and requests\<close>

text \<open>Requests name a buffer by the address of the frame that holds it.\<close>

datatype co_io =
    CoAccept int
  | CoRecv int nat nat
  | CoSend int nat nat nat
  | CoCloseSlot int
  | CoPoll int
  | CoLinkTimeout int
  | CoCancel int

text \<open>
  The places where a coroutine is suspended: \<open>accept_loop\<close> at its accept; \<open>client_handler\<close> at its receive, with
  \<open>fd\<close> and \<open>buf\<close>, at its send, with \<open>n\<close> and \<open>total_sent\<close> too, and (exercise 18) at the closing of its slot;
  \<open>signal_watcher\<close> at its poll.
\<close>

datatype coroutine =
    Accepting int
  | Receiving int "u8 list"
  | Sending int "u8 list" nat nat
  | ClosingSlot int
  | Watching int int

definition CO_BUF_SIZE :: nat where "CO_BUF_SIZE = 4096"

text \<open>The request a suspended coroutine at address \<open>a\<close> made: the \<open>await_suspend\<close> of its awaitable.\<close>

fun co_request :: "nat \<Rightarrow> coroutine \<Rightarrow> co_io" where
  "co_request a (Accepting l) = CoAccept l"
| "co_request a (Receiving fd buf) = CoRecv fd a CO_BUF_SIZE"
| "co_request a (Sending fd buf n total_sent) = CoSend fd a total_sent (n - total_sent)"
| "co_request a (ClosingSlot slot) = CoCloseSlot slot"
| "co_request a (Watching signal_fd l) = CoPoll signal_fd"

text \<open>\<open>user_data\<close>: a coroutine to resume, or a completion the loop skips (a null pointer, or a request with the handle
  of \<open>noop_coroutine\<close>).\<close>

datatype co_data = ToFrame nat | Ignored

record co_sqe =
  cs_io :: co_io
  cs_data :: co_data

record co_cqe =
  ce_data :: co_data
  ce_res :: int

text \<open>The frames that are alive, the submission queue, and the variables the coroutines of a program share.\<close>

record 's co_server =
  co_frames :: "nat \<Rightarrow> coroutine option"
  co_sq :: "co_sqe list"
  co_state :: 's

text \<open>
  What a coroutine does from its resumption to its next suspension or its end: the shared variables after it, the
  coroutines it started, requests it queued without awaiting them, where it is suspended next
  (\<open>None\<close>: it has ended and its frame is destroyed), and the descriptors it closed.
\<close>

record 's outcome =
  oc_state :: 's
  oc_spawned :: "coroutine list"
  oc_queued :: "co_io list"
  oc_next :: "coroutine option"
  oc_closed :: "int list"

type_synonym 's body = "'s \<Rightarrow> coroutine \<Rightarrow> int \<Rightarrow> 's outcome"

definition co_suspends :: "'s \<Rightarrow> coroutine \<Rightarrow> 's outcome" where
  "co_suspends s c = \<lparr>oc_state = s, oc_spawned = [], oc_queued = [], oc_next = Some c, oc_closed = []\<rparr>"

definition co_returns :: "'s \<Rightarrow> int list \<Rightarrow> 's outcome" where
  "co_returns s fds = \<lparr>oc_state = s, oc_spawned = [], oc_queued = [], oc_next = None, oc_closed = fds\<rparr>"

definition co_starts :: "'s \<Rightarrow> coroutine \<Rightarrow> coroutine \<Rightarrow> 's outcome" where
  "co_starts s started c = \<lparr>oc_state = s, oc_spawned = [started], oc_queued = [], oc_next = Some c, oc_closed = []\<rparr>"

text \<open>\<open>std::array<char, 4096> buf{}\<close>\<close>

definition co_buf :: "u8 list" where "co_buf = replicate CO_BUF_SIZE 0"

section \<open>The event loop\<close>

text \<open>
  \<open>get_sqe\<close> throws when the queue is full; in a coroutine this ends the program
  (\<open>unhandled_exception\<close> calls \<open>std::terminate\<close>).
\<close>

primrec co_queue :: "nat \<Rightarrow> co_sqe list \<Rightarrow> 's co_server \<Rightarrow> 's co_server res" where
  "co_queue depth [] sv = Inr sv"
| "co_queue depth (q # qs) sv =
     (if length (co_sq sv) \<ge> depth then Inl (RuntimeError ''submission queue is full'')
      else co_queue depth qs (sv\<lparr>co_sq := co_sq sv @ [q]\<rparr>))"

definition ignored_sqe :: "co_io \<Rightarrow> co_sqe" where
  "ignored_sqe io = \<lparr>cs_io = io, cs_data = Ignored\<rparr>"

definition frame_sqe :: "nat \<Rightarrow> coroutine \<Rightarrow> co_sqe" where
  "frame_sqe a c = \<lparr>cs_io = co_request a c, cs_data = ToFrame a\<rparr>"

text \<open>The coroutine at \<open>a\<close> is suspended at \<open>c\<close>.\<close>

definition co_await :: "(coroutine \<Rightarrow> co_io list) \<Rightarrow> nat \<Rightarrow> nat \<Rightarrow> coroutine \<Rightarrow> 's co_server \<Rightarrow> 's co_server res" where
  "co_await companions depth a c sv =
     co_queue depth (frame_sqe a c # map ignored_sqe (companions c)) (sv\<lparr>co_frames := (co_frames sv)(a \<mapsto> c)\<rparr>)"

text \<open>New coroutines get frames at the addresses the allocator gives.\<close>

fun co_spawn :: "(coroutine \<Rightarrow> co_io list) \<Rightarrow> nat \<Rightarrow> nat list \<Rightarrow> coroutine list \<Rightarrow> 's co_server \<Rightarrow> 's co_server res" where
  "co_spawn companions depth _ [] sv = Inr sv"
| "co_spawn companions depth (a # as) (c # cs) sv = bindR (co_await companions depth a c sv) (co_spawn companions depth as cs)"
| "co_spawn companions depth [] (c # cs) sv = Inl (RuntimeError ''bad_alloc'')"

definition co_resume ::
  "'s body \<Rightarrow> (coroutine \<Rightarrow> co_io list) \<Rightarrow> nat \<Rightarrow> nat list \<Rightarrow> nat \<Rightarrow> int \<Rightarrow> 's co_server \<Rightarrow> ('s co_server \<times> int list) res" where
  "co_resume body companions depth fresh a res sv =
     (case co_frames sv a of
        None \<Rightarrow> Inl (Undefined ''resume of a destroyed coroutine'')
      | Some c \<Rightarrow>
          let oc = body (co_state sv) c res in
          bindR (co_spawn companions depth fresh (oc_spawned oc) (sv\<lparr>co_state := oc_state oc\<rparr>)) (\<lambda>sv.
          bindR (co_queue depth (map ignored_sqe (oc_queued oc)) sv) (\<lambda>sv.
          bindR (case oc_next oc of None \<Rightarrow> Inr (sv\<lparr>co_frames := (co_frames sv)(a := None)\<rparr>)
                 | Some c' \<Rightarrow> co_await companions depth a c' sv) (\<lambda>sv.
          Inr (sv, oc_closed oc)))))"

definition co_handle ::
  "'s body \<Rightarrow> (coroutine \<Rightarrow> co_io list) \<Rightarrow> nat \<Rightarrow> nat list \<Rightarrow> co_cqe \<Rightarrow> 's co_server \<Rightarrow> ('s co_server \<times> int list) res" where
  "co_handle body companions depth fresh e sv =
     (case ce_data e of Ignored \<Rightarrow> Inr (sv, []) | ToFrame a \<Rightarrow> co_resume body companions depth fresh a (ce_res e) sv)"

record 's co_sys =
  cy_server :: "'s co_server"
  cy_inflight :: "co_sqe multiset"
  cy_cq :: "co_cqe list"
  cy_conns :: "int \<Rightarrow> conn option"
  cy_ready :: nat

definition co_completed :: "co_sqe \<Rightarrow> int \<Rightarrow> 's co_sys \<Rightarrow> 's co_sys" where
  "co_completed q res y =
     y\<lparr>cy_inflight := cy_inflight y - {#q#}, cy_cq := cy_cq y @ [\<lparr>ce_data = cs_data q, ce_res = res\<rparr>]\<rparr>"

fun co_buffer :: "coroutine \<Rightarrow> u8 list option" where
  "co_buffer (Receiving fd buf) = Some buf"
| "co_buffer (Sending fd buf n total_sent) = Some buf"
| "co_buffer _ = None"

fun co_received :: "u8 list \<Rightarrow> coroutine \<Rightarrow> coroutine" where
  "co_received bs (Receiving fd buf) = Receiving fd (overwrite 0 bs buf)"
| "co_received bs (Sending fd buf n total_sent) = Sending fd (overwrite 0 bs buf) n total_sent"
| "co_received bs c = c"

text \<open>
  The kernel. Descriptors and registered slots are both numbers of connections; the closing of a slot is a
  request. A cancelled request completes like a failed one.
\<close>

inductive co_kernel_step :: "'s co_sys \<Rightarrow> 's co_sys \<Rightarrow> bool" where
  k_accepted: "q \<in># cy_inflight y \<Longrightarrow> cs_io q = CoAccept l \<Longrightarrow> is_fd fd \<Longrightarrow> cy_conns y fd = None \<Longrightarrow>
    co_kernel_step y ((co_completed q fd y)\<lparr>cy_conns := (cy_conns y)(fd \<mapsto> \<lparr>cn_in = [], cn_out = []\<rparr>)\<rparr>)"
| k_accept_failed: "q \<in># cy_inflight y \<Longrightarrow> cs_io q = CoAccept l \<Longrightarrow> res < 0 \<Longrightarrow> co_kernel_step y (co_completed q res y)"
| k_recv_some: "q \<in># cy_inflight y \<Longrightarrow> cs_io q = CoRecv fd a len \<Longrightarrow> co_frames (cy_server y) a = Some c \<Longrightarrow>
    cy_conns y fd = Some cn \<Longrightarrow> bs \<noteq> [] \<Longrightarrow> length bs \<le> len \<Longrightarrow>
    co_kernel_step y ((co_completed q (int (length bs)) y)
      \<lparr>cy_server := (cy_server y)\<lparr>co_frames := (co_frames (cy_server y))(a \<mapsto> co_received bs c)\<rparr>,
       cy_conns := (cy_conns y)(fd \<mapsto> cn\<lparr>cn_in := cn_in cn @ bs\<rparr>)\<rparr>)"
| k_recv_none: "q \<in># cy_inflight y \<Longrightarrow> cs_io q = CoRecv fd a len \<Longrightarrow> res \<le> 0 \<Longrightarrow> co_kernel_step y (co_completed q res y)"
| k_send_some: "q \<in># cy_inflight y \<Longrightarrow> cs_io q = CoSend fd a off len \<Longrightarrow> co_frames (cy_server y) a = Some c \<Longrightarrow>
    co_buffer c = Some buf \<Longrightarrow> cy_conns y fd = Some cn \<Longrightarrow> 0 < n \<Longrightarrow> n \<le> len \<Longrightarrow>
    co_kernel_step y ((co_completed q (int n) y)
      \<lparr>cy_conns := (cy_conns y)(fd \<mapsto> cn\<lparr>cn_out := cn_out cn @ segment off n buf\<rparr>)\<rparr>)"
| k_send_none: "q \<in># cy_inflight y \<Longrightarrow> cs_io q = CoSend fd a off len \<Longrightarrow> res \<le> 0 \<Longrightarrow> co_kernel_step y (co_completed q res y)"
| k_slot_closed: "q \<in># cy_inflight y \<Longrightarrow> cs_io q = CoCloseSlot slot \<Longrightarrow>
    co_kernel_step y ((co_completed q 0 y)\<lparr>cy_conns := (cy_conns y)(slot := None)\<rparr>)"
| k_slot_kept: "q \<in># cy_inflight y \<Longrightarrow> cs_io q = CoCloseSlot slot \<Longrightarrow> res < 0 \<Longrightarrow> co_kernel_step y (co_completed q res y)"
| k_other: "q \<in># cy_inflight y \<Longrightarrow> cs_io q \<in> {CoPoll n, CoLinkTimeout n, CoCancel n} \<Longrightarrow> co_kernel_step y (co_completed q res y)"

text \<open>The loop ends, before it waits again, when \<open>stop\<close> holds of the shared variables (exercise 15).\<close>

inductive co_loop_step ::
  "'s body \<Rightarrow> (coroutine \<Rightarrow> co_io list) \<Rightarrow> ('s \<Rightarrow> bool) \<Rightarrow> nat \<Rightarrow> 's co_sys \<Rightarrow> 's co_sys \<Rightarrow> bool"
  for body companions stop depth where
  l_submit: "cy_ready y = 0 \<Longrightarrow> \<not> stop (co_state (cy_server y)) \<Longrightarrow>
    co_loop_step body companions stop depth y
      (y\<lparr>cy_inflight := cy_inflight y + mset (co_sq (cy_server y)), cy_server := (cy_server y)\<lparr>co_sq := []\<rparr>\<rparr>)"
| l_wake: "cy_ready y = 0 \<Longrightarrow> \<not> stop (co_state (cy_server y)) \<Longrightarrow> co_sq (cy_server y) = [] \<Longrightarrow> cy_cq y \<noteq> [] \<Longrightarrow>
    co_loop_step body companions stop depth y (y\<lparr>cy_ready := length (cy_cq y)\<rparr>)"
| l_treat: "cy_ready y = Suc n \<Longrightarrow> cy_cq y = e # es \<Longrightarrow> distinct fresh \<Longrightarrow>
    (\<forall>a \<in> set fresh. co_frames (cy_server y) a = None) \<Longrightarrow>
    co_handle body companions depth fresh e (cy_server y) = Inr (sv, fds) \<Longrightarrow>
    co_loop_step body companions stop depth y
      (y\<lparr>cy_server := sv, cy_cq := es, cy_conns := close_all fds (cy_conns y), cy_ready := n\<rparr>)"

inductive co_run ::
  "'s body \<Rightarrow> (coroutine \<Rightarrow> co_io list) \<Rightarrow> ('s \<Rightarrow> bool) \<Rightarrow> nat \<Rightarrow> 's co_sys \<Rightarrow> 's co_sys \<Rightarrow> bool"
  for body companions stop depth start where
  r_start: "co_run body companions stop depth start start"
| r_kernel: "co_run body companions stop depth start y \<Longrightarrow> co_kernel_step y y' \<Longrightarrow> co_run body companions stop depth start y'"
| r_loop: "co_run body companions stop depth start y \<Longrightarrow> co_loop_step body companions stop depth y y' \<Longrightarrow>
    co_run body companions stop depth start y'"

text \<open>The coroutines that \<open>main\<close> starts run to their first \<open>co_await\<close>; their frames are at the given addresses.\<close>

definition co_main :: "'s \<Rightarrow> (nat \<times> coroutine) list \<Rightarrow> 's co_sys" where
  "co_main s cs = \<lparr>cy_server = \<lparr>co_frames = map_of cs, co_sq = map (\<lambda>(a, c). frame_sqe a c) cs, co_state = s\<rparr>,
     cy_inflight = {#}, cy_cq = [], cy_conns = (\<lambda>_. None), cy_ready = 0\<rparr>"

section \<open>One operation for each live frame\<close>

text \<open>
  The operations that will resume a coroutine: the address of its frame, and the result when it has completed. A view
  assigns to each address its coroutine and the result of its operation; it fits a state when the frames and the operations
  are those of the view, so that each live frame has one operation and no operation a destroyed frame.
\<close>

datatype co_token = At nat "int option"

type_synonym view = "nat \<Rightarrow> (coroutine \<times> int option) option"

fun data_tokens :: "co_data \<Rightarrow> int option \<Rightarrow> co_token multiset" where
  "data_tokens (ToFrame a) r = {#At a r#}"
| "data_tokens Ignored r = {#}"

definition co_tokens :: "co_sqe multiset \<Rightarrow> co_cqe multiset \<Rightarrow> co_token multiset" where
  "co_tokens M C = \<Sum>\<^sub># (image_mset (\<lambda>q. data_tokens (cs_data q) None) M) +
     \<Sum>\<^sub># (image_mset (\<lambda>e. data_tokens (ce_data e) (Some (ce_res e))) C)"

definition frames_match :: "(nat \<Rightarrow> coroutine option) \<Rightarrow> co_token multiset \<Rightarrow> view \<Rightarrow> bool" where
  "frames_match F T W \<longleftrightarrow> finite (dom W) \<and> (\<forall>a. F a = map_option fst (W a)) \<and>
     T = image_mset (\<lambda>a. At a (snd (the (W a)))) (mset_set (dom W))"

text \<open>A request that nobody awaits transfers nothing.\<close>

definition idle_io :: "co_io \<Rightarrow> bool" where
  "idle_io io \<longleftrightarrow> (\<exists>n. io \<in> {CoLinkTimeout n, CoCancel n})"

definition request_ok :: "(nat \<Rightarrow> coroutine option) \<Rightarrow> co_sqe \<Rightarrow> bool" where
  "request_ok F q \<longleftrightarrow>
     (case cs_data q of ToFrame a \<Rightarrow> \<exists>c. F a = Some c \<and> cs_io q = co_request a c | Ignored \<Rightarrow> idle_io (cs_io q))"

definition co_matches :: "(nat \<Rightarrow> coroutine option) \<Rightarrow> co_sqe multiset \<Rightarrow> co_cqe multiset \<Rightarrow> view \<Rightarrow> bool" where
  "co_matches F M C W \<longleftrightarrow> frames_match F (co_tokens M C) W \<and> (\<forall>q \<in># M. request_ok F q)"

lemma co_tokens_simps [simp]:
  "co_tokens (add_mset q M) C = data_tokens (cs_data q) None + co_tokens M C"
  "co_tokens M (add_mset e C) = data_tokens (ce_data e) (Some (ce_res e)) + co_tokens M C"
  "co_tokens {#} {#} = {#}"
  by (simp_all add: co_tokens_def ac_simps)

lemma frames_match_remove:
  assumes "frames_match F (add_mset (At a r) T) W"
  obtains c where "W a = Some (c, r)" and "F a = Some c" and "frames_match (F(a := None)) T (W(a := None))"
    and "\<And>r'. At a r' \<notin># T"
proof -
  from assms have fin: "finite (dom W)" and F: "\<And>a. F a = map_option fst (W a)"
    and T: "add_mset (At a r) T = image_mset (\<lambda>a. At a (snd (the (W a)))) (mset_set (dom W))"
    by (simp_all add: frames_match_def)
  from T have "At a r \<in># image_mset (\<lambda>a. At a (snd (the (W a)))) (mset_set (dom W))" by (metis union_single_eq_member)
  then obtain c where a: "W a = Some (c, r)" using fin by auto
  then have "mset_set (dom W) = add_mset a (mset_set (dom W - {a}))" using fin by (intro mset_set.remove) auto
  with T a have T': "T = image_mset (\<lambda>a. At a (snd (the (W a)))) (mset_set (dom W - {a}))" by simp
  also have "\<dots> = image_mset (\<lambda>b. At b (snd (the ((W(a := None)) b)))) (mset_set (dom (W(a := None))))"
    using fin by (auto intro: image_mset_cong)
  finally have "frames_match (F(a := None)) T (W(a := None))"
    using fin F by (auto simp: frames_match_def)
  moreover have "At a r' \<notin># T" for r' using fin by (auto simp: T')
  ultimately show thesis using a F that by simp
qed

lemma frames_match_add:
  assumes "frames_match F T W" and "F a = None"
  shows "frames_match (F(a \<mapsto> c)) (add_mset (At a r) T) (W(a \<mapsto> (c, r)))"
proof -
  from assms have fin: "finite (dom W)" and F: "\<And>a. F a = map_option fst (W a)"
    and T: "T = image_mset (\<lambda>a. At a (snd (the (W a)))) (mset_set (dom W))" and a: "a \<notin> dom W"
    by (auto simp: frames_match_def)
  have "image_mset (\<lambda>b. At b (snd (the ((W(a \<mapsto> (c, r))) b)))) (mset_set (dom W)) = T"
    unfolding T using a fin by (intro image_mset_cong) auto
  with fin F a show ?thesis by (simp add: frames_match_def)
qed

lemma request_ok_other:
  assumes "request_ok F q" and "cs_data q \<noteq> ToFrame a" and "\<And>b. b \<noteq> a \<Longrightarrow> F' b = F b"
  shows "request_ok F' q"
  using assms unfolding request_ok_def by (cases "cs_data q") auto

lemma request_not_at:
  assumes "\<And>r. At a r \<notin># co_tokens M C" and "q \<in># M"
  shows "cs_data q \<noteq> ToFrame a"
proof
  assume "cs_data q = ToFrame a"
  with assms(2) have "At a None \<in># co_tokens M C" by (auto dest!: multi_member_split)
  with assms(1) show False by blast
qed

text \<open>The operation at \<open>a\<close> is taken out, and another put in.\<close>

lemma co_matches_completion:
  assumes "co_matches F M (add_mset e C) W" and "ce_data e = ToFrame a"
  obtains c where "W a = Some (c, Some (ce_res e))" and "F a = Some c" and "co_matches (F(a := None)) M C (W(a := None))"
proof -
  from assms have "frames_match F (add_mset (At a (Some (ce_res e))) (co_tokens M C)) W" by (simp add: co_matches_def)
  then obtain c where c: "W a = Some (c, Some (ce_res e))" "F a = Some c"
    "frames_match (F(a := None)) (co_tokens M C) (W(a := None))" "\<And>r'. At a r' \<notin># co_tokens M C"
    by (rule frames_match_remove) (rule that)
  have "\<forall>q \<in># M. request_ok (F(a := None)) q"
    using assms(1) request_not_at [OF c(4)] by (auto simp: co_matches_def intro: request_ok_other [where a = a])
  with c that show thesis by (simp add: co_matches_def)
qed

lemma co_matches_request:
  assumes "co_matches F (add_mset q M) C W" and "cs_data q = ToFrame a"
  obtains c where "W a = Some (c, None)" and "F a = Some c" and "cs_io q = co_request a c"
    and "co_matches (F(a := None)) M C (W(a := None))"
proof -
  from assms have "frames_match F (add_mset (At a None) (co_tokens M C)) W" by (simp add: co_matches_def)
  then obtain c where c: "W a = Some (c, None)" "F a = Some c"
    "frames_match (F(a := None)) (co_tokens M C) (W(a := None))" "\<And>r'. At a r' \<notin># co_tokens M C"
    by (rule frames_match_remove) (rule that)
  have "\<forall>q \<in># M. request_ok (F(a := None)) q"
    using assms(1) request_not_at [OF c(4)] by (auto simp: co_matches_def intro: request_ok_other [where a = a])
  moreover have "cs_io q = co_request a c" using assms c(2) by (simp add: co_matches_def request_ok_def)
  ultimately show thesis using c that by (simp add: co_matches_def)
qed

lemma co_matches_answered:
  assumes "co_matches F M C W" and "F a = None"
  shows "co_matches (F(a \<mapsto> c)) M (add_mset \<lparr>ce_data = ToFrame a, ce_res = res\<rparr> C) (W(a \<mapsto> (c, Some res)))"
proof -
  have "request_ok (F(a \<mapsto> c)) q" if "q \<in># M" for q
    using assms that by (auto simp: co_matches_def request_ok_def split: co_data.splits)
  with assms show ?thesis by (simp add: co_matches_def frames_match_add)
qed

lemma co_matches_asked:
  assumes "co_matches F M C W" and "F a = None"
  shows "co_matches (F(a \<mapsto> c)) (add_mset (frame_sqe a c) M) C (W(a \<mapsto> (c, None)))"
proof -
  have "request_ok (F(a \<mapsto> c)) q" if "q \<in># M" for q
    using assms that by (auto simp: co_matches_def request_ok_def split: co_data.splits)
  with assms show ?thesis by (simp add: co_matches_def frames_match_add frame_sqe_def request_ok_def)
qed

lemma co_matches_idle:
  assumes "co_matches F M C W" and "list_all idle_io ios"
  shows "co_matches F (M + mset (map ignored_sqe ios)) C W"
  using assms(2) by (induction ios) (use assms(1) in \<open>auto simp: co_matches_def ignored_sqe_def request_ok_def\<close>)

lemma co_matches_ignored:
  "ce_data e = Ignored \<Longrightarrow> co_matches F M (add_mset e C) W = co_matches F M C W"
  "co_matches F (add_mset q M) C W \<Longrightarrow> cs_data q = Ignored \<Longrightarrow> co_matches F M C W"
  "co_matches F (add_mset q M) C W \<Longrightarrow> cs_data q = Ignored \<Longrightarrow> idle_io (cs_io q)"
  by (auto simp: co_matches_def request_ok_def)

section \<open>What the resumption of a coroutine does\<close>

lemma co_queue_Inr: "co_queue depth qs sv = Inr sv' \<Longrightarrow> sv' = sv\<lparr>co_sq := co_sq sv @ qs\<rparr>"
proof (induction qs arbitrary: sv)
  case (Cons q qs)
  then have "co_queue depth qs (sv\<lparr>co_sq := co_sq sv @ [q]\<rparr>) = Inr sv'" by (simp split: if_splits)
  from Cons.IH [OF this] show ?case by simp
qed simp

lemma co_await_Inr:
  "co_await companions depth a c sv = Inr sv' \<Longrightarrow>
    sv' = sv\<lparr>co_frames := (co_frames sv)(a \<mapsto> c), co_sq := co_sq sv @ frame_sqe a c # map ignored_sqe (companions c)\<rparr>"
  unfolding co_await_def by (drule co_queue_Inr) simp

lemma co_await_matches:
  assumes "co_await companions depth a c sv = Inr sv'" and "list_all idle_io (companions c)"
    and "co_matches F (mset (co_sq sv) + I) C W" and "F a = None"
  shows "co_matches (F(a \<mapsto> c)) (mset (co_sq sv') + I) C (W(a \<mapsto> (c, None)))"
  using co_matches_idle [OF co_matches_asked [OF assms(3,4)] assms(2), of c]
  by (simp add: co_await_Inr [OF assms(1)] ac_simps)

text \<open>While a coroutine runs, its frame is alive but has no operation; the others go on as they were.\<close>

lemma co_spawn_matches:
  assumes "co_spawn companions depth as cs sv = Inr sv'" and "\<And>c. list_all idle_io (companions c)"
    and "co_matches ((co_frames sv)(a0 := None)) (mset (co_sq sv) + I) C W"
    and "distinct as" and "a0 \<notin> set as" and "\<forall>a \<in> set as. co_frames sv a = None"
  shows "co_matches ((co_frames sv')(a0 := None)) (mset (co_sq sv') + I) C (W(as [\<mapsto>] map (\<lambda>c. (c, None)) cs)) \<and>
    co_frames sv' a0 = co_frames sv a0 \<and> co_state sv' = co_state sv \<and> length cs \<le> length as"
  using assms(1,3-6)
proof (induction cs arbitrary: as sv W)
  case Nil
  then show ?case by simp
next
  case (Cons c cs)
  from Cons.prems(1) obtain a as' sv1 where as: "as = a # as'" "co_await companions depth a c sv = Inr sv1"
    "co_spawn companions depth as' cs sv1 = Inr sv'"
    by (cases as) (auto simp: bindR_Inr_iff)
  note sv1 = co_await_Inr [OF as(2)]
  have "co_matches (((co_frames sv)(a0 := None))(a \<mapsto> c)) (mset (co_sq sv1) + I) C (W(a \<mapsto> (c, None)))"
    by (rule co_await_matches [OF as(2) assms(2) Cons.prems(2)]) (use Cons.prems(5) as(1) in auto)
  moreover have "((co_frames sv)(a0 := None))(a \<mapsto> c) = (co_frames sv1)(a0 := None)"
    using Cons.prems(4) as(1) by (auto simp: sv1 fun_eq_iff)
  ultimately have m: "co_matches ((co_frames sv1)(a0 := None)) (mset (co_sq sv1) + I) C (W(a \<mapsto> (c, None)))" by simp
  have "\<forall>b \<in> set as'. co_frames sv1 b = None" using Cons.prems(3,5) as(1) by (auto simp: sv1)
  moreover have "co_frames sv1 a0 = co_frames sv a0" "co_state sv1 = co_state sv" using Cons.prems(4) as(1) by (auto simp: sv1)
  moreover have "distinct as'" "a0 \<notin> set as'" using Cons.prems(3,4) as(1) by auto
  moreover have "W(as [\<mapsto>] map (\<lambda>c. (c, None)) (c # cs)) = (W(a \<mapsto> (c, None)))(as' [\<mapsto>] map (\<lambda>c. (c, None)) cs)"
    by (simp only: as(1) list.map map_upds_Cons)
  moreover have "length (c # cs) \<le> length as \<longleftrightarrow> length cs \<le> length as'" by (simp add: as(1))
  ultimately show ?case using Cons.IH [OF as(3) m] by metis
qed

lemma co_resume_matches:
  assumes r: "co_resume body companions depth fresh a res sv = Inr (sv', fds)" and idle: "\<And>c. list_all idle_io (companions c)"
    and a: "co_frames sv a = Some c" and queued: "list_all idle_io (oc_queued (body (co_state sv) c res))"
    and m: "co_matches ((co_frames sv)(a := None)) (mset (co_sq sv) + I) C W"
    and fresh: "distinct fresh" "\<forall>b \<in> set fresh. co_frames sv b = None"
  shows "co_matches (co_frames sv') (mset (co_sq sv') + I) C
      ((W(fresh [\<mapsto>] map (\<lambda>c. (c, None)) (oc_spawned (body (co_state sv) c res))))
        (a := map_option (\<lambda>c. (c, None)) (oc_next (body (co_state sv) c res))))"
    and "fds = oc_closed (body (co_state sv) c res)" and "co_state sv' = oc_state (body (co_state sv) c res)"
    and "length (oc_spawned (body (co_state sv) c res)) \<le> length fresh"
proof -
  let ?oc = "body (co_state sv) c res" and ?W = "W(fresh [\<mapsto>] map (\<lambda>c. (c, None)) (oc_spawned (body (co_state sv) c res)))"
  from r a obtain sv1 sv2 sv3 where
    1: "co_spawn companions depth fresh (oc_spawned ?oc) (sv\<lparr>co_state := oc_state ?oc\<rparr>) = Inr sv1" and
    2: "co_queue depth (map ignored_sqe (oc_queued ?oc)) sv1 = Inr sv2" and
    3: "(case oc_next ?oc of None \<Rightarrow> Inr (sv2\<lparr>co_frames := (co_frames sv2)(a := None)\<rparr>)
         | Some c' \<Rightarrow> co_await companions depth a c' sv2) = Inr sv3" and sv': "sv' = sv3" "fds = oc_closed ?oc"
    unfolding co_resume_def by (auto simp: Let_def bindR_Inr_iff)
  have "a \<notin> set fresh" using a fresh(2) by auto
  with co_spawn_matches [OF 1 idle, of a I C W] m fresh have
    sp: "co_matches ((co_frames sv1)(a := None)) (mset (co_sq sv1) + I) C ?W" "co_state sv1 = oc_state ?oc"
      "length (oc_spawned ?oc) \<le> length fresh"
    by simp_all
  note sv2 = co_queue_Inr [OF 2]
  have q: "co_matches ((co_frames sv2)(a := None)) (mset (co_sq sv2) + I) C ?W"
    using co_matches_idle [OF sp(1) queued] by (simp add: sv2 ac_simps)
  have wa: "?W a = None" if "oc_next ?oc = None"
    using q by (auto simp: co_matches_def frames_match_def dest: spec [of _ a])
  show "co_matches (co_frames sv') (mset (co_sq sv') + I) C (?W(a := map_option (\<lambda>c. (c, None)) (oc_next ?oc)))"
  proof (cases "oc_next ?oc")
    case None
    with 3 q wa show ?thesis by (auto simp: sv' fun_upd_idem)
  next
    case (Some c')
    with 3 have aw: "co_await companions depth a c' sv2 = Inr sv3" by simp
    from co_await_matches [OF aw idle q] Some show ?thesis by (simp add: sv' co_await_Inr [OF aw])
  qed
  show "fds = oc_closed ?oc" by (rule sv'(2))
  show "co_state sv' = oc_state ?oc"
    using 3 sp(2) by (auto simp: sv' sv2 split: option.splits dest: co_await_Inr)
  show "length (oc_spawned ?oc) \<le> length fresh" by (rule sp(3))
qed

section \<open>The bytes of a connection\<close>

text \<open>The connection whose bytes a suspended coroutine has in its hands.\<close>

fun co_served :: "coroutine \<Rightarrow> int option \<Rightarrow> int option" where
  "co_served (Receiving fd buf) r = Some fd"
| "co_served (Sending fd buf n total_sent) r = Some fd"
| "co_served (ClosingSlot slot) None = Some slot"
| "co_served _ _ = None"

fun bytes_ok :: "coroutine \<Rightarrow> int option \<Rightarrow> conn \<Rightarrow> bool" where
  "bytes_ok (Receiving fd buf) r cn \<longleftrightarrow> length buf = CO_BUF_SIZE \<and>
     (case r of None \<Rightarrow> cn_in cn = cn_out cn
      | Some res \<Rightarrow> if res \<le> 0 then cn_in cn = cn_out cn
          else res \<le> int CO_BUF_SIZE \<and> cn_in cn = cn_out cn @ take (nat res) buf)"
| "bytes_ok (Sending fd buf n k) r cn \<longleftrightarrow> length buf = CO_BUF_SIZE \<and> k < n \<and> n \<le> CO_BUF_SIZE \<and>
     (case r of None \<Rightarrow> cn_in cn = cn_out cn @ segment k (n - k) buf
      | Some res \<Rightarrow> if res \<le> 0 then cn_in cn = cn_out cn @ segment k (n - k) buf
          else nat res \<le> n - k \<and> cn_in cn = cn_out cn @ segment (k + nat res) (n - k - nat res) buf)"
| "bytes_ok _ _ _ \<longleftrightarrow> True"

fun accepts_at :: "coroutine \<Rightarrow> bool" where
  "accepts_at (Accepting l) = True"
| "accepts_at _ = False"

definition one_accept :: "view \<Rightarrow> bool" where
  "one_accept W \<longleftrightarrow> (\<forall>a b c d r q. W a = Some (c, r) \<and> W b = Some (d, q) \<and> accepts_at c \<and> accepts_at d \<longrightarrow> a = b)"

definition fresh_accept :: "(int \<Rightarrow> conn option) \<Rightarrow> view \<Rightarrow> bool" where
  "fresh_accept cns W \<longleftrightarrow> (\<forall>a l fd. W a = Some (Accepting l, Some fd) \<and> 0 \<le> fd \<longrightarrow>
     cns fd = Some \<lparr>cn_in = [], cn_out = []\<rparr> \<and> (\<forall>b c r. W b = Some (c, r) \<longrightarrow> co_served c r \<noteq> Some fd))"

definition one_server :: "view \<Rightarrow> bool" where
  "one_server W \<longleftrightarrow>
     (\<forall>a b c d r q fd. W a = Some (c, r) \<and> W b = Some (d, q) \<and> co_served c r = Some fd \<and> co_served d q = Some fd \<longrightarrow> a = b)"

definition served_bytes :: "(int \<Rightarrow> conn option) \<Rightarrow> view \<Rightarrow> bool" where
  "served_bytes cns W \<longleftrightarrow>
     (\<forall>a c r fd. W a = Some (c, r) \<and> co_served c r = Some fd \<longrightarrow> (\<exists>cn. cns fd = Some cn \<and> bytes_ok c r cn))"

definition bytes_prefix :: "(int \<Rightarrow> conn option) \<Rightarrow> bool" where
  "bytes_prefix cns \<longleftrightarrow> (\<forall>fd cn. cns fd = Some cn \<longrightarrow> prefix (cn_out cn) (cn_in cn))"

definition view_ok :: "(int \<Rightarrow> conn option) \<Rightarrow> view \<Rightarrow> bool" where
  "view_ok cns W \<longleftrightarrow> one_accept W \<and> fresh_accept cns W \<and> one_server W \<and> served_bytes cns W \<and> bytes_prefix cns"

lemmas view_defs = one_accept_def fresh_accept_def one_server_def served_bytes_def bytes_prefix_def

lemma view_okD:
  assumes "view_ok cns W"
  shows "W a = Some (c, r) \<Longrightarrow> W b = Some (d, q) \<Longrightarrow> accepts_at c \<Longrightarrow> accepts_at d \<Longrightarrow> a = b"
    and "W a = Some (Accepting l, Some fd) \<Longrightarrow> 0 \<le> fd \<Longrightarrow> cns fd = Some \<lparr>cn_in = [], cn_out = []\<rparr>"
    and "W a = Some (Accepting l, Some fd) \<Longrightarrow> 0 \<le> fd \<Longrightarrow> W b = Some (c, r) \<Longrightarrow> co_served c r \<noteq> Some fd"
    and "W a = Some (c, r) \<Longrightarrow> W b = Some (d, q) \<Longrightarrow> co_served c r = Some fd \<Longrightarrow> co_served d q = Some fd \<Longrightarrow> a = b"
    and "W a = Some (c, r) \<Longrightarrow> co_served c r = Some fd \<Longrightarrow> \<exists>cn. cns fd = Some cn \<and> bytes_ok c r cn"
    and "cns fd = Some cn \<Longrightarrow> prefix (cn_out cn) (cn_in cn)"
proof -
  from assms have p: "one_accept W" "fresh_accept cns W" "one_server W" "served_bytes cns W" "bytes_prefix cns"
    by (simp_all add: view_ok_def)
  show "W a = Some (c, r) \<Longrightarrow> W b = Some (d, q) \<Longrightarrow> accepts_at c \<Longrightarrow> accepts_at d \<Longrightarrow> a = b"
    using p(1) unfolding one_accept_def by blast
  show "W a = Some (Accepting l, Some fd) \<Longrightarrow> 0 \<le> fd \<Longrightarrow> cns fd = Some \<lparr>cn_in = [], cn_out = []\<rparr>"
    "W a = Some (Accepting l, Some fd) \<Longrightarrow> 0 \<le> fd \<Longrightarrow> W b = Some (c, r) \<Longrightarrow> co_served c r \<noteq> Some fd"
    using p(2) unfolding fresh_accept_def by blast+
  show "W a = Some (c, r) \<Longrightarrow> W b = Some (d, q) \<Longrightarrow> co_served c r = Some fd \<Longrightarrow> co_served d q = Some fd \<Longrightarrow> a = b"
    using p(3) unfolding one_server_def by blast
  show "W a = Some (c, r) \<Longrightarrow> co_served c r = Some fd \<Longrightarrow> \<exists>cn. cns fd = Some cn \<and> bytes_ok c r cn"
    using p(4) unfolding served_bytes_def by blast
  show "cns fd = Some cn \<Longrightarrow> prefix (cn_out cn) (cn_in cn)" using p(5) unfolding bytes_prefix_def by blast
qed

lemma served_accepts: "co_served c r = Some fd \<Longrightarrow> \<not> accepts_at c"
  by (cases c) auto

text \<open>The coroutine of a connection goes on, or ends.\<close>

lemma view_client:
  assumes v: "view_ok cns W" and a: "W a = Some (c, r)" "co_served c r = Some fd"
    and x: "\<And>d q. x = Some (d, q) \<Longrightarrow> \<not> accepts_at d \<and>
      (co_served d q = None \<or> co_served d q = Some fd \<and> (\<exists>cn. cns' fd = Some cn \<and> bytes_ok d q cn))"
    and cns': "\<And>fd'. fd' \<noteq> fd \<Longrightarrow> cns' fd' = cns fd'" "\<And>cn. cns' fd = Some cn \<Longrightarrow> prefix (cn_out cn) (cn_in cn)"
  shows "view_ok cns' (W(a := x))"
  unfolding view_ok_def view_defs
proof (intro conjI allI impI; (elim conjE)?)
  show "b = b'" if "(W(a := x)) b = Some (d, q)" "(W(a := x)) b' = Some (d', q')" "accepts_at d" "accepts_at d'" for b b' d d' q q'
    using that x view_okD(1) [OF v] by (auto split: if_splits)
  show "b = b'" if "(W(a := x)) b = Some (d, q)" "(W(a := x)) b' = Some (d', q')" "co_served d q = Some fd'" "co_served d' q' = Some fd'"
    for b b' d d' q q' fd'
    using that x view_okD(4) [OF v] a by (auto split: if_splits)
  show "\<exists>cn. cns' fd' = Some cn \<and> bytes_ok d q cn" if "(W(a := x)) b = Some (d, q)" "co_served d q = Some fd'" for b d q fd'
  proof (cases "b = a")
    case True
    with that x [of d q] show ?thesis by auto
  next
    case False
    with that have "W b = Some (d, q)" by simp
    moreover from this that(2) False a view_okD(4) [OF v] have "fd' \<noteq> fd" by metis
    ultimately show ?thesis using view_okD(5) [OF v] that(2) cns'(1) by metis
  qed
  show "prefix (cn_out cn) (cn_in cn)" if "cns' fd' = Some cn" for fd' cn
    using that cns' view_okD(6) [OF v] by (cases "fd' = fd") auto
  fix b l fd' assume b: "(W(a := x)) b = Some (Accepting l, Some fd')" "0 \<le> fd'"
  from b(1) x have "b \<noteq> a" by auto
  with b have wb: "W b = Some (Accepting l, Some fd')" by simp
  from view_okD(3) [OF v wb b(2) a(1)] a(2) have ne: "fd' \<noteq> fd" by auto
  with view_okD(2) [OF v wb b(2)] cns'(1) show "cns' fd' = Some \<lparr>cn_in = [], cn_out = []\<rparr>" by simp
  show "co_served d q \<noteq> Some fd'" if "(W(a := x)) b' = Some (d, q)" for b' d q
    using that x ne view_okD(3) [OF v wb b(2)] by (auto split: if_splits)
qed

text \<open>A coroutine without a connection.\<close>

lemma view_other:
  assumes v: "view_ok cns W" and x: "\<And>d q. x = Some (d, q) \<Longrightarrow> co_served d q = None \<and> \<not> accepts_at d"
  shows "view_ok cns (W(a := x))"
  unfolding view_ok_def view_defs
proof (intro conjI allI impI; (elim conjE)?)
  show "b = b'" if "(W(a := x)) b = Some (d, q)" "(W(a := x)) b' = Some (d', q')" "accepts_at d" "accepts_at d'" for b b' d d' q q'
    using that x view_okD(1) [OF v] by (auto split: if_splits)
  show "b = b'" if "(W(a := x)) b = Some (d, q)" "(W(a := x)) b' = Some (d', q')" "co_served d q = Some fd'" "co_served d' q' = Some fd'"
    for b b' d d' q q' fd'
    using that x view_okD(4) [OF v] by (auto split: if_splits)
  show "\<exists>cn. cns fd' = Some cn \<and> bytes_ok d q cn" if "(W(a := x)) b = Some (d, q)" "co_served d q = Some fd'" for b d q fd'
    using that x view_okD(5) [OF v] by (auto split: if_splits)
  show "prefix (cn_out cn) (cn_in cn)" if "cns fd' = Some cn" for fd' cn
    using that view_okD(6) [OF v] by blast
  fix b l fd' assume b: "(W(a := x)) b = Some (Accepting l, Some fd')" "0 \<le> fd'"
  from b(1) x have "W b = Some (Accepting l, Some fd')" by (auto split: if_splits)
  note wb = this b(2)
  show "cns fd' = Some \<lparr>cn_in = [], cn_out = []\<rparr>" by (rule view_okD(2) [OF v wb])
  show "co_served d q \<noteq> Some fd'" if "(W(a := x)) b' = Some (d, q)" for b' d q
    using that x view_okD(3) [OF v wb] by (auto split: if_splits)
qed

text \<open>The accept loop: its request completes, with or without a new connection; it goes on or ends.\<close>

lemma view_accepting:
  assumes v: "view_ok cns W" and a: "W a = Some (Accepting l, r)"
    and x: "x = None \<or> (\<exists>q. x = Some (Accepting l, q) \<and>
      (\<forall>fd. q = Some fd \<and> 0 \<le> fd \<longrightarrow> cns fd = None \<and> cns' fd = Some \<lparr>cn_in = [], cn_out = []\<rparr>))"
    and cns': "\<And>fd. cns' fd = cns fd \<or> cns fd = None \<and> cns' fd = Some \<lparr>cn_in = [], cn_out = []\<rparr>"
  shows "view_ok cns' (W(a := x))"
  unfolding view_ok_def view_defs
proof (intro conjI allI impI; (elim conjE)?)
  show "b = b'" if "(W(a := x)) b = Some (d, q)" "(W(a := x)) b' = Some (d', q')" "accepts_at d" "accepts_at d'" for b b' d d' q q'
    using that view_okD(1) [OF v] view_okD(1) [OF v a] by (auto split: if_splits)
  show "b = b'" if "(W(a := x)) b = Some (d, q)" "(W(a := x)) b' = Some (d', q')" "co_served d q = Some fd'" "co_served d' q' = Some fd'"
    for b b' d d' q q' fd'
    using that x view_okD(4) [OF v] by (auto split: if_splits)
  show "\<exists>cn. cns' fd' = Some cn \<and> bytes_ok d q cn" if "(W(a := x)) b = Some (d, q)" "co_served d q = Some fd'" for b d q fd'
    using that x cns' [of fd'] view_okD(5) [OF v, of b d q fd'] by (auto split: if_splits)
  show "prefix (cn_out cn) (cn_in cn)" if "cns' fd' = Some cn" for fd' cn
    using that cns' [of fd'] view_okD(6) [OF v] by auto
  fix b l' fd' assume b: "(W(a := x)) b = Some (Accepting l', Some fd')" "0 \<le> fd'"
  have "b = a" using b(1) view_okD(1) [OF v a] by (auto split: if_splits)
  with b x have new: "cns fd' = None" "cns' fd' = Some \<lparr>cn_in = [], cn_out = []\<rparr>" by auto
  then show "cns' fd' = Some \<lparr>cn_in = [], cn_out = []\<rparr>" by simp
  show "co_served d q \<noteq> Some fd'" if "(W(a := x)) b' = Some (d, q)" for b' d q
    using that x new(1) view_okD(5) [OF v, of b' d q fd'] by (auto split: if_splits)
qed

lemma view_new_client:
  assumes v: "view_ok cns W" and a: "W a = Some (Accepting l, Some fd)" "0 \<le> fd" and b: "W b = None"
    and buf: "length buf = CO_BUF_SIZE"
  shows "view_ok cns ((W(b \<mapsto> (Receiving fd buf, None)))(a \<mapsto> (Accepting l, None)))"
proof -
  note fresh = view_okD(2,3) [OF v a] and W1 = view_accepting [OF v a(1), of None cns, simplified]
  let ?W = "(W(b \<mapsto> (Receiving fd buf, None)))(a \<mapsto> (Accepting l, None))"
  have new: "?W b' = Some (d, q) \<Longrightarrow> b' = a \<and> d = Accepting l \<and> q = None \<or> b' = b \<and> b \<noteq> a \<and> d = Receiving fd buf \<and> q = None \<or>
      b' \<noteq> a \<and> b' \<noteq> b \<and> W b' = Some (d, q)" for b' d q
    by (auto split: if_splits)
  show ?thesis
    unfolding view_ok_def view_defs
  proof (intro conjI allI impI; (elim conjE)?)
    show "b1 = b2" if "?W b1 = Some (d, q)" "?W b2 = Some (d', q')" "accepts_at d" "accepts_at d'" for b1 b2 d d' q q'
      using new [OF that(1)] new [OF that(2)] that(3,4) view_okD(1) [OF v a(1)] by auto
    show "b1 = b2" if "?W b1 = Some (d, q)" "?W b2 = Some (d', q')" "co_served d q = Some fd'" "co_served d' q' = Some fd'"
      for b1 b2 d d' q q' fd'
      using new [OF that(1)] new [OF that(2)] that(3,4) view_okD(4) [OF v] fresh(2) by auto
    show "\<exists>cn. cns fd' = Some cn \<and> bytes_ok d q cn" if "?W b' = Some (d, q)" "co_served d q = Some fd'" for b' d q fd'
      using new [OF that(1)] that(2) view_okD(5) [OF v] fresh(1) buf by auto
    show "prefix (cn_out cn) (cn_in cn)" if "cns fd' = Some cn" for fd' cn
      using that view_okD(6) [OF v] by blast
    fix b1 l' fd' assume "?W b1 = Some (Accepting l', Some fd')"
    from new [OF this] view_okD(1) [OF v a(1)] have False by auto
    then show "cns fd' = Some \<lparr>cn_in = [], cn_out = []\<rparr>" "\<And>b' d q. co_served d q \<noteq> Some fd'" by simp_all
  qed
qed

section \<open>The kernel keeps the invariant\<close>

definition co_inv :: "'s co_sys \<Rightarrow> bool" where
  "co_inv y \<longleftrightarrow> (\<exists>W. co_matches (co_frames (cy_server y)) (mset (co_sq (cy_server y)) + cy_inflight y) (mset (cy_cq y)) W \<and>
     view_ok (cy_conns y) W)"

lemma co_request_cases:
  "co_request a c = CoAccept l \<longleftrightarrow> c = Accepting l"
  "co_request a c = CoRecv fd b len \<longleftrightarrow> (\<exists>buf. c = Receiving fd buf) \<and> b = a \<and> len = CO_BUF_SIZE"
  "co_request a c = CoSend fd b off m \<longleftrightarrow> (\<exists>buf n. c = Sending fd buf n off \<and> m = n - off) \<and> b = a"
  "co_request a c = CoCloseSlot slot \<longleftrightarrow> c = ClosingSlot slot"
  "co_request a c = CoPoll n \<longleftrightarrow> (\<exists>l. c = Watching n l)"
  "co_request a c \<noteq> CoLinkTimeout n" "co_request a c \<noteq> CoCancel n"
  by (cases c; auto)+

text \<open>A request in flight completes: its coroutine, and the view after it.\<close>

lemma co_kernel_matches:
  assumes m: "co_matches (co_frames (cy_server y)) (mset (co_sq (cy_server y)) + cy_inflight y) (mset (cy_cq y)) W"
    and q: "q \<in># cy_inflight y" and io: "\<not> idle_io (cs_io q)"
  obtains a c where "cs_data q = ToFrame a" and "W a = Some (c, None)" and "co_frames (cy_server y) a = Some c"
    and "cs_io q = co_request a c"
    and "\<And>c' res. co_matches ((co_frames (cy_server y))(a \<mapsto> c')) (mset (co_sq (cy_server y)) + (cy_inflight y - {#q#}))
      (add_mset \<lparr>ce_data = ToFrame a, ce_res = res\<rparr> (mset (cy_cq y))) (W(a \<mapsto> (c', Some res)))"
proof -
  from q obtain I where I: "cy_inflight y = add_mset q I" by (auto dest: multi_member_split)
  with m have m': "co_matches (co_frames (cy_server y)) (add_mset q (mset (co_sq (cy_server y)) + I)) (mset (cy_cq y)) W" by simp
  with io obtain a where a: "cs_data q = ToFrame a"
    by (cases "cs_data q") (auto dest: co_matches_ignored(3))
  from co_matches_request [OF m' a] obtain c where c: "W a = Some (c, None)" "co_frames (cy_server y) a = Some c"
    "cs_io q = co_request a c"
    "co_matches ((co_frames (cy_server y))(a := None)) (mset (co_sq (cy_server y)) + I) (mset (cy_cq y)) (W(a := None))" .
  from co_matches_answered [OF c(4), of a] have
    "co_matches ((co_frames (cy_server y))(a \<mapsto> c')) (mset (co_sq (cy_server y)) + (cy_inflight y - {#q#}))
      (add_mset \<lparr>ce_data = ToFrame a, ce_res = res\<rparr> (mset (cy_cq y))) (W(a \<mapsto> (c', Some res)))" for c' res
    by (simp add: I)
  with a c that show thesis by blast
qed

text \<open>Of the state after a step it is enough to look at the coroutine and the connections.\<close>

lemma co_completed_inv:
  assumes m: "\<And>c' res. co_matches ((co_frames (cy_server y))(a \<mapsto> c')) (mset (co_sq (cy_server y)) + (cy_inflight y - {#q#}))
      (add_mset \<lparr>ce_data = ToFrame a, ce_res = res\<rparr> (mset (cy_cq y))) (W(a \<mapsto> (c', Some res)))"
    and a: "cs_data q = ToFrame a" and v: "view_ok cns (W(a \<mapsto> (c', Some res)))"
  shows "co_inv ((co_completed q res y)
      \<lparr>cy_server := (cy_server y)\<lparr>co_frames := (co_frames (cy_server y))(a \<mapsto> c')\<rparr>, cy_conns := cns\<rparr>)"
    and "co_frames (cy_server y) a = Some c' \<Longrightarrow> co_inv ((co_completed q res y)\<lparr>cy_conns := cns\<rparr>)"
    and "co_frames (cy_server y) a = Some c' \<Longrightarrow> cns = cy_conns y \<Longrightarrow> co_inv (co_completed q res y)"
proof -
  show "co_inv ((co_completed q res y)
      \<lparr>cy_server := (cy_server y)\<lparr>co_frames := (co_frames (cy_server y))(a \<mapsto> c')\<rparr>, cy_conns := cns\<rparr>)"
    unfolding co_inv_def by (rule exI [of _ "W(a \<mapsto> (c', Some res))"]) (use m [of c' res] a v in \<open>simp add: co_completed_def\<close>)
  assume c: "co_frames (cy_server y) a = Some c'"
  then have m': "co_matches (co_frames (cy_server y)) (mset (co_sq (cy_server y)) + (cy_inflight y - {#q#}))
      (add_mset \<lparr>ce_data = ToFrame a, ce_res = res\<rparr> (mset (cy_cq y))) (W(a \<mapsto> (c', Some res)))"
    using m [of c' res] by (simp add: fun_upd_idem)
  show "co_inv ((co_completed q res y)\<lparr>cy_conns := cns\<rparr>)"
    unfolding co_inv_def by (rule exI [of _ "W(a \<mapsto> (c', Some res))"]) (use m' a v in \<open>simp add: co_completed_def\<close>)
  show "co_inv (co_completed q res y)" if "cns = cy_conns y"
    unfolding co_inv_def by (rule exI [of _ "W(a \<mapsto> (c', Some res))"]) (use m' a v that in \<open>simp add: co_completed_def\<close>)
qed

text \<open>A completion that transfers nothing.\<close>

lemma view_nothing:
  assumes v: "view_ok cns W" and a: "W a = Some (c, None)" and res: "res \<le> 0" and c: "\<not> accepts_at c"
  shows "view_ok cns (W(a \<mapsto> (c, Some res)))"
proof (cases "co_served c None")
  case None
  with c have "co_served c (Some res) = None" by (cases c) auto
  with c show ?thesis by (intro view_other [OF v]) auto
next
  case (Some fd)
  then obtain cn where cn: "cns fd = Some cn" "bytes_ok c None cn" using view_okD(5) [OF v a] by blast
  show ?thesis
    by (rule view_client [OF v a Some]) (use cn res c Some view_okD(6) [OF v] in \<open>cases c; auto\<close>)+
qed

lemma view_received:
  assumes v: "view_ok cns W" and a: "W a = Some (Receiving fd buf, None)" and cn: "cns fd = Some cn"
    and bs: "length bs \<le> CO_BUF_SIZE"
  shows "view_ok (cns(fd \<mapsto> cn\<lparr>cn_in := cn_in cn @ bs\<rparr>)) (W(a \<mapsto> (co_received bs (Receiving fd buf), Some (int (length bs)))))"
proof -
  from view_okD(5) [OF v a, of fd] cn have buf: "length buf = CO_BUF_SIZE" "cn_in cn = cn_out cn" by auto
  show ?thesis
    by (rule view_client [OF v a, of fd]) (use buf bs in \<open>auto simp: overwrite_def split: if_splits\<close>)
qed

lemma view_sent:
  assumes v: "view_ok cns W" and a: "W a = Some (Sending fd buf n k, None)" and cn: "cns fd = Some cn"
    and m: "0 < m" "m \<le> n - k"
  shows "view_ok (cns(fd \<mapsto> cn\<lparr>cn_out := cn_out cn @ segment k m buf\<rparr>)) (W(a \<mapsto> (Sending fd buf n k, Some (int m))))"
proof -
  from view_okD(5) [OF v a, of fd] cn have buf: "length buf = CO_BUF_SIZE" "k < n" "n \<le> CO_BUF_SIZE"
    "cn_in cn = cn_out cn @ segment k (n - k) buf" by auto
  have "segment k (n - k) buf = segment k m buf @ segment (k + m) (n - k - m) buf"
    using take_add [of m "n - k - m" "drop k buf"] le_add_diff_inverse [OF m(2)]
    by (simp add: segment_def drop_drop add.commute [of m k] del: le_add_diff_inverse)
  with buf(4) have rest: "cn_in cn = (cn_out cn @ segment k m buf) @ segment (k + m) (n - k - m) buf" by simp
  then have "prefix (cn_out cn @ segment k m buf) (cn_in cn)" by simp
  with buf(1-3) rest m show ?thesis
    by (intro view_client [OF v a, of fd]) (auto split: if_splits)
qed

lemma co_inv_ignored:
  assumes inv: "co_inv y" and q: "q \<in># cy_inflight y" "cs_data q = Ignored"
  shows "co_inv (co_completed q res y)"
proof -
  from q(1) obtain I where I: "cy_inflight y = add_mset q I" by (auto dest: multi_member_split)
  from inv obtain W where
    m: "co_matches (co_frames (cy_server y)) (mset (co_sq (cy_server y)) + cy_inflight y) (mset (cy_cq y)) W" and
    v: "view_ok (cy_conns y) W" unfolding co_inv_def by blast
  from m I have "co_matches (co_frames (cy_server y)) (add_mset q (mset (co_sq (cy_server y)) + I)) (mset (cy_cq y)) W" by simp
  from co_matches_ignored(2) [OF this q(2)] v show ?thesis
    unfolding co_inv_def by (intro exI [of _ W]) (simp add: co_completed_def I q(2) co_matches_ignored(1))
qed

text \<open>
  The steps of the kernel, by the coroutine whose request completes: what it does to this coroutine and to the
  connections keeps the view.
\<close>

lemma co_step_inv:
  assumes inv: "co_inv y" and q: "q \<in># cy_inflight y" "\<not> idle_io (cs_io q)"
    and v: "\<And>a c W. view_ok (cy_conns y) W \<Longrightarrow> W a = Some (c, None) \<Longrightarrow> cs_io q = co_request a c \<Longrightarrow>
      co_frames (cy_server y) a = Some c \<Longrightarrow> view_ok cns (W(a \<mapsto> (c, Some res)))"
  shows "co_inv ((co_completed q res y)\<lparr>cy_conns := cns\<rparr>)" and "cns = cy_conns y \<Longrightarrow> co_inv (co_completed q res y)"
proof -
  from inv obtain W where
    m: "co_matches (co_frames (cy_server y)) (mset (co_sq (cy_server y)) + cy_inflight y) (mset (cy_cq y)) W" and
    w: "view_ok (cy_conns y) W" unfolding co_inv_def by blast
  obtain a c where a: "cs_data q = ToFrame a" "W a = Some (c, None)" "co_frames (cy_server y) a = Some c"
    "cs_io q = co_request a c" and
    n: "\<And>c' res. co_matches ((co_frames (cy_server y))(a \<mapsto> c')) (mset (co_sq (cy_server y)) + (cy_inflight y - {#q#}))
      (add_mset \<lparr>ce_data = ToFrame a, ce_res = res\<rparr> (mset (cy_cq y))) (W(a \<mapsto> (c', Some res)))"
    by (rule co_kernel_matches [OF m q]) (rule that)
  note fin = co_completed_inv(2,3) [OF n a(1) v [OF w a(2,4,3)] a(3)]
  show "co_inv ((co_completed q res y)\<lparr>cy_conns := cns\<rparr>)" by (rule fin(1))
  show "cns = cy_conns y \<Longrightarrow> co_inv (co_completed q res y)" by (rule fin(2))
qed

lemma co_recv_step_inv:
  assumes inv: "co_inv y" and q: "q \<in># cy_inflight y" "cs_io q = CoRecv fd a len" and c: "co_frames (cy_server y) a = Some c"
    and cn: "cy_conns y fd = Some cn" and bs: "length bs \<le> len"
  shows "co_inv ((co_completed q (int (length bs)) y)
      \<lparr>cy_server := (cy_server y)\<lparr>co_frames := (co_frames (cy_server y))(a \<mapsto> co_received bs c)\<rparr>,
       cy_conns := (cy_conns y)(fd \<mapsto> cn\<lparr>cn_in := cn_in cn @ bs\<rparr>)\<rparr>)"
proof -
  from inv obtain W where
    m: "co_matches (co_frames (cy_server y)) (mset (co_sq (cy_server y)) + cy_inflight y) (mset (cy_cq y)) W" and
    w: "view_ok (cy_conns y) W" unfolding co_inv_def by blast
  have "\<not> idle_io (cs_io q)" by (simp add: q(2) idle_io_def)
  then obtain a' c' where a: "cs_data q = ToFrame a'" "W a' = Some (c', None)" "co_frames (cy_server y) a' = Some c'"
    "cs_io q = co_request a' c'" and
    n: "\<And>c' res. co_matches ((co_frames (cy_server y))(a' \<mapsto> c')) (mset (co_sq (cy_server y)) + (cy_inflight y - {#q#}))
      (add_mset \<lparr>ce_data = ToFrame a', ce_res = res\<rparr> (mset (cy_cq y))) (W(a' \<mapsto> (c', Some res)))"
    by (rule co_kernel_matches [OF m q(1)]) (rule that)
  from a(4) q(2) co_request_cases(2) [of a' c' fd a len] obtain buf where
    c': "c' = Receiving fd buf" "a = a'" "len = CO_BUF_SIZE" by auto
  with c a(3) have "c = Receiving fd buf" by simp
  with view_received [OF w _ cn, of a buf bs] a(2) c' bs
  have "view_ok ((cy_conns y)(fd \<mapsto> cn\<lparr>cn_in := cn_in cn @ bs\<rparr>)) (W(a \<mapsto> (co_received bs c, Some (int (length bs)))))" by simp
  with co_completed_inv(1) [OF n a(1)] c'(2) show ?thesis by simp
qed

lemma co_kernel_step_inv:
  assumes "co_kernel_step y y'" and inv: "co_inv y"
  shows "co_inv y'"
  using assms(1)
proof cases
  case (k_accepted q l fd)
  show ?thesis unfolding k_accepted(1)
  proof (rule co_step_inv(1) [OF inv k_accepted(2)])
    show "\<not> idle_io (cs_io q)" by (simp add: k_accepted(3) idle_io_def)
    fix a c W assume w: "view_ok (cy_conns y) W" "W a = Some (c, None)" "cs_io q = co_request a c"
    from w(3) k_accepted(3) co_request_cases(1) [of a c l] have "c = Accepting l" by simp
    with w(2) view_accepting [OF w(1), of a l None] k_accepted(5)
    show "view_ok ((cy_conns y)(fd \<mapsto> \<lparr>cn_in = [], cn_out = []\<rparr>)) (W(a \<mapsto> (c, Some fd)))" by simp
  qed
next
  case (k_accept_failed q l res)
  show ?thesis unfolding k_accept_failed(1)
  proof (rule co_step_inv(2) [OF inv k_accept_failed(2)])
    show "\<not> idle_io (cs_io q)" by (simp add: k_accept_failed(3) idle_io_def)
    fix a c W assume w: "view_ok (cy_conns y) W" "W a = Some (c, None)" "cs_io q = co_request a c"
    from w(3) k_accept_failed(3) co_request_cases(1) [of a c l] have "c = Accepting l" by simp
    with w(2) view_accepting [OF w(1), of a l None] k_accept_failed(4)
    show "view_ok (cy_conns y) (W(a \<mapsto> (c, Some res)))" by simp
  qed simp
next
  case (k_recv_some q fd a len c cn bs)
  show ?thesis unfolding k_recv_some(1)
    by (rule co_recv_step_inv [OF inv k_recv_some(2-5) k_recv_some(7)])
next
  case (k_recv_none q fd a len res)
  show ?thesis unfolding k_recv_none(1)
  proof (rule co_step_inv(2) [OF inv k_recv_none(2)])
    show "\<not> idle_io (cs_io q)" by (simp add: k_recv_none(3) idle_io_def)
    fix b c W assume w: "view_ok (cy_conns y) W" "W b = Some (c, None)" "cs_io q = co_request b c"
    from w(3) k_recv_none(3) have "\<not> accepts_at c" by (cases c) auto
    with view_nothing [OF w(1,2) k_recv_none(4)] show "view_ok (cy_conns y) (W(b \<mapsto> (c, Some res)))" by simp
  qed simp
next
  case (k_send_some q fd a off len c buf cn n)
  show ?thesis unfolding k_send_some(1)
  proof (rule co_step_inv(1) [OF inv k_send_some(2)])
    show "\<not> idle_io (cs_io q)" by (simp add: k_send_some(3) idle_io_def)
    fix b d W assume w: "view_ok (cy_conns y) W" "W b = Some (d, None)" "cs_io q = co_request b d"
      "co_frames (cy_server y) b = Some d"
    from w(3) k_send_some(3) co_request_cases(3) [of b d fd a off len] obtain buf' n' where
      d: "d = Sending fd buf' n' off" "len = n' - off" "a = b" by auto
    with w(4) k_send_some(4,5) have "buf' = buf" by (cases c) auto
    with view_sent [OF w(1) _ k_send_some(6,7), of b buf' n' off] w(2) d k_send_some(8)
    show "view_ok ((cy_conns y)(fd \<mapsto> cn\<lparr>cn_out := cn_out cn @ segment off n buf\<rparr>)) (W(b \<mapsto> (d, Some (int n))))"
      by simp
  qed
next
  case (k_send_none q fd a off len res)
  show ?thesis unfolding k_send_none(1)
  proof (rule co_step_inv(2) [OF inv k_send_none(2)])
    show "\<not> idle_io (cs_io q)" by (simp add: k_send_none(3) idle_io_def)
    fix b c W assume w: "view_ok (cy_conns y) W" "W b = Some (c, None)" "cs_io q = co_request b c"
    from w(3) k_send_none(3) have "\<not> accepts_at c" by (cases c) auto
    with view_nothing [OF w(1,2) k_send_none(4)] show "view_ok (cy_conns y) (W(b \<mapsto> (c, Some res)))" by simp
  qed simp
next
  case (k_slot_closed q slot)
  show ?thesis unfolding k_slot_closed(1)
  proof (rule co_step_inv(1) [OF inv k_slot_closed(2)])
    show "\<not> idle_io (cs_io q)" by (simp add: k_slot_closed(3) idle_io_def)
    fix a c W assume w: "view_ok (cy_conns y) W" "W a = Some (c, None)" "cs_io q = co_request a c"
    from w(3) k_slot_closed(3) co_request_cases(4) [of a c slot] have c: "c = ClosingSlot slot" by simp
    show "view_ok ((cy_conns y)(slot := None)) (W(a \<mapsto> (c, Some 0)))"
      by (rule view_client [OF w(1,2), of slot]) (auto simp: c)
  qed
next
  case (k_slot_kept q slot res)
  show ?thesis unfolding k_slot_kept(1)
  proof (rule co_step_inv(2) [OF inv k_slot_kept(2)])
    show "\<not> idle_io (cs_io q)" by (simp add: k_slot_kept(3) idle_io_def)
    fix b c W assume w: "view_ok (cy_conns y) W" "W b = Some (c, None)" "cs_io q = co_request b c"
    from w(3) k_slot_kept(3) have "\<not> accepts_at c" by (cases c) auto
    with view_nothing [OF w(1,2)] k_slot_kept(4) show "view_ok (cy_conns y) (W(b \<mapsto> (c, Some res)))" by simp
  qed simp
next
  case (k_other q n res)
  show ?thesis
  proof (cases "cs_io q = CoPoll n")
    case True
    show ?thesis unfolding k_other(1)
    proof (rule co_step_inv(2) [OF inv k_other(2)])
      show "\<not> idle_io (cs_io q)" by (simp add: True idle_io_def)
      fix a c W assume w: "view_ok (cy_conns y) W" "W a = Some (c, None)" "cs_io q = co_request a c"
      from w(3) True co_request_cases(5) [of a c n] obtain l where "c = Watching n l" by auto
      with view_other [OF w(1), of "Some (c, Some res)" a] show "view_ok (cy_conns y) (W(a \<mapsto> (c, Some res)))" by simp
    qed simp
  next
    case False
    from inv k_other(2) have "request_ok (co_frames (cy_server y)) q" by (auto simp: co_inv_def co_matches_def)
    with False k_other(3) have "cs_data q = Ignored"
      by (auto simp: request_ok_def co_request_cases dest: sym split: co_data.splits)
    with co_inv_ignored [OF inv k_other(2)] k_other(1) show ?thesis by simp
  qed
qed

section \<open>The contract of a body\<close>

text \<open>
  What a coroutine of a connection does at its end: it closes the descriptor, or asks for the closing of the slot.
\<close>

definition leaves :: "int \<Rightarrow> 's outcome \<Rightarrow> bool" where
  "leaves fd oc \<longleftrightarrow> oc_spawned oc = [] \<and>
     (oc_next oc = None \<and> oc_closed oc = [fd] \<or> oc_next oc = Some (ClosingSlot fd) \<and> oc_closed oc = [])"

definition goes_to :: "coroutine \<Rightarrow> 's outcome \<Rightarrow> bool" where
  "goes_to c oc \<longleftrightarrow> oc_spawned oc = [] \<and> oc_next oc = Some c \<and> oc_closed oc = []"

definition co_ends :: "'s outcome \<Rightarrow> bool" where
  "co_ends oc \<longleftrightarrow> oc_spawned oc = [] \<and> oc_next oc = None \<and> oc_closed oc = []"

locale echo_coroutines =
  fixes body :: "'s \<Rightarrow> coroutine \<Rightarrow> int \<Rightarrow> 's outcome" and companions :: "coroutine \<Rightarrow> co_io list"
  assumes companions_idle: "list_all idle_io (companions c)"
    and queued_idle: "list_all idle_io (oc_queued (body s c res))"
    and accepted: "0 \<le> fd \<Longrightarrow> oc_spawned (body s (Accepting l) fd) = [Receiving fd co_buf] \<and>
      oc_next (body s (Accepting l) fd) = Some (Accepting l) \<and> oc_closed (body s (Accepting l) fd) = []"
    and not_accepted: "res < 0 \<Longrightarrow> goes_to (Accepting l) (body s (Accepting l) res) \<or> co_ends (body s (Accepting l) res)"
    and received: "0 < res \<Longrightarrow> goes_to (Sending fd buf (nat res) 0) (body s (Receiving fd buf) res)"
    and not_received: "res \<le> 0 \<Longrightarrow> leaves fd (body s (Receiving fd buf) res)"
    and sent_rest: "0 < res \<Longrightarrow> k + nat res < n \<Longrightarrow> goes_to (Sending fd buf n (k + nat res)) (body s (Sending fd buf n k) res)"
    and sent_all: "0 < res \<Longrightarrow> n \<le> k + nat res \<Longrightarrow> goes_to (Receiving fd buf) (body s (Sending fd buf n k) res)"
    and not_sent: "res \<le> 0 \<Longrightarrow> leaves fd (body s (Sending fd buf n k) res)"
    and slot_closed: "co_ends (body s (ClosingSlot fd) res)"
    and watched: "co_ends (body s (Watching sfd l) res)"
begin

text \<open>A resumption keeps the bytes of every connection.\<close>

lemma leaves_view:
  assumes v: "view_ok cns W" and a: "W a = Some (c, r)" "co_served c r = Some fd" and oc: "leaves fd oc"
  shows "view_ok (close_all (oc_closed oc) cns) (W(a := map_option (\<lambda>c. (c, None)) (oc_next oc)))"
proof (rule view_client [OF v a])
  obtain cn where cn: "cns fd = Some cn" using view_okD(5) [OF v a] by blast
  show "\<not> accepts_at d \<and> (co_served d q = None \<or> co_served d q = Some fd \<and>
      (\<exists>cn. close_all (oc_closed oc) cns fd = Some cn \<and> bytes_ok d q cn))"
    if "map_option (\<lambda>c. (c, None)) (oc_next oc) = Some (d, q)" for d q
    using that oc cn by (auto simp: leaves_def close_all_def)
  show "close_all (oc_closed oc) cns fd' = cns fd'" if "fd' \<noteq> fd" for fd'
    using that oc by (auto simp: leaves_def close_all_def)
  show "prefix (cn_out cn) (cn_in cn)" if "close_all (oc_closed oc) cns fd = Some cn" for cn
    using that view_okD(6) [OF v] by (auto simp: close_all_def split: if_splits)
qed

lemma goes_view:
  assumes v: "view_ok cns W" and a: "W a = Some (c, r)" "co_served c r = Some fd" and oc: "goes_to d oc"
    and d: "co_served d None = Some fd" "\<And>cn. bytes_ok c r cn \<Longrightarrow> bytes_ok d None cn"
  shows "view_ok (close_all (oc_closed oc) cns) (W(a := map_option (\<lambda>c. (c, None)) (oc_next oc)))"
proof -
  obtain cn where cn: "cns fd = Some cn" "bytes_ok c r cn" using view_okD(5) [OF v a] by blast
  have "view_ok cns (W(a \<mapsto> (d, None)))"
    by (rule view_client [OF v a]) (use cn d served_accepts [OF d(1)] view_okD(6) [OF v] in auto)
  with oc show ?thesis by (simp add: goes_to_def close_all_def)
qed

lemma resume_view:
  assumes v: "view_ok cns W" and a: "W a = Some (c, Some res)" and fresh: "\<forall>b \<in> set fresh. W b = None"
    and room: "length (oc_spawned (body s c res)) \<le> length fresh"
  shows "view_ok (close_all (oc_closed (body s c res)) cns)
    ((W(fresh [\<mapsto>] map (\<lambda>c. (c, None)) (oc_spawned (body s c res))))
      (a := map_option (\<lambda>c. (c, None)) (oc_next (body s c res))))"
proof (cases c)
  case (Accepting l)
  show ?thesis
  proof (cases "0 \<le> res")
    case True
    with accepted [OF this, of s l] room Accepting obtain b bs where "fresh = b # bs" by (cases fresh) auto
    with view_new_client [OF v a [unfolded Accepting] True, of b co_buf] fresh accepted [OF True, of s l] Accepting show ?thesis
      by (simp add: close_all_def co_buf_def)
  next
    case False
    then have n: "goes_to (Accepting l) (body s (Accepting l) res) \<or> co_ends (body s (Accepting l) res)" by (simp add: not_accepted)
    have "view_ok cns (W(a := x))" if "x = None \<or> x = Some (Accepting l, None)" for x
      by (rule view_accepting [OF v a [unfolded Accepting]]) (use that in auto)
    with n Accepting show ?thesis by (auto simp: goes_to_def co_ends_def close_all_def)
  qed
next
  case (Receiving fd buf)
  show ?thesis
  proof (cases "0 < res")
    case True
    from received [OF this, of fd buf s] goes_view [OF v a, of fd "Sending fd buf (nat res) 0" "body s c res"] True
    show ?thesis by (auto simp: Receiving goes_to_def segment_def nat_le_iff)
  next
    case False
    with leaves_view [OF v a, of fd "body s c res"] not_received [of res fd s buf] show ?thesis
      by (simp add: Receiving leaves_def)
  qed
next
  case (Sending fd buf n k)
  consider "res \<le> 0" | "0 < res" "k + nat res < n" | "0 < res" "n \<le> k + nat res" by linarith
  then show ?thesis
  proof cases
    case 1
    with leaves_view [OF v a, of fd "body s c res"] not_sent [of res fd s buf n k] show ?thesis
      by (simp add: Sending leaves_def)
  next
    case 2
    from sent_rest [OF 2, of fd buf s] goes_view [OF v a, of fd "Sending fd buf n (k + nat res)" "body s c res"] 2
    show ?thesis by (auto simp: Sending goes_to_def)
  next
    case 3
    from sent_all [OF 3, of fd buf s] goes_view [OF v a, of fd "Receiving fd buf" "body s c res"] 3
    show ?thesis by (auto simp: Sending goes_to_def segment_def)
  qed
next
  case (ClosingSlot fd)
  have "view_ok cns (W(a := None))" by (rule view_other [OF v]) simp
  with slot_closed [of s fd res] show ?thesis by (simp add: ClosingSlot co_ends_def close_all_def)
next
  case (Watching sfd l)
  have "view_ok cns (W(a := None))" by (rule view_other [OF v]) simp
  with watched [of s sfd l res] show ?thesis by (simp add: Watching co_ends_def close_all_def)
qed

lemma handle_inv:
  assumes m: "co_matches (co_frames sv) (mset (co_sq sv) + I) (add_mset e C) W" and v: "view_ok cns W"
    and h: "co_handle body companions depth fresh e sv = Inr (sv', fds)"
    and fresh: "distinct fresh" "\<forall>b \<in> set fresh. co_frames sv b = None"
  shows "\<exists>W'. co_matches (co_frames sv') (mset (co_sq sv') + I) C W' \<and> view_ok (close_all fds cns) W'"
proof (cases "ce_data e")
  case Ignored
  with m h v show ?thesis by (auto simp: co_handle_def co_matches_ignored(1) close_all_def)
next
  case (ToFrame a)
  obtain c where c: "W a = Some (c, Some (ce_res e))" "co_frames sv a = Some c"
    "co_matches ((co_frames sv)(a := None)) (mset (co_sq sv) + I) C (W(a := None))"
    by (rule co_matches_completion [OF m ToFrame]) (rule that)
  let ?oc = "body (co_state sv) c (ce_res e)"
  from h ToFrame have r: "co_resume body companions depth fresh a (ce_res e) sv = Inr (sv', fds)" by (simp add: co_handle_def)
  note step = co_resume_matches [OF r companions_idle c(2) queued_idle c(3) fresh]
  have "a \<notin> set fresh" using c(2) fresh(2) by auto
  then have "((W(a := None))(fresh [\<mapsto>] map (\<lambda>c. (c, None)) (oc_spawned ?oc)))(a := x) =
      (W(fresh [\<mapsto>] map (\<lambda>c. (c, None)) (oc_spawned ?oc)))(a := x)" for x
    by (simp add: map_upds_twist fun_upd_upd fun_upd_def map_upds_apply_nontin fun_eq_iff)
      (auto simp: map_upds_def map_add_def split: option.splits)
  moreover have "\<forall>b \<in> set fresh. W b = None"
    using fresh(2) m by (auto simp: co_matches_def frames_match_def)
  ultimately show ?thesis
    using step(1) resume_view [OF v c(1) _ step(4)] step(2) by auto
qed

lemma loop_inv:
  assumes "co_loop_step body companions stop depth y y'" and inv: "co_inv y"
  shows "co_inv y'"
  using assms(1)
proof cases
  case l_submit
  with inv show ?thesis by (auto simp: co_inv_def ac_simps)
next
  case l_wake
  with inv show ?thesis by (simp add: co_inv_def)
next
  case (l_treat n e es fresh sv fds)
  from inv obtain W where
    "co_matches (co_frames (cy_server y)) (mset (co_sq (cy_server y)) + cy_inflight y) (add_mset e (mset es)) W"
    "view_ok (cy_conns y) W" unfolding co_inv_def l_treat(3) by auto
  from handle_inv [OF this l_treat(6,4,5)] show ?thesis unfolding l_treat(1) co_inv_def by simp
qed

lemma run_inv:
  assumes "co_run body companions stop depth start y" and "co_inv start"
  shows "co_inv y"
  using assms(1) by (induction rule: co_run.induct) (auto intro: assms(2) co_kernel_step_inv loop_inv)

end

end
