(* ===== verification/CoroServers.thy ===== *)
theory CoroServers
  imports Coro
begin

text \<open>
  The coroutine servers: \<open>io_uring/12_coroutine_echo.cpp\<close>, \<open>14_timeout.cpp\<close> (a timeout for every receive),
  \<open>15_graceful_shutdown.cpp\<close> (the end of the server at a signal) and \<open>18_registered_fds.cpp\<close> (slots instead of descriptors). The
  bodies of their coroutines interpret the contract of Coro; the end of the loop of exercise 15
  is shown to be clean, and a run shows that its shutdown can miss a client.
\<close>

section \<open>Exercise 12\<close>

fun echo_body :: "'s body" where
  "echo_body s (Accepting l) client_fd =
     (if client_fd < 0 then co_suspends s (Accepting l) else co_starts s (Receiving client_fd co_buf) (Accepting l))"
| "echo_body s (Receiving fd buf) n =
     (if n \<le> 0 then co_returns s [fd] else co_suspends s (Sending fd buf (nat n) 0))"
| "echo_body s (Sending fd buf n total_sent) res =
     (if res \<le> 0 then co_returns s [fd]
      else let total_sent = total_sent + nat res in
        if total_sent < n then co_suspends s (Sending fd buf n total_sent) else co_suspends s (Receiving fd buf))"
| "echo_body s _ _ = co_returns s []"

section \<open>Exercise 14: a timeout for every receive\<close>

definition CO_ECANCELED :: int where "CO_ECANCELED = 125"
definition IDLE_TIMEOUT_SEC :: int where "IDLE_TIMEOUT_SEC = 5"

fun timeout_body :: "'s body" where
  "timeout_body s (Accepting l) client_fd =
     (if client_fd < 0 then co_suspends s (Accepting l) else co_starts s (Receiving client_fd co_buf) (Accepting l))"
| "timeout_body s (Receiving fd buf) n =
     (if n = - CO_ECANCELED then co_returns s [fd]
      else if n \<le> 0 then co_returns s [fd]
      else co_suspends s (Sending fd buf (nat n) 0))"
| "timeout_body s (Sending fd buf n total_sent) res =
     (if res \<le> 0 then co_returns s [fd]
      else let total_sent = total_sent + nat res in
        if total_sent < n then co_suspends s (Sending fd buf n total_sent) else co_suspends s (Receiving fd buf))"
| "timeout_body s _ _ = co_returns s []"

text \<open>The second request of \<open>AsyncRecvTimeout\<close>; its completion is skipped.\<close>

fun timeout_companions :: "coroutine \<Rightarrow> co_io list" where
  "timeout_companions (Receiving fd buf) = [CoLinkTimeout IDLE_TIMEOUT_SEC]"
| "timeout_companions _ = []"

definition no_companions :: "coroutine \<Rightarrow> co_io list" where "no_companions c = []"

section \<open>Exercise 15: shutting down at a signal\<close>

record ServerState =
  client_fds :: "int set"
  shutting_down :: bool

text \<open>The order in which the set of descriptors is traversed does not matter; here it is increasing.\<close>

fun shutdown_body :: "ServerState body" where
  "shutdown_body s (Accepting l) client_fd =
     (if client_fd < 0 then if client_fd = - CO_ECANCELED then co_returns s [] else co_suspends s (Accepting l)
      else co_starts (s\<lparr>client_fds := insert client_fd (client_fds s)\<rparr>) (Receiving client_fd co_buf) (Accepting l))"
| "shutdown_body s (Receiving fd buf) n =
     (if n \<le> 0 then co_returns (s\<lparr>client_fds := client_fds s - {fd}\<rparr>) [fd] else co_suspends s (Sending fd buf (nat n) 0))"
| "shutdown_body s (Sending fd buf n total_sent) res =
     (if res \<le> 0 then co_returns (s\<lparr>client_fds := client_fds s - {fd}\<rparr>) [fd]
      else let total_sent = total_sent + nat res in
        if total_sent < n then co_suspends s (Sending fd buf n total_sent) else co_suspends s (Receiving fd buf))"
| "shutdown_body s (Watching signal_fd l) _ =
     (co_returns (s\<lparr>shutting_down := True\<rparr>) [])\<lparr>oc_queued := CoCancel l # map CoCancel (sorted_list_of_set (client_fds s))\<rparr>"
| "shutdown_body s _ _ = co_returns s []"

definition shutdown_stops :: "ServerState \<Rightarrow> bool" where
  "shutdown_stops s \<longleftrightarrow> shutting_down s \<and> client_fds s = {}"

section \<open>Exercise 18: registered descriptors\<close>

fun fixed_body :: "'s body" where
  "fixed_body s (Accepting l) slot =
     (if slot < 0 then co_suspends s (Accepting l) else co_starts s (Receiving slot co_buf) (Accepting l))"
| "fixed_body s (Receiving slot buf) n =
     (if n \<le> 0 then co_suspends s (ClosingSlot slot) else co_suspends s (Sending slot buf (nat n) 0))"
| "fixed_body s (Sending slot buf n total_sent) res =
     (if res \<le> 0 then co_suspends s (ClosingSlot slot)
      else let total_sent = total_sent + nat res in
        if total_sent < n then co_suspends s (Sending slot buf n total_sent) else co_suspends s (Receiving slot buf))"
| "fixed_body s (ClosingSlot slot) _ = co_returns s []"
| "fixed_body s _ _ = co_returns s []"

section \<open>The programs\<close>

definition echo_co_run :: "nat \<Rightarrow> int \<Rightarrow> unit co_sys \<Rightarrow> bool" where
  "echo_co_run depth l = co_run echo_body no_companions (\<lambda>_. False) depth (co_main () [(0, Accepting l)])"

definition timeout_co_run :: "nat \<Rightarrow> int \<Rightarrow> unit co_sys \<Rightarrow> bool" where
  "timeout_co_run depth l = co_run timeout_body timeout_companions (\<lambda>_. False) depth (co_main () [(0, Accepting l)])"

definition shutdown_co_run :: "nat \<Rightarrow> int \<Rightarrow> int \<Rightarrow> ServerState co_sys \<Rightarrow> bool" where
  "shutdown_co_run depth signal_fd l = co_run shutdown_body no_companions shutdown_stops depth
     (co_main \<lparr>client_fds = {}, shutting_down = False\<rparr> [(0, Accepting l), (1, Watching signal_fd l)])"

definition fixed_co_run :: "nat \<Rightarrow> int \<Rightarrow> unit co_sys \<Rightarrow> bool" where
  "fixed_co_run depth l = co_run fixed_body no_companions (\<lambda>_. False) depth (co_main () [(0, Accepting l)])"

section \<open>The bodies keep the contract\<close>

lemmas body_steps = goes_to_def leaves_def co_ends_def co_suspends_def co_returns_def co_starts_def

lemma bodies_queue [simp]:
  "oc_queued (echo_body s c res) = []" "oc_queued (timeout_body s c res) = []" "oc_queued (fixed_body s c res) = []"
  "list_all idle_io (oc_queued (shutdown_body t c res))"
  by (cases c; auto simp: body_steps Let_def idle_io_def list_all_iff)+

lemma companions_idle_io [simp]: "list_all idle_io (no_companions c)" "list_all idle_io (timeout_companions c)"
  by (cases c; auto simp: no_companions_def idle_io_def)+

interpretation echo_co: echo_coroutines echo_body no_companions
  by unfold_locales (auto simp: body_steps Let_def)

interpretation timeout_co: echo_coroutines timeout_body timeout_companions
  by unfold_locales (auto simp: body_steps Let_def CO_ECANCELED_def)

interpretation shutdown_co: echo_coroutines shutdown_body no_companions
  by unfold_locales (auto simp: body_steps Let_def)

interpretation fixed_co: echo_coroutines fixed_body no_companions
  by unfold_locales (auto simp: body_steps Let_def)

section \<open>What follows for the four servers\<close>

text \<open>The frames of the coroutines that \<open>main\<close> starts, one of which accepts.\<close>

lemma co_main_inv:
  assumes "distinct (map fst cs)" and "\<And>a c. (a, c) \<in> set cs \<Longrightarrow> co_served c None = None"
    and "\<And>a b c d. (a, c) \<in> set cs \<Longrightarrow> (b, d) \<in> set cs \<Longrightarrow> accepts_at c \<Longrightarrow> accepts_at d \<Longrightarrow> a = b"
  shows "co_inv (co_main s cs)"
proof -
  let ?W = "\<lambda>cs a. map_option (\<lambda>c. (c, None)) (map_of cs a)"
  have "co_matches (map_of cs) (mset (map (\<lambda>(a, c). frame_sqe a c) cs)) {#} (?W cs)"
    using assms(1)
  proof (induction cs)
    case Nil
    show ?case by (simp add: co_matches_def frames_match_def)
  next
    case (Cons x cs)
    obtain a c where x: "x = (a, c)" by fastforce
    with Cons.prems have new: "map_of cs a = None" by (simp add: map_of_eq_None_iff)
    have "?W (x # cs) = (?W cs)(a \<mapsto> (c, None))" by (auto simp: x)
    moreover have "map_of (x # cs) = (map_of cs)(a \<mapsto> c)" by (simp add: x)
    moreover have "mset (map (\<lambda>(a, c). frame_sqe a c) (x # cs)) = add_mset (frame_sqe a c) (mset (map (\<lambda>(a, c). frame_sqe a c) cs))"
      by (simp add: x)
    moreover from Cons.prems have "distinct (map fst cs)" by simp
    ultimately show ?case using co_matches_asked [OF Cons.IH new, of c] by metis
  qed
  moreover have "view_ok (\<lambda>_. None) (?W cs)"
    unfolding view_ok_def view_defs using assms(2,3) by (auto dest!: map_of_SomeD)
  ultimately show ?thesis unfolding co_inv_def co_main_def by (intro exI [of _ "?W cs"]) simp
qed

lemma co_runs_inv:
  "echo_co_run depth l y \<Longrightarrow> co_inv y" "timeout_co_run depth l y \<Longrightarrow> co_inv y"
  "fixed_co_run depth l y \<Longrightarrow> co_inv y" "shutdown_co_run depth sfd l z \<Longrightarrow> co_inv z"
  unfolding echo_co_run_def timeout_co_run_def fixed_co_run_def shutdown_co_run_def
  by (auto elim!: echo_co.run_inv timeout_co.run_inv fixed_co.run_inv shutdown_co.run_inv intro!: co_main_inv)

definition frames_live :: "'s co_sys \<Rightarrow> bool" where
  "frames_live y \<longleftrightarrow>
     (\<forall>e \<in> set (cy_cq y). \<forall>a. ce_data e = ToFrame a \<longrightarrow> co_frames (cy_server y) a \<noteq> None) \<and>
     (\<forall>q \<in># mset (co_sq (cy_server y)) + cy_inflight y. \<forall>fd a off len.
        cs_io q = CoRecv fd a len \<and> off = 0 \<or> cs_io q = CoSend fd a off len \<longrightarrow>
        (\<exists>c buf. co_frames (cy_server y) a = Some c \<and> co_buffer c = Some buf \<and> off + len \<le> length buf))"

lemma co_inv_live:
  assumes "co_inv y"
  shows "frames_live y"
proof -
  from assms obtain W where
    m: "co_matches (co_frames (cy_server y)) (mset (co_sq (cy_server y)) + cy_inflight y) (mset (cy_cq y)) W" and
    v: "view_ok (cy_conns y) W" unfolding co_inv_def by blast
  show ?thesis
    unfolding frames_live_def
  proof (intro conjI ballI allI impI)
    fix e a assume e: "e \<in> set (cy_cq y)" "ce_data e = ToFrame a"
    from e(1) obtain C where "mset (cy_cq y) = add_mset e C" by (metis in_multiset_in_set multi_member_split)
    with m have "co_matches (co_frames (cy_server y)) (mset (co_sq (cy_server y)) + cy_inflight y) (add_mset e C) W" by simp
    then show "co_frames (cy_server y) a \<noteq> None" by (rule co_matches_completion [OF _ e(2)]) simp
  next
    fix q fd a off len
    assume q: "q \<in># mset (co_sq (cy_server y)) + cy_inflight y" "cs_io q = CoRecv fd a len \<and> off = 0 \<or> cs_io q = CoSend fd a off len"
    from q(1) obtain M where M: "mset (co_sq (cy_server y)) + cy_inflight y = add_mset q M" by (metis multi_member_split)
    from m q have "request_ok (co_frames (cy_server y)) q" by (simp add: co_matches_def)
    with q(2) obtain b where b: "cs_data q = ToFrame b" by (cases "cs_data q") (auto simp: request_ok_def idle_io_def)
    obtain c where c: "W b = Some (c, None)" "co_frames (cy_server y) b = Some c" "cs_io q = co_request b c"
      by (rule co_matches_request [OF m [unfolded M] b]) (rule that)
    from c(3) q(2) have "a = b \<and> (\<exists>buf. co_buffer c = Some buf)" by (cases c) auto
    with v c q(2) show "\<exists>c buf. co_frames (cy_server y) a = Some c \<and> co_buffer c = Some buf \<and> off + len \<le> length buf"
      using view_okD(5) [OF v c(1)] by (cases c) auto
  qed
qed

lemma co_inv_echoes:
  assumes "co_inv y" and cn: "cy_conns y fd = Some cn"
  shows "prefix (cn_out cn) (cn_in cn)"
    and "q \<in># mset (co_sq (cy_server y)) + cy_inflight y \<Longrightarrow> cs_io q = CoRecv fd a len \<Longrightarrow> cn_out cn = cn_in cn"
proof -
  from assms(1) obtain W where
    m: "co_matches (co_frames (cy_server y)) (mset (co_sq (cy_server y)) + cy_inflight y) (mset (cy_cq y)) W" and
    v: "view_ok (cy_conns y) W" unfolding co_inv_def by blast
  show "prefix (cn_out cn) (cn_in cn)" by (rule view_okD(6) [OF v cn])
  assume q: "q \<in># mset (co_sq (cy_server y)) + cy_inflight y" "cs_io q = CoRecv fd a len"
  from q(1) obtain M where M: "mset (co_sq (cy_server y)) + cy_inflight y = add_mset q M" by (metis multi_member_split)
  from m q have "request_ok (co_frames (cy_server y)) q" by (simp add: co_matches_def)
  with q(2) obtain b where b: "cs_data q = ToFrame b" by (cases "cs_data q") (auto simp: request_ok_def idle_io_def)
  obtain c where c: "W b = Some (c, None)" "cs_io q = co_request b c"
    by (rule co_matches_request [OF m [unfolded M] b]) (rule that)
  from c(2) q(2) co_request_cases(2) [of b c fd a len] obtain buf where "c = Receiving fd buf" by auto
  with view_okD(5) [OF v c(1), of fd] cn show "cn_out cn = cn_in cn" by auto
qed

text \<open>C3. In the coroutine servers no completion resumes a coroutine whose frame was destroyed, and the kernel reads
  and writes only the buffers of live frames, inside their bounds: in every state that is reached, whatever the
  kernel answers and in whatever order, and wherever the allocator puts the frames.\<close>

theorem coroutine_frames_live:
  "(echo_co_run depth l y \<or> timeout_co_run depth l y \<or> fixed_co_run depth l y \<longrightarrow> frames_live y) \<and>
   (shutdown_co_run depth sfd l z \<longrightarrow> frames_live z)"
  by (auto intro: co_inv_live co_runs_inv)

text \<open>C4. The coroutine servers send every connection its own bytes back, in order; and when a coroutine waits for data it has
  sent back everything.\<close>

theorem coroutine_servers_echo:
  "(echo_co_run depth l y \<or> timeout_co_run depth l y \<or> fixed_co_run depth l y \<longrightarrow>
     (\<forall>fd cn. cy_conns y fd = Some cn \<longrightarrow> prefix (cn_out cn) (cn_in cn) \<and>
       (\<forall>q \<in># mset (co_sq (cy_server y)) + cy_inflight y. \<forall>a len. cs_io q = CoRecv fd a len \<longrightarrow> cn_out cn = cn_in cn))) \<and>
   (shutdown_co_run depth sfd l z \<longrightarrow>
     (\<forall>fd cn. cy_conns z fd = Some cn \<longrightarrow> prefix (cn_out cn) (cn_in cn) \<and>
       (\<forall>q \<in># mset (co_sq (cy_server z)) + cy_inflight z. \<forall>a len. cs_io q = CoRecv fd a len \<longrightarrow> cn_out cn = cn_in cn)))"
  by (intro conjI impI allI ballI; (elim disjE)?; (rule co_inv_echoes, rule co_runs_inv); assumption)

section \<open>The end of the loop of exercise 15\<close>

text \<open>The set of descriptors that the program keeps is that of its client coroutines.\<close>

fun client_fd :: "coroutine \<Rightarrow> int option" where
  "client_fd (Receiving fd buf) = Some fd"
| "client_fd (Sending fd buf n k) = Some fd"
| "client_fd _ = None"

definition clients_of :: "(nat \<Rightarrow> coroutine option) \<Rightarrow> int set" where
  "clients_of F = {fd. \<exists>a c. F a = Some c \<and> client_fd c = Some fd}"

lemma clients_of_upd:
  "F a = Some c \<Longrightarrow> Option.bind x client_fd = client_fd c \<Longrightarrow> clients_of (F(a := x)) = clients_of F"
  "F b = None \<Longrightarrow> clients_of (F(b \<mapsto> Receiving fd buf)) = insert fd (clients_of F)"
proof -
  assume a: "F a = Some c" and x: "Option.bind x client_fd = client_fd c"
  show "clients_of (F(a := x)) = clients_of F"
  proof (intro set_eqI iffI)
    fix fd assume "fd \<in> clients_of (F(a := x))"
    then obtain b d where b: "(F(a := x)) b = Some d" "client_fd d = Some fd" by (auto simp: clients_of_def)
    show "fd \<in> clients_of F"
    proof (cases "b = a")
      case True
      with a b x have "client_fd c = Some fd" by (cases x) auto
      with a show ?thesis by (auto simp: clients_of_def)
    qed (use b in \<open>auto simp: clients_of_def\<close>)
  next
    fix fd assume "fd \<in> clients_of F"
    then obtain b d where b: "F b = Some d" "client_fd d = Some fd" by (auto simp: clients_of_def)
    show "fd \<in> clients_of (F(a := x))"
    proof (cases "b = a")
      case True
      with a b x have "Option.bind x client_fd = Some fd" by simp
      then show ?thesis by (auto simp: clients_of_def bind_eq_Some_conv)
    qed (use b in \<open>auto simp: clients_of_def\<close>)
  qed
next
  assume b: "F b = None"
  show "clients_of (F(b \<mapsto> Receiving fd buf)) = insert fd (clients_of F)"
  proof (intro set_eqI iffI)
    fix x assume x: "x \<in> insert fd (clients_of F)"
    show "x \<in> clients_of (F(b \<mapsto> Receiving fd buf))"
    proof (cases "x = fd")
      case True
      then show ?thesis by (auto simp: clients_of_def intro!: exI [of _ b])
    next
      case False
      with x obtain a c where a: "F a = Some c" "client_fd c = Some x" by (auto simp: clients_of_def)
      with b have "a \<noteq> b" by auto
      with a show ?thesis by (auto simp: clients_of_def intro!: exI [of _ a])
    qed
  qed (auto simp: clients_of_def split: if_splits)
qed

lemma clients_of_gone:
  assumes "F a = Some c" and "client_fd c = Some fd" and "\<And>b d. F b = Some d \<Longrightarrow> client_fd d = Some fd \<Longrightarrow> b = a"
  shows "clients_of (F(a := None)) = clients_of F - {fd}"
proof (intro set_eqI iffI)
  fix x assume "x \<in> clients_of (F(a := None))"
  then obtain b d where b: "F b = Some d" "client_fd d = Some x" "b \<noteq> a" by (auto simp: clients_of_def split: if_splits)
  with assms(3) [of b d] show "x \<in> clients_of F - {fd}" by (auto simp: clients_of_def)
next
  fix x assume "x \<in> clients_of F - {fd}"
  then obtain b d where b: "F b = Some d" "client_fd d = Some x" "x \<noteq> fd" by (auto simp: clients_of_def)
  with assms(1,2) have "b \<noteq> a" by auto
  with b show "x \<in> clients_of (F(a := None))" by (auto simp: clients_of_def intro!: exI [of _ b])
qed

definition clients_known :: "ServerState co_sys \<Rightarrow> bool" where
  "clients_known y \<longleftrightarrow> client_fds (co_state (cy_server y)) = clients_of (co_frames (cy_server y))"

lemma client_fd_served: "client_fd c = Some fd \<Longrightarrow> co_served c r = Some fd"
  by (cases c) auto

lemma shutdown_resume_clients:
  assumes fr: "F' = (F(fresh [\<mapsto>] oc_spawned (shutdown_body s c res)))(a := oc_next (shutdown_body s c res))"
    and a: "F a = Some c" and fresh: "\<forall>b \<in> set fresh. F b = None"
    and room: "length (oc_spawned (shutdown_body s c res)) \<le> length fresh"
    and known: "client_fds s = clients_of F"
    and one: "\<And>b d fd. client_fd c = Some fd \<Longrightarrow> F b = Some d \<Longrightarrow> client_fd d = Some fd \<Longrightarrow> b = a"
  shows "client_fds (oc_state (shutdown_body s c res)) = clients_of F'"
proof -
  note simps = co_suspends_def co_returns_def co_starts_def Let_def
  note same = clients_of_upd(1) [of F, OF a]
  have gone: "clients_of (F(a := None)) = clients_of F - {fd}" if "client_fd c = Some fd" for fd
    by (rule clients_of_gone [of F, OF a that]) (rule one [OF that])
  show ?thesis
  proof (cases c)
    case (Accepting l)
    show ?thesis
    proof (cases "0 \<le> res")
      case True
      with room Accepting obtain b bs where b: "fresh = b # bs" by (cases fresh) (auto simp: simps)
      with fresh a have "F b = None" "b \<noteq> a" by auto
      with clients_of_upd(1) [of "F(b \<mapsto> Receiving res co_buf)" a c "Some (Accepting l)"] clients_of_upd(2) [of F b res co_buf] a True known
      show ?thesis by (simp add: fr b Accepting simps)
    next
      case False
      with same [of None] same [of "Some (Accepting l)"] known show ?thesis by (simp add: fr Accepting simps)
    qed
  next
    case (Receiving fd buf)
    with gone [of fd] same [of "Some (Sending fd buf (nat res) 0)"] known show ?thesis by (simp add: fr simps)
  next
    case (Sending fd buf n k)
    with gone [of fd] same [of "Some (Sending fd buf n (k + nat res))"] same [of "Some (Receiving fd buf)"] known
    show ?thesis by (simp add: fr simps)
  next
    case (ClosingSlot slot)
    with same [of None] known show ?thesis by (simp add: fr simps)
  next
    case (Watching sfd l)
    with same [of None] known show ?thesis by (simp add: fr simps)
  qed
qed

lemma co_spawn_frames:
  "co_spawn companions depth as cs sv = Inr sv' \<Longrightarrow> co_frames sv' = (co_frames sv)(as [\<mapsto>] cs)"
proof (induction cs arbitrary: as sv)
  case (Cons c cs)
  then obtain a as' sv1 where as: "as = a # as'" "co_await companions depth a c sv = Inr sv1"
    "co_spawn companions depth as' cs sv1 = Inr sv'"
    by (cases as) (auto simp: bindR_Inr_iff)
  from Cons.IH [OF as(3)] show ?case by (simp add: co_await_Inr [OF as(2)] as(1) fun_upd_def)
qed simp

lemma co_resume_frames:
  assumes r: "co_resume body companions depth fresh a res sv = Inr (sv', fds)" and a: "co_frames sv a = Some c"
  shows "co_frames sv' =
    ((co_frames sv)(fresh [\<mapsto>] oc_spawned (body (co_state sv) c res)))(a := oc_next (body (co_state sv) c res))"
proof -
  let ?oc = "body (co_state sv) c res"
  from r a obtain sv1 sv2 sv3 where
    1: "co_spawn companions depth fresh (oc_spawned ?oc) (sv\<lparr>co_state := oc_state ?oc\<rparr>) = Inr sv1" and
    2: "co_queue depth (map ignored_sqe (oc_queued ?oc)) sv1 = Inr sv2" and
    3: "(case oc_next ?oc of None \<Rightarrow> Inr (sv2\<lparr>co_frames := (co_frames sv2)(a := None)\<rparr>)
         | Some c' \<Rightarrow> co_await companions depth a c' sv2) = Inr sv3" and sv': "sv' = sv3"
    unfolding co_resume_def by (auto simp: Let_def bindR_Inr_iff)
  have "co_frames sv3 = (co_frames sv2)(a := oc_next ?oc)"
    using 3 by (auto split: option.splits dest: co_await_Inr)
  moreover have "co_frames sv2 = co_frames sv1" using co_queue_Inr [OF 2] by simp
  moreover have "co_frames sv1 = (co_frames sv)(fresh [\<mapsto>] oc_spawned ?oc)" using co_spawn_frames [OF 1] by simp
  ultimately show ?thesis by (simp add: sv')
qed

lemma shutdown_loop_clients:
  assumes "co_loop_step shutdown_body no_companions shutdown_stops depth y y'" and inv: "co_inv y" and known: "clients_known y"
  shows "clients_known y'"
  using assms(1)
proof cases
  case (l_treat n e es fresh sv fds)
  show ?thesis
  proof (cases "ce_data e")
    case Ignored
    with l_treat known show ?thesis by (simp add: clients_known_def co_handle_def)
  next
    case (ToFrame a)
    from inv obtain W where
      m: "co_matches (co_frames (cy_server y)) (mset (co_sq (cy_server y)) + cy_inflight y) (add_mset e (mset es)) W" and
      v: "view_ok (cy_conns y) W" unfolding co_inv_def l_treat(3) by auto
    obtain c where c: "W a = Some (c, Some (ce_res e))" "co_frames (cy_server y) a = Some c"
      "co_matches ((co_frames (cy_server y))(a := None)) (mset (co_sq (cy_server y)) + cy_inflight y) (mset es) (W(a := None))"
      by (rule co_matches_completion [OF m ToFrame]) (rule that)
    from l_treat(6) ToFrame have r: "co_resume shutdown_body no_companions depth fresh a (ce_res e) (cy_server y) = Inr (sv, fds)"
      by (simp add: co_handle_def)
    note step = co_resume_matches(3,4) [OF r shutdown_co.companions_idle c(2) bodies_queue(4) c(3) l_treat(4,5)]
    have F: "co_frames (cy_server y) b = map_option fst (W b)" for b using m by (simp add: co_matches_def frames_match_def)
    have "b = a" if "client_fd c = Some fd" "co_frames (cy_server y) b = Some d" "client_fd d = Some fd" for b d fd
    proof -
      from that(2) F obtain q where "W b = Some (d, q)" by (cases "W b") auto
      from view_okD(4) [OF v this c(1)] client_fd_served that show ?thesis by blast
    qed
    from shutdown_resume_clients [OF co_resume_frames [OF r c(2)] c(2) l_treat(5) step(2) _ this] known step(1)
    show ?thesis by (simp add: clients_known_def l_treat(1))
  qed
qed (use known in \<open>simp_all add: clients_known_def\<close>)

lemma client_fd_received [simp]: "client_fd (co_received bs c) = client_fd c"
  by (cases c) auto

lemma co_completed_server [simp]: "cy_server (co_completed q res y) = cy_server y"
  by (simp add: co_completed_def)

lemma kernel_clients:
  assumes "co_kernel_step y y'" and "clients_known y"
  shows "clients_known y'"
  using assms(1)
proof cases
  case (k_recv_some q fd a len c cn bs)
  with clients_of_upd(1) [of "co_frames (cy_server y)", OF k_recv_some(4), of "Some (co_received bs c)"] assms(2) show ?thesis
    by (simp add: clients_known_def)
qed (use assms(2) in \<open>simp_all add: clients_known_def\<close>)

lemma shutdown_run_clients:
  assumes "shutdown_co_run depth sfd l y"
  shows "clients_known y"
proof -
  have "co_inv y \<and> clients_known y"
    using assms unfolding shutdown_co_run_def
  proof (induction rule: co_run.induct)
    case r_start
    have "co_inv (co_main \<lparr>client_fds = {}, shutting_down = False\<rparr> [(0, Accepting l), (1, Watching sfd l)])"
      by (rule co_main_inv) auto
    then show ?case by (auto simp: clients_known_def co_main_def clients_of_def split: if_splits)
  qed (auto intro: co_kernel_step_inv kernel_clients shutdown_co.loop_inv shutdown_loop_clients)
  then show ?thesis ..
qed

text \<open>C5. The loop of exercise 15 ends only after the signal, and when no client coroutine is left: a frame that remains
  is that of the accept loop or the watcher.\<close>

theorem shutdown_exit_clean:
  assumes "shutdown_co_run depth sfd l y" and "shutdown_stops (co_state (cy_server y))"
  shows "shutting_down (co_state (cy_server y)) \<and> (\<forall>a c. co_frames (cy_server y) a = Some c \<longrightarrow> co_buffer c = None)"
proof -
  from shutdown_run_clients [OF assms(1)] assms(2) have none: "clients_of (co_frames (cy_server y)) = {}"
    by (simp add: clients_known_def shutdown_stops_def)
  have "co_buffer c = None" if "co_frames (cy_server y) a = Some c" for a c
    using that none [unfolded clients_of_def] by (cases c) force+
  with assms(2) show ?thesis by (simp add: shutdown_stops_def)
qed

section \<open>Runs\<close>

definition co_between ::
  "(nat \<Rightarrow> coroutine option) \<Rightarrow> 's \<Rightarrow> co_sqe multiset \<Rightarrow> co_cqe list \<Rightarrow> (int \<Rightarrow> conn option) \<Rightarrow> 's co_sys" where
  "co_between F s infl cq cns =
     \<lparr>cy_server = \<lparr>co_frames = F, co_sq = [], co_state = s\<rparr>, cy_inflight = infl, cy_cq = cq, cy_conns = cns, cy_ready = 0\<rparr>"

lemma co_main_submitted:
  assumes "\<not> stop s"
  shows "co_run body cps stop d (co_main s cs) (co_between (map_of cs) s (mset (map (\<lambda>(a, c). frame_sqe a c) cs)) [] (\<lambda>_. None))"
  using r_loop [OF r_start l_submit, of "co_main s cs" stop body cps d] assms by (simp add: co_main_def co_between_def)

lemma co_round:
  assumes run: "co_run body cps stop d start (co_between F s infl [e] cns)" and stop: "\<not> stop s" "\<not> stop s'"
    and fresh: "distinct fresh" "\<forall>a \<in> set fresh. F a = None"
    and h: "co_handle body cps d fresh e \<lparr>co_frames = F, co_sq = [], co_state = s\<rparr> =
      Inr (\<lparr>co_frames = F', co_sq = sq', co_state = s'\<rparr>, gone)"
  shows "co_run body cps stop d start (co_between F' s' (infl + mset sq') [] (close_all gone cns))"
proof -
  have w: "co_run body cps stop d start ((co_between F s infl [e] cns)\<lparr>cy_ready := 1\<rparr>)"
    using r_loop [OF run l_wake] stop(1) by (simp add: co_between_def)
  have t: "co_run body cps stop d start ((co_between F' s' infl [] (close_all gone cns))
      \<lparr>cy_server := \<lparr>co_frames = F', co_sq = sq', co_state = s'\<rparr>\<rparr>)"
    using r_loop [OF w l_treat [of _ 0 e "[]" fresh]] fresh h by (simp add: co_between_def)
  show ?thesis
    using r_loop [OF t l_submit] stop(2) by (simp add: co_between_def)
qed

definition co_replying :: "unit co_sys" where
  "co_replying = co_between [0 \<mapsto> Accepting 3, 1 \<mapsto> Sending 5 (overwrite 0 [7, 8] co_buf) 2 0] ()
     {#frame_sqe 0 (Accepting 3), frame_sqe 1 (Sending 5 (overwrite 0 [7, 8] co_buf) 2 0)#} []
     [5 \<mapsto> \<lparr>cn_in = [7, 8], cn_out = []\<rparr>]"

lemma close_none [simp]: "close_all [] cns = cns"
  by (simp add: close_all_def)

lemmas co_run_simps = co_handle_def co_resume_def co_await_def bindR_def no_companions_def co_suspends_def co_returns_def co_starts_def
  frame_sqe_def

text \<open>A client connects as descriptor 5; its coroutine gets the frame at address 1. It sends two bytes.\<close>

lemma co_replying_run: "echo_co_run 4096 3 co_replying"
proof -
  let ?run = "co_run echo_body no_companions (\<lambda>_. False) 4096 (co_main () [(0, Accepting 3)])"
  let ?A = "frame_sqe 0 (Accepting 3)" and ?R = "frame_sqe 1 (Receiving 5 co_buf)"
  have "?run (co_between [0 \<mapsto> Accepting 3] () {#?A#} [] (\<lambda>_. None))"
    using co_main_submitted [of "\<lambda>_. False" "()" echo_body no_companions 4096 "[(0, Accepting 3)]"] by simp
  from r_kernel [OF this k_accepted [of ?A _ 3 5]]
  have "?run (co_between [0 \<mapsto> Accepting 3] () {#} [\<lparr>ce_data = ToFrame 0, ce_res = 5\<rparr>] [5 \<mapsto> \<lparr>cn_in = [], cn_out = []\<rparr>])"
    by (simp add: co_between_def co_completed_def frame_sqe_def is_fd_def)
  from co_round [OF this, where fresh = "[1]" and F' = "[0 \<mapsto> Accepting 3, 1 \<mapsto> Receiving 5 co_buf]" and sq' = "[?R, ?A]" and gone = "[]"]
  have "?run (co_between [0 \<mapsto> Accepting 3, 1 \<mapsto> Receiving 5 co_buf] () {#?A, ?R#} [] [5 \<mapsto> \<lparr>cn_in = [], cn_out = []\<rparr>])"
    by (simp add: co_run_simps add_mset_commute fun_upd_twist)
  from r_kernel [OF this k_recv_some [of ?R _ 5 1 CO_BUF_SIZE "Receiving 5 co_buf" "\<lparr>cn_in = [], cn_out = []\<rparr>" "[7, 8]"]]
  have "?run (co_between [0 \<mapsto> Accepting 3, 1 \<mapsto> Receiving 5 (overwrite 0 [7, 8] co_buf)] () {#?A#}
      [\<lparr>ce_data = ToFrame 1, ce_res = 2\<rparr>] [5 \<mapsto> \<lparr>cn_in = [7, 8], cn_out = []\<rparr>])"
    by (simp add: co_between_def co_completed_def frame_sqe_def CO_BUF_SIZE_def)
  from co_round [OF this, where fresh = "[]" and F' = "[0 \<mapsto> Accepting 3, 1 \<mapsto> Sending 5 (overwrite 0 [7, 8] co_buf) 2 0]"
      and sq' = "[frame_sqe 1 (Sending 5 (overwrite 0 [7, 8] co_buf) 2 0)]" and gone = "[]"]
  show ?thesis
    by (simp add: co_run_simps echo_co_run_def co_replying_def add_mset_commute)
qed

text \<open>The signal and a connection arrive together: the watcher has cancelled everything when the new client starts.\<close>

definition missed_client :: "ServerState co_sys" where
  "missed_client = co_between [0 \<mapsto> Accepting 3, 2 \<mapsto> Receiving 5 co_buf] \<lparr>client_fds = {5}, shutting_down = True\<rparr>
     {#frame_sqe 0 (Accepting 3), frame_sqe 2 (Receiving 5 co_buf)#} [] [5 \<mapsto> \<lparr>cn_in = [], cn_out = []\<rparr>]"

lemma missed_client_run: "shutdown_co_run 4096 7 3 missed_client"
proof -
  let ?calm = "\<lparr>client_fds = {}, shutting_down = False\<rparr>" and ?down = "\<lparr>client_fds = {}, shutting_down = True\<rparr>"
  let ?new_client = "\<lparr>client_fds = {5}, shutting_down = True\<rparr>"
  let ?run = "co_run shutdown_body no_companions shutdown_stops 4096 (co_main ?calm [(0, Accepting 3), (1, Watching 7 3)])"
  let ?A = "frame_sqe 0 (Accepting 3)" and ?P = "frame_sqe 1 (Watching 7 3)" and ?R = "frame_sqe 2 (Receiving 5 co_buf)"
  let ?F = "[0 \<mapsto> Accepting 3, 1 \<mapsto> Watching 7 3]" and ?new = "[5 \<mapsto> \<lparr>cn_in = [], cn_out = []\<rparr>]"
  let ?F' = "[0 \<mapsto> Accepting 3, 2 \<mapsto> Receiving 5 co_buf]"
  let ?polled = "\<lparr>ce_data = ToFrame 1, ce_res = 1\<rparr>" and ?came = "\<lparr>ce_data = ToFrame 0, ce_res = 5\<rparr>"
  have calm: "\<not> shutdown_stops ?calm" "\<not> shutdown_stops ?new_client" by (simp_all add: shutdown_stops_def)
  have "?run (co_between ?F ?calm {#?A, ?P#} [] (\<lambda>_. None))"
    using co_main_submitted [of shutdown_stops ?calm shutdown_body no_companions 4096 "[(0, Accepting 3), (1, Watching 7 3)]"] calm(1)
    by (simp add: fun_upd_twist)
  from r_kernel [OF this k_other [of ?P _ 7 1]] have "?run (co_between ?F ?calm {#?A#} [?polled] (\<lambda>_. None))"
    by (simp add: co_between_def co_completed_def frame_sqe_def)
  from r_kernel [OF this k_accepted [of ?A _ 3 5]] have "?run (co_between ?F ?calm {#} [?polled, ?came] ?new)"
    by (simp add: co_between_def co_completed_def frame_sqe_def is_fd_def)
  from r_loop [OF this l_wake] calm(1) have w: "?run ((co_between ?F ?calm {#} [?polled, ?came] ?new)\<lparr>cy_ready := Suc (Suc 0)\<rparr>)"
    by (simp add: co_between_def)
  have "?run ((co_between [0 \<mapsto> Accepting 3] ?down {#} [?came] ?new)
      \<lparr>cy_server := \<lparr>co_frames = [0 \<mapsto> Accepting 3], co_sq = [ignored_sqe (CoCancel 3)], co_state = ?down\<rparr>, cy_ready := 1\<rparr>)"
    using r_loop [OF w l_treat [of _ 1 ?polled "[?came]" "[]"]]
    by (simp add: co_between_def co_run_simps fun_upd_twist)
  note first = this
  have "?run ((co_between ?F' ?new_client {#} [] ?new)
      \<lparr>cy_server := \<lparr>co_frames = ?F', co_sq = [ignored_sqe (CoCancel 3), ?R, ?A], co_state = ?new_client\<rparr>\<rparr>)"
    using r_loop [OF first l_treat [of _ 0 ?came "[]" "[2]"]]
    by (simp add: co_between_def co_run_simps CO_ECANCELED_def fun_upd_twist)
  from r_loop [OF this l_submit] calm(2)
  have "?run (co_between ?F' ?new_client {#ignored_sqe (CoCancel 3), ?R, ?A#} [] ?new)" by (simp add: co_between_def)
  from r_kernel [OF this k_other [of "ignored_sqe (CoCancel 3)" _ 3 "- 2"]]
  have "?run (co_between ?F' ?new_client {#?R, ?A#} [\<lparr>ce_data = Ignored, ce_res = - 2\<rparr>] ?new)"
    by (simp add: co_between_def co_completed_def ignored_sqe_def)
  from co_round [OF this calm(2) calm(2), where fresh = "[]" and F' = ?F' and sq' = "[]" and gone = "[]"] show ?thesis
    by (simp add: co_handle_def shutdown_co_run_def missed_client_def add_mset_commute)
qed

text \<open>C6. The shutdown of exercise 15 can miss a client. When the signal and a connection complete in the same round, the watcher
  cancels what there is before the client is in the set: the server is shutting down, but its new client waits for data, the listening socket
  accepts again, and nothing is left, in the queues or in flight, that would cancel either.\<close>

theorem shutdown_misses_client:
  "\<exists>y. shutdown_co_run 4096 7 3 y \<and> shutting_down (co_state (cy_server y)) \<and>
     co_frames (cy_server y) 2 = Some (Receiving 5 co_buf) \<and> cy_cq y = [] \<and> co_sq (cy_server y) = [] \<and>
     cy_inflight y = {#frame_sqe 0 (Accepting 3), frame_sqe 2 (Receiving 5 co_buf)#}"
  by (rule exI [of _ missed_client]) (simp add: missed_client_run, simp add: missed_client_def co_between_def)

theorem coroutine_frames_live_witness: "frames_live co_replying \<and> frames_live missed_client"
  using coroutine_frames_live [of 4096 3 co_replying 7 missed_client] co_replying_run missed_client_run by simp

theorem coroutine_servers_echo_witness:
  "prefix (cn_out \<lparr>cn_in = [7, 8], cn_out = []\<rparr>) (cn_in \<lparr>cn_in = [7, 8], cn_out = []\<rparr>) \<and>
   cn_out (the (cy_conns missed_client 5)) = cn_in (the (cy_conns missed_client 5))"
proof
  have "cy_conns co_replying 5 = Some \<lparr>cn_in = [7, 8], cn_out = []\<rparr>" by (simp add: co_replying_def co_between_def)
  with coroutine_servers_echo [of 4096 3 co_replying 7 missed_client] co_replying_run
  show "prefix (cn_out \<lparr>cn_in = [7, 8], cn_out = []\<rparr>) (cn_in \<lparr>cn_in = [7, 8], cn_out = []\<rparr>)" by blast
  have "frame_sqe 2 (Receiving 5 co_buf) \<in># mset (co_sq (cy_server missed_client)) + cy_inflight missed_client"
    "cs_io (frame_sqe 2 (Receiving 5 co_buf)) = CoRecv 5 2 CO_BUF_SIZE"
    by (simp_all add: missed_client_def co_between_def frame_sqe_def)
  with coroutine_servers_echo [of 4096 3 co_replying 7 missed_client] missed_client_run
  have echoed: "\<forall>cn. cy_conns missed_client 5 = Some cn \<longrightarrow> cn_out cn = cn_in cn" by blast
  have "cy_conns missed_client 5 = Some (the (cy_conns missed_client 5))" by (simp add: missed_client_def co_between_def)
  with echoed show "cn_out (the (cy_conns missed_client 5)) = cn_in (the (cy_conns missed_client 5))" by blast
qed

text \<open>The client leaves, and the loop ends.\<close>

theorem shutdown_exit_clean_witness:
  "\<exists>y :: ServerState co_sys. shutting_down (co_state (cy_server y)) \<and> co_frames (cy_server y) 0 = Some (Accepting 3) \<and>
     co_buffer (Accepting 3) = None"
proof -
  let ?run = "co_run shutdown_body no_companions shutdown_stops 4096
     (co_main \<lparr>client_fds = {}, shutting_down = False\<rparr> [(0, Accepting 3), (1, Watching 7 3)])"
  let ?F = "[0 \<mapsto> Accepting 3, 2 \<mapsto> Receiving 5 co_buf]" and ?s = "\<lparr>client_fds = {5}, shutting_down = True\<rparr>"
  let ?A = "frame_sqe 0 (Accepting 3)" and ?R = "frame_sqe 2 (Receiving 5 co_buf)"
  let ?y = "co_between ?F ?s {#?A#} [\<lparr>ce_data = ToFrame 2, ce_res = 0\<rparr>] [5 \<mapsto> \<lparr>cn_in = [], cn_out = []\<rparr>]"
  let ?z = "co_between [0 \<mapsto> Accepting 3] (\<lparr>client_fds = {}, shutting_down = True\<rparr>) {#?A#} [] (close_all [5] [5 \<mapsto> \<lparr>cn_in = [], cn_out = []\<rparr>])"
  have "?run (co_between ?F ?s {#?A, ?R#} [] [5 \<mapsto> \<lparr>cn_in = [], cn_out = []\<rparr>])"
    using missed_client_run by (simp add: shutdown_co_run_def missed_client_def)
  from r_kernel [OF this k_recv_none [of ?R _ 5 2 CO_BUF_SIZE 0]] have "?run ?y"
    by (simp add: co_between_def co_completed_def frame_sqe_def)
  from r_loop [OF this l_wake] have w: "?run (?y\<lparr>cy_ready := Suc 0\<rparr>)" by (simp add: co_between_def shutdown_stops_def)
  have "?run ?z"
    using r_loop [OF w l_treat [of _ 0 "\<lparr>ce_data = ToFrame 2, ce_res = 0\<rparr>" "[]" "[]"]]
    by (simp add: co_between_def co_run_simps fun_upd_twist)
  then have z: "shutdown_co_run 4096 7 3 ?z" by (simp add: shutdown_co_run_def)
  have stops: "shutdown_stops (co_state (cy_server ?z))" "co_frames (cy_server ?z) 0 = Some (Accepting 3)"
    by (simp_all add: co_between_def shutdown_stops_def)
  note clean = shutdown_exit_clean [OF z stops(1)]
  show ?thesis
    by (rule exI [of _ ?z], intro conjI, rule conjunct1 [OF clean], rule stops(2),
      rule mp [OF spec [OF spec [OF conjunct2 [OF clean]]] stops(2)])
qed

end
