(* ===== verification/VfioOpen.thy ===== *)
theory VfioOpen
  imports Prelude "HOL-Library.List_Lexorder" "HOL-Library.Char_ord" "HOL-Library.Product_Lexorder" "HOL-Library.Sublist"
begin

text \<open>
  How a program gets its VFIO descriptors (\<open>vfio_utils.hpp\<close>): \<open>UniqueFd\<close>, the sysfs look-ups and
  \<open>open_vfio_context\<close>. The file system and the kernel are functions of an environment that may answer
  anything; the state records every call that makes, uses or closes a descriptor. The lemmas show which
  descriptors are closed, on every path, and in which order the container, the group and the device are
  set up.
\<close>

section \<open>Paths\<close>

text \<open>The operations of \<open>std::filesystem::path\<close> that the sources use, on POSIX paths.\<close>

definition is_absolute :: "string \<Rightarrow> bool" where
  "is_absolute p \<longleftrightarrow> take 1 p = ''/''"

definition filename :: "string \<Rightarrow> string" where
  "filename p = rev (takeWhile (\<lambda>c. c \<noteq> CHR ''/'') (rev p))"

definition parent_path :: "string \<Rightarrow> string" where
  "parent_path p =
     (let q = dropWhile (\<lambda>c. c \<noteq> CHR ''/'') (rev p); r = dropWhile (\<lambda>c. c = CHR ''/'') q
      in if r \<noteq> [] then rev r else if list_all (\<lambda>c. c = CHR ''/'') p then p else take 1 q)"

definition path_join :: "string \<Rightarrow> string \<Rightarrow> string" where
  "path_join p q =
     (if is_absolute q then q else if filename p \<noteq> [] then p @ ''/'' @ q else p @ q)"

text \<open>
  The order of paths is that of their components, a path without a root first; a run of slashes
  separates as one does, and a slash at the end is followed by an empty component.
\<close>

function path_split :: "string \<Rightarrow> string list" where
  "path_split p =
     (let part = takeWhile (\<lambda>c. c \<noteq> CHR ''/'') p; rest = dropWhile (\<lambda>c. c \<noteq> CHR ''/'') p
      in if rest = [] then [part] else part # path_split (dropWhile (\<lambda>c. c = CHR ''/'') rest))"
  by pat_completeness auto

termination
proof (relation "measure length", goal_cases)
  case (2 p part rest)
  then have ne: "rest \<noteq> []" and eq: "rest = dropWhile (\<lambda>c. c \<noteq> CHR ''/'') p" by simp_all
  from ne obtain c cs where rest: "rest = c # cs" by (meson list.exhaust)
  with eq hd_dropWhile [of "\<lambda>c. c \<noteq> CHR ''/''" p] have "c = CHR ''/''" by (metis list.sel(1) ne)
  with rest have "length (dropWhile (\<lambda>c. c = CHR ''/'') rest) < length rest"
    by (simp add: le_imp_less_Suc length_dropWhile_le)
  also have "length rest \<le> length p" unfolding eq by (rule length_dropWhile_le)
  finally show ?case by simp
qed simp

definition path_key :: "string \<Rightarrow> bool \<times> string list" where
  "path_key p = (is_absolute p,
     (let q = dropWhile (\<lambda>c. c = CHR ''/'') p in if q = [] then [] else path_split q))"

section \<open>The system calls\<close>

text \<open>
  The requests the sources pass to \<open>ioctl\<close>, with their arguments. The answers are the result, \<open>errno\<close>, and the word
  that the kernel leaves in the \<open>flags\<close> of the structure passed to it, if there is one.
\<close>

datatype vfio_request =
    GET_API_VERSION
  | CHECK_EXTENSION int
  | GROUP_GET_STATUS
  | GROUP_SET_CONTAINER int
  | SET_IOMMU int
  | GROUP_GET_DEVICE_FD string
  | IOMMU_GET_INFO

datatype call = Opened string u32 int | Closed int | Ioctl int vfio_request int u32

record 'w os =
  os_exists :: "string \<Rightarrow> 'w \<Rightarrow> bool res \<times> 'w"
  os_read_symlink :: "string \<Rightarrow> 'w \<Rightarrow> string res \<times> 'w"
  os_canonical :: "string \<Rightarrow> 'w \<Rightarrow> string res \<times> 'w"
  os_entries :: "string \<Rightarrow> 'w \<Rightarrow> string list res \<times> 'w"
  os_open :: "string \<Rightarrow> u32 \<Rightarrow> 'w \<Rightarrow> (int \<times> int) \<times> 'w"
  os_ioctl :: "int \<Rightarrow> vfio_request \<Rightarrow> 'w \<Rightarrow> (int \<times> int \<times> u32) \<times> 'w"
  os_close :: "int \<Rightarrow> 'w \<Rightarrow> 'w"
  os_strerror :: "int \<Rightarrow> string"

text \<open>The members of a \<open>VfioContext\<close> are the values of the three \<open>fd_\<close>.\<close>

record VfioContext =
  vc_container :: int
  vc_group :: int
  vc_device :: int

definition no_context :: VfioContext where
  "no_context = \<lparr>vc_container = -1, vc_group = -1, vc_device = -1\<rparr>"

text \<open>\<open>os_vfio\<close> is the local object \<open>vfio\<close> of \<open>open_vfio_context\<close>.\<close>

record 'w os_st =
  os_world :: 'w
  os_calls :: "call list"
  os_vfio :: VfioContext

definition fs_call :: "('w \<Rightarrow> 'a res \<times> 'w) \<Rightarrow> ('w os_st, 'a) M" where
  "fs_call f = (\<lambda>s. case f (os_world s) of (r, w) \<Rightarrow> (r, s\<lparr>os_world := w\<rparr>))"

definition open_call :: "'w os \<Rightarrow> string \<Rightarrow> u32 \<Rightarrow> ('w os_st, int \<times> int) M" where
  "open_call env p flags = (\<lambda>s. case os_open env p flags (os_world s) of ((fd, errno), w) \<Rightarrow>
     (Inr (fd, errno), s\<lparr>os_world := w, os_calls := os_calls s @ [Opened p flags fd]\<rparr>))"

definition ioctl_call :: "'w os \<Rightarrow> int \<Rightarrow> vfio_request \<Rightarrow> ('w os_st, int \<times> int \<times> u32) M" where
  "ioctl_call env fd request = (\<lambda>s. case os_ioctl env fd request (os_world s) of ((result, errno, flags), w) \<Rightarrow>
     (Inr (result, errno, flags), s\<lparr>os_world := w, os_calls := os_calls s @ [Ioctl fd request result flags]\<rparr>))"

definition close_call :: "'w os \<Rightarrow> int \<Rightarrow> ('w os_st, unit) M" where
  "close_call env fd = (\<lambda>s. (Inr (), s\<lparr>os_world := os_close env fd (os_world s), os_calls := os_calls s @ [Closed fd]\<rparr>))"

section \<open>UniqueFd\<close>

text \<open>An object is the value of its \<open>fd_\<close>; an operation returns the new value.\<close>

definition UniqueFd_release :: "int \<Rightarrow> int \<times> int" where
  "UniqueFd_release fd = (fd, -1)"

definition UniqueFd_reset :: "'w os \<Rightarrow> int \<Rightarrow> int \<Rightarrow> ('w os_st, int) M" where
  "UniqueFd_reset env fd new =
     thenM (if fd \<noteq> -1 then close_call env fd else returnM ()) (returnM new)"

definition UniqueFd_drop :: "'w os \<Rightarrow> int \<Rightarrow> ('w os_st, unit) M" where
  "UniqueFd_drop env fd = thenM (UniqueFd_reset env fd (-1)) (returnM ())"

text \<open>
  Assignment from a temporary, which is destroyed at the end of the statement, when it holds no descriptor any more.
\<close>

definition UniqueFd_assign :: "'w os \<Rightarrow> int \<Rightarrow> int \<Rightarrow> ('w os_st, int) M" where
  "UniqueFd_assign env fd other =
     (case UniqueFd_release other of (old, rest) \<Rightarrow>
        bindM (UniqueFd_reset env fd old) (\<lambda>fd'.
        thenM (UniqueFd_drop env rest)
          (returnM fd')))"

definition VfioContext_drop :: "'w os \<Rightarrow> VfioContext \<Rightarrow> ('w os_st, unit) M" where
  "VfioContext_drop env v =
     thenM (UniqueFd_drop env (vc_device v))
    (thenM (UniqueFd_drop env (vc_group v))
           (UniqueFd_drop env (vc_container v)))"

section \<open>Opening and asking\<close>

definition O_RDWR :: u32 where "O_RDWR = 2"
definition O_CLOEXEC :: u32 where "O_CLOEXEC = 0x80000"
definition EBUSY :: int where "EBUSY = 16"
definition VFIO_API_VERSION :: int where "VFIO_API_VERSION = 0"
definition VFIO_TYPE1_IOMMU :: int where "VFIO_TYPE1_IOMMU = 1"
definition VFIO_TYPE1v2_IOMMU :: int where "VFIO_TYPE1v2_IOMMU = 3"
definition VFIO_GROUP_FLAGS_VIABLE :: u32 where "VFIO_GROUP_FLAGS_VIABLE = 1"

text \<open>The result is the temporary \<open>UniqueFd\<close> of the descriptor.\<close>

definition vfio_open_fd :: "'w os \<Rightarrow> string \<Rightarrow> u32 \<Rightarrow> ('w os_st, int) M" where
  "vfio_open_fd env path flags =
     bindM (open_call env path (flags OR O_CLOEXEC)) (\<lambda>(fd, errno).
     if fd = -1
     then throwM (RuntimeError (''cannot open '' @ path @ '': '' @ os_strerror env errno @
       (if errno = EBUSY \<and> prefix ''/dev/vfio/'' path
        then ''; the VFIO group is already open in another process. Check with fuser or lsof and stop the process that owns this group''
        else [])))
     else returnM fd)"

definition ioctl_error :: "'w os \<Rightarrow> string \<Rightarrow> int \<Rightarrow> exn" where
  "ioctl_error env operation errno = RuntimeError (operation @ '': '' @ os_strerror env errno)"

definition vfio_ioctl_checked :: "'w os \<Rightarrow> int \<Rightarrow> vfio_request \<Rightarrow> string \<Rightarrow> ('w os_st, u32) M" where
  "vfio_ioctl_checked env fd request operation =
     bindM (ioctl_call env fd request) (\<lambda>(result, errno, flags).
     if result = -1 then throwM (ioctl_error env operation errno) else returnM flags)"

definition vfio_ioctl_value :: "'w os \<Rightarrow> int \<Rightarrow> vfio_request \<Rightarrow> string \<Rightarrow> ('w os_st, int) M" where
  "vfio_ioctl_value env fd request operation =
     bindM (ioctl_call env fd request) (\<lambda>(result, errno, flags).
     if result = -1 then throwM (ioctl_error env operation errno) else returnM result)"

definition vfio_ioctl_arg_value ::
  "'w os \<Rightarrow> int \<Rightarrow> (int \<Rightarrow> vfio_request) \<Rightarrow> int \<Rightarrow> string \<Rightarrow> ('w os_st, int) M" where
  "vfio_ioctl_arg_value env fd request arg operation =
     bindM (ioctl_call env fd (request arg)) (\<lambda>(result, errno, flags).
     if result = -1 then throwM (ioctl_error env operation errno) else returnM result)"

section \<open>The look-ups in sysfs\<close>

text \<open>The target of a link, made absolute relative to the directory of the link.\<close>

definition resolved_link :: "'w os \<Rightarrow> string \<Rightarrow> string \<Rightarrow> ('w os_st, string) M" where
  "resolved_link env link target =
     (if is_absolute target then returnM target
      else fs_call (os_canonical env (path_join (parent_path link) target)))"

record DriverInfo =
  di_bound :: bool
  di_name :: string
  di_path :: string

definition unbound_driver :: DriverInfo where
  "unbound_driver = \<lparr>di_bound = False, di_name = ''<unbound>'', di_path = []\<rparr>"

definition current_driver :: "'w os \<Rightarrow> string \<Rightarrow> ('w os_st, DriverInfo) M" where
  "current_driver env dev_dir =
     (let driver_link = path_join dev_dir ''driver'' in
      bindM (fs_call (os_exists env driver_link)) (\<lambda>found.
      if \<not> found then returnM unbound_driver
      else bindM (fs_call (os_read_symlink env driver_link)) (\<lambda>target.
        bindM (resolved_link env driver_link target) (\<lambda>path.
        returnM \<lparr>di_bound = True, di_name = filename target, di_path = path\<rparr>))))"

definition require_vfio_driver :: "'w os \<Rightarrow> string \<Rightarrow> ('w os_st, unit) M" where
  "require_vfio_driver env dev_dir =
     bindM (current_driver env dev_dir) (\<lambda>driver.
     throw_ifM (di_name driver \<noteq> ''vfio-pci'')
       (RuntimeError (''device must be bound to vfio-pci; current driver='' @ di_name driver)))"

record IommuGroupInfo =
  ig_id :: string
  ig_path :: string

definition iommu_group_for_device :: "'w os \<Rightarrow> string \<Rightarrow> ('w os_st, IommuGroupInfo) M" where
  "iommu_group_for_device env dev_dir =
     (let group_link = path_join dev_dir ''iommu_group'' in
      bindM (fs_call (os_exists env group_link)) (\<lambda>found.
      thenM (throw_ifM (\<not> found) (RuntimeError (dev_dir @ '' does not have an iommu_group symlink'')))
     (bindM (fs_call (os_read_symlink env group_link)) (\<lambda>target.
      bindM (resolved_link env group_link target) (\<lambda>group_path.
      returnM \<lparr>ig_id = filename group_path, ig_path = group_path\<rparr>)))))"

primrec group_device_paths :: "'w os \<Rightarrow> string list \<Rightarrow> ('w os_st, string list) M" where
  "group_device_paths env [] = returnM []"
| "group_device_paths env (entry # entries) =
     bindM (fs_call (os_read_symlink env entry)) (\<lambda>target.
     bindM (resolved_link env entry target) (\<lambda>dev_path.
     bindM (group_device_paths env entries) (\<lambda>devices.
     returnM (dev_path # devices))))"

definition group_devices :: "'w os \<Rightarrow> IommuGroupInfo \<Rightarrow> ('w os_st, string list) M" where
  "group_devices env grp =
     (let devices_dir = path_join (ig_path grp) ''devices'' in
      bindM (fs_call (os_exists env devices_dir)) (\<lambda>found.
      if \<not> found then returnM []
      else bindM (fs_call (os_entries env devices_dir)) (\<lambda>entries.
        bindM (group_device_paths env entries) (\<lambda>devices.
        returnM (sort_key path_key devices)))))"

text \<open>The lines that are printed, as the names of a device and of its driver.\<close>

primrec device_lines :: "'w os \<Rightarrow> string list \<Rightarrow> ('w os_st, (string \<times> string) list) M" where
  "device_lines env [] = returnM []"
| "device_lines env (dev_path # devices) =
     bindM (current_driver env dev_path) (\<lambda>driver.
     bindM (device_lines env devices) (\<lambda>lines.
     returnM ((filename dev_path, di_name driver) # lines)))"

definition print_group_devices :: "'w os \<Rightarrow> IommuGroupInfo \<Rightarrow> ('w os_st, (string \<times> string) list) M" where
  "print_group_devices env grp = bindM (group_devices env grp) (device_lines env)"

section \<open>The container, the group and the device\<close>

definition int_string :: "int \<Rightarrow> string" where
  "int_string n = (if n < 0 then ''-'' @ to_string (nat (- n)) else to_string (nat n))"

text \<open>Assignments to the members of the local object.\<close>

definition set_container :: "'w os \<Rightarrow> int \<Rightarrow> ('w os_st, unit) M" where
  "set_container env tmp s =
     bindM (UniqueFd_assign env (vc_container (os_vfio s)) tmp) (\<lambda>fd s.
       (Inr (), s\<lparr>os_vfio := os_vfio s\<lparr>vc_container := fd\<rparr>\<rparr>)) s"

definition set_group :: "'w os \<Rightarrow> int \<Rightarrow> ('w os_st, unit) M" where
  "set_group env tmp s =
     bindM (UniqueFd_assign env (vc_group (os_vfio s)) tmp) (\<lambda>fd s.
       (Inr (), s\<lparr>os_vfio := os_vfio s\<lparr>vc_group := fd\<rparr>\<rparr>)) s"

definition set_device :: "'w os \<Rightarrow> int \<Rightarrow> ('w os_st, unit) M" where
  "set_device env tmp s =
     bindM (UniqueFd_assign env (vc_device (os_vfio s)) tmp) (\<lambda>fd s.
       (Inr (), s\<lparr>os_vfio := os_vfio s\<lparr>vc_device := fd\<rparr>\<rparr>)) s"

text \<open>
  The scope of the local object: the object is moved into the result, or destroyed while the stack unwinds.
\<close>

definition with_local_context :: "'w os \<Rightarrow> ('w os_st, unit) M \<Rightarrow> ('w os_st, VfioContext) M" where
  "with_local_context env body s =
     (case body (s\<lparr>os_vfio := no_context\<rparr>) of
        (Inl e, s1) \<Rightarrow> (Inl e, snd (VfioContext_drop env (os_vfio s1) s1))
      | (Inr _, s1) \<Rightarrow> (Inr (os_vfio s1), s1))"

definition container_ready :: "'w os \<Rightarrow> ('w os_st, int) M" where
  "container_ready env =
     bindM (vfio_open_fd env ''/dev/vfio/vfio'' O_RDWR) (\<lambda>fd.
     thenM (set_container env fd)
    (\<lambda>s. let container = vc_container (os_vfio s) in
     bindM (vfio_ioctl_value env container GET_API_VERSION ''VFIO_GET_API_VERSION'') (\<lambda>api_version.
     thenM (throw_ifM (api_version \<noteq> VFIO_API_VERSION)
       (RuntimeError (''unsupported VFIO API version '' @ int_string api_version)))
    (bindM (vfio_ioctl_arg_value env container CHECK_EXTENSION VFIO_TYPE1_IOMMU
       ''VFIO_CHECK_EXTENSION(VFIO_TYPE1_IOMMU)'') (\<lambda>type1.
     bindM (vfio_ioctl_arg_value env container CHECK_EXTENSION VFIO_TYPE1v2_IOMMU
       ''VFIO_CHECK_EXTENSION(VFIO_TYPE1v2_IOMMU)'') (\<lambda>type1v2.
     thenM (throw_ifM (type1 = 0 \<and> type1v2 = 0) (RuntimeError ''VFIO Type1 IOMMU is not supported''))
       (returnM type1v2))))) s))"

definition group_ready :: "'w os \<Rightarrow> string \<Rightarrow> int \<Rightarrow> ('w os_st, unit) M" where
  "group_ready env group_id type1v2 =
     bindM (vfio_open_fd env (path_join ''/dev/vfio'' group_id) O_RDWR) (\<lambda>fd.
     thenM (set_group env fd)
    (\<lambda>s. let container = vc_container (os_vfio s); grp = vc_group (os_vfio s) in
     bindM (vfio_ioctl_checked env grp GROUP_GET_STATUS ''VFIO_GROUP_GET_STATUS'') (\<lambda>flags.
     thenM (throw_ifM (flags AND VFIO_GROUP_FLAGS_VIABLE = 0)
       (RuntimeError (''IOMMU group is not viable; every device in the group must be bound '' @
         ''to a VFIO-compatible driver or safely unbound'')))
    (thenM (vfio_ioctl_checked env grp (GROUP_SET_CONTAINER container) ''VFIO_GROUP_SET_CONTAINER'')
    (thenM (vfio_ioctl_arg_value env container SET_IOMMU
       (if type1v2 \<noteq> 0 then VFIO_TYPE1v2_IOMMU else VFIO_TYPE1_IOMMU) ''VFIO_SET_IOMMU'')
       (returnM ())))) s))"

definition device_ready :: "'w os \<Rightarrow> string \<Rightarrow> ('w os_st, unit) M" where
  "device_ready env bdf s =
     bindM (ioctl_call env (vc_group (os_vfio s)) (GROUP_GET_DEVICE_FD bdf)) (\<lambda>(raw_device_fd, errno, flags).
     if raw_device_fd = -1 then throwM (ioctl_error env ''VFIO_GROUP_GET_DEVICE_FD'' errno)
     else set_device env raw_device_fd) s"

definition open_vfio_context :: "'w os \<Rightarrow> string \<Rightarrow> string \<Rightarrow> ('w os_st, VfioContext) M" where
  "open_vfio_context env bdf dev_dir =
     bindM (iommu_group_for_device env dev_dir) (\<lambda>grp.
     thenM (print_group_devices env grp)
       (with_local_context env
         (bindM (container_ready env) (\<lambda>type1v2.
          thenM (group_ready env (ig_id grp) type1v2)
            (device_ready env bdf)))))"

definition print_iommu_info :: "'w os \<Rightarrow> int \<Rightarrow> ('w os_st, unit) M" where
  "print_iommu_info env container_fd =
     thenM (vfio_ioctl_checked env container_fd IOMMU_GET_INFO ''VFIO_IOMMU_GET_INFO'') (returnM ())"

text \<open>
  The scope of the object \<open>vfio\<close> of a program, with the rest of the program as its argument.
\<close>

definition with_vfio :: "'w os \<Rightarrow> string \<Rightarrow> string \<Rightarrow> (VfioContext \<Rightarrow> ('w os_st, 'a) M) \<Rightarrow> ('w os_st, 'a) M" where
  "with_vfio env bdf dev_dir rest =
     bindM (open_vfio_context env bdf dev_dir) (\<lambda>vfio.
     finallyM (thenM (print_iommu_info env (vc_container vfio)) (rest vfio)) (VfioContext_drop env vfio))"


section \<open>Every descriptor is closed\<close>

text \<open>The descriptors that calls hand out and take back, in their order.\<close>

fun opened_by :: "call \<Rightarrow> int list" where
  "opened_by (Opened _ _ fd) = (if fd = -1 then [] else [fd])"
| "opened_by (Ioctl _ (GROUP_GET_DEVICE_FD _) fd _) = (if fd = -1 then [] else [fd])"
| "opened_by _ = []"

fun closed_by :: "call \<Rightarrow> int list" where
  "closed_by (Closed fd) = [fd]"
| "closed_by _ = []"

definition opened :: "call list \<Rightarrow> int list" where
  "opened tr = concat (map opened_by tr)"

definition closed :: "call list \<Rightarrow> int list" where
  "closed tr = concat (map closed_by tr)"

lemma opened_simps [simp]:
  "opened [] = []" "opened (c # tr) = opened_by c @ opened tr" "opened (tr @ tr') = opened tr @ opened tr'"
  "closed [] = []" "closed (c # tr) = closed_by c @ closed tr" "closed (tr @ tr') = closed tr @ closed tr'"
  by (simp_all add: opened_def closed_def)

text \<open>The descriptors of an object, in the order of its members.\<close>

definition held_by :: "VfioContext \<Rightarrow> int list" where
  "held_by v = filter (\<lambda>fd. fd \<noteq> -1) [vc_container v, vc_group v, vc_device v]"

text \<open>Since \<open>base\<close>, just the descriptors of \<open>v\<close> have been opened, and none closed.\<close>

definition owns :: "call list \<Rightarrow> VfioContext \<Rightarrow> 'w os_st \<Rightarrow> bool" where
  "owns base v s \<longleftrightarrow> (\<exists>tr. os_calls s = base @ tr \<and> opened tr = held_by v \<and> closed tr = [])"

text \<open>All the calls of a computation satisfy \<open>P\<close>, however it ends.\<close>

definition calls_only :: "(call \<Rightarrow> bool) \<Rightarrow> ('w os_st, 'a) M \<Rightarrow> bool" where
  "calls_only P m \<longleftrightarrow> (\<forall>s. os_vfio (snd (m s)) = os_vfio s \<and>
     (\<exists>tr. os_calls (snd (m s)) = os_calls s @ tr \<and> list_all P tr))"

definition fd_neutral :: "call \<Rightarrow> bool" where
  "fd_neutral c \<longleftrightarrow> opened_by c = [] \<and> closed_by c = []"

lemma fd_neutral_calls: "list_all fd_neutral tr \<Longrightarrow> opened tr = [] \<and> closed tr = []"
  by (induction tr) (simp_all add: fd_neutral_def)

abbreviation keeps_fds :: "('w os_st, 'a) M \<Rightarrow> bool" where
  "keeps_fds \<equiv> calls_only fd_neutral"

named_theorems call_rules "which calls a computation makes"

lemma calls_onlyE:
  fixes m :: "('w os_st, 'a) M"
  assumes "calls_only P m"
  obtains tr where "os_vfio (snd (m s)) = os_vfio s" "os_calls (snd (m s)) = os_calls s @ tr" "list_all P tr"
  using assms unfolding calls_only_def by blast

lemma calls_only_bindM [call_rules]:
  assumes "calls_only P m" and "\<And>a. calls_only P (f a)"
  shows "calls_only P (bindM m f)"
  unfolding calls_only_def
proof
  fix s
  obtain r s1 where m: "m s = (r, s1)" by fastforce
  with assms(1) obtain tr where 1: "os_vfio s1 = os_vfio s" "os_calls s1 = os_calls s @ tr" "list_all P tr"
    by (metis calls_onlyE snd_conv)
  show "os_vfio (snd (bindM m f s)) = os_vfio s \<and> (\<exists>tr. os_calls (snd (bindM m f s)) = os_calls s @ tr \<and> list_all P tr)"
  proof (cases r)
    case (Inl e)
    with m 1 show ?thesis by (simp add: bindM_def)
  next
    case (Inr a)
    obtain tr' where "os_vfio (snd (f a s1)) = os_vfio s1" "os_calls (snd (f a s1)) = os_calls s1 @ tr'" "list_all P tr'"
      using assms(2) [of a] by (rule calls_onlyE)
    with m 1 Inr show ?thesis by (simp add: bindM_def)
  qed
qed

lemma calls_only_basic [call_rules]:
  "calls_only P (returnM a)" "calls_only P (throwM e)" "calls_only P (throw_ifM b e)" "calls_only P (fs_call f)"
  by (auto simp: calls_only_def M_defs fs_call_def split: prod.splits)

lemma calls_only_if [call_rules]: "calls_only P m \<Longrightarrow> calls_only P n \<Longrightarrow> calls_only P (if b then m else n)"
  by simp

lemma calls_only_state: "(\<And>x. calls_only P (f x)) \<Longrightarrow> calls_only P (\<lambda>s. f s s)"
  by (simp add: calls_only_def)

lemma calls_only_ioctl [call_rules]:
  "(\<And>r flags. P (Ioctl fd request r flags)) \<Longrightarrow> calls_only P (ioctl_call env fd request)"
  by (auto simp: calls_only_def ioctl_call_def split: prod.splits)

lemma calls_only_ioctls [call_rules]:
  "(\<And>r flags. P (Ioctl fd request r flags)) \<Longrightarrow> calls_only P (vfio_ioctl_checked env fd request t)"
  "(\<And>r flags. P (Ioctl fd request r flags)) \<Longrightarrow> calls_only P (vfio_ioctl_value env fd request t)"
  "(\<And>r flags. P (Ioctl fd (req arg) r flags)) \<Longrightarrow> calls_only P (vfio_ioctl_arg_value env fd req arg t)"
  unfolding vfio_ioctl_checked_def vfio_ioctl_value_def vfio_ioctl_arg_value_def case_prod_beta
  by (intro call_rules; simp)+

lemma calls_only_lookups [call_rules]:
  "calls_only P (resolved_link env link target)"
  "calls_only P (current_driver env dev_dir)"
  "calls_only P (iommu_group_for_device env dev_dir)"
  unfolding resolved_link_def current_driver_def iommu_group_for_device_def Let_def
  by (intro call_rules)+

lemma calls_only_entries [call_rules]: "calls_only P (group_device_paths env entries)"
  by (induction entries) (simp_all add: call_rules)

lemma calls_only_lines [call_rules]: "calls_only P (device_lines env devices)"
  by (induction devices) (simp_all add: call_rules)

lemma calls_only_group [call_rules]: "calls_only P (print_group_devices env grp)" "calls_only P (require_vfio_driver env dev_dir)"
  unfolding print_group_devices_def group_devices_def require_vfio_driver_def Let_def
  by (intro call_rules)+

lemma owns_calls:
  "owns base v s \<Longrightarrow> os_calls s' = os_calls s @ tr \<Longrightarrow> list_all fd_neutral tr \<Longrightarrow> owns base v s'"
  unfolding owns_def by (metis append.assoc append_Nil2 fd_neutral_calls opened_simps(3) opened_simps(6))

text \<open>What has been acquired up to a step of \<open>open_vfio_context\<close>.\<close>

definition acquired :: "call list \<Rightarrow> 'w os_st \<Rightarrow> bool" where
  "acquired base s \<longleftrightarrow> owns base (os_vfio s) s"

lemma hoare_acquired:
  fixes m :: "('w os_st, 'a) M"
  assumes "keeps_fds m"
  shows "hoare (\<lambda>s. acquired base s \<and> P (os_vfio s)) m (\<lambda>_ s. acquired base s \<and> P (os_vfio s)) (\<lambda>_ s. acquired base s)"
proof (rule hoareI)
  fix s :: "'w os_st"
  assume s: "acquired base s \<and> P (os_vfio s)"
  from assms obtain tr where "os_vfio (snd (m s)) = os_vfio s" "os_calls (snd (m s)) = os_calls s @ tr"
    "list_all fd_neutral tr" by (rule calls_onlyE)
  with s have "acquired base (snd (m s)) \<and> P (os_vfio (snd (m s)))"
    using owns_calls unfolding acquired_def by metis
  then show "case m s of (Inl e, s') \<Rightarrow> acquired base s' | (Inr a, s') \<Rightarrow> acquired base s' \<and> P (os_vfio s')"
    by (cases "m s"; cases "fst (m s)") simp_all
qed

abbreviation no_device :: "VfioContext \<Rightarrow> bool" where
  "no_device v \<equiv> vc_device v = -1"

abbreviation no_group :: "VfioContext \<Rightarrow> bool" where
  "no_group v \<equiv> vc_group v = -1 \<and> vc_device v = -1"

lemma acquire_container:
  "hoare (\<lambda>s. acquired base s \<and> os_vfio s = no_context)
     (bindM (vfio_open_fd env p f) (set_container env))
     (\<lambda>_ s. acquired base s \<and> no_group (os_vfio s)) (\<lambda>_ s. acquired base s)"
  by (rule hoareI) (auto simp: acquired_def owns_def held_by_def vfio_open_fd_def open_call_def set_container_def
      UniqueFd_assign_def UniqueFd_release_def UniqueFd_reset_def UniqueFd_drop_def no_context_def
      bindM_def throwM_def returnM_def split: prod.splits sum.splits)

lemma acquire_group:
  "hoare (\<lambda>s. acquired base s \<and> no_group (os_vfio s))
     (bindM (vfio_open_fd env p f) (set_group env))
     (\<lambda>_ s. acquired base s \<and> no_device (os_vfio s)) (\<lambda>_ s. acquired base s)"
  by (rule hoareI) (auto simp: acquired_def owns_def held_by_def vfio_open_fd_def open_call_def set_group_def
      UniqueFd_assign_def UniqueFd_release_def UniqueFd_reset_def UniqueFd_drop_def
      bindM_def throwM_def returnM_def split: prod.splits sum.splits)

lemma acquire_device:
  "hoare (\<lambda>s. acquired base s \<and> no_device (os_vfio s)) (device_ready env bdf)
     (\<lambda>_ s. acquired base s) (\<lambda>_ s. acquired base s)"
  by (rule hoareI) (auto simp: acquired_def owns_def held_by_def device_ready_def ioctl_call_def set_device_def
      UniqueFd_assign_def UniqueFd_release_def UniqueFd_reset_def UniqueFd_drop_def
      bindM_def throwM_def returnM_def split: prod.splits sum.splits)


lemma container_ready_acquires:
  "hoare (\<lambda>s. acquired base s \<and> os_vfio s = no_context) (container_ready env)
     (\<lambda>_ s. acquired base s \<and> no_group (os_vfio s)) (\<lambda>_ s. acquired base s)"
  unfolding container_ready_def Let_def bindM_assoc [symmetric]
  by (rule hoare_bindM [OF acquire_container], rule hoare_acquired)
    (rule calls_only_state, (intro call_rules; simp add: fd_neutral_def)+)

lemma group_ready_acquires:
  "hoare (\<lambda>s. acquired base s \<and> no_group (os_vfio s)) (group_ready env group_id type1v2)
     (\<lambda>_ s. acquired base s \<and> no_device (os_vfio s)) (\<lambda>_ s. acquired base s)"
  unfolding group_ready_def Let_def bindM_assoc [symmetric]
  by (rule hoare_bindM [OF acquire_group], rule hoare_acquired)
    (rule calls_only_state, (intro call_rules; simp add: fd_neutral_def)+)

text \<open>The destructor closes what the object holds, the device first.\<close>

lemma VfioContext_drop_calls:
  "os_calls (snd (VfioContext_drop env v s)) = os_calls s @ map Closed (rev (held_by v))"
  by (simp add: VfioContext_drop_def UniqueFd_drop_def UniqueFd_reset_def close_call_def held_by_def bindM_def returnM_def)

lemma fds_of_closings [simp]: "opened (map Closed fds) = []" "closed (map Closed fds) = fds"
  by (induction fds) simp_all

text \<open>Every descriptor has been closed, in the reverse order.\<close>

definition released :: "call list \<Rightarrow> 'w os_st \<Rightarrow> bool" where
  "released base s \<longleftrightarrow> (\<exists>tr. os_calls s = base @ tr \<and> closed tr = rev (opened tr))"

lemma drop_releases: "owns base v s \<Longrightarrow> released base (snd (VfioContext_drop env v s))"
  unfolding owns_def released_def
  by (elim exE conjE, rule_tac x = "tr @ map Closed (rev (held_by v))" in exI) (simp add: VfioContext_drop_calls)

lemma with_local_context_result:
  assumes "hoare (\<lambda>s. acquired base s \<and> os_vfio s = no_context) body (\<lambda>_. acquired base) (\<lambda>_. acquired base)"
    and "os_calls s = base"
  shows "case with_local_context env body s of (Inl e, s') \<Rightarrow> released base s' | (Inr v, s') \<Rightarrow> owns base v s'"
proof -
  have "acquired base (s\<lparr>os_vfio := no_context\<rparr>)"
    using assms(2) by (simp add: acquired_def owns_def held_by_def no_context_def)
  with assms(1) have "case body (s\<lparr>os_vfio := no_context\<rparr>) of (Inl e, s') \<Rightarrow> acquired base s' | (Inr _, s') \<Rightarrow> acquired base s'"
    unfolding hoare_def by (auto split: prod.splits sum.splits)
  then show ?thesis
    by (auto simp: with_local_context_def acquired_def drop_releases split: prod.splits sum.splits)
qed

lemma open_vfio_context_result:
  fixes s :: "'w os_st"
  shows "case open_vfio_context env bdf dev_dir s of
     (Inl e, s') \<Rightarrow> released (os_calls s) s' | (Inr v, s') \<Rightarrow> owns (os_calls s) v s'"
proof -
  let ?body = "\<lambda>grp. bindM (container_ready env) (\<lambda>type1v2. thenM (group_ready env (ig_id grp) type1v2) (device_ready env bdf))"
  have body: "hoare (\<lambda>s. acquired base s \<and> os_vfio s = no_context) (?body grp) (\<lambda>_. acquired base) (\<lambda>_. acquired base)" for base grp
    by (rule hoare_bindM [OF container_ready_acquires], rule hoare_bindM [OF group_ready_acquires], rule acquire_device)
  let ?look = "bindM (iommu_group_for_device env dev_dir) (\<lambda>grp. thenM (print_group_devices env grp) (returnM grp))"
  have "calls_only (\<lambda>_. False) ?look" by (intro call_rules)
  then have calls: "os_calls (snd (?look s)) = os_calls s"
    by (rule calls_onlyE [where s = s]) (auto simp: list_all_iff)
  have split: "open_vfio_context env bdf dev_dir s = bindM ?look (\<lambda>grp. with_local_context env (?body grp)) s"
    by (simp add: open_vfio_context_def bindM_assoc)
  obtain r s1 where look: "?look s = (r, s1)" by fastforce
  show ?thesis
  proof (cases r)
    case (Inl e)
    with look calls show ?thesis by (simp add: split bindM_def released_def)
  next
    case (Inr grp)
    have "os_calls s1 = os_calls s" using calls look by simp
    from with_local_context_result [OF body [of "os_calls s" grp] this, of env] look Inr show ?thesis
      by (auto simp: split bindM_def split: prod.splits sum.splits)
  qed
qed

text \<open>
  C19. No descriptor leaks and none is closed twice. Whatever sysfs and the kernel answer, each VFIO descriptor that was
  opened is closed once when the program is through with it, in the reverse order of the openings (the
  device before its group, the group before the container): when \<open>open_vfio_context\<close> throws at any of its
  steps, when the rest of the program throws, and when it ends normally; \<open>open_vfio_context\<close> that succeeds leaves
  just the three descriptors of its result open. The rest of the program neither opens nor closes VFIO descriptors.
\<close>

theorem vfio_fds_closed:
  fixes s :: "'w os_st"
  assumes "\<And>vfio. keeps_fds (rest vfio)"
  shows "(case open_vfio_context env bdf dev_dir s of
      (Inl e, s') \<Rightarrow> released (os_calls s) s' | (Inr vfio, s') \<Rightarrow> owns (os_calls s) vfio s') \<and>
    released (os_calls s) (snd (with_vfio env bdf dev_dir rest s))"
proof
  show ctx: "case open_vfio_context env bdf dev_dir s of
      (Inl e, s') \<Rightarrow> released (os_calls s) s' | (Inr vfio, s') \<Rightarrow> owns (os_calls s) vfio s'"
    by (rule open_vfio_context_result)
  obtain r s1 where run: "open_vfio_context env bdf dev_dir s = (r, s1)" by fastforce
  show "released (os_calls s) (snd (with_vfio env bdf dev_dir rest s))"
  proof (cases r)
    case (Inl e)
    with run ctx show ?thesis by (simp add: with_vfio_def bindM_def)
  next
    case (Inr v)
    let ?all = "thenM (print_iommu_info env (vc_container v)) (rest v)"
    have "keeps_fds ?all"
      unfolding print_iommu_info_def using assms by (intro call_rules) (simp_all add: fd_neutral_def)
    then obtain tr where "os_calls (snd (?all s1)) = os_calls s1 @ tr" "list_all fd_neutral tr"
      by (rule calls_onlyE)
    moreover have "owns (os_calls s) v s1" using ctx run Inr by simp
    ultimately have "owns (os_calls s) v (snd (?all s1))" by (rule owns_calls [rotated])
    then have "released (os_calls s) (snd (VfioContext_drop env v (snd (?all s1))))" by (rule drop_releases)
    moreover have "snd (with_vfio env bdf dev_dir rest s) = snd (VfioContext_drop env v (snd (?all s1)))"
      using run Inr by (simp add: with_vfio_def bindM_run finallyM_def split: prod.splits)
    ultimately show ?thesis by simp
  qed
qed


section \<open>The order of the set-up\<close>

lemma look_up_run:
  assumes "calls_only (\<lambda>_. False) m" and "m s = (r, s')"
  shows "os_calls s' = os_calls s"
  using assms(1) by (rule calls_onlyE [where s = s]) (use assms(2) in \<open>auto simp: list_all_iff\<close>)

lemma open_run:
  "vfio_open_fd env p f s = (Inr fd, s') \<Longrightarrow>
   fd \<noteq> -1 \<and> os_vfio s' = os_vfio s \<and> os_calls s' = os_calls s @ [Opened p (f OR O_CLOEXEC) fd]"
  by (auto simp: vfio_open_fd_def open_call_def bindM_def throwM_def returnM_def split: prod.splits if_splits)

lemma ioctl_run:
  "vfio_ioctl_value env fd request t s = (Inr r, s') \<Longrightarrow>
     r \<noteq> -1 \<and> os_vfio s' = os_vfio s \<and> (\<exists>flags. os_calls s' = os_calls s @ [Ioctl fd request r flags])"
  "vfio_ioctl_arg_value env fd req arg t s = (Inr r, s') \<Longrightarrow>
     r \<noteq> -1 \<and> os_vfio s' = os_vfio s \<and> (\<exists>flags. os_calls s' = os_calls s @ [Ioctl fd (req arg) r flags])"
  "vfio_ioctl_checked env fd request t s = (Inr flags, s') \<Longrightarrow>
     os_vfio s' = os_vfio s \<and> (\<exists>r. r \<noteq> -1 \<and> os_calls s' = os_calls s @ [Ioctl fd request r flags])"
  by (auto simp: vfio_ioctl_value_def vfio_ioctl_arg_value_def vfio_ioctl_checked_def ioctl_call_def bindM_def
      throwM_def returnM_def split: prod.splits if_splits)

lemma assign_run:
  "set_container env fd s = (Inr u, s') \<Longrightarrow> vc_container (os_vfio s) = -1 \<Longrightarrow>
     os_vfio s' = (os_vfio s)\<lparr>vc_container := fd\<rparr> \<and> os_calls s' = os_calls s"
  "set_group env fd s = (Inr u, s') \<Longrightarrow> vc_group (os_vfio s) = -1 \<Longrightarrow>
     os_vfio s' = (os_vfio s)\<lparr>vc_group := fd\<rparr> \<and> os_calls s' = os_calls s"
  "set_device env fd s = (Inr u, s') \<Longrightarrow> vc_device (os_vfio s) = -1 \<Longrightarrow>
     os_vfio s' = (os_vfio s)\<lparr>vc_device := fd\<rparr> \<and> os_calls s' = os_calls s"
  by (auto simp: set_container_def set_group_def set_device_def UniqueFd_assign_def UniqueFd_release_def
      UniqueFd_reset_def UniqueFd_drop_def bindM_def returnM_def)

lemma container_ready_run:
  assumes "container_ready env s = (Inr type1v2, s')" and "os_vfio s = no_context"
  shows "\<exists>c type1 f1 f2 f3. c \<noteq> -1 \<and> os_vfio s' = no_context\<lparr>vc_container := c\<rparr> \<and> (type1 \<noteq> 0 \<or> type1v2 \<noteq> 0) \<and>
    os_calls s' = os_calls s @ [Opened ''/dev/vfio/vfio'' (O_RDWR OR O_CLOEXEC) c, Ioctl c GET_API_VERSION VFIO_API_VERSION f1,
      Ioctl c (CHECK_EXTENSION VFIO_TYPE1_IOMMU) type1 f2, Ioctl c (CHECK_EXTENSION VFIO_TYPE1v2_IOMMU) type1v2 f3]"
  using assms unfolding container_ready_def Let_def
  by (auto simp: run_iff no_context_def dest!: open_run ioctl_run assign_run(1))

lemma group_ready_run:
  assumes "group_ready env group_id type1v2 s = (Inr u, s')" and "vc_group (os_vfio s) = -1"
  shows "\<exists>g r1 flags r2 f2 r3 f3. g \<noteq> -1 \<and> os_vfio s' = (os_vfio s)\<lparr>vc_group := g\<rparr> \<and>
    flags AND VFIO_GROUP_FLAGS_VIABLE \<noteq> 0 \<and> r1 \<noteq> -1 \<and> r2 \<noteq> -1 \<and> r3 \<noteq> -1 \<and>
    os_calls s' = os_calls s @ [Opened (path_join ''/dev/vfio'' group_id) (O_RDWR OR O_CLOEXEC) g,
      Ioctl g GROUP_GET_STATUS r1 flags, Ioctl g (GROUP_SET_CONTAINER (vc_container (os_vfio s))) r2 f2,
      Ioctl (vc_container (os_vfio s)) (SET_IOMMU (if type1v2 \<noteq> 0 then VFIO_TYPE1v2_IOMMU else VFIO_TYPE1_IOMMU)) r3 f3]"
  using assms unfolding group_ready_def Let_def
  by (auto simp: run_iff dest!: open_run ioctl_run assign_run(2))

lemma device_ready_run:
  assumes "device_ready env bdf s = (Inr u, s')" and "vc_device (os_vfio s) = -1"
  shows "\<exists>d f. d \<noteq> -1 \<and> os_vfio s' = (os_vfio s)\<lparr>vc_device := d\<rparr> \<and>
    os_calls s' = os_calls s @ [Ioctl (vc_group (os_vfio s)) (GROUP_GET_DEVICE_FD bdf) d f]"
  using assms unfolding device_ready_def
  by (auto simp: run_iff ioctl_call_def throwM_def split: prod.splits if_splits dest!: assign_run(3))

text \<open>
  C20. The device is reached through a group that is viable and in a container that is set up for it. When
  \<open>open_vfio_context\<close> succeeds it has made just these calls, in this order, on the descriptors it
  returns: it opened the container and asked for its version and its IOMMU types, of which there is one; opened the
  group that sysfs names for the device, found it viable, put it into the container; chose the newer of the
  IOMMU types; and asked the group for the device of that address. Both files are opened close-on-exec.
\<close>

theorem vfio_set_up_in_order:
  fixes s :: "'w os_st"
  assumes "open_vfio_context env bdf dev_dir s = (Inr v, s')"
  shows "\<exists>grp s0 type1 type1v2 status r1 r2 r3 f1 f2 f3 f4 f5 f6.
    iommu_group_for_device env dev_dir s = (Inr grp, s0) \<and>
    (type1 \<noteq> 0 \<or> type1v2 \<noteq> 0) \<and> status AND VFIO_GROUP_FLAGS_VIABLE \<noteq> 0 \<and>
    -1 \<notin> {vc_container v, vc_group v, vc_device v, r1, r2, r3} \<and>
    os_calls s' = os_calls s @
     [Opened ''/dev/vfio/vfio'' (O_RDWR OR O_CLOEXEC) (vc_container v),
      Ioctl (vc_container v) GET_API_VERSION VFIO_API_VERSION f1,
      Ioctl (vc_container v) (CHECK_EXTENSION VFIO_TYPE1_IOMMU) type1 f2,
      Ioctl (vc_container v) (CHECK_EXTENSION VFIO_TYPE1v2_IOMMU) type1v2 f3,
      Opened (path_join ''/dev/vfio'' (ig_id grp)) (O_RDWR OR O_CLOEXEC) (vc_group v),
      Ioctl (vc_group v) GROUP_GET_STATUS r1 status,
      Ioctl (vc_group v) (GROUP_SET_CONTAINER (vc_container v)) r2 f4,
      Ioctl (vc_container v) (SET_IOMMU (if type1v2 \<noteq> 0 then VFIO_TYPE1v2_IOMMU else VFIO_TYPE1_IOMMU)) r3 f5,
      Ioctl (vc_group v) (GROUP_GET_DEVICE_FD bdf) (vc_device v) f6]"
proof -
  from assms obtain grp s0 lines s1 where grp: "iommu_group_for_device env dev_dir s = (Inr grp, s0)"
    and lines: "print_group_devices env grp s0 = (Inr lines, s1)"
    and local_run: "with_local_context env (bindM (container_ready env) (\<lambda>type1v2.
        thenM (group_ready env (ig_id grp) type1v2) (device_ready env bdf))) s1 = (Inr v, s')"
    by (auto simp: open_vfio_context_def run_iff)
  have calls: "os_calls s1 = os_calls s"
    using look_up_run [OF calls_only_lookups(3) grp] look_up_run [OF calls_only_group(1) lines] by simp
  let ?s1 = "s1\<lparr>os_vfio := no_context\<rparr>"
  from local_run obtain t s2 s3 where 1: "container_ready env ?s1 = (Inr t, s2)"
    and 2: "group_ready env (ig_id grp) t s2 = (Inr (), s3)" and 3: "device_ready env bdf s3 = (Inr (), s')"
    and v: "v = os_vfio s'"
    by (auto simp: with_local_context_def run_iff split: prod.splits sum.splits)
  from container_ready_run [OF 1] obtain c type1 f1 f2 f3 where c: "c \<noteq> -1" "type1 \<noteq> 0 \<or> t \<noteq> 0"
    "os_vfio s2 = no_context\<lparr>vc_container := c\<rparr>"
    "os_calls s2 = os_calls s1 @ [Opened ''/dev/vfio/vfio'' (O_RDWR OR O_CLOEXEC) c, Ioctl c GET_API_VERSION VFIO_API_VERSION f1,
      Ioctl c (CHECK_EXTENSION VFIO_TYPE1_IOMMU) type1 f2, Ioctl c (CHECK_EXTENSION VFIO_TYPE1v2_IOMMU) t f3]"
    by auto
  from group_ready_run [OF 2] c(3) obtain g r1 status r2 f4 r3 f5 where g: "g \<noteq> -1" "-1 \<notin> {r1, r2, r3}"
    "status AND VFIO_GROUP_FLAGS_VIABLE \<noteq> 0" "os_vfio s3 = no_context\<lparr>vc_container := c, vc_group := g\<rparr>"
    "os_calls s3 = os_calls s2 @ [Opened (path_join ''/dev/vfio'' (ig_id grp)) (O_RDWR OR O_CLOEXEC) g,
      Ioctl g GROUP_GET_STATUS r1 status, Ioctl g (GROUP_SET_CONTAINER c) r2 f4,
      Ioctl c (SET_IOMMU (if t \<noteq> 0 then VFIO_TYPE1v2_IOMMU else VFIO_TYPE1_IOMMU)) r3 f5]"
    by (auto simp: no_context_def)
  from device_ready_run [OF 3] g(4) obtain d f6 where d: "d \<noteq> -1"
    "os_vfio s' = no_context\<lparr>vc_container := c, vc_group := g, vc_device := d\<rparr>"
    "os_calls s' = os_calls s3 @ [Ioctl g (GROUP_GET_DEVICE_FD bdf) d f6]"
    by (auto simp: no_context_def)
  show ?thesis
    by (rule exI [of _ grp], rule exI [of _ s0], rule exI [of _ type1], rule exI [of _ t], rule exI [of _ status],
        rule exI [of _ r1], rule exI [of _ r2], rule exI [of _ r3])
      (use grp calls c g d v in \<open>simp add: no_context_def\<close>)
qed

text \<open>A machine with one device in group 7, with descriptors 3, 4 and 5.\<close>

definition one_device_os :: "int os" where
  "one_device_os = \<lparr>os_exists = (\<lambda>p w. (Inr (p \<noteq> ''/g/7/devices''), w)),
     os_read_symlink = (\<lambda>p w. (Inr ''/g/7'', w)), os_canonical = (\<lambda>p w. (Inr p, w)), os_entries = (\<lambda>p w. (Inr [], w)),
     os_open = (\<lambda>p f w. ((w, 0), w + 1)),
     os_ioctl = (\<lambda>fd request w. case request of
         GROUP_GET_DEVICE_FD _ \<Rightarrow> ((w, 0, 0), w + 1) | CHECK_EXTENSION _ \<Rightarrow> ((1, 0, 0), w)
       | IOMMU_GET_INFO \<Rightarrow> ((-1, 22, 0), w) | _ \<Rightarrow> ((0, 0, 1), w)),
     os_close = (\<lambda>fd w. w), os_strerror = (\<lambda>e. ''?'')\<rparr>"

definition at_start :: "int os_st" where
  "at_start = \<lparr>os_world = 3, os_calls = [], os_vfio = no_context\<rparr>"

lemma one_device_opened:
  "fst (open_vfio_context one_device_os ''0000:c1:00.6'' ''/d'' at_start) =
     Inr \<lparr>vc_container = 3, vc_group = 4, vc_device = 5\<rparr>"
  by code_simp

theorem vfio_set_up_in_order_witness:
  "\<exists>s'. open_vfio_context one_device_os ''0000:c1:00.6'' ''/d'' at_start =
     (Inr \<lparr>vc_container = 3, vc_group = 4, vc_device = 5\<rparr>, s') \<and> length (os_calls s') = 9"
proof -
  from one_device_opened obtain s' where
    run: "open_vfio_context one_device_os ''0000:c1:00.6'' ''/d'' at_start = (Inr \<lparr>vc_container = 3, vc_group = 4, vc_device = 5\<rparr>, s')"
    by (metis prod.collapse)
  from vfio_set_up_in_order [OF run] have "length (os_calls s') = length (os_calls at_start) + 9" by auto
  with run show ?thesis by (simp add: at_start_def)
qed

theorem vfio_fds_closed_witness:
  "released [] (snd (with_vfio one_device_os ''0000:c1:00.6'' ''/d'' (\<lambda>_. returnM ()) at_start)) \<and>
   closed (os_calls (snd (with_vfio one_device_os ''0000:c1:00.6'' ''/d'' (\<lambda>_. returnM ()) at_start))) = [5, 4, 3]"
proof
  have "released (os_calls at_start) (snd (with_vfio one_device_os ''0000:c1:00.6'' ''/d'' (\<lambda>_. returnM ()) at_start))"
    by (rule conjunct2 [OF vfio_fds_closed [where rest = "\<lambda>_. returnM ()" and env = one_device_os and s = at_start]]) (rule call_rules)
  then show "released [] (snd (with_vfio one_device_os ''0000:c1:00.6'' ''/d'' (\<lambda>_. returnM ()) at_start))"
    by (simp add: at_start_def)
  show "closed (os_calls (snd (with_vfio one_device_os ''0000:c1:00.6'' ''/d'' (\<lambda>_. returnM ()) at_start))) = [5, 4, 3]"
    by code_simp
qed

end
