(* ===== verification/Spec2Isabelle.thy ===== *)
theory Spec2Isabelle
  imports IrqMain NetMain QueueSteps FdQueue UringEcho FileServer UringCopy Multishot CoroServers VfioOpen
begin

text \<open>
  A model of the userspace virtio-net driver of this repository, with proofs. The programs are the
  numbered exercises of \<open>userspace_drivers/\<close>; what exercises 21 to 30 share is in the headers
  \<open>vfio_utils.hpp\<close> (VFIO, PCI config space, mappings, interrupts) and \<open>virtio_net_vfio.hpp\<close> (the
  virtio transport, split virtqueues, packets, the control queue). Exercises 12 to 20 hold copies of
  these functions of their own; where a copy differs, the difference is a parameter or a definition of its
  own. Exercises 12 to 30 are modelled from the command line to the last destructor. Some
  programs of \<open>io_uring/\<close> are modelled beside them: the echo server, the ones with
  provided buffers and multi-shot requests, those with coroutines, the file server, the work queue of the multi-threaded
  echo server, and the copies of files.

  \<^bold>\<open>How a run goes.\<close> A program reads its options, opens the VFIO device, enables bus mastering in the
  PCI command register, finds the virtio capabilities in the config space, maps COMMON_CFG and
  DEVICE_CFG of a BAR, negotiates features, chooses the queue sizes, computes one layout for all
  queues and buffers, allocates that much anonymous memory and maps it for the device. It fills
  the RX queue with buffers, programs and enables the queues, sets DRIVER_OK, rings the doorbell, and
  then works on the used rings: exercises 21 to 24 publish, observe, send or echo a few packets,
  exercise 25 polls and echoes packets, exercise 26 does so under interrupts, exercise 27 sends one promiscuous-mode command over the control queue, exercises 28 to 30
  send a command (promiscuous mode, MAC address, MAC table) and observe packets. Every resource has a
  destructor, and the order of the destructors is part of what is proved. The exercises before 21 stop
  earlier on this way: 12 and 18 look at the queues, 13 and 14 change the status and negotiate
  features, 15 lays out one ring, 16 and 17 program and enable it, 19 rings its doorbell and 20 sets DRIVER_OK.

  \<^bold>\<open>State and environment\<close> (World). The state \<open>st\<close> holds the bytes of the DMA buffer, the clock, the
  trace of what the program does to the outside (register writes, config space accesses, DMA
  mappings, interrupt bindings) and the mutable members of the guards. The device and the kernel are
  a record \<open>env\<close> of functions over an unknown \<open>world\<close>; they may answer anything. A theorem that needs
  more says so: \<open>env_ok\<close> (the device cannot change the size of the buffer, the kernel does not
  return more bytes than it was asked for), \<open>ticks\<close> (the clock moves), \<open>signals_bounded\<close> (the kernel does not
  interrupt a call for ever). A computation is a function of the state whose result is an exception
  (\<open>Inl\<close>) or a value (\<open>Inr\<close>); \<open>Undefined\<close> is the result of an operation that C++ leaves undefined,
  such as an access outside a buffer, and theorems show that it does not occur. The device acts on the DMA
  buffer before every volatile load, so that it may change a descriptor or a used entry at any time.
  Machine integers are words of their width, with their wrap-around.

  \<^bold>\<open>The theories and what they model.\<close>
  \<^item> Prelude: exceptions and results, the state monad with its Hoare rules, the collections
    \<open>safe_rules\<close>, \<open>hoare_rules\<close>, \<open>run_iff\<close>, lemmas on words and lists.
  \<^item> Sizes, Layout (\<open>virtio_net_vfio.hpp\<close>): \<open>align_up\<close>, \<open>checked_add\<close>, \<open>checked_mul\<close>, the layout of a
    vring and the three DMA layouts. A locale \<open>aligner\<close> states the law of rounding up and is interpreted for the
    alignment of a ring and for pages. The lemmas show that the regions of a layout are aligned, disjoint and inside.
  \<^item> Bytes: byte order helpers; a locale \<open>byte_store\<close> for reading after writing.
  \<^item> World (\<open>vfio_utils.hpp\<close>): the state, \<open>MappedRegion\<close>, \<open>AnonymousBuffer\<close>, \<open>DmaMapping\<close>.
  \<^item> Vring: the split virtqueue in the DMA buffer (\<open>publish_rx_buffers\<close>, \<open>recycle_rx_buffer\<close>,
    \<open>publish_tx_packet\<close>). The available ring refines a list of pending entries, by a locale \<open>ring_producer\<close>.
  \<^item> VfioOpen (\<open>vfio_utils.hpp\<close>): \<open>UniqueFd\<close>, the sysfs look-ups and \<open>open_vfio_context\<close>, on a state of
    its own that records the calls on descriptors.
  \<^item> PciConfig, Regions: \<open>pread_exact\<close> and \<open>pwrite_exact\<close> with partial and interrupted transfers, the
    walk over the PCI capabilities, the region descriptions of VFIO, the windows mapped for
    COMMON_CFG, DEVICE_CFG and the doorbells.
  \<^item> Transport: device status, reset, feature negotiation, queue registers, the guards, the virtio-net
    config. The lemmas give the register writes in their order.
  \<^item> Packet, RxScan: packets built and replied to, the scan of the RX used ring.
  \<^item> EchoLoop, EchoRun, EchoMain: \<open>25_virtio_net_echo_loop.cpp\<close>.
  \<^item> Scopes: the objects with destructors that exercises 21 to 30 share, each as a scope around the
    rest of the program, and the assertions about the trace. The locales \<open>datapath\<close> and \<open>device_program\<close> state what a
    program owes to its scopes; every program interprets them.
  \<^item> IrqEcho, IrqMain: \<open>26_virtio_net_irq_echo_loop.cpp\<close> and the interrupt functions of
    \<open>vfio_utils.hpp\<close>.
  \<^item> Ctrl, CtrlRun, CtrlMain: the control queue and the programs 27 to 30.
  \<^item> NetRuns, NetDefined, NetMain: exercises 21 to 24.
  \<^item> Inspect: exercises 12, 13, 14 and 18, which look at the device and change little; QueueSteps: exercises 15,
    16, 17, 19 and 20, which set up one queue step by step.
  \<^item> Defined, ProgramsDefined: no operation of the driver is undefined, by rules for each function;
    the root theory joins them to the options that \<open>main\<close> accepts.
  \<^item> UringEcho (\<open>07_echo_server.cpp\<close>), FileServer (\<open>13_file_server.cpp\<close>), FdQueue
    (the queue of \<open>19_multithread_echo.cpp\<close>): programs of \<open>io_uring/\<close> as state machines that the
    completions of the kernel drive, in any order the kernel chooses.
  \<^item> BufPool (\<open>10_provided_buffers.cpp\<close>): the echo server whose buffers the kernel picks from a pool; Multishot
    (\<open>11_multishot.cpp\<close>): the one whose requests complete many times.
  \<^item> Coro: echo servers with coroutines as values in frames, an event loop that resumes them, and a locale
    \<open>echo_coroutines\<close> with what a body owes; CoroServers: the programs (\<open>12_coroutine_echo.cpp\<close>, \<open>14_timeout.cpp\<close>,
    \<open>15_graceful_shutdown.cpp\<close>, \<open>18_registered_fds.cpp\<close>), which interpret it.
  \<^item> UringCopy (\<open>03_file_copy.cpp\<close>, \<open>04_linked_copy.cpp\<close>, \<open>05_pipeline_copy.cpp\<close>): the copies of a file.
  \<^item> Dump: the functions that print the contents of the DMA buffer, which return the lines they print.
  \<^item> Parse: numbers, MAC addresses and hex bytes of the command line.

  \<^bold>\<open>What is shown.\<close> Safety of memory against a hostile device: whatever the device writes, the loops of
  exercises 25, 26 and 28 to 30 and the dumps access only the DMA buffer, and no run of exercises 12 to
  30 that starts from the command line is undefined. Release: on every path, exceptions
  included, exercises 16 to 30 reset the device before its memory is unmapped or freed, and interrupts are
  unbound; exercises 12 and 18 put the queue selection back. Dry runs write nothing to the device. Function: the
  bytes of replies and commands, the order of register writes, the target of the doorbells, the vectors that are
  bound. Termination of every loop, with the cases where it needs an assumption, and the one loop that may not
  end (\<open>parse_region_caps\<close>). The servers: every byte received is sent back in order, a request gets its answer
  and no more, the buffers stay bounded, no coroutine is resumed after its end; what is put into the lock-free queue comes out once. Round trips of the parsers and printers.

  \<^bold>\<open>Fuel.\<close> Loops that wait take a number of rounds as their first argument and give \<open>OutOfFuel\<close> when it is used
  up. The theorems on termination show which number is enough: for the main loops a round for each
  nanosecond of the run, because the clock is read in every round; for the wait for a TX descriptor a round
  for each millisecond, because it sleeps; for the completion of a command or a packet
  (\<open>wait_used\<close>) a round for every 10 ms of the wait and one more; for a change of the status
  the time-out in ms; 102 rounds of 10 ms for the completions of the second
  after the run of exercise 25. \<open>env_fuel\<close> bounds the loops that repeat an interrupted or partial system call;
  \<open>pread_exact_complete\<close> and \<open>irq_loops_end\<close> state when it is enough. Loops over a used ring are bounded by its
  size and need no fuel.

  \<^bold>\<open>Assumptions about C++.\<close> \<open>size_t\<close> has 64 bits and the machine is little-endian, as the sources
  require. \<open>std::stoull\<close> is defined after the C17 standard, without binary literals. Memory allocation does not fail except
  for the mappings the sources make themselves. The arguments of a call are evaluated from left to
  right. The kernel headers define \<open>VIRTIO_PCI_COMMON_Q_NDATA\<close> and \<open>VIRTIO_PCI_COMMON_Q_RESET\<close>, which
  the sources test for. The memory fences are those of the volatile accesses.

  \<^bold>\<open>Not modelled.\<close> Messages on the console (other than dumps), \<open>usage\<close> and \<open>dry_run\<close>, which only print;
  the unmapping of BAR windows, which no later step depends on. Exercises 01 to 11 read
  sysfs files and print what they find, and open the device step by step. The other programs of
  \<open>io_uring/\<close> (variants of the echo server that use other ways of the library, a benchmark) and those of \<open>dpdk/\<close> are separate programs
  whose state is mostly that of the library they call. The Python tests, the build files and the documents are not
  program code of this kind.
\<close>

section \<open>From the command line to the last destructor\<close>

lemma mac_table_loop:
  assumes "option_loop mac_table_value_option observe_flag_option args opt = Inr (Some opt')"
    and "length (co_filter_mac opt) = 6"
  shows "length (co_filter_mac opt') = 6"
proof (rule option_loop_keeps [where P = "\<lambda>opt. length (co_filter_mac opt) = 6", OF _ _ assms])
  show "length (co_filter_mac o2) = 6"
    if "mac_table_value_option arg v o1 = Inr (Some o2)" "length (co_filter_mac o1) = 6" for arg v o1 o2
  proof (cases "arg = ''--filter-mac''")
    case True
    with that show ?thesis by (auto simp: mac_table_value_option_def res_iff intro: parse_mac_length)
  next
    case False
    with that observe_option_steps(1) [of arg v o1 o2] show ?thesis
      by (cases o1, cases o2) (simp add: mac_table_value_option_def)
  qed
  show "length (co_filter_mac o2) = 6"
    if "observe_flag_option arg o1 = Some o2" "length (co_filter_mac o1) = 6" for arg o1 o2
    using that observe_option_steps(2) [of arg o1 o2] by (cases o1, cases o2) simp
qed

lemma main_options:
  "echo_main exists args = Inr (Some (bdf, eopt)) \<Longrightarrow> mac_option_ok eopt"
  "irq_main exists args = Inr (Some (bdf, iopt)) \<Longrightarrow> mac_option_ok (io_echo iopt)"
  "mac_addr_main exists args = Inr (Some (bdf, aopt)) \<Longrightarrow> length (co_new_mac aopt) = 6"
  "mac_table_main exists args = Inr (Some (bdf, topt)) \<Longrightarrow> length (co_filter_mac topt) = 6"
proof -
  show "mac_option_ok eopt" if "echo_main exists args = Inr (Some (bdf, eopt))"
    using that echo_args_mac [of _ default_options]
    by (auto simp: echo_main_def Let_def res_iff default_options_mac split: list.splits if_splits option.splits)
  show "mac_option_ok (io_echo iopt)" if "irq_main exists args = Inr (Some (bdf, iopt))"
    using that irq_args_mac [of _ irq_opt]
    by (auto simp: irq_main_def Let_def res_iff default_options_mac irq_opt_def split: list.splits if_splits option.splits)
  show "length (co_new_mac aopt) = 6" if "mac_addr_main exists args = Inr (Some (bdf, aopt))"
    using that unfolding mac_addr_main_def
    by (rule ctrl_main_accepted) (erule mac_addr_loop, simp add: default_mac_addr_options_def)
  show "length (co_filter_mac topt) = 6" if "mac_table_main exists args = Inr (Some (bdf, topt))"
    using that unfolding mac_table_main_def
    by (rule ctrl_main_accepted) (erule mac_table_loop, simp add: default_mac_table_options_def)
qed

definition never_undefined :: "('w st, 'a) M \<Rightarrow> bool" where
  "never_undefined m \<longleftrightarrow> (\<forall>s e s'. m s = (Inl e, s') \<longrightarrow> \<not> is_ub e)"

lemma defined_never: "defined m \<Longrightarrow> never_undefined m"
  by (auto simp: never_undefined_def dest: definedD)



end
